(* ===== verification/Prelude.thy ===== *)
theory Prelude
  imports Main "HOL-Library.Word" "HOL-Library.Finite_Map" "HOL-Library.Char_ord"
    "HOL-Library.List_Lexorder" "HOL-Library.Product_Lexorder"
    "HOL-Library.Code_Target_Nat" "HOL-Library.Code_Target_Int"
begin

text \<open>
  What every component of the development shares: the machine integers of the Rust sources as
  ranges of \<^typ>\<open>nat\<close> and \<^typ>\<open>int\<close> with their saturating, checked and wrapping operations, the
  \<open>?\<close> operator on results, decimal and hexadecimal printing, and the generic lemmas on lists and
  finite maps that the component proofs use.
\<close>

named_theorems rust_int \<open>definitions of the machine-integer operations\<close>
named_theorems result_simps \<open>how a chain of fallible steps succeeds\<close>

section \<open>Definitions\<close>

subsection \<open>Machine integers\<close>

definition u32_max :: nat where
  "u32_max = 2 ^ 32 - 1"

definition u64_max :: nat where
  "u64_max = 2 ^ 64 - 1"

definition i64_max :: int where
  "i64_max = 2 ^ 63 - 1"

definition i64_min :: int where
  "i64_min = - (2 ^ 63)"

definition in_i64 :: "int \<Rightarrow> bool" where
  "in_i64 x \<longleftrightarrow> i64_min \<le> x \<and> x \<le> i64_max"

text \<open>\<open>saturating_add\<close>, \<open>saturating_mul\<close> and \<open>div_ceil\<close> on \<open>u64\<close>;
  \<open>saturating_sub\<close> is subtraction on \<^typ>\<open>nat\<close>.\<close>

definition sat_add64 :: "nat \<Rightarrow> nat \<Rightarrow> nat" where
  "sat_add64 a b = min (a + b) u64_max"

definition sat_mul64 :: "nat \<Rightarrow> nat \<Rightarrow> nat" where
  "sat_mul64 a b = min (a * b) u64_max"

definition div_ceil :: "nat \<Rightarrow> nat \<Rightarrow> nat" where
  "div_ceil a b = a div b + (if a mod b = 0 then 0 else 1)"

text \<open>Plain \<open>+\<close> and \<open>-\<close> on \<open>i64\<close> wrap in a release build; \<open>checked_add\<close> is \<open>None\<close> on overflow;
  \<open>as u32\<close> and a plain \<open>*\<close> on \<open>u64\<close> keep the low bits.\<close>

definition wrap_i64 :: "int \<Rightarrow> int" where
  "wrap_i64 x = (x + 2 ^ 63) mod 2 ^ 64 - 2 ^ 63"

definition checked_add_i64 :: "int \<Rightarrow> int \<Rightarrow> int option" where
  "checked_add_i64 a b = (if in_i64 (a + b) then Some (a + b) else None)"

definition as_u32 :: "nat \<Rightarrow> nat" where
  "as_u32 n = n mod 2 ^ 32"

definition wrap_u64 :: "nat \<Rightarrow> nat" where
  "wrap_u64 n = n mod 2 ^ 64"

subsection \<open>Results\<close>

text \<open>\<open>qbind r k\<close> is \<open>k(r?)\<close>: the error of \<open>r\<close> is returned, its value is passed on.\<close>

definition qbind :: "'e + 'a \<Rightarrow> ('a \<Rightarrow> 'e + 'b) \<Rightarrow> 'e + 'b" where
  "qbind r k = (case r of Inl e \<Rightarrow> Inl e | Inr v \<Rightarrow> k v)"

text \<open>\<open>map_err\<close> re-wraps the error of a result.\<close>

definition map_err :: "('e \<Rightarrow> 'f) \<Rightarrow> 'e + 'a \<Rightarrow> 'f + 'a" where
  "map_err f r = (case r of Inl e \<Rightarrow> Inl (f e) | Inr v \<Rightarrow> Inr v)"

text \<open>\<open>is_ok\<close>.\<close>

definition is_ok :: "'e + 'a \<Rightarrow> bool" where
  "is_ok r = (case r of Inl _ \<Rightarrow> False | Inr _ \<Rightarrow> True)"

text \<open>A loop over a list whose body updates a state and may fail.\<close>

fun fold_result :: "('a \<Rightarrow> 's \<Rightarrow> 'e + 's) \<Rightarrow> 'a list \<Rightarrow> 's \<Rightarrow> 'e + 's" where
  "fold_result f [] s = Inr s"
| "fold_result f (x # xs) s = qbind (f x s) (fold_result f xs)"

subsection \<open>Printing\<close>

text \<open>\<open>Display\<close> for unsigned and signed integers: decimal digits, most significant first.\<close>

fun show_nat :: "nat \<Rightarrow> string" where
  "show_nat n = (if n < 10 then [char_of (48 + n)]
                 else show_nat (n div 10) @ [char_of (48 + n mod 10)])"

definition show_int :: "int \<Rightarrow> string" where
  "show_int i = (if i < 0 then ''-'' @ show_nat (nat (- i)) else show_nat (nat i))"

definition hex_digit :: "nat \<Rightarrow> char" where
  "hex_digit n = (if n < 10 then char_of (48 + n) else char_of (87 + n))"

subsection \<open>Iterators\<close>

text \<open>\<open>Iterator::max_by\<close>: the last of the maximal elements.\<close>

fun max_by :: "('a \<Rightarrow> 'a \<Rightarrow> bool) \<Rightarrow> 'a list \<Rightarrow> 'a option" where
  "max_by beats [] = None"
| "max_by beats (x # xs) = Some (foldl (\<lambda>best y. if beats best y then best else y) x xs)"

section \<open>Lemmas\<close>

subsection \<open>Machine integers\<close>

lemmas range_defs [rust_int] = u32_max_def u64_max_def i64_max_def i64_min_def in_i64_def

lemma wrap_i64_id [simp]: "in_i64 x \<Longrightarrow> wrap_i64 x = x"
  by (simp add: wrap_i64_def range_defs)

lemma wrap_i64_range: "in_i64 (wrap_i64 x)"
proof -
  have "0 \<le> (x + 2 ^ 63) mod 2 ^ 64" "(x + 2 ^ 63) mod 2 ^ 64 < 2 ^ 64"
    by simp_all
  then show ?thesis by (simp add: wrap_i64_def range_defs)
qed

lemma checked_add_i64_Some [simp]:
  "checked_add_i64 a b = Some c \<longleftrightarrow> c = a + b \<and> in_i64 (a + b)"
  by (auto simp: checked_add_i64_def)

lemma as_u32_id [simp]: "n \<le> u32_max \<Longrightarrow> as_u32 n = n"
  by (simp add: as_u32_def u32_max_def)

lemma wrap_u64_id [simp]: "n \<le> u64_max \<Longrightarrow> wrap_u64 n = n"
  by (simp add: wrap_u64_def u64_max_def)

lemma sat_add64_le [simp]: "sat_add64 a b \<le> u64_max"
  by (simp add: sat_add64_def)

lemma sat_mul64_le [simp]: "sat_mul64 a b \<le> u64_max"
  by (simp add: sat_mul64_def)

lemma div_ceil_mult_ge: "0 < b \<Longrightarrow> a \<le> div_ceil a b * b"
proof -
  assume "0 < b"
  then have "a mod b \<le> b" by (simp add: less_imp_le)
  moreover have "a div b * b + a mod b = a" by simp
  ultimately have "a \<le> a div b * b + b" by linarith
  then show ?thesis by (auto simp: div_ceil_def mult.commute)
qed

lemma div_ceil_le: "a \<le> c * b \<Longrightarrow> 0 < b \<Longrightarrow> div_ceil a b \<le> c"
proof -
  assume le: "a \<le> c * b" and b: "0 < b"
  have eq: "a div b * b + a mod b = a" by simp
  show ?thesis
  proof (cases "a mod b = 0")
    case True
    have "a div b \<le> c * b div b" using le by (rule div_le_mono)
    with True b show ?thesis by (simp add: div_ceil_def)
  next
    case False
    with eq le have "a div b * b < c * b" by linarith
    then have "a div b < c" by simp
    with False show ?thesis by (simp add: div_ceil_def)
  qed
qed

lemma div_ceil_mono: "a \<le> b \<Longrightarrow> 0 < c \<Longrightarrow> div_ceil a c \<le> div_ceil b c"
  using div_ceil_le div_ceil_mult_ge le_trans by metis

lemma div_ceil_add: "0 < c \<Longrightarrow> div_ceil (a + b) c \<le> div_ceil a c + div_ceil b c"
proof -
  assume c: "0 < c"
  have "a + b \<le> (div_ceil a c + div_ceil b c) * c"
    using div_ceil_mult_ge[OF c, of a] div_ceil_mult_ge[OF c, of b]
    by (simp add: distrib_right)
  then show ?thesis using c by (rule div_ceil_le)
qed

subsection \<open>Results\<close>

lemma qbind_simps [simp]:
  "qbind (Inl e) k = Inl e"
  "qbind (Inr v) k = k v"
  by (simp_all add: qbind_def)

lemma qbind_Inr [simp, result_simps]:
  "qbind r k = Inr y \<longleftrightarrow> (\<exists>v. r = Inr v \<and> k v = Inr y)"
  by (cases r) auto

lemma qbind_Inl: "qbind r k = Inl e \<longleftrightarrow> r = Inl e \<or> (\<exists>v. r = Inr v \<and> k v = Inl e)"
  by (cases r) auto

lemma map_err_Inr [simp, result_simps]: "map_err f r = Inr v \<longleftrightarrow> r = Inr v"
  by (cases r) (auto simp: map_err_def)

lemma map_err_simps [simp]: "map_err f (Inl e) = Inl (f e)" "map_err f (Inr v) = Inr v"
  by (simp_all add: map_err_def)

lemma is_ok_simps [simp]: "is_ok (Inl e) = False" "is_ok (Inr v) = True"
  by (simp_all add: is_ok_def)

lemma is_ok_iff: "is_ok r \<longleftrightarrow> (\<exists>v. r = Inr v)"
  by (cases r) auto

lemma if_Inl_Inr [simp, result_simps]:
  "(if b then Inl e else r) = Inr v \<longleftrightarrow> \<not> b \<and> r = Inr v"
  by auto

lemma fold_result_append:
  "fold_result f (xs @ ys) s = qbind (fold_result f xs s) (fold_result f ys)"
proof (induction xs arbitrary: s)
  case (Cons x xs)
  then show ?case by (cases "f x s") auto
qed simp

text \<open>An invariant of the loop body is an invariant of the loop.\<close>

lemma fold_result_invariant:
  assumes "fold_result f xs s = Inr t" and "I s"
    and "\<And>x u v. x \<in> set xs \<Longrightarrow> I u \<Longrightarrow> f x u = Inr v \<Longrightarrow> I v"
  shows "I t"
  using assms by (induction xs arbitrary: s) auto

subsection \<open>Printing\<close>

declare show_nat.simps [simp del]

definition read_nat :: "string \<Rightarrow> nat" where
  "read_nat s = foldl (\<lambda>acc c. 10 * acc + (of_char c - 48)) 0 s"

lemma of_char_digit: "d < 10 \<Longrightarrow> of_char (char_of (48 + d) :: char) = (48 + d :: nat)"
  by (simp add: of_char_of)

lemma read_show_nat: "read_nat (show_nat n) = n"
proof (induction n rule: show_nat.induct)
  case (1 n)
  show ?case
  proof (cases "n < 10")
    case True
    then show ?thesis
      by (subst show_nat.simps) (simp add: read_nat_def of_char_digit)
  next
    case False
    with 1 have "read_nat (show_nat (n div 10)) = n div 10" by simp
    with False show ?thesis
      by (subst show_nat.simps) (simp add: read_nat_def of_char_digit)
  qed
qed

lemma show_nat_inj [simp]: "show_nat m = show_nat n \<longleftrightarrow> m = n"
  using read_show_nat by metis

lemma show_nat_digits: "c \<in> set (show_nat n) \<Longrightarrow> \<exists>d<10. c = char_of (48 + d :: nat)"
proof (induction n rule: show_nat.induct)
  case (1 n)
  show ?case
  proof (cases "n < 10")
    case True
    then have "show_nat n = [char_of (48 + n)]" by (simp add: show_nat.simps)
    with 1 True show ?thesis by (metis empty_iff empty_set set_ConsD)
  next
    case False
    then have "c \<in> set (show_nat (n div 10)) \<or> c = char_of (48 + n mod 10)"
      using 1(2) by (simp only: show_nat.simps[of n] if_False) auto
    then show ?thesis
      using 1(1)[OF False] by (metis mod_less_divisor zero_less_numeral)
  qed
qed

lemma show_nat_no_colon: "CHR '':'' \<notin> set (show_nat n)"
proof
  assume "CHR '':'' \<in> set (show_nat n)"
  then obtain d where "d < 10" "CHR '':'' = char_of (48 + d :: nat)"
    using show_nat_digits by blast
  then have "of_char (CHR '':'') = 48 + d"
    using of_char_digit by metis
  with \<open>d < 10\<close> show False by simp
qed

lemma show_int_chars: "c \<in> set (show_int i) \<Longrightarrow> c = CHR ''-'' \<or> (\<exists>d<10. c = char_of (48 + d :: nat))"
proof -
  assume "c \<in> set (show_int i)"
  then have "c = CHR ''-'' \<or> c \<in> set (show_nat (nat (- i))) \<or> c \<in> set (show_nat (nat i))"
    by (auto simp: show_int_def split: if_splits)
  then show ?thesis using show_nat_digits by blast
qed

lemma show_int_no_bar: "CHR ''|'' \<notin> set (show_int i)"
proof
  assume "CHR ''|'' \<in> set (show_int i)"
  then have "CHR ''|'' = CHR ''-'' \<or> (\<exists>d<10. CHR ''|'' = char_of (48 + d :: nat))"
    by (rule show_int_chars)
  moreover have "CHR ''|'' \<noteq> CHR ''-''" by simp
  ultimately obtain d where "d < 10" "CHR ''|'' = char_of (48 + d :: nat)" by blast
  then have "of_char (CHR ''|'') = 48 + d"
    using of_char_digit by metis
  with \<open>d < 10\<close> show False by simp
qed

lemma show_nat_not_minus: "CHR ''-'' \<notin> set (show_nat n)"
proof
  assume "CHR ''-'' \<in> set (show_nat n)"
  then obtain d where "d < 10" "CHR ''-'' = char_of (48 + d :: nat)"
    using show_nat_digits by blast
  then have "of_char (CHR ''-'') = 48 + d"
    using of_char_digit by metis
  then show False by simp
qed

lemma show_int_inj [simp]: "show_int i = show_int j \<longleftrightarrow> i = j"
proof
  assume eq: "show_int i = show_int j"
  have "i < 0 \<longleftrightarrow> j < 0"
    using eq show_nat_not_minus[of "nat i"] show_nat_not_minus[of "nat j"]
    by (cases "i < 0"; cases "j < 0") (auto simp: show_int_def dest: sym)
  with eq show "i = j" by (auto simp: show_int_def split: if_splits)
qed simp

subsection \<open>Separated strings\<close>

text \<open>A separator that does not occur in the first field splits a string one way only, and so does
  one that does not occur in the last.\<close>

lemma append_sep_inj:
  assumes "xs @ s # ys = xs' @ s # ys'" and "s \<notin> set xs" and "s \<notin> set xs'"
  shows "xs = xs' \<and> ys = ys'"
  using assms by (induction xs arbitrary: xs') (auto simp: Cons_eq_append_conv append_eq_Cons_conv)

lemma append_sep_inj_right:
  assumes eq: "xs @ s # ys = xs' @ s # ys'" and "s \<notin> set ys" and "s \<notin> set ys'"
  shows "xs = xs' \<and> ys = ys'"
proof -
  have "rev ys @ s # rev xs = rev ys' @ s # rev xs'"
    using arg_cong[OF eq, of rev] by simp
  then have "rev ys = rev ys' \<and> rev xs = rev xs'"
    using assms(2,3) by (intro append_sep_inj) auto
  then show ?thesis by simp
qed

lemma in_map_filter: "y \<in> set (List.map_filter g xs) \<longleftrightarrow> (\<exists>x\<in>set xs. g x = Some y)"
  by (induction xs) (auto simp: map_filter_simps split: option.splits)

subsection \<open>Iterators\<close>

lemma foldl_max_in: "foldl (\<lambda>best y. if beats best y then best else y) x xs \<in> set (x # xs)"
  by (induction xs arbitrary: x) auto

lemma max_by_in: "max_by beats xs = Some m \<Longrightarrow> m \<in> set xs"
  using foldl_max_in[of beats "hd xs" "tl xs"] by (cases xs) auto

lemma max_by_None [simp]: "max_by beats xs = None \<longleftrightarrow> xs = []"
  by (cases xs) auto

text \<open>Over a strict order that is transitive and total on the elements, nothing beats the winner.\<close>

lemma foldl_max_unbeaten:
  assumes "transp_on (set (x # xs)) beats" "asymp_on (set (x # xs)) beats"
    and "\<And>a b c. a \<in> set (x # xs) \<Longrightarrow> b \<in> set (x # xs) \<Longrightarrow> c \<in> set (x # xs) \<Longrightarrow>
       \<not> beats a b \<Longrightarrow> beats a c \<Longrightarrow> beats b c"
  shows "\<forall>y\<in>set (x # xs). \<not> beats y (foldl (\<lambda>best y. if beats best y then best else y) x xs)"
  using assms
proof (induction xs arbitrary: x)
  case Nil
  then show ?case by (auto dest: asymp_onD)
next
  case (Cons z zs)
  let ?w = "if beats x z then x else z"
  have sub: "set (?w # zs) \<subseteq> set (x # z # zs)" by auto
  have ih: "\<forall>y\<in>set (?w # zs). \<not> beats y (foldl (\<lambda>best y. if beats best y then best else y) ?w zs)"
    (is "\<forall>y\<in>_. \<not> beats y ?m")
    by (rule Cons.IH[OF transp_on_subset[OF Cons.prems(1) sub] asymp_on_subset[OF Cons.prems(2) sub]])
       (rule Cons.prems(3), (erule subsetD[OF sub] | assumption)+)
  have m: "?m \<in> set (x # z # zs)" using foldl_max_in[of beats ?w zs] sub by blast
  have "\<not> beats x ?m" "\<not> beats z ?m"
  proof -
    have "beats z ?m \<Longrightarrow> beats x z \<Longrightarrow> beats x ?m" using Cons.prems(1) m by (auto dest: transp_onD)
    then show "\<not> beats z ?m" using ih by (auto split: if_splits)
    have "\<not> beats x z \<Longrightarrow> beats x ?m \<Longrightarrow> beats z ?m" using Cons.prems(3)[of x z ?m] m by simp
    then show "\<not> beats x ?m" using ih by (auto split: if_splits)
  qed
  then show ?case using ih by (auto split: if_splits)
qed

lemma max_by_linorder:
  fixes key :: "'a \<Rightarrow> 'b :: linorder"
  assumes "max_by (\<lambda>x y. key x > key y) xs = Some m" "y \<in> set xs"
  shows "key y \<le> key m"
proof -
  obtain z zs where xs: "xs = z # zs" using assms(2) by (cases xs) auto
  have "\<forall>y\<in>set (z # zs). \<not> key (foldl (\<lambda>best y. if key best > key y then best else y) z zs) < key y"
    by (rule foldl_max_unbeaten) (auto intro: transp_onI asymp_onI)
  moreover have "m = foldl (\<lambda>best y. if key best > key y then best else y) z zs"
    using assms(1) by (simp add: xs)
  ultimately show ?thesis using assms(2) unfolding xs by (simp only: not_less)
qed

end
