(* ===== verification/Protocol.thy ===== *)
theory Protocol
  imports Prelude
begin

text \<open>
  The wire protocol (\<open>crates/hocmesh-protocol/src/lib.rs\<close>): the signed request proof, the work
  specifications and results, the inference bill, the documents every party hashes and signs, the
  identifiers derived from those hashes, and request authentication.

  Hashing, JSON serialisation, Base64 and Ed25519 are third-party code: they are the fields of the
  record \<open>crypto\<close>, an argument of every definition that uses them.  What serde is given is a value of
  the datatype \<open>json\<close>; the field names and their order are the ones of the derived serialisers.
\<close>

section \<open>Definitions\<close>

subsection \<open>Third-party parameters\<close>

datatype json =
    JNull
  | JBool bool
  | JNum int
  | JStr string
  | JArr "json list"
  | JObj "(string \<times> json) list"

record crypto =
  sha256 :: "string \<Rightarrow> string"
  json_encode :: "json \<Rightarrow> string"
  b64_decode :: "string \<Rightarrow> string option"
  ed_key_ok :: "string \<Rightarrow> bool"
  ed_sig_ok :: "string \<Rightarrow> bool"
  ed_verify :: "string \<Rightarrow> string \<Rightarrow> string \<Rightarrow> bool"

definition hex_lower :: "string \<Rightarrow> string" where
  "hex_lower bytes =
     concat (map (\<lambda>b. [hex_digit (of_char b div 16), hex_digit (of_char b mod 16)]) bytes)"

definition hash_bytes :: "crypto \<Rightarrow> string \<Rightarrow> string" where
  "hash_bytes c bytes = hex_lower (sha256 c bytes)"

definition hash_json :: "crypto \<Rightarrow> json \<Rightarrow> string" where
  "hash_json c j = hash_bytes c (json_encode c j)"

definition empty_body_hash :: "crypto \<Rightarrow> string" where
  "empty_body_hash c = hash_bytes c ''''"

subsection \<open>Constants\<close>

definition PROTOCOL_VERSION :: nat where
  "PROTOCOL_VERSION = 6"

definition AUTH_MAX_CLOCK_SKEW_SECS :: int where
  "AUTH_MAX_CLOCK_SKEW_SECS = 300"

definition DEFAULT_LEASE_SECONDS :: int where
  "DEFAULT_LEASE_SECONDS = 900"

definition MAX_LEASE_SECONDS :: int where
  "MAX_LEASE_SECONDS = DEFAULT_LEASE_SECONDS * 3"

definition SETTLEMENT_WINDOW_SECS :: int where
  "SETTLEMENT_WINDOW_SECS = DEFAULT_LEASE_SECONDS * 4"

subsection \<open>Data\<close>

record auth_proof =
  ap_node_id :: string
  ap_timestamp :: int
  ap_nonce_b64 :: string
  ap_signature_b64 :: string

datatype work_spec =
    PrimeCount (ws_start: nat) (ws_end: nat)
  | MatrixMultiply (ws_seed_a: nat) (ws_seed_b: nat) (ws_dim: nat) (ws_row_start: nat) (ws_row_end: nat)
  | CollatzPeak (ws_start: nat) (ws_end: nat)

datatype work_result =
    RPrimeCount nat "nat list" nat
  | RMatrixMultiply "nat list" nat
  | RCollatzPeak nat nat "nat list" "nat list" nat

datatype audit_class = SelfContained | RevealRequired

record inference_billing =
  ib_manifest_digest :: string
  ib_parameter_count :: nat
  ib_total_size_bytes :: nat
  ib_prompts_digest :: string
  ib_prompt_bytes :: "nat list"
  ib_max_tokens :: nat
  ib_max_cost_mcu :: int

record priced_batch =
  pb_batch_start :: nat
  pb_batch_end :: nat
  pb_node_id :: string

subsection \<open>What serde writes\<close>

definition jnat :: "nat \<Rightarrow> json" where
  "jnat n = JNum (int n)"

definition jopt :: "('a \<Rightarrow> json) \<Rightarrow> 'a option \<Rightarrow> json" where
  "jopt f o' = (case o' of None \<Rightarrow> JNull | Some x \<Rightarrow> f x)"

definition auth_proof_json :: "auth_proof \<Rightarrow> json" where
  "auth_proof_json p = JObj
     [(''node_id'', JStr (ap_node_id p)), (''timestamp'', JNum (ap_timestamp p)),
      (''nonce_b64'', JStr (ap_nonce_b64 p)), (''signature_b64'', JStr (ap_signature_b64 p))]"

fun work_spec_json :: "work_spec \<Rightarrow> json" where
  "work_spec_json (PrimeCount s e) = JObj
     [(''kind'', JStr ''prime_count''), (''start'', jnat s), (''end'', jnat e)]"
| "work_spec_json (MatrixMultiply a b d rs re) = JObj
     [(''kind'', JStr ''matrix_multiply''), (''seed_a'', jnat a), (''seed_b'', jnat b),
      (''dim'', jnat d), (''row_start'', jnat rs), (''row_end'', jnat re)]"
| "work_spec_json (CollatzPeak s e) = JObj
     [(''kind'', JStr ''collatz_peak''), (''start'', jnat s), (''end'', jnat e)]"

fun work_result_json :: "work_result \<Rightarrow> json" where
  "work_result_json (RPrimeCount n bs d) = JObj
     [(''kind'', JStr ''prime_count''), (''count'', jnat n),
      (''bucket_counts'', JArr (map jnat bs)), (''duration_ms'', jnat d)]"
| "work_result_json (RMatrixMultiply rs d) = JObj
     [(''kind'', JStr ''matrix_multiply''), (''rows'', JArr (map jnat rs)), (''duration_ms'', jnat d)]"
| "work_result_json (RCollatzPeak p s ps ss d) = JObj
     [(''kind'', JStr ''collatz_peak''), (''peak_steps'', jnat p), (''peak_seed'', jnat s),
      (''bucket_peaks'', JArr (map jnat ps)), (''bucket_seeds'', JArr (map jnat ss)),
      (''duration_ms'', jnat d)]"

definition inference_billing_json :: "inference_billing \<Rightarrow> json" where
  "inference_billing_json b = JObj
     [(''manifest_digest'', JStr (ib_manifest_digest b)),
      (''parameter_count'', jnat (ib_parameter_count b)),
      (''total_size_bytes'', jnat (ib_total_size_bytes b)),
      (''prompts_digest'', JStr (ib_prompts_digest b)),
      (''prompt_bytes'', JArr (map jnat (ib_prompt_bytes b))),
      (''max_tokens'', jnat (ib_max_tokens b)),
      (''max_cost_mcu'', JNum (ib_max_cost_mcu b))]"

definition priced_batch_json :: "priced_batch \<Rightarrow> json" where
  "priced_batch_json b = JObj
     [(''batch_start'', jnat (pb_batch_start b)), (''batch_end'', jnat (pb_batch_end b)),
      (''node_id'', JStr (pb_node_id b))]"

subsection \<open>The documents that are hashed and signed\<close>

definition submit_body :: "work_spec \<Rightarrow> nat \<Rightarrow> json" where
  "submit_body w s = JArr [work_spec_json w, jnat s]"

definition result_body ::
  "string \<Rightarrow> string \<Rightarrow> nat \<Rightarrow> work_spec \<Rightarrow> int \<Rightarrow> bool \<Rightarrow> work_result \<Rightarrow> json" where
  "result_body aid job_id shard_index work reward_mcu system_funded r =
     JArr [JStr aid, JStr job_id, jnat shard_index, work_spec_json work, JNum reward_mcu,
           JBool system_funded, work_result_json r]"

definition refund_body ::
  "string \<Rightarrow> string \<Rightarrow> nat \<Rightarrow> work_spec \<Rightarrow> int \<Rightarrow> bool \<Rightarrow> json" where
  "refund_body aid job_id shard_index work refund_mcu system_funded =
     JArr [JStr ''refund'', JStr aid, JStr job_id, jnat shard_index, work_spec_json work,
           JNum refund_mcu, JBool system_funded]"

definition inference_submit_body :: "string \<Rightarrow> string \<Rightarrow> json" where
  "inference_submit_body billing_hash settings_digest =
     JArr [JStr ''inference_submit'', JStr billing_hash, JStr settings_digest]"

definition inference_reward_body ::
  "string \<Rightarrow> string \<Rightarrow> nat \<Rightarrow> nat \<Rightarrow> int \<Rightarrow> string \<Rightarrow> json" where
  "inference_reward_body aid job_id b_start b_end reward_mcu outputs_digest =
     JArr [JStr ''inference_reward'', JStr aid, JStr job_id, jnat b_start, jnat b_end,
           JNum reward_mcu, JStr outputs_digest]"

definition inference_refund_body ::
  "string \<Rightarrow> string \<Rightarrow> nat \<Rightarrow> nat \<Rightarrow> int \<Rightarrow> json" where
  "inference_refund_body aid job_id b_start b_end refund_mcu =
     JArr [JStr ''inference_refund'', JStr aid, JStr job_id, jnat b_start, jnat b_end,
           JNum refund_mcu]"

definition inference_receipt_body ::
  "string \<Rightarrow> string \<Rightarrow> nat \<Rightarrow> nat \<Rightarrow> int \<Rightarrow> string \<Rightarrow> json" where
  "inference_receipt_body aid job_id b_start b_end price_mcu outputs_digest =
     JArr [JStr ''inference_receipt'', JStr aid, JStr job_id, jnat b_start, jnat b_end,
           JNum price_mcu, JStr outputs_digest]"

definition inference_verdict_body ::
  "bool \<Rightarrow> string \<Rightarrow> string \<Rightarrow> nat \<Rightarrow> nat \<Rightarrow> int \<Rightarrow> string \<Rightarrow> json" where
  "inference_verdict_body accepted aid job_id b_start b_end price_mcu outputs_digest =
     JArr [JStr (if accepted then ''inference_accept'' else ''inference_dispute''),
           JStr aid, JStr job_id, jnat b_start, jnat b_end, JNum price_mcu, JStr outputs_digest]"

definition submit_body_hash :: "crypto \<Rightarrow> work_spec \<Rightarrow> nat \<Rightarrow> string" where
  "submit_body_hash c w s = hash_json c (submit_body w s)"

definition result_body_hash ::
  "crypto \<Rightarrow> string \<Rightarrow> string \<Rightarrow> nat \<Rightarrow> work_spec \<Rightarrow> int \<Rightarrow> bool \<Rightarrow> work_result \<Rightarrow> string" where
  "result_body_hash c aid job i w m sf r = hash_json c (result_body aid job i w m sf r)"

definition refund_body_hash ::
  "crypto \<Rightarrow> string \<Rightarrow> string \<Rightarrow> nat \<Rightarrow> work_spec \<Rightarrow> int \<Rightarrow> bool \<Rightarrow> string" where
  "refund_body_hash c aid job i w m sf = hash_json c (refund_body aid job i w m sf)"

definition inference_billing_hash :: "crypto \<Rightarrow> inference_billing \<Rightarrow> string" where
  "inference_billing_hash c b = hash_json c (inference_billing_json b)"

definition inference_submit_body_hash :: "crypto \<Rightarrow> string \<Rightarrow> string \<Rightarrow> string" where
  "inference_submit_body_hash c bh sd = hash_json c (inference_submit_body bh sd)"

definition inference_reward_body_hash ::
  "crypto \<Rightarrow> string \<Rightarrow> string \<Rightarrow> nat \<Rightarrow> nat \<Rightarrow> int \<Rightarrow> string \<Rightarrow> string" where
  "inference_reward_body_hash c aid job s e m d =
     hash_json c (inference_reward_body aid job s e m d)"

definition inference_refund_body_hash ::
  "crypto \<Rightarrow> string \<Rightarrow> string \<Rightarrow> nat \<Rightarrow> nat \<Rightarrow> int \<Rightarrow> string" where
  "inference_refund_body_hash c aid job s e m = hash_json c (inference_refund_body aid job s e m)"

definition inference_receipt_body_hash ::
  "crypto \<Rightarrow> string \<Rightarrow> string \<Rightarrow> nat \<Rightarrow> nat \<Rightarrow> int \<Rightarrow> string \<Rightarrow> string" where
  "inference_receipt_body_hash c aid job s e m d =
     hash_json c (inference_receipt_body aid job s e m d)"

definition inference_verdict_body_hash ::
  "crypto \<Rightarrow> bool \<Rightarrow> string \<Rightarrow> string \<Rightarrow> nat \<Rightarrow> nat \<Rightarrow> int \<Rightarrow> string \<Rightarrow> string" where
  "inference_verdict_body_hash c acc aid job s e m d =
     hash_json c (inference_verdict_body acc aid job s e m d)"

subsection \<open>Derived identifiers\<close>

definition node_id_from_public_key :: "crypto \<Rightarrow> string \<Rightarrow> string" where
  "node_id_from_public_key c pk = ''hocmesh_'' @ hex_lower (take 16 (sha256 c pk))"

definition node_id_from_public_key_b64 :: "crypto \<Rightarrow> string \<Rightarrow> string option" where
  "node_id_from_public_key_b64 c pk_b64 =
     (case b64_decode c pk_b64 of
        None \<Rightarrow> None
      | Some raw \<Rightarrow> if length raw \<noteq> 32 then None else Some (node_id_from_public_key c raw))"

definition job_id_from_auth :: "crypto \<Rightarrow> auth_proof \<Rightarrow> string" where
  "job_id_from_auth c p = ''job_'' @ take 32 (hash_bytes c (ap_nonce_b64 p))"

definition assignment_id :: "crypto \<Rightarrow> string \<Rightarrow> nat \<Rightarrow> string" where
  "assignment_id c job_id shard_index =
     ''asg_'' @ take 20 (hash_bytes c job_id) @ ''_'' @ show_nat shard_index"

definition inference_job_id_from_auth :: "crypto \<Rightarrow> auth_proof \<Rightarrow> string" where
  "inference_job_id_from_auth c p = ''ai_'' @ take 32 (hash_bytes c (ap_nonce_b64 p))"

definition inference_assignment_id :: "crypto \<Rightarrow> string \<Rightarrow> nat \<Rightarrow> string" where
  "inference_assignment_id c job_id index =
     ''aiasg_'' @ take 20 (hash_bytes c job_id) @ ''_'' @ show_nat index"

definition parameter_count_is_plausible :: "nat \<Rightarrow> nat \<Rightarrow> bool" where
  "parameter_count_is_plausible parameter_count total_size_bytes \<longleftrightarrow>
     parameter_count > 0 \<and> parameter_count \<le> sat_mul64 total_size_bytes 2"

subsection \<open>Work specifications\<close>

datatype work_error =
    PrimeRangeEmpty | PrimeRangeTooLarge
  | MatrixDim | MatrixRowsEmpty | MatrixRowsBeyondDim
  | CollatzRangeEmpty | CollatzFromZero | CollatzRangeTooLarge

fun audit_class_of :: "work_spec \<Rightarrow> audit_class" where
  "audit_class_of (PrimeCount _ _) = SelfContained"
| "audit_class_of (MatrixMultiply _ _ _ _ _) = SelfContained"
| "audit_class_of (CollatzPeak _ _) = SelfContained"

fun work_spec_validate :: "work_spec \<Rightarrow> work_error + unit" where
  "work_spec_validate (PrimeCount s e) =
     (if s \<ge> e then Inl PrimeRangeEmpty
      else if e - s > 2000000000 then Inl PrimeRangeTooLarge
      else Inr ())"
| "work_spec_validate (MatrixMultiply _ _ d rs re) =
     (if d = 0 \<or> d > 512 then Inl MatrixDim
      else if rs \<ge> re then Inl MatrixRowsEmpty
      else if re > d then Inl MatrixRowsBeyondDim
      else Inr ())"
| "work_spec_validate (CollatzPeak s e) =
     (if s \<ge> e then Inl CollatzRangeEmpty
      else if s = 0 then Inl CollatzFromZero
      else if e - s > 2000000000 then Inl CollatzRangeTooLarge
      else Inr ())"

text \<open>The values a \<open>WorkSpec\<close> of the source can hold: \<open>u64\<close> bounds and seeds, \<open>u32\<close> dimensions.\<close>

fun work_spec_typed :: "work_spec \<Rightarrow> bool" where
  "work_spec_typed (PrimeCount s e) \<longleftrightarrow> s \<le> u64_max \<and> e \<le> u64_max"
| "work_spec_typed (MatrixMultiply a b d rs re) \<longleftrightarrow>
     a \<le> u64_max \<and> b \<le> u64_max \<and> d \<le> u32_max \<and> rs \<le> u32_max \<and> re \<le> u32_max"
| "work_spec_typed (CollatzPeak s e) \<longleftrightarrow> s \<le> u64_max \<and> e \<le> u64_max"

subsection \<open>Request authentication\<close>

datatype auth_error =
    KeyEncoding | KeyLength | NodeIdMismatch | SignatureEncoding | SignatureMalformed
  | KeyMalformed | SignatureInvalid | ClockSkew | NonceTooShort

definition canonical_auth_message ::
  "string \<Rightarrow> string \<Rightarrow> int \<Rightarrow> string \<Rightarrow> string \<Rightarrow> string" where
  "canonical_auth_message action node_id timestamp nonce_b64 body_hash =
     ''hocmesh-v'' @ show_nat PROTOCOL_VERSION @ ''|'' @ action @ ''|'' @ node_id @ ''|'' @
     show_int timestamp @ ''|'' @ nonce_b64 @ ''|'' @ body_hash"

definition verify_auth_signature ::
  "crypto \<Rightarrow> string \<Rightarrow> auth_proof \<Rightarrow> string \<Rightarrow> string \<Rightarrow> auth_error + unit" where
  "verify_auth_signature c public_key_b64 proof action body_hash =
     (case b64_decode c public_key_b64 of
        None \<Rightarrow> Inl KeyEncoding
      | Some pk \<Rightarrow>
          if length pk \<noteq> 32 then Inl KeyLength
          else if node_id_from_public_key c pk \<noteq> ap_node_id proof then Inl NodeIdMismatch
          else (case b64_decode c (ap_signature_b64 proof) of
              None \<Rightarrow> Inl SignatureEncoding
            | Some sb \<Rightarrow>
                if \<not> ed_sig_ok c sb then Inl SignatureMalformed
                else if \<not> ed_key_ok c pk then Inl KeyMalformed
                else if ed_verify c pk
                          (canonical_auth_message action (ap_node_id proof) (ap_timestamp proof)
                             (ap_nonce_b64 proof) body_hash) sb
                then Inr () else Inl SignatureInvalid))"

text \<open>The clock is an argument.  The difference and its absolute value are taken in \<open>i64\<close>.\<close>

definition verify_auth ::
  "crypto \<Rightarrow> int \<Rightarrow> string \<Rightarrow> auth_proof \<Rightarrow> string \<Rightarrow> string \<Rightarrow> auth_error + unit" where
  "verify_auth c now public_key_b64 proof action body_hash =
     (if wrap_i64 \<bar>wrap_i64 (now - ap_timestamp proof)\<bar> > AUTH_MAX_CLOCK_SKEW_SECS then Inl ClockSkew
      else if length (ap_nonce_b64 proof) < 16 then Inl NonceTooShort
      else verify_auth_signature c public_key_b64 proof action body_hash)"

section \<open>Lemmas\<close>

subsection \<open>Documents determine what they document\<close>

lemma jnat_inj [simp]: "jnat a = jnat b \<longleftrightarrow> a = b"
  by (simp add: jnat_def)

lemma map_jnat_inj [simp]: "map jnat xs = map jnat ys \<longleftrightarrow> xs = ys"
  by (rule inj_map_eq_map) (simp add: inj_def)

lemma jnat_neq [simp]:
  "jnat n \<noteq> JStr s" "JStr s \<noteq> jnat n" "jnat n \<noteq> JNull" "JNull \<noteq> jnat n"
  "jnat n \<noteq> JArr xs" "JArr xs \<noteq> jnat n" "jnat n \<noteq> JObj fs" "JObj fs \<noteq> jnat n"
  by (simp_all add: jnat_def)

lemma work_spec_json_inj [simp]: "work_spec_json v = work_spec_json w \<longleftrightarrow> v = w"
  by (cases v; cases w) auto

lemma work_result_json_inj [simp]: "work_result_json v = work_result_json w \<longleftrightarrow> v = w"
  by (cases v; cases w) auto

lemma work_json_neq [simp]:
  "work_spec_json w \<noteq> JStr s" "JStr s \<noteq> work_spec_json w"
  "work_spec_json w \<noteq> jnat n" "jnat n \<noteq> work_spec_json w"
  by (cases w; simp)+

lemmas body_defs =
  submit_body_def result_body_def refund_body_def inference_submit_body_def
  inference_reward_body_def inference_refund_body_def inference_receipt_body_def
  inference_verdict_body_def

subsection \<open>Hexadecimal and identifiers\<close>

lemma hex_digit_cases: "n < 16 \<Longrightarrow> hex_digit n \<in> set ''0123456789abcdef''"
proof -
  assume "n < 16"
  then have "n \<in> set [0..<16]" by simp
  moreover have "\<forall>n \<in> set [0..<16]. hex_digit n \<in> set ''0123456789abcdef''"
    by code_simp
  ultimately show ?thesis by blast
qed

lemma set_concat_map_subset: "(\<And>b. set (f b) \<subseteq> S) \<Longrightarrow> set (concat (map f xs)) \<subseteq> S"
  by auto

lemma hex_lower_chars: "set (hex_lower s) \<subseteq> set ''0123456789abcdef''"
  unfolding hex_lower_def
proof (rule set_concat_map_subset)
  fix b :: char
  have "of_char b < (256 :: nat)" by (rule nat_of_char_less_256)
  then have "of_char b div 16 < (16 :: nat)" by linarith
  then have 1: "hex_digit (of_char b div 16) \<in> set ''0123456789abcdef''"
    by (rule hex_digit_cases)
  have 2: "hex_digit (of_char b mod 16) \<in> set ''0123456789abcdef''"
    by (rule hex_digit_cases) simp
  from 1 2 show "set [hex_digit (of_char b div 16), hex_digit (of_char b mod 16)]
                   \<subseteq> set ''0123456789abcdef''"
    by (metis empty_set empty_subsetI insert_subset list.simps(15))
qed

lemma hex_lower_length [simp]: "length (hex_lower s) = 2 * length s"
  by (induction s) (simp_all add: hex_lower_def)

lemma hash_no_bar: "CHR ''|'' \<notin> set (hash_json c j)"
  using hex_lower_chars by (fastforce simp: hash_json_def hash_bytes_def)

lemma node_id_no_bar: "CHR ''|'' \<notin> set (node_id_from_public_key c pk)"
  using hex_lower_chars by (fastforce simp: node_id_from_public_key_def)

lemma assignment_id_inj [simp]: "assignment_id c j a = assignment_id c j b \<longleftrightarrow> a = b"
  by (simp add: assignment_id_def)

lemma inference_assignment_id_inj [simp]:
  "inference_assignment_id c j a = inference_assignment_id c j b \<longleftrightarrow> a = b"
  by (simp add: inference_assignment_id_def)

lemma assignment_ids_disjoint [simp]:
  "assignment_id c j a \<noteq> inference_assignment_id c' j' b"
  "inference_assignment_id c' j' b \<noteq> assignment_id c j a"
  by (simp_all add: assignment_id_def inference_assignment_id_def)

subsection \<open>Authentication\<close>

lemma verify_auth_signature_ok:
  "verify_auth_signature c pk_b64 p action h = Inr () \<longleftrightarrow>
   (\<exists>pk sb. b64_decode c pk_b64 = Some pk \<and> length pk = 32 \<and>
      node_id_from_public_key c pk = ap_node_id p \<and>
      b64_decode c (ap_signature_b64 p) = Some sb \<and> ed_sig_ok c sb \<and> ed_key_ok c pk \<and>
      ed_verify c pk (canonical_auth_message action (ap_node_id p) (ap_timestamp p)
        (ap_nonce_b64 p) h) sb)"
  by (auto simp: verify_auth_signature_def split: option.splits)

lemma verified_node_id:
  assumes "verify_auth_signature c pk_b64 p action h = Inr ()"
  shows "node_id_from_public_key_b64 c pk_b64 = Some (ap_node_id p)"
  using assms by (auto simp: verify_auth_signature_ok node_id_from_public_key_b64_def)

lemma verified_node_id_no_bar:
  assumes "verify_auth_signature c pk_b64 p action h = Inr ()"
  shows "CHR ''|'' \<notin> set (ap_node_id p)"
  using assms node_id_no_bar unfolding verify_auth_signature_ok by metis

lemma canonical_auth_message_inj:
  assumes "canonical_auth_message a n t k h = canonical_auth_message a' n' t' k' h'"
    and "CHR ''|'' \<notin> set a" "CHR ''|'' \<notin> set a'" "CHR ''|'' \<notin> set n" "CHR ''|'' \<notin> set n'"
    and "CHR ''|'' \<notin> set h" "CHR ''|'' \<notin> set h'"
  shows "a = a' \<and> n = n' \<and> t = t' \<and> k = k' \<and> h = h'"
proof -
  have "a @ CHR ''|'' # n @ CHR ''|'' # show_int t @ CHR ''|'' # k @ CHR ''|'' # h
      = a' @ CHR ''|'' # n' @ CHR ''|'' # show_int t' @ CHR ''|'' # k' @ CHR ''|'' # h'"
    using assms(1) by (simp add: canonical_auth_message_def)
  from append_sep_inj[OF this assms(2,3)] have a: "a = a'"
    and 1: "n @ CHR ''|'' # show_int t @ CHR ''|'' # k @ CHR ''|'' # h
          = n' @ CHR ''|'' # show_int t' @ CHR ''|'' # k' @ CHR ''|'' # h'" by auto
  from append_sep_inj[OF 1 assms(4,5)] have n: "n = n'"
    and 2: "show_int t @ CHR ''|'' # k @ CHR ''|'' # h
          = show_int t' @ CHR ''|'' # k' @ CHR ''|'' # h'" by auto
  from append_sep_inj[OF 2 show_int_no_bar show_int_no_bar] have t: "t = t'"
    and 3: "k @ CHR ''|'' # h = k' @ CHR ''|'' # h'" by auto
  from append_sep_inj_right[OF 3 assms(6,7)] a n t show ?thesis by simp
qed

end
