(* ===== verification/Ledger_Types.thy ===== *)
theory Ledger_Types
  imports Protocol
begin

text \<open>
  The ledger's data (\<open>crates/hocmesh-ledger/src/types.rs\<close>): postings, the evidence of each kind of
  transaction, entries, certificates, the validator set, ballots, and the JSON documents the ledger
  hashes.  A struct is a record whose fields carry a short prefix; \<open>TransactionKind\<close> and
  \<open>TransactionEvidence\<close> are datatypes with the constructors of the source.
\<close>

section \<open>Definitions\<close>

subsection \<open>Accounts\<close>

definition COMMUNITY_ISSUANCE_ACCOUNT :: string where
  "COMMUNITY_ISSUANCE_ACCOUNT = ''hocmesh:community:issuance''"

definition escrow_account :: "string \<Rightarrow> string" where
  "escrow_account job_id = ''hocmesh:escrow:'' @ job_id"

definition inference_holding_account :: "string \<Rightarrow> string" where
  "inference_holding_account aid = ''hocmesh:holding:'' @ aid"

subsection \<open>Transactions\<close>

datatype transaction_kind =
    JobReserve | CommunityReserve | ProviderReward | JobRefund
  | InferenceReserve | InferenceReceipt | InferenceReward | InferenceDispute | InferenceExpiry
  | InferenceRefund | MembershipChange

datatype membership_action = Join | Leave

record posting =
  p_account_id :: string
  p_delta_mcu :: int

record validator_signature =
  vs_validator_id :: string
  vs_signature_b64 :: string

record validator_member =
  vm_validator_id :: string
  vm_url :: string
  vm_public_key_b64 :: string

record validator_set =
  set_threshold :: nat
  set_community_issuance_limit_mcu :: int
  set_members :: "validator_member list"

record job_reserve_evidence =
  jr_job_id :: string
  jr_requester_public_key_b64 :: string
  jr_requester_auth :: auth_proof
  jr_work :: work_spec
  jr_shards :: nat

record provider_reward_evidence =
  pr_job_id :: string
  pr_assignment_id :: string
  pr_shard_index :: nat
  pr_reward_mcu :: int
  pr_provider_public_key_b64 :: string
  pr_provider_auth :: auth_proof
  pr_work :: work_spec
  pr_result :: work_result
  pr_system_funded :: bool
  pr_provisional_audit_nonce :: nat

record job_refund_evidence =
  rf_job_id :: string
  rf_assignment_id :: string
  rf_shard_index :: nat
  rf_refund_mcu :: int
  rf_work :: work_spec
  rf_system_funded :: bool
  rf_requester_public_key_b64 :: "string option"
  rf_requester_auth :: "auth_proof option"

record inference_reserve_evidence =
  ir_job_id :: string
  ir_requester_public_key_b64 :: string
  ir_requester_auth :: auth_proof
  ir_billing :: inference_billing
  ir_settings_digest :: string
  ir_batches :: "priced_batch list"

record inference_receipt_evidence =
  rc_job_id :: string
  rc_assignment_id :: string
  rc_batch_start :: nat
  rc_batch_end :: nat
  rc_price_mcu :: int
  rc_outputs_digest :: string
  rc_requester_public_key_b64 :: string
  rc_requester_auth :: auth_proof

record inference_reward_evidence =
  iw_job_id :: string
  iw_assignment_id :: string
  iw_batch_start :: nat
  iw_batch_end :: nat
  iw_reward_mcu :: int
  iw_outputs_digest :: string
  iw_provider_public_key_b64 :: string
  iw_provider_auth :: auth_proof
  iw_requester_public_key_b64 :: string
  iw_requester_acceptance :: auth_proof

record inference_dispute_evidence =
  dp_job_id :: string
  dp_assignment_id :: string
  dp_batch_start :: nat
  dp_batch_end :: nat
  dp_price_mcu :: int
  dp_outputs_digest :: string
  dp_reason :: string
  dp_requester_public_key_b64 :: string
  dp_requester_auth :: auth_proof

record inference_expiry_evidence =
  ex_job_id :: string
  ex_assignment_id :: string
  ex_batch_start :: nat
  ex_batch_end :: nat
  ex_price_mcu :: int
  ex_outputs_digest :: string
  ex_requester_public_key_b64 :: string
  ex_requester_receipt :: auth_proof

record inference_refund_evidence =
  ifd_job_id :: string
  ifd_assignment_id :: string
  ifd_batch_start :: nat
  ifd_batch_end :: nat
  ifd_refund_mcu :: int
  ifd_requester_public_key_b64 :: string
  ifd_requester_auth :: auth_proof

record membership_change_evidence =
  mc_action :: membership_action
  mc_member :: validator_member
  mc_threshold :: nat
  mc_vouches :: "validator_signature list"
  mc_resulting_set_hash :: string

datatype transaction_evidence =
    EvJobReserve job_reserve_evidence
  | EvCommunityReserve string work_spec nat "validator_signature list"
  | EvProviderReward provider_reward_evidence
  | EvJobRefund job_refund_evidence
  | EvInferenceReserve inference_reserve_evidence
  | EvInferenceReceipt inference_receipt_evidence
  | EvInferenceReward inference_reward_evidence
  | EvInferenceDispute inference_dispute_evidence
  | EvInferenceExpiry inference_expiry_evidence
  | EvInferenceRefund inference_refund_evidence
  | EvMembershipChange membership_change_evidence

record ledger_transaction =
  tx_transaction_id :: string
  tx_kind :: transaction_kind
  tx_postings :: "posting list"
  tx_evidence :: transaction_evidence
  tx_created_at :: int

subsection \<open>Entries, certificates, checkpoints\<close>

record ledger_entry =
  en_sequence :: nat
  en_previous_hash :: string
  en_transactions :: "ledger_transaction list"
  en_transactions_hash :: string
  en_entry_hash :: string

record quorum_certificate =
  qc_entry :: ledger_entry
  qc_membership_hash :: string
  qc_signatures :: "validator_signature list"

record ledger_head =
  lh_sequence :: nat
  lh_entry_hash :: string
  lh_membership_hash :: string

record ledger_checkpoint =
  cp_head :: ledger_head
  cp_state_hash :: string
  cp_signatures :: "validator_signature list"

record inference_reservation =
  rs_job_id :: string
  rs_billing :: inference_billing
  rs_batches :: "priced_batch list"
  rs_requester :: string
  rs_reserved_at :: int

record account_history_entry =
  ah_sequence :: nat
  ah_posting_index :: nat
  ah_transaction_id :: string
  ah_delta_mcu :: int
  ah_created_at :: int

record account_history =
  hist_account_id :: string
  hist_entries :: "account_history_entry list"
  hist_next_before :: "nat option"

subsection \<open>Ballots\<close>

record ballot =
  bl_number :: nat
  bl_proposer :: string

definition outranks :: "ballot \<Rightarrow> ballot \<Rightarrow> bool" where
  "outranks a b \<longleftrightarrow> (bl_number b, bl_proposer b) < (bl_number a, bl_proposer a)"

record accepted_proposal =
  acp_ballot :: ballot
  acp_entry_hash :: string
  acp_transactions :: "ledger_transaction list"

subsection \<open>What serde writes\<close>

fun transaction_kind_json :: "transaction_kind \<Rightarrow> json" where
  "transaction_kind_json JobReserve = JStr ''job_reserve''"
| "transaction_kind_json CommunityReserve = JStr ''community_reserve''"
| "transaction_kind_json ProviderReward = JStr ''provider_reward''"
| "transaction_kind_json JobRefund = JStr ''job_refund''"
| "transaction_kind_json InferenceReserve = JStr ''inference_reserve''"
| "transaction_kind_json InferenceReceipt = JStr ''inference_receipt''"
| "transaction_kind_json InferenceReward = JStr ''inference_reward''"
| "transaction_kind_json InferenceDispute = JStr ''inference_dispute''"
| "transaction_kind_json InferenceExpiry = JStr ''inference_expiry''"
| "transaction_kind_json InferenceRefund = JStr ''inference_refund''"
| "transaction_kind_json MembershipChange = JStr ''membership_change''"

fun membership_action_json :: "membership_action \<Rightarrow> json" where
  "membership_action_json Join = JStr ''join''"
| "membership_action_json Leave = JStr ''leave''"

definition posting_json :: "posting \<Rightarrow> json" where
  "posting_json r = JObj
     [(''account_id'', JStr (p_account_id r)),
      (''delta_mcu'', JNum (p_delta_mcu r))]"

definition validator_signature_json :: "validator_signature \<Rightarrow> json" where
  "validator_signature_json r = JObj
     [(''validator_id'', JStr (vs_validator_id r)),
      (''signature_b64'', JStr (vs_signature_b64 r))]"

definition validator_member_json :: "validator_member \<Rightarrow> json" where
  "validator_member_json r = JObj
     [(''validator_id'', JStr (vm_validator_id r)),
      (''url'', JStr (vm_url r)),
      (''public_key_b64'', JStr (vm_public_key_b64 r))]"

definition validator_set_json :: "validator_set \<Rightarrow> json" where
  "validator_set_json r = JObj
     [(''threshold'', jnat (set_threshold r)),
      (''community_issuance_limit_mcu'', JNum (set_community_issuance_limit_mcu r)),
      (''members'', JArr (map validator_member_json (set_members r)))]"

definition job_reserve_evidence_fields :: "job_reserve_evidence \<Rightarrow> (string \<times> json) list" where
  "job_reserve_evidence_fields r =
     [(''job_id'', JStr (jr_job_id r)),
      (''requester_public_key_b64'', JStr (jr_requester_public_key_b64 r)),
      (''requester_auth'', auth_proof_json (jr_requester_auth r)),
      (''work'', work_spec_json (jr_work r)),
      (''shards'', jnat (jr_shards r))]"

definition provider_reward_evidence_fields :: "provider_reward_evidence \<Rightarrow> (string \<times> json) list" where
  "provider_reward_evidence_fields r =
     [(''job_id'', JStr (pr_job_id r)),
      (''assignment_id'', JStr (pr_assignment_id r)),
      (''shard_index'', jnat (pr_shard_index r)),
      (''reward_mcu'', JNum (pr_reward_mcu r)),
      (''provider_public_key_b64'', JStr (pr_provider_public_key_b64 r)),
      (''provider_auth'', auth_proof_json (pr_provider_auth r)),
      (''work'', work_spec_json (pr_work r)),
      (''result'', work_result_json (pr_result r)),
      (''system_funded'', JBool (pr_system_funded r)),
      (''provisional_audit_nonce'', jnat (pr_provisional_audit_nonce r))]"

definition job_refund_evidence_fields :: "job_refund_evidence \<Rightarrow> (string \<times> json) list" where
  "job_refund_evidence_fields r =
     [(''job_id'', JStr (rf_job_id r)),
      (''assignment_id'', JStr (rf_assignment_id r)),
      (''shard_index'', jnat (rf_shard_index r)),
      (''refund_mcu'', JNum (rf_refund_mcu r)),
      (''work'', work_spec_json (rf_work r)),
      (''system_funded'', JBool (rf_system_funded r)),
      (''requester_public_key_b64'', jopt JStr (rf_requester_public_key_b64 r)),
      (''requester_auth'', jopt auth_proof_json (rf_requester_auth r))]"

definition inference_reserve_evidence_fields :: "inference_reserve_evidence \<Rightarrow> (string \<times> json) list" where
  "inference_reserve_evidence_fields r =
     [(''job_id'', JStr (ir_job_id r)),
      (''requester_public_key_b64'', JStr (ir_requester_public_key_b64 r)),
      (''requester_auth'', auth_proof_json (ir_requester_auth r)),
      (''billing'', inference_billing_json (ir_billing r)),
      (''settings_digest'', JStr (ir_settings_digest r)),
      (''batches'', JArr (map priced_batch_json (ir_batches r)))]"

definition inference_receipt_evidence_fields :: "inference_receipt_evidence \<Rightarrow> (string \<times> json) list" where
  "inference_receipt_evidence_fields r =
     [(''job_id'', JStr (rc_job_id r)),
      (''assignment_id'', JStr (rc_assignment_id r)),
      (''batch_start'', jnat (rc_batch_start r)),
      (''batch_end'', jnat (rc_batch_end r)),
      (''price_mcu'', JNum (rc_price_mcu r)),
      (''outputs_digest'', JStr (rc_outputs_digest r)),
      (''requester_public_key_b64'', JStr (rc_requester_public_key_b64 r)),
      (''requester_auth'', auth_proof_json (rc_requester_auth r))]"

definition inference_reward_evidence_fields :: "inference_reward_evidence \<Rightarrow> (string \<times> json) list" where
  "inference_reward_evidence_fields r =
     [(''job_id'', JStr (iw_job_id r)),
      (''assignment_id'', JStr (iw_assignment_id r)),
      (''batch_start'', jnat (iw_batch_start r)),
      (''batch_end'', jnat (iw_batch_end r)),
      (''reward_mcu'', JNum (iw_reward_mcu r)),
      (''outputs_digest'', JStr (iw_outputs_digest r)),
      (''provider_public_key_b64'', JStr (iw_provider_public_key_b64 r)),
      (''provider_auth'', auth_proof_json (iw_provider_auth r)),
      (''requester_public_key_b64'', JStr (iw_requester_public_key_b64 r)),
      (''requester_acceptance'', auth_proof_json (iw_requester_acceptance r))]"

definition inference_dispute_evidence_fields :: "inference_dispute_evidence \<Rightarrow> (string \<times> json) list" where
  "inference_dispute_evidence_fields r =
     [(''job_id'', JStr (dp_job_id r)),
      (''assignment_id'', JStr (dp_assignment_id r)),
      (''batch_start'', jnat (dp_batch_start r)),
      (''batch_end'', jnat (dp_batch_end r)),
      (''price_mcu'', JNum (dp_price_mcu r)),
      (''outputs_digest'', JStr (dp_outputs_digest r)),
      (''reason'', JStr (dp_reason r)),
      (''requester_public_key_b64'', JStr (dp_requester_public_key_b64 r)),
      (''requester_auth'', auth_proof_json (dp_requester_auth r))]"

definition inference_expiry_evidence_fields :: "inference_expiry_evidence \<Rightarrow> (string \<times> json) list" where
  "inference_expiry_evidence_fields r =
     [(''job_id'', JStr (ex_job_id r)),
      (''assignment_id'', JStr (ex_assignment_id r)),
      (''batch_start'', jnat (ex_batch_start r)),
      (''batch_end'', jnat (ex_batch_end r)),
      (''price_mcu'', JNum (ex_price_mcu r)),
      (''outputs_digest'', JStr (ex_outputs_digest r)),
      (''requester_public_key_b64'', JStr (ex_requester_public_key_b64 r)),
      (''requester_receipt'', auth_proof_json (ex_requester_receipt r))]"

definition inference_refund_evidence_fields :: "inference_refund_evidence \<Rightarrow> (string \<times> json) list" where
  "inference_refund_evidence_fields r =
     [(''job_id'', JStr (ifd_job_id r)),
      (''assignment_id'', JStr (ifd_assignment_id r)),
      (''batch_start'', jnat (ifd_batch_start r)),
      (''batch_end'', jnat (ifd_batch_end r)),
      (''refund_mcu'', JNum (ifd_refund_mcu r)),
      (''requester_public_key_b64'', JStr (ifd_requester_public_key_b64 r)),
      (''requester_auth'', auth_proof_json (ifd_requester_auth r))]"

definition membership_change_evidence_fields :: "membership_change_evidence \<Rightarrow> (string \<times> json) list" where
  "membership_change_evidence_fields r =
     [(''action'', membership_action_json (mc_action r)),
      (''member'', validator_member_json (mc_member r)),
      (''threshold'', jnat (mc_threshold r)),
      (''vouches'', JArr (map validator_signature_json (mc_vouches r))),
      (''resulting_set_hash'', JStr (mc_resulting_set_hash r))]"

text \<open>An internally tagged enum: the \<open>kind\<close> first, then the fields of the variant.\<close>

fun transaction_evidence_json :: "transaction_evidence \<Rightarrow> json" where
  "transaction_evidence_json (EvJobReserve e) =
     JObj ((''kind'', JStr ''job_reserve'') # job_reserve_evidence_fields e)"
| "transaction_evidence_json (EvCommunityReserve job_id work shards sponsors) =
     JObj [(''kind'', JStr ''community_reserve''), (''job_id'', JStr job_id), (''work'', work_spec_json work),
           (''shards'', jnat shards), (''sponsors'', JArr (map validator_signature_json sponsors))]"
| "transaction_evidence_json (EvProviderReward e) =
     JObj ((''kind'', JStr ''provider_reward'') # provider_reward_evidence_fields e)"
| "transaction_evidence_json (EvJobRefund e) =
     JObj ((''kind'', JStr ''job_refund'') # job_refund_evidence_fields e)"
| "transaction_evidence_json (EvInferenceReserve e) =
     JObj ((''kind'', JStr ''inference_reserve'') # inference_reserve_evidence_fields e)"
| "transaction_evidence_json (EvInferenceReceipt e) =
     JObj ((''kind'', JStr ''inference_receipt'') # inference_receipt_evidence_fields e)"
| "transaction_evidence_json (EvInferenceReward e) =
     JObj ((''kind'', JStr ''inference_reward'') # inference_reward_evidence_fields e)"
| "transaction_evidence_json (EvInferenceDispute e) =
     JObj ((''kind'', JStr ''inference_dispute'') # inference_dispute_evidence_fields e)"
| "transaction_evidence_json (EvInferenceExpiry e) =
     JObj ((''kind'', JStr ''inference_expiry'') # inference_expiry_evidence_fields e)"
| "transaction_evidence_json (EvInferenceRefund e) =
     JObj ((''kind'', JStr ''inference_refund'') # inference_refund_evidence_fields e)"
| "transaction_evidence_json (EvMembershipChange e) =
     JObj ((''kind'', JStr ''membership_change'') # membership_change_evidence_fields e)"

definition ledger_transaction_json :: "ledger_transaction \<Rightarrow> json" where
  "ledger_transaction_json t = JObj
     [(''transaction_id'', JStr (tx_transaction_id t)),
      (''kind'', transaction_kind_json (tx_kind t)),
      (''postings'', JArr (map posting_json (tx_postings t))),
      (''evidence'', transaction_evidence_json (tx_evidence t)),
      (''created_at'', JNum (tx_created_at t))]"

section \<open>Lemmas\<close>

subsection \<open>Ballots are totally ordered\<close>

lemma outranks_irrefl [simp]: "\<not> outranks b b"
  by (simp add: outranks_def)

lemma outranks_trans: "outranks a b \<Longrightarrow> outranks b c \<Longrightarrow> outranks a c"
  unfolding outranks_def by (rule order.strict_trans)

lemma outranks_total: "a \<noteq> b \<Longrightarrow> outranks a b \<or> outranks b a"
  unfolding outranks_def by (cases a; cases b) (auto simp: neq_iff)

lemma outranks_asym: "outranks a b \<Longrightarrow> \<not> outranks b a"
  unfolding outranks_def by (rule less_not_sym)

subsection \<open>Accounts are kept apart\<close>

lemma accounts_distinct [simp]:
  "escrow_account j \<noteq> COMMUNITY_ISSUANCE_ACCOUNT" "COMMUNITY_ISSUANCE_ACCOUNT \<noteq> escrow_account j"
  "inference_holding_account a \<noteq> COMMUNITY_ISSUANCE_ACCOUNT"
  "COMMUNITY_ISSUANCE_ACCOUNT \<noteq> inference_holding_account a"
  "escrow_account j \<noteq> inference_holding_account a" "inference_holding_account a \<noteq> escrow_account j"
  by (simp_all add: escrow_account_def inference_holding_account_def COMMUNITY_ISSUANCE_ACCOUNT_def)

lemma account_inj [simp]:
  "escrow_account i = escrow_account j \<longleftrightarrow> i = j"
  "inference_holding_account a = inference_holding_account b \<longleftrightarrow> a = b"
  by (simp_all add: escrow_account_def inference_holding_account_def)

lemma node_id_not_account [simp]:
  "node_id_from_public_key c pk \<noteq> COMMUNITY_ISSUANCE_ACCOUNT"
  "node_id_from_public_key c pk \<noteq> escrow_account j"
  "node_id_from_public_key c pk \<noteq> inference_holding_account a"
  by (simp_all add: node_id_from_public_key_def escrow_account_def inference_holding_account_def
      COMMUNITY_ISSUANCE_ACCOUNT_def)

subsection \<open>Documents determine transactions\<close>

lemma auth_proof_json_inj [simp]: "auth_proof_json a = auth_proof_json b \<longleftrightarrow> a = b"
  by (cases a; cases b) (simp add: auth_proof_json_def)

lemma jopt_JStr_inj [simp]: "jopt JStr a = jopt JStr b \<longleftrightarrow> a = b"
  by (cases a; cases b) (auto simp: jopt_def)

lemma auth_proof_json_not_null [simp]: "auth_proof_json a \<noteq> JNull" "JNull \<noteq> auth_proof_json a"
  by (simp_all add: auth_proof_json_def)

lemma jopt_auth_inj [simp]: "jopt auth_proof_json a = jopt auth_proof_json b \<longleftrightarrow> a = b"
  by (cases a; cases b) (auto simp: jopt_def)

lemma record_json_inj [simp]:
  "posting_json a = posting_json a' \<longleftrightarrow> a = a'"
  "validator_signature_json b = validator_signature_json b' \<longleftrightarrow> b = b'"
  "validator_member_json d = validator_member_json d' \<longleftrightarrow> d = d'"
  "priced_batch_json e = priced_batch_json e' \<longleftrightarrow> e = e'"
  "inference_billing_json f = inference_billing_json f' \<longleftrightarrow> f = f'"
  subgoal by (cases a; cases a') (simp add: posting_json_def)
  subgoal by (cases b; cases b') (simp add: validator_signature_json_def)
  subgoal by (cases d; cases d') (simp add: validator_member_json_def)
  subgoal by (cases e; cases e') (simp add: priced_batch_json_def)
  subgoal by (cases f; cases f') (simp add: inference_billing_json_def)
  done

lemma map_json_inj [simp]:
  "map posting_json xs = map posting_json xs' \<longleftrightarrow> xs = xs'"
  "map validator_signature_json ys = map validator_signature_json ys' \<longleftrightarrow> ys = ys'"
  "map validator_member_json zs = map validator_member_json zs' \<longleftrightarrow> zs = zs'"
  "map priced_batch_json ws = map priced_batch_json ws' \<longleftrightarrow> ws = ws'"
  by (simp_all add: inj_map_eq_map inj_def)

lemma validator_set_json_inj [simp]: "validator_set_json a = validator_set_json b \<longleftrightarrow> a = b"
  by (cases a; cases b) (simp add: validator_set_json_def)

lemma membership_action_json_inj [simp]: "membership_action_json a = membership_action_json b \<longleftrightarrow> a = b"
  by (cases a; cases b) simp_all

lemma transaction_kind_json_inj [simp]: "transaction_kind_json a = transaction_kind_json b \<longleftrightarrow> a = b"
  by (cases a; cases b) simp_all

lemma evidence_fields_inj [simp]:
  "job_reserve_evidence_fields a1 = job_reserve_evidence_fields b1 \<longleftrightarrow> a1 = b1"
  "provider_reward_evidence_fields a2 = provider_reward_evidence_fields b2 \<longleftrightarrow> a2 = b2"
  "job_refund_evidence_fields a3 = job_refund_evidence_fields b3 \<longleftrightarrow> a3 = b3"
  "inference_reserve_evidence_fields a4 = inference_reserve_evidence_fields b4 \<longleftrightarrow> a4 = b4"
  "inference_receipt_evidence_fields a5 = inference_receipt_evidence_fields b5 \<longleftrightarrow> a5 = b5"
  "inference_reward_evidence_fields a6 = inference_reward_evidence_fields b6 \<longleftrightarrow> a6 = b6"
  "inference_dispute_evidence_fields a7 = inference_dispute_evidence_fields b7 \<longleftrightarrow> a7 = b7"
  "inference_expiry_evidence_fields a8 = inference_expiry_evidence_fields b8 \<longleftrightarrow> a8 = b8"
  "inference_refund_evidence_fields a9 = inference_refund_evidence_fields b9 \<longleftrightarrow> a9 = b9"
  "membership_change_evidence_fields a10 = membership_change_evidence_fields b10 \<longleftrightarrow> a10 = b10"
  subgoal by (cases a1; cases b1) (auto simp: job_reserve_evidence_fields_def)
  subgoal by (cases a2; cases b2) (auto simp: provider_reward_evidence_fields_def)
  subgoal by (cases a3; cases b3) (auto simp: job_refund_evidence_fields_def)
  subgoal by (cases a4; cases b4) (auto simp: inference_reserve_evidence_fields_def)
  subgoal by (cases a5; cases b5) (auto simp: inference_receipt_evidence_fields_def)
  subgoal by (cases a6; cases b6) (auto simp: inference_reward_evidence_fields_def)
  subgoal by (cases a7; cases b7) (auto simp: inference_dispute_evidence_fields_def)
  subgoal by (cases a8; cases b8) (auto simp: inference_expiry_evidence_fields_def)
  subgoal by (cases a9; cases b9) (auto simp: inference_refund_evidence_fields_def)
  subgoal by (cases a10; cases b10) (auto simp: membership_change_evidence_fields_def)
  done

lemma transaction_evidence_json_inj [simp]:
  "transaction_evidence_json a = transaction_evidence_json b \<longleftrightarrow> a = b"
  by (cases a; cases b) simp_all

lemma ledger_transaction_json_inj [simp]:
  "ledger_transaction_json a = ledger_transaction_json b \<longleftrightarrow> a = b"
  by (cases a; cases b) (simp add: ledger_transaction_json_def)

lemma map_transaction_json_inj [simp]:
  "map ledger_transaction_json xs = map ledger_transaction_json ys \<longleftrightarrow> xs = ys"
  by (simp add: inj_map_eq_map inj_def)

end
