(* ===== verification/Book.thy ===== *)
theory Book
  imports Ledger_Types
begin

text \<open>
  Balances as a book: what a posting does to them, the two-posting transfer every settlement of
  \<open>validate.rs\<close> is required to be, and the contract \<open>transfer_book\<close> a validation path has to honour for
  CU to be conserved and no account to be overdrawn.  The live path and the audit path both
  interpret it, in \<open>Validate\<close>.
\<close>

section \<open>Definitions\<close>

text \<open>The shape every settlement must have: exactly two postings, \<open>amount\<close> out of one account and
  into another.\<close>

definition moves :: "posting list \<Rightarrow> string \<Rightarrow> string \<Rightarrow> int \<Rightarrow> bool" where
  "moves postings from to amount \<longleftrightarrow>
     length postings = 2 \<and>
     list_ex (\<lambda>p. p_account_id p = from \<and> p_delta_mcu p = wrap_i64 (- amount)) postings \<and>
     list_ex (\<lambda>p. p_account_id p = to \<and> p_delta_mcu p = amount) postings"

definition add_posting :: "posting \<Rightarrow> (string \<Rightarrow> int) \<Rightarrow> string \<Rightarrow> int" where
  "add_posting p m = m(p_account_id p := wrap_i64 (m (p_account_id p) + p_delta_mcu p))"

section \<open>Lemmas\<close>

subsection \<open>Postings and balances\<close>

text \<open>The net effect of a list of postings on an account.\<close>

definition net :: "posting list \<Rightarrow> string \<Rightarrow> int" where
  "net ps a = sum_list (map p_delta_mcu (filter (\<lambda>p. p_account_id p = a) ps))"

lemma net_simps [simp]:
  "net [] a = 0"
  "net (p # ps) a = (if p_account_id p = a then p_delta_mcu p else 0) + net ps a"
  "net (ps @ qs) a = net ps a + net qs a"
  by (simp_all add: net_def)

lemma moves_cases:
  assumes "moves ps src dst amt" "0 < amt" "amt \<le> i64_max"
  obtains "ps = [\<lparr> p_account_id = src, p_delta_mcu = - amt \<rparr>, \<lparr> p_account_id = dst, p_delta_mcu = amt \<rparr>]"
  | "ps = [\<lparr> p_account_id = dst, p_delta_mcu = amt \<rparr>, \<lparr> p_account_id = src, p_delta_mcu = - amt \<rparr>]"
proof -
  have w: "wrap_i64 (- amt) = - amt" using assms(2,3) by (simp add: range_defs)
  obtain p q where ps: "ps = [p, q]"
    using assms(1) by (auto simp: moves_def length_Suc_conv numeral_2_eq_2)
  show ?thesis using assms(1,2) that unfolding ps moves_def w
    by (cases p; cases q) auto
qed

lemma moves_net:
  assumes "moves ps src dst amt" "0 < amt" "amt \<le> i64_max"
  shows "net ps a = (if a = dst then amt else 0) - (if a = src then amt else 0)"
    and "sum_list (map p_delta_mcu ps) = 0"
  using assms by (auto elim!: moves_cases)

subsection \<open>A sound book\<close>

text \<open>Finitely many accounts, CU summing to zero, nobody but the issuance account below zero, and the
  issuance account above its limit.\<close>

definition sound_book :: "int \<Rightarrow> (string \<Rightarrow> int) \<Rightarrow> bool" where
  "sound_book limit b \<longleftrightarrow>
     finite {a. b a \<noteq> 0} \<and> sum b {a. b a \<noteq> 0} = 0 \<and>
     (\<forall>a. a \<noteq> COMMUNITY_ISSUANCE_ACCOUNT \<longrightarrow> 0 \<le> b a) \<and>
     - limit \<le> b COMMUNITY_ISSUANCE_ACCOUNT"

lemma sum_support:
  assumes "finite A" "{a. b a \<noteq> 0} \<subseteq> A"
  shows "sum b {a. b a \<noteq> 0} = (sum b A :: int)"
  using assms by (intro sum.mono_neutral_left) auto

lemma sound_book_empty: "0 \<le> limit \<Longrightarrow> sound_book limit (\<lambda>_. 0)"
  by (simp add: sound_book_def)

lemma sound_book_bounds:
  assumes "sound_book limit b"
  shows "b a \<le> limit" "- limit \<le> b a" "b COMMUNITY_ISSUANCE_ACCOUNT \<le> 0" "0 \<le> limit"
proof -
  let ?I = COMMUNITY_ISSUANCE_ACCOUNT
  let ?S = "{a. b a \<noteq> 0} \<union> {?I, a}"
  have S: "finite ?S" "sum b ?S = 0"
    using assms sum_support[of ?S b] by (auto simp: sound_book_def)
  have nn: "0 \<le> sum b (?S - {?I} - X)" for X
    using assms by (intro sum_nonneg) (auto simp: sound_book_def)
  have split: "sum b ?S = b ?I + sum b (?S - {?I})"
    using S(1) by (intro sum.remove) auto
  then show iss: "b ?I \<le> 0" using S(2) nn[of "{}"] by simp
  show "0 \<le> limit" using iss assms by (simp add: sound_book_def)
  show "- limit \<le> b a" using assms \<open>0 \<le> limit\<close> by (cases "a = ?I") (auto simp: sound_book_def intro: order.trans[of _ 0])
  show "b a \<le> limit"
  proof (cases "a = ?I")
    case False
    then have "sum b (?S - {?I}) = b a + sum b (?S - {?I} - {a})"
      using S(1) by (intro sum.remove) auto
    then show ?thesis using split S(2) nn[of "{a}"] assms by (simp add: sound_book_def)
  qed (use iss \<open>0 \<le> limit\<close> in simp)
qed

lemma sound_book_in_i64: "sound_book limit b \<Longrightarrow> limit \<le> i64_max \<Longrightarrow> in_i64 (b a)"
  using sound_book_bounds(1,2)[of limit b a] by (simp add: range_defs)

text \<open>A transfer that the payer can afford keeps the book sound.\<close>

lemma sound_book_transfer:
  assumes b: "sound_book limit b" and amt: "0 < amt"
    and payer: "if src = COMMUNITY_ISSUANCE_ACCOUNT then - limit \<le> b src - amt else amt \<le> b src"
    and b': "\<And>a. b' a = b a + (if a = dst then amt else 0) - (if a = src then amt else 0)"
  shows "sound_book limit b'"
proof -
  let ?S = "{a. b a \<noteq> 0} \<union> {src, dst}"
  have fin: "finite ?S" using b by (simp add: sound_book_def)
  have sub: "{a. b' a \<noteq> 0} \<subseteq> ?S" by (auto simp: b')
  have "sum b' {a. b' a \<noteq> 0} = sum b' ?S" by (rule sum_support[OF fin sub])
  also have "\<dots> = sum b ?S + (\<Sum>a\<in>?S. if a = dst then amt else 0) - (\<Sum>a\<in>?S. if a = src then amt else 0)"
    by (simp add: b' sum.distrib sum_subtractf)
  also have "\<dots> = sum b ?S" using fin by (simp add: sum.delta)
  also have "\<dots> = 0" using b sum_support[OF fin, of b] by (auto simp: sound_book_def)
  finally have "sum b' {a. b' a \<noteq> 0} = 0" .
  moreover have "finite {a. b' a \<noteq> 0}" using fin sub by (rule finite_subset[rotated])
  ultimately show ?thesis
    using b amt payer by (auto simp: sound_book_def b' split: if_splits)
qed

subsection \<open>Applying postings\<close>

lemma wrap_i64_add: "wrap_i64 (wrap_i64 x + y) = wrap_i64 (x + y)"
proof -
  have "(wrap_i64 x + y + 2 ^ 63) mod 2 ^ 64 = ((x + 2 ^ 63) mod 2 ^ 64 + y) mod 2 ^ 64"
    by (simp add: wrap_i64_def algebra_simps)
  also have "\<dots> = (x + y + 2 ^ 63) mod 2 ^ 64" by (simp add: mod_simps algebra_simps)
  finally show ?thesis by (simp add: wrap_i64_def)
qed

lemma fold_add_posting:
  "in_i64 (m a) \<Longrightarrow> fold add_posting ps m a = wrap_i64 (m a + net ps a)"
proof (induction ps arbitrary: m)
  case (Cons p ps)
  show ?case
  proof (cases "p_account_id p = a")
    case True
    then have v: "add_posting p m a = wrap_i64 (m a + p_delta_mcu p)"
      by (simp add: add_posting_def)
    then have "fold add_posting (p # ps) m a = wrap_i64 (wrap_i64 (m a + p_delta_mcu p) + net ps a)"
      using Cons.IH[of "add_posting p m"] by (simp add: wrap_i64_range)
    then show ?thesis using True by (simp add: wrap_i64_add add.assoc)
  next
    case False
    then have "add_posting p m a = m a" by (simp add: add_posting_def)
    with False Cons show ?thesis by simp
  qed
qed simp

lemma fold_add_posting_exact:
  assumes "\<And>a. in_i64 (m a)" "\<And>a. in_i64 (m a + net ps a)"
  shows "fold add_posting ps m = (\<lambda>a. m a + net ps a)"
  using assms by (auto simp: fold_add_posting)

subsection \<open>The contract of a validation path\<close>

text \<open>Transactions taken one after the other, each accepted against the balances its predecessors
  left behind.\<close>

fun run_book ::
  "('t \<Rightarrow> (string \<Rightarrow> int) \<Rightarrow> bool) \<Rightarrow> ('t \<Rightarrow> posting list) \<Rightarrow> 't list \<Rightarrow> (string \<Rightarrow> int) \<Rightarrow>
   (string \<Rightarrow> int) option" where
  "run_book accept postings [] b = Some b"
| "run_book accept postings (t # ts) b =
     (if accept t b then run_book accept postings ts (fold add_posting (postings t) b) else None)"

locale transfer_book =
  fixes accept :: "'t \<Rightarrow> (string \<Rightarrow> int) \<Rightarrow> bool"
    and postings :: "'t \<Rightarrow> posting list"
    and limit :: int
  assumes accepted:
    "accept t b \<Longrightarrow> postings t = [] \<or>
       (\<exists>src dst amt. src \<noteq> dst \<and> 0 < amt \<and> amt \<le> i64_max \<and> moves (postings t) src dst amt \<and>
          (if src = COMMUNITY_ISSUANCE_ACCOUNT then - limit \<le> b src - amt else amt \<le> b src))"
begin

lemma step_sound:
  assumes acc: "accept t b" and b: "sound_book limit b" and lim: "limit \<le> i64_max"
  shows "sound_book limit (\<lambda>a. b a + net (postings t) a)"
    and "fold add_posting (postings t) b = (\<lambda>a. b a + net (postings t) a)"
proof -
  show snd: "sound_book limit (\<lambda>a. b a + net (postings t) a)"
  proof (cases "postings t = []")
    case True
    then show ?thesis using b by simp
  next
    case False
    then obtain src dst amt where t: "0 < amt" "amt \<le> i64_max" "moves (postings t) src dst amt"
      "if src = COMMUNITY_ISSUANCE_ACCOUNT then - limit \<le> b src - amt else amt \<le> b src"
      using accepted[OF acc] by blast
    show ?thesis
      by (rule sound_book_transfer[OF b t(1) t(4)]) (simp add: moves_net(1)[OF t(3,1,2)])
  qed
  show "fold add_posting (postings t) b = (\<lambda>a. b a + net (postings t) a)"
    using sound_book_in_i64[OF b lim] sound_book_in_i64[OF snd lim]
    by (intro fold_add_posting_exact) auto
qed

lemma run_sound:
  assumes "run_book accept postings ts b = Some b'" "sound_book limit b" "limit \<le> i64_max"
  shows "sound_book limit b' \<and> b' = (\<lambda>a. b a + net (concat (map postings ts)) a)"
  using assms
proof (induction ts arbitrary: b)
  case (Cons t ts)
  then have acc: "accept t b"
    and run: "run_book accept postings ts (fold add_posting (postings t) b) = Some b'"
    by (auto split: if_splits)
  note step = step_sound[OF acc Cons.prems(2,3)]
  have "sound_book limit b' \<and> b' = (\<lambda>a. b a + net (postings t) a + net (concat (map postings ts)) a)"
    using Cons.IH[OF run[unfolded step(2)] step(1) Cons.prems(3)] .
  then show ?case by (auto simp: add.assoc)
qed simp

end

end
