(* ===== verification/Matrix.thy ===== *)
theory Matrix
  imports Prelude
begin

text \<open>
  Modular matrix arithmetic (\<open>crates/hocmesh-core/src/matrix.rs\<close>): the virtual matrices generated
  from a seed, the row-block product a provider is paid for, and the projections of Freivalds'
  check.  The lemmas give every routine its meaning as a sum modulo \<open>MODULUS\<close>, and from that the
  identity \<open>A (B r) = (A B) r\<close> on which the check rests.
\<close>

unbundle bit_operations_syntax

section \<open>Definitions\<close>

definition MODULUS :: nat where
  "MODULUS = 2147483647"

definition MAX_DIM :: nat where
  "MAX_DIM = 512"

definition splitmix64 :: "64 word \<Rightarrow> 64 word" where
  "splitmix64 z0 =
     (let z1 = z0 + 0x9E3779B97F4A7C15;
          z2 = (z1 XOR drop_bit 30 z1) * 0xBF58476D1CE4E5B9;
          z3 = (z2 XOR drop_bit 27 z2) * 0x94D049BB133111EB
      in z3 XOR drop_bit 31 z3)"

definition element :: "nat \<Rightarrow> nat \<Rightarrow> nat \<Rightarrow> nat" where
  "element seed row col =
     unat (splitmix64 (of_nat seed XOR of_nat row * 0x9E3779B97F4A7C15
                                   XOR of_nat col * 0xC2B2AE3D27D4EB4F)) mod MODULUS"

definition row :: "nat \<Rightarrow> nat \<Rightarrow> nat \<Rightarrow> nat list" where
  "row seed row_index dim = map (\<lambda>col. element seed row_index col) [0..<dim]"

definition mul_mod :: "nat \<Rightarrow> nat \<Rightarrow> nat" where
  "mul_mod a b = (a * b) mod MODULUS"

text \<open>One pass of the inner loop: the accumulator row plus \<open>a_ik\<close> times row \<open>k\<close> of \<open>B\<close>.\<close>

definition multiply_step :: "nat \<Rightarrow> nat list \<Rightarrow> nat \<times> nat \<Rightarrow> nat list \<Rightarrow> nat list" where
  "multiply_step dim b ka acc =
     (case ka of (k, a_ik) \<Rightarrow>
        if a_ik = 0 then acc
        else map2 (\<lambda>slot b_kj. (slot + mul_mod a_ik b_kj) mod MODULUS) acc
                  (take dim (drop (k * dim) b)))"

definition multiply_rows :: "nat \<Rightarrow> nat \<Rightarrow> nat \<Rightarrow> nat \<Rightarrow> nat \<Rightarrow> nat list" where
  "multiply_rows seed_a seed_b dim row_start row_end =
     (let b = concat (map (\<lambda>k. map (\<lambda>j. element seed_b k j) [0..<dim]) [0..<dim])
      in concat (map (\<lambda>i. fold (multiply_step dim b) (enumerate 0 (row seed_a i dim))
                               (replicate dim 0))
                     [row_start..<row_end]))"

definition matrix_vector :: "nat \<Rightarrow> nat \<Rightarrow> nat list \<Rightarrow> nat list" where
  "matrix_vector seed dim vector =
     map (\<lambda>r. fold (\<lambda>(col, v) acc.
                      if v \<noteq> 0 then (acc + mul_mod (element seed r col) v) mod MODULUS else acc)
                    (enumerate 0 vector) 0)
         [0..<dim]"

definition dot :: "nat list \<Rightarrow> nat list \<Rightarrow> nat" where
  "dot left right = fold (\<lambda>(l, r) acc. (acc + mul_mod l r) mod MODULUS) (zip left right) 0"

definition challenge_vector :: "nat \<Rightarrow> nat \<Rightarrow> nat list" where
  "challenge_vector seed dim =
     map (\<lambda>i. unat (splitmix64 (of_nat seed XOR of_nat i * 0xD6E8FEB86659FD93)) mod MODULUS) [0..<dim]"

section \<open>Lemmas\<close>

subsection \<open>Every routine as a sum modulo the prime\<close>

lemma MODULUS_pos [simp]: "0 < MODULUS"
  by (simp add: MODULUS_def)

lemma element_less [simp]: "element s i j < MODULUS"
  by (simp add: element_def)

lemma row_length [simp]: "length (row s i d) = d"
  by (simp add: row_def)

lemma row_nth [simp]: "k < d \<Longrightarrow> row s i d ! k = element s i k"
  by (simp add: row_def)

lemma challenge_vector_length [simp]: "length (challenge_vector s d) = d"
  by (simp add: challenge_vector_def)

lemma matrix_vector_length [simp]: "length (matrix_vector s d v) = d"
  by (simp add: matrix_vector_def)

lemma fold_mod_sum:
  assumes "\<And>x acc. f x acc mod MODULUS = (acc + g x) mod MODULUS"
  shows "fold f xs acc mod MODULUS = (acc + sum_list (map g xs)) mod MODULUS"
proof (induction xs arbitrary: acc)
  case (Cons x xs)
  have "fold f (x # xs) acc mod MODULUS = (f x acc + sum_list (map g xs)) mod MODULUS"
    by (simp add: Cons.IH)
  also have "\<dots> = (acc + g x + sum_list (map g xs)) mod MODULUS"
    using assms[of x acc] by (metis mod_add_left_eq)
  finally show ?case by (simp add: add.assoc)
qed simp

lemma fold_less:
  assumes "\<And>x acc. acc < (M :: nat) \<Longrightarrow> f x acc < M" and "acc < M"
  shows "fold f xs acc < M"
  using assms by (induction xs arbitrary: acc) auto

lemma dot_less: "dot l r < MODULUS"
  unfolding dot_def by (rule fold_less) (auto split: prod.splits)

lemma dot_eq: "dot l r = sum_list (map (\<lambda>(x, y). x * y) (zip l r)) mod MODULUS"
proof -
  have "dot l r = dot l r mod MODULUS" using dot_less by simp
  also have "\<dots> = (0 + sum_list (map (\<lambda>(x, y). x * y) (zip l r))) mod MODULUS"
    unfolding dot_def by (rule fold_mod_sum) (auto simp: mul_mod_def mod_simps)
  finally show ?thesis by simp
qed

lemma dot_sum:
  assumes "length l = d" "length r = d"
  shows "dot l r = (\<Sum>k<d. l ! k * r ! k) mod MODULUS"
  using assms by (simp add: dot_eq sum_list_sum_nth atLeast0LessThan)

lemma matrix_vector_nth:
  assumes "i < d" and "length v = n"
  shows "matrix_vector s d v ! i = (\<Sum>k<n. element s i k * v ! k) mod MODULUS"
proof -
  let ?f = "\<lambda>(col, w) acc. if w \<noteq> 0 then (acc + mul_mod (element s i col) w) mod MODULUS else acc"
  let ?g = "\<lambda>(col, w). element s i col * w"
  have less: "fold ?f (enumerate 0 v) 0 < MODULUS"
    by (rule fold_less) (auto split: prod.splits)
  have "fold ?f (enumerate 0 v) 0 mod MODULUS
      = (0 + sum_list (map ?g (enumerate 0 v))) mod MODULUS"
    by (rule fold_mod_sum) (auto simp: mul_mod_def mod_simps)
  moreover have "sum_list (map ?g (enumerate 0 v)) = (\<Sum>k<n. element s i k * v ! k)"
    using assms(2) by (simp add: sum_list_sum_nth atLeast0LessThan nth_enumerate_eq)
  moreover have "matrix_vector s d v ! i = fold ?f (enumerate 0 v) 0"
    unfolding matrix_vector_def by (subst nth_map_upt, simp add: assms(1), subst add_0, rule refl)
  ultimately show ?thesis using less by simp
qed

subsection \<open>The product\<close>

definition product_cell :: "nat \<Rightarrow> nat \<Rightarrow> nat \<Rightarrow> nat \<Rightarrow> nat \<Rightarrow> nat" where
  "product_cell sa sb d i j = (\<Sum>k<d. element sa i k * element sb k j) mod MODULUS"

lemma concat_block:
  assumes "\<And>x. x \<in> set xs \<Longrightarrow> length (f x) = d" and "k < length xs"
  shows "take d (drop (k * d) (concat (map f xs))) = f (xs ! k)"
  using assms
proof (induction xs arbitrary: k)
  case (Cons x xs)
  then show ?case by (cases k) auto
qed simp

lemma concat_block_length:
  assumes "\<And>x. x \<in> set xs \<Longrightarrow> length (f x) = d"
  shows "length (concat (map f xs)) = length xs * d"
  using assms by (induction xs) auto

lemma multiply_step_nth:
  assumes "length acc = d" "j < d" "k < d"
    and "b = concat (map (\<lambda>k. map (\<lambda>j. element sb k j) [0..<d]) [0..<d])"
  shows "length (multiply_step d b (k, a) acc) = d"
    and "multiply_step d b (k, a) acc ! j mod MODULUS = (acc ! j + a * element sb k j) mod MODULUS"
proof -
  have "take d (drop (k * d) b) = map (\<lambda>j. element sb k j) [0..<d]"
    using assms(3) concat_block[of "[0..<d]" "\<lambda>k. map (\<lambda>j. element sb k j) [0..<d]" d k]
    by (simp add: assms(4))
  then show "length (multiply_step d b (k, a) acc) = d"
    and "multiply_step d b (k, a) acc ! j mod MODULUS = (acc ! j + a * element sb k j) mod MODULUS"
    using assms by (auto simp: multiply_step_def mul_mod_def mod_simps)
qed

lemma multiply_fold_nth:
  assumes "length acc = d" "j < d" and ks: "\<forall>(k, a) \<in> set kas. k < d"
    and b: "b = concat (map (\<lambda>k. map (\<lambda>j. element sb k j) [0..<d]) [0..<d])"
  shows "length (fold (multiply_step d b) kas acc) = d \<and>
         fold (multiply_step d b) kas acc ! j mod MODULUS
           = (acc ! j + sum_list (map (\<lambda>(k, a). a * element sb k j) kas)) mod MODULUS"
  using assms(1) ks
proof (induction kas arbitrary: acc)
  case (Cons ka kas)
  obtain k a where ka: "ka = (k, a)" by (cases ka)
  let ?acc = "multiply_step d b (k, a) acc"
  have k: "k < d" using Cons.prems ka by simp
  note step = multiply_step_nth[OF Cons.prems(1) assms(2) k b, of a]
  from Cons.IH[OF step(1)] Cons.prems(2)
  have IH: "length (fold (multiply_step d b) kas ?acc) = d"
    "fold (multiply_step d b) kas ?acc ! j mod MODULUS
       = (?acc ! j + sum_list (map (\<lambda>(k, a). a * element sb k j) kas)) mod MODULUS" by auto
  have "(?acc ! j + sum_list (map (\<lambda>(k, a). a * element sb k j) kas)) mod MODULUS
      = (acc ! j + a * element sb k j + sum_list (map (\<lambda>(k, a). a * element sb k j) kas)) mod MODULUS"
    using step(2) by (metis mod_add_left_eq)
  with IH ka show ?case by (simp add: add.assoc)
qed (simp add: assms(1))

lemma enumerate_lt: "(k, a) \<in> set (enumerate 0 xs) \<Longrightarrow> k < length xs"
  by (auto simp: in_set_enumerate_eq)

lemma multiply_step_entries:
  assumes "\<forall>x\<in>set acc. x < MODULUS"
  shows "\<forall>x\<in>set (multiply_step d b ka acc). x < MODULUS"
  using assms by (auto simp: multiply_step_def split: prod.splits)

lemma multiply_row_eq:
  assumes b: "b = concat (map (\<lambda>k. map (\<lambda>j. element sb k j) [0..<d]) [0..<d])"
  shows "fold (multiply_step d b) (enumerate 0 (row sa i d)) (replicate d 0)
           = map (product_cell sa sb d i) [0..<d]" (is "?r = _")
proof (rule nth_equalityI)
  have ks: "\<forall>(k, a) \<in> set (enumerate 0 (row sa i d)). k < d"
    using enumerate_lt by fastforce
  show len: "length ?r = length (map (product_cell sa sb d i) [0..<d])"
  proof (cases "d = 0")
    case False
    then show ?thesis using multiply_fold_nth[of "replicate d 0" d 0, OF _ _ ks b] by simp
  qed (simp add: row_def)
  fix j assume "j < length ?r"
  with len have j: "j < d" by simp
  have "\<forall>x\<in>set ?r. x < MODULUS"
    by (rule fold_invariant[where Q = "\<lambda>_. True"]) (auto simp: multiply_step_entries)
  with \<open>j < length ?r\<close> have "?r ! j < MODULUS" by simp
  moreover have "sum_list (map (\<lambda>(k, a). a * element sb k j) (enumerate 0 (row sa i d)))
      = (\<Sum>k<d. element sa i k * element sb k j)"
    by (simp add: sum_list_sum_nth atLeast0LessThan nth_enumerate_eq)
  ultimately show "?r ! j = map (product_cell sa sb d i) [0..<d] ! j"
    using multiply_fold_nth[of "replicate d 0" d j, OF _ j ks b] j by (simp add: product_cell_def)
qed

lemma multiply_rows_eq:
  "multiply_rows sa sb d rs re = concat (map (\<lambda>i. map (product_cell sa sb d i) [0..<d]) [rs..<re])"
  unfolding multiply_rows_def Let_def multiply_row_eq[OF refl] ..

lemma multiply_rows_length [simp]: "length (multiply_rows sa sb d rs re) = (re - rs) * d"
  by (simp add: multiply_rows_eq concat_block_length[where d = d])

lemma multiply_rows_less: "x \<in> set (multiply_rows sa sb d rs re) \<Longrightarrow> x < MODULUS"
  by (auto simp: multiply_rows_eq product_cell_def)

lemma multiply_rows_block:
  "n < re - rs \<Longrightarrow>
   take d (drop (n * d) (multiply_rows sa sb d rs re)) = map (product_cell sa sb d (rs + n)) [0..<d]"
  by (simp add: multiply_rows_eq concat_block)

subsection \<open>The identity behind Freivalds' check\<close>

text \<open>Projecting twice equals projecting the product: \<open>A (B r) = (A B) r\<close>, row by row.\<close>

lemma project_product:
  assumes r: "length r = d"
  shows "dot (row sa i d) (matrix_vector sb d r) = dot (map (product_cell sa sb d i) [0..<d]) r"
proof -
  have "dot (row sa i d) (matrix_vector sb d r)
      = (\<Sum>k<d. element sa i k * ((\<Sum>j<d. element sb k j * r ! j) mod MODULUS)) mod MODULUS"
    using r by (subst dot_sum[of _ d]) (auto simp: matrix_vector_nth)
  also have "\<dots> = (\<Sum>k<d. \<Sum>j<d. element sa i k * (element sb k j * r ! j)) mod MODULUS"
    by (subst mod_sum_eq[symmetric]) (simp add: mod_simps mod_sum_eq sum_distrib_left)
  also have "\<dots> = (\<Sum>j<d. \<Sum>k<d. element sa i k * (element sb k j * r ! j)) mod MODULUS"
    by (subst sum.swap) simp
  also have "\<dots> = (\<Sum>j<d. (\<Sum>k<d. element sa i k * element sb k j) * r ! j) mod MODULUS"
    by (simp add: sum_distrib_right mult.assoc)
  also have "\<dots> = (\<Sum>j<d. product_cell sa sb d i j * r ! j) mod MODULUS"
    unfolding product_cell_def by (subst (1 2) mod_sum_eq[symmetric]) (simp add: mod_simps)
  also have "\<dots> = dot (map (product_cell sa sb d i) [0..<d]) r"
    using r by (subst dot_sum[of _ d]) auto
  finally show ?thesis .
qed

end
