(* ===== verification/Compute.thy ===== *)
theory Compute
  imports Protocol Matrix
begin

text \<open>
  The workloads (\<open>crates/hocmesh-core/src/compute.rs\<close>) with the bucket layout and the price formulas
  they share with the verifier (\<open>crates/hocmesh-core/src/verify.rs\<close>): running a work specification,
  pricing it, splitting it into shards, pricing inference, and deciding whether two results agree.
  The wall-clock time a run reports is an argument, \<open>duration_ms\<close>.
\<close>

section \<open>Definitions\<close>

subsection \<open>Integer logarithm and square root of the standard library\<close>

fun ilog2 :: "nat \<Rightarrow> nat" where
  "ilog2 n = (if n < 2 then 0 else Suc (ilog2 (n div 2)))"

fun isqrt :: "nat \<Rightarrow> nat" where
  "isqrt n = (if n = 0 then 0
              else let r = 2 * isqrt (n div 4) in if (r + 1) * (r + 1) \<le> n then r + 1 else r)"

subsection \<open>Buckets\<close>

definition BUCKETS :: nat where
  "BUCKETS = 64"

definition AUDIT_BUCKETS :: nat where
  "AUDIT_BUCKETS = 3"

definition bucket_bounds :: "nat \<Rightarrow> nat \<Rightarrow> nat \<Rightarrow> nat \<Rightarrow> nat \<times> nat" where
  "bucket_bounds start end' index buckets0 =
     (let width = end' - start;
          buckets = max buckets0 1;
          base = width div buckets;
          remainder = width mod buckets;
          lead = min index remainder;
          offset = base * index + lead;
          this = base + (if index < remainder then 1 else 0);
          from = sat_add64 start offset
      in (from, min (sat_add64 from this) end'))"

subsection \<open>Prime counting\<close>

function is_prime_loop :: "nat \<Rightarrow> nat \<Rightarrow> bool" where
  "is_prime_loop n i =
     (if i \<le> n div i
      then if i dvd n \<or> (i + 2) dvd n then False else is_prime_loop n (i + 6)
      else True)"
  by pat_completeness auto

termination is_prime_loop
proof (relation "measure (\<lambda>(n, i). Suc n - i)", goal_cases)
  case (2 n i)
  then have "i \<le> n" using div_le_dividend[of n i] by linarith
  then show ?case by simp
qed simp

definition is_prime :: "nat \<Rightarrow> bool" where
  "is_prime n =
     (if n < 2 then False
      else if n = 2 \<or> n = 3 then True
      else if 2 dvd n \<or> 3 dvd n then False
      else is_prime_loop n 5)"

definition count_primes :: "nat \<Rightarrow> nat \<Rightarrow> nat" where
  "count_primes start end' = length (filter is_prime [start..<end'])"

definition bucket_range :: "nat \<Rightarrow> nat \<Rightarrow> (nat \<times> nat) list" where
  "bucket_range start end' = map (\<lambda>index. bucket_bounds start end' index BUCKETS) [0..<BUCKETS]"

definition prime_count :: "nat \<Rightarrow> nat \<Rightarrow> nat \<Rightarrow> work_result" where
  "prime_count start end' duration_ms =
     (let bucket_counts = map (\<lambda>(lo, hi). count_primes lo hi) (bucket_range start end')
      in RPrimeCount (wrap_u64 (sum_list bucket_counts)) bucket_counts duration_ms)"

definition matrix_multiply :: "nat \<Rightarrow> nat \<Rightarrow> nat \<Rightarrow> nat \<Rightarrow> nat \<Rightarrow> nat \<Rightarrow> work_result" where
  "matrix_multiply seed_a seed_b dim row_start row_end duration_ms =
     RMatrixMultiply (multiply_rows seed_a seed_b dim row_start row_end) duration_ms"

subsection \<open>Collatz trajectories\<close>

definition COLLATZ_STEP_CEILING :: nat where
  "COLLATZ_STEP_CEILING = 100000"

text \<open>The value is a \<open>u128\<close>; a plain \<open>value * 3 + 1\<close> wraps at its width.\<close>

definition collatz_next :: "nat \<Rightarrow> nat" where
  "collatz_next v = (if v mod 2 = 0 then v div 2 else (v * 3 + 1) mod 2 ^ 128)"

function collatz_loop :: "nat \<Rightarrow> nat \<Rightarrow> nat" where
  "collatz_loop v steps =
     (if v \<noteq> 1 \<and> steps < COLLATZ_STEP_CEILING then collatz_loop (collatz_next v) (steps + 1)
      else steps)"
  by pat_completeness auto

termination collatz_loop
  by (relation "measure (\<lambda>(v, steps). COLLATZ_STEP_CEILING - steps)") auto

definition collatz_steps :: "nat \<Rightarrow> nat" where
  "collatz_steps n = (if n = 0 then 0 else collatz_loop n 0)"

definition peak_trajectory :: "nat \<Rightarrow> nat \<Rightarrow> nat \<times> nat" where
  "peak_trajectory lo hi =
     fold (\<lambda>n best. if collatz_steps n > fst best then (collatz_steps n, n) else best) [lo..<hi] (0, 0)"

definition combine_step :: "nat list \<Rightarrow> nat \<times> nat \<Rightarrow> nat \<times> nat \<Rightarrow> nat \<times> nat" where
  "combine_step bucket_seeds is' best =
     (case is' of (index, steps) \<Rightarrow>
        let seed = (if index < length bucket_seeds then bucket_seeds ! index else 0)
        in if steps > fst best \<or> steps = fst best \<and> steps > 0 \<and> seed < snd best
           then (steps, seed) else best)"

definition combine_peaks :: "nat list \<Rightarrow> nat list \<Rightarrow> nat \<times> nat" where
  "combine_peaks bucket_peaks bucket_seeds =
     fold (combine_step bucket_seeds) (enumerate 0 bucket_peaks) (0, 0)"

definition collatz_peak :: "nat \<Rightarrow> nat \<Rightarrow> nat \<Rightarrow> work_result" where
  "collatz_peak start end' duration_ms =
     (let peaks = map (\<lambda>(lo, hi). peak_trajectory lo hi) (bucket_range start end');
          bucket_peaks = map fst peaks;
          bucket_seeds = map snd peaks;
          best = combine_peaks bucket_peaks bucket_seeds
      in RCollatzPeak (fst best) (snd best) bucket_peaks bucket_seeds duration_ms)"

fun execute_work :: "nat \<Rightarrow> work_spec \<Rightarrow> work_result" where
  "execute_work ms (PrimeCount s e) = prime_count s e ms"
| "execute_work ms (MatrixMultiply a b d rs re) = matrix_multiply a b d rs re ms"
| "execute_work ms (CollatzPeak s e) = collatz_peak s e ms"

fun results_agree :: "work_result \<Rightarrow> work_result \<Rightarrow> bool" where
  "results_agree (RPrimeCount a ab _) (RPrimeCount b bb _) \<longleftrightarrow> a = b \<and> ab = bb"
| "results_agree (RMatrixMultiply a _) (RMatrixMultiply b _) \<longleftrightarrow> a = b"
| "results_agree (RCollatzPeak a asd ap aseeds _) (RCollatzPeak b bsd bp bseeds _) \<longleftrightarrow>
     a = b \<and> asd = bsd \<and> ap = bp \<and> aseeds = bseeds"
| "results_agree _ _ \<longleftrightarrow> False"

fun declared_memory_bytes :: "work_spec \<Rightarrow> nat" where
  "declared_memory_bytes (MatrixMultiply _ _ d rs re) =
     wrap_u64 (wrap_u64 (64 * 1024 + wrap_u64 (wrap_u64 (d * d) * 4)) + wrap_u64 (wrap_u64 ((re - rs) * d) * 4))"
| "declared_memory_bytes _ = 64 * 1024"

subsection \<open>Prices\<close>

definition REFERENCE_OPS_PER_MCU :: nat where
  "REFERENCE_OPS_PER_MCU = 8192"

definition BYTES_PER_TOKEN :: nat where
  "BYTES_PER_TOKEN = 4"

definition trial_division_ops :: "nat \<Rightarrow> nat" where
  "trial_division_ops n0 =
     (let n = max n0 2; ln_n = max (ilog2 n * 693 div 1000) 1 in 2 + isqrt n div (3 * ln_n))"

definition collatz_ops :: "nat \<Rightarrow> nat" where
  "collatz_ops n = (let ln_n = max (ilog2 (max n 2) * 693 div 1000) 1 in max (7 * ln_n div 2) 1)"

fun compute_ops :: "work_spec \<Rightarrow> nat" where
  "compute_ops (PrimeCount s e) = sat_mul64 (e - s) (trial_division_ops e)"
| "compute_ops (MatrixMultiply _ _ d rs re) = wrap_u64 (wrap_u64 ((re - rs) * d) * d)"
| "compute_ops (CollatzPeak s e) = sat_mul64 (e - s) (collatz_ops e)"

fun witness_ops :: "work_spec \<Rightarrow> nat" where
  "witness_ops (PrimeCount s e) =
     wrap_u64 (wrap_u64 ((e - s) div BUCKETS * AUDIT_BUCKETS) * trial_division_ops e)"
| "witness_ops (MatrixMultiply _ _ d rs re) =
     wrap_u64 (wrap_u64 (wrap_u64 (2 * d) * d) + wrap_u64 (wrap_u64 (3 * (re - rs)) * d))"
| "witness_ops (CollatzPeak s e) =
     wrap_u64 (wrap_u64 ((e - s) div BUCKETS * AUDIT_BUCKETS) * collatz_ops e)"

definition work_cost_mcu :: "work_spec \<Rightarrow> int" where
  "work_cost_mcu work = min (int (max (div_ceil (compute_ops work) REFERENCE_OPS_PER_MCU) 1)) i64_max"

definition inference_cost_mcu :: "nat list \<Rightarrow> nat \<Rightarrow> nat \<Rightarrow> int" where
  "inference_cost_mcu prompt_bytes max_tokens parameter_count =
     (let tokens = fold (\<lambda>bytes sum. sat_add64 (sat_add64 sum (div_ceil bytes BYTES_PER_TOKEN)) max_tokens)
                        prompt_bytes 0;
          ops = sat_mul64 (sat_mul64 tokens parameter_count) 2
      in min (int (max (div_ceil ops REFERENCE_OPS_PER_MCU) 1)) i64_max)"

definition inference_batch_cost_mcu :: "nat list \<Rightarrow> nat \<Rightarrow> nat \<Rightarrow> nat \<Rightarrow> nat \<Rightarrow> int" where
  "inference_batch_cost_mcu prompt_bytes batch_start batch_end max_tokens parameter_count =
     (let lo = min batch_start (length prompt_bytes);
          hi = max lo (min batch_end (length prompt_bytes))
      in inference_cost_mcu (take (hi - lo) (drop lo prompt_bytes)) max_tokens parameter_count)"

subsection \<open>Splitting\<close>

text \<open>The loop the three splitters share: \<open>i\<close> from \<open>0\<close> to \<open>actual\<close>, a cursor advanced by \<open>base\<close>, and by
  one more in the first \<open>remainder\<close> rounds.\<close>

primrec split_cursor :: "nat \<Rightarrow> nat \<Rightarrow> nat \<Rightarrow> nat \<Rightarrow> nat \<Rightarrow> (nat \<times> nat) list" where
  "split_cursor 0 i base remainder cursor = []"
| "split_cursor (Suc n) i base remainder cursor =
     (let next = cursor + base + (if i < remainder then 1 else 0)
      in (cursor, next) # split_cursor n (Suc i) base remainder next)"

definition split_spans :: "nat \<Rightarrow> nat \<Rightarrow> nat \<Rightarrow> (nat \<times> nat) list" where
  "split_spans start end' shards =
     (let width = end' - start; actual = min shards (max width 1)
      in split_cursor actual 0 (width div actual) (width mod actual) start)"

definition split_primes :: "nat \<Rightarrow> nat \<Rightarrow> nat \<Rightarrow> work_spec list" where
  "split_primes start end' shards = map (\<lambda>(a, b). PrimeCount a b) (split_spans start end' shards)"

definition split_collatz :: "nat \<Rightarrow> nat \<Rightarrow> nat \<Rightarrow> work_spec list" where
  "split_collatz start end' shards = map (\<lambda>(a, b). CollatzPeak a b) (split_spans start end' shards)"

definition split_rows :: "nat \<Rightarrow> nat \<Rightarrow> nat \<Rightarrow> nat \<Rightarrow> nat \<Rightarrow> nat \<Rightarrow> work_spec list" where
  "split_rows seed_a seed_b dim row_start row_end shards =
     map (\<lambda>(a, b). MatrixMultiply seed_a seed_b dim a b) (split_spans row_start row_end shards)"

definition split_work :: "work_spec \<Rightarrow> nat \<Rightarrow> work_spec list" where
  "split_work work shards0 =
     (let shards = max shards0 1 in
      case work of
        PrimeCount s e \<Rightarrow> split_primes s e shards
      | MatrixMultiply a b d rs re \<Rightarrow> split_rows a b d rs re shards
      | CollatzPeak s e \<Rightarrow> split_collatz s e shards)"

section \<open>Lemmas\<close>

declare isqrt.simps [simp del] ilog2.simps [simp del] is_prime_loop.simps [simp del]
  collatz_loop.simps [simp del]

subsection \<open>Logarithm and square root\<close>

lemma isqrt_bounds: "isqrt n * isqrt n \<le> n \<and> n < (isqrt n + 1) * (isqrt n + 1)"
proof (induction n rule: isqrt.induct)
  case (1 n)
  show ?case
  proof (cases "n = 0")
    case True
    then show ?thesis by (simp add: isqrt.simps)
  next
    case False
    define q where "q = isqrt (n div 4)"
    from 1[OF False] have "q * q \<le> n div 4" "n div 4 < (q + 1) * (q + 1)"
      by (simp_all add: q_def)
    then have "4 * (q * q) \<le> n" "n < 4 * ((q + 1) * (q + 1))" by linarith+
    then show ?thesis
      using False by (auto simp: isqrt.simps[of n] Let_def q_def[symmetric] algebra_simps)
  qed
qed

lemma ilog2_bounds: "0 < n \<Longrightarrow> 2 ^ ilog2 n \<le> n \<and> n < 2 ^ Suc (ilog2 n)"
proof (induction n rule: ilog2.induct)
  case (1 n)
  show ?case
  proof (cases "n < 2")
    case True
    with 1 show ?thesis by (simp add: ilog2.simps)
  next
    case False
    with 1 have "2 ^ ilog2 (n div 2) \<le> n div 2" "n div 2 < 2 ^ Suc (ilog2 (n div 2))" by auto
    with False show ?thesis by (simp add: ilog2.simps[of n]) linarith
  qed
qed

subsection \<open>Trial division decides primality\<close>

definition prime_number :: "nat \<Rightarrow> bool" where
  "prime_number n \<longleftrightarrow> 1 < n \<and> (\<forall>d. d dvd n \<longrightarrow> d = 1 \<or> d = n)"

text \<open>What the loop has ruled out when it stands at \<open>i\<close>: every divisor in \<open>[2, i)\<close>.\<close>

lemma is_prime_loop_correct:
  assumes "\<forall>d. 2 \<le> d \<and> d < i \<longrightarrow> \<not> d dvd n" and "i mod 6 = 5" and "\<not> 2 dvd n" and "\<not> 3 dvd n"
  shows "is_prime_loop n i \<longleftrightarrow> (\<forall>d. 2 \<le> d \<and> d * d \<le> n \<longrightarrow> \<not> d dvd n)"
  using assms
proof (induction n i rule: is_prime_loop.induct)
  case (1 n i)
  have i: "5 \<le> i" using 1(3) by presburger
  show ?case
  proof (cases "i \<le> n div i")
    case False
    then have "n < i * i" using i by (simp add: not_le div_less_iff_less_mult)
    then have "d < i" if "d * d \<le> n" for d
      using that mult_le_mono[of i d i d] by linarith
    with False 1(2) show ?thesis by (auto simp: is_prime_loop.simps[of n i])
  next
    case le: True
    then have sq: "i * i \<le> n" using i by (simp add: less_eq_div_iff_mult_less_eq)
    show ?thesis
    proof (cases "i dvd n \<or> (i + 2) dvd n")
      case True
      have "\<exists>d. 2 \<le> d \<and> d * d \<le> n \<and> d dvd n"
      proof (cases "i dvd n")
        case True
        with sq i show ?thesis by (intro exI[of _ i]) simp
      next
        case False
        with True obtain k where k: "n = (i + 2) * k" by blast
        have "i + 2 < n" using sq i mult_le_mono1[OF i, of i] by linarith
        then have "k \<noteq> 0" "k \<noteq> 1" unfolding k by (auto intro: Nat.gr0I)
        then have k2: "2 \<le> k" by linarith
        have "k dvd n" using k by simp
        with 1(2) k2 have "i \<le> k" by (meson not_le)
        show ?thesis
        proof (cases "i + 2 \<le> k")
          case True
          then have "(i + 2) * (i + 2) \<le> n" unfolding k by (rule mult_le_mono2)
          moreover have "(i + 2) dvd n" using k by (rule dvdI)
          ultimately show ?thesis by (intro exI[of _ "i + 2"]) simp
        next
          case False
          then have "k * k \<le> n" unfolding k by (intro mult_le_mono1) simp
          then show ?thesis using \<open>k dvd n\<close> k2 by (intro exI[of _ k]) simp
        qed
      qed
      then show ?thesis using le True by (auto simp: is_prime_loop.simps[of n i])
    next
      case nd: False
      have "\<not> d dvd n" if "2 \<le> d" "d < i + 6" for d
      proof
        assume d: "d dvd n"
        then have "i \<le> d" using 1(2) that by (meson not_le)
        then have "d = i \<or> d = i + 1 \<or> d = i + 2 \<or> d = i + 3 \<or> d = i + 4 \<or> d = i + 5" using that by linarith
        moreover have "2 dvd i + 1" "3 dvd i + 1" "2 dvd i + 3" "3 dvd i + 4" "2 dvd i + 5"
          using 1(3) by presburger+
        ultimately show False using nd d 1(4,5) by (meson dvd_trans)
      qed
      then have "is_prime_loop n (i + 6) \<longleftrightarrow> (\<forall>d. 2 \<le> d \<and> d * d \<le> n \<longrightarrow> \<not> d dvd n)"
        using 1(1)[OF le nd] 1(3-5) by (auto simp: mod_simps) 
      then show ?thesis using le nd by (simp add: is_prime_loop.simps[of n i])
    qed
  qed
qed

lemma prime_number_sqrt:
  "prime_number n \<longleftrightarrow> 1 < n \<and> (\<forall>d. 2 \<le> d \<and> d * d \<le> n \<longrightarrow> \<not> d dvd n)"
proof (cases "1 < n")
  case n: True
  have "\<exists>d. 2 \<le> d \<and> d * d \<le> n \<and> d dvd n" if "d dvd n" "d \<noteq> 1" "d \<noteq> n" for d
  proof -
    obtain k where k: "n = d * k" using \<open>d dvd n\<close> by (rule dvdE)
    have "d \<noteq> 0" "k \<noteq> 0" "k \<noteq> 1" using k n that by (auto intro: Nat.gr0I)
    then have ge: "2 \<le> d" "2 \<le> k" using that by linarith+
    show ?thesis
    proof (cases "d \<le> k")
      case True
      then show ?thesis using ge k by (intro exI[of _ d]) simp
    next
      case False
      then show ?thesis using ge k by (intro exI[of _ k]) simp
    qed
  qed
  moreover have "d \<noteq> n" "d \<noteq> 1" if "2 \<le> d" "d * d \<le> n" for d
    using that mult_le_mono1[OF that(1), of d] by linarith+
  ultimately show ?thesis using n unfolding prime_number_def by blast
qed (simp add: prime_number_def)

lemma is_prime_correct: "is_prime n \<longleftrightarrow> prime_number n"
proof -
  consider "n < 2" | "n = 2 \<or> n = 3" | "3 < n" "2 dvd n \<or> 3 dvd n"
    | "3 < n" "\<not> 2 dvd n" "\<not> 3 dvd n" by linarith
  then show ?thesis
  proof cases
    case 2
    have "\<not> (2 \<le> d \<and> d * d \<le> n)" for d
      using 2 mult_le_mono[of 2 d 2 d] by auto
    with 2 show ?thesis by (auto simp: is_prime_def prime_number_sqrt)
  next
    case 3
    then have "\<not> prime_number n" unfolding prime_number_def by fastforce
    with 3 show ?thesis by (auto simp: is_prime_def)
  next
    case 4
    have "\<not> d dvd n" if "2 \<le> d" "d < 5" for d
    proof
      assume "d dvd n"
      moreover have "d = 2 \<or> d = 3 \<or> d = 4" using that by linarith
      moreover have "(2 :: nat) dvd 4" by simp
      ultimately show False using 4 by (metis dvd_trans)
    qed
    with 4 show ?thesis
      by (simp add: is_prime_def prime_number_sqrt is_prime_loop_correct)
  qed (simp add: is_prime_def prime_number_def)
qed

subsection \<open>Tilings of a range\<close>

text \<open>Spans that cover \<open>[a, b)\<close> from left to right without gap or overlap.\<close>

fun tiles :: "nat \<Rightarrow> nat \<Rightarrow> (nat \<times> nat) list \<Rightarrow> bool" where
  "tiles a b [] \<longleftrightarrow> a = b"
| "tiles a b ((x, y) # spans) \<longleftrightarrow> x = a \<and> x \<le> y \<and> tiles y b spans"

definition span_edge :: "nat \<Rightarrow> nat \<Rightarrow> nat \<Rightarrow> nat \<Rightarrow> nat" where
  "span_edge start width n i = start + width div n * i + min i (width mod n)"

lemma span_edge_0 [simp]: "span_edge s w n 0 = s"
  by (simp add: span_edge_def)

lemma span_edge_last [simp]: "0 < n \<Longrightarrow> span_edge s w n n = s + w"
  by (simp add: span_edge_def min_absorb2 less_imp_le)

lemma span_edge_Suc:
  "span_edge s w n (Suc i) = span_edge s w n i + w div n + (if i < w mod n then 1 else 0)"
  by (auto simp: span_edge_def)

lemma span_edge_mono: "i \<le> j \<Longrightarrow> span_edge s w n i \<le> span_edge s w n j"
  by (auto simp: span_edge_def intro!: add_mono mult_le_mono)

lemma span_edge_le: "i \<le> n \<Longrightarrow> 0 < n \<Longrightarrow> span_edge s w n i \<le> s + w"
  using span_edge_mono[of i n s w n] by simp

lemma tiles_map_edges:
  assumes "\<And>i j. i \<le> j \<Longrightarrow> g i \<le> g j"
  shows "tiles (g m) (g (m + n)) (map (\<lambda>i. (g i, g (Suc i))) [m..<m + n])"
proof (induction n arbitrary: m)
  case (Suc n)
  have "[m..<m + Suc n] = m # [Suc m..<Suc m + n]" by (simp add: upt_conv_Cons)
  with Suc[of "Suc m"] assms show ?case by simp
qed simp

lemma split_cursor_edges:
  "split_cursor m i (w div n) (w mod n) (span_edge s w n i)
     = map (\<lambda>k. (span_edge s w n k, span_edge s w n (Suc k))) [i..<i + m]"
proof (induction m arbitrary: i)
  case (Suc m)
  have "[i..<i + Suc m] = i # [Suc i..<Suc i + m]" by (simp add: upt_conv_Cons)
  with Suc[of "Suc i"] show ?case by (simp add: Let_def span_edge_Suc)
qed simp

lemma split_spans_edges:
  assumes "n = min shards (max (e - s) 1)"
  shows "split_spans s e shards
           = map (\<lambda>k. (span_edge s (e - s) n k, span_edge s (e - s) n (Suc k))) [0..<n]"
  using split_cursor_edges[of n 0 "e - s" n s] assms by (simp add: split_spans_def Let_def)

lemma bucket_bounds_edges:
  assumes "s \<le> e" "e \<le> u64_max" "i < n"
  shows "bucket_bounds s e i n = (span_edge s (e - s) n i, span_edge s (e - s) n (Suc i))"
proof -
  have "span_edge s (e - s) n i \<le> e" "span_edge s (e - s) n (Suc i) \<le> e"
    using assms span_edge_le[of i n s "e - s"] span_edge_le[of "Suc i" n s "e - s"] by auto
  then have "sat_add64 s ((e - s) div n * i + min i ((e - s) mod n)) = span_edge s (e - s) n i"
    and "min (sat_add64 (span_edge s (e - s) n i)
           ((e - s) div n + (if i < (e - s) mod n then 1 else 0))) e
         = span_edge s (e - s) n (Suc i)"
    using assms(2) unfolding span_edge_Suc by (simp_all add: sat_add64_def span_edge_def add.assoc)
  with assms(3) show ?thesis
    by (simp add: bucket_bounds_def Let_def max_absorb1 Suc_leI)
qed

lemma tiles_split_spans: "s \<le> e \<Longrightarrow> 0 < shards \<Longrightarrow> tiles s e (split_spans s e shards)"
proof -
  assume le: "s \<le> e" "0 < shards"
  define n where "n = min shards (max (e - s) 1)"
  have "0 < n" using le by (simp add: n_def)
  with le tiles_map_edges[of "span_edge s (e - s) n" 0 n] show ?thesis
    by (simp add: split_spans_edges[OF n_def] span_edge_mono)
qed

lemma tiles_bucket_range: "s \<le> e \<Longrightarrow> e \<le> u64_max \<Longrightarrow> tiles s e (bucket_range s e)"
proof -
  assume le: "s \<le> e" "e \<le> u64_max"
  then have "bucket_range s e = map (\<lambda>k. (span_edge s (e - s) BUCKETS k, span_edge s (e - s) BUCKETS (Suc k))) [0..<BUCKETS]"
    by (simp add: bucket_range_def bucket_bounds_edges)
  then show ?thesis
    using le tiles_map_edges[of "span_edge s (e - s) BUCKETS" 0 BUCKETS] span_edge_mono
    by (simp add: BUCKETS_def)
qed

text \<open>
  The contract of a function that cuts a range into spans, and what its clients rely on: nothing is
  counted twice and nothing is missed.
\<close>

locale range_tiling =
  fixes spans :: "nat \<Rightarrow> nat \<Rightarrow> (nat \<times> nat) list"
    and ok :: "nat \<Rightarrow> nat \<Rightarrow> bool"
  assumes tiling: "ok s e \<Longrightarrow> tiles s e (spans s e)"
begin

lemma tiles_le: "tiles a b xs \<Longrightarrow> a \<le> b"
  by (induction a b xs rule: tiles.induct) auto

lemma tiles_concat: "tiles a b xs \<Longrightarrow> concat (map (\<lambda>(x, y). [x..<y]) xs) = [a..<b]"
proof (induction a b xs rule: tiles.induct)
  case (2 a b x y spans)
  then have "y \<le> b" using tiles_le by auto
  with 2 show ?case using upt_add_eq_append[of a y "b - y"] by simp
qed simp

lemma spans_concat: "ok s e \<Longrightarrow> concat (map (\<lambda>(x, y). [x..<y]) (spans s e)) = [s..<e]"
  by (rule tiles_concat[OF tiling])

lemma count_total:
  assumes "ok s e"
  shows "sum_list (map (\<lambda>(x, y). length (filter P [x..<y])) (spans s e)) = length (filter P [s..<e])"
proof -
  have "sum_list (map (\<lambda>(x, y). length (filter P [x..<y])) xs)
      = length (filter P (concat (map (\<lambda>(x, y). [x..<y]) xs)))" for xs
    by (induction xs) auto
  with spans_concat[OF assms] show ?thesis by simp
qed

lemma union_spans: "ok s e \<Longrightarrow> (\<Union>(x, y)\<in>set (spans s e). {x..<y}) = {s..<e}"
  using arg_cong[OF spans_concat, of s e set] by (auto simp: case_prod_beta')

lemma span_within: "ok s e \<Longrightarrow> (x, y) \<in> set (spans s e) \<Longrightarrow> s \<le> x \<and> x \<le> y \<and> y \<le> e"
proof -
  assume "ok s e" and mem: "(x, y) \<in> set (spans s e)"
  have "s \<le> x \<and> x \<le> y \<and> y \<le> e" if "tiles s e xs" "(x, y) \<in> set xs" for xs
    using that
  proof (induction s e xs rule: tiles.induct)
    case (2 a b u v sp)
    have "v \<le> b" using 2(2) tiles_le by auto
    with 2 show ?case by auto
  qed simp
  with tiling[OF \<open>ok s e\<close>] mem show ?thesis by blast
qed

end

interpretation shards: range_tiling "\<lambda>s e. split_spans s e (max n 1)" "\<lambda>s e. s \<le> e" for n
  by unfold_locales (simp add: tiles_split_spans)

interpretation buckets: range_tiling bucket_range "\<lambda>s e. s \<le> e \<and> e \<le> u64_max"
  by unfold_locales (simp add: tiles_bucket_range)

lemma split_spans_length: "0 < n \<Longrightarrow> length (split_spans s e n) = min n (max (e - s) 1)"
  by (simp add: split_spans_edges[OF refl])

lemma split_spans_length_bounds:
  assumes "0 < n"
  shows "length (split_spans s e n) \<le> n" "0 < length (split_spans s e n)"
  using assms unfolding split_spans_length[OF assms] by linarith+

lemma split_work_length_eq:
  "length (split_work (PrimeCount s e) n) = length (split_spans s e (max n 1))"
  "length (split_work (CollatzPeak s e) n) = length (split_spans s e (max n 1))"
  "length (split_work (MatrixMultiply sa sb d s e) n) = length (split_spans s e (max n 1))"
  by (simp_all add: split_work_def split_primes_def split_rows_def split_collatz_def Let_def)

lemma split_work_length:
  shows "length (split_work w n) \<le> max n 1" "0 < length (split_work w n)"
proof -
  have "0 < max n 1" by linarith
  note split_spans_length_bounds[OF this]
  then show "length (split_work w n) \<le> max n 1" "0 < length (split_work w n)"
    by (cases w; simp only: split_work_length_eq)+
qed

subsection \<open>Prices\<close>

lemma work_cost_bounds: "1 \<le> work_cost_mcu w" "work_cost_mcu w \<le> i64_max"
  by (simp_all add: work_cost_mcu_def i64_max_def)

lemma inference_cost_bounds:
  "1 \<le> inference_cost_mcu ps t n" "inference_cost_mcu ps t n \<le> i64_max"
  by (simp_all add: inference_cost_mcu_def Let_def i64_max_def)

definition inference_tokens :: "nat list \<Rightarrow> nat \<Rightarrow> nat" where
  "inference_tokens ps t = sum_list (map (\<lambda>b. div_ceil b BYTES_PER_TOKEN + t) ps)"

lemma token_fold:
  "fold (\<lambda>b sum. sat_add64 (sat_add64 sum (div_ceil b BYTES_PER_TOKEN)) t) ps (min a u64_max)
     = min (a + inference_tokens ps t) u64_max"
proof (induction ps arbitrary: a)
  case (Cons p ps)
  have "sat_add64 (sat_add64 (min a u64_max) (div_ceil p BYTES_PER_TOKEN)) t
      = min (a + (div_ceil p BYTES_PER_TOKEN + t)) u64_max"
    by (auto simp: sat_add64_def)
  then show ?case by (simp add: Cons inference_tokens_def add.assoc)
qed (simp add: inference_tokens_def)

lemma sat_ops: "sat_mul64 (sat_mul64 (min a u64_max) p) 2 = min (2 * p * a) u64_max"
proof (cases "a \<le> u64_max \<or> p = 0")
  case True
  then show ?thesis by (auto simp: sat_mul64_def mult.commute mult.left_commute min_def)
next
  case False
  then have p: "1 \<le> p" and a: "u64_max \<le> a" by auto
  have "u64_max * 1 \<le> u64_max * p" "u64_max * 1 \<le> a * p"
    using mult_le_mono[OF le_refl p] mult_le_mono[OF a p] by blast+
  then have "min (2 * p * a) u64_max = u64_max" "sat_mul64 u64_max p = u64_max"
    by (simp_all add: sat_mul64_def min_absorb2 mult.commute)
  with a show ?thesis by (simp add: min_absorb2) (simp add: sat_mul64_def)
qed

lemma inference_cost_eq:
  "inference_cost_mcu ps t n =
     min (int (max (div_ceil (min (2 * n * inference_tokens ps t) u64_max) REFERENCE_OPS_PER_MCU) 1)) i64_max"
  using token_fold[of t ps 0] by (simp add: inference_cost_mcu_def Let_def sat_ops)

lemma inference_tokens_append:
  "inference_tokens (xs @ ys) t = inference_tokens xs t + inference_tokens ys t"
  by (simp add: inference_tokens_def)

lemma inference_cost_append:
  "inference_cost_mcu (xs @ ys) t n \<le> inference_cost_mcu xs t n + inference_cost_mcu ys t n"
proof -
  define a where "a = 2 * n * inference_tokens xs t"
  define b where "b = 2 * n * inference_tokens ys t"
  have "div_ceil (min (a + b) u64_max) REFERENCE_OPS_PER_MCU
      \<le> div_ceil (min a u64_max + min b u64_max) REFERENCE_OPS_PER_MCU"
    by (intro div_ceil_mono) (auto simp: REFERENCE_OPS_PER_MCU_def)
  also have "\<dots> \<le> div_ceil (min a u64_max) REFERENCE_OPS_PER_MCU + div_ceil (min b u64_max) REFERENCE_OPS_PER_MCU"
    by (intro div_ceil_add) (auto simp: REFERENCE_OPS_PER_MCU_def)
  finally have "x \<le> y + z" if "x = div_ceil (min (a + b) u64_max) REFERENCE_OPS_PER_MCU"
    "y = div_ceil (min a u64_max) REFERENCE_OPS_PER_MCU"
    "z = div_ceil (min b u64_max) REFERENCE_OPS_PER_MCU" for x y z
    using that by simp
  moreover have "min (int (max x 1)) i64_max \<le> min (int (max y 1)) i64_max + min (int (max z 1)) i64_max"
    if "x \<le> y + z" for x y z
    using that by (simp add: min_def max_def i64_max_def)
  ultimately show ?thesis
    unfolding inference_cost_eq inference_tokens_append distrib_left a_def[symmetric] b_def[symmetric]
    by blast
qed

subsection \<open>Peaks\<close>

text \<open>What a peak over a set of seeds is: the greatest step count and the smallest seed reaching it;
  \<open>(0, 0)\<close> when no seed takes a step.\<close>

definition peak_of :: "nat set \<Rightarrow> nat \<times> nat \<Rightarrow> bool" where
  "peak_of S best \<longleftrightarrow>
     (\<forall>n\<in>S. collatz_steps n \<le> fst best) \<and>
     (best = (0, 0) \<or>
      0 < fst best \<and> snd best \<in> S \<and> collatz_steps (snd best) = fst best \<and>
      (\<forall>n\<in>S. collatz_steps n = fst best \<longrightarrow> snd best \<le> n))"

lemma peak_of_unique: "peak_of S a \<Longrightarrow> peak_of S b \<Longrightarrow> a = b"
  unfolding peak_of_def by (metis bot_nat_0.extremum_uniqueI fst_conv le_antisym less_irrefl prod.collapse)

lemma peak_trajectory_peak: "peak_of {lo..<hi} (peak_trajectory lo hi)"
proof (induction hi)
  case 0
  then show ?case by (simp add: peak_of_def peak_trajectory_def)
next
  case (Suc hi)
  show ?case
  proof (cases "lo \<le> hi")
    case True
    define b where "b = peak_trajectory lo hi"
    have "peak_trajectory lo (Suc hi) =
      (if collatz_steps hi > fst b then (collatz_steps hi, hi) else b)"
      using True by (simp add: peak_trajectory_def b_def)
    moreover have "{lo..<Suc hi} = insert hi {lo..<hi}" using True by auto
    ultimately show ?thesis
      using Suc unfolding b_def[symmetric] by (auto simp: peak_of_def)
  qed (simp add: peak_of_def peak_trajectory_def)
qed

definition merge_peak :: "nat \<times> nat \<Rightarrow> nat \<times> nat \<Rightarrow> nat \<times> nat" where
  "merge_peak p best =
     (if fst p > fst best \<or> fst p = fst best \<and> fst p > 0 \<and> snd p < snd best then p else best)"

lemma merge_peak_peak:
  assumes "peak_of S best" "peak_of T p"
  shows "peak_of (S \<union> T) (merge_peak p best)"
  using assms unfolding peak_of_def merge_peak_def
  by (auto; metis dual_order.strict_trans2 le_antisym le_less_trans less_le_not_le linorder_not_less order.trans)

lemma combine_peaks_merge: "combine_peaks (map fst ps) (map snd ps) = fold merge_peak ps (0, 0)"
proof -
  have "fold (combine_step (map snd (qs @ ps))) (enumerate (length qs) (map fst ps)) b
      = fold merge_peak ps b" for qs b
  proof (induction ps arbitrary: qs b)
    case (Cons p ps)
    have "combine_step (map snd (qs @ p # ps)) (length qs, fst p) b = merge_peak p b"
      by (cases p) (simp add: combine_step_def merge_peak_def nth_append Let_def)
    with Cons[of "qs @ [p]"] show ?case by simp
  qed simp
  from this[of "[]"] show ?thesis by (simp add: combine_peaks_def)
qed

lemma fold_merge_peak:
  assumes "peak_of S b" "\<And>x. x \<in> set xs \<Longrightarrow> peak_of (f x) (g x)"
  shows "peak_of (S \<union> (\<Union>x\<in>set xs. f x)) (fold merge_peak (map g xs) b)"
  using assms
proof (induction xs arbitrary: S b)
  case (Cons x xs)
  from Cons.prems have "peak_of (S \<union> f x) (merge_peak (g x) b)"
    by (intro merge_peak_peak) auto
  with Cons.IH[of "S \<union> f x" "merge_peak (g x) b"] Cons.prems show ?case
    by (simp add: Un_assoc)
qed simp

text \<open>Combining the peaks of the buckets gives the peak of the whole range.\<close>

lemma combined_peaks_eq:
  assumes "s \<le> e" "e \<le> u64_max" and "peaks = map (\<lambda>(lo, hi). peak_trajectory lo hi) (bucket_range s e)"
  shows "combine_peaks (map fst peaks) (map snd peaks) = peak_trajectory s e"
proof -
  have "peak_of ({} \<union> (\<Union>x\<in>set (bucket_range s e). (\<lambda>(lo, hi). {lo..<hi}) x)) (fold merge_peak peaks (0, 0))"
    unfolding assms(3)
  proof (rule fold_merge_peak)
    show "peak_of {} (0, 0)" by (simp add: peak_of_def)
  qed (auto intro: peak_trajectory_peak)
  then have "peak_of {s..<e} (combine_peaks (map fst peaks) (map snd peaks))"
    using buckets.union_spans[of s e] assms(1,2) by (simp add: combine_peaks_merge)
  with peak_trajectory_peak show ?thesis using peak_of_unique by blast
qed

subsection \<open>Honest prime counts\<close>

lemma count_primes_le: "count_primes a b \<le> b - a"
  using length_filter_le[of is_prime "[a..<b]"] by (simp add: count_primes_def)

lemma bucket_counts_total:
  assumes "s \<le> e" "e \<le> u64_max"
  shows "sum_list (map (\<lambda>(lo, hi). count_primes lo hi) (bucket_range s e)) = count_primes s e"
  using buckets.count_total[of s e is_prime] assms by (simp add: count_primes_def)

lemma bucket_range_length [simp]: "length (bucket_range s e) = BUCKETS"
  by (simp add: bucket_range_def)

lemma bucket_range_nth [simp]: "i < BUCKETS \<Longrightarrow> bucket_range s e ! i = bucket_bounds s e i BUCKETS"
  by (simp add: bucket_range_def)

lemma results_agree_refl: "results_agree r r"
  by (cases r) simp_all

lemma results_agree_sym: "results_agree a b \<Longrightarrow> results_agree b a"
  by (cases a; cases b) auto

lemma results_agree_trans: "results_agree a b \<Longrightarrow> results_agree b c \<Longrightarrow> results_agree a c"
  by (cases a; cases b; cases c) auto

lemma execute_work_agree: "results_agree (execute_work t w) (execute_work t' w)"
  by (cases w) (simp_all add: prime_count_def matrix_multiply_def collatz_peak_def Let_def)

end
