(* ===== verification/Verify.thy ===== *)
theory Verify
  imports Compute
begin

text \<open>
  Result verification (\<open>crates/hocmesh-core/src/verify.rs\<close>): the audit challenge, the buckets it
  draws, the witness check of each workload, full recomputation, replica comparison and settlement.
  Whether a node's record spares it an audit is a floating-point decision of
  \<open>reputation.rs\<close>; it enters \<open>settle\<close> as the argument \<open>should_audit\<close>.
\<close>

unbundle bit_operations_syntax

section \<open>Definitions\<close>

datatype tier = Witness | Replication | Recompute | Unaudited

datatype rejection =
    BucketShape | BucketTotal | BucketAudit nat | PeakTotal | PeakAudit nat
  | EntryCount | OutsideField | ProductCheck nat | WorkloadMismatch | RecomputeDisagrees

datatype verdict = Accepted tier | Rejected rejection | Inconclusive

definition is_accepted :: "verdict \<Rightarrow> bool" where
  "is_accepted v = (case v of Accepted _ \<Rightarrow> True | _ \<Rightarrow> False)"

definition is_rejected :: "verdict \<Rightarrow> bool" where
  "is_rejected v = (case v of Rejected _ \<Rightarrow> True | _ \<Rightarrow> False)"

subsection \<open>The challenge\<close>

definition mix :: "64 word \<Rightarrow> 64 word" where
  "mix z0 =
     (let z1 = z0 + 0x9E3779B97F4A7C15;
          z2 = (z1 XOR drop_bit 30 z1) * 0xBF58476D1CE4E5B9;
          z3 = (z2 XOR drop_bit 27 z2) * 0x94D049BB133111EB
      in z3 XOR drop_bit 31 z3)"

text \<open>\<open>u64::from_be_bytes\<close> of the first eight bytes of a digest.\<close>

definition be_word :: "string \<Rightarrow> nat" where
  "be_word digest = foldl (\<lambda>acc b. 256 * acc + of_char b) 0 (take 8 digest)"

definition for_entry :: "crypto \<Rightarrow> string \<Rightarrow> string \<Rightarrow> nat" where
  "for_entry c previous_hash transaction_id =
     be_word (sha256 c (''hocmesh-audit-v1'' @ previous_hash @ ''|'' @ transaction_id))"

definition for_certified_entry :: "crypto \<Rightarrow> string \<Rightarrow> string \<Rightarrow> string list \<Rightarrow> nat" where
  "for_certified_entry c previous_hash transaction_id signatures =
     be_word (sha256 c (''hocmesh-audit-beacon-v1'' @ previous_hash @ ''|'' @ transaction_id @
                        concat (map (\<lambda>sig. ''|'' @ sig) (sort signatures))))"

subsection \<open>Drawing buckets\<close>

definition swap_list :: "'a list \<Rightarrow> nat \<Rightarrow> nat \<Rightarrow> 'a list" where
  "swap_list xs i j = xs[i := xs ! j, j := xs ! i]"

definition audit_step :: "nat \<Rightarrow> 64 word \<times> nat list \<Rightarrow> 64 word \<times> nat list" where
  "audit_step slot st =
     (case st of (state, pool) \<Rightarrow>
        let state' = mix state;
            remaining = length pool - slot;
            pick = slot + unat state' mod remaining
        in (state', swap_list pool slot pick))"

definition audit_indices :: "nat \<Rightarrow> nat \<Rightarrow> nat \<Rightarrow> nat list" where
  "audit_indices nonce n_total count0 =
     (let count = min count0 n_total
      in sort (take count (snd (fold audit_step [0..<count] (of_nat nonce, [0..<n_total])))))"

subsection \<open>Witness checks\<close>

text \<open>The audit loops return at the first bucket that disagrees.\<close>

fun prime_audit :: "nat \<Rightarrow> nat \<Rightarrow> nat list \<Rightarrow> nat list \<Rightarrow> verdict" where
  "prime_audit start end' bucket_counts [] = Accepted Witness"
| "prime_audit start end' bucket_counts (index # rest) =
     (case bucket_bounds start end' index BUCKETS of (from, to) \<Rightarrow>
        if count_primes from to \<noteq> bucket_counts ! index then Rejected (BucketAudit index)
        else prime_audit start end' bucket_counts rest)"

definition prime_witness :: "nat \<Rightarrow> nat \<Rightarrow> nat \<Rightarrow> nat list \<Rightarrow> nat \<Rightarrow> verdict" where
  "prime_witness start end' count bucket_counts nonce =
     (if length bucket_counts \<noteq> BUCKETS then Rejected BucketShape
      else if foldl sat_add64 0 bucket_counts \<noteq> count then Rejected BucketTotal
      else prime_audit start end' bucket_counts (audit_indices nonce BUCKETS AUDIT_BUCKETS))"

fun collatz_audit :: "nat \<Rightarrow> nat \<Rightarrow> nat list \<Rightarrow> nat list \<Rightarrow> nat list \<Rightarrow> verdict" where
  "collatz_audit start end' bucket_peaks bucket_seeds [] = Accepted Witness"
| "collatz_audit start end' bucket_peaks bucket_seeds (index # rest) =
     (case bucket_bounds start end' index BUCKETS of (from, to) \<Rightarrow>
        case peak_trajectory from to of (steps, seed) \<Rightarrow>
          if steps \<noteq> bucket_peaks ! index \<or> seed \<noteq> bucket_seeds ! index
          then Rejected (PeakAudit index)
          else collatz_audit start end' bucket_peaks bucket_seeds rest)"

definition collatz_witness ::
  "nat \<Rightarrow> nat \<Rightarrow> nat \<Rightarrow> nat \<Rightarrow> nat list \<Rightarrow> nat list \<Rightarrow> nat \<Rightarrow> verdict" where
  "collatz_witness start end' peak_steps peak_seed bucket_peaks bucket_seeds nonce =
     (if length bucket_peaks \<noteq> BUCKETS \<or> length bucket_seeds \<noteq> BUCKETS then Rejected BucketShape
      else case combine_peaks bucket_peaks bucket_seeds of (claimed_steps, claimed_seed) \<Rightarrow>
        if claimed_steps \<noteq> peak_steps \<or> claimed_seed \<noteq> peak_seed then Rejected PeakTotal
        else collatz_audit start end' bucket_peaks bucket_seeds
               (audit_indices nonce BUCKETS AUDIT_BUCKETS))"

fun freivalds_rows ::
  "nat \<Rightarrow> nat \<Rightarrow> nat list \<Rightarrow> nat list \<Rightarrow> nat list \<Rightarrow> (nat \<times> nat) list \<Rightarrow> verdict" where
  "freivalds_rows seed_a dim rows challenge projected [] = Accepted Witness"
| "freivalds_rows seed_a dim rows challenge projected ((offset, row_index) # rest) =
     (let expected = dot (row seed_a row_index dim) projected;
          claimed = dot (take dim (drop (offset * dim) rows)) challenge
      in if expected \<noteq> claimed then Rejected (ProductCheck row_index)
         else freivalds_rows seed_a dim rows challenge projected rest)"

definition freivalds ::
  "nat \<Rightarrow> nat \<Rightarrow> nat \<Rightarrow> nat \<Rightarrow> nat \<Rightarrow> nat list \<Rightarrow> nat \<Rightarrow> verdict" where
  "freivalds seed_a seed_b dim row_start row_end rows nonce =
     (let span = row_end - row_start in
      if length rows \<noteq> span * dim then Rejected EntryCount
      else if list_ex (\<lambda>value. value \<ge> MODULUS) rows then Rejected OutsideField
      else let challenge = challenge_vector nonce dim;
               projected = matrix_vector seed_b dim challenge
           in freivalds_rows seed_a dim rows challenge projected
                (enumerate 0 [row_start..<row_end]))"

fun witness_check :: "work_spec \<Rightarrow> work_result \<Rightarrow> nat \<Rightarrow> verdict" where
  "witness_check (PrimeCount s e) (RPrimeCount n bs _) nonce = prime_witness s e n bs nonce"
| "witness_check (MatrixMultiply a b d rs re) (RMatrixMultiply rows _) nonce =
     freivalds a b d rs re rows nonce"
| "witness_check (CollatzPeak s e) (RCollatzPeak p sd ps ss _) nonce =
     collatz_witness s e p sd ps ss nonce"
| "witness_check _ _ _ = Rejected WorkloadMismatch"

subsection \<open>Recomputation, replicas, settlement\<close>

definition adjudicate :: "nat \<Rightarrow> work_spec \<Rightarrow> work_result \<Rightarrow> verdict" where
  "adjudicate ms work result =
     (if results_agree (execute_work ms work) result then Accepted Recompute
      else Rejected RecomputeDisagrees)"

definition verify_work :: "nat \<Rightarrow> work_spec \<Rightarrow> work_result \<Rightarrow> bool" where
  "verify_work ms work result = is_accepted (adjudicate ms work result)"

definition compare_replicas :: "work_result \<Rightarrow> work_result \<Rightarrow> verdict" where
  "compare_replicas first second =
     (if results_agree first second then Accepted Replication else Inconclusive)"

record settlement =
  st_verdict :: verdict
  st_audited :: bool
  st_nonce :: nat

definition settle :: "(nat \<Rightarrow> bool) \<Rightarrow> work_spec \<Rightarrow> work_result \<Rightarrow> nat \<Rightarrow> settlement" where
  "settle should_audit work result nonce =
     (if \<not> should_audit nonce
      then \<lparr> st_verdict = Accepted Unaudited, st_audited = False, st_nonce = nonce \<rparr>
      else \<lparr> st_verdict = witness_check work result nonce, st_audited = True, st_nonce = nonce \<rparr>)"

section \<open>Lemmas\<close>

subsection \<open>The drawn buckets\<close>

lemma swap_list_length [simp]: "length (swap_list xs i j) = length xs"
  by (simp add: swap_list_def)

lemma swap_list_perm:
  assumes "i < length xs" "j < length xs"
  shows "distinct (swap_list xs i j) \<longleftrightarrow> distinct xs" "set (swap_list xs i j) = set xs"
  using assms by (simp_all add: swap_list_def)

lemma audit_fold_perm:
  assumes "n \<le> length pool"
  shows "length (snd (fold audit_step [0..<n] (st, pool))) = length pool \<and>
         set (snd (fold audit_step [0..<n] (st, pool))) = set pool \<and>
         (distinct pool \<longrightarrow> distinct (snd (fold audit_step [0..<n] (st, pool))))"
  using assms
proof (induction n)
  case (Suc n)
  obtain st' pool' where f: "fold audit_step [0..<n] (st, pool) = (st', pool')" by fastforce
  with Suc have IH: "length pool' = length pool" "set pool' = set pool"
    "distinct pool \<longrightarrow> distinct pool'" by auto
  define pick where "pick = n + unat (mix st') mod (length pool' - n)"
  have "n < length pool'" using Suc.prems IH by simp
  moreover from this have "pick < length pool'"
    using mod_less_divisor[of "length pool' - n" "unat (mix st')"] unfolding pick_def by linarith
  moreover have "snd (fold audit_step [0..<Suc n] (st, pool)) = swap_list pool' n pick"
    by (simp add: f audit_step_def Let_def pick_def)
  ultimately show ?case using IH swap_list_perm[of n pool' pick] by simp
qed simp

lemma audit_indices_props:
  shows "length (audit_indices nonce m k) = min k m"
    and "distinct (audit_indices nonce m k)"
    and "sorted (audit_indices nonce m k)"
    and "set (audit_indices nonce m k) \<subseteq> {..<m}"
proof -
  let ?pool = "snd (fold audit_step [0..<min k m] (of_nat nonce, [0..<m]))"
  have p: "length ?pool = m" "set ?pool = {..<m}" "distinct ?pool"
    using audit_fold_perm[of "min k m" "[0..<m]" "of_nat nonce"] by (simp_all add: atLeast0LessThan)
  then show "length (audit_indices nonce m k) = min k m"
    and "distinct (audit_indices nonce m k)"
    and "sorted (audit_indices nonce m k)"
    by (simp_all add: audit_indices_def Let_def)
  show "set (audit_indices nonce m k) \<subseteq> {..<m}"
    using p(2) set_take_subset[of "min k m" ?pool] by (auto simp: audit_indices_def Let_def)
qed

text \<open>An audit of \<open>k\<close> buckets misses no set of more than \<open>m - k\<close> bad ones.\<close>

lemma audit_indices_hit:
  assumes "W \<subseteq> {..<m}" "m < card W + min k m"
  shows "\<exists>i \<in> set (audit_indices nonce m k). i \<in> W"
proof (rule ccontr)
  assume "\<not> ?thesis"
  then have "set (audit_indices nonce m k) \<inter> W = {}" by blast
  moreover have "card (set (audit_indices nonce m k)) = min k m"
    using audit_indices_props(1,2)[of nonce m k] by (simp add: distinct_card)
  moreover have "finite W" using assms(1) finite_subset by blast
  ultimately have "card (set (audit_indices nonce m k) \<union> W) = min k m + card W"
    by (subst card_Un_disjoint) auto
  moreover have "card (set (audit_indices nonce m k) \<union> W) \<le> card {..<m}"
    using assms(1) audit_indices_props(4) by (intro card_mono) auto
  ultimately show False using assms(2) by simp
qed

subsection \<open>When a witness check accepts\<close>

lemma prime_audit_accepts:
  "prime_audit s e bs idx = Accepted Witness \<longleftrightarrow>
   (\<forall>i\<in>set idx. case bucket_bounds s e i BUCKETS of (lo, hi) \<Rightarrow> count_primes lo hi = bs ! i)"
  by (induction idx) (auto split: prod.splits)

lemma collatz_audit_accepts:
  "collatz_audit s e ps ss idx = Accepted Witness \<longleftrightarrow>
   (\<forall>i\<in>set idx. case bucket_bounds s e i BUCKETS of (lo, hi) \<Rightarrow> peak_trajectory lo hi = (ps ! i, ss ! i))"
  by (induction idx) (auto split: prod.splits)

lemma freivalds_rows_accepts:
  "freivalds_rows sa d rows r p ks = Accepted Witness \<longleftrightarrow>
   (\<forall>(n, i)\<in>set ks. dot (row sa i d) p = dot (take d (drop (n * d) rows)) r)"
  by (induction ks) (auto simp: Let_def split: if_splits)

lemma audit_verdicts:
  "prime_audit s e bs idx \<noteq> Inconclusive"
  "collatz_audit s e ps ss idx \<noteq> Inconclusive"
  "freivalds_rows sa d rows r p ks \<noteq> Inconclusive"
  "prime_audit s e bs idx = Accepted t \<Longrightarrow> t = Witness"
  "collatz_audit s e ps ss idx = Accepted t \<Longrightarrow> t = Witness"
  "freivalds_rows sa d rows r p ks = Accepted t \<Longrightarrow> t = Witness"
  subgoal by (induction idx) (auto split: prod.splits)
  subgoal by (induction idx) (auto split: prod.splits)
  subgoal by (induction ks) (auto simp: Let_def split: if_splits)
  subgoal by (induction idx) (auto split: prod.splits if_splits)
  subgoal by (induction idx) (auto split: prod.splits if_splits)
  subgoal by (induction ks) (auto simp: Let_def split: if_splits)
  done

lemma foldl_sat_add64: "a \<le> u64_max \<Longrightarrow> foldl sat_add64 a xs = min (a + sum_list xs) u64_max"
proof (induction xs arbitrary: a)
  case (Cons x xs)
  have "foldl sat_add64 (sat_add64 a x) xs = min (sat_add64 a x + sum_list xs) u64_max"
    by (rule Cons.IH) simp
  moreover have "min (sat_add64 a x + sum_list xs) u64_max = min (a + sum_list (x # xs)) u64_max"
    by (auto simp: sat_add64_def min_def)
  ultimately show ?case by simp
qed simp

subsection \<open>Honest results pass\<close>

lemma prime_honest:
  assumes "s \<le> e" "e \<le> u64_max"
  shows "witness_check (PrimeCount s e) (prime_count s e ms) nonce = Accepted Witness"
proof -
  let ?bs = "map (\<lambda>(lo, hi). count_primes lo hi) (bucket_range s e)"
  have sum: "sum_list ?bs = count_primes s e" by (rule bucket_counts_total[OF assms])
  have "count_primes s e \<le> u64_max" using count_primes_le[of s e] assms by linarith
  then have "foldl sat_add64 0 ?bs = wrap_u64 (sum_list ?bs)" by (simp add: foldl_sat_add64 sum)
  moreover have "prime_audit s e ?bs (audit_indices nonce BUCKETS AUDIT_BUCKETS) = Accepted Witness"
    using audit_indices_props(4)[of nonce BUCKETS AUDIT_BUCKETS]
    by (auto simp: prime_audit_accepts split: prod.splits)
  ultimately show ?thesis by (simp add: prime_count_def prime_witness_def Let_def)
qed

lemma collatz_honest:
  "witness_check (CollatzPeak s e) (collatz_peak s e ms) nonce = Accepted Witness"
proof -
  let ?peaks = "map (\<lambda>(lo, hi). peak_trajectory lo hi) (bucket_range s e)"
  have "collatz_audit s e (map fst ?peaks) (map snd ?peaks) (audit_indices nonce BUCKETS AUDIT_BUCKETS)
      = Accepted Witness"
    using audit_indices_props(4)[of nonce BUCKETS AUDIT_BUCKETS]
    by (auto simp: collatz_audit_accepts split: prod.splits)
  then show ?thesis
    by (simp add: collatz_peak_def collatz_witness_def Let_def case_prod_beta)
qed

lemma matrix_honest:
  "witness_check (MatrixMultiply a b d rs re) (matrix_multiply a b d rs re ms) nonce = Accepted Witness"
proof -
  let ?rows = "multiply_rows a b d rs re"
  let ?r = "challenge_vector nonce d"
  have "dot (row a i d) (matrix_vector b d ?r) = dot (take d (drop (n * d) ?rows)) ?r"
    if "(n, i) \<in> set (enumerate 0 [rs..<re])" for n i
    using that by (auto simp: in_set_enumerate_eq multiply_rows_block project_product)
  then have "freivalds_rows a d ?rows ?r (matrix_vector b d ?r) (enumerate 0 [rs..<re]) = Accepted Witness"
    by (auto simp: freivalds_rows_accepts)
  moreover have "\<not> list_ex (\<lambda>v. v \<ge> MODULUS) ?rows"
    using multiply_rows_less by (fastforce simp: list_ex_iff)
  ultimately show ?thesis by (simp add: matrix_multiply_def freivalds_def Let_def)
qed

end
