(* ===== verification/Validate.thy ===== *)
theory Validate
  imports Book Verify
begin

text \<open>
  The ledger's validation rules (\<open>crates/hocmesh-ledger/src/validate.rs\<close>): what makes a validator set,
  an entry, a certificate and a checkpoint valid, what each kind of transaction must show before CU
  moves, on the live path (\<open>validate_transaction\<close>, \<open>validate_batch\<close>) and on the audit path
  (\<open>validate_historical_transaction\<close>), and how membership changes.  A balance is looked up through a
  function argument, as in the source; a query that fails in the database is not modelled.
\<close>

section \<open>Definitions\<close>

datatype set_error =
    SetEmpty | SetThreshold | SetThresholdTooLow | SetIssuanceLimit
  | SetDuplicateId | SetDuplicateUrl | SetDuplicateKey | SetEmptyKey

datatype inference_error =
    ParameterCount | CostCeiling | NoBatches | BatchesDoNotTile | BatchesDoNotCover
  | NonPositiveAmount | EmptyBatch | NoReservation | UnknownAssignment | BatchBoundsChanged
  | WrongProvider | SelfPayment | WrongRequester | BadDisputeReason
  | DeadlineOverflow | WindowStillOpen | PaysJobId

datatype refund_error = RefundHasNoRequester | RefundNeedsAuth | RefundHalfAuth

datatype membership_error =
    MembershipMovesCU | ZeroThreshold | NamesNoValidator | NoVouches | AlreadyValidator
  | NotValidator | MemberDescribedDifferently | ResultingSetHash | TooFewVouches nat

datatype certificate_error =
    MembershipHash | NoTransactions | ClaimTwice string | TransactionsHash | EntryHash
  | TooFewSignatures nat

datatype ledger_error =
    SetInvalid set_error | InferenceInvalid inference_error | RefundInvalid refund_error
  | MembershipInvalid membership_error | CertificateInvalid certificate_error
  | WorkInvalid work_error | AuthFailed auth_error
  | TooFewPostings | NotConserved int | ZeroPosting | InsufficientBalance string
  | IssuanceOverflow | IssuanceLimit | KindEvidenceMismatch | PostingsMismatch
  | JobIdNotBound | ShardCount | NotIssuable | TooFewSponsors nat
  | ResultNotVerified | AssignmentIdWrong | WrongPrice | MetadataInvalid

subsection \<open>Validator sets\<close>

fun check_members ::
  "string set \<Rightarrow> string set \<Rightarrow> string set \<Rightarrow> validator_member list \<Rightarrow> ledger_error + unit" where
  "check_members ids urls keys [] = Inr ()"
| "check_members ids urls keys (m # ms) =
     (if vm_validator_id m \<in> ids then Inl (SetInvalid SetDuplicateId)
      else if vm_url m \<in> urls then Inl (SetInvalid SetDuplicateUrl)
      else if vm_public_key_b64 m \<in> keys then Inl (SetInvalid SetDuplicateKey)
      else if vm_public_key_b64 m = [] then Inl (SetInvalid SetEmptyKey)
      else check_members (insert (vm_validator_id m) ids) (insert (vm_url m) urls)
             (insert (vm_public_key_b64 m) keys) ms)"

definition validate_validator_set :: "validator_set \<Rightarrow> ledger_error + unit" where
  "validate_validator_set vset =
     (let n = length (set_members vset) in
      if n = 0 then Inl (SetInvalid SetEmpty)
      else if set_threshold vset = 0 \<or> set_threshold vset > n then Inl (SetInvalid SetThreshold)
      else if set_threshold vset * 3 \<le> n * 2 then Inl (SetInvalid SetThresholdTooLow)
      else if set_community_issuance_limit_mcu vset \<le> 0 then Inl (SetInvalid SetIssuanceLimit)
      else check_members {} {} {} (set_members vset))"

subsection \<open>Hashes and entries\<close>

definition membership_hash :: "crypto \<Rightarrow> validator_set \<Rightarrow> string" where
  "membership_hash c vset = hash_json c (validator_set_json vset)"

definition transaction_hash :: "crypto \<Rightarrow> ledger_transaction \<Rightarrow> string" where
  "transaction_hash c tx = hash_json c (ledger_transaction_json tx)"

definition transactions_hash :: "crypto \<Rightarrow> ledger_transaction list \<Rightarrow> string" where
  "transactions_hash c txs = hash_json c (JArr (map ledger_transaction_json txs))"

definition entry_hash :: "crypto \<Rightarrow> nat \<Rightarrow> string \<Rightarrow> string \<Rightarrow> string" where
  "entry_hash c sequence previous_hash tx_hash =
     hash_json c (JArr [jnat sequence, JStr previous_hash, JStr tx_hash])"

definition build_entry :: "crypto \<Rightarrow> nat \<Rightarrow> string \<Rightarrow> ledger_transaction list \<Rightarrow> ledger_entry" where
  "build_entry c sequence previous_hash txs =
     (let th = transactions_hash c txs in
      \<lparr> en_sequence = sequence, en_previous_hash = previous_hash, en_transactions = txs,
        en_transactions_hash = th, en_entry_hash = entry_hash c sequence previous_hash th \<rparr>)"

subsection \<open>Claim keys\<close>

definition inference_claim_key :: "string \<Rightarrow> nat \<Rightarrow> nat \<Rightarrow> string" where
  "inference_claim_key job_id b_start b_end =
     ''escrow:'' @ job_id @ '':'' @ show_nat b_start @ '':'' @ show_nat b_end"

definition inference_payout_key :: "string \<Rightarrow> nat \<Rightarrow> nat \<Rightarrow> string" where
  "inference_payout_key job_id b_start b_end =
     ''payout:'' @ job_id @ '':'' @ show_nat b_start @ '':'' @ show_nat b_end"

definition claim_key :: "ledger_transaction \<Rightarrow> string" where
  "claim_key tx =
     (case tx_evidence tx of
        EvJobReserve e \<Rightarrow> ''reserve:'' @ jr_job_id e
      | EvCommunityReserve job_id _ _ _ \<Rightarrow> ''reserve:'' @ job_id
      | EvProviderReward e \<Rightarrow> ''reward:'' @ pr_assignment_id e
      | EvJobRefund e \<Rightarrow> ''reward:'' @ rf_assignment_id e
      | EvInferenceReserve e \<Rightarrow> ''reserve:'' @ ir_job_id e
      | EvInferenceReward e \<Rightarrow> inference_payout_key (iw_job_id e) (iw_batch_start e) (iw_batch_end e)
      | EvInferenceReceipt e \<Rightarrow> inference_claim_key (rc_job_id e) (rc_batch_start e) (rc_batch_end e)
      | EvInferenceDispute e \<Rightarrow> inference_payout_key (dp_job_id e) (dp_batch_start e) (dp_batch_end e)
      | EvInferenceExpiry e \<Rightarrow> inference_payout_key (ex_job_id e) (ex_batch_start e) (ex_batch_end e)
      | EvInferenceRefund e \<Rightarrow> inference_claim_key (ifd_job_id e) (ifd_batch_start e) (ifd_batch_end e)
      | EvMembershipChange _ \<Rightarrow> ''membership:'' @ tx_transaction_id tx)"

subsection \<open>Reservations\<close>

definition reservation_of ::
  "ledger_transaction \<Rightarrow> inference_reserve_evidence \<Rightarrow> inference_reservation" where
  "reservation_of tx e =
     \<lparr> rs_job_id = ir_job_id e, rs_billing = ir_billing e, rs_batches = ir_batches e,
       rs_requester = ap_node_id (ir_requester_auth e), rs_reserved_at = tx_created_at tx \<rparr>"

definition reserved_batch ::
  "crypto \<Rightarrow> inference_reservation \<Rightarrow> string \<Rightarrow> nat \<Rightarrow> nat \<Rightarrow> ledger_error + priced_batch \<times> int" where
  "reserved_batch c r aid b_start b_end =
     (case find (\<lambda>i. inference_assignment_id c (rs_job_id r) i = aid)
                [0..<as_u32 (length (rs_batches r))] of
        None \<Rightarrow> Inl (InferenceInvalid UnknownAssignment)
      | Some index \<Rightarrow>
          let b = rs_batches r ! index in
          if pb_batch_start b \<noteq> b_start \<or> pb_batch_end b \<noteq> b_end then Inl (InferenceInvalid BatchBoundsChanged)
          else Inr (b, inference_batch_cost_mcu (ib_prompt_bytes (rs_billing r)) b_start b_end
                         (ib_max_tokens (rs_billing r)) (ib_parameter_count (rs_billing r))))"

subsection \<open>Signatures of the sitting set\<close>

datatype signature_error =
    MemberKeyEncoding | MemberKeyLength | MemberKeyMalformed
  | MemberSigEncoding | MemberSigMalformed | MemberSigInvalid

definition verify_validator_signature ::
  "crypto \<Rightarrow> validator_member \<Rightarrow> string \<Rightarrow> string \<Rightarrow> signature_error + unit" where
  "verify_validator_signature c member message sig_b64 =
     (case b64_decode c (vm_public_key_b64 member) of
        None \<Rightarrow> Inl MemberKeyEncoding
      | Some pk \<Rightarrow>
          if length pk \<noteq> 32 then Inl MemberKeyLength
          else if \<not> ed_key_ok c pk then Inl MemberKeyMalformed
          else (case b64_decode c sig_b64 of
              None \<Rightarrow> Inl MemberSigEncoding
            | Some sb \<Rightarrow>
                if \<not> ed_sig_ok c sb then Inl MemberSigMalformed
                else if ed_verify c pk message sb then Inr () else Inl MemberSigInvalid))"

definition signed_by :: "crypto \<Rightarrow> validator_set \<Rightarrow> string \<Rightarrow> validator_signature \<Rightarrow> bool" where
  "signed_by c vset message s =
     (case find (\<lambda>m. vm_validator_id m = vs_validator_id s) (set_members vset) of
        None \<Rightarrow> False
      | Some m \<Rightarrow> is_ok (verify_validator_signature c m message (vs_signature_b64 s)))"

text \<open>The counting loop of certificates, checkpoints, sponsorships and vouches: the first signature
  under each validator id counts if it verifies, the others are skipped.\<close>

fun count_good ::
  "crypto \<Rightarrow> validator_set \<Rightarrow> string \<Rightarrow> string set \<Rightarrow> validator_signature list \<Rightarrow> nat" where
  "count_good c vset message seen [] = 0"
| "count_good c vset message seen (s # ss) =
     (if vs_validator_id s \<in> seen then count_good c vset message seen ss
      else (if signed_by c vset message s then 1 else 0)
             + count_good c vset message (insert (vs_validator_id s) seen) ss)"

subsection \<open>Compute jobs\<close>

text \<open>The price of a job is the \<open>i64\<close> sum of the prices of its shards.\<close>

definition job_cost :: "work_spec \<Rightarrow> nat \<Rightarrow> int" where
  "job_cost work shards = wrap_i64 (sum_list (map work_cost_mcu (split_work work shards)))"

definition validate_reserve ::
  "crypto \<Rightarrow> ledger_transaction \<Rightarrow> job_reserve_evidence \<Rightarrow> ledger_error + unit" where
  "validate_reserve c tx e =
     qbind (map_err WorkInvalid (work_spec_validate (jr_work e))) (\<lambda>_.
     if jr_job_id e \<noteq> job_id_from_auth c (jr_requester_auth e) then Inl JobIdNotBound
     else if \<not> (1 \<le> jr_shards e \<and> jr_shards e \<le> 256) then Inl ShardCount
     else qbind (map_err AuthFailed (verify_auth_signature c (jr_requester_public_key_b64 e)
                   (jr_requester_auth e) ''submit'' (submit_body_hash c (jr_work e) (jr_shards e)))) (\<lambda>_.
     if \<not> moves (tx_postings tx) (ap_node_id (jr_requester_auth e)) (escrow_account (jr_job_id e))
              (job_cost (jr_work e) (jr_shards e))
     then Inl PostingsMismatch else Inr ()))"

definition issuable :: "work_spec \<Rightarrow> ledger_error + unit" where
  "issuable work = (if audit_class_of work \<noteq> SelfContained then Inl NotIssuable else Inr ())"

definition community_reserve_signing_message ::
  "crypto \<Rightarrow> string \<Rightarrow> work_spec \<Rightarrow> nat \<Rightarrow> int \<Rightarrow> string" where
  "community_reserve_signing_message c job_id work shards cost_mcu =
     ''hocmesh-community-v1|'' @
     hash_json c (JArr [JStr job_id, work_spec_json work, jnat shards, JNum cost_mcu])"

definition validate_community_reserve ::
  "crypto \<Rightarrow> ledger_transaction \<Rightarrow> string \<Rightarrow> work_spec \<Rightarrow> nat \<Rightarrow> validator_signature list \<Rightarrow>
   validator_set \<Rightarrow> ledger_error + unit" where
  "validate_community_reserve c tx job_id work shards sponsors vset =
     qbind (map_err WorkInvalid (work_spec_validate work)) (\<lambda>_.
     qbind (issuable work) (\<lambda>_.
     if \<not> (1 \<le> shards \<and> shards \<le> 256) then Inl ShardCount
     else let cost = job_cost work shards in
     if \<not> moves (tx_postings tx) COMMUNITY_ISSUANCE_ACCOUNT (escrow_account job_id) cost
     then Inl PostingsMismatch
     else let good = count_good c vset (community_reserve_signing_message c job_id work shards cost) {} sponsors in
     if good < set_threshold vset then Inl (TooFewSponsors good) else Inr ()))"

definition witnessed :: "crypto \<Rightarrow> work_spec \<Rightarrow> work_result \<Rightarrow> string \<Rightarrow> string \<Rightarrow> bool" where
  "witnessed c work result previous_hash transaction_id =
     (let verdict = witness_check work result (for_entry c previous_hash transaction_id)
      in if verdict = Inconclusive then is_accepted (adjudicate 0 work result)
         else is_accepted verdict)"

definition certified_witness ::
  "crypto \<Rightarrow> work_spec \<Rightarrow> work_result \<Rightarrow> string \<Rightarrow> string \<Rightarrow> validator_signature list \<Rightarrow> bool" where
  "certified_witness c work result previous_hash transaction_id signatures =
     (let verdict = witness_check work result
                      (for_certified_entry c previous_hash transaction_id (map vs_signature_b64 signatures))
      in if verdict = Inconclusive then is_accepted (adjudicate 0 work result)
         else is_accepted verdict)"

definition validate_reward ::
  "crypto \<Rightarrow> ledger_transaction \<Rightarrow> provider_reward_evidence \<Rightarrow> string \<Rightarrow> ledger_error + unit" where
  "validate_reward c tx e previous_hash =
     qbind (map_err AuthFailed (verify_auth_signature c (pr_provider_public_key_b64 e)
              (pr_provider_auth e) ''result''
              (result_body_hash c (pr_assignment_id e) (pr_job_id e) (pr_shard_index e) (pr_work e)
                 (pr_reward_mcu e) (pr_system_funded e) (pr_result e)))) (\<lambda>_.
     qbind (if pr_system_funded e then issuable (pr_work e) else Inr ()) (\<lambda>_.
     if \<not> witnessed c (pr_work e) (pr_result e) previous_hash (tx_transaction_id tx)
     then Inl ResultNotVerified
     else if pr_reward_mcu e \<noteq> work_cost_mcu (pr_work e) then Inl WrongPrice
     else if pr_assignment_id e \<noteq> assignment_id c (pr_job_id e) (pr_shard_index e)
     then Inl AssignmentIdWrong
     else if \<not> moves (tx_postings tx) (escrow_account (pr_job_id e)) (ap_node_id (pr_provider_auth e))
                   (work_cost_mcu (pr_work e))
     then Inl PostingsMismatch else Inr ()))"

definition refund_payee :: "crypto \<Rightarrow> job_refund_evidence \<Rightarrow> ledger_error + string" where
  "refund_payee c e =
     (case (rf_requester_public_key_b64 e, rf_requester_auth e) of
        (Some pk, Some auth) \<Rightarrow>
          if rf_system_funded e then Inl (RefundInvalid RefundHasNoRequester)
          else qbind (map_err AuthFailed (verify_auth_signature c pk auth ''refund''
                 (refund_body_hash c (rf_assignment_id e) (rf_job_id e) (rf_shard_index e)
                    (rf_work e) (rf_refund_mcu e) (rf_system_funded e)))) (\<lambda>_.
               Inr (ap_node_id auth))
      | (None, None) \<Rightarrow>
          if \<not> rf_system_funded e then Inl (RefundInvalid RefundNeedsAuth) else Inr COMMUNITY_ISSUANCE_ACCOUNT
      | _ \<Rightarrow> Inl (RefundInvalid RefundHalfAuth))"

definition validate_refund ::
  "crypto \<Rightarrow> ledger_transaction \<Rightarrow> job_refund_evidence \<Rightarrow> ledger_error + unit" where
  "validate_refund c tx e =
     qbind (map_err WorkInvalid (work_spec_validate (rf_work e))) (\<lambda>_.
     if rf_assignment_id e \<noteq> assignment_id c (rf_job_id e) (rf_shard_index e)
     then Inl AssignmentIdWrong
     else if rf_refund_mcu e \<noteq> work_cost_mcu (rf_work e) then Inl WrongPrice
     else qbind (refund_payee c e) (\<lambda>payee.
     if \<not> moves (tx_postings tx) (escrow_account (rf_job_id e)) payee (work_cost_mcu (rf_work e))
     then Inl PostingsMismatch else Inr ()))"

subsection \<open>Text\<close>

text \<open>\<open>trim().is_empty()\<close> and \<open>chars().count()\<close> on the UTF-8 bytes of a string.  \<open>ws_len\<close> is the
  number of bytes of the white-space character a string starts with, \<open>0\<close> if it starts with none.\<close>

definition ws_len :: "nat list \<Rightarrow> nat" where
  "ws_len bs =
     (case bs of
        [] \<Rightarrow> 0
      | a # r \<Rightarrow>
          if 9 \<le> a \<and> a \<le> 13 \<or> a = 32 then 1
          else if a = 194 \<and> r \<noteq> [] \<and> hd r \<in> {133, 160} then 2
          else if take 2 r = [154, 128] \<and> a = 225 then 3
          else if a = 226 \<and> length r \<ge> 2 \<and> hd r = 128
                  \<and> (128 \<le> r ! 1 \<and> r ! 1 \<le> 138 \<or> r ! 1 \<in> {168, 169, 175}) then 3
          else if take 2 r = [129, 159] \<and> a = 226 then 3
          else if take 2 r = [128, 128] \<and> a = 227 then 3
          else 0)"

function blank_bytes :: "nat list \<Rightarrow> bool" where
  "blank_bytes bs =
     (if bs = [] then True
      else if ws_len bs = 0 then False
      else blank_bytes (drop (ws_len bs) bs))"
  by pat_completeness auto

termination blank_bytes
  by (relation "measure length") auto

definition blank :: "string \<Rightarrow> bool" where
  "blank s = blank_bytes (map of_char s)"

definition chars_count :: "string \<Rightarrow> nat" where
  "chars_count s = length (filter (\<lambda>b. (of_char b :: nat) div 64 \<noteq> 2) s)"

subsection \<open>Inference jobs\<close>

fun partition_cursor :: "nat \<Rightarrow> priced_batch list \<Rightarrow> ledger_error + nat" where
  "partition_cursor cursor [] = Inr cursor"
| "partition_cursor cursor (b # bs) =
     (if pb_batch_start b \<noteq> cursor \<or> pb_batch_end b \<le> pb_batch_start b
      then Inl (InferenceInvalid BatchesDoNotTile)
      else partition_cursor (pb_batch_end b) bs)"

definition batches_partition_prompts :: "priced_batch list \<Rightarrow> nat \<Rightarrow> ledger_error + unit" where
  "batches_partition_prompts batches prompts =
     (if batches = [] then Inl (InferenceInvalid NoBatches)
      else qbind (partition_cursor 0 batches) (\<lambda>cursor.
        if cursor \<noteq> prompts then Inl (InferenceInvalid BatchesDoNotCover) else Inr ()))"

definition billing_cost :: "inference_billing \<Rightarrow> int" where
  "billing_cost b = inference_cost_mcu (ib_prompt_bytes b) (ib_max_tokens b) (ib_parameter_count b)"

definition submit_inference_auth :: "crypto \<Rightarrow> inference_reserve_evidence \<Rightarrow> ledger_error + unit" where
  "submit_inference_auth c e =
     map_err AuthFailed (verify_auth_signature c (ir_requester_public_key_b64 e) (ir_requester_auth e)
       ''submit_inference''
       (inference_submit_body_hash c (inference_billing_hash c (ir_billing e)) (ir_settings_digest e)))"

definition validate_inference_reserve ::
  "crypto \<Rightarrow> ledger_transaction \<Rightarrow> inference_reserve_evidence \<Rightarrow> ledger_error + unit" where
  "validate_inference_reserve c tx e =
     (if ir_job_id e \<noteq> inference_job_id_from_auth c (ir_requester_auth e) then Inl JobIdNotBound
      else if \<not> parameter_count_is_plausible (ib_parameter_count (ir_billing e))
                   (ib_total_size_bytes (ir_billing e)) then Inl (InferenceInvalid ParameterCount)
      else qbind (submit_inference_auth c e) (\<lambda>_.
      qbind (batches_partition_prompts (ir_batches e) (length (ib_prompt_bytes (ir_billing e)))) (\<lambda>_.
      let cost = billing_cost (ir_billing e) in
      if cost > ib_max_cost_mcu (ir_billing e) then Inl (InferenceInvalid CostCeiling)
      else if \<not> moves (tx_postings tx) (ap_node_id (ir_requester_auth e)) (escrow_account (ir_job_id e)) cost
      then Inl PostingsMismatch else Inr ())))"

definition requester_verdict ::
  "crypto \<Rightarrow> bool \<Rightarrow> string \<Rightarrow> auth_proof \<Rightarrow> string \<Rightarrow> string \<Rightarrow> string \<Rightarrow> nat \<Rightarrow> nat \<Rightarrow> int \<Rightarrow> string \<Rightarrow>
   ledger_error + unit" where
  "requester_verdict c accepted public_key_b64 auth requester aid job_id b_start b_end price_mcu digest =
     (if ap_node_id auth \<noteq> requester then Inl (InferenceInvalid WrongRequester)
      else map_err AuthFailed (verify_auth_signature c public_key_b64 auth
             (if accepted then ''accept_inference'' else ''dispute_inference'')
             (inference_verdict_body_hash c accepted aid job_id b_start b_end price_mcu digest)))"

definition report_inference_auth :: "crypto \<Rightarrow> inference_reward_evidence \<Rightarrow> ledger_error + unit" where
  "report_inference_auth c e =
     map_err AuthFailed (verify_auth_signature c (iw_provider_public_key_b64 e) (iw_provider_auth e)
       ''report_inference''
       (inference_reward_body_hash c (iw_assignment_id e) (iw_job_id e) (iw_batch_start e)
          (iw_batch_end e) (iw_reward_mcu e) (iw_outputs_digest e)))"

definition reward_verdict ::
  "crypto \<Rightarrow> inference_reward_evidence \<Rightarrow> string \<Rightarrow> ledger_error + unit" where
  "reward_verdict c e requester =
     requester_verdict c True (iw_requester_public_key_b64 e) (iw_requester_acceptance e) requester
       (iw_assignment_id e) (iw_job_id e) (iw_batch_start e) (iw_batch_end e) (iw_reward_mcu e)
       (iw_outputs_digest e)"

definition validate_inference_reward ::
  "crypto \<Rightarrow> ledger_transaction \<Rightarrow> inference_reward_evidence \<Rightarrow> inference_reservation option \<Rightarrow>
   ledger_error + unit" where
  "validate_inference_reward c tx e reserved =
     qbind (report_inference_auth c e) (\<lambda>_.
     if iw_reward_mcu e \<le> 0 then Inl (InferenceInvalid NonPositiveAmount)
     else case reserved of
       None \<Rightarrow> Inl (InferenceInvalid NoReservation)
     | Some r \<Rightarrow>
         qbind (reserved_batch c r (iw_assignment_id e) (iw_batch_start e) (iw_batch_end e)) (\<lambda>(batch, price).
         if pb_node_id batch \<noteq> ap_node_id (iw_provider_auth e) then Inl (InferenceInvalid WrongProvider)
         else if iw_reward_mcu e \<noteq> price then Inl WrongPrice
         else if rs_requester r = ap_node_id (iw_provider_auth e) then Inl (InferenceInvalid SelfPayment)
         else qbind (reward_verdict c e (rs_requester r)) (\<lambda>_.
         if \<not> moves (tx_postings tx) (inference_holding_account (iw_assignment_id e))
                  (ap_node_id (iw_provider_auth e)) (iw_reward_mcu e)
         then Inl PostingsMismatch else Inr ())))"

definition receipt_auth :: "crypto \<Rightarrow> inference_receipt_evidence \<Rightarrow> ledger_error + unit" where
  "receipt_auth c e =
     map_err AuthFailed (verify_auth_signature c (rc_requester_public_key_b64 e) (rc_requester_auth e)
       ''receipt_inference''
       (inference_receipt_body_hash c (rc_assignment_id e) (rc_job_id e) (rc_batch_start e)
          (rc_batch_end e) (rc_price_mcu e) (rc_outputs_digest e)))"

definition validate_inference_receipt ::
  "crypto \<Rightarrow> ledger_transaction \<Rightarrow> inference_receipt_evidence \<Rightarrow> inference_reservation option \<Rightarrow>
   ledger_error + unit" where
  "validate_inference_receipt c tx e reserved =
     qbind (receipt_auth c e) (\<lambda>_.
     case reserved of
       None \<Rightarrow> Inl (InferenceInvalid NoReservation)
     | Some r \<Rightarrow>
         if rs_requester r \<noteq> ap_node_id (rc_requester_auth e) then Inl (InferenceInvalid WrongRequester)
         else qbind (reserved_batch c r (rc_assignment_id e) (rc_batch_start e) (rc_batch_end e)) (\<lambda>(_, price).
         if rc_price_mcu e \<noteq> price then Inl WrongPrice
         else if \<not> moves (tx_postings tx) (escrow_account (rc_job_id e))
                       (inference_holding_account (rc_assignment_id e)) price
         then Inl PostingsMismatch else Inr ()))"

definition dispute_verdict ::
  "crypto \<Rightarrow> inference_dispute_evidence \<Rightarrow> string \<Rightarrow> ledger_error + unit" where
  "dispute_verdict c e requester =
     requester_verdict c False (dp_requester_public_key_b64 e) (dp_requester_auth e) requester
       (dp_assignment_id e) (dp_job_id e) (dp_batch_start e) (dp_batch_end e) (dp_price_mcu e)
       (dp_outputs_digest e)"

definition bad_reason :: "string \<Rightarrow> bool" where
  "bad_reason reason \<longleftrightarrow> blank reason \<or> chars_count reason > 512"

definition validate_inference_dispute ::
  "crypto \<Rightarrow> ledger_transaction \<Rightarrow> inference_dispute_evidence \<Rightarrow> inference_reservation option \<Rightarrow>
   ledger_error + unit" where
  "validate_inference_dispute c tx e reserved =
     (case reserved of
        None \<Rightarrow> Inl (InferenceInvalid NoReservation)
      | Some r \<Rightarrow>
          if rs_requester r \<noteq> ap_node_id (dp_requester_auth e) then Inl (InferenceInvalid WrongRequester)
          else qbind (reserved_batch c r (dp_assignment_id e) (dp_batch_start e) (dp_batch_end e)) (\<lambda>(_, price).
          if dp_price_mcu e \<noteq> price then Inl WrongPrice
          else qbind (dispute_verdict c e (rs_requester r)) (\<lambda>_.
          if bad_reason (dp_reason e) then Inl (InferenceInvalid BadDisputeReason)
          else if \<not> moves (tx_postings tx) (inference_holding_account (dp_assignment_id e))
                        COMMUNITY_ISSUANCE_ACCOUNT price
          then Inl PostingsMismatch else Inr ())))"

definition expired_receipt ::
  "crypto \<Rightarrow> ledger_transaction \<Rightarrow> inference_expiry_evidence \<Rightarrow> ledger_error + unit" where
  "expired_receipt c tx e =
     (if ex_batch_end e \<le> ex_batch_start e then Inl (InferenceInvalid EmptyBatch)
      else if ex_price_mcu e \<le> 0 then Inl (InferenceInvalid NonPositiveAmount)
      else qbind (map_err AuthFailed (verify_auth_signature c (ex_requester_public_key_b64 e)
                    (ex_requester_receipt e) ''receipt_inference''
                    (inference_receipt_body_hash c (ex_assignment_id e) (ex_job_id e) (ex_batch_start e)
                       (ex_batch_end e) (ex_price_mcu e) (ex_outputs_digest e)))) (\<lambda>_.
      case checked_add_i64 (ap_timestamp (ex_requester_receipt e)) SETTLEMENT_WINDOW_SECS of
        None \<Rightarrow> Inl (InferenceInvalid DeadlineOverflow)
      | Some deadline \<Rightarrow>
          if tx_created_at tx < deadline then Inl (InferenceInvalid WindowStillOpen) else Inr ()))"

definition validate_inference_expiry ::
  "crypto \<Rightarrow> ledger_transaction \<Rightarrow> inference_expiry_evidence \<Rightarrow> inference_reservation option \<Rightarrow>
   ledger_error + unit" where
  "validate_inference_expiry c tx e reserved =
     qbind (expired_receipt c tx e) (\<lambda>_.
     case reserved of
       None \<Rightarrow> Inl (InferenceInvalid NoReservation)
     | Some r \<Rightarrow>
         if rs_requester r \<noteq> ap_node_id (ex_requester_receipt e) then Inl (InferenceInvalid WrongRequester)
         else qbind (reserved_batch c r (ex_assignment_id e) (ex_batch_start e) (ex_batch_end e)) (\<lambda>(_, price).
         if ex_price_mcu e \<noteq> price then Inl WrongPrice
         else if \<not> moves (tx_postings tx) (inference_holding_account (ex_assignment_id e))
                       COMMUNITY_ISSUANCE_ACCOUNT price
         then Inl PostingsMismatch else Inr ()))"

definition inference_refund_auth :: "crypto \<Rightarrow> inference_refund_evidence \<Rightarrow> ledger_error + unit" where
  "inference_refund_auth c e =
     map_err AuthFailed (verify_auth_signature c (ifd_requester_public_key_b64 e) (ifd_requester_auth e)
       ''refund_inference''
       (inference_refund_body_hash c (ifd_assignment_id e) (ifd_job_id e) (ifd_batch_start e)
          (ifd_batch_end e) (ifd_refund_mcu e)))"

definition validate_inference_refund ::
  "crypto \<Rightarrow> ledger_transaction \<Rightarrow> inference_refund_evidence \<Rightarrow> inference_reservation option \<Rightarrow>
   ledger_error + unit" where
  "validate_inference_refund c tx e reserved =
     qbind (inference_refund_auth c e) (\<lambda>_.
     if ifd_refund_mcu e \<le> 0 then Inl (InferenceInvalid NonPositiveAmount)
     else case reserved of
       None \<Rightarrow> Inl (InferenceInvalid NoReservation)
     | Some r \<Rightarrow>
         qbind (reserved_batch c r (ifd_assignment_id e) (ifd_batch_start e) (ifd_batch_end e)) (\<lambda>(_, price).
         if rs_requester r \<noteq> ap_node_id (ifd_requester_auth e) then Inl (InferenceInvalid WrongRequester)
         else if ifd_refund_mcu e \<noteq> price then Inl WrongPrice
         else if \<not> moves (tx_postings tx) (escrow_account (ifd_job_id e))
                       (ap_node_id (ifd_requester_auth e)) (ifd_refund_mcu e)
         then Inl PostingsMismatch else Inr ()))"

subsection \<open>Membership changes\<close>

definition validate_membership_shape ::
  "ledger_transaction \<Rightarrow> membership_change_evidence \<Rightarrow> ledger_error + unit" where
  "validate_membership_shape tx e =
     (if tx_kind tx \<noteq> MembershipChange then Inl KindEvidenceMismatch
      else if tx_postings tx \<noteq> [] then Inl (MembershipInvalid MembershipMovesCU)
      else if mc_threshold e = 0 then Inl (MembershipInvalid ZeroThreshold)
      else Inr ())"

definition vouch_signing_message ::
  "string \<Rightarrow> membership_action \<Rightarrow> validator_member \<Rightarrow> string \<Rightarrow> string" where
  "vouch_signing_message previous_set_hash action member resulting_set_hash =
     ''hocmesh-vouch-v1|'' @ previous_set_hash @ ''|'' @
     (case action of Join \<Rightarrow> ''join'' | Leave \<Rightarrow> ''leave'') @ ''|'' @
     vm_validator_id member @ ''|'' @ vm_public_key_b64 member @ ''|'' @ resulting_set_hash"

text \<open>\<open>Vec::remove\<close> at the first position satisfying a predicate.\<close>

fun remove_first :: "('a \<Rightarrow> bool) \<Rightarrow> 'a list \<Rightarrow> 'a list" where
  "remove_first P [] = []"
| "remove_first P (x # xs) = (if P x then xs else x # remove_first P xs)"

definition membership_result ::
  "validator_set \<Rightarrow> membership_action \<Rightarrow> validator_member \<Rightarrow> nat \<Rightarrow> ledger_error + validator_set" where
  "membership_result vset action member threshold =
     (let same = (\<lambda>m. vm_validator_id m = vm_validator_id member);
          finish = (\<lambda>members.
            let next = vset\<lparr> set_members := members, set_threshold := threshold \<rparr>
            in qbind (validate_validator_set next) (\<lambda>_. Inr next))
      in case action of
           Join \<Rightarrow>
             if list_ex same (set_members vset) then Inl (MembershipInvalid AlreadyValidator)
             else finish (set_members vset @ [member])
         | Leave \<Rightarrow>
             (case find same (set_members vset) of
                None \<Rightarrow> Inl (MembershipInvalid NotValidator)
              | Some m \<Rightarrow>
                  if m \<noteq> member then Inl (MembershipInvalid MemberDescribedDifferently)
                  else finish (remove_first same (set_members vset))))"

definition apply_membership_change ::
  "crypto \<Rightarrow> validator_set \<Rightarrow> membership_change_evidence \<Rightarrow> ledger_error + validator_set" where
  "apply_membership_change c vset e =
     qbind (membership_result vset (mc_action e) (mc_member e) (mc_threshold e)) (\<lambda>next.
     if membership_hash c next \<noteq> mc_resulting_set_hash e then Inl (MembershipInvalid ResultingSetHash)
     else Inr next)"

definition verify_membership_change ::
  "crypto \<Rightarrow> validator_set \<Rightarrow> membership_change_evidence \<Rightarrow> ledger_error + validator_set" where
  "verify_membership_change c vset e =
     qbind (apply_membership_change c vset e) (\<lambda>next.
     let good = count_good c vset
                  (vouch_signing_message (membership_hash c vset) (mc_action e) (mc_member e)
                     (mc_resulting_set_hash e)) {} (mc_vouches e)
     in if good < set_threshold vset then Inl (MembershipInvalid (TooFewVouches good)) else Inr next)"

subsection \<open>One transaction\<close>

fun check_debits :: "(string \<Rightarrow> int) \<Rightarrow> posting list \<Rightarrow> ledger_error + unit" where
  "check_debits balance [] = Inr ()"
| "check_debits balance (p # ps) =
     (if p_delta_mcu p < 0 \<and> p_account_id p \<noteq> COMMUNITY_ISSUANCE_ACCOUNT
         \<and> balance (p_account_id p) < wrap_i64 (- p_delta_mcu p)
      then Inl (InsufficientBalance (p_account_id p))
      else check_debits balance ps)"

definition check_issuance :: "(string \<Rightarrow> int) \<Rightarrow> validator_set \<Rightarrow> posting list \<Rightarrow> ledger_error + unit" where
  "check_issuance balance vset ps =
     (case find (\<lambda>p. p_account_id p = COMMUNITY_ISSUANCE_ACCOUNT \<and> p_delta_mcu p < 0) ps of
        None \<Rightarrow> Inr ()
      | Some p \<Rightarrow>
          (case checked_add_i64 (balance COMMUNITY_ISSUANCE_ACCOUNT) (p_delta_mcu p) of
             None \<Rightarrow> Inl IssuanceOverflow
           | Some next \<Rightarrow>
               if next < - \<bar>set_community_issuance_limit_mcu vset\<bar> then Inl IssuanceLimit else Inr ()))"

text \<open>What the live and the historical path both ask of the postings.\<close>

definition check_postings :: "(string \<Rightarrow> int) \<Rightarrow> validator_set \<Rightarrow> posting list \<Rightarrow> ledger_error + unit" where
  "check_postings balance vset ps =
     (if length ps < 2 then Inl TooFewPostings
      else if sum_list (map p_delta_mcu ps) \<noteq> 0 then Inl (NotConserved (sum_list (map p_delta_mcu ps)))
      else if list_ex (\<lambda>p. p_delta_mcu p = 0) ps then Inl ZeroPosting
      else qbind (check_debits balance ps) (\<lambda>_. check_issuance balance vset ps))"

definition validate_evidence ::
  "crypto \<Rightarrow> ledger_transaction \<Rightarrow> string \<Rightarrow> (string \<Rightarrow> inference_reservation option) \<Rightarrow> validator_set \<Rightarrow>
   ledger_error + unit" where
  "validate_evidence c tx previous_hash reserved vset =
     (case (tx_kind tx, tx_evidence tx) of
        (JobReserve, EvJobReserve e) \<Rightarrow> validate_reserve c tx e
      | (CommunityReserve, EvCommunityReserve job_id work shards sponsors) \<Rightarrow>
          validate_community_reserve c tx job_id work shards sponsors vset
      | (ProviderReward, EvProviderReward e) \<Rightarrow> validate_reward c tx e previous_hash
      | (JobRefund, EvJobRefund e) \<Rightarrow> validate_refund c tx e
      | (InferenceReserve, EvInferenceReserve e) \<Rightarrow> validate_inference_reserve c tx e
      | (InferenceReward, EvInferenceReward e) \<Rightarrow> validate_inference_reward c tx e (reserved (iw_job_id e))
      | (InferenceReceipt, EvInferenceReceipt e) \<Rightarrow> validate_inference_receipt c tx e (reserved (rc_job_id e))
      | (InferenceDispute, EvInferenceDispute e) \<Rightarrow> validate_inference_dispute c tx e (reserved (dp_job_id e))
      | (InferenceExpiry, EvInferenceExpiry e) \<Rightarrow> validate_inference_expiry c tx e (reserved (ex_job_id e))
      | (InferenceRefund, EvInferenceRefund e) \<Rightarrow> validate_inference_refund c tx e (reserved (ifd_job_id e))
      | _ \<Rightarrow> Inl KindEvidenceMismatch)"

definition validate_transaction ::
  "crypto \<Rightarrow> ledger_transaction \<Rightarrow> string \<Rightarrow> (string \<Rightarrow> int) \<Rightarrow> (string \<Rightarrow> inference_reservation option) \<Rightarrow>
   validator_set \<Rightarrow> ledger_error + unit" where
  "validate_transaction c tx previous_hash balance reserved vset =
     (case tx_evidence tx of
        EvMembershipChange e \<Rightarrow> validate_membership_shape tx e
      | _ \<Rightarrow> qbind (check_postings balance vset (tx_postings tx))
                  (\<lambda>_. validate_evidence c tx previous_hash reserved vset))"

subsection \<open>A batch\<close>

text \<open>The overlay of the batch: the CU its earlier postings moved, by account, and the inference jobs
  its earlier transactions reserved.\<close>

type_synonym overlay = "(string \<Rightarrow> int) \<times> (string \<Rightarrow> inference_reservation option)"

definition batch_step ::
  "crypto \<Rightarrow> string \<Rightarrow> (string \<Rightarrow> int) \<Rightarrow> (string \<Rightarrow> inference_reservation option) \<Rightarrow> validator_set \<Rightarrow>
   ledger_transaction \<Rightarrow> overlay \<Rightarrow> ledger_error + overlay" where
  "batch_step c previous_hash balance reserved vset tx ov =
     (case ov of (ovl, reserved_here) \<Rightarrow>
        qbind (validate_transaction c tx previous_hash
                 (\<lambda>a. wrap_i64 (balance a + ovl a))
                 (\<lambda>j. case reserved_here j of Some r \<Rightarrow> Some r | None \<Rightarrow> reserved j)
                 vset) (\<lambda>_.
        Inr (fold add_posting (tx_postings tx) ovl,
             case tx_evidence tx of
               EvInferenceReserve e \<Rightarrow> reserved_here(ir_job_id e \<mapsto> reservation_of tx e)
             | _ \<Rightarrow> reserved_here)))"

definition validate_batch ::
  "crypto \<Rightarrow> ledger_transaction list \<Rightarrow> string \<Rightarrow> (string \<Rightarrow> int) \<Rightarrow>
   (string \<Rightarrow> inference_reservation option) \<Rightarrow> validator_set \<Rightarrow> ledger_error + unit" where
  "validate_batch c txs previous_hash balance reserved vset =
     qbind (fold_result (batch_step c previous_hash balance reserved vset) txs (\<lambda>_. 0, Map.empty))
           (\<lambda>_. Inr ())"

subsection \<open>Certificates and checkpoints\<close>

definition ledger_entry_signing_message :: "string \<Rightarrow> string \<Rightarrow> string" where
  "ledger_entry_signing_message mhash ehash = ''hocmesh-ledger-v1|'' @ mhash @ ''|'' @ ehash"

fun check_claims_once :: "string set \<Rightarrow> ledger_transaction list \<Rightarrow> ledger_error + unit" where
  "check_claims_once seen [] = Inr ()"
| "check_claims_once seen (t # ts) =
     (if claim_key t \<in> seen then Inl (CertificateInvalid (ClaimTwice (claim_key t)))
      else check_claims_once (insert (claim_key t) seen) ts)"

definition verify_certificate :: "crypto \<Rightarrow> quorum_certificate \<Rightarrow> validator_set \<Rightarrow> ledger_error + unit" where
  "verify_certificate c cert vset =
     (let entry = qc_entry cert in
      if qc_membership_hash cert \<noteq> membership_hash c vset then Inl (CertificateInvalid MembershipHash)
      else if en_transactions entry = [] then Inl (CertificateInvalid NoTransactions)
      else qbind (check_claims_once {} (en_transactions entry)) (\<lambda>_.
      let th = transactions_hash c (en_transactions entry) in
      if th \<noteq> en_transactions_hash entry then Inl (CertificateInvalid TransactionsHash)
      else if entry_hash c (en_sequence entry) (en_previous_hash entry) th \<noteq> en_entry_hash entry
      then Inl (CertificateInvalid EntryHash)
      else let good = count_good c vset
                        (ledger_entry_signing_message (qc_membership_hash cert) (en_entry_hash entry))
                        {} (qc_signatures cert)
           in if good < set_threshold vset then Inl (CertificateInvalid (TooFewSignatures good))
              else Inr ()))"

definition checkpoint_signing_message :: "string \<Rightarrow> nat \<Rightarrow> string \<Rightarrow> string \<Rightarrow> string" where
  "checkpoint_signing_message mhash sequence ehash state_hash =
     ''hocmesh-checkpoint-v1|'' @ mhash @ ''|'' @ show_nat sequence @ ''|'' @ ehash @ ''|'' @ state_hash"

definition verify_checkpoint :: "crypto \<Rightarrow> ledger_checkpoint \<Rightarrow> validator_set \<Rightarrow> ledger_error + unit" where
  "verify_checkpoint c cp vset =
     (let head = cp_head cp in
      if lh_membership_hash head \<noteq> membership_hash c vset then Inl (CertificateInvalid MembershipHash)
      else let good = count_good c vset
                        (checkpoint_signing_message (lh_membership_hash head) (lh_sequence head)
                           (lh_entry_hash head) (cp_state_hash cp)) {} (cp_signatures cp)
           in if good < set_threshold vset then Inl (CertificateInvalid (TooFewSignatures good))
              else Inr ())"

subsection \<open>History\<close>

definition verify_historical_evidence ::
  "crypto \<Rightarrow> ledger_transaction \<Rightarrow> string \<Rightarrow> validator_signature list \<Rightarrow> ledger_error + unit" where
  "verify_historical_evidence c tx previous_hash signatures =
     (case tx_evidence tx of
        EvJobReserve e \<Rightarrow>
          map_err AuthFailed (verify_auth_signature c (jr_requester_public_key_b64 e)
            (jr_requester_auth e) ''submit'' (submit_body_hash c (jr_work e) (jr_shards e)))
      | EvCommunityReserve _ work shards _ \<Rightarrow>
          qbind (map_err WorkInvalid (work_spec_validate work)) (\<lambda>_.
          qbind (issuable work) (\<lambda>_.
          if \<not> (1 \<le> shards \<and> shards \<le> 256) then Inl ShardCount else Inr ()))
      | EvProviderReward e \<Rightarrow>
          qbind (map_err AuthFailed (verify_auth_signature c (pr_provider_public_key_b64 e)
                   (pr_provider_auth e) ''result''
                   (result_body_hash c (pr_assignment_id e) (pr_job_id e) (pr_shard_index e) (pr_work e)
                      (pr_reward_mcu e) (pr_system_funded e) (pr_result e)))) (\<lambda>_.
          qbind (if pr_system_funded e then issuable (pr_work e) else Inr ()) (\<lambda>_.
          if \<not> certified_witness c (pr_work e) (pr_result e) previous_hash (tx_transaction_id tx) signatures
          then Inl ResultNotVerified else Inr ()))
      | EvJobRefund e \<Rightarrow>
          qbind (map_err WorkInvalid (work_spec_validate (rf_work e))) (\<lambda>_.
          qbind (refund_payee c e) (\<lambda>_. Inr ()))
      | EvInferenceReserve e \<Rightarrow>
          qbind (submit_inference_auth c e) (\<lambda>_.
          batches_partition_prompts (ir_batches e) (length (ib_prompt_bytes (ir_billing e))))
      | EvInferenceReward e \<Rightarrow>
          qbind (report_inference_auth c e) (\<lambda>_.
          reward_verdict c e (ap_node_id (iw_requester_acceptance e)))
      | EvInferenceReceipt e \<Rightarrow> receipt_auth c e
      | EvInferenceDispute e \<Rightarrow> dispute_verdict c e (ap_node_id (dp_requester_auth e))
      | EvInferenceExpiry e \<Rightarrow> expired_receipt c tx e
      | EvInferenceRefund e \<Rightarrow> inference_refund_auth c e
      | EvMembershipChange e \<Rightarrow>
          if vm_validator_id (mc_member e) = [] \<or> vm_public_key_b64 (mc_member e) = []
          then Inl (MembershipInvalid NamesNoValidator)
          else if mc_vouches e = [] then Inl (MembershipInvalid NoVouches)
          else Inr ())"

definition require_moves :: "posting list \<Rightarrow> string \<Rightarrow> string \<Rightarrow> int \<Rightarrow> ledger_error + unit" where
  "require_moves ps from to amount = (if \<not> moves ps from to amount then Inl PostingsMismatch else Inr ())"

definition historical_match ::
  "crypto \<Rightarrow> ledger_transaction \<Rightarrow> validator_set \<Rightarrow> ledger_error + unit" where
  "historical_match c tx vset =
     (case (tx_kind tx, tx_evidence tx) of
        (JobReserve, EvJobReserve e) \<Rightarrow>
          if jr_job_id e \<noteq> job_id_from_auth c (jr_requester_auth e) then Inl JobIdNotBound
          else require_moves (tx_postings tx) (ap_node_id (jr_requester_auth e))
                 (escrow_account (jr_job_id e)) (job_cost (jr_work e) (jr_shards e))
      | (CommunityReserve, EvCommunityReserve job_id work shards sponsors) \<Rightarrow>
          validate_community_reserve c tx job_id work shards sponsors vset
      | (ProviderReward, EvProviderReward e) \<Rightarrow>
          if pr_reward_mcu e \<noteq> work_cost_mcu (pr_work e)
             \<or> pr_assignment_id e \<noteq> assignment_id c (pr_job_id e) (pr_shard_index e)
          then Inl MetadataInvalid
          else require_moves (tx_postings tx) (escrow_account (pr_job_id e))
                 (ap_node_id (pr_provider_auth e)) (work_cost_mcu (pr_work e))
      | (JobRefund, EvJobRefund e) \<Rightarrow>
          if rf_refund_mcu e \<noteq> work_cost_mcu (rf_work e)
             \<or> rf_assignment_id e \<noteq> assignment_id c (rf_job_id e) (rf_shard_index e)
          then Inl MetadataInvalid
          else qbind (refund_payee c e) (\<lambda>payee.
                 require_moves (tx_postings tx) (escrow_account (rf_job_id e)) payee
                   (work_cost_mcu (rf_work e)))
      | (InferenceReserve, EvInferenceReserve e) \<Rightarrow>
          if ir_job_id e \<noteq> inference_job_id_from_auth c (ir_requester_auth e) then Inl JobIdNotBound
          else if \<not> parameter_count_is_plausible (ib_parameter_count (ir_billing e))
                       (ib_total_size_bytes (ir_billing e)) then Inl (InferenceInvalid ParameterCount)
          else if billing_cost (ir_billing e) > ib_max_cost_mcu (ir_billing e)
          then Inl (InferenceInvalid CostCeiling)
          else qbind (batches_partition_prompts (ir_batches e) (length (ib_prompt_bytes (ir_billing e)))) (\<lambda>_.
               require_moves (tx_postings tx) (ap_node_id (ir_requester_auth e))
                 (escrow_account (ir_job_id e)) (billing_cost (ir_billing e)))
      | (InferenceReward, EvInferenceReward e) \<Rightarrow>
          if iw_job_id e = ap_node_id (iw_provider_auth e) then Inl (InferenceInvalid PaysJobId)
          else if iw_batch_end e \<le> iw_batch_start e then Inl (InferenceInvalid EmptyBatch)
          else if iw_reward_mcu e \<le> 0 then Inl (InferenceInvalid NonPositiveAmount)
          else qbind (report_inference_auth c e) (\<lambda>_.
               qbind (map_err AuthFailed (verify_auth_signature c (iw_requester_public_key_b64 e)
                        (iw_requester_acceptance e) ''accept_inference''
                        (inference_verdict_body_hash c True (iw_assignment_id e) (iw_job_id e)
                           (iw_batch_start e) (iw_batch_end e) (iw_reward_mcu e) (iw_outputs_digest e)))) (\<lambda>_.
               require_moves (tx_postings tx) (inference_holding_account (iw_assignment_id e))
                 (ap_node_id (iw_provider_auth e)) (iw_reward_mcu e)))
      | (InferenceRefund, EvInferenceRefund e) \<Rightarrow>
          if ifd_batch_end e \<le> ifd_batch_start e \<or> ifd_refund_mcu e \<le> 0
          then Inl (InferenceInvalid EmptyBatch)
          else qbind (inference_refund_auth c e) (\<lambda>_.
               require_moves (tx_postings tx) (escrow_account (ifd_job_id e))
                 (ap_node_id (ifd_requester_auth e)) (ifd_refund_mcu e))
      | (InferenceReceipt, EvInferenceReceipt e) \<Rightarrow>
          if rc_batch_end e \<le> rc_batch_start e then Inl (InferenceInvalid EmptyBatch)
          else if rc_price_mcu e \<le> 0 then Inl (InferenceInvalid NonPositiveAmount)
          else qbind (receipt_auth c e) (\<lambda>_.
               require_moves (tx_postings tx) (escrow_account (rc_job_id e))
                 (inference_holding_account (rc_assignment_id e)) (rc_price_mcu e))
      | (InferenceDispute, EvInferenceDispute e) \<Rightarrow>
          if dp_batch_end e \<le> dp_batch_start e then Inl (InferenceInvalid EmptyBatch)
          else if dp_price_mcu e \<le> 0 then Inl (InferenceInvalid NonPositiveAmount)
          else if bad_reason (dp_reason e) then Inl (InferenceInvalid BadDisputeReason)
          else qbind (map_err AuthFailed (verify_auth_signature c (dp_requester_public_key_b64 e)
                        (dp_requester_auth e) ''dispute_inference''
                        (inference_verdict_body_hash c False (dp_assignment_id e) (dp_job_id e)
                           (dp_batch_start e) (dp_batch_end e) (dp_price_mcu e) (dp_outputs_digest e)))) (\<lambda>_.
               require_moves (tx_postings tx) (inference_holding_account (dp_assignment_id e))
                 COMMUNITY_ISSUANCE_ACCOUNT (dp_price_mcu e))
      | (InferenceExpiry, EvInferenceExpiry e) \<Rightarrow>
          qbind (expired_receipt c tx e) (\<lambda>_.
          require_moves (tx_postings tx) (inference_holding_account (ex_assignment_id e))
            COMMUNITY_ISSUANCE_ACCOUNT (ex_price_mcu e))
      | _ \<Rightarrow> Inl KindEvidenceMismatch)"

definition validate_historical_transaction ::
  "crypto \<Rightarrow> ledger_transaction \<Rightarrow> string \<Rightarrow> validator_signature list \<Rightarrow> (string \<Rightarrow> int) \<Rightarrow> validator_set \<Rightarrow>
   ledger_error + unit" where
  "validate_historical_transaction c tx previous_hash signatures balance vset =
     qbind (verify_historical_evidence c tx previous_hash signatures) (\<lambda>_.
     case tx_evidence tx of
       EvMembershipChange e \<Rightarrow> validate_membership_shape tx e
     | _ \<Rightarrow> qbind (check_postings balance vset (tx_postings tx)) (\<lambda>_. historical_match c tx vset))"

section \<open>Lemmas\<close>

subsection \<open>Prices stay in range\<close>

lemma compute_ops_le: "compute_ops w \<le> u64_max"
proof (cases w)
  case (MatrixMultiply a b d rs re)
  have "wrap_u64 n < 2 ^ 64" for n by (simp add: wrap_u64_def)
  then show ?thesis by (simp add: MatrixMultiply u64_max_def less_eq_Suc_le[symmetric] flip: less_Suc_eq_le)
qed simp_all

lemma work_cost_le: "work_cost_mcu w \<le> 2 ^ 51"
proof -
  have "div_ceil (compute_ops w) REFERENCE_OPS_PER_MCU \<le> 2 ^ 51"
    using compute_ops_le[of w] by (intro div_ceil_le) (auto simp: REFERENCE_OPS_PER_MCU_def u64_max_def)
  then show ?thesis by (simp add: work_cost_mcu_def)
qed

lemma sum_costs_le: "sum_list (map work_cost_mcu ws) \<le> int (length ws) * 2 ^ 51"
  by (induction ws) (use work_cost_le in \<open>auto simp: algebra_simps intro: add_mono\<close>)

lemma sum_costs_ge: "int (length ws) \<le> sum_list (map work_cost_mcu ws)"
  by (induction ws) (use work_cost_bounds(1) in \<open>auto intro: add_mono\<close>)

lemma job_cost_eq:
  assumes "n \<le> 256"
  shows "job_cost w n = sum_list (map work_cost_mcu (split_work w n))"
    and "1 \<le> job_cost w n" and "job_cost w n \<le> i64_max"
proof -
  let ?ws = "split_work w n"
  have len: "length ?ws \<le> 256" "0 < length ?ws" using split_work_length[of w n] assms by auto
  have "sum_list (map work_cost_mcu ?ws) \<le> 256 * 2 ^ 51"
    using len(1) by (intro order.trans[OF sum_costs_le] mult_right_mono) auto
  moreover have "1 \<le> sum_list (map work_cost_mcu ?ws)" using sum_costs_ge[of ?ws] len(2) by linarith
  ultimately show "job_cost w n = sum_list (map work_cost_mcu ?ws)"
    and "1 \<le> job_cost w n" and "job_cost w n \<le> i64_max"
    by (simp_all add: job_cost_def range_defs)
qed

subsection \<open>Every accepted settlement is an affordable transfer\<close>

text \<open>The postings of the source are \<open>i64\<close>.\<close>

definition tx_typed :: "ledger_transaction \<Rightarrow> bool" where
  "tx_typed tx \<longleftrightarrow> (\<forall>p\<in>set (tx_postings tx). in_i64 (p_delta_mcu p))"

lemma check_postings_transfer:
  assumes ok: "check_postings b vset ps = Inr ()" and two: "length ps = 2"
    and dist: "distinct (map p_account_id ps)"
    and typed: "\<forall>p\<in>set ps. in_i64 (p_delta_mcu p)"
  shows "\<exists>src dst amt. src \<noteq> dst \<and> 0 < amt \<and> amt \<le> i64_max \<and> moves ps src dst amt \<and>
           (if src = COMMUNITY_ISSUANCE_ACCOUNT
            then - \<bar>set_community_issuance_limit_mcu vset\<bar> \<le> b src - amt else amt \<le> b src)"
proof -
  obtain p q where ps: "ps = [p, q]" using two by (auto simp: length_Suc_conv numeral_2_eq_2)
  from ok have sum: "p_delta_mcu p + p_delta_mcu q = 0" and nz: "p_delta_mcu p \<noteq> 0" "p_delta_mcu q \<noteq> 0"
    and deb: "check_debits b ps = Inr ()" and iss: "check_issuance b vset ps = Inr ()"
    by (auto simp: check_postings_def ps split: if_splits)
  have *: "\<exists>src dst amt. src \<noteq> dst \<and> 0 < amt \<and> amt \<le> i64_max \<and> moves ps src dst amt \<and>
           (if src = COMMUNITY_ISSUANCE_ACCOUNT
            then - \<bar>set_community_issuance_limit_mcu vset\<bar> \<le> b src - amt else amt \<le> b src)"
    if r: "{r, s} = {p, q}" "p_delta_mcu r < 0" "p_delta_mcu s = - p_delta_mcu r" for r s
  proof -
    have range: "in_i64 (p_delta_mcu r)" "in_i64 (p_delta_mcu s)" using typed ps r(1) by auto
    then have w: "wrap_i64 (- p_delta_mcu r) = - p_delta_mcu r" using r(3) by simp
    then have "moves ps (p_account_id r) (p_account_id s) (- p_delta_mcu r)"
      using r range ps by (auto simp: moves_def doubleton_eq_iff)
    moreover have "if p_account_id r = COMMUNITY_ISSUANCE_ACCOUNT
      then - \<bar>set_community_issuance_limit_mcu vset\<bar> \<le> b (p_account_id r) + p_delta_mcu r
      else - p_delta_mcu r \<le> b (p_account_id r)"
      using deb iss r w
      by (auto simp: ps check_issuance_def doubleton_eq_iff not_less split: if_splits option.splits)
    moreover have "p_account_id r \<noteq> p_account_id s" using r(1,2,3) dist ps by (auto simp: doubleton_eq_iff)
    ultimately show ?thesis
      using r(2,3) range(2) by (intro exI[of _ "p_account_id r"] exI[of _ "p_account_id s"] exI[of _ "- p_delta_mcu r"])
        (auto simp: range_defs)
  qed
  show ?thesis
  proof (cases "p_delta_mcu p < 0")
    case True
    show ?thesis by (rule *[of p q]) (use True sum in auto)
  next
    case False
    show ?thesis by (rule *[of q p]) (use False sum nz in auto)
  qed
qed

text \<open>Both accounts of a settlement are named by the evidence, and they differ: a verified node id is
  never an escrow, a holding or the issuance account.\<close>

definition two_accounts :: "posting list \<Rightarrow> bool" where
  "two_accounts ps \<longleftrightarrow> length ps = 2 \<and> distinct (map p_account_id ps)"

lemma moves_two_accounts: "moves ps a b n \<Longrightarrow> a \<noteq> b \<Longrightarrow> two_accounts ps"
  by (auto simp: moves_def two_accounts_def length_Suc_conv numeral_2_eq_2)

lemma verified_not_account:
  assumes "verify_auth_signature c k p act h = Inr ()"
  shows "ap_node_id p \<noteq> COMMUNITY_ISSUANCE_ACCOUNT" "ap_node_id p \<noteq> escrow_account j"
    "ap_node_id p \<noteq> inference_holding_account a"
proof -
  obtain pk where "ap_node_id p = node_id_from_public_key c pk"
    using assms unfolding verify_auth_signature_ok by metis
  then show "ap_node_id p \<noteq> COMMUNITY_ISSUANCE_ACCOUNT" "ap_node_id p \<noteq> escrow_account j"
    "ap_node_id p \<noteq> inference_holding_account a" by simp_all
qed

lemma refund_payee_not_escrow:
  assumes "refund_payee c e = Inr payee" shows "payee \<noteq> escrow_account j"
proof -
  have "payee = COMMUNITY_ISSUANCE_ACCOUNT \<or>
      (\<exists>k a act h. verify_auth_signature c k a act h = Inr () \<and> payee = ap_node_id a)"
    using assms by (auto simp: refund_payee_def split: option.splits if_splits)
  then show ?thesis
  proof (elim disjE exE conjE)
    fix k a act h
    assume "verify_auth_signature c k a act h = Inr ()" "payee = ap_node_id a"
    then show ?thesis using verified_not_account(2) by simp
  qed simp
qed

lemma verified_moves:
  "moves ps (ap_node_id p) (escrow_account j) n \<Longrightarrow> verify_auth_signature c k p act h = Inr () \<Longrightarrow> two_accounts ps"
  "moves ps (escrow_account j) (ap_node_id p) n \<Longrightarrow> verify_auth_signature c k p act h = Inr () \<Longrightarrow> two_accounts ps"
  "moves ps (inference_holding_account a) (ap_node_id p) n \<Longrightarrow> verify_auth_signature c k p act h = Inr () \<Longrightarrow> two_accounts ps"
  "moves ps (escrow_account j) payee n \<Longrightarrow> refund_payee c e = Inr payee \<Longrightarrow> two_accounts ps"
  using moves_two_accounts verified_not_account(2,3) refund_payee_not_escrow by metis+

lemma fixed_moves:
  "moves ps COMMUNITY_ISSUANCE_ACCOUNT (escrow_account j) n \<Longrightarrow> two_accounts ps"
  "moves ps (inference_holding_account a) COMMUNITY_ISSUANCE_ACCOUNT n \<Longrightarrow> two_accounts ps"
  "moves ps (escrow_account j) (inference_holding_account a) n \<Longrightarrow> two_accounts ps"
  by (simp_all add: moves_two_accounts)

lemmas live_defs =
  validate_reserve_def validate_community_reserve_def validate_reward_def validate_refund_def
  validate_inference_reserve_def validate_inference_reward_def validate_inference_receipt_def
  validate_inference_dispute_def validate_inference_expiry_def validate_inference_refund_def

lemmas auth_defs =
  submit_inference_auth_def report_inference_auth_def receipt_auth_def inference_refund_auth_def

lemma validate_evidence_two:
  assumes "validate_evidence c tx prev res vset = Inr ()"
  shows "two_accounts (tx_postings tx)"
  using assms
  by (cases "tx_evidence tx"; cases "tx_kind tx")
     (auto simp: validate_evidence_def live_defs auth_defs Let_def
        intro: verified_moves fixed_moves split: option.splits)

lemma require_moves_ok [simp]: "require_moves ps a b n = Inr () \<longleftrightarrow> moves ps a b n"
  by (simp add: require_moves_def)

lemma historical_match_two:
  assumes h: "historical_match c tx vset = Inr ()"
    and e: "verify_historical_evidence c tx prev sigs = Inr ()"
  shows "two_accounts (tx_postings tx)"
  using h e
  by (cases "tx_evidence tx"; cases "tx_kind tx")
     (auto simp: historical_match_def verify_historical_evidence_def validate_community_reserve_def
        auth_defs Let_def intro: verified_moves fixed_moves split: if_splits)

definition live_accept :: "crypto \<Rightarrow> validator_set \<Rightarrow> ledger_transaction \<Rightarrow> (string \<Rightarrow> int) \<Rightarrow> bool" where
  "live_accept c vset tx b \<longleftrightarrow>
     tx_typed tx \<and> (\<exists>prev reserved. validate_transaction c tx prev b reserved vset = Inr ())"

definition history_accept :: "crypto \<Rightarrow> validator_set \<Rightarrow> ledger_transaction \<Rightarrow> (string \<Rightarrow> int) \<Rightarrow> bool" where
  "history_accept c vset tx b \<longleftrightarrow>
     tx_typed tx \<and> (\<exists>prev sigs. validate_historical_transaction c tx prev sigs b vset = Inr ())"

lemma validate_transaction_postings:
  assumes "validate_transaction c tx prev b res vset = Inr ()"
  shows "tx_postings tx = [] \<or> check_postings b vset (tx_postings tx) = Inr () \<and> two_accounts (tx_postings tx)"
  using assms validate_evidence_two[of c tx prev res vset]
  by (auto simp: validate_transaction_def validate_membership_shape_def split: transaction_evidence.splits if_splits)

lemma validate_historical_postings:
  assumes "validate_historical_transaction c tx prev sigs b vset = Inr ()"
  shows "tx_postings tx = [] \<or> check_postings b vset (tx_postings tx) = Inr () \<and> two_accounts (tx_postings tx)"
  using assms historical_match_two[of c tx vset prev sigs]
  by (auto simp: validate_historical_transaction_def validate_membership_shape_def
      split: transaction_evidence.splits if_splits)

interpretation live: transfer_book "live_accept c vset" tx_postings "\<bar>set_community_issuance_limit_mcu vset\<bar>" for c vset
proof unfold_locales
  fix t b
  assume "live_accept c vset t b"
  then obtain prev res where "tx_typed t" "validate_transaction c t prev b res vset = Inr ()"
    by (auto simp: live_accept_def)
  with validate_transaction_postings[OF this(2)] check_postings_transfer[of b vset "tx_postings t"]
  show "tx_postings t = [] \<or> (\<exists>src dst amt. src \<noteq> dst \<and> 0 < amt \<and> amt \<le> i64_max \<and> moves (tx_postings t) src dst amt \<and>
     (if src = COMMUNITY_ISSUANCE_ACCOUNT then - \<bar>set_community_issuance_limit_mcu vset\<bar> \<le> b src - amt
      else amt \<le> b src))"
    unfolding tx_typed_def two_accounts_def by blast
qed

interpretation history: transfer_book "history_accept c vset" tx_postings "\<bar>set_community_issuance_limit_mcu vset\<bar>" for c vset
proof unfold_locales
  fix t b
  assume "history_accept c vset t b"
  then obtain prev sigs where "tx_typed t" "validate_historical_transaction c t prev sigs b vset = Inr ()"
    by (auto simp: history_accept_def)
  with validate_historical_postings[OF this(2)] check_postings_transfer[of b vset "tx_postings t"]
  show "tx_postings t = [] \<or> (\<exists>src dst amt. src \<noteq> dst \<and> 0 < amt \<and> amt \<le> i64_max \<and> moves (tx_postings t) src dst amt \<and>
     (if src = COMMUNITY_ISSUANCE_ACCOUNT then - \<bar>set_community_issuance_limit_mcu vset\<bar> \<le> b src - amt
      else amt \<le> b src))"
    unfolding tx_typed_def two_accounts_def by blast
qed

subsection \<open>A batch is a run of the book\<close>

text \<open>The overlay of a batch is the difference between the running book and the committed one; none of
  its \<open>i64\<close> additions wraps.\<close>

lemma sound_book_diff:
  assumes "sound_book limit b" "sound_book limit bal" "limit \<le> i64_max"
  shows "in_i64 (b a - bal a)"
proof (cases "a = COMMUNITY_ISSUANCE_ACCOUNT")
  case True
  have "b a \<le> 0" "bal a \<le> 0" "- limit \<le> b a" "- limit \<le> bal a"
    using sound_book_bounds(2,3)[OF assms(1)] sound_book_bounds(2,3)[OF assms(2)] True by auto
  then show ?thesis using assms(3) by (auto simp: range_defs)
next
  case False
  then have "0 \<le> b a" "0 \<le> bal a" using assms(1,2) by (auto simp: sound_book_def)
  moreover have "b a \<le> limit" "bal a \<le> limit" using sound_book_bounds(1) assms by blast+
  ultimately show ?thesis using assms(3) by (auto simp: range_defs)
qed

lemma batch_step_ok:
  "batch_step c prev bal res vset tx (ovl, rh) = Inr st \<Longrightarrow>
   (\<exists>res'. validate_transaction c tx prev (\<lambda>a. wrap_i64 (bal a + ovl a)) res' vset = Inr ()) \<and>
   fst st = fold add_posting (tx_postings tx) ovl"
  unfolding batch_step_def by auto

lemma batch_run:
  assumes "fold_result (batch_step c prev bal res vset) txs (ovl, rh) = Inr st"
    and "limit = \<bar>set_community_issuance_limit_mcu vset\<bar>" "limit \<le> i64_max"
    and "sound_book limit bal" "sound_book limit b" and "ovl = (\<lambda>a. b a - bal a)"
    and "\<forall>tx\<in>set txs. tx_typed tx"
  shows "run_book (live_accept c vset) tx_postings txs b
           = Some (\<lambda>a. b a + net (concat (map tx_postings txs)) a)"
  using assms
proof (induction txs arbitrary: ovl rh b)
  case (Cons tx txs)
  have diff: "in_i64 (b a - bal a)" "in_i64 (b a)" for a
    using sound_book_diff[OF Cons.prems(5,4,3)] sound_book_in_i64[OF Cons.prems(5,3)] by auto
  then have bal: "(\<lambda>a. wrap_i64 (bal a + ovl a)) = b" by (simp add: Cons.prems(6))
  from Cons.prems(1) obtain st' where st': "batch_step c prev bal res vset tx (ovl, rh) = Inr st'"
    "fold_result (batch_step c prev bal res vset) txs st' = Inr st" by auto
  from batch_step_ok[OF st'(1)] obtain res' where
    v: "validate_transaction c tx prev b res' vset = Inr ()"
    and ovl': "fst st' = fold add_posting (tx_postings tx) ovl" unfolding bal by blast
  have rest: "fold_result (batch_step c prev bal res vset) txs
      (fold add_posting (tx_postings tx) ovl, snd st') = Inr st"
    using st'(2) unfolding ovl'[symmetric] by simp
  have acc: "live_accept c vset tx b"
    using v Cons.prems(7) unfolding live_accept_def by auto
  define b' where "b' = (\<lambda>a. b a + net (tx_postings tx) a)"
  have b': "sound_book limit b'" "fold add_posting (tx_postings tx) b = b'"
    using live.step_sound[OF acc Cons.prems(5)[unfolded Cons.prems(2)]] Cons.prems(2,3)
    by (simp_all add: b'_def)
  have "fold add_posting (tx_postings tx) ovl = (\<lambda>a. ovl a + net (tx_postings tx) a)"
    using diff sound_book_diff[OF b'(1) Cons.prems(4,3)]
    by (intro fold_add_posting_exact) (simp_all add: Cons.prems(6) b'_def algebra_simps)
  also have "\<dots> = (\<lambda>a. b' a - bal a)" by (simp add: Cons.prems(6) b'_def algebra_simps)
  finally have "run_book (live_accept c vset) tx_postings txs b'
           = Some (\<lambda>a. b' a + net (concat (map tx_postings txs)) a)"
    using rest Cons.prems(7) by (intro Cons.IH[OF _ Cons.prems(2-4) b'(1)]) auto
  then show ?case using acc by (simp add: b'(2)) (simp add: b'_def add.assoc)
qed simp

lemma validate_batch_run:
  assumes "validate_batch c txs prev bal res vset = Inr ()"
    and "limit = \<bar>set_community_issuance_limit_mcu vset\<bar>" "limit \<le> i64_max"
    and "sound_book limit bal" "\<forall>tx\<in>set txs. tx_typed tx"
  shows "run_book (live_accept c vset) tx_postings txs bal
           = Some (\<lambda>a. bal a + net (concat (map tx_postings txs)) a)"
    and "sound_book limit (\<lambda>a. bal a + net (concat (map tx_postings txs)) a)"
proof -
  show run: "run_book (live_accept c vset) tx_postings txs bal
           = Some (\<lambda>a. bal a + net (concat (map tx_postings txs)) a)"
    using assms(1) by (auto simp: validate_batch_def intro!: batch_run[OF _ assms(2,3,4,4) _ assms(5)])
  show "sound_book limit (\<lambda>a. bal a + net (concat (map tx_postings txs)) a)"
    using live.run_sound[OF run] assms(2-4) by simp
qed

subsection \<open>Validator sets\<close>

lemma check_members_ok:
  "check_members ids urls keys ms = Inr () \<longleftrightarrow>
   distinct (map vm_validator_id ms) \<and> (\<forall>m\<in>set ms. vm_validator_id m \<notin> ids) \<and>
   distinct (map vm_url ms) \<and> (\<forall>m\<in>set ms. vm_url m \<notin> urls) \<and>
   distinct (map vm_public_key_b64 ms) \<and> (\<forall>m\<in>set ms. vm_public_key_b64 m \<notin> keys) \<and>
   (\<forall>m\<in>set ms. vm_public_key_b64 m \<noteq> [])"
proof (induction ids urls keys ms rule: check_members.induct)
  case (2 ids urls keys m ms)
  show ?case
  proof (cases "vm_validator_id m \<in> ids \<or> vm_url m \<in> urls \<or> vm_public_key_b64 m \<in> keys \<or> vm_public_key_b64 m = []")
    case True
    then show ?thesis by (elim disjE) simp_all
  next
    case False
    then show ?thesis using 2 by (simp add: image_iff ball_conj_distrib eq_commute) blast
  qed
qed simp

lemma validate_validator_set_ok:
  "validate_validator_set v = Inr () \<longleftrightarrow>
   0 < set_threshold v \<and> set_threshold v \<le> length (set_members v) \<and>
   2 * length (set_members v) < 3 * set_threshold v \<and> 0 < set_community_issuance_limit_mcu v \<and>
   distinct (map vm_validator_id (set_members v)) \<and> distinct (map vm_url (set_members v)) \<and>
   distinct (map vm_public_key_b64 (set_members v)) \<and>
   (\<forall>m\<in>set (set_members v). vm_public_key_b64 m \<noteq> [])"
  by (auto simp: validate_validator_set_def Let_def check_members_ok)

definition member_ids :: "validator_set \<Rightarrow> string set" where
  "member_ids v = vm_validator_id ` set (set_members v)"

lemma member_ids_card:
  "validate_validator_set v = Inr () \<Longrightarrow> card (member_ids v) = length (set_members v)"
  by (auto simp: validate_validator_set_ok member_ids_def distinct_card[of "map _ _", simplified])

subsection \<open>Counted signatures are distinct members\<close>

definition signers :: "crypto \<Rightarrow> validator_set \<Rightarrow> string \<Rightarrow> validator_signature list \<Rightarrow> string set" where
  "signers c v msg ss = {vs_validator_id s | s. s \<in> set ss \<and> signed_by c v msg s}"

lemma signed_by_member: "signed_by c v msg s \<Longrightarrow> vs_validator_id s \<in> member_ids v"
  by (auto simp: signed_by_def member_ids_def find_Some_iff split: option.splits)
     (metis image_eqI nth_mem)

lemma signers_members: "signers c v msg ss \<subseteq> member_ids v"
  using signed_by_member by (auto simp: signers_def)

lemma signers_finite [simp]: "finite (signers c v msg ss)"
proof -
  have "signers c v msg ss \<subseteq> vs_validator_id ` set ss" by (auto simp: signers_def)
  then show ?thesis by (rule finite_subset) simp
qed

lemma count_good_le: "count_good c v msg seen ss \<le> card (signers c v msg ss - seen)"
proof (induction ss arbitrary: seen)
  case (Cons s ss)
  have mono: "signers c v msg ss \<subseteq> signers c v msg (s # ss)" by (auto simp: signers_def)
  show ?case
  proof (cases "vs_validator_id s \<in> seen")
    case True
    have "card (signers c v msg ss - seen) \<le> card (signers c v msg (s # ss) - seen)"
      using mono by (intro card_mono) auto
    with True Cons[of seen] show ?thesis by simp
  next
    case False
    let ?i = "vs_validator_id s"
    have IH: "count_good c v msg (insert ?i seen) ss \<le> card (signers c v msg ss - insert ?i seen)"
      by (rule Cons)
    show ?thesis
    proof (cases "signed_by c v msg s")
      case True
      then have "insert ?i (signers c v msg ss - insert ?i seen) \<subseteq> signers c v msg (s # ss) - seen"
        using False mono by (auto simp: signers_def)
      then have "card (insert ?i (signers c v msg ss - insert ?i seen)) \<le> card (signers c v msg (s # ss) - seen)"
        by (intro card_mono) auto
      with True False IH show ?thesis by simp
    next
      case unsigned: False
      have "card (signers c v msg ss - insert ?i seen) \<le> card (signers c v msg (s # ss) - seen)"
        using mono by (intro card_mono) auto
      with False unsigned IH show ?thesis by simp
    qed
  qed
qed simp

text \<open>Two thirds and two thirds overlap.\<close>

lemma quorum_overlap:
  assumes v: "validate_validator_set v = Inr ()"
    and "A \<subseteq> member_ids v" "set_threshold v \<le> card A"
    and "B \<subseteq> member_ids v" "set_threshold v \<le> card B"
  shows "length (set_members v) < 3 * card (A \<inter> B)"
proof -
  let ?n = "length (set_members v)"
  have fin: "finite (member_ids v)" by (simp add: member_ids_def)
  then have "finite A" "finite B" using assms(2,4) finite_subset by blast+
  then have "card A + card B = card (A \<union> B) + card (A \<inter> B)" by (rule card_Un_Int)
  moreover have "card (A \<union> B) \<le> ?n"
    using assms(2,4) card_mono[OF fin, of "A \<union> B"] member_ids_card[OF v] by simp
  ultimately show ?thesis using assms(3,5) v by (auto simp: validate_validator_set_ok)
qed

lemma check_claims_once_ok:
  "check_claims_once seen ts = Inr () \<longleftrightarrow> distinct (map claim_key ts) \<and> claim_key ` set ts \<inter> seen = {}"
  by (induction seen ts rule: check_claims_once.induct) auto

lemma verify_certificate_ok:
  assumes "verify_certificate c cert v = Inr ()"
  shows "qc_membership_hash cert = membership_hash c v"
    and "en_transactions (qc_entry cert) \<noteq> []"
    and "distinct (map claim_key (en_transactions (qc_entry cert)))"
    and "en_transactions_hash (qc_entry cert) = transactions_hash c (en_transactions (qc_entry cert))"
    and "en_entry_hash (qc_entry cert) = entry_hash c (en_sequence (qc_entry cert))
           (en_previous_hash (qc_entry cert)) (transactions_hash c (en_transactions (qc_entry cert)))"
    and "set_threshold v \<le> card (signers c v (ledger_entry_signing_message (membership_hash c v)
           (en_entry_hash (qc_entry cert))) (qc_signatures cert))"
proof -
  show "qc_membership_hash cert = membership_hash c v"
    and "en_transactions (qc_entry cert) \<noteq> []"
    and "distinct (map claim_key (en_transactions (qc_entry cert)))"
    and "en_transactions_hash (qc_entry cert) = transactions_hash c (en_transactions (qc_entry cert))"
    and "en_entry_hash (qc_entry cert) = entry_hash c (en_sequence (qc_entry cert))
           (en_previous_hash (qc_entry cert)) (transactions_hash c (en_transactions (qc_entry cert)))"
    using assms by (auto simp: verify_certificate_def Let_def check_claims_once_ok)
  have "set_threshold v \<le> count_good c v (ledger_entry_signing_message (membership_hash c v)
           (en_entry_hash (qc_entry cert))) {} (qc_signatures cert)"
    using assms by (auto simp: verify_certificate_def Let_def)
  then show "set_threshold v \<le> card (signers c v (ledger_entry_signing_message (membership_hash c v)
           (en_entry_hash (qc_entry cert))) (qc_signatures cert))"
    using count_good_le[of c v _ "{}"] by (metis Diff_empty le_trans)
qed

subsection \<open>Membership changes\<close>

lemma membership_result_ok:
  assumes "membership_result v act m t = Inr v'"
  shows "validate_validator_set v' = Inr ()" and "set_threshold v' = t"
    and "set_community_issuance_limit_mcu v' = set_community_issuance_limit_mcu v"
  using assms by (auto simp: membership_result_def Let_def split: membership_action.splits option.splits if_splits)

lemma remove_first_snoc:
  "\<not> list_ex P xs \<Longrightarrow> P x \<Longrightarrow> remove_first P (xs @ [x]) = xs"
  by (induction xs) auto

lemma find_snoc: "\<not> list_ex P xs \<Longrightarrow> P x \<Longrightarrow> find P (xs @ [x]) = Some x"
  by (induction xs) auto

lemma membership_join_leave:
  assumes "membership_result v Join m t = Inr v'" and "validate_validator_set v = Inr ()"
  shows "membership_result v' Leave m (set_threshold v) = Inr v"
proof -
  from assms(1) have no: "\<not> list_ex (\<lambda>x. vm_validator_id x = vm_validator_id m) (set_members v)"
    and v': "v' = v\<lparr> set_members := set_members v @ [m], set_threshold := t \<rparr>"
    by (auto simp: membership_result_def Let_def split: if_splits)
  have "v'\<lparr> set_members := set_members v, set_threshold := set_threshold v \<rparr> = v"
    by (cases v) (simp add: v')
  with assms(2) no show ?thesis
    by (simp add: membership_result_def Let_def v' remove_first_snoc find_snoc)
qed

subsection \<open>Claim keys\<close>

lemma show_nat_sep: "CHR '':'' \<notin> set (show_nat n)"
  by (rule show_nat_no_colon)

lemma batch_key_inj:
  assumes "j @ '':'' @ show_nat a @ '':'' @ show_nat b = j' @ '':'' @ show_nat a' @ '':'' @ show_nat b'"
  shows "j = j' \<and> a = a' \<and> b = b'"
proof -
  have "(j @ '':'' @ show_nat a) @ CHR '':'' # show_nat b = (j' @ '':'' @ show_nat a') @ CHR '':'' # show_nat b'"
    using assms by simp
  from append_sep_inj_right[OF this show_nat_sep show_nat_sep]
  have 1: "j @ CHR '':'' # show_nat a = j' @ CHR '':'' # show_nat a'" and b: "b = b'" by auto
  from append_sep_inj_right[OF 1 show_nat_sep show_nat_sep] b show ?thesis by auto
qed

lemma inference_claim_key_inj [simp]:
  "inference_claim_key j a b = inference_claim_key j' a' b' \<longleftrightarrow> j = j' \<and> a = a' \<and> b = b'"
  using batch_key_inj[of j a b j' a' b'] by (auto simp: inference_claim_key_def)

lemma inference_payout_key_inj [simp]:
  "inference_payout_key j a b = inference_payout_key j' a' b' \<longleftrightarrow> j = j' \<and> a = a' \<and> b = b'"
  using batch_key_inj[of j a b j' a' b'] by (auto simp: inference_payout_key_def)

lemma claim_key_families [simp]:
  "inference_claim_key j a b \<noteq> inference_payout_key j' a' b'"
  "inference_payout_key j a b \<noteq> inference_claim_key j' a' b'"
  "''reserve:'' @ x \<noteq> inference_claim_key j a b" "inference_claim_key j a b \<noteq> ''reserve:'' @ x"
  "''reward:'' @ x \<noteq> inference_claim_key j a b" "inference_claim_key j a b \<noteq> ''reward:'' @ x"
  "''membership:'' @ x \<noteq> inference_claim_key j a b" "inference_claim_key j a b \<noteq> ''membership:'' @ x"
  "''reserve:'' @ x \<noteq> inference_payout_key j a b" "inference_payout_key j a b \<noteq> ''reserve:'' @ x"
  "''reward:'' @ x \<noteq> inference_payout_key j a b" "inference_payout_key j a b \<noteq> ''reward:'' @ x"
  "''membership:'' @ x \<noteq> inference_payout_key j a b" "inference_payout_key j a b \<noteq> ''membership:'' @ x"
  by (simp_all add: inference_claim_key_def inference_payout_key_def)

end
