(* ===== verification/Store.thy ===== *)
theory Store
  imports Validate
begin

text \<open>
  The ledger store (\<open>crates/hocmesh-ledger/src/store.rs\<close>): the tables a validator keeps, appending a
  certified entry, the ballots it votes with, the derived indexes, account history, the state digest,
  checkpoints, snapshots, rewinding and the audit that replays the chain.

  A table is a finite map from its primary key, the certificate table a list in key order, the
  activity table a list of rows.  A database transaction that fails leaves the tables as they were:
  an operation returns either an error or the new tables.  What SQLite itself can refuse (I/O, a
  row that does not parse, an integer overflow inside its \<open>SUM\<close>) is not modelled; the constraints
  the schema declares are.
\<close>

section \<open>Definitions\<close>

subsection \<open>State and digest\<close>

type_synonym reservation_record = "work_spec \<times> nat \<times> bool \<times> string option \<times> int"
type_synonym inference_record = "inference_billing \<times> priced_batch list \<times> string \<times> int"

record ledger_state =
  ls_balances :: "(string, int) fmap"
  ls_claims :: "string fset"
  ls_reservations :: "(string, reservation_record) fmap"
  ls_inference :: "(string, inference_record) fmap"
  ls_activity :: "(string, int \<times> int) fmap"

definition default_state :: ledger_state where
  "default_state =
     \<lparr> ls_balances = fmempty, ls_claims = {||}, ls_reservations = fmempty, ls_inference = fmempty,
       ls_activity = fmempty \<rparr>"

text \<open>The entries of an ordered map, in key order.\<close>

definition fm_assoc :: "('k :: linorder, 'v) fmap \<Rightarrow> ('k \<times> 'v) list" where
  "fm_assoc m = map (\<lambda>k. (k, the (fmlookup m k))) (sorted_list_of_fset (fmdom m))"

definition fm_get :: "'v \<Rightarrow> ('k, 'v) fmap \<Rightarrow> 'k \<Rightarrow> 'v" where
  "fm_get d m k = (case fmlookup m k of None \<Rightarrow> d | Some v \<Rightarrow> v)"

fun reservation_json :: "reservation_record \<Rightarrow> json" where
  "reservation_json (work, shards, system, requester, reserved_at) =
     JArr [work_spec_json work, jnat shards, JBool system, jopt JStr requester, JNum reserved_at]"

fun inference_json :: "inference_record \<Rightarrow> json" where
  "inference_json (billing, batches, requester, reserved_at) =
     JArr [inference_billing_json billing, JArr (map priced_batch_json batches), JStr requester,
           JNum reserved_at]"

definition state_json :: "crypto \<Rightarrow> ledger_state \<Rightarrow> json" where
  "state_json c s =
     JArr [JStr ''hocmesh-state-v2'',
           JArr (map (\<lambda>(a, v). JArr [JStr a, JNum v])
                     (filter (\<lambda>(_, v). v \<noteq> 0) (fm_assoc (ls_balances s)))),
           JArr (map JStr (sorted_list_of_fset (ls_claims s))),
           JArr (map (\<lambda>(k, v). JArr [JStr k, JStr (json_encode c (reservation_json v))])
                     (fm_assoc (ls_reservations s))),
           JArr (map (\<lambda>(k, v). JArr [JStr k, JStr (json_encode c (inference_json v))])
                     (fm_assoc (ls_inference s))),
           JArr (map (\<lambda>(a, e, sp). JArr [JStr a, JArr [JNum e, JNum sp]])
                     (filter (\<lambda>(_, e, sp). e \<noteq> 0 \<or> sp \<noteq> 0) (fm_assoc (ls_activity s))))]"

definition digest :: "crypto \<Rightarrow> ledger_state \<Rightarrow> string" where
  "digest c s = hash_json c (state_json c s)"

record ledger_snapshot =
  sn_certificate :: quorum_certificate
  sn_checkpoint :: ledger_checkpoint
  sn_state :: ledger_state

subsection \<open>Errors\<close>

datatype audit_error =
    CheckpointMismatch nat | PrunedBelow nat | BrokenChain nat | DuplicateClaim string
  | DuplicateReservation string | MissingReservation string | NeverCertified | BoundsChanged
  | NotAssigned | RequesterReward | PriceDiffers | AfterWindow | InsideWindow | ForeignRequester
  | FundingDiffers | ShardOutside | WorkDiffers
  | AuditOverflow | NegativeNonIssuance string | StateDiffers

datatype store_error =
    Invalid ledger_error | Audit audit_error | SequenceRange | DoesNotExtendHead | ClaimSettled string
  | BalanceOverflow | NegativeUserBalance | NegativeEscrowBalance | ConstraintViolated
  | PromisedTo ballot | MovedOnTo ballot | CommittedDifferently
  | NoCheckpoint | CertificateNotHeld nat | HoldsChain nat | SnapshotEntryDiffers | SnapshotStateDiffers

definition sqlite_sequence :: "nat \<Rightarrow> store_error + nat" where
  "sqlite_sequence n = (if int n \<le> i64_max then Inr n else Inl SequenceRange)"

definition snapshot_verify :: "crypto \<Rightarrow> ledger_snapshot \<Rightarrow> validator_set \<Rightarrow> store_error + unit" where
  "snapshot_verify c sn vset =
     qbind (map_err Invalid (verify_certificate c (sn_certificate sn) vset)) (\<lambda>_.
     qbind (map_err Invalid (verify_checkpoint c (sn_checkpoint sn) vset)) (\<lambda>_.
     let entry = qc_entry (sn_certificate sn); head = cp_head (sn_checkpoint sn) in
     if en_sequence entry \<noteq> lh_sequence head \<or> en_entry_hash entry \<noteq> lh_entry_hash head
     then Inl SnapshotEntryDiffers
     else if digest c (sn_state sn) \<noteq> cp_state_hash (sn_checkpoint sn) then Inl SnapshotStateDiffers
     else Inr ()))"

subsection \<open>Tables\<close>

record activity_row =
  ac_account_id :: string
  ac_sequence :: nat
  ac_posting_index :: nat
  ac_transaction_id :: string
  ac_delta_mcu :: int
  ac_created_at :: int

record reward_row =
  rw_sequence :: nat
  rw_job_id :: string
  rw_provider_node_id :: string
  rw_reward_mcu :: int
  rw_system_funded :: bool

record store =
  db_certificates :: "quorum_certificate list"
  db_balances :: "(string, int) fmap"
  db_claims :: "(string, nat) fmap"
  db_activity_baseline :: "(string, int \<times> int) fmap"
  db_checkpoints :: "(nat, ledger_checkpoint) fmap"
  db_validator_sets :: "(nat, validator_set) fmap"
  db_votes :: "(nat, string) fmap"
  db_ballots :: "(nat, ballot \<times> accepted_proposal option) fmap"
  db_account_activity :: "activity_row list"
  db_job_reservations :: "(string, nat \<times> reservation_record) fmap"
  db_inference_reservations :: "(string, nat \<times> inference_record) fmap"
  db_assignment_rewards :: "(string, reward_row) fmap"

definition empty_store :: store where
  "empty_store =
     \<lparr> db_certificates = [], db_balances = fmempty, db_claims = fmempty,
       db_activity_baseline = fmempty, db_checkpoints = fmempty, db_validator_sets = fmempty,
       db_votes = fmempty, db_ballots = fmempty, db_account_activity = [],
       db_job_reservations = fmempty, db_inference_reservations = fmempty,
       db_assignment_rewards = fmempty \<rparr>"

definition cert_seq :: "quorum_certificate \<Rightarrow> nat" where
  "cert_seq cert = en_sequence (qc_entry cert)"

definition cert_hash :: "quorum_certificate \<Rightarrow> string" where
  "cert_hash cert = en_entry_hash (qc_entry cert)"

definition cert_txs :: "quorum_certificate \<Rightarrow> ledger_transaction list" where
  "cert_txs cert = en_transactions (qc_entry cert)"

text \<open>\<open>INSERT INTO certificates\<close>: the sequence is the primary key, the entry hash is unique.\<close>

definition insert_certificate ::
  "quorum_certificate \<Rightarrow> quorum_certificate list \<Rightarrow> store_error + quorum_certificate list" where
  "insert_certificate cert certs =
     (if list_ex (\<lambda>x. cert_seq x = cert_seq cert \<or> cert_hash x = cert_hash cert) certs
      then Inl ConstraintViolated else Inr (insort_key cert_seq cert certs))"

definition GENESIS :: string where
  "GENESIS = ''GENESIS''"

definition store_head :: "crypto \<Rightarrow> store \<Rightarrow> validator_set \<Rightarrow> ledger_head" where
  "store_head c db vset =
     (let (sequence, hash) =
        (if db_certificates db = [] then (0, GENESIS)
         else (cert_seq (last (db_certificates db)), cert_hash (last (db_certificates db))))
      in \<lparr> lh_sequence = sequence, lh_entry_hash = hash, lh_membership_hash = membership_hash c vset \<rparr>)"

subsection \<open>Ballots\<close>

definition promise ::
  "store \<Rightarrow> nat \<Rightarrow> ballot \<Rightarrow> store_error + store \<times> accepted_proposal option" where
  "promise db sequence ballot =
     qbind (sqlite_sequence sequence) (\<lambda>_.
     case fmlookup (db_ballots db) sequence of
       None \<Rightarrow> Inr (db\<lparr> db_ballots := fmupd sequence (ballot, None) (db_ballots db) \<rparr>, None)
     | Some (promised, accepted) \<Rightarrow>
         if outranks promised ballot then Inl (PromisedTo promised)
         else Inr (db\<lparr> db_ballots := fmupd sequence (ballot, accepted) (db_ballots db) \<rparr>, accepted))"

definition promised_ballot :: "store \<Rightarrow> nat \<Rightarrow> store_error + ballot option" where
  "promised_ballot db sequence =
     qbind (sqlite_sequence sequence) (\<lambda>_. Inr (map_option fst (fmlookup (db_ballots db) sequence)))"

definition accept_ballot ::
  "store \<Rightarrow> nat \<Rightarrow> ballot \<Rightarrow> string \<Rightarrow> ledger_transaction list \<Rightarrow> store_error + store" where
  "accept_ballot db sequence ballot ehash txs =
     qbind (sqlite_sequence sequence) (\<lambda>_.
     qbind (case fmlookup (db_ballots db) sequence of
              Some (promised, _) \<Rightarrow> if outranks promised ballot then Inl (MovedOnTo promised) else Inr ()
            | None \<Rightarrow> Inr ()) (\<lambda>_.
     if (case fmlookup (db_votes db) sequence of Some h \<Rightarrow> h \<noteq> ehash | None \<Rightarrow> False)
     then Inl CommittedDifferently
     else Inr (db\<lparr> db_ballots := fmupd sequence
            (ballot, Some \<lparr> acp_ballot = ballot, acp_entry_hash = ehash, acp_transactions = txs \<rparr>)
            (db_ballots db) \<rparr>)))"

subsection \<open>Lookups\<close>

definition claim_detail :: "store \<Rightarrow> string \<Rightarrow> (nat \<times> string) option" where
  "claim_detail db key =
     (case fmlookup (db_claims db) key of
        None \<Rightarrow> None
      | Some sequence \<Rightarrow>
          map_option (\<lambda>cert. (cert_seq cert, cert_hash cert))
            (find (\<lambda>cert. cert_seq cert = sequence) (db_certificates db)))"

definition certificate_at :: "store \<Rightarrow> nat \<Rightarrow> quorum_certificate option" where
  "certificate_at db sequence = find (\<lambda>cert. cert_seq cert = sequence) (db_certificates db)"

definition has_claim :: "store \<Rightarrow> string \<Rightarrow> bool" where
  "has_claim db key \<longleftrightarrow> fmlookup (db_claims db) key \<noteq> None"

definition store_inference_reservation :: "store \<Rightarrow> string \<Rightarrow> inference_reservation option" where
  "store_inference_reservation db job_id =
     (case fmlookup (db_inference_reservations db) job_id of
        None \<Rightarrow> None
      | Some (_, billing, batches, requester, reserved_at) \<Rightarrow>
          Some \<lparr> rs_job_id = job_id, rs_billing = billing, rs_batches = batches,
                 rs_requester = requester, rs_reserved_at = reserved_at \<rparr>)"

definition store_reservation :: "store \<Rightarrow> string \<Rightarrow> reservation_record option" where
  "store_reservation db job_id = map_option snd (fmlookup (db_job_reservations db) job_id)"

definition balance :: "store \<Rightarrow> string \<Rightarrow> int" where
  "balance db a = fm_get 0 (db_balances db) a"

definition earned_sum :: "string \<Rightarrow> activity_row list \<Rightarrow> int" where
  "earned_sum a rows =
     sum_list (map (\<lambda>r. if ac_delta_mcu r > 0 then ac_delta_mcu r else 0)
                   (filter (\<lambda>r. ac_account_id r = a) rows))"

definition spent_sum :: "string \<Rightarrow> activity_row list \<Rightarrow> int" where
  "spent_sum a rows =
     sum_list (map (\<lambda>r. if ac_delta_mcu r < 0 then - ac_delta_mcu r else 0)
                   (filter (\<lambda>r. ac_account_id r = a) rows))"

definition activity :: "store \<Rightarrow> string \<Rightarrow> int \<times> int" where
  "activity db a =
     (let (base_e, base_s) = fm_get (0, 0) (db_activity_baseline db) a
      in (wrap_i64 (earned_sum a (db_account_activity db) + base_e),
          wrap_i64 (spent_sum a (db_account_activity db) + base_s)))"

definition set_at :: "store \<Rightarrow> nat \<Rightarrow> validator_set option" where
  "set_at db sequence =
     (case filter (\<lambda>k. k \<le> sequence) (sorted_list_of_fset (fmdom (db_validator_sets db))) of
        [] \<Rightarrow> None
      | ks \<Rightarrow> fmlookup (db_validator_sets db) (last ks))"

definition current_set :: "store \<Rightarrow> validator_set option" where
  "current_set db =
     (case sorted_list_of_fset (fmdom (db_validator_sets db)) of
        [] \<Rightarrow> None
      | ks \<Rightarrow> fmlookup (db_validator_sets db) (last ks))"

text \<open>\<open>None\<close> stands for the limit \<open>u64::MAX\<close>.\<close>

definition certificates_from :: "store \<Rightarrow> nat \<Rightarrow> nat option \<Rightarrow> quorum_certificate list" where
  "certificates_from db from limit =
     (let rows = filter (\<lambda>cert. from \<le> cert_seq cert) (db_certificates db)
      in case limit of None \<Rightarrow> rows | Some n \<Rightarrow> take n rows)"

definition latest_checkpoint :: "store \<Rightarrow> ledger_checkpoint option" where
  "latest_checkpoint db =
     (case sorted_list_of_fset (fmdom (db_checkpoints db)) of
        [] \<Rightarrow> None
      | ks \<Rightarrow> fmlookup (db_checkpoints db) (last ks))"

subsection \<open>Derived indexes\<close>

text \<open>\<open>INSERT OR REPLACE\<close> on the primary key \<open>(account_id, sequence, posting_index)\<close>.\<close>

definition upsert_activity :: "activity_row \<Rightarrow> activity_row list \<Rightarrow> activity_row list" where
  "upsert_activity r rows =
     filter (\<lambda>x. \<not> (ac_account_id x = ac_account_id r \<and> ac_sequence x = ac_sequence r
                     \<and> ac_posting_index x = ac_posting_index r)) rows @ [r]"

definition certificate_rows :: "quorum_certificate \<Rightarrow> activity_row list" where
  "certificate_rows cert =
     map (\<lambda>(i, t, p). \<lparr> ac_account_id = p_account_id p, ac_sequence = cert_seq cert,
                         ac_posting_index = i, ac_transaction_id = tx_transaction_id t,
                         ac_delta_mcu = p_delta_mcu p, ac_created_at = tx_created_at t \<rparr>)
         (enumerate 0 (concat (map (\<lambda>t. map (\<lambda>p. (t, p)) (tx_postings t)) (cert_txs cert))))"

definition index_transaction :: "nat \<Rightarrow> ledger_transaction \<Rightarrow> store \<Rightarrow> store" where
  "index_transaction sequence t db =
     (case tx_evidence t of
        EvJobReserve e \<Rightarrow>
          db\<lparr> db_job_reservations := fmupd (jr_job_id e)
                (sequence, jr_work e, jr_shards e, False, Some (ap_node_id (jr_requester_auth e)), tx_created_at t)
                (db_job_reservations db) \<rparr>
      | EvCommunityReserve job_id work shards _ \<Rightarrow>
          db\<lparr> db_job_reservations := fmupd job_id (sequence, work, shards, True, None, tx_created_at t)
                (db_job_reservations db) \<rparr>
      | EvInferenceReserve e \<Rightarrow>
          db\<lparr> db_inference_reservations := fmupd (ir_job_id e)
                (sequence, ir_billing e, ir_batches e, ap_node_id (ir_requester_auth e), tx_created_at t)
                (db_inference_reservations db) \<rparr>
      | EvInferenceReward e \<Rightarrow>
          db\<lparr> db_assignment_rewards := fmupd (iw_assignment_id e)
                \<lparr> rw_sequence = sequence, rw_job_id = iw_job_id e,
                  rw_provider_node_id = ap_node_id (iw_provider_auth e),
                  rw_reward_mcu = iw_reward_mcu e, rw_system_funded = False \<rparr>
                (db_assignment_rewards db) \<rparr>
      | EvProviderReward e \<Rightarrow>
          db\<lparr> db_assignment_rewards := fmupd (pr_assignment_id e)
                \<lparr> rw_sequence = sequence, rw_job_id = pr_job_id e,
                  rw_provider_node_id = ap_node_id (pr_provider_auth e),
                  rw_reward_mcu = pr_reward_mcu e, rw_system_funded = pr_system_funded e \<rparr>
                (db_assignment_rewards db) \<rparr>
      | _ \<Rightarrow> db)"

definition index_certificate :: "quorum_certificate \<Rightarrow> store \<Rightarrow> store" where
  "index_certificate cert db =
     fold (index_transaction (cert_seq cert)) (cert_txs cert)
       (db\<lparr> db_account_activity := fold upsert_activity (certificate_rows cert) (db_account_activity db) \<rparr>)"

definition rebuild_indexes :: "store \<Rightarrow> store" where
  "rebuild_indexes db =
     (let floor = (case latest_checkpoint db of None \<Rightarrow> 0 | Some cp \<Rightarrow> lh_sequence (cp_head cp));
          certs = certificates_from db (floor + 1) None;
          cleared = db\<lparr>
            db_account_activity := filter (\<lambda>r. \<not> ac_sequence r > floor) (db_account_activity db),
            db_job_reservations := fmfilter (\<lambda>k. \<not> fst (the (fmlookup (db_job_reservations db) k)) > floor)
                                            (db_job_reservations db),
            db_inference_reservations :=
              fmfilter (\<lambda>k. \<not> fst (the (fmlookup (db_inference_reservations db) k)) > floor)
                       (db_inference_reservations db),
            db_assignment_rewards :=
              fmfilter (\<lambda>k. \<not> rw_sequence (the (fmlookup (db_assignment_rewards db) k)) > floor)
                       (db_assignment_rewards db) \<rparr>
      in fold index_certificate certs cleared)"

subsection \<open>Appending a certified entry\<close>

definition apply_posting :: "posting \<Rightarrow> (string, int) fmap \<Rightarrow> store_error + (string, int) fmap" where
  "apply_posting p balances =
     (case checked_add_i64 (fm_get 0 balances (p_account_id p)) (p_delta_mcu p) of
        None \<Rightarrow> Inl BalanceOverflow
      | Some next \<Rightarrow>
          let escrow = take 15 (p_account_id p) = ''hocmesh:escrow:'' in
          if next < 0 \<and> p_account_id p \<noteq> COMMUNITY_ISSUANCE_ACCOUNT \<and> \<not> escrow
          then Inl NegativeUserBalance
          else if next < 0 \<and> escrow then Inl NegativeEscrowBalance
          else Inr (fmupd (p_account_id p) next balances))"

definition evidence_step ::
  "crypto \<Rightarrow> quorum_certificate \<Rightarrow> validator_set \<Rightarrow> ledger_transaction \<Rightarrow> validator_set option \<Rightarrow>
   store_error + validator_set option" where
  "evidence_step c cert vset t next_set =
     qbind (map_err Invalid (verify_historical_evidence c t (en_previous_hash (qc_entry cert))
              (qc_signatures cert))) (\<lambda>_.
     case tx_evidence t of
       EvMembershipChange e \<Rightarrow>
         map_err Invalid (qbind (verify_membership_change c
           (case next_set of None \<Rightarrow> vset | Some v \<Rightarrow> v) e) (\<lambda>v. Inr (Some v)))
     | _ \<Rightarrow> Inr next_set)"

fun check_unclaimed :: "store \<Rightarrow> ledger_transaction list \<Rightarrow> store_error + unit" where
  "check_unclaimed db [] = Inr ()"
| "check_unclaimed db (t # ts) =
     (if has_claim db (claim_key t) then Inl (ClaimSettled (claim_key t)) else check_unclaimed db ts)"

text \<open>\<open>INSERT INTO claims\<close>: the claim key is the primary key.\<close>

definition insert_claim :: "nat \<Rightarrow> ledger_transaction \<Rightarrow> (string, nat) fmap \<Rightarrow> store_error + (string, nat) fmap" where
  "insert_claim sequence t claims =
     (if fmlookup claims (claim_key t) \<noteq> None then Inl ConstraintViolated
      else Inr (fmupd (claim_key t) sequence claims))"

text \<open>The tables after the database transaction of \<open>apply\<close>: the vote row is kept if the height already
  has one, the ballots of this and every lower height go, the indexes follow the entry, and a
  changed validator set is recorded at this height.\<close>

definition commit_tables ::
  "quorum_certificate \<Rightarrow> (string, int) fmap \<Rightarrow> quorum_certificate list \<Rightarrow> (string, nat) fmap \<Rightarrow>
   validator_set option \<Rightarrow> store \<Rightarrow> store" where
  "commit_tables cert balances certs claims next_set db =
     (let seq = cert_seq cert;
          db1 = db\<lparr>
            db_balances := balances,
            db_certificates := certs,
            db_claims := claims,
            db_votes := (if fmlookup (db_votes db) seq = None then fmupd seq (cert_hash cert) (db_votes db)
                         else db_votes db),
            db_ballots := fmfilter (\<lambda>k. \<not> k \<le> seq) (db_ballots db) \<rparr>;
          db2 = index_certificate cert db1
      in case next_set of
           None \<Rightarrow> db2
         | Some next \<Rightarrow> db2\<lparr> db_validator_sets := fmupd seq next (db_validator_sets db2) \<rparr>)"

definition store_apply :: "crypto \<Rightarrow> store \<Rightarrow> quorum_certificate \<Rightarrow> validator_set \<Rightarrow> store_error + store" where
  "store_apply c db cert vset =
     qbind (map_err Invalid (verify_certificate c cert vset)) (\<lambda>_.
     qbind (fold_result (evidence_step c cert vset) (cert_txs cert) None) (\<lambda>next_set.
     let h = store_head c db vset; seq = cert_seq cert in
     if seq \<noteq> lh_sequence h + 1 \<or> en_previous_hash (qc_entry cert) \<noteq> lh_entry_hash h
     then Inl DoesNotExtendHead
     else qbind (check_unclaimed db (cert_txs cert)) (\<lambda>_.
     qbind (fold_result apply_posting (concat (map tx_postings (cert_txs cert))) (db_balances db)) (\<lambda>balances.
     qbind (sqlite_sequence seq) (\<lambda>_.
     qbind (insert_certificate cert (db_certificates db)) (\<lambda>certs.
     qbind (fold_result (insert_claim seq) (cert_txs cert) (db_claims db)) (\<lambda>claims.
     Inr (commit_tables cert balances certs claims next_set db))))))))"

subsection \<open>Account history\<close>

definition history_row :: "activity_row \<Rightarrow> account_history_entry" where
  "history_row r =
     \<lparr> ah_sequence = ac_sequence r, ah_posting_index = as_u32 (ac_posting_index r),
       ah_transaction_id = ac_transaction_id r, ah_delta_mcu = ac_delta_mcu r,
       ah_created_at = ac_created_at r \<rparr>"

text \<open>\<open>ORDER BY sequence DESC, posting_index DESC\<close>.\<close>

definition newest_first :: "activity_row list \<Rightarrow> activity_row list" where
  "newest_first rows = rev (sort_key (\<lambda>r. (ac_sequence r, ac_posting_index r)) rows)"

definition postings_at :: "store \<Rightarrow> string \<Rightarrow> nat \<Rightarrow> nat \<Rightarrow> account_history_entry list" where
  "postings_at db account seq below =
     map history_row (newest_first (filter (\<lambda>r. ac_account_id r = account \<and> ac_sequence r = seq
                                               \<and> ac_posting_index r < below) (db_account_activity db)))"

definition has_history_below :: "store \<Rightarrow> string \<Rightarrow> nat \<Rightarrow> bool" where
  "has_history_below db account before \<longleftrightarrow>
     list_ex (\<lambda>r. ac_account_id r = account \<and> ac_sequence r < min before (nat i64_max)) (db_account_activity db)"

definition store_history :: "store \<Rightarrow> string \<Rightarrow> nat option \<Rightarrow> nat \<Rightarrow> account_history" where
  "store_history db account before limit0 =
     (let limit = max 1 (min limit0 500);
          ceiling = min (case before of None \<Rightarrow> u64_max | Some b \<Rightarrow> b) (nat i64_max);
          page = map history_row (take limit (newest_first
                   (filter (\<lambda>r. ac_account_id r = account \<and> ac_sequence r < ceiling) (db_account_activity db))));
          more = (length page = limit);
          entries =
            (if more
             then let last_row = last page in
                  if ah_sequence (hd page) = ah_sequence last_row
                  then page @ postings_at db account (ah_sequence last_row) (ah_posting_index last_row)
                  else filter (\<lambda>e. ah_sequence e \<noteq> ah_sequence last_row) page
             else page);
          next_before =
            (if entries \<noteq> [] \<and> more \<and> has_history_below db account (ah_sequence (last entries))
             then Some (ah_sequence (last entries)) else None)
      in \<lparr> hist_account_id = account, hist_entries = entries, hist_next_before = next_before \<rparr>)"

subsection \<open>State of the store\<close>

definition add_baseline :: "string \<times> int \<times> int \<Rightarrow> (string, int \<times> int) fmap \<Rightarrow> (string, int \<times> int) fmap" where
  "add_baseline entry m =
     (case entry of (a, e, s) \<Rightarrow>
        let (e0, s0) = fm_get (0, 0) m a in fmupd a (wrap_i64 (e0 + e), wrap_i64 (s0 + s)) m)"

definition store_state :: "store \<Rightarrow> ledger_state" where
  "store_state db =
     (let accounts = map ac_account_id (db_account_activity db);
          posted = fold (\<lambda>a m. fmupd a (earned_sum a (db_account_activity db),
                                        spent_sum a (db_account_activity db)) m) accounts fmempty
      in \<lparr> ls_balances = db_balances db,
           ls_claims = fmdom (db_claims db),
           ls_reservations = fmmap snd (db_job_reservations db),
           ls_inference = fmmap snd (db_inference_reservations db),
           ls_activity = fold add_baseline (fm_assoc (db_activity_baseline db)) posted \<rparr>)"

definition unpost :: "posting \<Rightarrow> ledger_state \<Rightarrow> ledger_state" where
  "unpost p s =
     (let a = p_account_id p; (e, sp) = fm_get (0, 0) (ls_activity s) a in
      s\<lparr> ls_balances := fmupd a (wrap_i64 (fm_get 0 (ls_balances s) a - p_delta_mcu p)) (ls_balances s),
         ls_activity := fmupd a (if p_delta_mcu p > 0 then (wrap_i64 (e - p_delta_mcu p), sp)
                                 else (e, wrap_i64 (sp + p_delta_mcu p))) (ls_activity s) \<rparr>)"

definition unapply :: "ledger_transaction \<Rightarrow> ledger_state \<Rightarrow> ledger_state" where
  "unapply t s = fold unpost (tx_postings t) (s\<lparr> ls_claims := ls_claims s |-| {|claim_key t|} \<rparr>)"

definition rewind_to :: "store \<Rightarrow> nat \<Rightarrow> ledger_state" where
  "rewind_to db sequence =
     (let s = fold unapply (concat (map cert_txs (certificates_from db (sequence + 1) None))) (store_state db)
      in s\<lparr> ls_reservations := fmfilter (\<lambda>j. case fmlookup (db_job_reservations db) j of
                 None \<Rightarrow> True | Some (at, _) \<Rightarrow> \<not> at > sequence) (ls_reservations s),
            ls_inference := fmfilter (\<lambda>j. case fmlookup (db_inference_reservations db) j of
                 None \<Rightarrow> True | Some (at, _) \<Rightarrow> \<not> at > sequence) (ls_inference s) \<rparr>)"

subsection \<open>Audit\<close>

definition inference_batch_price :: "inference_billing \<Rightarrow> nat \<Rightarrow> nat \<Rightarrow> int" where
  "inference_batch_price b b_start b_end =
     inference_batch_cost_mcu (ib_prompt_bytes b) b_start b_end (ib_max_tokens b) (ib_parameter_count b)"

definition window_end :: "int \<Rightarrow> int" where
  "window_end reserved_at = wrap_i64 (reserved_at + SETTLEMENT_WINDOW_SECS)"

definition certified_batch ::
  "crypto \<Rightarrow> priced_batch list \<Rightarrow> string \<Rightarrow> string \<Rightarrow> audit_error + priced_batch" where
  "certified_batch c batches job_id aid =
     (case find (\<lambda>i. inference_assignment_id c job_id i = aid) [0..<as_u32 (length batches)] of
        None \<Rightarrow> Inl NeverCertified | Some index \<Rightarrow> Inr (batches ! index))"

text \<open>The shard a reward or a refund names, as the reservation splits it.\<close>

definition reserved_shard :: "work_spec \<Rightarrow> nat \<Rightarrow> nat \<Rightarrow> work_spec \<Rightarrow> audit_error + unit" where
  "reserved_shard root shards index work =
     (let parts = split_work root shards in
      if \<not> index < length parts then Inl ShardOutside
      else if parts ! index \<noteq> work then Inl WorkDiffers else Inr ())"

definition audit_reward ::
  "reservation_record option \<Rightarrow> ledger_transaction \<Rightarrow> provider_reward_evidence \<Rightarrow> audit_error + unit" where
  "audit_reward reserved txn e =
     (case reserved of
        None \<Rightarrow> Inl (MissingReservation (pr_job_id e))
      | Some (root, shards, system, requester, reserved_at) \<Rightarrow>
          if system \<noteq> pr_system_funded e then Inl FundingDiffers
          else if requester = Some (ap_node_id (pr_provider_auth e)) then Inl RequesterReward
          else qbind (reserved_shard root shards (pr_shard_index e) (pr_work e)) (\<lambda>_.
          if tx_created_at txn > window_end reserved_at then Inl AfterWindow else Inr ()))"

definition audit_refund ::
  "reservation_record option \<Rightarrow> ledger_transaction \<Rightarrow> job_refund_evidence \<Rightarrow> audit_error + unit" where
  "audit_refund reserved txn e =
     (case reserved of
        None \<Rightarrow> Inl (MissingReservation (rf_job_id e))
      | Some (root, shards, system, requester, reserved_at) \<Rightarrow>
          if system \<noteq> rf_system_funded e then Inl FundingDiffers
          else if requester \<noteq> map_option ap_node_id (rf_requester_auth e) then Inl ForeignRequester
          else qbind (reserved_shard root shards (rf_shard_index e) (rf_work e)) (\<lambda>_.
          if tx_created_at txn \<le> window_end reserved_at then Inl InsideWindow else Inr ()))"

definition audit_inference_reward ::
  "crypto \<Rightarrow> inference_record option \<Rightarrow> ledger_transaction \<Rightarrow> inference_reward_evidence \<Rightarrow> audit_error + unit" where
  "audit_inference_reward c reserved txn e =
     (case reserved of
        None \<Rightarrow> Inl (MissingReservation (iw_job_id e))
      | Some (billing, batches, requester, reserved_at) \<Rightarrow>
          qbind (certified_batch c batches (iw_job_id e) (iw_assignment_id e)) (\<lambda>batch.
          if pb_batch_start batch \<noteq> iw_batch_start e \<or> pb_batch_end batch \<noteq> iw_batch_end e
          then Inl BoundsChanged
          else if pb_node_id batch \<noteq> ap_node_id (iw_provider_auth e) then Inl NotAssigned
          else if requester = ap_node_id (iw_provider_auth e) then Inl RequesterReward
          else if inference_batch_price billing (iw_batch_start e) (iw_batch_end e) \<noteq> iw_reward_mcu e
          then Inl PriceDiffers
          else if tx_created_at txn > window_end reserved_at then Inl AfterWindow else Inr ()))"

definition audit_inference_receipt ::
  "inference_record option \<Rightarrow> ledger_transaction \<Rightarrow> inference_receipt_evidence \<Rightarrow> audit_error + unit" where
  "audit_inference_receipt reserved txn e =
     (case reserved of
        None \<Rightarrow> Inl (MissingReservation (rc_job_id e))
      | Some (billing, batches, requester, reserved_at) \<Rightarrow>
          if requester \<noteq> ap_node_id (rc_requester_auth e) then Inl ForeignRequester
          else if \<not> list_ex (\<lambda>b. pb_batch_start b = rc_batch_start e \<and> pb_batch_end b = rc_batch_end e) batches
          then Inl NeverCertified
          else if inference_batch_price billing (rc_batch_start e) (rc_batch_end e) \<noteq> rc_price_mcu e
          then Inl PriceDiffers
          else if tx_created_at txn > window_end reserved_at then Inl AfterWindow else Inr ())"

definition audit_inference_dispute ::
  "inference_record option \<Rightarrow> inference_dispute_evidence \<Rightarrow> audit_error + unit" where
  "audit_inference_dispute reserved e =
     (case reserved of
        None \<Rightarrow> Inl (MissingReservation (dp_job_id e))
      | Some (billing, batches, requester, reserved_at) \<Rightarrow>
          if requester \<noteq> ap_node_id (dp_requester_auth e) then Inl ForeignRequester
          else if inference_batch_price billing (dp_batch_start e) (dp_batch_end e) \<noteq> dp_price_mcu e
          then Inl PriceDiffers else Inr ())"

definition audit_inference_expiry ::
  "inference_record option \<Rightarrow> inference_expiry_evidence \<Rightarrow> audit_error + unit" where
  "audit_inference_expiry reserved e =
     (case reserved of
        None \<Rightarrow> Inl (MissingReservation (ex_job_id e))
      | Some (billing, batches, requester, reserved_at) \<Rightarrow>
          if requester \<noteq> ap_node_id (ex_requester_receipt e) then Inl ForeignRequester
          else if inference_batch_price billing (ex_batch_start e) (ex_batch_end e) \<noteq> ex_price_mcu e
          then Inl PriceDiffers else Inr ())"

definition audit_inference_refund ::
  "crypto \<Rightarrow> inference_record option \<Rightarrow> ledger_transaction \<Rightarrow> inference_refund_evidence \<Rightarrow> audit_error + unit" where
  "audit_inference_refund c reserved txn e =
     (case reserved of
        None \<Rightarrow> Inl (MissingReservation (ifd_job_id e))
      | Some (billing, batches, requester, reserved_at) \<Rightarrow>
          qbind (certified_batch c batches (ifd_job_id e) (ifd_assignment_id e)) (\<lambda>batch.
          if pb_batch_start batch \<noteq> ifd_batch_start e \<or> pb_batch_end batch \<noteq> ifd_batch_end e
          then Inl BoundsChanged
          else if requester \<noteq> ap_node_id (ifd_requester_auth e) then Inl ForeignRequester
          else if inference_batch_price billing (ifd_batch_start e) (ifd_batch_end e) \<noteq> ifd_refund_mcu e
          then Inl PriceDiffers
          else if tx_created_at txn \<le> window_end reserved_at then Inl InsideWindow else Inr ()))"

text \<open>What the replay does with the evidence of one transaction: record a reservation, check a
  settlement against the one it draws on, or change the sitting set.\<close>

definition audit_evidence ::
  "crypto \<Rightarrow> ledger_transaction \<Rightarrow> ledger_state \<times> validator_set \<Rightarrow> store_error + ledger_state \<times> validator_set" where
  "audit_evidence c txn st =
     (case st of (s, active) \<Rightarrow>
        let reserve = (\<lambda>job r.
              if fmlookup (ls_reservations s) job \<noteq> None then Inl (Audit (DuplicateReservation job))
              else Inr (s\<lparr> ls_reservations := fmupd job r (ls_reservations s) \<rparr>, active));
            keep = (\<lambda>r. qbind (map_err Audit r) (\<lambda>_. Inr (s, active)))
        in case tx_evidence txn of
             EvJobReserve e \<Rightarrow>
               reserve (jr_job_id e) (jr_work e, jr_shards e, False,
                 Some (ap_node_id (jr_requester_auth e)), tx_created_at txn)
           | EvCommunityReserve job_id work shards _ \<Rightarrow>
               reserve job_id (work, shards, True, None, tx_created_at txn)
           | EvInferenceReserve e \<Rightarrow>
               if fmlookup (ls_inference s) (ir_job_id e) \<noteq> None
               then Inl (Audit (DuplicateReservation (ir_job_id e)))
               else Inr (s\<lparr> ls_inference := fmupd (ir_job_id e)
                      (ir_billing e, ir_batches e, ap_node_id (ir_requester_auth e), tx_created_at txn)
                      (ls_inference s) \<rparr>, active)
           | EvInferenceReward e \<Rightarrow> keep (audit_inference_reward c (fmlookup (ls_inference s) (iw_job_id e)) txn e)
           | EvInferenceReceipt e \<Rightarrow> keep (audit_inference_receipt (fmlookup (ls_inference s) (rc_job_id e)) txn e)
           | EvInferenceDispute e \<Rightarrow> keep (audit_inference_dispute (fmlookup (ls_inference s) (dp_job_id e)) e)
           | EvInferenceExpiry e \<Rightarrow> keep (audit_inference_expiry (fmlookup (ls_inference s) (ex_job_id e)) e)
           | EvInferenceRefund e \<Rightarrow> keep (audit_inference_refund c (fmlookup (ls_inference s) (ifd_job_id e)) txn e)
           | EvProviderReward e \<Rightarrow> keep (audit_reward (fmlookup (ls_reservations s) (pr_job_id e)) txn e)
           | EvJobRefund e \<Rightarrow> keep (audit_refund (fmlookup (ls_reservations s) (rf_job_id e)) txn e)
           | EvMembershipChange e \<Rightarrow>
               map_err Invalid (qbind (verify_membership_change c active e) (\<lambda>v. Inr (s, v))))"

definition audit_posting :: "posting \<Rightarrow> ledger_state \<Rightarrow> store_error + ledger_state" where
  "audit_posting p s =
     (let a = p_account_id p; (e, sp) = fm_get (0, 0) (ls_activity s) a in
      case checked_add_i64 (fm_get 0 (ls_balances s) a) (p_delta_mcu p) of
        None \<Rightarrow> Inl (Audit AuditOverflow)
      | Some next \<Rightarrow>
          if next < 0 \<and> a \<noteq> COMMUNITY_ISSUANCE_ACCOUNT then Inl (Audit (NegativeNonIssuance a))
          else Inr (s\<lparr> ls_balances := fmupd a next (ls_balances s),
                       ls_activity := fmupd a (if p_delta_mcu p > 0 then (wrap_i64 (e + p_delta_mcu p), sp)
                                               else (e, wrap_i64 (sp - p_delta_mcu p))) (ls_activity s) \<rparr>))"

definition audit_transaction ::
  "crypto \<Rightarrow> quorum_certificate \<Rightarrow> ledger_transaction \<Rightarrow> ledger_state \<times> validator_set \<Rightarrow>
   store_error + ledger_state \<times> validator_set" where
  "audit_transaction c cert txn st =
     (case st of (s, active) \<Rightarrow>
        if claim_key txn |\<in>| ls_claims s then Inl (Audit (DuplicateClaim (claim_key txn)))
        else let s1 = s\<lparr> ls_claims := finsert (claim_key txn) (ls_claims s) \<rparr> in
        qbind (map_err Invalid (validate_historical_transaction c txn (en_previous_hash (qc_entry cert))
                 (qc_signatures cert) (\<lambda>a. fm_get 0 (ls_balances s1) a) active)) (\<lambda>_.
        qbind (audit_evidence c txn (s1, active)) (\<lambda>(s2, active2).
        qbind (fold_result audit_posting (tx_postings txn) s2) (\<lambda>s3. Inr (s3, active2)))))"

type_synonym audit_cursor = "nat \<times> string \<times> ledger_state \<times> validator_set"

definition audit_certificate :: "crypto \<Rightarrow> quorum_certificate \<Rightarrow> audit_cursor \<Rightarrow> store_error + audit_cursor" where
  "audit_certificate c cert cur =
     (case cur of (seq, prev, s, active) \<Rightarrow>
        qbind (map_err Invalid (verify_certificate c cert active)) (\<lambda>_.
        if cert_seq cert \<noteq> seq + 1 \<or> en_previous_hash (qc_entry cert) \<noteq> prev
        then Inl (Audit (BrokenChain (cert_seq cert)))
        else qbind (fold_result (audit_transaction c cert) (cert_txs cert) (s, active)) (\<lambda>(s', active').
             Inr (cert_seq cert, cert_hash cert, s', active'))))"

definition audit_start ::
  "crypto \<Rightarrow> store \<Rightarrow> validator_set \<Rightarrow> ledger_checkpoint option \<Rightarrow> store_error + nat \<times> string \<times> ledger_state" where
  "audit_start c db vset from =
     (case from of
        None \<Rightarrow> Inr (0, GENESIS, default_state)
      | Some cp \<Rightarrow>
          qbind (map_err Invalid (verify_checkpoint c cp vset)) (\<lambda>_.
          let s = rewind_to db (lh_sequence (cp_head cp)) in
          if digest c s \<noteq> cp_state_hash cp
          then Inl (Audit (CheckpointMismatch (lh_sequence (cp_head cp))))
          else Inr (lh_sequence (cp_head cp), lh_entry_hash (cp_head cp), s)))"

definition audit_from ::
  "crypto \<Rightarrow> store \<Rightarrow> validator_set \<Rightarrow> ledger_checkpoint option \<Rightarrow> store_error + ledger_head" where
  "audit_from c db vset from =
     qbind (audit_start c db vset from) (\<lambda>(seq, prev, s).
     let certs = certificates_from db (seq + 1) None in
     if from = None \<and> certs \<noteq> [] \<and> cert_seq (hd certs) > 1
     then Inl (Audit (PrunedBelow (cert_seq (hd certs))))
     else qbind (fold_result (audit_certificate c) certs (seq, prev, s, vset)) (\<lambda>(seq', prev', s', _).
          if digest c s' \<noteq> digest c (store_state db) then Inl (Audit StateDiffers)
          else Inr \<lparr> lh_sequence = seq', lh_entry_hash = prev', lh_membership_hash = membership_hash c vset \<rparr>))"

definition audit :: "crypto \<Rightarrow> store \<Rightarrow> validator_set \<Rightarrow> store_error + ledger_head" where
  "audit c db vset = audit_from c db vset None"

subsection \<open>Checkpoints and snapshots\<close>

definition store_checkpoint ::
  "crypto \<Rightarrow> store \<Rightarrow> ledger_checkpoint \<Rightarrow> validator_set \<Rightarrow> store_error + store" where
  "store_checkpoint c db cp vset =
     qbind (audit_from c db vset (Some cp)) (\<lambda>_.
     qbind (sqlite_sequence (lh_sequence (cp_head cp))) (\<lambda>at.
     Inr (db\<lparr> db_checkpoints := fmupd at cp (db_checkpoints db) \<rparr>)))"

definition snapshot :: "crypto \<Rightarrow> store \<Rightarrow> validator_set \<Rightarrow> store_error + ledger_snapshot" where
  "snapshot c db vset =
     (case latest_checkpoint db of
        None \<Rightarrow> Inl NoCheckpoint
      | Some cp \<Rightarrow>
          (case certificate_at db (lh_sequence (cp_head cp)) of
             None \<Rightarrow> Inl (CertificateNotHeld (lh_sequence (cp_head cp)))
           | Some cert \<Rightarrow>
               let sn = \<lparr> sn_certificate = cert, sn_checkpoint = cp,
                          sn_state = rewind_to db (lh_sequence (cp_head cp)) \<rparr>
               in qbind (snapshot_verify c sn vset) (\<lambda>_. Inr sn)))"

definition install_snapshot ::
  "crypto \<Rightarrow> store \<Rightarrow> ledger_snapshot \<Rightarrow> validator_set \<Rightarrow> store_error + store" where
  "install_snapshot c db sn vset =
     qbind (snapshot_verify c sn vset) (\<lambda>_.
     let held = store_head c db vset in
     if lh_sequence held \<noteq> 0 then Inl (HoldsChain (lh_sequence held))
     else qbind (sqlite_sequence (lh_sequence (cp_head (sn_checkpoint sn)))) (\<lambda>at.
     qbind (insert_certificate (sn_certificate sn) (db_certificates db)) (\<lambda>certs.
     let s = sn_state sn in
     Inr (db\<lparr> db_certificates := certs,
               db_balances := db_balances db ++\<^sub>f ls_balances s,
               db_claims := db_claims db ++\<^sub>f fmap_of_list (map (\<lambda>k. (k, at)) (sorted_list_of_fset (ls_claims s))),
               db_activity_baseline := db_activity_baseline db ++\<^sub>f ls_activity s,
               db_job_reservations := db_job_reservations db ++\<^sub>f fmmap (\<lambda>r. (at, r)) (ls_reservations s),
               db_inference_reservations :=
                 db_inference_reservations db ++\<^sub>f fmmap (\<lambda>r. (at, r)) (ls_inference s),
               db_checkpoints := fmupd at (sn_checkpoint sn) (db_checkpoints db) \<rparr>))))"

definition prune_below_checkpoint :: "crypto \<Rightarrow> store \<Rightarrow> validator_set \<Rightarrow> store_error + store \<times> nat" where
  "prune_below_checkpoint c db vset =
     (case latest_checkpoint db of
        None \<Rightarrow> Inl NoCheckpoint
      | Some cp \<Rightarrow>
          qbind (audit_from c db vset (Some cp)) (\<lambda>_.
          let gone = (\<lambda>cert. cert_seq cert < lh_sequence (cp_head cp)) in
          Inr (db\<lparr> db_certificates := filter (\<lambda>cert. \<not> gone cert) (db_certificates db) \<rparr>,
               length (filter gone (db_certificates db)))))"

section \<open>Lemmas\<close>

subsection \<open>Finite maps as functions\<close>

lemma fm_get_upd [simp]: "fm_get d (fmupd k v m) = (fm_get d m)(k := v)"
  by (auto simp: fm_get_def)

lemma fm_get_empty [simp]: "fm_get d fmempty = (\<lambda>_. d)"
  by (auto simp: fm_get_def)

subsection \<open>Appending postings\<close>

lemma escrow_prefix [simp]: "take 15 COMMUNITY_ISSUANCE_ACCOUNT \<noteq> ''hocmesh:escrow:''"
  by (simp add: COMMUNITY_ISSUANCE_ACCOUNT_def)

lemma apply_posting_ok:
  "apply_posting p m = Inr m' \<longleftrightarrow>
   in_i64 (fm_get 0 m (p_account_id p) + p_delta_mcu p) \<and>
   (p_account_id p \<noteq> COMMUNITY_ISSUANCE_ACCOUNT \<longrightarrow> 0 \<le> fm_get 0 m (p_account_id p) + p_delta_mcu p) \<and>
   m' = fmupd (p_account_id p) (fm_get 0 m (p_account_id p) + p_delta_mcu p) m"
  by (auto simp: apply_posting_def Let_def not_less split: option.splits if_splits)
     (auto simp: checked_add_i64_def split: if_splits)

lemma audit_posting_ok:
  "audit_posting p s = Inr s' \<Longrightarrow> apply_posting p (ls_balances s) = Inr (ls_balances s') \<and>
     ls_claims s' = ls_claims s \<and> ls_reservations s' = ls_reservations s \<and> ls_inference s' = ls_inference s"
  by (auto simp: audit_posting_def apply_posting_ok Let_def not_less split: option.splits if_splits prod.splits)

lemma apply_postings_net:
  assumes "fold_result apply_posting ps m = Inr m'"
  shows "fm_get 0 m' = (\<lambda>a. fm_get 0 m a + net ps a)"
  using assms
proof (induction ps arbitrary: m)
  case (Cons p ps)
  from Cons.prems obtain m1 where 1: "apply_posting p m = Inr m1" "fold_result apply_posting ps m1 = Inr m'"
    by auto
  from Cons.IH[OF 1(2)] 1(1) show ?case by (auto simp: apply_posting_ok)
qed simp

lemma audit_postings_ok:
  assumes "fold_result audit_posting ps s = Inr s'"
  shows "fold_result apply_posting ps (ls_balances s) = Inr (ls_balances s') \<and>
     ls_claims s' = ls_claims s \<and> ls_reservations s' = ls_reservations s \<and> ls_inference s' = ls_inference s"
  using assms
proof (induction ps arbitrary: s)
  case (Cons p ps)
  from Cons.prems obtain s1 where 1: "audit_posting p s = Inr s1" "fold_result audit_posting ps s1 = Inr s'"
    by auto
  from Cons.IH[OF 1(2)] audit_posting_ok[OF 1(1)] show ?case by auto
qed simp

text \<open>An affordable transfer is posted without overflow and without a negative balance.\<close>

lemma transfer_posts:
  assumes "sound_book limit (fm_get 0 m)" "limit \<le> i64_max" "0 < amt" "amt \<le> i64_max" "moves ps src dst amt"
    and pay: "if src = COMMUNITY_ISSUANCE_ACCOUNT then - limit \<le> fm_get 0 m src - amt else amt \<le> fm_get 0 m src"
    and ne: "src \<noteq> dst"
  shows "\<exists>m'. fold_result apply_posting ps m = Inr m'"
proof -
  let ?b = "fm_get 0 m"
  let ?b' = "\<lambda>a. ?b a + (if a = dst then amt else 0) - (if a = src then amt else 0)"
  have snd: "sound_book limit ?b'" by (rule sound_book_transfer[OF assms(1,3) pay refl])
  have r: "in_i64 (?b src - amt)" "in_i64 (?b dst + amt)"
    using sound_book_in_i64[OF snd assms(2), of src] sound_book_in_i64[OF snd assms(2), of dst] ne by auto
  have nn: "dst \<noteq> COMMUNITY_ISSUANCE_ACCOUNT \<Longrightarrow> 0 \<le> ?b dst + amt"
    "src \<noteq> COMMUNITY_ISSUANCE_ACCOUNT \<Longrightarrow> 0 \<le> ?b src - amt"
    using snd ne pay by (auto simp: sound_book_def split: if_splits)
  show ?thesis
    using moves_cases[OF assms(5,3,4)]
  proof cases
    case 1
    show ?thesis unfolding 1 using r nn ne by (simp add: apply_posting_ok)
  next
    case 2
    show ?thesis unfolding 2 using r nn ne by (simp add: apply_posting_ok)
  qed
qed

text \<open>What the live path validated, the store can post: the loop of \<open>apply\<close> never overflows and never
  finds a negative balance.\<close>

lemma run_book_posts:
  assumes "run_book (live_accept c vset) tx_postings txs (fm_get 0 m) = Some b"
    and "limit = \<bar>set_community_issuance_limit_mcu vset\<bar>" "limit \<le> i64_max" "sound_book limit (fm_get 0 m)"
  shows "\<exists>m'. fold_result apply_posting (concat (map tx_postings txs)) m = Inr m' \<and> fm_get 0 m' = b"
  using assms
proof (induction txs arbitrary: m)
  case (Cons t ts)
  from Cons.prems(1) have acc: "live_accept c vset t (fm_get 0 m)"
    and run: "run_book (live_accept c vset) tx_postings ts (fold add_posting (tx_postings t) (fm_get 0 m)) = Some b"
    by (auto split: if_splits)
  have lim: "sound_book \<bar>set_community_issuance_limit_mcu vset\<bar> (fm_get 0 m)"
    "\<bar>set_community_issuance_limit_mcu vset\<bar> \<le> i64_max" using Cons.prems(2-4) by simp_all
  note step = live.step_sound[OF acc lim]
  have "\<exists>m1. fold_result apply_posting (tx_postings t) m = Inr m1"
  proof (cases "tx_postings t = []")
    case False
    with live.accepted[OF acc] show ?thesis using transfer_posts[OF lim] by blast
  qed simp
  then obtain m1 where m1: "fold_result apply_posting (tx_postings t) m = Inr m1" by blast
  have g: "fm_get 0 m1 = (\<lambda>a. fm_get 0 m a + net (tx_postings t) a)" by (rule apply_postings_net[OF m1])
  have "\<exists>m'. fold_result apply_posting (concat (map tx_postings ts)) m1 = Inr m' \<and> fm_get 0 m' = b"
    by (rule Cons.IH) (use run step g Cons.prems(2,3) in simp_all)
  then show ?case using m1 by (simp add: fold_result_append)
qed simp

subsection \<open>What a successful \<open>apply\<close> does\<close>

lemma check_unclaimed_ok:
  "check_unclaimed db ts = Inr () \<longleftrightarrow> (\<forall>t\<in>set ts. claim_key t |\<notin>| fmdom (db_claims db))"
  by (induction ts) (auto simp: has_claim_def fmlookup_dom_iff)

lemma insert_claim_ok [simp]:
  "insert_claim n t m = Inr m' \<longleftrightarrow> fmlookup m (claim_key t) = None \<and> m' = fmupd (claim_key t) n m"
  by (auto simp: insert_claim_def)

lemma insert_claims_ok:
  assumes "fold_result (insert_claim n) ts m = Inr m'"
  shows "fmlookup m' k = (if k \<in> claim_key ` set ts then Some n else fmlookup m k)"
    and "distinct (map claim_key ts)" and "\<forall>t\<in>set ts. fmlookup m (claim_key t) = None"
proof -
  have "(\<forall>k. fmlookup m' k = (if k \<in> claim_key ` set ts then Some n else fmlookup m k)) \<and>
      distinct (map claim_key ts) \<and> (\<forall>t\<in>set ts. fmlookup m (claim_key t) = None)"
    using assms
  proof (induction ts arbitrary: m)
    case (Cons t ts)
    from Cons.prems have none: "fmlookup m (claim_key t) = None"
      and rest: "fold_result (insert_claim n) ts (fmupd (claim_key t) n m) = Inr m'" by auto
    note IH = Cons.IH[OF rest]
    then have new: "claim_key u \<noteq> claim_key t \<and> fmlookup m (claim_key u) = None" if "u \<in> set ts" for u
      using that by (auto split: if_splits)
    then show ?case using IH none by (auto simp: image_iff)
  qed simp
  then show "fmlookup m' k = (if k \<in> claim_key ` set ts then Some n else fmlookup m k)"
    and "distinct (map claim_key ts)" and "\<forall>t\<in>set ts. fmlookup m (claim_key t) = None" by blast+
qed

lemma index_transaction_frame:
  "db_certificates (index_transaction n t db) = db_certificates db"
  "db_balances (index_transaction n t db) = db_balances db"
  "db_claims (index_transaction n t db) = db_claims db"
  "db_votes (index_transaction n t db) = db_votes db"
  "db_ballots (index_transaction n t db) = db_ballots db"
  "db_validator_sets (index_transaction n t db) = db_validator_sets db"
  "db_checkpoints (index_transaction n t db) = db_checkpoints db"
  "db_activity_baseline (index_transaction n t db) = db_activity_baseline db"
  "db_account_activity (index_transaction n t db) = db_account_activity db"
  by (simp_all add: index_transaction_def split: transaction_evidence.splits)

lemma fold_index_frame:
  "(\<And>t d. g (index_transaction n t d) = g d) \<Longrightarrow> g (fold (index_transaction n) ts d) = g d"
  by (induction ts arbitrary: d) auto

lemma index_certificate_frame [simp]:
  "db_certificates (index_certificate cert db) = db_certificates db"
  "db_balances (index_certificate cert db) = db_balances db"
  "db_claims (index_certificate cert db) = db_claims db"
  "db_votes (index_certificate cert db) = db_votes db"
  "db_ballots (index_certificate cert db) = db_ballots db"
  "db_validator_sets (index_certificate cert db) = db_validator_sets db"
  "db_checkpoints (index_certificate cert db) = db_checkpoints db"
  "db_activity_baseline (index_certificate cert db) = db_activity_baseline db"
  "db_account_activity (index_certificate cert db)
     = fold upsert_activity (certificate_rows cert) (db_account_activity db)"
  unfolding index_certificate_def
  by (simp_all add: fold_index_frame[of db_certificates] fold_index_frame[of db_balances]
      fold_index_frame[of db_claims] fold_index_frame[of db_votes] fold_index_frame[of db_ballots]
      fold_index_frame[of db_validator_sets] fold_index_frame[of db_checkpoints]
      fold_index_frame[of db_activity_baseline] fold_index_frame[of db_account_activity]
      index_transaction_frame)

lemma insort_last: "\<forall>x\<in>set xs. f x < f y \<Longrightarrow> insort_key f y xs = xs @ [y]"
  by (induction xs) auto

text \<open>The certificates form a chain from genesis: heights count up by one and every entry names the
  hash of the one before it.\<close>

fun chained :: "nat \<Rightarrow> string \<Rightarrow> quorum_certificate list \<Rightarrow> bool" where
  "chained seq prev [] \<longleftrightarrow> True"
| "chained seq prev (cert # certs) \<longleftrightarrow>
     cert_seq cert = seq + 1 \<and> en_previous_hash (qc_entry cert) = prev \<and>
     chained (seq + 1) (cert_hash cert) certs"

fun chain_end :: "nat \<Rightarrow> string \<Rightarrow> quorum_certificate list \<Rightarrow> nat \<times> string" where
  "chain_end seq prev [] = (seq, prev)"
| "chain_end seq prev (cert # certs) = chain_end (cert_seq cert) (cert_hash cert) certs"

lemma chain_end_last:
  "chain_end seq prev certs = (if certs = [] then (seq, prev) else (cert_seq (last certs), cert_hash (last certs)))"
  by (induction seq prev certs rule: chain_end.induct) auto

lemma chained_append:
  "chained seq prev (xs @ ys) \<longleftrightarrow>
   chained seq prev xs \<and> (case chain_end seq prev xs of (s, h) \<Rightarrow> chained s h ys)"
  by (induction seq prev xs rule: chained.induct) auto

lemma chained_nth: "chained seq prev certs \<Longrightarrow> i < length certs \<Longrightarrow> cert_seq (certs ! i) = seq + 1 + i"
  by (induction seq prev certs arbitrary: i rule: chained.induct) (auto simp: nth_Cons split: nat.splits)

lemma commit_tables_frame [simp]:
  "db_certificates (commit_tables cert b cs cl ns db) = cs"
  "db_balances (commit_tables cert b cs cl ns db) = b"
  "db_claims (commit_tables cert b cs cl ns db) = cl"
  "db_votes (commit_tables cert b cs cl ns db) =
     (if fmlookup (db_votes db) (cert_seq cert) = None
      then fmupd (cert_seq cert) (cert_hash cert) (db_votes db) else db_votes db)"
  "db_ballots (commit_tables cert b cs cl ns db) = fmfilter (\<lambda>k. \<not> k \<le> cert_seq cert) (db_ballots db)"
  "db_account_activity (commit_tables cert b cs cl ns db)
     = fold upsert_activity (certificate_rows cert) (db_account_activity db)"
  "db_checkpoints (commit_tables cert b cs cl ns db) = db_checkpoints db"
  "db_activity_baseline (commit_tables cert b cs cl ns db) = db_activity_baseline db"
  by (simp_all add: commit_tables_def Let_def split: option.splits)

lemma store_apply_ok:
  "store_apply c db cert vset = Inr db' \<longleftrightarrow>
   (\<exists>ns bal certs claims.
      verify_certificate c cert vset = Inr () \<and>
      fold_result (evidence_step c cert vset) (cert_txs cert) None = Inr ns \<and>
      cert_seq cert = lh_sequence (store_head c db vset) + 1 \<and>
      en_previous_hash (qc_entry cert) = lh_entry_hash (store_head c db vset) \<and>
      check_unclaimed db (cert_txs cert) = Inr () \<and>
      fold_result apply_posting (concat (map tx_postings (cert_txs cert))) (db_balances db) = Inr bal \<and>
      sqlite_sequence (cert_seq cert) = Inr (cert_seq cert) \<and>
      insert_certificate cert (db_certificates db) = Inr certs \<and>
      fold_result (insert_claim (cert_seq cert)) (cert_txs cert) (db_claims db) = Inr claims \<and>
      db' = commit_tables cert bal certs claims ns db)"
  by (auto simp: store_apply_def Let_def sqlite_sequence_def split: if_splits)

subsection \<open>Reachable stores\<close>

inductive store_reach :: "crypto \<Rightarrow> store \<Rightarrow> bool" for c where
  init: "store_reach c empty_store"
| commit: "store_reach c db \<Longrightarrow> store_apply c db cert vset = Inr db' \<Longrightarrow> store_reach c db'"
| promise: "store_reach c db \<Longrightarrow> promise db n b = Inr (db', acc) \<Longrightarrow> store_reach c db'"
| accept: "store_reach c db \<Longrightarrow> accept_ballot db n b h txs = Inr db' \<Longrightarrow> store_reach c db'"
| checkpoint: "store_reach c db \<Longrightarrow> store_checkpoint c db cp vset = Inr db' \<Longrightarrow> store_reach c db'"
| reopen: "store_reach c db \<Longrightarrow> store_reach c (rebuild_indexes db)"

definition all_txs :: "store \<Rightarrow> ledger_transaction list" where
  "all_txs db = concat (map cert_txs (db_certificates db))"

definition all_postings :: "store \<Rightarrow> posting list" where
  "all_postings db = concat (map tx_postings (all_txs db))"

definition chain_inv :: "store \<Rightarrow> bool" where
  "chain_inv db \<longleftrightarrow>
     chained 0 GENESIS (db_certificates db) \<and>
     distinct (map claim_key (all_txs db)) \<and>
     (\<forall>k n. fmlookup (db_claims db) k = Some n \<longleftrightarrow>
        (\<exists>cert\<in>set (db_certificates db). cert_seq cert = n \<and> k \<in> claim_key ` set (cert_txs cert))) \<and>
     (\<forall>n h. fmlookup (db_votes db) n = Some h \<longleftrightarrow>
        (\<exists>cert\<in>set (db_certificates db). cert_seq cert = n \<and> cert_hash cert = h)) \<and>
     fm_get 0 (db_balances db) = net (all_postings db) \<and>
     (\<forall>a. a \<noteq> COMMUNITY_ISSUANCE_ACCOUNT \<longrightarrow> 0 \<le> balance db a)"

lemma apply_postings_nonneg:
  assumes "fold_result apply_posting ps m = Inr m'"
    and "\<forall>a. a \<noteq> COMMUNITY_ISSUANCE_ACCOUNT \<longrightarrow> 0 \<le> fm_get 0 m a"
  shows "\<forall>a. a \<noteq> COMMUNITY_ISSUANCE_ACCOUNT \<longrightarrow> 0 \<le> fm_get 0 m' a"
  using assms(1)
  by (rule fold_result_invariant[where I = "\<lambda>m. \<forall>a. a \<noteq> COMMUNITY_ISSUANCE_ACCOUNT \<longrightarrow> 0 \<le> fm_get 0 m a"])
     (use assms(2) in \<open>auto simp: apply_posting_ok\<close>)

lemma chained_seq_bounds:
  assumes "chained seq prev certs" "cert \<in> set certs"
  shows "seq < cert_seq cert" "cert_seq cert \<le> fst (chain_end seq prev certs)"
proof -
  obtain i where i: "i < length certs" "cert = certs ! i" using assms(2) by (auto simp: in_set_conv_nth)
  then have "certs \<noteq> []" by auto
  then have l: "fst (chain_end seq prev certs) = cert_seq (certs ! (length certs - 1))"
    by (simp add: chain_end_last last_conv_nth)
  show "seq < cert_seq cert" using chained_nth[OF assms(1) i(1)] i(2) by simp
  show "cert_seq cert \<le> fst (chain_end seq prev certs)"
    unfolding l i(2) using chained_nth[OF assms(1) i(1)] chained_nth[OF assms(1), of "length certs - 1"] i(1) by simp
qed

lemma store_head_end:
  "(lh_sequence (store_head c db vset), lh_entry_hash (store_head c db vset)) = chain_end 0 GENESIS (db_certificates db)"
  by (simp add: store_head_def chain_end_last)

lemma chain_inv_apply:
  assumes inv: "chain_inv db" and ap: "store_apply c db cert vset = Inr db'"
  shows "chain_inv db'" and "db_certificates db' = db_certificates db @ [cert]"
proof -
  let ?C = "db_certificates db"
  from ap obtain ns bal certs claims where a:
    "cert_seq cert = lh_sequence (store_head c db vset) + 1"
    "en_previous_hash (qc_entry cert) = lh_entry_hash (store_head c db vset)"
    "fold_result apply_posting (concat (map tx_postings (cert_txs cert))) (db_balances db) = Inr bal"
    "insert_certificate cert ?C = Inr certs"
    "fold_result (insert_claim (cert_seq cert)) (cert_txs cert) (db_claims db) = Inr claims"
    "db' = commit_tables cert bal certs claims ns db"
    unfolding store_apply_ok by blast
  have ch: "chained 0 GENESIS ?C" using inv by (simp add: chain_inv_def)
  have e: "chain_end 0 GENESIS ?C = (lh_sequence (store_head c db vset), lh_entry_hash (store_head c db vset))"
    by (rule store_head_end[symmetric])
  have below: "x \<in> set ?C \<Longrightarrow> cert_seq x < cert_seq cert" for x
    using chained_seq_bounds(2)[OF ch, of x] a(1) e by simp
  then have "certs = ?C @ [cert]" using a(4) by (auto simp: insert_certificate_def insort_last split: if_splits)
  then show C': "db_certificates db' = ?C @ [cert]" by (simp add: a(6))
  note ic = insert_claims_ok[OF a(5)]
  have ch': "chained 0 GENESIS (db_certificates db')" using ch a(1,2) e by (simp add: C' chained_append)
  have inv_cl: "fmlookup (db_claims db) k = Some n \<longleftrightarrow>
      (\<exists>x\<in>set ?C. cert_seq x = n \<and> k \<in> claim_key ` set (cert_txs x))" for k n
    using inv unfolding chain_inv_def by blast
  have inv_vt: "fmlookup (db_votes db) n = Some h \<longleftrightarrow> (\<exists>x\<in>set ?C. cert_seq x = n \<and> cert_hash x = h)" for n h
    using inv unfolding chain_inv_def by blast
  have old: "fmlookup (db_claims db) k \<noteq> None" if "x \<in> set ?C" "k \<in> claim_key ` set (cert_txs x)" for k x
    using that inv_cl by blast
  have dist: "distinct (map claim_key (all_txs db'))"
  proof -
    have "claim_key ` set (all_txs db) \<inter> claim_key ` set (cert_txs cert) = {}"
      using old ic(3) unfolding all_txs_def by fastforce
    moreover have "all_txs db' = all_txs db @ cert_txs cert" by (simp add: all_txs_def C')
    moreover have "distinct (map claim_key (all_txs db))" using inv unfolding chain_inv_def by blast
    ultimately show ?thesis using ic(2) by simp
  qed
  have cl: "fmlookup (db_claims db') k = Some n \<longleftrightarrow>
      (\<exists>x\<in>set (db_certificates db'). cert_seq x = n \<and> k \<in> claim_key ` set (cert_txs x))" for k n
  proof (cases "k \<in> claim_key ` set (cert_txs cert)")
    case True
    then have none: "\<not> (\<exists>x\<in>set ?C. cert_seq x = n \<and> k \<in> claim_key ` set (cert_txs x))"
      using ic(3) old by fastforce
    have "fmlookup (db_claims db') k = Some (cert_seq cert)" using True by (simp add: a(6) ic(1))
    with True none show ?thesis unfolding C' by auto
  next
    case False
    then have "fmlookup (db_claims db') k = fmlookup (db_claims db) k" by (simp add: a(6) ic(1))
    with False inv_cl show ?thesis unfolding C' by auto
  qed
  have new: "fmlookup (db_votes db) (cert_seq cert) = None"
    using inv_vt[of "cert_seq cert"] below by (metis less_irrefl not_Some_eq)
  have vt: "fmlookup (db_votes db') n = Some h \<longleftrightarrow>
      (\<exists>x\<in>set (db_certificates db'). cert_seq x = n \<and> cert_hash x = h)" for n h
  proof -
    have "db_votes db' = fmupd (cert_seq cert) (cert_hash cert) (db_votes db)" by (simp add: a(6) new)
    moreover have "\<forall>x\<in>set ?C. cert_seq x \<noteq> cert_seq cert" using below by fastforce
    ultimately show ?thesis unfolding C' using inv_vt[of n h] by (cases "n = cert_seq cert") auto
  qed
  have bl: "fm_get 0 (db_balances db') = net (all_postings db')"
  proof -
    have "fm_get 0 (db_balances db) = net (all_postings db)" using inv unfolding chain_inv_def by blast
    moreover have "all_postings db' = all_postings db @ concat (map tx_postings (cert_txs cert))"
      by (simp add: all_postings_def all_txs_def C')
    moreover have "db_balances db' = bal" by (simp add: a(6))
    ultimately show ?thesis using apply_postings_net[OF a(3)] by (simp add: fun_eq_iff)
  qed
  have "\<forall>a. a \<noteq> COMMUNITY_ISSUANCE_ACCOUNT \<longrightarrow> 0 \<le> fm_get 0 (db_balances db) a"
    using inv unfolding chain_inv_def balance_def by blast
  from apply_postings_nonneg[OF a(3) this] have "\<forall>a. a \<noteq> COMMUNITY_ISSUANCE_ACCOUNT \<longrightarrow> 0 \<le> balance db' a"
    by (simp add: a(6) balance_def)
  with ch' dist cl vt bl show "chain_inv db'" unfolding chain_inv_def by blast
qed

lemma rebuild_indexes_frame:
  "db_certificates (rebuild_indexes db) = db_certificates db"
  "db_balances (rebuild_indexes db) = db_balances db"
  "db_claims (rebuild_indexes db) = db_claims db"
  "db_votes (rebuild_indexes db) = db_votes db"
proof -
  have f: "db_certificates (fold index_certificate cs d) = db_certificates d"
    "db_balances (fold index_certificate cs d) = db_balances d"
    "db_claims (fold index_certificate cs d) = db_claims d"
    "db_votes (fold index_certificate cs d) = db_votes d" for cs d
    by (induction cs arbitrary: d) simp_all
  show "db_certificates (rebuild_indexes db) = db_certificates db"
    "db_balances (rebuild_indexes db) = db_balances db"
    "db_claims (rebuild_indexes db) = db_claims db"
    "db_votes (rebuild_indexes db) = db_votes db"
    by (simp_all add: rebuild_indexes_def Let_def f)
qed

lemma chain_inv_cong:
  assumes "db_certificates db' = db_certificates db" "db_claims db' = db_claims db"
    "db_votes db' = db_votes db" "db_balances db' = db_balances db"
  shows "chain_inv db' = chain_inv db"
  using assms by (simp add: chain_inv_def all_txs_def all_postings_def balance_def)

lemma reach_chain_inv: "store_reach c db \<Longrightarrow> chain_inv db"
proof (induction rule: store_reach.induct)
  case init
  have "net [] = (\<lambda>_. 0)" by (rule ext) simp
  then show ?case by (simp add: chain_inv_def empty_store_def all_txs_def all_postings_def balance_def)
next
  case (commit db cert vset db')
  then show ?case by (blast intro: chain_inv_apply(1))
next
  case (promise db n b db' acc)
  then have "chain_inv db' = chain_inv db"
    by (intro chain_inv_cong) (auto simp: promise_def split: option.splits if_splits)
  with promise show ?case by simp
next
  case (accept db n b h txs db')
  then have "chain_inv db' = chain_inv db"
    by (intro chain_inv_cong) (auto simp: accept_ballot_def split: option.splits if_splits)
  with accept show ?case by simp
next
  case (checkpoint db cp vset db')
  then have "chain_inv db' = chain_inv db"
    by (intro chain_inv_cong) (auto simp: store_checkpoint_def)
  with checkpoint show ?case by simp
next
  case (reopen db)
  then show ?case using chain_inv_cong[OF rebuild_indexes_frame(1,3,4,2)] by blast
qed

subsection \<open>The audit replays a sound book\<close>

definition book_of :: "ledger_state \<Rightarrow> string \<Rightarrow> int" where
  "book_of s = fm_get 0 (ls_balances s)"

lemma verify_membership_change_limit:
  "verify_membership_change c v e = Inr v' \<Longrightarrow>
   set_community_issuance_limit_mcu v' = set_community_issuance_limit_mcu v"
  by (auto simp: verify_membership_change_def apply_membership_change_def Let_def membership_result_ok(3)
      split: if_splits)

lemma audit_evidence_frame:
  assumes "audit_evidence c t (s, act) = Inr (s', act')"
  shows "ls_balances s' = ls_balances s" "ls_claims s' = ls_claims s" "ls_activity s' = ls_activity s"
    and "set_community_issuance_limit_mcu act' = set_community_issuance_limit_mcu act"
  using assms verify_membership_change_limit
  by (auto simp: audit_evidence_def Let_def split: transaction_evidence.splits if_splits)

lemma audit_transaction_ok:
  assumes "audit_transaction c cert t (s, act) = Inr (s', act')" and "tx_typed t"
  shows "history_accept c act t (book_of s)"
    and "book_of s' = (\<lambda>a. book_of s a + net (tx_postings t) a)"
    and "ls_claims s' = finsert (claim_key t) (ls_claims s)" and "claim_key t |\<notin>| ls_claims s"
    and "set_community_issuance_limit_mcu act' = set_community_issuance_limit_mcu act"
proof -
  let ?s1 = "s\<lparr> ls_claims := finsert (claim_key t) (ls_claims s) \<rparr>"
  from assms(1) obtain s2 where f: "claim_key t |\<notin>| ls_claims s"
    and v: "validate_historical_transaction c t (en_previous_hash (qc_entry cert)) (qc_signatures cert)
       (\<lambda>a. fm_get 0 (ls_balances ?s1) a) act = Inr ()"
    and e: "audit_evidence c t (?s1, act) = Inr (s2, act')"
    and p: "fold_result audit_posting (tx_postings t) s2 = Inr s'"
    by (auto simp: audit_transaction_def Let_def split: if_splits)
  note fr = audit_evidence_frame[OF e] and ps = audit_postings_ok[OF p]
  show "claim_key t |\<notin>| ls_claims s" by (rule f)
  show "history_accept c act t (book_of s)"
    using v assms(2) unfolding history_accept_def book_of_def by auto
  show "book_of s' = (\<lambda>a. book_of s a + net (tx_postings t) a)"
    using apply_postings_net[OF conjunct1[OF ps]] fr(1) by (simp add: book_of_def)
  show "ls_claims s' = finsert (claim_key t) (ls_claims s)" using ps fr(2) by simp
  show "set_community_issuance_limit_mcu act' = set_community_issuance_limit_mcu act" by (rule fr(4))
qed

text \<open>Running the audit over a list of transactions, and over a list of certificates.\<close>

lemma audit_transactions_ok:
  assumes "fold_result (audit_transaction c cert) ts (s, act) = Inr (s', act')"
    and "\<forall>t\<in>set ts. tx_typed t" "sound_book limit (book_of s)"
    and "limit = \<bar>set_community_issuance_limit_mcu act\<bar>" "limit \<le> i64_max"
  shows "sound_book limit (book_of s') \<and> book_of s' = (\<lambda>a. book_of s a + net (concat (map tx_postings ts)) a) \<and>
    fset (ls_claims s') = fset (ls_claims s) \<union> claim_key ` set ts \<and>
    distinct (map claim_key ts) \<and> claim_key ` set ts \<inter> fset (ls_claims s) = {} \<and>
    limit = \<bar>set_community_issuance_limit_mcu act'\<bar>"
  using assms
proof (induction ts arbitrary: s act)
  case (Cons t ts)
  from Cons.prems(1) obtain s1 act1 where 1: "audit_transaction c cert t (s, act) = Inr (s1, act1)"
    "fold_result (audit_transaction c cert) ts (s1, act1) = Inr (s', act')" by auto
  have typed: "tx_typed t" using Cons.prems(2) by simp
  note tx = audit_transaction_ok[OF 1(1) typed]
  have snd: "sound_book limit (book_of s1)"
    using history.step_sound(1)[OF tx(1)] Cons.prems(3-5) by (simp add: tx(2))
  have lim: "limit = \<bar>set_community_issuance_limit_mcu act1\<bar>" using Cons.prems(4) tx(5) by simp
  from Cons.IH[OF 1(2) _ snd lim Cons.prems(5)] Cons.prems(2) tx(2,3,4) show ?case
    by (auto simp: add.assoc)
qed simp

lemma audit_certificate_ok:
  "audit_certificate c cert (seq, prev, s, act) = Inr (seq', prev', s', act') \<longleftrightarrow>
   verify_certificate c cert act = Inr () \<and> cert_seq cert = seq + 1 \<and>
   en_previous_hash (qc_entry cert) = prev \<and> seq' = cert_seq cert \<and> prev' = cert_hash cert \<and>
   fold_result (audit_transaction c cert) (cert_txs cert) (s, act) = Inr (s', act')"
  by (auto simp: audit_certificate_def split: if_splits)

lemma audit_certificates_ok:
  assumes "fold_result (audit_certificate c) certs (seq, prev, s, act) = Inr (seq', prev', s', act')"
    and "\<forall>t\<in>set (concat (map cert_txs certs)). tx_typed t" "sound_book limit (book_of s)"
    and "limit = \<bar>set_community_issuance_limit_mcu act\<bar>" "limit \<le> i64_max"
  shows "chained seq prev certs \<and> (seq', prev') = chain_end seq prev certs \<and>
    sound_book limit (book_of s') \<and>
    book_of s' = (\<lambda>a. book_of s a + net (concat (map tx_postings (concat (map cert_txs certs)))) a) \<and>
    fset (ls_claims s') = fset (ls_claims s) \<union> claim_key ` set (concat (map cert_txs certs)) \<and>
    distinct (map claim_key (concat (map cert_txs certs))) \<and>
    claim_key ` set (concat (map cert_txs certs)) \<inter> fset (ls_claims s) = {}"
  using assms
proof (induction certs arbitrary: seq prev s act)
  case (Cons cert certs)
  from Cons.prems(1) obtain cur where cur: "audit_certificate c cert (seq, prev, s, act) = Inr cur"
    "fold_result (audit_certificate c) certs cur = Inr (seq', prev', s', act')" by auto
  obtain n1 h1 s1 act1 where c1: "cur = (n1, h1, s1, act1)" by (cases cur)
  from cur(1)[unfolded c1 audit_certificate_ok] have 1: "cert_seq cert = seq + 1"
    "en_previous_hash (qc_entry cert) = prev"
    "fold_result (audit_transaction c cert) (cert_txs cert) (s, act) = Inr (s1, act1)"
    and n1: "n1 = cert_seq cert" "h1 = cert_hash cert" by blast+
  note rest = cur(2)[unfolded c1 n1]
  have typed: "\<forall>t\<in>set (cert_txs cert). tx_typed t" using Cons.prems(2) by simp
  note tx = audit_transactions_ok[OF 1(3) typed Cons.prems(3,4,5)]
  have "\<forall>t\<in>set (concat (map cert_txs certs)). tx_typed t" using Cons.prems(2) by simp
  note ih = Cons.IH[OF rest this conjunct1[OF tx] _ Cons.prems(5)]
  have "limit = \<bar>set_community_issuance_limit_mcu act1\<bar>" using tx by blast
  note ih = ih[OF this]
  define rs where "rs = concat (map cert_txs certs)"
  note ih = ih[folded rs_def]
  have K: "claim_key ` set rs \<inter> claim_key ` set (cert_txs cert) = {}" "claim_key ` set rs \<inter> fset (ls_claims s) = {}"
    using ih tx by blast+
  have all: "concat (map cert_txs (cert # certs)) = cert_txs cert @ rs" by (simp add: rs_def)
  have "distinct (map claim_key (cert_txs cert @ rs))"
    using ih tx K(1) unfolding map_append distinct_append set_map by blast
  moreover have "claim_key ` set (cert_txs cert @ rs) \<inter> fset (ls_claims s) = {}"
    using tx K(2) unfolding set_append image_Un by blast
  moreover have "fset (ls_claims s') = fset (ls_claims s) \<union> claim_key ` set (cert_txs cert @ rs)"
    using ih tx unfolding set_append image_Un by blast
  moreover have "book_of s' = (\<lambda>a. book_of s a + net (concat (map tx_postings (cert_txs cert @ rs))) a)"
    using ih tx by (simp add: add.assoc)
  moreover have "chained seq prev (cert # certs)" "(seq', prev') = chain_end seq prev (cert # certs)"
    using ih 1(1,2) by simp_all
  ultimately show ?case unfolding all using ih by blast
qed simp

end
