(* ===== verification/Wire.thy ===== *)
theory Wire
  imports Store
begin

text \<open>
  The messages a ledger client and a validator exchange (\<open>hocmesh-ledger/src/types.rs\<close>) and the strings a
  validator signs when it answers a question about its ledger.
\<close>

section \<open>Errors of a validator\<close>

datatype settlement_error =
    NoCertifiedReservation | FundingMismatch | RefundsSomeoneElse | RewardsRequester | ShardOutsideReservation
  | NotReservedShard | RefundInsideWindow | RewardAfterWindow | BatchNeverCertified | BatchBounds
  | NotAssignedNode | NotBatchPrice

datatype validator_error =
    WrongHeight nat nat | AlreadySettled string | SettlementRefused settlement_error | BatchRefused ledger_error
  | StoreRefused store_error | NobodyServes nat | CatchUpStalled nat | FetchFailed | StaleCertificate

section \<open>Messages\<close>

record prepare_request =
  pq_sequence :: nat
  pq_ballot :: ballot

record prepare_vote =
  pv_promised :: bool
  pv_validator_id :: string
  pv_sequence :: nat
  pv_accepted :: "accepted_proposal option"
  pv_promised_ballot :: "ballot option"
  pv_error :: "validator_error option"

record proposal_request =
  pp_transactions :: "ledger_transaction list"
  pp_sequence :: nat
  pp_ballot :: ballot

record proposal_vote =
  vt_accepted :: bool
  vt_validator_id :: string
  vt_sequence :: nat
  vt_previous_hash :: string
  vt_entry_hash :: string
  vt_signature_b64 :: "string option"
  vt_promised_ballot :: "ballot option"
  vt_head_sequence :: "nat option"
  vt_error :: "validator_error option"

record commit_response =
  cr_committed :: bool
  cr_head :: ledger_head

record head_proof =
  hp_head :: ledger_head
  hp_validator_id :: string
  hp_signature_b64 :: string

record state_proof =
  sp_head :: ledger_head
  sp_state_hash :: string
  sp_validator_id :: string
  sp_signature_b64 :: string

record balance_proof =
  bp_account_id :: string
  bp_balance_mcu :: int
  bp_earned_mcu :: int
  bp_spent_mcu :: int
  bp_head :: ledger_head
  bp_validator_id :: string
  bp_signature_b64 :: string

record claim_proof =
  kp_claim_key :: string
  kp_sequence :: "nat option"
  kp_entry_hash :: "string option"
  kp_certificate :: "quorum_certificate option"
  kp_head :: ledger_head
  kp_validator_id :: string
  kp_signature_b64 :: string

section \<open>What a validator signs\<close>

definition head_message :: "ledger_head \<Rightarrow> string" where
  "head_message h =
     ''hocmesh-head-v1|'' @ lh_membership_hash h @ ''|'' @ show_nat (lh_sequence h) @ ''|'' @ lh_entry_hash h"

definition balance_message :: "ledger_head \<Rightarrow> string \<Rightarrow> int \<Rightarrow> int \<Rightarrow> int \<Rightarrow> string" where
  "balance_message h account b earned spent =
     ''hocmesh-balance-v1|'' @ lh_membership_hash h @ ''|'' @ account @ ''|'' @ show_int b @ ''|'' @
     show_int earned @ ''|'' @ show_int spent @ ''|'' @ show_nat (lh_sequence h) @ ''|'' @ lh_entry_hash h"

definition state_message :: "ledger_head \<Rightarrow> string \<Rightarrow> string" where
  "state_message h state_hash =
     checkpoint_signing_message (lh_membership_hash h) (lh_sequence h) (lh_entry_hash h) state_hash"

text \<open>The \<open>Debug\<close> rendering \<open>{:?}\<close> of an optional number and of an optional string.  Printable characters stand
  for themselves, quotes and backslashes are escaped, and so are the control characters of ASCII; the only
  strings rendered this way are entry hashes, which are hexadecimal.\<close>

definition debug_char :: "char \<Rightarrow> string" where
  "debug_char ch =
     (let n = of_char ch :: nat in
      if n = 34 then [CHR 0x5C, CHR 0x22]
      else if n = 92 then [CHR 0x5C, CHR 0x5C]
      else if n = 10 then CHR 0x5C # ''n'' else if n = 13 then CHR 0x5C # ''r''
      else if n = 9 then CHR 0x5C # ''t'' else if n = 0 then CHR 0x5C # ''0''
      else if n < 32 \<or> n = 127
      then CHR 0x5C # ''u{'' @ (if n < 16 then [hex_digit n] else [hex_digit (n div 16), hex_digit (n mod 16)]) @ ''}''
      else [ch])"

definition debug_option_nat :: "nat option \<Rightarrow> string" where
  "debug_option_nat x = (case x of None \<Rightarrow> ''None'' | Some n \<Rightarrow> ''Some('' @ show_nat n @ '')'')"

definition debug_option_str :: "string option \<Rightarrow> string" where
  "debug_option_str x =
     (case x of None \<Rightarrow> ''None''
      | Some s \<Rightarrow> ''Some('' @ [CHR 0x22] @ concat (map debug_char s) @ [CHR 0x22] @ '')'')"

definition claim_message :: "ledger_head \<Rightarrow> string \<Rightarrow> nat option \<Rightarrow> string option \<Rightarrow> string" where
  "claim_message h claim sequence ehash =
     ''hocmesh-claim-v1|'' @ lh_membership_hash h @ ''|'' @ claim @ ''|'' @ debug_option_nat sequence @ ''|'' @
     debug_option_str ehash @ ''|'' @ show_nat (lh_sequence h) @ ''|'' @ lh_entry_hash h"

end
