(* ===== verification/Validator.thy ===== *)
theory Validator
  imports Wire
begin

text \<open>
  The handlers of \<open>hocmesh-validator/src/main.rs\<close> as functions of the state of the application: its store, its
  identity and the set it believes in.  Handlers that write return the new state beside the answer.
  The locks of the source serialise the handlers; a poisoned lock is not modelled.
\<close>

section \<open>Definitions\<close>

text \<open>\<open>va_sign\<close> stands for the signature the identity of the validator makes.\<close>

record app =
  va_store :: store
  va_id :: string
  va_sign :: "string \<Rightarrow> string"
  va_set :: validator_set

definition app_head :: "crypto \<Rightarrow> app \<Rightarrow> ledger_head" where
  "app_head c a = store_head c (va_store a) (va_set a)"

subsection \<open>Settlements against the certified reservation\<close>

definition validate_inference_membership ::
  "crypto \<Rightarrow> store \<Rightarrow> ledger_transaction \<Rightarrow> settlement_error + unit" where
  "validate_inference_membership c db tx =
     (let check = (\<lambda>job_id aid b_start b_end amount payee is_refund.
        case store_inference_reservation db job_id of
          None \<Rightarrow> Inl NoCertifiedReservation
        | Some r \<Rightarrow>
            (case find (\<lambda>i. inference_assignment_id c job_id i = aid) [0..<as_u32 (length (rs_batches r))] of
               None \<Rightarrow> Inl BatchNeverCertified
             | Some index \<Rightarrow>
                 let batch = rs_batches r ! index;
                     deadline = window_end (rs_reserved_at r)
                 in if pb_batch_start batch \<noteq> b_start \<or> pb_batch_end batch \<noteq> b_end then Inl BatchBounds
                    else if is_refund \<and> rs_requester r \<noteq> payee then Inl RefundsSomeoneElse
                    else if \<not> is_refund \<and> pb_node_id batch \<noteq> payee then Inl NotAssignedNode
                    else if \<not> is_refund \<and> rs_requester r = payee then Inl RewardsRequester
                    else if inference_batch_price (rs_billing r) b_start b_end \<noteq> amount then Inl NotBatchPrice
                    else if is_refund \<and> tx_created_at tx \<le> deadline then Inl RefundInsideWindow
                    else if \<not> is_refund \<and> tx_created_at tx > deadline then Inl RewardAfterWindow
                    else Inr ()))
      in case tx_evidence tx of
           EvInferenceReward e \<Rightarrow>
             check (iw_job_id e) (iw_assignment_id e) (iw_batch_start e) (iw_batch_end e) (iw_reward_mcu e)
               (ap_node_id (iw_provider_auth e)) False
         | EvInferenceRefund e \<Rightarrow>
             check (ifd_job_id e) (ifd_assignment_id e) (ifd_batch_start e) (ifd_batch_end e) (ifd_refund_mcu e)
               (ap_node_id (ifd_requester_auth e)) True
         | _ \<Rightarrow> Inr ())"

definition validate_settlement_membership ::
  "crypto \<Rightarrow> store \<Rightarrow> ledger_transaction \<Rightarrow> settlement_error + unit" where
  "validate_settlement_membership c db tx =
     (let check = (\<lambda>job_id shard_index work system_funded payee is_refund.
        case store_reservation db job_id of
          None \<Rightarrow> Inl NoCertifiedReservation
        | Some (root_work, shards, reserved_funding, requester, reserved_at) \<Rightarrow>
            let parts = split_work root_work shards; deadline = window_end reserved_at
            in if reserved_funding \<noteq> system_funded then Inl FundingMismatch
               else if is_refund \<and> requester \<noteq> payee then Inl RefundsSomeoneElse
               else if \<not> is_refund \<and> requester = payee then Inl RewardsRequester
               else if \<not> shard_index < length parts then Inl ShardOutsideReservation
               else if parts ! shard_index \<noteq> work then Inl NotReservedShard
               else if is_refund \<and> tx_created_at tx \<le> deadline then Inl RefundInsideWindow
               else if \<not> is_refund \<and> tx_created_at tx > deadline then Inl RewardAfterWindow
               else Inr ())
      in case tx_evidence tx of
           EvProviderReward e \<Rightarrow>
             check (pr_job_id e) (pr_shard_index e) (pr_work e) (pr_system_funded e)
               (Some (ap_node_id (pr_provider_auth e))) False
         | EvJobRefund e \<Rightarrow>
             check (rf_job_id e) (rf_shard_index e) (rf_work e) (rf_system_funded e)
               (map_option ap_node_id (rf_requester_auth e)) True
         | EvInferenceReward e \<Rightarrow> validate_inference_membership c db tx
         | EvInferenceRefund e \<Rightarrow> validate_inference_membership c db tx
         | _ \<Rightarrow> Inr ())"

subsection \<open>Reading\<close>

definition head_answer :: "crypto \<Rightarrow> app \<Rightarrow> head_proof" where
  "head_answer c a =
     (let h = app_head c a
      in \<lparr> hp_head = h, hp_validator_id = va_id a, hp_signature_b64 = va_sign a (head_message h) \<rparr>)"

definition state_answer :: "crypto \<Rightarrow> app \<Rightarrow> state_proof" where
  "state_answer c a =
     (let h = app_head c a; state_hash = digest c (store_state (va_store a))
      in \<lparr> sp_head = h, sp_state_hash = state_hash, sp_validator_id = va_id a,
           sp_signature_b64 = va_sign a (state_message h state_hash) \<rparr>)"

definition balance_answer :: "crypto \<Rightarrow> app \<Rightarrow> string \<Rightarrow> balance_proof" where
  "balance_answer c a account =
     (let b = balance (va_store a) account; (earned, spent) = activity (va_store a) account; h = app_head c a
      in \<lparr> bp_account_id = account, bp_balance_mcu = b, bp_earned_mcu = earned, bp_spent_mcu = spent,
           bp_head = h, bp_validator_id = va_id a,
           bp_signature_b64 = va_sign a (balance_message h account b earned spent) \<rparr>)"

definition claim_answer :: "crypto \<Rightarrow> app \<Rightarrow> string \<Rightarrow> claim_proof" where
  "claim_answer c a key =
     (let db = va_store a; h = app_head c a;
          (sequence, ehash, cert) =
            (case claim_detail db key of
               Some (n, hash) \<Rightarrow> (Some n, Some hash, certificate_at db n)
             | None \<Rightarrow> (None, None, None))
      in \<lparr> kp_claim_key = key, kp_sequence = sequence, kp_entry_hash = ehash, kp_certificate = cert, kp_head = h,
           kp_validator_id = va_id a, kp_signature_b64 = va_sign a (claim_message h key sequence ehash) \<rparr>)"

definition entries_answer :: "app \<Rightarrow> nat option \<Rightarrow> nat option \<Rightarrow> quorum_certificate list" where
  "entries_answer a from limit =
     certificates_from (va_store a) (case from of None \<Rightarrow> 1 | Some f \<Rightarrow> f)
       (Some (min (case limit of None \<Rightarrow> 500 | Some l \<Rightarrow> l) 5000))"

definition history_answer :: "app \<Rightarrow> string \<Rightarrow> nat option \<Rightarrow> nat option \<Rightarrow> account_history" where
  "history_answer a account before limit =
     store_history (va_store a) account before (case limit of None \<Rightarrow> 100 | Some l \<Rightarrow> l)"

subsection \<open>Voting\<close>

definition held_ballot :: "store \<Rightarrow> nat \<Rightarrow> ballot option" where
  "held_ballot db sequence = (case promised_ballot db sequence of Inr b \<Rightarrow> b | Inl _ \<Rightarrow> None)"

definition prepare :: "crypto \<Rightarrow> app \<Rightarrow> prepare_request \<Rightarrow> app \<times> prepare_vote" where
  "prepare c a r =
     (let h = app_head c a;
          result =
            (if pq_sequence r \<noteq> lh_sequence h + 1 then Inl (WrongHeight (pq_sequence r) (lh_sequence h))
             else map_err StoreRefused (promise (va_store a) (pq_sequence r) (pq_ballot r)));
          db = (case result of Inr (db', _) \<Rightarrow> db' | Inl _ \<Rightarrow> va_store a);
          held = held_ballot db (pq_sequence r)
      in (a\<lparr> va_store := db \<rparr>,
          \<lparr> pv_promised = is_ok result, pv_validator_id = va_id a, pv_sequence = pq_sequence r,
            pv_accepted = (case result of Inr (_, accepted) \<Rightarrow> accepted | Inl _ \<Rightarrow> None),
            pv_promised_ballot = held,
            pv_error = (case result of Inr _ \<Rightarrow> None | Inl e \<Rightarrow> Some e) \<rparr>))"

fun check_proposed :: "crypto \<Rightarrow> store \<Rightarrow> string set \<Rightarrow> ledger_transaction list \<Rightarrow> validator_error + unit" where
  "check_proposed c db settled [] = Inr ()"
| "check_proposed c db settled (t # ts) =
     (if has_claim db (claim_key t) \<or> claim_key t \<in> settled then Inl (AlreadySettled (claim_key t))
      else qbind (map_err SettlementRefused (validate_settlement_membership c db t)) (\<lambda>_.
           check_proposed c db (insert (claim_key t) settled) ts))"

text \<open>The work of \<open>propose\<close> that can fail: the entry the validator puts its name behind, and the store that
  remembers it did.\<close>

definition proposed_entry :: "crypto \<Rightarrow> app \<Rightarrow> proposal_request \<Rightarrow> validator_error + ledger_entry \<times> store" where
  "proposed_entry c a r =
     (let db = va_store a; h = app_head c a in
      if pp_sequence r \<noteq> lh_sequence h + 1 then Inl (WrongHeight (pp_sequence r) (lh_sequence h))
      else qbind (check_proposed c db {} (pp_transactions r)) (\<lambda>_.
      qbind (map_err BatchRefused (validate_batch c (pp_transactions r) (lh_entry_hash h) (balance db)
               (store_inference_reservation db) (va_set a))) (\<lambda>_.
      let e = build_entry c (lh_sequence h + 1) (lh_entry_hash h) (pp_transactions r) in
      qbind (map_err StoreRefused (accept_ballot db (en_sequence e) (pp_ballot r) (en_entry_hash e)
               (en_transactions e))) (\<lambda>db'.
      Inr (e, db')))))"

definition propose :: "crypto \<Rightarrow> app \<Rightarrow> proposal_request \<Rightarrow> app \<times> proposal_vote" where
  "propose c a r =
     (let h = app_head c a in
      case proposed_entry c a r of
        Inr (e, db') \<Rightarrow>
          (a\<lparr> va_store := db' \<rparr>,
           \<lparr> vt_accepted = True, vt_validator_id = va_id a, vt_sequence = en_sequence e,
             vt_previous_hash = en_previous_hash e, vt_entry_hash = en_entry_hash e,
             vt_signature_b64 =
               Some (va_sign a (ledger_entry_signing_message (membership_hash c (va_set a)) (en_entry_hash e))),
             vt_promised_ballot = held_ballot db' (pp_sequence r),
             vt_head_sequence = Some (lh_sequence h), vt_error = None \<rparr>)
      | Inl err \<Rightarrow>
          (a,
           \<lparr> vt_accepted = False, vt_validator_id = va_id a, vt_sequence = 0, vt_previous_hash = [],
             vt_entry_hash = [], vt_signature_b64 = None,
             vt_promised_ballot = held_ballot (va_store a) (pp_sequence r),
             vt_head_sequence = Some (lh_sequence h), vt_error = Some err \<rparr>))"

subsection \<open>Catching up\<close>

definition HEAL_BATCH :: nat where
  "HEAL_BATCH = 256"

definition sitting_set :: "app \<Rightarrow> validator_set" where
  "sitting_set a = (case current_set (va_store a) of Some s \<Rightarrow> s | None \<Rightarrow> va_set a)"

text \<open>One page of certificates: the store and the set it leaves behind, how many entries it applied, and
  whether one of them was refused.  What was applied before a refusal stays applied.\<close>

fun apply_page ::
  "crypto \<Rightarrow> nat \<Rightarrow> quorum_certificate list \<Rightarrow> store \<Rightarrow> validator_set \<Rightarrow> nat \<Rightarrow>
   store \<times> validator_set \<times> nat \<times> (store_error + unit)" where
  "apply_page c target [] db vset applied = (db, vset, applied, Inr ())"
| "apply_page c target (cert # certs) db vset applied =
     (if cert_seq cert > target then (db, vset, applied, Inr ())
      else if cert_seq cert \<le> lh_sequence (store_head c db vset) then apply_page c target certs db vset applied
      else case store_apply c db cert vset of
             Inl e \<Rightarrow> (db, vset, applied, Inl e)
           | Inr db' \<Rightarrow>
               apply_page c target certs db'
                 (case current_set db' of Some s \<Rightarrow> s | None \<Rightarrow> vset) (applied + 1))"

text \<open>\<open>fetch\<close> is what the rest of the set serves: certificates from a height on, at most so many, or nothing
  usable.\<close>

type_synonym fetch = "nat \<Rightarrow> nat \<Rightarrow> validator_set \<Rightarrow> quorum_certificate list option"

definition catch_up_round ::
  "crypto \<Rightarrow> fetch \<Rightarrow> nat \<Rightarrow> app \<Rightarrow> app \<times> (validator_error + nat)" where
  "catch_up_round c fetch target a =
     (let vset = sitting_set a; h = lh_sequence (store_head c (va_store a) vset) in
      case fetch (h + 1) (min (target - h) HEAL_BATCH) vset of
        None \<Rightarrow> (a, Inl FetchFailed)
      | Some certs \<Rightarrow>
          if certs = [] then (a, Inl (NobodyServes (h + 1)))
          else case apply_page c target certs (va_store a) vset 0 of
                 (db, vset', applied, Inl e) \<Rightarrow> (a\<lparr> va_store := db \<rparr>, Inl (StoreRefused e))
               | (db, vset', applied, Inr _) \<Rightarrow>
                   let reached = lh_sequence (store_head c db vset');
                       a' = a\<lparr> va_store := db, va_set := vset' \<rparr>
                   in if reached \<le> h then (a', Inl (CatchUpStalled reached)) else (a', Inr applied))"

definition app_height :: "app \<Rightarrow> nat" where
  "app_height a = (if db_certificates (va_store a) = [] then 0 else cert_seq (last (db_certificates (va_store a))))"

lemma store_head_sequence:
  "lh_sequence (store_head c db vset) =
     (if db_certificates db = [] then 0 else cert_seq (last (db_certificates db)))"
  by (simp add: store_head_def)

lemma store_head_height: "lh_sequence (store_head c (va_store a) v) = app_height a"
  by (simp add: app_height_def store_head_sequence)

lemma app_height_ballots [simp]:
  "app_height (a\<lparr> va_store := db\<lparr> db_ballots := x \<rparr> \<rparr>) = app_height (a\<lparr> va_store := db \<rparr>)"
  by (simp add: app_height_def)

lemma app_height_same [simp]: "app_height (a\<lparr> va_store := va_store a \<rparr>) = app_height a"
  by simp

lemma app_head_height [simp]: "lh_sequence (app_head c a) = app_height a"
  by (simp add: app_head_def app_height_def store_head_sequence)

lemma catch_up_round_progress:
  assumes "catch_up_round c fetch target a = (a', Inr n)"
  shows "app_height a < app_height a'"
  using assms
  by (auto simp: catch_up_round_def Let_def store_head_sequence app_height_def
      split: option.splits if_splits sum.splits prod.splits)

function catch_up_to ::
  "crypto \<Rightarrow> fetch \<Rightarrow> nat \<Rightarrow> app \<Rightarrow> nat \<Rightarrow> app \<times> (validator_error + nat)" where
  "catch_up_to c fetch target a applied =
     (if app_height a \<ge> target then (a, Inr applied)
      else case catch_up_round c fetch target a of
             (a', Inl e) \<Rightarrow> (a', Inl e)
           | (a', Inr n) \<Rightarrow> catch_up_to c fetch target a' (applied + n))"
  by pat_completeness auto

termination catch_up_to
  by (relation "measure (\<lambda>(c, fetch, target, a, applied). target - app_height a)")
     (auto dest!: sym[of "(_, _)"] catch_up_round_progress)

declare catch_up_to.simps [simp del]

definition heal_once ::
  "crypto \<Rightarrow> fetch \<Rightarrow> ledger_head option \<Rightarrow> (unit \<Rightarrow> ledger_head option) \<Rightarrow> app \<Rightarrow> app \<times> (validator_error + nat)" where
  "heal_once c fetch first again a =
     (case (case first of Some h \<Rightarrow> Some h | None \<Rightarrow> again ()) of
        None \<Rightarrow> (a, Inl FetchFailed)
      | Some remote \<Rightarrow>
          if lh_sequence (store_head c (va_store a) (sitting_set a)) \<ge> lh_sequence remote then (a, Inr 0)
          else catch_up_to c fetch (lh_sequence remote) a 0)"

subsection \<open>Committing\<close>

definition commit :: "crypto \<Rightarrow> fetch \<Rightarrow> app \<Rightarrow> quorum_certificate \<Rightarrow> app \<times> (validator_error + commit_response)" where
  "commit c fetch a cert =
     (case verify_certificate c cert (va_set a) of
        Inl e \<Rightarrow> (a, Inl (BatchRefused e))
      | Inr _ \<Rightarrow>
          let behind = lh_sequence (store_head c (va_store a) (sitting_set a)) + 1 < cert_seq cert in
          case (if behind then catch_up_to c fetch (cert_seq cert - 1) a 0 else (a, Inr 0)) of
            (a1, Inl e) \<Rightarrow> (a1, Inl e)
          | (a1, Inr _) \<Rightarrow>
              let db = va_store a1; local = app_head c a1 in
              if cert_seq cert \<le> lh_sequence local
              then if cert_seq cert = lh_sequence local \<and> cert_hash cert = lh_entry_hash local
                   then (a1, Inr \<lparr> cr_committed = True, cr_head = local \<rparr>)
                   else (a1, Inl StaleCertificate)
              else case qbind (map_err SettlementRefused
                          (fold_result (\<lambda>t _. validate_settlement_membership c db t) (cert_txs cert) ())) (\<lambda>_.
                        qbind (map_err BatchRefused (validate_batch c (cert_txs cert)
                          (en_previous_hash (qc_entry cert)) (balance db) (store_inference_reservation db)
                          (va_set a1))) (\<lambda>_.
                        map_err StoreRefused (store_apply c db cert (va_set a1)))) of
                     Inl e \<Rightarrow> (a1, Inl e)
                   | Inr db' \<Rightarrow>
                       let a2 = a1\<lparr> va_store := db',
                                    va_set := (case current_set db' of Some s \<Rightarrow> s | None \<Rightarrow> va_set a1) \<rparr>
                       in (a2, Inr \<lparr> cr_committed = True, cr_head = app_head c a2 \<rparr>))"

section \<open>Lemmas\<close>

subsection \<open>What the live path accepted, history accepts\<close>

definition witness_holds ::
  "crypto \<Rightarrow> string \<Rightarrow> validator_signature list \<Rightarrow> ledger_transaction \<Rightarrow> bool" where
  "witness_holds c previous_hash sigs t =
     (case tx_evidence t of
        EvProviderReward e \<Rightarrow> certified_witness c (pr_work e) (pr_result e) previous_hash (tx_transaction_id t) sigs
      | EvMembershipChange _ \<Rightarrow> False
      | _ \<Rightarrow> True)"

lemma verdict_requester:
  "reward_verdict c e r = Inr () \<Longrightarrow> reward_verdict c e (ap_node_id (iw_requester_acceptance e)) = Inr ()"
  by (auto simp: reward_verdict_def requester_verdict_def split: if_splits)

lemma live_historical_evidence:
  assumes "validate_transaction c t prev b res vset = Inr ()" "witness_holds c prev sigs t"
  shows "verify_historical_evidence c t prev sigs = Inr ()"
  using assms
  by (cases "tx_evidence t"; cases "tx_kind t";
      simp add: validate_transaction_def validate_evidence_def verify_historical_evidence_def witness_holds_def)
     (auto simp: live_defs Let_def dest: verdict_requester split: option.splits if_splits)

lemma evidence_steps_ok:
  assumes "\<forall>t\<in>set ts. verify_historical_evidence c t (en_previous_hash (qc_entry cert)) (qc_signatures cert) = Inr ()"
    and "\<forall>t\<in>set ts. \<forall>e. tx_evidence t \<noteq> EvMembershipChange e"
  shows "fold_result (evidence_step c cert vset) ts ns = Inr ns"
  using assms
  by (induction ts) (auto simp: evidence_step_def split: transaction_evidence.splits)

lemma batch_members_valid:
  assumes "fold_result (batch_step c prev bal res vset) txs st = Inr st'" "t \<in> set txs"
  shows "\<exists>b r. validate_transaction c t prev b r vset = Inr ()"
  using assms
proof (induction txs arbitrary: st)
  case (Cons u us)
  from Cons.prems(1) obtain st1 where st1: "batch_step c prev bal res vset u st = Inr st1"
    "fold_result (batch_step c prev bal res vset) us st1 = Inr st'" by auto
  show ?case
  proof (cases "t = u")
    case True
    obtain ovl rh where st: "st = (ovl, rh)" by (cases st)
    from batch_step_ok[OF st1(1)[unfolded st]] True show ?thesis by blast
  next
    case False
    with Cons.IH[OF st1(2)] Cons.prems(2) show ?thesis by simp
  qed
qed simp

lemma check_proposed_ok:
  "check_proposed c db settled ts = Inr () \<longleftrightarrow>
   (\<forall>t\<in>set ts. \<not> has_claim db (claim_key t) \<and> validate_settlement_membership c db t = Inr ()) \<and>
   distinct (map claim_key ts) \<and> claim_key ` set ts \<inter> settled = {}"
  by (induction ts arbitrary: settled) auto

lemma insert_claims_fresh:
  assumes "distinct (map claim_key ts)" "\<forall>t\<in>set ts. fmlookup m (claim_key t) = None"
  shows "\<exists>m'. fold_result (insert_claim n) ts m = Inr m'"
  using assms
proof (induction ts arbitrary: m)
  case (Cons t ts)
  have "\<forall>u\<in>set ts. fmlookup (fmupd (claim_key t) n m) (claim_key u) = None"
    using Cons.prems by (auto simp: image_iff)
  with Cons.IH[of "fmupd (claim_key t) n m"] Cons.prems show ?case by simp
qed simp

subsection \<open>What a validator signed, it can apply\<close>

lemma proposed_entry_ok:
  assumes "proposed_entry c a r = Inr (e, db')"
  shows "pp_sequence r = app_height a + 1" "check_proposed c (va_store a) {} (pp_transactions r) = Inr ()"
    "validate_batch c (pp_transactions r) (lh_entry_hash (app_head c a)) (balance (va_store a))
       (store_inference_reservation (va_store a)) (va_set a) = Inr ()"
    "e = build_entry c (app_height a + 1) (lh_entry_hash (app_head c a)) (pp_transactions r)"
    "accept_ballot (va_store a) (app_height a + 1) (pp_ballot r) (en_entry_hash e) (pp_transactions r) = Inr db'"
  using assms by (auto simp: proposed_entry_def Let_def build_entry_def split: if_splits)

lemma accept_ballot_frame:
  assumes "accept_ballot db n b h txs = Inr db'"
  shows "db' = db\<lparr> db_ballots := fmupd n
     (b, Some \<lparr> acp_ballot = b, acp_entry_hash = h, acp_transactions = txs \<rparr>) (db_ballots db) \<rparr>"
    and "sqlite_sequence n = Inr n"
  using assms by (auto simp: accept_ballot_def sqlite_sequence_def split: if_splits option.splits)

lemma insert_certificate_end:
  assumes "chained 0 GENESIS (db_certificates db)" "cert_seq cert = lh_sequence (store_head c db v) + 1"
    and "\<forall>old\<in>set (db_certificates db). cert_hash old \<noteq> cert_hash cert"
  shows "insert_certificate cert (db_certificates db) = Inr (db_certificates db @ [cert])"
proof -
  have "\<forall>old\<in>set (db_certificates db). cert_seq old < cert_seq cert"
  proof
    fix old
    assume "old \<in> set (db_certificates db)"
    then obtain i where i: "i < length (db_certificates db)" "old = db_certificates db ! i"
      by (auto simp: in_set_conv_nth)
    then have ne: "db_certificates db \<noteq> []" by auto
    then have "cert_seq (last (db_certificates db)) = length (db_certificates db)"
      using chained_nth[OF assms(1), of "length (db_certificates db) - 1"] by (simp add: last_conv_nth)
    then show "cert_seq old < cert_seq cert"
      using assms(2) i ne chained_nth[OF assms(1) i(1)] by (simp add: store_head_sequence)
  qed
  then show ?thesis using assms(3)
    by (auto simp: insert_certificate_def list_ex_iff insort_last)
qed

lemma signed_applies:
  assumes p: "proposed_entry c a r = Inr (e, db')"
    and inv: "chain_inv (va_store a)"
    and lim: "limit = \<bar>set_community_issuance_limit_mcu (va_set a)\<bar>" "limit \<le> i64_max"
    and snd: "sound_book limit (balance (va_store a))"
    and cert: "qc_entry cert = e" "verify_certificate c cert (va_set a) = Inr ()"
    and t: "\<forall>t\<in>set (pp_transactions r). tx_typed t \<and> witness_holds c (en_previous_hash e) (qc_signatures cert) t"
    and fresh: "\<forall>old\<in>set (db_certificates (va_store a)). cert_hash old \<noteq> en_entry_hash e"
  shows "\<exists>db2. store_apply c db' cert (va_set a) = Inr db2"
proof -
  note pe = proposed_entry_ok[OF p] and ab = accept_ballot_frame[OF proposed_entry_ok(5)[OF p]]
  let ?db = "va_store a" and ?h = "app_head c a"
  have e: "cert_txs cert = pp_transactions r" "cert_seq cert = app_height a + 1"
    "en_previous_hash e = lh_entry_hash ?h"
    using cert(1) pe(4) by (auto simp: cert_txs_def cert_seq_def build_entry_def Let_def)
  have head: "store_head c db' (va_set a) = ?h" by (simp add: ab(1) store_head_def app_head_def)
  have bal: "balance ?db = fm_get 0 (db_balances ?db)" by (simp add: balance_def[abs_def])
  from validate_batch_run(1)[OF pe(3) lim snd] t
  have "run_book (live_accept c (va_set a)) tx_postings (pp_transactions r) (fm_get 0 (db_balances ?db)) =
      Some (\<lambda>x. balance ?db x + net (concat (map tx_postings (pp_transactions r))) x)" by (simp add: bal)
  from run_book_posts[OF this lim snd[unfolded bal]] obtain m' where
    m': "fold_result apply_posting (concat (map tx_postings (pp_transactions r))) (db_balances ?db) = Inr m'" by blast
  have "\<exists>b q. validate_transaction c u (lh_entry_hash ?h) b q (va_set a) = Inr ()"
    if "u \<in> set (pp_transactions r)" for u
    using pe(3) batch_members_valid[OF _ that] by (auto simp: validate_batch_def)
  then have hist: "\<forall>u\<in>set (pp_transactions r).
      verify_historical_evidence c u (en_previous_hash (qc_entry cert)) (qc_signatures cert) = Inr ()"
    using live_historical_evidence t e(3) cert(1) by metis
  have ev: "fold_result (evidence_step c cert (va_set a)) (cert_txs cert) None = Inr None"
    unfolding e(1) by (rule evidence_steps_ok[OF hist]) (use t in \<open>auto simp: witness_holds_def\<close>)
  have unc: "\<forall>u\<in>set (pp_transactions r). claim_key u |\<notin>| fmdom (db_claims ?db)" "distinct (map claim_key (pp_transactions r))"
    using pe(2) unfolding check_proposed_ok by (auto simp: has_claim_def fmlookup_dom_iff)
  obtain claims where cl: "fold_result (insert_claim (cert_seq cert)) (cert_txs cert) (db_claims ?db) = Inr claims"
    using insert_claims_fresh[OF unc(2)] unc(1) unfolding e(1) by (metis fmlookup_dom_iff option.exhaust)
  have ins: "insert_certificate cert (db_certificates ?db) = Inr (db_certificates ?db @ [cert])"
    by (rule insert_certificate_end[where c = c and v = "va_set a"])
       (use inv e(2) fresh cert(1) in \<open>auto simp: chain_inv_def cert_hash_def app_head_height[of c a, symmetric] app_head_def\<close>)
  have fr: "db_certificates db' = db_certificates ?db" "db_balances db' = db_balances ?db" "db_claims db' = db_claims ?db"
    by (simp_all add: ab(1))
  have "store_apply c db' cert (va_set a) = Inr (commit_tables cert m' (db_certificates ?db @ [cert]) claims None db')"
    unfolding store_apply_ok fr head
    by (intro exI conjI, rule cert(2), rule ev)
       (use e m' cl ins ab(2) unc cert(1) in \<open>auto simp: check_unclaimed_ok fr\<close>)
  then show ?thesis by blast
qed

text \<open>The answers of the read side depend on the tables of the ledger, not on the ballots.\<close>

lemma ballots_frame [simp]:
  "store_head c (db\<lparr> db_ballots := x \<rparr>) v = store_head c db v"
  "balance (db\<lparr> db_ballots := x \<rparr>) = balance db"
  "store_inference_reservation (db\<lparr> db_ballots := x \<rparr>) = store_inference_reservation db"
  "store_reservation (db\<lparr> db_ballots := x \<rparr>) = store_reservation db"
  "current_set (db\<lparr> db_ballots := x \<rparr>) = current_set db"
  by (auto simp: store_head_def balance_def store_inference_reservation_def store_reservation_def current_set_def
      split: list.splits)

lemma settlement_frame [simp]:
  "validate_inference_membership c (db\<lparr> db_ballots := x \<rparr>) t = validate_inference_membership c db t"
  "validate_settlement_membership c (db\<lparr> db_ballots := x \<rparr>) t = validate_settlement_membership c db t"
  by (simp_all add: validate_inference_membership_def validate_settlement_membership_def cong: transaction_evidence.case_cong)

lemma store_apply_head:
  assumes "store_apply c db cert v = Inr db'" "chain_inv db"
  shows "store_head c db' w = \<lparr> lh_sequence = cert_seq cert, lh_entry_hash = cert_hash cert,
           lh_membership_hash = membership_hash c w \<rparr>"
proof -
  from assms(1)[unfolded store_apply_ok] obtain certs where
    ins: "insert_certificate cert (db_certificates db) = Inr certs" and c': "db_certificates db' = certs"
    and seq: "cert_seq cert = lh_sequence (store_head c db v) + 1" by auto
  from ins have "\<forall>old\<in>set (db_certificates db). cert_hash old \<noteq> cert_hash cert"
    by (auto simp: insert_certificate_def list_ex_iff split: if_splits)
  from insert_certificate_end[OF _ seq this] assms(2) ins c' have "db_certificates db' = db_certificates db @ [cert]"
    by (simp add: chain_inv_def)
  then show ?thesis by (simp add: store_head_def)
qed

lemma fold_unit_ok: "\<forall>t\<in>set ts. f t = Inr () \<Longrightarrow> fold_result (\<lambda>t _. f t) ts () = Inr ()"
  by (induction ts) auto

lemma propose_then_commit:
  assumes "proposed_entry c a r = Inr (e, db')" and "chain_inv (va_store a)"
    and "limit = \<bar>set_community_issuance_limit_mcu (va_set a)\<bar>" "limit \<le> i64_max"
    and "sound_book limit (balance (va_store a))"
    and "qc_entry cert = e" "verify_certificate c cert (va_set a) = Inr ()"
    and "\<forall>t\<in>set (pp_transactions r). tx_typed t \<and> witness_holds c (en_previous_hash e) (qc_signatures cert) t"
    and "\<forall>old\<in>set (db_certificates (va_store a)). cert_hash old \<noteq> en_entry_hash e"
  shows "vt_accepted (snd (propose c a r)) \<and>
    (\<exists>a2 resp. commit c fetch (fst (propose c a r)) cert = (a2, Inr resp) \<and> cr_committed resp \<and>
       lh_sequence (cr_head resp) = pp_sequence r \<and> lh_entry_hash (cr_head resp) = en_entry_hash e)"
proof -
  let ?a = "a\<lparr> va_store := db' \<rparr>"
  note pe = proposed_entry_ok[OF assms(1)] and ab = accept_ballot_frame[OF proposed_entry_ok(5)[OF assms(1)]]
  have pr: "fst (propose c a r) = ?a" "vt_accepted (snd (propose c a r))"
    using assms(1) by (simp_all add: propose_def Let_def)
  from signed_applies[OF assms(1-9)] obtain db2 where ap: "store_apply c db' cert (va_set a) = Inr db2" by blast
  have e: "cert_txs cert = pp_transactions r" "cert_seq cert = app_height a + 1"
    "en_previous_hash (qc_entry cert) = lh_entry_hash (app_head c a)" "cert_hash cert = en_entry_hash e"
    using assms(6) pe(4) by (auto simp: cert_txs_def cert_seq_def cert_hash_def build_entry_def Let_def)
  have head: "app_head c ?a = app_head c a" "app_height ?a = app_height a"
    by (simp_all add: ab(1) app_head_def app_height_def)
  have "chain_inv db' = chain_inv (va_store a)" by (rule chain_inv_cong) (simp_all add: ab(1))
  then have "chain_inv db'" using assms(2) by simp
  note h2 = store_apply_head[OF ap this]
  have mem: "fold_result (\<lambda>t _. validate_settlement_membership c db' t) (cert_txs cert) () = Inr ()"
    using pe(2) unfolding check_proposed_ok e(1) by (intro fold_unit_ok) (simp add: ab(1))
  have bt: "validate_batch c (cert_txs cert) (en_previous_hash (qc_entry cert)) (balance db')
      (store_inference_reservation db') (va_set a) = Inr ()"
    using pe(3) by (simp add: e ab(1))
  have nb: "\<not> lh_sequence (store_head c db' (sitting_set ?a)) + 1 < cert_seq cert"
    using e(2) head(2) store_head_height[of c ?a "sitting_set ?a"] by simp
  have "commit c fetch ?a cert =
     (?a\<lparr> va_store := db2, va_set := (case current_set db2 of Some s \<Rightarrow> s | None \<Rightarrow> va_set a) \<rparr>,
      Inr \<lparr> cr_committed = True, cr_head = app_head c (?a\<lparr> va_store := db2,
        va_set := (case current_set db2 of Some s \<Rightarrow> s | None \<Rightarrow> va_set a) \<rparr>) \<rparr>)"
    using assms(7) nb mem bt ap head e(2) unfolding commit_def by (simp add: Let_def cong: option.case_cong)
  then show ?thesis using pr h2 e pe(1) by (simp add: app_head_def)
qed

end
