(* ===== verification/Network.thy ===== *)
theory Network
  imports Wire
begin

text \<open>
  The ledger client of \<open>hocmesh-ledger/src/network.rs\<close>.  A request to every seat of the set is a function from
  members to optional replies: \<open>None\<close> is a seat that did not answer or whose answer could not be read.
  Sleeping between attempts is not modelled.  Where the source folds over a \<open>HashMap\<close> its iteration order is
  unspecified, so the functions take that order as an argument: a function that permutes the keys.
\<close>

section \<open>Definitions\<close>

text \<open>\<open>Iterator::max_by_key\<close>: the last of the maximal elements.\<close>

definition max_by_key :: "('a \<Rightarrow> nat) \<Rightarrow> 'a list \<Rightarrow> 'a option" where
  "max_by_key key = max_by (\<lambda>x y. key x > key y)"

text \<open>Counting into a map: the keys in the order they were first seen, and how often each occurred.\<close>

definition occurrences :: "'k list \<Rightarrow> 'k \<Rightarrow> nat" where
  "occurrences ks k = length (filter (\<lambda>x. x = k) ks)"

definition best_group :: "('k list \<Rightarrow> 'k list) \<Rightarrow> 'k list \<Rightarrow> ('k \<times> nat) option" where
  "best_group ord ks = max_by_key snd (map (\<lambda>k. (k, occurrences ks k)) (ord (remdups ks)))"

record client =
  cl_set :: validator_set
  cl_set_sequence :: nat
  cl_proposer :: string
  cl_ballot :: nat

datatype network_error =
    NoSignedHeads | NoAgreedHead | NoSignedState | NoAgreedState | NoBalanceProofs | NoAgreedBalance
  | NoClaimProofs | NoAgreedClaim | NobodyProvides | ChangeRefused ledger_error

datatype round_error = Rejected network_reason | Committed nat
  and network_reason =
    NotVoted nat | CertificateRefused ledger_error | GaveUp

datatype attempt_result = Settled quorum_certificate | Deferred

definition MAX_BATCH :: nat where "MAX_BATCH = 512"

definition ROUND_ATTEMPTS :: nat where "ROUND_ATTEMPTS = 6"

subsection \<open>Heads and states\<close>

type_synonym 'r replies = "validator_member \<Rightarrow> 'r option"

definition answered :: "validator_set \<Rightarrow> (validator_member \<Rightarrow> 'r \<Rightarrow> bool) \<Rightarrow> 'r replies \<Rightarrow> 'r list" where
  "answered vset good replies =
     List.map_filter (\<lambda>m. case replies m of None \<Rightarrow> None | Some p \<Rightarrow> if good m p then Some p else None)
       (set_members vset)"

definition signed_heads :: "crypto \<Rightarrow> validator_set \<Rightarrow> string \<Rightarrow> head_proof replies \<Rightarrow> ledger_head list" where
  "signed_heads c vset mh replies =
     map hp_head (answered vset (\<lambda>m p.
       hp_validator_id p = vm_validator_id m \<and> lh_membership_hash (hp_head p) = mh \<and>
       is_ok (verify_validator_signature c m (head_message (hp_head p)) (hp_signature_b64 p))) replies)"

definition a_head_reached :: "ledger_head list \<Rightarrow> nat \<Rightarrow> bool" where
  "a_head_reached heads sequence = list_ex (\<lambda>h. lh_sequence h \<ge> sequence) heads"

definition height_is_taken :: "crypto \<Rightarrow> client \<Rightarrow> head_proof replies \<Rightarrow> nat \<Rightarrow> bool" where
  "height_is_taken c cl replies sequence =
     a_head_reached (signed_heads c (cl_set cl) (membership_hash c (cl_set cl)) replies) sequence"

definition head_quorum ::
  "crypto \<Rightarrow> ((nat \<times> string) list \<Rightarrow> (nat \<times> string) list) \<Rightarrow> client \<Rightarrow> head_proof replies \<Rightarrow>
   network_error + ledger_head" where
  "head_quorum c ord cl replies =
     (let mh = membership_hash c (cl_set cl); heads = signed_heads c (cl_set cl) mh replies in
      case best_group ord (map (\<lambda>h. (lh_sequence h, lh_entry_hash h)) heads) of
        None \<Rightarrow> Inl NoSignedHeads
      | Some ((s, hash), n) \<Rightarrow>
          if n < set_threshold (cl_set cl) then Inl NoAgreedHead
          else Inr \<lparr> lh_sequence = s, lh_entry_hash = hash, lh_membership_hash = mh \<rparr>)"

definition state_key :: "state_proof \<Rightarrow> nat \<times> string \<times> string" where
  "state_key p = (lh_sequence (sp_head p), lh_entry_hash (sp_head p), sp_state_hash p)"

definition signed_states :: "crypto \<Rightarrow> validator_set \<Rightarrow> state_proof replies \<Rightarrow> state_proof list" where
  "signed_states c vset replies =
     answered vset (\<lambda>m p.
       sp_validator_id p = vm_validator_id m \<and> lh_membership_hash (sp_head p) = membership_hash c vset \<and>
       is_ok (verify_validator_signature c m (state_message (sp_head p) (sp_state_hash p)) (sp_signature_b64 p)))
       replies"

definition checkpoint_quorum ::
  "crypto \<Rightarrow> ((nat \<times> string \<times> string) list \<Rightarrow> (nat \<times> string \<times> string) list) \<Rightarrow> client \<Rightarrow> state_proof replies \<Rightarrow>
   network_error + ledger_checkpoint" where
  "checkpoint_quorum c ord cl replies =
     (let proofs = signed_states c (cl_set cl) replies in
      case best_group ord (map state_key proofs) of
        None \<Rightarrow> Inl NoSignedState
      | Some ((s, hash, state_hash), n) \<Rightarrow>
          if n < set_threshold (cl_set cl) then Inl NoAgreedState
          else Inr \<lparr> cp_head = \<lparr> lh_sequence = s, lh_entry_hash = hash,
                                 lh_membership_hash = membership_hash c (cl_set cl) \<rparr>,
                     cp_state_hash = state_hash,
                     cp_signatures =
                       map (\<lambda>p. \<lparr> vs_validator_id = sp_validator_id p, vs_signature_b64 = sp_signature_b64 p \<rparr>)
                         (filter (\<lambda>p. state_key p = (s, hash, state_hash)) proofs) \<rparr>)"

subsection \<open>Balances\<close>

definition balance_key :: "balance_proof \<Rightarrow> int \<times> int \<times> int" where
  "balance_key p = (bp_balance_mcu p, bp_earned_mcu p, bp_spent_mcu p)"

definition freshest :: "balance_proof list \<Rightarrow> nat" where
  "freshest ps = fold max (map (\<lambda>p. lh_sequence (bp_head p)) ps) 0"

definition agreed_balance ::
  "((int \<times> int \<times> int) list \<Rightarrow> (int \<times> int \<times> int) list) \<Rightarrow> balance_proof list \<Rightarrow> nat \<Rightarrow> balance_proof option" where
  "agreed_balance ord proofs threshold =
     (let groups = map (\<lambda>k. filter (\<lambda>p. balance_key p = k) proofs) (ord (remdups (map balance_key proofs)))
      in case max_by_key freshest (filter (\<lambda>ps. length ps \<ge> threshold) groups) of
           None \<Rightarrow> None
         | Some ps \<Rightarrow> max_by_key (\<lambda>p. lh_sequence (bp_head p)) ps)"

definition signed_balances :: "crypto \<Rightarrow> validator_set \<Rightarrow> balance_proof replies \<Rightarrow> balance_proof list" where
  "signed_balances c vset replies =
     answered vset (\<lambda>m p.
       bp_validator_id p = vm_validator_id m \<and> lh_membership_hash (bp_head p) = membership_hash c vset \<and>
       is_ok (verify_validator_signature c m
         (balance_message (bp_head p) (bp_account_id p) (bp_balance_mcu p) (bp_earned_mcu p) (bp_spent_mcu p))
         (bp_signature_b64 p))) replies"

definition balance_once ::
  "crypto \<Rightarrow> ((int \<times> int \<times> int) list \<Rightarrow> (int \<times> int \<times> int) list) \<Rightarrow> client \<Rightarrow> balance_proof replies \<Rightarrow>
   network_error + balance_proof" where
  "balance_once c ord cl replies =
     (let proofs = signed_balances c (cl_set cl) replies in
      if proofs = [] then Inl NoBalanceProofs
      else case agreed_balance ord proofs (set_threshold (cl_set cl)) of
             None \<Rightarrow> Inl NoAgreedBalance | Some p \<Rightarrow> Inr p)"

subsection \<open>Claims\<close>

definition claim_status_key :: "claim_proof \<Rightarrow> nat option \<times> string option \<times> nat \<times> string" where
  "claim_status_key p = (kp_sequence p, kp_entry_hash p, lh_sequence (kp_head p), lh_entry_hash (kp_head p))"

definition signed_claims :: "crypto \<Rightarrow> validator_set \<Rightarrow> string \<Rightarrow> claim_proof replies \<Rightarrow> claim_proof list" where
  "signed_claims c vset claim replies =
     answered vset (\<lambda>m p.
       kp_validator_id p = vm_validator_id m \<and> lh_membership_hash (kp_head p) = membership_hash c vset \<and>
       kp_claim_key p = claim \<and>
       is_ok (verify_validator_signature c m
         (claim_message (kp_head p) (kp_claim_key p) (kp_sequence p) (kp_entry_hash p)) (kp_signature_b64 p)))
       replies"

definition proves_claim :: "crypto \<Rightarrow> validator_set \<Rightarrow> string \<Rightarrow> claim_proof \<Rightarrow> bool" where
  "proves_claim c vset claim p =
     (case kp_certificate p of
        None \<Rightarrow> False
      | Some cert \<Rightarrow>
          is_ok (verify_certificate c cert vset) \<and> list_ex (\<lambda>t. claim_key t = claim) (cert_txs cert) \<and>
          Some (cert_seq cert) = kp_sequence p \<and> Some (cert_hash cert) = kp_entry_hash p)"

definition claim_quorum ::
  "crypto \<Rightarrow> ((nat option \<times> string option \<times> nat \<times> string) list \<Rightarrow> (nat option \<times> string option \<times> nat \<times> string) list) \<Rightarrow>
   client \<Rightarrow> string \<Rightarrow> claim_proof replies \<Rightarrow> network_error + claim_proof" where
  "claim_quorum c ord cl claim replies =
     (let proofs = signed_claims c (cl_set cl) claim replies in
      case find (proves_claim c (cl_set cl) claim) proofs of
        Some p \<Rightarrow> Inr p
      | None \<Rightarrow>
          (case best_group ord (map claim_status_key proofs) of
             None \<Rightarrow> Inl NoClaimProofs
           | Some (k, n) \<Rightarrow>
               if n < set_threshold (cl_set cl) then Inl NoAgreedClaim
               else (case find (\<lambda>p. claim_status_key p = k) proofs of
                       None \<Rightarrow> Inl NoClaimProofs | Some p \<Rightarrow> Inr p)))"

definition settled_certificate ::
  "crypto \<Rightarrow> client \<Rightarrow> ledger_transaction \<Rightarrow> (network_error + claim_proof) \<Rightarrow> quorum_certificate option" where
  "settled_certificate c cl tx claim =
     (if claim_key tx = [] then None
      else case claim of
             Inl _ \<Rightarrow> None
           | Inr p \<Rightarrow>
               (case kp_certificate p of
                  None \<Rightarrow> None
                | Some cert \<Rightarrow>
                    if \<not> is_ok (verify_certificate c cert (cl_set cl)) then None
                    else if list_ex (\<lambda>t. transaction_hash c t = transaction_hash c tx) (cert_txs cert)
                    then Some cert else None))"

subsection \<open>Claiming a height\<close>

definition next_ballot :: "client \<Rightarrow> ballot \<times> client" where
  "next_ballot cl =
     (let n = wrap_u64 (cl_ballot cl + 1)
      in (\<lparr> bl_number = n, bl_proposer = cl_proposer cl \<rparr>, cl\<lparr> cl_ballot := n \<rparr>))"

definition outbid :: "ballot \<Rightarrow> client \<Rightarrow> client" where
  "outbid seen cl = cl\<lparr> cl_ballot := max (cl_ballot cl) (bl_number seen) \<rparr>"

definition prepare_votes :: "validator_set \<Rightarrow> nat \<Rightarrow> prepare_vote replies \<Rightarrow> prepare_vote list" where
  "prepare_votes vset sequence replies =
     answered vset (\<lambda>m v. pv_validator_id v = vm_validator_id m \<and> pv_sequence v = sequence) replies"

text \<open>Of everything the promising seats have signed, the newest ballot.\<close>

definition adopted :: "prepare_vote list \<Rightarrow> accepted_proposal option" where
  "adopted promises =
     max_by (\<lambda>a b. outranks (acp_ballot a) (acp_ballot b)) (List.map_filter pv_accepted promises)"

definition claim_height ::
  "client \<Rightarrow> nat \<Rightarrow> prepare_vote replies \<Rightarrow> client \<times> accepted_proposal option option" where
  "claim_height cl sequence replies =
     (let votes = prepare_votes (cl_set cl) sequence replies;
          cl' = fold outbid (List.map_filter pv_promised_ballot votes) cl;
          promises = filter pv_promised votes
      in (cl', if length promises < set_threshold (cl_set cl) then None else Some (adopted promises)))"

subsection \<open>One attempt at a height\<close>

text \<open>Everything the seats answer during one attempt.\<close>

record attempt_env =
  ae_heads :: "head_proof replies"
  ae_prepare :: "ballot \<Rightarrow> prepare_vote replies"
  ae_propose :: "proposal_request \<Rightarrow> proposal_vote replies"
  ae_heads_after :: "head_proof replies"
  ae_commit :: "quorum_certificate \<Rightarrow> (bool \<times> commit_response option) replies"

definition judged_our_batch :: "proposal_vote \<Rightarrow> nat \<Rightarrow> string \<Rightarrow> bool" where
  "judged_our_batch vote sequence ehash \<longleftrightarrow>
     (case vt_head_sequence vote of None \<Rightarrow> True | Some h \<Rightarrow> h + 1 = sequence) \<and>
     (\<not> vt_accepted vote \<or> vt_entry_hash vote = ehash)"

definition proposal_votes ::
  "validator_set \<Rightarrow> proposal_vote replies \<Rightarrow> (validator_member \<times> proposal_vote) list" where
  "proposal_votes vset replies =
     List.map_filter (\<lambda>m. map_option (\<lambda>v. (m, v)) (replies m)) (set_members vset)"

definition vote_signature ::
  "crypto \<Rightarrow> string \<Rightarrow> ledger_entry \<Rightarrow> validator_member \<times> proposal_vote \<Rightarrow> validator_signature option" where
  "vote_signature c mh expected mv =
     (case mv of (m, v) \<Rightarrow>
        case vt_signature_b64 v of
          None \<Rightarrow> None
        | Some sg \<Rightarrow>
            if vt_accepted v \<and> vt_entry_hash v = en_entry_hash expected \<and> vt_sequence v = en_sequence expected \<and>
               vt_previous_hash v = en_previous_hash expected \<and>
               is_ok (verify_validator_signature c m
                 (ledger_entry_signing_message mh (en_entry_hash expected)) sg)
            then Some \<lparr> vs_validator_id = vm_validator_id m, vs_signature_b64 = sg \<rparr> else None)"

text \<open>Counting the commits: a seat counts only when it says itself that it stored the entry.\<close>

definition commits ::
  "validator_set \<Rightarrow> quorum_certificate \<Rightarrow> (bool \<times> commit_response option) replies \<Rightarrow> nat" where
  "commits vset cert replies =
     length (filter (\<lambda>m. case replies m of
         Some (True, Some r) \<Rightarrow> cr_committed r \<and> lh_sequence (cr_head r) \<ge> cert_seq cert
       | _ \<Rightarrow> False) (set_members vset))"

text \<open>The part of an attempt that follows the votes: sign, verify, commit.\<close>

definition conclude ::
  "crypto \<Rightarrow> client \<Rightarrow> attempt_env \<Rightarrow> string \<Rightarrow> ledger_entry \<Rightarrow> (validator_member \<times> proposal_vote) list \<Rightarrow> bool \<Rightarrow>
   round_error + attempt_result" where
  "conclude c cl env mh expected votes deferred =
     (let sequence = en_sequence expected;
          threshold = set_threshold (cl_set cl);
          judging = length (filter (\<lambda>(_, v). judged_our_batch v sequence (en_entry_hash expected)) votes);
          sigs = List.map_filter (vote_signature c mh expected) votes
      in if length sigs < threshold
         then if height_is_taken c cl (ae_heads_after env) sequence then Inr Deferred
              else if length votes < threshold then Inr Deferred
              else if judging < threshold then Inr Deferred
              else Inl (Rejected (NotVoted (length sigs)))
         else let cert = \<lparr> qc_entry = expected, qc_membership_hash = membership_hash c (cl_set cl),
                           qc_signatures = sigs \<rparr>
              in case verify_certificate c cert (cl_set cl) of
                   Inl e \<Rightarrow> Inl (Rejected (CertificateRefused e))
                 | Inr _ \<Rightarrow>
                     let committed = commits (cl_set cl) cert (ae_commit env cert) in
                     if committed < threshold then Inl (Committed committed)
                     else Inr (if deferred then Deferred else Settled cert))"

definition attempt ::
  "crypto \<Rightarrow> ((nat \<times> string) list \<Rightarrow> (nat \<times> string) list) \<Rightarrow> client \<Rightarrow> ledger_transaction list \<Rightarrow> attempt_env \<Rightarrow>
   client \<times> (round_error + attempt_result)" where
  "attempt c ord cl txs env =
     (case head_quorum c ord cl (ae_heads env) of
        Inl _ \<Rightarrow> (cl, Inr Deferred)
      | Inr h \<Rightarrow>
          let sequence = lh_sequence h + 1; (ballot, cl1) = next_ballot cl in
          case claim_height cl1 sequence (ae_prepare env ballot) of
            (cl2, None) \<Rightarrow> (cl2, Inr Deferred)
          | (cl2, Some adopt) \<Rightarrow>
              let txs' = (case adopt of Some a \<Rightarrow> acp_transactions a | None \<Rightarrow> txs);
                  expected = build_entry c sequence (lh_entry_hash h) txs';
                  req = \<lparr> pp_transactions = txs', pp_sequence = sequence, pp_ballot = ballot \<rparr>;
                  votes = proposal_votes (cl_set cl2) (ae_propose env req)
              in case find (\<lambda>b. outranks b ballot) (List.map_filter (\<lambda>(_, v). vt_promised_ballot v) votes) of
                   Some b \<Rightarrow> (outbid b cl2, Inr Deferred)
                 | None \<Rightarrow> (cl2, conclude c cl2 env (lh_membership_hash h) expected votes (adopt \<noteq> None)))"

text \<open>Retrying while other proposers keep taking the height; \<open>envs\<close> are the answers of the attempts.\<close>

fun round_from ::
  "crypto \<Rightarrow> ((nat \<times> string) list \<Rightarrow> (nat \<times> string) list) \<Rightarrow> client \<Rightarrow> ledger_transaction list \<Rightarrow> attempt_env list \<Rightarrow>
   client \<times> (round_error + quorum_certificate)" where
  "round_from c ord cl txs [] = (cl, Inl (Rejected GaveUp))"
| "round_from c ord cl txs (env # envs) =
     (case attempt c ord cl txs env of
        (cl', Inl e) \<Rightarrow> (cl', Inl e)
      | (cl', Inr (Settled cert)) \<Rightarrow> (cl', Inr cert)
      | (cl', Inr Deferred) \<Rightarrow> round_from c ord cl' txs envs)"

definition round ::
  "crypto \<Rightarrow> ((nat \<times> string) list \<Rightarrow> (nat \<times> string) list) \<Rightarrow> client \<Rightarrow> ledger_transaction list \<Rightarrow>
   (nat \<Rightarrow> attempt_env) \<Rightarrow> client \<times> (round_error + quorum_certificate)" where
  "round c ord cl txs envs = round_from c ord cl txs (map envs [0..<ROUND_ATTEMPTS])"

subsection \<open>Reading the chain\<close>

text \<open>The certificates of a page, checked against the set that walks forward with them.\<close>

fun check_page :: "crypto \<Rightarrow> validator_set \<Rightarrow> quorum_certificate list \<Rightarrow> ledger_error + validator_set" where
  "check_page c active [] = Inr active"
| "check_page c active (cert # certs) =
     qbind (verify_certificate c cert active) (\<lambda>_.
     qbind (fold_result (\<lambda>t v. case tx_evidence t of
               EvMembershipChange e \<Rightarrow> verify_membership_change c v e | _ \<Rightarrow> Inr v) (cert_txs cert) active) (\<lambda>active'.
     check_page c active' certs))"

fun fetch_from ::
  "crypto \<Rightarrow> validator_set \<Rightarrow> quorum_certificate list replies \<Rightarrow> bool \<Rightarrow> validator_member list \<Rightarrow>
   network_error + quorum_certificate list" where
  "fetch_from c at pages end_of_chain [] = (if end_of_chain then Inr [] else Inl NobodyProvides)"
| "fetch_from c at pages end_of_chain (m # ms) =
     (case pages m of
        None \<Rightarrow> fetch_from c at pages end_of_chain ms
      | Some [] \<Rightarrow> fetch_from c at pages True ms
      | Some certs \<Rightarrow>
          if is_ok (check_page c at certs) then Inr certs else fetch_from c at pages end_of_chain ms)"

text \<open>\<open>pages from limit m\<close> is what seat \<open>m\<close> serves for a range.\<close>

definition fetch_certificates ::
  "crypto \<Rightarrow> client \<Rightarrow> (nat \<Rightarrow> nat \<Rightarrow> quorum_certificate list replies) \<Rightarrow> nat \<Rightarrow> nat \<Rightarrow> validator_set \<Rightarrow>
   network_error + quorum_certificate list" where
  "fetch_certificates c cl pages from limit at =
     fetch_from c at (pages from limit) False (set_members (cl_set cl))"

text \<open>One page of \<open>refresh_set\<close>: the set, the height that last changed it, and the cursor.\<close>

definition membership_changes :: "quorum_certificate \<Rightarrow> membership_change_evidence list" where
  "membership_changes cert =
     List.map_filter (\<lambda>t. case tx_evidence t of EvMembershipChange e \<Rightarrow> Some e | _ \<Rightarrow> None) (cert_txs cert)"

definition refresh_certificate ::
  "crypto \<Rightarrow> quorum_certificate \<Rightarrow> validator_set \<times> nat \<times> nat \<Rightarrow> network_error + validator_set \<times> nat \<times> nat" where
  "refresh_certificate c cert st =
     (case st of (active, at, cursor) \<Rightarrow>
        let changes = membership_changes cert in
        if changes = [] then Inr (active, at, cert_seq cert)
        else qbind (map_err ChangeRefused (fold_result (\<lambda>e v. verify_membership_change c v e) changes active))
               (\<lambda>active'. Inr (active', cert_seq cert, cert_seq cert)))"

partial_function (option) refresh_loop ::
  "crypto \<Rightarrow> client \<Rightarrow> (nat \<Rightarrow> nat \<Rightarrow> quorum_certificate list replies) \<Rightarrow> validator_set \<times> nat \<times> nat \<Rightarrow>
   (network_error + validator_set \<times> nat \<times> nat) option" where
  "refresh_loop c cl pages st =
     (case fetch_certificates c cl pages (snd (snd st) + 1) 256 (fst st) of
        Inl e \<Rightarrow> Some (Inl e)
      | Inr certs \<Rightarrow>
          if certs = [] then Some (Inr st)
          else case fold_result (refresh_certificate c) certs st of
                 Inl e \<Rightarrow> Some (Inl e)
               | Inr st' \<Rightarrow> refresh_loop c cl pages st')"

definition refresh_set ::
  "crypto \<Rightarrow> client \<Rightarrow> (nat \<Rightarrow> nat \<Rightarrow> quorum_certificate list replies) \<Rightarrow>
   (client \<times> (network_error + bool)) option" where
  "refresh_set c cl pages =
     (let start = cl_set_sequence cl in
      case refresh_loop c cl pages (cl_set cl, start, start) of
        None \<Rightarrow> None
      | Some (Inl e) \<Rightarrow> Some (cl, Inl e)
      | Some (Inr (active, at, _)) \<Rightarrow>
          if at = start then Some (cl, Inr False)
          else Some (cl\<lparr> cl_set := active, cl_set_sequence := at \<rparr>, Inr True))"

subsection \<open>Settling a batch\<close>

text \<open>The answers of a settlement: those of the rounds it runs, in order, the pages a refresh reads, and the claim
  proofs a quorum gives.\<close>

record settle_env =
  se_rounds :: "nat \<Rightarrow> nat \<Rightarrow> attempt_env"
  se_pages :: "nat \<Rightarrow> nat \<Rightarrow> quorum_certificate list replies"
  se_claims :: "ledger_transaction \<Rightarrow> network_error + claim_proof"

definition resolve ::
  "crypto \<Rightarrow> client \<Rightarrow> settle_env \<Rightarrow> ledger_transaction \<Rightarrow> round_error \<Rightarrow> round_error + quorum_certificate" where
  "resolve c cl env tx e =
     (case settled_certificate c cl tx (se_claims env tx) of Some cert \<Rightarrow> Inr cert | None \<Rightarrow> Inl e)"

text \<open>Every transaction of a rejected batch in a round of its own.\<close>

fun settle_each ::
  "crypto \<Rightarrow> ((nat \<times> string) list \<Rightarrow> (nat \<times> string) list) \<Rightarrow> client \<Rightarrow> settle_env \<Rightarrow> nat \<Rightarrow>
   ledger_transaction list \<Rightarrow> client \<times> (round_error + quorum_certificate) list" where
  "settle_each c ord cl env n [] = (cl, [])"
| "settle_each c ord cl env n (tx # txs) =
     (case round c ord cl [tx] (se_rounds env n) of
        (cl', outcome) \<Rightarrow>
          let answer = (case outcome of Inr cert \<Rightarrow> Inr cert | Inl e \<Rightarrow> resolve c cl' env tx e);
              (cl'', rest) = settle_each c ord cl' env (n + 1) txs
          in (cl'', answer # rest))"

text \<open>The answer to every transaction of the batch, from the outcome of its last round.\<close>

definition settle_answer ::
  "crypto \<Rightarrow> ((nat \<times> string) list \<Rightarrow> (nat \<times> string) list) \<Rightarrow> settle_env \<Rightarrow> ledger_transaction list \<Rightarrow>
   client \<times> (round_error + quorum_certificate) \<Rightarrow> client \<times> (round_error + quorum_certificate) list" where
  "settle_answer c ord env txs r =
     (case r of (cl, outcome) \<Rightarrow>
        case outcome of
          Inr cert \<Rightarrow> (cl, map (\<lambda>_. Inr cert) txs)
        | Inl (Rejected why) \<Rightarrow>
            if length txs > 1 then settle_each c ord cl env 2 txs
            else (cl, map (\<lambda>tx. resolve c cl env tx (Rejected why)) txs)
        | Inl e \<Rightarrow> (cl, map (\<lambda>tx. resolve c cl env tx e) txs))"

text \<open>\<open>None\<close> when following the set does not return.\<close>

definition settle_batch ::
  "crypto \<Rightarrow> ((nat \<times> string) list \<Rightarrow> (nat \<times> string) list) \<Rightarrow> client \<Rightarrow> settle_env \<Rightarrow> ledger_transaction list \<Rightarrow>
   (client \<times> (round_error + quorum_certificate) list) option" where
  "settle_batch c ord cl env txs =
     (let (cl1, first) = round c ord cl txs (se_rounds env 0) in
      case first of
        Inl (Rejected _) \<Rightarrow>
          (case refresh_set c cl1 (se_pages env) of
             None \<Rightarrow> None
           | Some (cl2, Inr True) \<Rightarrow> Some (settle_answer c ord env txs (round c ord cl2 txs (se_rounds env 1)))
           | Some (cl2, _) \<Rightarrow> Some (settle_answer c ord env txs (cl2, first)))
      | _ \<Rightarrow> Some (settle_answer c ord env txs (cl1, first)))"

section \<open>Lemmas\<close>

subsection \<open>The last of the maximal elements\<close>

lemma adopted_newest:
  assumes "adopted promises = Some a"
  shows "\<exists>v\<in>set promises. pv_accepted v = Some a"
    and "\<And>v a'. v \<in> set promises \<Longrightarrow> pv_accepted v = Some a' \<Longrightarrow> \<not> outranks (acp_ballot a') (acp_ballot a)"
proof -
  let ?beats = "\<lambda>a b. outranks (acp_ballot a) (acp_ballot b)"
  show "\<exists>v\<in>set promises. pv_accepted v = Some a"
    using max_by_in[OF assms[unfolded adopted_def]] by (simp add: in_map_filter)
  obtain z zs where xs: "List.map_filter pv_accepted promises = z # zs"
    using assms by (cases "List.map_filter pv_accepted promises") (auto simp: adopted_def)
  have a: "a = foldl (\<lambda>best y. if ?beats best y then best else y) z zs" using assms by (simp add: adopted_def xs)
  have "\<forall>y\<in>set (z # zs). \<not> ?beats y a"
    unfolding a
  proof (rule foldl_max_unbeaten)
    show "transp_on (set (z # zs)) ?beats" by (rule transp_onI) (rule outranks_trans)
    show "asymp_on (set (z # zs)) ?beats" by (rule asymp_onI) (rule outranks_asym)
    show "?beats y d" if "\<not> ?beats x y" "?beats x d" for x y d
      using that outranks_total[of "acp_ballot x" "acp_ballot y"] outranks_trans by metis
  qed
  then have u: "\<not> ?beats y a" if "y \<in> set (List.map_filter pv_accepted promises)" for y
    using that unfolding xs by blast
  show "\<not> outranks (acp_ballot a') (acp_ballot a)" if "v \<in> set promises" "pv_accepted v = Some a'" for v a'
    using u[of a'] that by (auto simp: in_map_filter)
qed

lemma adopted_None: "adopted promises = None \<Longrightarrow> v \<in> set promises \<Longrightarrow> pv_accepted v = None"
  by (induction promises) (auto simp: adopted_def map_filter_simps split: option.splits)

lemma max_by_key_le: "max_by_key key xs = Some m \<Longrightarrow> y \<in> set xs \<Longrightarrow> key y \<le> key m"
  unfolding max_by_key_def by (rule max_by_linorder)

lemma max_by_key_in: "max_by_key key xs = Some m \<Longrightarrow> m \<in> set xs"
  unfolding max_by_key_def by (rule max_by_in)

subsection \<open>Answers come from distinct members\<close>

lemma length_map_filter: "length (List.map_filter g xs) \<le> length xs"
  by (induction xs) (auto simp: map_filter_simps split: option.splits)

lemma answered_mem:
  "p \<in> set (answered vset good replies) \<longleftrightarrow> (\<exists>m\<in>set (set_members vset). replies m = Some p \<and> good m p)"
  unfolding answered_def in_map_filter by (auto split: option.splits if_splits)

lemma map_filter_ids:
  assumes "distinct (map f ms)" and "\<And>m p. m \<in> set ms \<Longrightarrow> g m = Some p \<Longrightarrow> ident p = f m"
  shows "distinct (map ident (List.map_filter g ms)) \<and> ident ` set (List.map_filter g ms) \<subseteq> f ` set ms"
  using assms
proof (induction ms)
  case (Cons m ms)
  then have ih: "distinct (map ident (List.map_filter g ms))" "ident ` set (List.map_filter g ms) \<subseteq> f ` set ms"
    by auto
  show ?case
  proof (cases "g m")
    case (Some p)
    then have "ident p = f m" using Cons.prems(2) by simp
    then show ?thesis using ih Cons.prems(1) Some by (auto simp: map_filter_simps)
  qed (use ih in \<open>auto simp: map_filter_simps\<close>)
qed (simp add: map_filter_simps)

lemma answered_ids:
  assumes "validate_validator_set vset = Inr ()" and "\<And>m p. good m p \<Longrightarrow> ident p = vm_validator_id m"
  shows "distinct (map ident (answered vset good replies))"
    and "ident ` set (answered vset good replies) \<subseteq> member_ids vset"
proof -
  have "distinct (map ident (answered vset good replies)) \<and>
      ident ` set (answered vset good replies) \<subseteq> vm_validator_id ` set (set_members vset)"
    unfolding answered_def
    by (rule map_filter_ids) (use assms in \<open>auto simp: validate_validator_set_ok split: option.splits if_splits\<close>)
  then show "distinct (map ident (answered vset good replies))"
    "ident ` set (answered vset good replies) \<subseteq> member_ids vset"
    by (simp_all add: member_ids_def)
qed

lemma answered_length: "length (answered vset good replies) \<le> length (set_members vset)"
  unfolding answered_def by (rule length_map_filter)

lemma find_member:
  assumes "distinct (map f ms)" "m \<in> set ms"
  shows "find (\<lambda>x. f x = f m) ms = Some m"
  using assms by (induction ms) (auto simp: image_iff)

lemma member_signed_by:
  assumes "validate_validator_set vset = Inr ()" "m \<in> set (set_members vset)" "vs_validator_id s = vm_validator_id m"
    and "is_ok (verify_validator_signature c m msg (vs_signature_b64 s))"
  shows "signed_by c vset msg s"
  using find_member[of vm_validator_id "set_members vset" m] assms
  by (simp add: signed_by_def validate_validator_set_ok)

lemma count_good_all:
  assumes "distinct (map vs_validator_id ss)" "vs_validator_id ` set ss \<inter> seen = {}" "\<forall>s\<in>set ss. signed_by c vset msg s"
  shows "count_good c vset msg seen ss = length ss"
  using assms by (induction ss arbitrary: seen) auto

subsection \<open>Groups\<close>

lemma best_group_ok:
  assumes "best_group ord ks = Some (k, n)" "\<And>xs. set (ord xs) = set xs"
  shows "k \<in> set ks" "n = occurrences ks k" "\<And>k'. k' \<in> set ks \<Longrightarrow> occurrences ks k' \<le> n"
proof -
  from max_by_key_in[OF assms(1)[unfolded best_group_def]] assms(2)
  show "k \<in> set ks" "n = occurrences ks k" by auto
  fix k'
  assume "k' \<in> set ks"
  then have "(k', occurrences ks k') \<in> set (map (\<lambda>k. (k, occurrences ks k)) (ord (remdups ks)))"
    using assms(2) by auto
  from max_by_key_le[OF assms(1)[unfolded best_group_def] this] show "occurrences ks k' \<le> n" by simp
qed

lemma best_group_None:
  assumes "\<And>xs. set (ord xs) = set xs"
  shows "best_group ord ks = None \<longleftrightarrow> ks = []"
proof -
  have "set (ord (remdups ks)) = set ks" by (simp add: assms)
  then have "ord (remdups ks) = [] \<longleftrightarrow> ks = []" by (simp only: set_empty[symmetric])
  then show ?thesis by (simp add: best_group_def max_by_key_def)
qed

lemma occurrences_add: "k \<noteq> k' \<Longrightarrow> occurrences ks k + occurrences ks k' \<le> length ks"
  by (induction ks) (auto simp: occurrences_def)

text \<open>A majority is the only one: whatever the order the groups are visited in, the group that reaches the
  threshold is the same.\<close>

lemma best_group_unique:
  assumes "\<And>xs. set (ord xs) = set xs" "\<And>xs. set (ord' xs) = set xs" "length ks < 2 * t"
    and "best_group ord ks = Some (k, n)" "t \<le> n" "best_group ord' ks = Some (k', n')"
  shows "k' = k \<and> n' = n"
proof -
  note b = best_group_ok[OF assms(4,1)] and b' = best_group_ok[OF assms(6,2)]
  have "n = n'" using b(3)[OF b'(1)] b'(3)[OF b(1)] b(2) b'(2) by simp
  moreover have "k = k'" using occurrences_add[of k k' ks] b(2) b'(2) assms(3,5) calculation by fastforce
  ultimately show ?thesis by simp
qed

lemma fold_max_ge: "x \<in> set xs \<or> x \<le> a \<Longrightarrow> (x :: nat) \<le> fold max xs a"
proof (induction xs arbitrary: a)
  case (Cons y ys)
  then have "x \<in> set ys \<or> x \<le> max y a" by (simp add: le_max_iff_disj) blast
  from Cons.IH[OF this] show ?case by simp
qed simp

lemma fold_max_le: "(a :: nat) \<le> b \<Longrightarrow> \<forall>x\<in>set xs. x \<le> b \<Longrightarrow> fold max xs a \<le> b"
  by (induction xs arbitrary: a) auto

lemma freshest_ge: "p \<in> set ps \<Longrightarrow> lh_sequence (bp_head p) \<le> freshest ps"
  unfolding freshest_def by (rule fold_max_ge) simp

lemma freshest_le: "\<forall>p\<in>set ps. lh_sequence (bp_head p) \<le> b \<Longrightarrow> freshest ps \<le> b"
  unfolding freshest_def by (rule fold_max_le) auto

subsection \<open>What an attempt concludes\<close>

lemma cl_set_frame [simp]:
  "cl_set (fold outbid bs cl) = cl_set cl" "cl_set (fst (claim_height cl n r)) = cl_set cl"
  "cl_set (snd (next_ballot cl)) = cl_set cl"
proof -
  show o: "cl_set (fold outbid bs cl) = cl_set cl" for bs cl
    by (induction bs arbitrary: cl) (auto simp: outbid_def)
  show "cl_set (fst (claim_height cl n r)) = cl_set cl" by (simp add: claim_height_def Let_def o)
  show "cl_set (snd (next_ballot cl)) = cl_set cl" by (simp add: next_ballot_def Let_def)
qed

lemma conclude_settled:
  assumes "conclude c cl env mh expected votes deferred = Inr (Settled cert)"
  shows "verify_certificate c cert (cl_set cl) = Inr ()" "qc_entry cert = expected" "\<not> deferred"
    "set_threshold (cl_set cl) \<le> commits (cl_set cl) cert (ae_commit env cert)"
  using assms by (auto simp: conclude_def Let_def not_less split: sum.splits if_splits)

lemma attempt_steps:
  assumes "attempt c ord cl txs env = (cl', r)"
  obtains "r = Inr Deferred"
  | h ballot cl1 cl2 adopt where "head_quorum c ord cl (ae_heads env) = Inr h" "next_ballot cl = (ballot, cl1)"
      "claim_height cl1 (lh_sequence h + 1) (ae_prepare env ballot) = (cl2, Some adopt)"
      "cl_set cl2 = cl_set cl"
      "\<exists>votes. r = conclude c cl2 env (lh_membership_hash h)
         (build_entry c (lh_sequence h + 1) (lh_entry_hash h)
            (case adopt of Some a \<Rightarrow> acp_transactions a | None \<Rightarrow> txs)) votes (adopt \<noteq> None)"
proof (cases "head_quorum c ord cl (ae_heads env)")
  case (Inl e)
  then show thesis using assms that(1) by (simp add: attempt_def)
next
  case (Inr h)
  obtain ballot cl1 where b: "next_ballot cl = (ballot, cl1)" by (cases "next_ballot cl")
  obtain cl2 o1 where ch: "claim_height cl1 (lh_sequence h + 1) (ae_prepare env ballot) = (cl2, o1)"
    by (cases "claim_height cl1 (lh_sequence h + 1) (ae_prepare env ballot)")
  have set2: "cl_set cl2 = cl_set cl"
    using cl_set_frame(2)[of cl1 "lh_sequence h + 1" "ae_prepare env ballot"] cl_set_frame(3)[of cl]
    unfolding b ch by simp
  show thesis
  proof (cases o1)
    case None
    then show thesis using assms that(1) by (simp add: attempt_def Inr b ch Let_def del: One_nat_def add_Suc_right Nat.add_0_right)
  next
    case (Some adopt)
    show thesis
    proof (cases "r = Inr Deferred")
      case True
      then show thesis by (rule that(1))
    next
      case False
      then show thesis
        using assms that(2)[OF Inr b ch[unfolded Some] set2]
        by (auto simp: attempt_def Inr b ch Some Let_def split: option.splits simp del: add_Suc_right Nat.add_0_right One_nat_def)
    qed
  qed
qed

lemma attempt_set: "attempt c ord cl txs env = (cl', r) \<Longrightarrow> cl_set cl' = cl_set cl"
proof -
  have o: "cl_set (outbid b x) = cl_set x" for b x by (simp add: outbid_def)
  have ch: "claim_height x n r = (y, z) \<Longrightarrow> cl_set y = cl_set x" for x n r y z
    using cl_set_frame(2)[of x n r] by simp
  have nb: "next_ballot x = (b, y) \<Longrightarrow> cl_set y = cl_set x" for x b y using cl_set_frame(3)[of x] by simp
  show "attempt c ord cl txs env = (cl', r) \<Longrightarrow> cl_set cl' = cl_set cl"
    by (auto simp: attempt_def Let_def o dest!: ch nb split: sum.splits prod.splits option.splits)
qed

lemma attempt_certificate:
  assumes "attempt c ord cl txs env = (cl', Inr (Settled cert))"
  shows "verify_certificate c cert (cl_set cl) = Inr ()" "cert_txs cert = txs"
    "set_threshold (cl_set cl) \<le> commits (cl_set cl) cert (ae_commit env cert)"
proof -
  from assms have "verify_certificate c cert (cl_set cl) = Inr () \<and> cert_txs cert = txs \<and>
    set_threshold (cl_set cl) \<le> commits (cl_set cl) cert (ae_commit env cert)"
  proof (cases rule: attempt_steps)
    case (2 h ballot cl1 cl2 adopt)
    then obtain votes where c: "conclude c cl2 env (lh_membership_hash h)
       (build_entry c (lh_sequence h + 1) (lh_entry_hash h)
         (case adopt of Some a \<Rightarrow> acp_transactions a | None \<Rightarrow> txs)) votes (adopt \<noteq> None) = Inr (Settled cert)" by auto
    from conclude_settled[OF c] 2(4) show ?thesis by (auto simp: cert_txs_def build_entry_def Let_def)
  qed simp
  then show "verify_certificate c cert (cl_set cl) = Inr ()" "cert_txs cert = txs"
    "set_threshold (cl_set cl) \<le> commits (cl_set cl) cert (ae_commit env cert)" by auto
qed

lemma round_certificate:
  assumes "round c ord cl txs envs = (cl', r)"
  shows "cl_set cl' = cl_set cl" and "r = Inr cert \<Longrightarrow> verify_certificate c cert (cl_set cl) = Inr () \<and> cert_txs cert = txs"
proof -
  have "round_from c ord cl txs es = (cl', r) \<Longrightarrow> cl_set cl' = cl_set cl \<and>
     (\<forall>cert. r = Inr cert \<longrightarrow> verify_certificate c cert (cl_set cl) = Inr () \<and> cert_txs cert = txs)" for es
  proof (induction es arbitrary: cl)
    case (Cons e es)
    obtain cl1 o1 where a: "attempt c ord cl txs e = (cl1, o1)" by (cases "attempt c ord cl txs e")
    note s = attempt_set[OF a]
    show ?case
    proof (cases o1)
      case (Inl x)
      with Cons.prems a s show ?thesis by auto
    next
      case (Inr x)
      show ?thesis
      proof (cases x)
        case (Settled cert)
        with Cons.prems a s Inr attempt_certificate[of c ord cl txs e cl1 cert] show ?thesis by auto
      next
        case Deferred
        with Cons.prems a Inr have "round_from c ord cl1 txs es = (cl', r)" by simp
        from Cons.IH[OF this] s show ?thesis by simp
      qed
    qed
  qed auto
  with assms show "cl_set cl' = cl_set cl" "r = Inr cert \<Longrightarrow> verify_certificate c cert (cl_set cl) = Inr () \<and> cert_txs cert = txs"
    unfolding round_def by blast+
qed

lemma resolve_certificate:
  assumes "resolve c cl env tx e = Inr cert"
  shows "verify_certificate c cert (cl_set cl) = Inr ()" "\<exists>t\<in>set (cert_txs cert). transaction_hash c t = transaction_hash c tx"
  using assms
  by (auto simp: resolve_def settled_certificate_def is_ok_def list_ex_iff split: option.splits if_splits sum.splits)

lemma settle_each_answers:
  assumes "settle_each c ord cl env n txs = (cl', answers)"
  shows "cl_set cl' = cl_set cl \<and> length answers = length txs \<and>
    (\<forall>i < length txs. \<forall>cert. answers ! i = Inr cert \<longrightarrow> verify_certificate c cert (cl_set cl) = Inr () \<and>
       (\<exists>t\<in>set (cert_txs cert). transaction_hash c t = transaction_hash c (txs ! i)))"
  using assms
proof (induction txs arbitrary: cl n cl' answers)
  case (Cons tx txs)
  obtain cl1 r where r: "round c ord cl [tx] (se_rounds env n) = (cl1, r)" by (cases "round c ord cl [tx] (se_rounds env n)")
  obtain cl2 rest where e: "settle_each c ord cl1 env (n + 1) txs = (cl2, rest)" by (cases "settle_each c ord cl1 env (n + 1) txs")
  let ?a = "case r of Inr cert \<Rightarrow> Inr cert | Inl e \<Rightarrow> resolve c cl1 env tx e"
  have ans: "cl' = cl2" "answers = ?a # rest" using Cons.prems r e by simp_all
  note rc = round_certificate[OF r]
  have first: "verify_certificate c cert (cl_set cl) = Inr () \<and> (\<exists>t\<in>set (cert_txs cert). transaction_hash c t = transaction_hash c tx)"
    if "?a = Inr cert" for cert
  proof (cases r)
    case (Inl x)
    with that have "resolve c cl1 env tx x = Inr cert" by simp
    from resolve_certificate[OF this] rc(1) show ?thesis by simp
  next
    case (Inr x)
    with that rc(2)[of cert] show ?thesis by simp
  qed
  show ?case unfolding ans using Cons.IH[OF e] first rc(1) by (auto simp: nth_Cons split: nat.splits)
qed simp

lemma settle_answer_ok:
  assumes "settle_answer c ord env txs (cl, r) = (cl', answers)"
    and "\<And>cert. r = Inr cert \<Longrightarrow> verify_certificate c cert (cl_set cl) = Inr () \<and> cert_txs cert = txs"
  shows "length answers = length txs \<and>
    (\<forall>i < length txs. \<forall>cert. answers ! i = Inr cert \<longrightarrow> verify_certificate c cert (cl_set cl') = Inr () \<and>
       (\<exists>t\<in>set (cert_txs cert). transaction_hash c t = transaction_hash c (txs ! i)))"
proof (cases r)
  case (Inr cert)
  then have "cl' = cl" "answers = map (\<lambda>_. Inr cert) txs" using assms(1) by (auto simp: settle_answer_def)
  with assms(2)[OF Inr] show ?thesis by auto
next
  case (Inl e)
  show ?thesis
  proof (cases "(\<exists>why. e = Rejected why) \<and> length txs > 1")
    case True
    then have "settle_each c ord cl env 2 txs = (cl', answers)" using assms(1) Inl by (auto simp: settle_answer_def)
    from settle_each_answers[OF this] show ?thesis by simp
  next
    case False
    then have "cl' = cl" "answers = map (\<lambda>tx. resolve c cl env tx e) txs"
      using assms(1) Inl by (cases e; auto simp: settle_answer_def)+
    then show ?thesis using resolve_certificate by auto
  qed
qed

subsection \<open>Following the set\<close>

lemma fetch_from_in:
  "fetch_from c at pages e ms = Inr certs \<Longrightarrow> certs = [] \<or> (\<exists>m\<in>set ms. pages m = Some certs)"
  by (induction ms arbitrary: e) (auto split: option.splits list.splits if_splits)

lemma refresh_certificate_cursor:
  "refresh_certificate c cert st = Inr (active, at, cursor) \<Longrightarrow> cursor = cert_seq cert"
  by (auto simp: refresh_certificate_def Let_def split: prod.splits if_splits)

lemma refresh_page_cursor:
  assumes "fold_result (refresh_certificate c) certs st = Inr st'" "certs \<noteq> []"
  shows "snd (snd st') = cert_seq (last certs)"
proof -
  obtain init l where certs: "certs = init @ [l]" using assms(2) by (metis append_butlast_last_id)
  from assms(1)[unfolded certs fold_result_append] obtain st1 where "refresh_certificate c l st1 = Inr st'"
    by (auto split: sum.splits)
  then show ?thesis using refresh_certificate_cursor[of c l st1] by (cases st') (auto simp: certs)
qed

lemma refresh_loop_returns:
  assumes "\<And>from limit m certs. pages from limit m = Some certs \<Longrightarrow> certs \<noteq> [] \<Longrightarrow>
      from \<le> cert_seq (last certs) \<and> cert_seq (last certs) \<le> tip"
  shows "\<exists>r. refresh_loop c cl pages st = Some r"
proof (induction "tip - snd (snd st)" arbitrary: st rule: less_induct)
  case less
  show ?case
  proof (cases "fetch_certificates c cl pages (snd (snd st) + 1) 256 (fst st)")
    case (Inl e)
    then show ?thesis by (subst refresh_loop.simps) (simp add: Inl[simplified])
  next
    case (Inr certs)
    show ?thesis
    proof (cases "certs = [] \<or> (\<exists>e. fold_result (refresh_certificate c) certs st = Inl e)")
      case True
      then show ?thesis by (subst refresh_loop.simps) (auto simp: Inr[simplified])
    next
      case False
      then obtain st' where ne: "certs \<noteq> []" and st': "fold_result (refresh_certificate c) certs st = Inr st'"
        by (cases "fold_result (refresh_certificate c) certs st") auto
      from Inr fetch_from_in ne obtain m where "pages (snd (snd st) + 1) 256 m = Some certs"
        unfolding fetch_certificates_def by metis
      from assms[OF this ne] refresh_page_cursor[OF st' ne]
      have "tip - snd (snd st') < tip - snd (snd st)" by linarith
      from less[OF this] show ?thesis by (subst refresh_loop.simps) (simp add: Inr[simplified] ne st')
    qed
  qed
qed

text \<open>A page that leads back to where the walk already was is read forever.\<close>

lemma refresh_loop_spins:
  assumes "\<And>from limit. fetch_certificates c cl pages from limit active = Inr certs" "certs \<noteq> []"
    and "\<And>cursor. \<exists>cursor'. fold_result (refresh_certificate c) certs (active, at, cursor) = Inr (active, at, cursor')"
  shows "refresh_loop c cl pages (active, at, cursor) = None"
proof -
  let ?P = "\<lambda>c' cl' pages' st y. \<not> (\<exists>cursor. c' = c \<and> cl' = cl \<and> pages' = pages \<and> st = (active, at, cursor))"
  have "?P c cl pages (active, at, cursor) y" if "refresh_loop c cl pages (active, at, cursor) = Some y" for y
  proof (rule refresh_loop.raw_induct[where P = ?P, OF _ that])
    fix f c' cl' pages' st y
    assume IH: "\<And>c' cl' pages' st y. f c' cl' pages' st = Some y \<Longrightarrow> ?P c' cl' pages' st y"
      and body: "(case fetch_certificates c' cl' pages' (snd (snd st) + 1) 256 (fst st) of
        Inl e \<Rightarrow> Some (Inl e)
      | Inr certs \<Rightarrow> if certs = [] then Some (Inr st)
          else case fold_result (refresh_certificate c') certs st of
                 Inl e \<Rightarrow> Some (Inl e) | Inr st' \<Rightarrow> f c' cl' pages' st') = Some y"
    show "?P c' cl' pages' st y"
    proof
      assume "\<exists>cursor. c' = c \<and> cl' = cl \<and> pages' = pages \<and> st = (active, at, cursor)"
      then obtain cursor where st: "c' = c" "cl' = cl" "pages' = pages" "st = (active, at, cursor)" by blast
      obtain cursor' where "fold_result (refresh_certificate c) certs (active, at, cursor) = Inr (active, at, cursor')"
        using assms(3) by blast
      with body assms(1,2) have "f c cl pages (active, at, cursor') = Some y" by (simp add: st)
      from IH[OF this] show False by blast
    qed
  qed
  then show ?thesis by (cases "refresh_loop c cl pages (active, at, cursor)") auto
qed

end
