(* ===== verification/Consensus.thy ===== *)
theory Consensus
  imports Validator Network
begin

text \<open>
  Agreement on a height.  The voting argument is made once, in a locale over an abstract record of proposals and
  votes, and instantiated with the runs of a system of validators and proposers: validators answer with
  the handlers of \<open>Validator\<close>, proposers pick what they propose with \<open>claim_height\<close> of \<open>Network\<close>, and messages
  are delivered in any order, any number of times or not at all.
\<close>

section \<open>Voting\<close>

locale quorum_system =
  fixes quorum :: "'v set \<Rightarrow> bool"
  assumes overlap: "quorum Q \<Longrightarrow> quorum R \<Longrightarrow> Q \<inter> R \<noteq> {}"

text \<open>Every ballot carries at most one proposal, votes are cast for proposals, and a proposal is safe: some quorum
  either never voted below its ballot, or the newest vote below it was for the same value.\<close>

locale ballot_voting = quorum_system quorum for quorum :: "'v set \<Rightarrow> bool" +
  fixes above :: "'b \<Rightarrow> 'b \<Rightarrow> bool"
    and proposal :: "'b \<Rightarrow> 'x option"
    and voted :: "'v \<Rightarrow> 'b \<Rightarrow> bool"
  assumes above_irrefl: "\<not> above b b"
    and above_trans: "above a b \<Longrightarrow> above b d \<Longrightarrow> above a d"
    and above_total: "a \<noteq> b \<Longrightarrow> above a b \<or> above b a"
    and finite_proposals: "finite (dom proposal)"
    and voted_proposed: "voted v b \<Longrightarrow> proposal b \<noteq> None"
    and safe: "proposal b = Some x \<Longrightarrow> \<exists>Q. quorum Q \<and>
       ((\<forall>v\<in>Q. \<forall>b'. voted v b' \<longrightarrow> \<not> above b b') \<or>
        (\<exists>b'. above b b' \<and> proposal b' = Some x \<and>
           (\<forall>v\<in>Q. \<forall>b''. voted v b'' \<longrightarrow> above b b'' \<longrightarrow> \<not> above b'' b')))"
begin

definition chosen :: "'b \<Rightarrow> 'x \<Rightarrow> bool" where
  "chosen b x \<longleftrightarrow> proposal b = Some x \<and> (\<exists>Q. quorum Q \<and> (\<forall>v\<in>Q. voted v b))"

text \<open>The number of proposals below a ballot, the measure of the induction.\<close>

definition depth :: "'b \<Rightarrow> nat" where
  "depth b = card {a \<in> dom proposal. above b a}"

lemma depth_less:
  assumes "above b a" "proposal a \<noteq> None"
  shows "depth a < depth b"
proof -
  have "{d \<in> dom proposal. above a d} \<subset> {d \<in> dom proposal. above b d}"
    using assms above_trans above_irrefl by blast
  then show ?thesis unfolding depth_def by (intro psubset_card_mono) (simp_all add: finite_proposals)
qed

lemma later_proposals_agree:
  assumes "chosen b x" "proposal d = Some y" "d = b \<or> above d b"
  shows "y = x"
  using assms(2,3)
proof (induction "depth d" arbitrary: d y rule: less_induct)
  case less
  show ?case
  proof (cases "d = b")
    case True
    with less.prems assms(1) show ?thesis by (simp add: chosen_def)
  next
    case False
    with less.prems have db: "above d b" by simp
    obtain Q where Q: "quorum Q" "\<forall>v\<in>Q. voted v b" using assms(1) by (auto simp: chosen_def)
    from safe[OF less.prems(1)] obtain R where R: "quorum R"
      and s: "(\<forall>v\<in>R. \<forall>b'. voted v b' \<longrightarrow> \<not> above d b') \<or>
        (\<exists>b'. above d b' \<and> proposal b' = Some y \<and> (\<forall>v\<in>R. \<forall>b''. voted v b'' \<longrightarrow> above d b'' \<longrightarrow> \<not> above b'' b'))"
      by blast
    from overlap[OF Q(1) R] obtain v where v: "v \<in> Q" "v \<in> R" by blast
    with Q(2) s db obtain b' where b': "above d b'" "proposal b' = Some y"
      "\<forall>v\<in>R. \<forall>b''. voted v b'' \<longrightarrow> above d b'' \<longrightarrow> \<not> above b'' b'" by blast
    then have "\<not> above b b'" using v Q(2) db by blast
    then have "b' = b \<or> above b' b" using above_total by blast
    with less.hyps[OF depth_less[OF b'(1)] b'(2)] b'(2) show ?thesis by simp
  qed
qed

lemma agreement:
  assumes "chosen b x" "chosen d y"
  shows "x = y"
proof -
  have p: "proposal b = Some x" "proposal d = Some y" using assms by (simp_all add: chosen_def)
  consider "d = b \<or> above d b" | "b = d \<or> above b d" using above_total by blast
  then show ?thesis
  proof cases
    case 1
    from later_proposals_agree[OF assms(1) p(2) 1] show ?thesis by simp
  next
    case 2
    from later_proposals_agree[OF assms(2) p(1) 2] show ?thesis .
  qed
qed

end

section \<open>A system of validators and proposers\<close>

text \<open>The promises and votes ever sent, and the proposal made under each ballot at each height.\<close>

record system =
  sy_apps :: "string \<Rightarrow> app"
  sy_promises :: "(nat \<times> ballot \<times> string \<times> accepted_proposal option) set"
  sy_proposals :: "nat \<times> ballot \<Rightarrow> ledger_transaction list option"
  sy_votes :: "(nat \<times> ballot \<times> string \<times> string) set"

text \<open>The answers a proposer reads are answers that were given: a promise it counts was made by the member it
  counts it for.\<close>

definition genuine ::
  "system \<Rightarrow> validator_set \<Rightarrow> nat \<Rightarrow> ballot \<Rightarrow> prepare_vote replies \<Rightarrow> bool" where
  "genuine s vset sequence b replies \<longleftrightarrow>
     (\<forall>m\<in>set (set_members vset). \<forall>v. replies m = Some v \<longrightarrow> pv_promised v \<longrightarrow>
        (sequence, b, vm_validator_id m, pv_accepted v) \<in> sy_promises s)"

text \<open>\<open>vs\<close> is the set that sits at each height.\<close>

inductive sy_step :: "crypto \<Rightarrow> (nat \<Rightarrow> validator_set) \<Rightarrow> system \<Rightarrow> system \<Rightarrow> bool"
  for c vs where
  prepare:
    "prepare c (sy_apps s v) r = (a', vote) \<Longrightarrow>
     sy_step c vs s (s\<lparr> sy_apps := (sy_apps s)(v := a'),
       sy_promises := (if pv_promised vote then {(pq_sequence r, pq_ballot r, v, pv_accepted vote)} else {})
         \<union> sy_promises s \<rparr>)"
| claim:
    "claim_height cl sequence replies = (cl', Some adopt) \<Longrightarrow> cl_set cl = vs sequence \<Longrightarrow>
     genuine s (vs sequence) sequence b replies \<Longrightarrow> sy_proposals s (sequence, b) = None \<Longrightarrow>
     txs' = (case adopt of Some a \<Rightarrow> acp_transactions a | None \<Rightarrow> txs) \<Longrightarrow>
     sy_step c vs s (s\<lparr> sy_proposals := (sy_proposals s)((sequence, b) \<mapsto> txs') \<rparr>)"
| vote:
    "sy_proposals s (pp_sequence r, pp_ballot r) = Some (pp_transactions r) \<Longrightarrow>
     propose c (sy_apps s v) r = (a', vote) \<Longrightarrow>
     sy_step c vs s (s\<lparr> sy_apps := (sy_apps s)(v := a'),
       sy_votes := (if vt_accepted vote then {(pp_sequence r, pp_ballot r, v, vt_entry_hash vote)} else {})
         \<union> sy_votes s \<rparr>)"
| commit:
    "commit c fetch (sy_apps s v) cert = (a', answer) \<Longrightarrow> sy_step c vs s (s\<lparr> sy_apps := (sy_apps s)(v := a') \<rparr>)"
| heal:
    "heal_once c fetch first again (sy_apps s v) = (a', answer) \<Longrightarrow>
     sy_step c vs s (s\<lparr> sy_apps := (sy_apps s)(v := a') \<rparr>)"

definition sy_start :: "system \<Rightarrow> bool" where
  "sy_start s \<longleftrightarrow> sy_promises s = {} \<and> sy_proposals s = Map.empty \<and> sy_votes s = {} \<and>
     (\<forall>v. chain_inv (va_store (sy_apps s v)) \<and> db_ballots (va_store (sy_apps s v)) = fmempty)"

inductive sy_reach :: "crypto \<Rightarrow> (nat \<Rightarrow> validator_set) \<Rightarrow> system \<Rightarrow> bool" for c vs where
  start: "sy_start s \<Longrightarrow> sy_reach c vs s"
| step: "sy_reach c vs s \<Longrightarrow> sy_step c vs s s' \<Longrightarrow> sy_reach c vs s'"

subsection \<open>What the handlers do to a store\<close>

text \<open>A store that only grew: certificates were applied, nothing else happened.\<close>

inductive grows :: "crypto \<Rightarrow> store \<Rightarrow> store \<Rightarrow> bool" for c where
  same: "grows c db db"
| applied: "grows c db db' \<Longrightarrow> store_apply c db' cert vset = Inr db'' \<Longrightarrow> grows c db db''"

definition height :: "store \<Rightarrow> nat" where
  "height db = (if db_certificates db = [] then 0 else cert_seq (last (db_certificates db)))"

lemma height_head: "lh_sequence (store_head c db v) = height db"
  by (simp add: height_def store_head_sequence)

lemma app_height_store: "app_height a = height (va_store a)"
  by (simp add: app_height_def height_def)

lemma grows_inv:
  assumes "grows c db db'" "chain_inv db"
  shows "chain_inv db' \<and> height db \<le> height db' \<and> (\<forall>k. height db' < k \<longrightarrow> fmlookup (db_ballots db') k = fmlookup (db_ballots db) k)"
  using assms
proof induction
  case (applied db db' cert vset db'')
  then have inv: "chain_inv db'" by blast
  have inv'': "chain_inv db''" by (rule chain_inv_apply(1)[OF inv applied.hyps(2)])
  have h: "height db'' = cert_seq cert" "cert_seq cert = height db' + 1"
    using store_apply_head[OF applied.hyps(2) inv, of vset] applied.hyps(2)[unfolded store_apply_ok]
    by (auto simp: height_head[symmetric, of _ c vset])
  have "db_ballots db'' = fmfilter (\<lambda>k. \<not> k \<le> cert_seq cert) (db_ballots db')"
    using applied.hyps(2) unfolding store_apply_ok by auto
  with applied.IH applied.prems h inv'' show ?case by auto
qed simp

lemma grows_trans: "grows c db2 db3 \<Longrightarrow> grows c db1 db2 \<Longrightarrow> grows c db1 db3"
  by (induction rule: grows.induct) (auto intro: grows.intros)

lemma grows_first: "store_apply c db cert vset = Inr db' \<Longrightarrow> grows c db' db'' \<Longrightarrow> grows c db db''"
  by (rule grows_trans) (auto intro: grows.intros)

lemma apply_page_grows: "apply_page c target certs db vset n = (db', vset', n', r) \<Longrightarrow> grows c db db'"
proof (induction certs arbitrary: db vset n)
  case (Cons cert certs)
  show ?case
  proof (cases "store_apply c db cert vset")
    case (Inl e)
    with Cons.prems Cons.IH show ?thesis by (auto simp: grows.same split: if_splits)
  next
    case (Inr db1)
    with Cons.prems Cons.IH grows_first[OF Inr] show ?thesis by (auto simp: grows.same split: if_splits)
  qed
qed (simp add: grows.same)

lemma catch_up_round_grows:
  "catch_up_round c fetch target a = (a', r) \<Longrightarrow> grows c (va_store a) (va_store a')"
  by (auto simp: catch_up_round_def Let_def grows.same dest: apply_page_grows
      split: option.splits if_splits sum.splits prod.splits)

lemma catch_up_to_grows: "catch_up_to c fetch target a n = (a', r) \<Longrightarrow> grows c (va_store a) (va_store a')"
proof (induction c fetch target a n rule: catch_up_to.induct)
  case (1 c fetch target a n)
  show ?case
  proof (cases "app_height a \<ge> target")
    case True
    with 1(2) show ?thesis by (simp add: grows.same catch_up_to.simps)
  next
    case False
    obtain a1 r1 where r1: "catch_up_round c fetch target a = (a1, r1)" by (cases "catch_up_round c fetch target a")
    note g = catch_up_round_grows[OF r1]
    show ?thesis
    proof (cases r1)
      case (Inl e)
      with 1(2) False r1 g show ?thesis by (simp add: catch_up_to.simps)
    next
      case (Inr m)
      with 1(2) False r1 have "catch_up_to c fetch target a1 (n + m) = (a', r)" by (simp add: catch_up_to.simps[of c fetch target a])
      from 1(1)[OF False r1[symmetric] Inr this] g show ?thesis by (rule grows_trans)
    qed
  qed
qed

lemma heal_once_grows: "heal_once c fetch first again a = (a', r) \<Longrightarrow> grows c (va_store a) (va_store a')"
  by (auto simp: heal_once_def grows.same dest: catch_up_to_grows split: option.splits if_splits)

lemma commit_grows:
  assumes "commit c fetch a cert = (a', r)"
  shows "grows c (va_store a) (va_store a')"
proof (cases "verify_certificate c cert (va_set a)")
  case (Inl e)
  with assms show ?thesis by (simp add: commit_def grows.same)
next
  case (Inr u)
  let ?behind = "lh_sequence (store_head c (va_store a) (sitting_set a)) + 1 < cert_seq cert"
  obtain a1 r1 where a1: "(if ?behind then catch_up_to c fetch (cert_seq cert - 1) a 0 else (a, Inr 0)) = (a1, r1)"
    by (cases "if ?behind then catch_up_to c fetch (cert_seq cert - 1) a 0 else (a, Inr 0)")
  have g: "grows c (va_store a) (va_store a1)"
    using a1 catch_up_to_grows[of c fetch "cert_seq cert - 1" a 0 a1 r1] by (cases ?behind) (auto simp: grows.same)
  have "va_store a' = va_store a1 \<or> (\<exists>v. store_apply c (va_store a1) cert v = Inr (va_store a'))"
    using assms unfolding commit_def Inr Let_def a1
    by (auto split: sum.splits if_splits)
  with g show ?thesis by (auto intro: grows.applied)
qed

subsection \<open>The invariant of a run\<close>

definition voted_at :: "system \<Rightarrow> nat \<Rightarrow> string \<Rightarrow> ballot \<Rightarrow> bool" where
  "voted_at s n v b \<longleftrightarrow> (\<exists>h. (n, b, v, h) \<in> sy_votes s)"

definition promised_at :: "system \<Rightarrow> nat \<Rightarrow> string \<Rightarrow> ballot \<Rightarrow> bool" where
  "promised_at s n v b \<longleftrightarrow> (\<exists>acc. (n, b, v, acc) \<in> sy_promises s)"

text \<open>What a seat reports as accepted is its newest vote.\<close>

definition newest :: "system \<Rightarrow> nat \<Rightarrow> string \<Rightarrow> accepted_proposal option \<Rightarrow> bool" where
  "newest s n v acc =
     (case acc of
        None \<Rightarrow> \<forall>b. \<not> voted_at s n v b
      | Some a \<Rightarrow> sy_proposals s (n, acp_ballot a) = Some (acp_transactions a) \<and> voted_at s n v (acp_ballot a) \<and>
          (\<forall>b. voted_at s n v b \<longrightarrow> \<not> outranks b (acp_ballot a)))"

definition row_ok :: "system \<Rightarrow> nat \<Rightarrow> string \<Rightarrow> (ballot \<times> accepted_proposal option) option \<Rightarrow> bool" where
  "row_ok s n v slot =
     (case slot of
        None \<Rightarrow> (\<forall>b. \<not> promised_at s n v b \<and> \<not> voted_at s n v b)
      | Some (p, acc) \<Rightarrow>
          (\<forall>b. promised_at s n v b \<or> voted_at s n v b \<longrightarrow> \<not> outranks b p) \<and> newest s n v acc)"

definition seats_ok :: "system \<Rightarrow> bool" where
  "seats_ok s \<longleftrightarrow> (\<forall>v. chain_inv (va_store (sy_apps s v)) \<and>
     (\<forall>n. height (va_store (sy_apps s v)) < n \<longrightarrow>
        row_ok s n v (fmlookup (db_ballots (va_store (sy_apps s v))) n)))"

text \<open>What a promise said stays true of the votes below its ballot.\<close>

definition promise_ok :: "system \<Rightarrow> nat \<Rightarrow> ballot \<Rightarrow> string \<Rightarrow> accepted_proposal option \<Rightarrow> bool" where
  "promise_ok s n b v acc =
     (case acc of
        None \<Rightarrow> \<forall>b'. voted_at s n v b' \<longrightarrow> \<not> outranks b b'
      | Some a \<Rightarrow> sy_proposals s (n, acp_ballot a) = Some (acp_transactions a) \<and> \<not> outranks (acp_ballot a) b \<and>
          (\<forall>b'. voted_at s n v b' \<longrightarrow> outranks b b' \<longrightarrow> \<not> outranks b' (acp_ballot a)))"

definition promises_ok :: "system \<Rightarrow> bool" where
  "promises_ok s \<longleftrightarrow> (\<forall>(n, b, v, acc)\<in>sy_promises s. promise_ok s n b v acc)"

definition quorum_at :: "validator_set \<Rightarrow> string set \<Rightarrow> bool" where
  "quorum_at vset Q \<longleftrightarrow> Q \<subseteq> member_ids vset \<and> set_threshold vset \<le> card Q"

definition safe_at :: "(nat \<Rightarrow> validator_set) \<Rightarrow> system \<Rightarrow> nat \<Rightarrow> ballot \<Rightarrow> ledger_transaction list \<Rightarrow> bool" where
  "safe_at vs s n b x \<longleftrightarrow>
     (\<exists>Q. quorum_at (vs n) Q \<and> (\<forall>v\<in>Q. promised_at s n v b) \<and>
        ((\<forall>v\<in>Q. \<forall>b'. voted_at s n v b' \<longrightarrow> \<not> outranks b b') \<or>
         (\<exists>b'. outranks b b' \<and> sy_proposals s (n, b') = Some x \<and>
            (\<forall>v\<in>Q. \<forall>b''. voted_at s n v b'' \<longrightarrow> outranks b b'' \<longrightarrow> \<not> outranks b'' b'))))"

definition proposals_ok :: "(nat \<Rightarrow> validator_set) \<Rightarrow> system \<Rightarrow> bool" where
  "proposals_ok vs s \<longleftrightarrow> finite (dom (sy_proposals s)) \<and>
     (\<forall>n b v. voted_at s n v b \<longrightarrow> sy_proposals s (n, b) \<noteq> None) \<and>
     (\<forall>n b x. sy_proposals s (n, b) = Some x \<longrightarrow> safe_at vs s n b x)"

definition sy_inv :: "(nat \<Rightarrow> validator_set) \<Rightarrow> system \<Rightarrow> bool" where
  "sy_inv vs s \<longleftrightarrow> seats_ok s \<and> promises_ok s \<and> proposals_ok vs s"

lemma not_outranks_trans: "\<not> outranks a b \<Longrightarrow> \<not> outranks b d \<Longrightarrow> \<not> outranks a d"
  using outranks_total outranks_trans by (metis)

text \<open>Stores that grew keep every row above their height.\<close>

lemma seats_ok_grows:
  assumes "seats_ok s" "grows c (va_store (sy_apps s v)) (va_store a')"
  shows "seats_ok (s\<lparr> sy_apps := (sy_apps s)(v := a') \<rparr>)"
proof -
  let ?s = "s\<lparr> sy_apps := (sy_apps s)(v := a') \<rparr>"
  have fr: "voted_at ?s = voted_at s" "promised_at ?s = promised_at s" "row_ok ?s = row_ok s"
    by (auto simp: fun_eq_iff voted_at_def promised_at_def row_ok_def newest_def split: option.splits)
  have "chain_inv (va_store (sy_apps s v))" using assms(1) by (simp add: seats_ok_def)
  from grows_inv[OF assms(2) this] assms(1) show ?thesis unfolding seats_ok_def fr by auto
qed

lemma sy_inv_grows:
  assumes "sy_inv vs s" "grows c (va_store (sy_apps s v)) (va_store a')"
  shows "sy_inv vs (s\<lparr> sy_apps := (sy_apps s)(v := a') \<rparr>)"
  using assms(1) seats_ok_grows[of s c v a'] assms(2)
  by (simp add: sy_inv_def promises_ok_def promise_ok_def proposals_ok_def safe_at_def voted_at_def promised_at_def
      cong: option.case_cong)

lemma sy_inv_start: "sy_start s \<Longrightarrow> sy_inv vs s"
  by (auto simp: sy_start_def sy_inv_def seats_ok_def row_ok_def promises_ok_def proposals_ok_def voted_at_def promised_at_def)

subsection \<open>Promises and votes\<close>

lemma prepare_effect:
  assumes "prepare c a r = (a', vote)"
  obtains (refused) "\<not> pv_promised vote" "va_store a' = va_store a"
  | (promised) "pv_promised vote" "pq_sequence r = height (va_store a) + 1"
      "case fmlookup (db_ballots (va_store a)) (pq_sequence r) of
         None \<Rightarrow> pv_accepted vote = None | Some (p, acc) \<Rightarrow> \<not> outranks p (pq_ballot r) \<and> pv_accepted vote = acc"
      "va_store a' = (va_store a)\<lparr> db_ballots :=
         fmupd (pq_sequence r) (pq_ballot r, pv_accepted vote) (db_ballots (va_store a)) \<rparr>"
proof (cases "pv_promised vote")
  case False
  then have "va_store a' = va_store a"
    using assms by (auto simp: prepare_def Let_def split: if_splits sum.splits)
  then show thesis using False that(1) by blast
next
  case True
  with assms have seq: "pq_sequence r = height (va_store a) + 1"
    by (auto simp: prepare_def Let_def app_height_store[symmetric] split: if_splits)
  with True assms obtain db' acc where pr: "promise (va_store a) (pq_sequence r) (pq_ballot r) = Inr (db', acc)"
    and v: "va_store a' = db'" "pv_accepted vote = acc"
    by (auto simp: prepare_def Let_def app_height_store split: sum.splits)
  from pr have "(case fmlookup (db_ballots (va_store a)) (pq_sequence r) of
         None \<Rightarrow> acc = None | Some (p, acc') \<Rightarrow> \<not> outranks p (pq_ballot r) \<and> acc = acc') \<and>
      db' = (va_store a)\<lparr> db_ballots := fmupd (pq_sequence r) (pq_ballot r, acc) (db_ballots (va_store a)) \<rparr>"
    by (auto simp: promise_def split: option.splits if_splits)
  then show thesis using v by (intro that(2)[OF True seq]) (simp_all cong: option.case_cong)
qed

lemma propose_effect:
  assumes "propose c a r = (a', vote)"
  obtains (refused) "\<not> vt_accepted vote" "va_store a' = va_store a"
  | (accepted) h where "vt_accepted vote" "pp_sequence r = height (va_store a) + 1"
      "case fmlookup (db_ballots (va_store a)) (pp_sequence r) of
         None \<Rightarrow> True | Some (p, acc) \<Rightarrow> \<not> outranks p (pp_ballot r)"
      "va_store a' = (va_store a)\<lparr> db_ballots := fmupd (pp_sequence r)
         (pp_ballot r, Some \<lparr> acp_ballot = pp_ballot r, acp_entry_hash = h, acp_transactions = pp_transactions r \<rparr>)
         (db_ballots (va_store a)) \<rparr>"
proof (cases "proposed_entry c a r")
  case (Inl e)
  then show thesis using assms by (intro that(1)) (auto simp: propose_def Let_def)
next
  case (Inr edb)
  obtain e db' where ed: "edb = (e, db')" by (cases edb)
  note pe = proposed_entry_ok[OF Inr[unfolded ed]]
  have v: "vt_accepted vote" "va_store a' = db'" using assms Inr ed by (auto simp: propose_def Let_def)
  have seq: "pp_sequence r = height (va_store a) + 1" using pe(1) by (simp add: app_height_store)
  have "case fmlookup (db_ballots (va_store a)) (pp_sequence r) of None \<Rightarrow> True | Some (p, acc) \<Rightarrow> \<not> outranks p (pp_ballot r)"
    using pe(5) pe(1) by (auto simp: accept_ballot_def split: option.splits if_splits)
  then show thesis using that(2)[OF v(1) seq] accept_ballot_frame(1)[OF pe(5)] v(2) pe(1) by simp
qed

text \<open>A safe proposal stays safe as long as the seats that promised its ballot cast no vote below it.\<close>

lemma safe_at_stable:
  assumes "safe_at vs s n b x"
    and "\<And>v. promised_at s n v b \<Longrightarrow> promised_at s' n v b"
    and "\<And>d y. sy_proposals s (n, d) = Some y \<Longrightarrow> sy_proposals s' (n, d) = Some y"
    and "\<And>v d. promised_at s n v b \<Longrightarrow> voted_at s' n v d \<Longrightarrow> outranks b d \<Longrightarrow> voted_at s n v d"
  shows "safe_at vs s' n b x"
proof -
  from assms(1) obtain Q where Q: "quorum_at (vs n) Q" "\<forall>v\<in>Q. promised_at s n v b"
    and alt: "(\<forall>v\<in>Q. \<forall>b'. voted_at s n v b' \<longrightarrow> \<not> outranks b b') \<or>
      (\<exists>b'. outranks b b' \<and> sy_proposals s (n, b') = Some x \<and>
         (\<forall>v\<in>Q. \<forall>b''. voted_at s n v b'' \<longrightarrow> outranks b b'' \<longrightarrow> \<not> outranks b'' b'))"
    unfolding safe_at_def by blast
  from alt have "(\<forall>v\<in>Q. \<forall>b'. voted_at s' n v b' \<longrightarrow> \<not> outranks b b') \<or>
      (\<exists>b'. outranks b b' \<and> sy_proposals s' (n, b') = Some x \<and>
         (\<forall>v\<in>Q. \<forall>b''. voted_at s' n v b'' \<longrightarrow> outranks b b'' \<longrightarrow> \<not> outranks b'' b'))"
  proof (elim disjE exE conjE)
    assume "\<forall>v\<in>Q. \<forall>b'. voted_at s n v b' \<longrightarrow> \<not> outranks b b'"
    with assms(4) Q(2) have "\<forall>v\<in>Q. \<forall>b'. voted_at s' n v b' \<longrightarrow> \<not> outranks b b'" by blast
    then show ?thesis by (rule disjI1)
  next
    fix b'
    assume "outranks b b'" "sy_proposals s (n, b') = Some x"
      "\<forall>v\<in>Q. \<forall>b''. voted_at s n v b'' \<longrightarrow> outranks b b'' \<longrightarrow> \<not> outranks b'' b'"
    with assms(3,4) Q(2) have "outranks b b' \<and> sy_proposals s' (n, b') = Some x \<and>
      (\<forall>v\<in>Q. \<forall>b''. voted_at s' n v b'' \<longrightarrow> outranks b b'' \<longrightarrow> \<not> outranks b'' b')" by blast
    then show ?thesis by blast
  qed
  with Q assms(2) show ?thesis unfolding safe_at_def by blast
qed

text \<open>A seat that promised.\<close>

lemma sy_inv_promise:
  assumes inv: "sy_inv vs s" and n: "n = height (va_store (sy_apps s v)) + 1"
    and slot: "case fmlookup (db_ballots (va_store (sy_apps s v))) n of
       None \<Rightarrow> acc = None | Some (p, acc') \<Rightarrow> \<not> outranks p b \<and> acc = acc'"
    and a': "va_store a' = (va_store (sy_apps s v))\<lparr> db_ballots := fmupd n (b, acc) (db_ballots (va_store (sy_apps s v))) \<rparr>"
  shows "sy_inv vs (s\<lparr> sy_apps := (sy_apps s)(v := a'), sy_promises := insert (n, b, v, acc) (sy_promises s) \<rparr>)"
proof -
  let ?s = "s\<lparr> sy_apps := (sy_apps s)(v := a'), sy_promises := insert (n, b, v, acc) (sy_promises s) \<rparr>"
  let ?db = "va_store (sy_apps s v)"
  have vt: "voted_at ?s = voted_at s" by (simp add: fun_eq_iff voted_at_def)
  have pr: "promised_at ?s m w d \<longleftrightarrow> promised_at s m w d \<or> (m, d, w) = (n, b, v)" for m w d
    by (auto simp: promised_at_def)
  have nw: "newest ?s = newest s" by (simp add: fun_eq_iff newest_def vt cong: option.case_cong)
  have old: "row_ok s n v (fmlookup (db_ballots ?db) n)" using inv n by (simp add: sy_inv_def seats_ok_def)
  then have rn: "newest s n v acc \<and> (\<forall>d. promised_at s n v d \<or> voted_at s n v d \<longrightarrow> \<not> outranks d b)"
    using slot by (auto simp: row_ok_def newest_def split: option.splits dest: not_outranks_trans)
  have "row_ok ?s n v (Some (b, acc))" using rn by (auto simp: row_ok_def nw vt pr)
  moreover have "row_ok ?s m w x = row_ok s m w x" if "(m, w) \<noteq> (n, v)" for m w x
    using that by (auto simp: row_ok_def vt pr nw split: option.splits)
  moreover have "chain_inv (va_store a') = chain_inv ?db" by (rule chain_inv_cong) (simp_all add: a')
  moreover have "height (va_store a') = height ?db" by (simp add: a' height_def)
  ultimately have seats: "seats_ok ?s" using inv unfolding sy_inv_def seats_ok_def by (auto simp: a' n)
  have "promise_ok s n b v acc" using rn by (auto simp: promise_ok_def newest_def split: option.splits)
  then have "promises_ok ?s" using inv
    by (auto simp: sy_inv_def promises_ok_def promise_ok_def vt split: option.splits)
  moreover have "proposals_ok vs ?s"
    using inv by (auto simp: sy_inv_def proposals_ok_def vt pr intro: safe_at_stable[of vs s])
  ultimately show ?thesis using seats by (simp add: sy_inv_def)
qed

text \<open>A seat that voted.\<close>

lemma sy_inv_vote:
  assumes inv: "sy_inv vs s" and n: "n = height (va_store (sy_apps s v)) + 1"
    and pd: "sy_proposals s (n, b) = Some txs"
    and slot: "case fmlookup (db_ballots (va_store (sy_apps s v))) n of None \<Rightarrow> True | Some (p, acc) \<Rightarrow> \<not> outranks p b"
    and acc: "acc = Some \<lparr> acp_ballot = b, acp_entry_hash = h, acp_transactions = txs \<rparr>"
    and a': "va_store a' = (va_store (sy_apps s v))\<lparr> db_ballots := fmupd n (b, acc) (db_ballots (va_store (sy_apps s v))) \<rparr>"
  shows "sy_inv vs (s\<lparr> sy_apps := (sy_apps s)(v := a'), sy_votes := insert (n, b, v, eh) (sy_votes s) \<rparr>)"
proof -
  let ?s = "s\<lparr> sy_apps := (sy_apps s)(v := a'), sy_votes := insert (n, b, v, eh) (sy_votes s) \<rparr>"
  let ?db = "va_store (sy_apps s v)"
  have pr: "promised_at ?s = promised_at s" by (simp add: fun_eq_iff promised_at_def)
  have vt: "voted_at ?s m w d \<longleftrightarrow> voted_at s m w d \<or> (m, d, w) = (n, b, v)" for m w d
    by (auto simp: voted_at_def)
  have "row_ok s n v (fmlookup (db_ballots ?db) n)" using inv n by (simp add: sy_inv_def seats_ok_def)
  then have rn: "\<forall>d. promised_at s n v d \<or> voted_at s n v d \<longrightarrow> \<not> outranks d b"
    using slot by (auto simp: row_ok_def split: option.splits dest: not_outranks_trans)
  have "row_ok ?s n v (Some (b, acc))" using rn pd by (auto simp: row_ok_def newest_def vt pr acc)
  moreover have "row_ok ?s m w x = row_ok s m w x" if "(m, w) \<noteq> (n, v)" for m w x
    using that by (auto simp: row_ok_def newest_def vt pr split: option.splits)
  moreover have "chain_inv (va_store a') = chain_inv ?db" by (rule chain_inv_cong) (simp_all add: a')
  moreover have "height (va_store a') = height ?db" by (simp add: a' height_def)
  ultimately have seats: "seats_ok ?s" using inv unfolding sy_inv_def seats_ok_def by (auto simp: a' n)
  have "promise_ok ?s m d w x" if "(m, d, w, x) \<in> sy_promises s" for m d w x
  proof -
    have "promise_ok s m d w x" using that inv by (auto simp: sy_inv_def promises_ok_def)
    moreover have "promised_at s m w d" using that by (auto simp: promised_at_def)
    ultimately show ?thesis using rn by (auto simp: promise_ok_def vt split: option.splits)
  qed
  then have "promises_ok ?s" by (auto simp: promises_ok_def)
  moreover have "safe_at vs ?s m d x" if "sy_proposals s (m, d) = Some x" for m d x
  proof (rule safe_at_stable[of vs s])
    show "safe_at vs s m d x" using inv that by (auto simp: sy_inv_def proposals_ok_def)
  qed (use rn in \<open>auto simp: pr vt\<close>)
  then have "proposals_ok vs ?s" using inv pd by (auto simp: sy_inv_def proposals_ok_def vt)
  ultimately show ?thesis using seats by (simp add: sy_inv_def)
qed

text \<open>A proposer that claimed the height.\<close>

lemma claim_height_quorum:
  assumes "claim_height cl n replies = (cl', Some adopt)" "cl_set cl = vset" "validate_validator_set vset = Inr ()"
    and "genuine s vset n b replies"
  obtains promises where "adopt = adopted promises" "quorum_at vset (pv_validator_id ` set promises)"
    "\<And>v. v \<in> set promises \<Longrightarrow> (n, b, pv_validator_id v, pv_accepted v) \<in> sy_promises s"
proof -
  let ?votes = "prepare_votes vset n replies"
  let ?promises = "filter pv_promised ?votes"
  have t: "set_threshold vset \<le> length ?promises" and ad: "adopt = adopted ?promises"
    using assms(1,2) by (auto simp: claim_height_def Let_def not_less split: if_splits)
  have ids: "distinct (map pv_validator_id ?votes)" "pv_validator_id ` set ?votes \<subseteq> member_ids vset"
    unfolding prepare_votes_def by (rule answered_ids[OF assms(3)]; simp)+
  then have "card (pv_validator_id ` set ?promises) = length ?promises"
    using distinct_card[of "map pv_validator_id ?promises"] by (simp add: distinct_map_filter)
  then have "quorum_at vset (pv_validator_id ` set ?promises)" using t ids(2) by (auto simp: quorum_at_def)
  moreover have "(n, b, pv_validator_id v, pv_accepted v) \<in> sy_promises s" if "v \<in> set ?promises" for v
  proof -
    from that obtain m where "m \<in> set (set_members vset)" "replies m = Some v" "pv_validator_id v = vm_validator_id m"
      by (auto simp: prepare_votes_def answered_mem)
    with that assms(4) show ?thesis by (auto simp: genuine_def)
  qed
  ultimately show thesis using that[OF ad] by blast
qed

lemma promised_safe:
  assumes inv: "sy_inv vs s" and fresh: "sy_proposals s (n, b) = None"
    and Q: "quorum_at (vs n) (pv_validator_id ` set promises)"
    and pr: "\<And>v. v \<in> set promises \<Longrightarrow> (n, b, pv_validator_id v, pv_accepted v) \<in> sy_promises s"
    and x: "adopted promises \<noteq> None \<Longrightarrow> adopted promises = Some a \<and> x = acp_transactions a"
  shows "safe_at vs s n b x"
proof -
  let ?Q = "pv_validator_id ` set promises"
  have ok: "promise_ok s n b (pv_validator_id v) (pv_accepted v)" if "v \<in> set promises" for v
    using pr[OF that] inv by (auto simp: sy_inv_def promises_ok_def)
  have prom: "\<forall>v\<in>?Q. promised_at s n v b" using pr by (auto simp: promised_at_def)
  show ?thesis
  proof (cases "adopted promises")
    case None
    have "\<forall>v\<in>?Q. \<forall>b'. voted_at s n v b' \<longrightarrow> \<not> outranks b b'"
      using ok adopted_None[OF None] by (auto simp: promise_ok_def)
    with Q prom show ?thesis unfolding safe_at_def by blast
  next
    case (Some a')
    with x have a: "adopted promises = Some a" "x = acp_transactions a" by auto
    from adopted_newest(1)[OF a(1)] obtain w where w: "w \<in> set promises" "pv_accepted w = Some a" by blast
    from ok[OF w(1)] w(2) have p: "sy_proposals s (n, acp_ballot a) = Some x" "\<not> outranks (acp_ballot a) b"
      by (simp_all add: promise_ok_def a(2))
    then have ba: "outranks b (acp_ballot a)"
      using fresh outranks_total[of b "acp_ballot a"] by (cases "b = acp_ballot a") auto
    have "\<forall>v\<in>?Q. \<forall>b''. voted_at s n v b'' \<longrightarrow> outranks b b'' \<longrightarrow> \<not> outranks b'' (acp_ballot a)"
    proof (intro ballI allI impI)
      fix v b''
      assume v: "v \<in> ?Q" and vt: "voted_at s n v b''" "outranks b b''"
      from v obtain u where u: "u \<in> set promises" "v = pv_validator_id u" by blast
      show "\<not> outranks b'' (acp_ballot a)"
      proof (cases "pv_accepted u")
        case None
        with ok[OF u(1)] vt u(2) show ?thesis by (auto simp: promise_ok_def)
      next
        case (Some d)
        with ok[OF u(1)] vt u(2) have "\<not> outranks b'' (acp_ballot d)" by (simp add: promise_ok_def)
        then show ?thesis using adopted_newest(2)[OF a(1) u(1) Some] by (rule not_outranks_trans)
      qed
    qed
    with Q prom p(1) ba show ?thesis unfolding safe_at_def by blast
  qed
qed

lemma sy_inv_claim:
  assumes inv: "sy_inv vs s" and fresh: "sy_proposals s (n, b) = None" and safe: "safe_at vs s n b x"
  shows "sy_inv vs (s\<lparr> sy_proposals := (sy_proposals s)((n, b) \<mapsto> x) \<rparr>)"
proof -
  let ?s = "s\<lparr> sy_proposals := (sy_proposals s)((n, b) \<mapsto> x) \<rparr>"
  have fr: "voted_at ?s = voted_at s" "promised_at ?s = promised_at s"
    by (simp_all add: fun_eq_iff voted_at_def promised_at_def)
  have keep: "sy_proposals s k = Some y \<Longrightarrow> sy_proposals ?s k = Some y" for k y using fresh by auto
  have nw: "newest s m v acc \<Longrightarrow> newest ?s m v acc" for m v acc
    using keep fresh by (auto simp: newest_def fr split: option.splits)
  have "row_ok s m v y \<Longrightarrow> row_ok ?s m v y" for m v y
    using nw by (auto simp: row_ok_def fr split: option.splits)
  then have "seats_ok ?s" using inv by (auto simp: sy_inv_def seats_ok_def)
  moreover have "promise_ok s m d v acc \<Longrightarrow> promise_ok ?s m d v acc" for m d v acc
    using keep fresh by (auto simp: promise_ok_def fr split: option.splits)
  then have "promises_ok ?s" using inv by (auto simp: sy_inv_def promises_ok_def)
  moreover have "safe_at vs s m d y \<Longrightarrow> safe_at vs ?s m d y" for m d y
    by (rule safe_at_stable[of vs s]) (use keep fresh in \<open>auto simp: fr\<close>)
  then have "proposals_ok vs ?s" using inv safe by (auto simp: sy_inv_def proposals_ok_def fr split: if_splits)
  ultimately show ?thesis by (simp add: sy_inv_def)
qed

lemma sy_step_inv:
  assumes "sy_step c vs s s'" "sy_inv vs s" "\<And>n. validate_validator_set (vs n) = Inr ()"
  shows "sy_inv vs s'"
  using assms(1)
proof cases
  case (prepare v r a' vote)
  from prepare(2) show ?thesis
  proof (cases rule: prepare_effect)
    case refused
    then have "grows c (va_store (sy_apps s v)) (va_store a')" by (simp add: grows.same)
    from sy_inv_grows[OF assms(2) this] refused(1) show ?thesis by (simp add: prepare(1))
  next
    case promised
    from sy_inv_promise[OF assms(2) promised(2-4)] promised(1) show ?thesis by (simp add: prepare(1))
  qed
next
  case (claim cl n replies cl' adopt b txs' txs)
  from claim_height_quorum[OF claim(2,3) assms(3) claim(4)] obtain promises where
    p: "adopt = adopted promises" "quorum_at (vs n) (pv_validator_id ` set promises)"
    "\<And>v. v \<in> set promises \<Longrightarrow> (n, b, pv_validator_id v, pv_accepted v) \<in> sy_promises s" by metis
  have "safe_at vs s n b txs'"
    by (rule promised_safe[OF assms(2) claim(5) p(2,3), where a = "the adopt"]) (use p(1) claim(6) in auto)
  from sy_inv_claim[OF assms(2) claim(5) this] show ?thesis by (simp add: claim(1))
next
  case (vote r v a' vote)
  from vote(3) show ?thesis
  proof (cases rule: propose_effect)
    case refused
    then have "grows c (va_store (sy_apps s v)) (va_store a')" by (simp add: grows.same)
    from sy_inv_grows[OF assms(2) this] refused(1) show ?thesis by (simp add: vote(1))
  next
    case (accepted h)
    from sy_inv_vote[OF assms(2) accepted(2) vote(2) accepted(3) refl accepted(4)] accepted(1)
    show ?thesis by (simp add: vote(1))
  qed
next
  case (commit fetch v cert a' answer)
  from sy_inv_grows[OF assms(2) commit_grows[OF commit(2)]] show ?thesis by (simp add: commit(1))
next
  case (heal fetch first again v a' answer)
  from sy_inv_grows[OF assms(2) heal_once_grows[OF heal(2)]] show ?thesis by (simp add: heal(1))
qed

lemma sy_reach_inv:
  assumes "sy_reach c vs s" "\<And>n. validate_validator_set (vs n) = Inr ()"
  shows "sy_inv vs s"
  using assms(1) by induction (auto intro: sy_inv_start sy_step_inv assms(2))

end
