(* ===== verification/Escrow.thy ===== *)
theory Escrow
  imports Store
begin

text \<open>
  Where the CU of a transaction goes.  The evidence of every accepted transaction fixes the two accounts
  and the amount of its postings, on the live path and on the audit path; what a job holds in escrow is
  therefore exactly the price of the shards of its split that nobody has settled yet.
\<close>

section \<open>The transfer the evidence names\<close>

definition refund_destination :: "job_refund_evidence \<Rightarrow> string" where
  "refund_destination e =
     (case rf_requester_auth e of None \<Rightarrow> COMMUNITY_ISSUANCE_ACCOUNT | Some a \<Rightarrow> ap_node_id a)"

definition flow :: "ledger_transaction \<Rightarrow> (string \<times> string \<times> int) option" where
  "flow t =
     (case tx_evidence t of
        EvJobReserve e \<Rightarrow>
          Some (ap_node_id (jr_requester_auth e), escrow_account (jr_job_id e), job_cost (jr_work e) (jr_shards e))
      | EvCommunityReserve job_id work shards _ \<Rightarrow>
          Some (COMMUNITY_ISSUANCE_ACCOUNT, escrow_account job_id, job_cost work shards)
      | EvProviderReward e \<Rightarrow>
          Some (escrow_account (pr_job_id e), ap_node_id (pr_provider_auth e), work_cost_mcu (pr_work e))
      | EvJobRefund e \<Rightarrow>
          Some (escrow_account (rf_job_id e), refund_destination e, work_cost_mcu (rf_work e))
      | EvInferenceReserve e \<Rightarrow>
          Some (ap_node_id (ir_requester_auth e), escrow_account (ir_job_id e), billing_cost (ir_billing e))
      | EvInferenceReceipt e \<Rightarrow>
          Some (escrow_account (rc_job_id e), inference_holding_account (rc_assignment_id e), rc_price_mcu e)
      | EvInferenceRefund e \<Rightarrow>
          Some (escrow_account (ifd_job_id e), ap_node_id (ifd_requester_auth e), ifd_refund_mcu e)
      | EvInferenceReward e \<Rightarrow>
          Some (inference_holding_account (iw_assignment_id e), ap_node_id (iw_provider_auth e), iw_reward_mcu e)
      | EvInferenceDispute e \<Rightarrow>
          Some (inference_holding_account (dp_assignment_id e), COMMUNITY_ISSUANCE_ACCOUNT, dp_price_mcu e)
      | EvInferenceExpiry e \<Rightarrow>
          Some (inference_holding_account (ex_assignment_id e), COMMUNITY_ISSUANCE_ACCOUNT, ex_price_mcu e)
      | EvMembershipChange _ \<Rightarrow> None)"

definition follows_flow :: "ledger_transaction \<Rightarrow> bool" where
  "follows_flow t =
     (case flow t of
        None \<Rightarrow> tx_postings t = []
      | Some (src, dst, amt) \<Rightarrow> src \<noteq> dst \<and> 0 < amt \<and> amt \<le> i64_max \<and> moves (tx_postings t) src dst amt)"

text \<open>A reserve asks for at most 256 shards: the live path checks it, the audit path relies on it.\<close>

definition shards_ok :: "ledger_transaction \<Rightarrow> bool" where
  "shards_ok t = (case tx_evidence t of EvJobReserve e \<Rightarrow> jr_shards e \<le> 256 | _ \<Rightarrow> True)"

lemma moves_amount_le:
  "tx_typed t \<Longrightarrow> moves (tx_postings t) src dst amt \<Longrightarrow> amt \<le> i64_max"
  by (auto simp: tx_typed_def moves_def list_ex_iff in_i64_def)

lemma billing_cost_bounds: "0 < billing_cost b" "billing_cost b \<le> i64_max"
  using inference_cost_bounds[of "ib_prompt_bytes b" "ib_max_tokens b" "ib_parameter_count b"]
  by (auto simp: billing_cost_def)

lemma job_cost_bounds: "n \<le> 256 \<Longrightarrow> 0 < job_cost w n" "n \<le> 256 \<Longrightarrow> job_cost w n \<le> i64_max"
  using job_cost_eq(2,3)[of n w] by simp_all

lemma work_cost_bounds': "0 < work_cost_mcu w" "work_cost_mcu w \<le> i64_max"
  using work_cost_bounds[of w] by simp_all

lemma refund_payee_ok:
  assumes "refund_payee c e = Inr payee"
  shows "payee = refund_destination e \<and> (\<forall>j. escrow_account j \<noteq> refund_destination e)"
proof -
  have eq: "payee = refund_destination e"
    using assms by (auto simp: refund_payee_def refund_destination_def split: option.splits if_splits)
  show ?thesis using refund_payee_not_escrow[OF assms] unfolding eq by metis
qed

lemma verified_never_account:
  assumes "verify_auth_signature c k p act h = Inr ()"
  shows "\<forall>j. escrow_account j \<noteq> ap_node_id p \<and> ap_node_id p \<noteq> escrow_account j \<and>
    ap_node_id p \<noteq> COMMUNITY_ISSUANCE_ACCOUNT \<and> inference_holding_account j \<noteq> ap_node_id p"
  using verified_not_account[OF assms] by metis

lemmas flow_bounds = billing_cost_bounds job_cost_bounds work_cost_bounds'

lemma batch_cost_bounds:
  "0 < inference_batch_cost_mcu ps a b m p" "inference_batch_cost_mcu ps a b m p \<le> i64_max"
  using inference_cost_bounds by (simp_all add: inference_batch_cost_mcu_def Let_def int_one_le_iff_zero_less[symmetric])

lemma reserved_batch_price: "reserved_batch c r aid a b = Inr (batch, price) \<Longrightarrow> 0 < price"
  using batch_cost_bounds(1) by (auto simp: reserved_batch_def Let_def split: option.splits if_splits)

lemma history_flow:
  assumes "historical_match c t vset = Inr ()" "verify_historical_evidence c t prev sigs = Inr ()"
    and "tx_typed t" "shards_ok t"
  shows "follows_flow t"
  using assms
  by (cases "tx_evidence t"; cases "tx_kind t";
      simp add: historical_match_def verify_historical_evidence_def follows_flow_def flow_def shards_ok_def
        split: if_splits)
     (auto simp: validate_community_reserve_def flow_bounds auth_defs expired_receipt_def Let_def
        dest: moves_amount_le dest!: verified_never_account refund_payee_ok split: if_splits option.splits)

lemma live_flow:
  assumes "validate_evidence c t prev res vset = Inr ()" and "tx_typed t"
  shows "follows_flow t"
  using assms
  by (cases "tx_evidence t"; cases "tx_kind t";
      simp add: validate_evidence_def follows_flow_def flow_def split: if_splits)
     (auto simp: live_defs flow_bounds auth_defs expired_receipt_def Let_def
        dest: moves_amount_le reserved_batch_price dest!: verified_never_account refund_payee_ok
        split: if_splits option.splits)

lemma validate_historical_follows:
  assumes "validate_historical_transaction c t prev sigs b vset = Inr ()" "tx_typed t" "shards_ok t"
  shows "follows_flow t"
  using assms history_flow[of c t vset prev sigs]
  by (auto simp: validate_historical_transaction_def validate_membership_shape_def follows_flow_def flow_def
      split: transaction_evidence.splits if_splits)

lemma validate_follows:
  assumes "validate_transaction c t prev b res vset = Inr ()" "tx_typed t"
  shows "follows_flow t"
  using assms live_flow[of c t prev res vset]
  by (auto simp: validate_transaction_def validate_membership_shape_def follows_flow_def flow_def
      split: transaction_evidence.splits if_splits)

text \<open>What a transaction does to the escrow of a job.\<close>

definition escrow_delta :: "ledger_transaction \<Rightarrow> string \<Rightarrow> int" where
  "escrow_delta t j =
     (case tx_evidence t of
        EvJobReserve e \<Rightarrow> if jr_job_id e = j then job_cost (jr_work e) (jr_shards e) else 0
      | EvCommunityReserve job_id work shards _ \<Rightarrow> if job_id = j then job_cost work shards else 0
      | EvProviderReward e \<Rightarrow> if pr_job_id e = j then - work_cost_mcu (pr_work e) else 0
      | EvJobRefund e \<Rightarrow> if rf_job_id e = j then - work_cost_mcu (rf_work e) else 0
      | EvInferenceReserve e \<Rightarrow> if ir_job_id e = j then billing_cost (ir_billing e) else 0
      | EvInferenceReceipt e \<Rightarrow> if rc_job_id e = j then - rc_price_mcu e else 0
      | EvInferenceRefund e \<Rightarrow> if ifd_job_id e = j then - ifd_refund_mcu e else 0
      | _ \<Rightarrow> 0)"

lemma follows_net:
  assumes "follows_flow t"
  shows "net (tx_postings t) a =
    (case flow t of None \<Rightarrow> 0 | Some (src, dst, amt) \<Rightarrow> (if a = dst then amt else 0) - (if a = src then amt else 0))"
  using assms moves_net(1) by (auto simp: follows_flow_def split: option.splits)

lemma history_escrow_net:
  assumes "validate_historical_transaction c t prev sigs b vset = Inr ()" "tx_typed t" "shards_ok t"
  shows "net (tx_postings t) (escrow_account j) = escrow_delta t j"
  unfolding follows_net[OF validate_historical_follows[OF assms]] using assms(1)
  by (cases "tx_evidence t")
     (auto simp: flow_def escrow_delta_def validate_historical_transaction_def verify_historical_evidence_def
        auth_defs dest!: verified_never_account refund_payee_ok)

section \<open>The escrow of a job\<close>

text \<open>The shard a transaction settles, and what the shards outside a set of settled ones cost.\<close>

definition settles :: "ledger_transaction \<Rightarrow> (string \<times> nat) option" where
  "settles t =
     (case tx_evidence t of
        EvProviderReward e \<Rightarrow> Some (pr_job_id e, pr_shard_index e)
      | EvJobRefund e \<Rightarrow> Some (rf_job_id e, rf_shard_index e)
      | _ \<Rightarrow> None)"

definition unsettled_price :: "(string \<times> nat) set \<Rightarrow> string \<Rightarrow> work_spec \<Rightarrow> nat \<Rightarrow> int" where
  "unsettled_price S j root n =
     (\<Sum>i | i < length (split_work root n) \<and> (j, i) \<notin> S. work_cost_mcu (split_work root n ! i))"

definition escrow_inv :: "crypto \<Rightarrow> (string \<times> nat) set \<Rightarrow> ledger_state \<Rightarrow> bool" where
  "escrow_inv c S s \<longleftrightarrow>
     (\<forall>j root n sys req at. fmlookup (ls_reservations s) j = Some (root, n, sys, req, at) \<longrightarrow>
        book_of s (escrow_account j) = unsettled_price S j root n) \<and>
     (\<forall>j. fmlookup (ls_reservations s) j = None \<longrightarrow> fmlookup (ls_inference s) j = None \<longrightarrow>
        book_of s (escrow_account j) = 0) \<and>
     (\<forall>j. fmlookup (ls_reservations s) j \<noteq> None \<longrightarrow>
        fmlookup (ls_inference s) j = None \<and> ''reserve:'' @ j |\<in>| ls_claims s) \<and>
     (\<forall>j. fmlookup (ls_inference s) j \<noteq> None \<longrightarrow> ''reserve:'' @ j |\<in>| ls_claims s) \<and>
     (\<forall>j i. (j, i) \<in> S \<longrightarrow> fmlookup (ls_reservations s) j \<noteq> None \<and>
        ''reward:'' @ assignment_id c j i |\<in>| ls_claims s)"

lemma unsettled_price_all:
  assumes "\<forall>i. (j, i) \<notin> S" shows "unsettled_price S j root n = sum_list (map work_cost_mcu (split_work root n))"
  using assms by (simp add: unsettled_price_def sum_list_sum_nth lessThan_atLeast0[symmetric] lessThan_def)

lemma unsettled_price_settle:
  assumes "(j, i) \<notin> S" "i < length (split_work root n)"
  shows "unsettled_price (insert (j, i) S) j root n =
    unsettled_price S j root n - work_cost_mcu (split_work root n ! i)"
proof -
  let ?A = "{k. k < length (split_work root n) \<and> (j, k) \<notin> S}"
  have "{k. k < length (split_work root n) \<and> (j, k) \<notin> insert (j, i) S} = ?A - {i}" by auto
  then show ?thesis using assms by (simp add: unsettled_price_def sum_diff1)
qed

lemma unsettled_price_other: "j \<noteq> k \<Longrightarrow> unsettled_price (insert (k, i) S) j root n = unsettled_price S j root n"
  by (simp add: unsettled_price_def)

text \<open>One replayed transaction.\<close>

lemma audit_transaction_steps:
  assumes "audit_transaction c cert t (s, act) = Inr (s', act')"
  obtains s2 where "claim_key t |\<notin>| ls_claims s"
    "validate_historical_transaction c t (en_previous_hash (qc_entry cert)) (qc_signatures cert) (book_of s) act = Inr ()"
    "audit_evidence c t (s\<lparr> ls_claims := finsert (claim_key t) (ls_claims s) \<rparr>, act) = Inr (s2, act')"
    "ls_claims s' = finsert (claim_key t) (ls_claims s)"
    "ls_reservations s' = ls_reservations s2" "ls_inference s' = ls_inference s2"
proof -
  let ?s1 = "s\<lparr> ls_claims := finsert (claim_key t) (ls_claims s) \<rparr>"
  from assms(1) obtain s2 where f: "claim_key t |\<notin>| ls_claims s"
    and v: "validate_historical_transaction c t (en_previous_hash (qc_entry cert)) (qc_signatures cert)
       (\<lambda>a. fm_get 0 (ls_balances ?s1) a) act = Inr ()"
    and e: "audit_evidence c t (?s1, act) = Inr (s2, act')"
    and p: "fold_result audit_posting (tx_postings t) s2 = Inr s'"
    by (auto simp: audit_transaction_def Let_def split: if_splits)
  from that[OF f _ e] v audit_postings_ok[OF p] audit_evidence_frame(2)[OF e] show thesis
    by (simp add: book_of_def[abs_def])
qed

text \<open>How the tables of reservations change, and what the audit asks of a settlement.\<close>

lemma audit_evidence_tables:
  assumes "audit_evidence c t (s, act) = Inr (s2, act')"
  shows "case tx_evidence t of
      EvJobReserve e \<Rightarrow> ls_inference s2 = ls_inference s \<and>
        ls_reservations s2 = fmupd (jr_job_id e) (jr_work e, jr_shards e, False,
          Some (ap_node_id (jr_requester_auth e)), tx_created_at t) (ls_reservations s)
    | EvCommunityReserve j w n _ \<Rightarrow> ls_inference s2 = ls_inference s \<and>
        ls_reservations s2 = fmupd j (w, n, True, None, tx_created_at t) (ls_reservations s)
    | EvInferenceReserve e \<Rightarrow> ls_reservations s2 = ls_reservations s \<and>
        ls_inference s2 = fmupd (ir_job_id e) (ir_billing e, ir_batches e,
          ap_node_id (ir_requester_auth e), tx_created_at t) (ls_inference s)
    | _ \<Rightarrow> ls_reservations s2 = ls_reservations s \<and> ls_inference s2 = ls_inference s"
  using assms by (auto simp: audit_evidence_def Let_def split: transaction_evidence.splits if_splits)

lemma audit_evidence_settles:
  assumes "audit_evidence c t (s, act) = Inr (s2, act')" "settles t = Some (j, i)"
  obtains root n sys req at where "fmlookup (ls_reservations s) j = Some (root, n, sys, req, at)"
    "i < length (split_work root n)" "escrow_delta t j = - work_cost_mcu (split_work root n ! i)"
  using assms
  by (auto simp: audit_evidence_def settles_def audit_reward_def audit_refund_def reserved_shard_def escrow_delta_def
      Let_def split: transaction_evidence.splits option.splits prod.splits if_splits)

lemma audit_evidence_inference:
  assumes "audit_evidence c t (s, act) = Inr (s2, act')"
    and "tx_evidence t = EvInferenceReceipt e \<and> j = rc_job_id e \<or> tx_evidence t = EvInferenceRefund e' \<and> j = ifd_job_id e'"
  shows "fmlookup (ls_inference s) j \<noteq> None"
  using assms
  by (auto simp: audit_evidence_def audit_inference_receipt_def audit_inference_refund_def Let_def
      split: transaction_evidence.splits option.splits)

lemma settles_claim:
  assumes "validate_historical_transaction c t prev sigs b vset = Inr ()" "settles t = Some (j, i)"
  shows "claim_key t = ''reward:'' @ assignment_id c j i"
  using assms
  by (auto simp: validate_historical_transaction_def historical_match_def settles_def claim_key_def
      split: transaction_evidence.splits transaction_kind.splits if_splits)

lemma escrow_inv_reserve:
  assumes inv: "escrow_inv c S s" and new: "''reserve:'' @ j |\<notin>| ls_claims s" and n: "n \<le> 256"
    and s': "ls_reservations s' = fmupd j (w, n, sys, req, at) (ls_reservations s)"
      "ls_inference s' = ls_inference s" "ls_claims s' = finsert (''reserve:'' @ j) (ls_claims s)"
    and bk: "\<And>k. book_of s' (escrow_account k) = book_of s (escrow_account k) + (if j = k then job_cost w n else 0)"
  shows "escrow_inv c S s'"
proof -
  have none: "fmlookup (ls_reservations s) j = None" "fmlookup (ls_inference s) j = None"
    using inv new unfolding escrow_inv_def by blast+
  then have "\<forall>i. (j, i) \<notin> S" using inv unfolding escrow_inv_def by blast
  then have "unsettled_price S j w n = job_cost w n" using n by (simp add: unsettled_price_all job_cost_eq)
  then show ?thesis using inv none unfolding escrow_inv_def s' bk by auto
qed

lemma escrow_inv_frame:
  assumes inv: "escrow_inv c S s" and t: "ls_reservations s' = ls_reservations s" "ls_claims s |\<subseteq>| ls_claims s'"
    and i: "\<And>k. fmlookup (ls_inference s') k \<noteq> None \<Longrightarrow>
       fmlookup (ls_inference s) k \<noteq> None \<or> fmlookup (ls_reservations s) k = None \<and> ''reserve:'' @ k |\<in>| ls_claims s'"
      "\<And>k. fmlookup (ls_inference s') k = None \<Longrightarrow> fmlookup (ls_inference s) k = None"
    and bk: "\<And>k. fmlookup (ls_inference s') k = None \<Longrightarrow> book_of s' (escrow_account k) = book_of s (escrow_account k)"
  shows "escrow_inv c S s'"
  unfolding escrow_inv_def t(1)
proof (intro conjI allI impI)
  fix k root n sys req at
  assume k: "fmlookup (ls_reservations s) k = Some (root, n, sys, req, at)"
  then have "fmlookup (ls_inference s) k = None" using inv unfolding escrow_inv_def by auto
  then have "fmlookup (ls_inference s') k = None" using i(1)[of k] k by (metis option.distinct(1))
  with bk k inv show "book_of s' (escrow_account k) = unsettled_price S k root n" unfolding escrow_inv_def by auto
next
  fix k
  assume k: "fmlookup (ls_reservations s) k = None" "fmlookup (ls_inference s') k = None"
  with bk i(2)[OF k(2)] inv show "book_of s' (escrow_account k) = 0" unfolding escrow_inv_def by auto
next
  fix k
  assume k: "fmlookup (ls_reservations s) k \<noteq> None"
  then have *: "fmlookup (ls_inference s) k = None" "''reserve:'' @ k |\<in>| ls_claims s"
    using inv unfolding escrow_inv_def by blast+
  with t(2) show "''reserve:'' @ k |\<in>| ls_claims s'" by (rule_tac fsubsetD)
  show "fmlookup (ls_inference s') k = None" using i(1)[of k] * k by blast
next
  fix k
  assume "fmlookup (ls_inference s') k \<noteq> None"
  with i(1)[of k] inv t(2) show "''reserve:'' @ k |\<in>| ls_claims s'" unfolding escrow_inv_def by (meson fsubsetD)
next
  fix k l
  assume "(k, l) \<in> S"
  then have "fmlookup (ls_reservations s) k \<noteq> None" "''reward:'' @ assignment_id c k l |\<in>| ls_claims s"
    using inv unfolding escrow_inv_def by blast+
  then show "fmlookup (ls_reservations s) k \<noteq> None" "''reward:'' @ assignment_id c k l |\<in>| ls_claims s'"
    using t(2) by (simp, meson fsubsetD)
qed

lemma escrow_inv_reserve_inference:
  assumes inv: "escrow_inv c S s" and new: "''reserve:'' @ j |\<notin>| ls_claims s"
    and s': "ls_reservations s' = ls_reservations s" "ls_inference s' = fmupd j r (ls_inference s)"
      "ls_claims s' = finsert (''reserve:'' @ j) (ls_claims s)"
    and bk: "\<And>k. k \<noteq> j \<Longrightarrow> book_of s' (escrow_account k) = book_of s (escrow_account k)"
  shows "escrow_inv c S s'"
proof -
  have "fmlookup (ls_reservations s) j = None" using inv new unfolding escrow_inv_def by blast
  then show ?thesis by (intro escrow_inv_frame[OF inv s'(1)]) (auto simp: s' bk split: if_splits)
qed

lemma escrow_inv_keep:
  assumes "escrow_inv c S s" "ls_reservations s' = ls_reservations s" "ls_inference s' = ls_inference s"
    and "ls_claims s |\<subseteq>| ls_claims s'"
    and "\<And>k. fmlookup (ls_inference s) k = None \<Longrightarrow> book_of s' (escrow_account k) = book_of s (escrow_account k)"
  shows "escrow_inv c S s'"
  using assms by (intro escrow_inv_frame[OF assms(1)]) auto

lemma escrow_inv_settle:
  assumes inv: "escrow_inv c S s" "ls_reservations s' = ls_reservations s" "ls_inference s' = ls_inference s"
    and claim: "''reward:'' @ assignment_id c j i |\<notin>| ls_claims s"
      "ls_claims s' = finsert (''reward:'' @ assignment_id c j i) (ls_claims s)"
    and res: "fmlookup (ls_reservations s) j = Some (root, n, sys, req, at)" "i < length (split_work root n)"
    and bk: "\<And>k. book_of s' (escrow_account k) = book_of s (escrow_account k) -
       (if j = k then work_cost_mcu (split_work root n ! i) else 0)"
  shows "escrow_inv c (insert (j, i) S) s'"
proof -
  have "(j, i) \<notin> S" using inv(1) claim(1) unfolding escrow_inv_def by blast
  then have "unsettled_price (insert (j, i) S) k w m = unsettled_price S k w m -
      (if j = k then work_cost_mcu (split_work root n ! i) else 0)"
    if "fmlookup (ls_reservations s) k = Some (w, m, sy, rq, t)" for k w m sy rq t
    using that res unsettled_price_settle[OF _ res(2)] unsettled_price_other[of k j] by auto
  then show ?thesis using inv(1) res(1) unfolding escrow_inv_def inv(2,3) claim(2) bk by auto
qed

lemma escrow_inv_step:
  assumes a: "audit_transaction c cert t (s, act) = Inr (s', act')" and t: "tx_typed t" "shards_ok t"
    and inv: "escrow_inv c S s"
  shows "escrow_inv c (set_option (settles t) \<union> S) s'"
proof -
  let ?s1 = "s\<lparr> ls_claims := finsert (claim_key t) (ls_claims s) \<rparr>"
  from a obtain s2 where new: "claim_key t |\<notin>| ls_claims s"
    and v: "validate_historical_transaction c t (en_previous_hash (qc_entry cert)) (qc_signatures cert) (book_of s) act = Inr ()"
    and e: "audit_evidence c t (?s1, act) = Inr (s2, act')"
    and s': "ls_claims s' = finsert (claim_key t) (ls_claims s)"
      "ls_reservations s' = ls_reservations s2" "ls_inference s' = ls_inference s2"
    by (rule audit_transaction_steps)
  have bk: "book_of s' (escrow_account k) = book_of s (escrow_account k) + escrow_delta t k" for k
    using audit_transaction_ok(2)[OF a t(1)] history_escrow_net[OF v t] by simp
  have cl: "ls_claims s |\<subseteq>| ls_claims s'" using s'(1) by auto
  note tb = audit_evidence_tables[OF e]
  show ?thesis
  proof (cases "settles t")
    case (Some ji)
    obtain j i where ji: "ji = (j, i)" by (cases ji)
    note st = Some[unfolded ji]
    from e st obtain root n sys req at where
      r: "fmlookup (ls_reservations ?s1) j = Some (root, n, sys, req, at)" "i < length (split_work root n)"
      "escrow_delta t j = - work_cost_mcu (split_work root n ! i)" by (rule audit_evidence_settles)
    have k: "escrow_delta t k = 0" if "j \<noteq> k" for k
      using st that by (auto simp: settles_def escrow_delta_def split: transaction_evidence.splits)
    have "escrow_inv c (insert (j, i) S) s'"
    proof (rule escrow_inv_settle[OF inv])
      show "ls_reservations s' = ls_reservations s" "ls_inference s' = ls_inference s"
        using tb st by (simp_all add: s' settles_def split: transaction_evidence.splits)
    qed (use settles_claim[OF v st] new s'(1) r k bk in auto)
    then show ?thesis by (simp add: st)
  next
    case None
    have "escrow_inv c S s'"
    proof (cases "tx_evidence t")
      case (EvJobReserve e')
      show ?thesis by (rule escrow_inv_reserve[OF inv])
        (use EvJobReserve new tb t(2) in \<open>auto simp: s' bk claim_key_def escrow_delta_def shards_ok_def\<close>)
    next
      case (EvCommunityReserve j w n sp)
      have "n \<le> 256" using v EvCommunityReserve
        by (auto simp: validate_historical_transaction_def verify_historical_evidence_def split: if_splits)
      then show ?thesis by (intro escrow_inv_reserve[OF inv])
        (use EvCommunityReserve new tb in \<open>auto simp: s' bk claim_key_def escrow_delta_def\<close>)
    next
      case (EvInferenceReserve e')
      show ?thesis by (rule escrow_inv_reserve_inference[OF inv])
        (use EvInferenceReserve new tb in \<open>auto simp: s' bk claim_key_def escrow_delta_def\<close>)
    qed (use None tb cl audit_evidence_inference[OF e] in
        \<open>intro escrow_inv_keep[OF inv]; auto simp: s' bk escrow_delta_def settles_def\<close>)+
    then show ?thesis by (simp add: None)
  qed
qed

lemma escrow_inv_transactions:
  assumes "fold_result (audit_transaction c cert) ts (s, act) = Inr (s', act')"
    and "\<forall>t\<in>set ts. tx_typed t \<and> shards_ok t" "escrow_inv c S s"
  shows "escrow_inv c ((\<Union>t\<in>set ts. set_option (settles t)) \<union> S) s'"
  using assms
proof (induction ts arbitrary: s act S)
  case (Cons t ts)
  from Cons.prems(1) obtain s1 act1 where 1: "audit_transaction c cert t (s, act) = Inr (s1, act1)"
    "fold_result (audit_transaction c cert) ts (s1, act1) = Inr (s', act')" by auto
  have "escrow_inv c (set_option (settles t) \<union> S) s1" by (rule escrow_inv_step[OF 1(1)]) (use Cons.prems in auto)
  from Cons.IH[OF 1(2) _ this] Cons.prems(2) show ?case by (simp add: Un_assoc Un_left_commute)
qed simp

lemma escrow_inv_certificates:
  assumes "fold_result (audit_certificate c) certs (seq, prev, s, act) = Inr (seq', prev', s', act')"
    and "\<forall>t\<in>set (concat (map cert_txs certs)). tx_typed t \<and> shards_ok t" "escrow_inv c S s"
  shows "escrow_inv c ((\<Union>t\<in>set (concat (map cert_txs certs)). set_option (settles t)) \<union> S) s'"
  using assms
proof (induction certs arbitrary: seq prev s act S)
  case (Cons cert certs)
  from Cons.prems(1) obtain cur where cur: "audit_certificate c cert (seq, prev, s, act) = Inr cur"
    "fold_result (audit_certificate c) certs cur = Inr (seq', prev', s', act')" by auto
  obtain n1 h1 s1 act1 where c1: "cur = (n1, h1, s1, act1)" by (cases cur)
  from cur(1)[unfolded c1 audit_certificate_ok]
  have 1: "fold_result (audit_transaction c cert) (cert_txs cert) (s, act) = Inr (s1, act1)" by blast
  have "escrow_inv c ((\<Union>t\<in>set (cert_txs cert). set_option (settles t)) \<union> S) s1"
    by (rule escrow_inv_transactions[OF 1]) (use Cons.prems(2,3) in auto)
  from Cons.IH[OF cur(2)[unfolded c1] _ this] Cons.prems(2) show ?case
    by (simp add: Un_assoc Un_left_commute)
qed simp

lemma escrow_inv_start: "escrow_inv c {} default_state"
  by (simp add: escrow_inv_def default_state_def book_of_def)

text \<open>A job once reserved stays in the table the replay keeps.\<close>

definition reserves :: "ledger_transaction \<Rightarrow> (string \<times> work_spec \<times> nat) option" where
  "reserves t =
     (case tx_evidence t of
        EvJobReserve e \<Rightarrow> Some (jr_job_id e, jr_work e, jr_shards e)
      | EvCommunityReserve job_id work shards _ \<Rightarrow> Some (job_id, work, shards)
      | _ \<Rightarrow> None)"

definition recorded :: "ledger_state \<Rightarrow> string \<times> work_spec \<times> nat \<Rightarrow> bool" where
  "recorded s r = (case r of (j, root, n) \<Rightarrow> \<exists>rest. fmlookup (ls_reservations s) j = Some (root, n, rest))"

lemma audit_transaction_recorded:
  assumes "audit_transaction c cert t (s, act) = Inr (s', act')"
  shows "recorded s r \<Longrightarrow> recorded s' r" and "reserves t = Some r \<Longrightarrow> recorded s' r"
proof -
  from assms obtain s2 where
    e: "audit_evidence c t (s\<lparr> ls_claims := finsert (claim_key t) (ls_claims s) \<rparr>, act) = Inr (s2, act')"
    and r: "ls_reservations s' = ls_reservations s2" by (rule audit_transaction_steps)
  show "recorded s r \<Longrightarrow> recorded s' r" "reserves t = Some r \<Longrightarrow> recorded s' r"
    using e unfolding recorded_def r
    by (auto simp: audit_evidence_def reserves_def Let_def split: transaction_evidence.splits if_splits)
qed

lemma audit_transactions_recorded:
  assumes "fold_result (audit_transaction c cert) ts (s, act) = Inr (s', act')"
  shows "recorded s r \<or> (\<exists>t\<in>set ts. reserves t = Some r) \<Longrightarrow> recorded s' r"
  using assms
proof (induction ts arbitrary: s act)
  case (Cons t ts)
  from Cons.prems(2) obtain s1 act1 where 1: "audit_transaction c cert t (s, act) = Inr (s1, act1)"
    "fold_result (audit_transaction c cert) ts (s1, act1) = Inr (s', act')" by auto
  have "recorded s1 r \<or> (\<exists>t\<in>set ts. reserves t = Some r)"
    using Cons.prems(1) audit_transaction_recorded[OF 1(1), of r] by auto
  from Cons.IH[OF this 1(2)] show ?case .
qed simp

lemma audit_certificates_recorded:
  assumes "fold_result (audit_certificate c) certs (seq, prev, s, act) = Inr (seq', prev', s', act')"
  shows "recorded s r \<or> (\<exists>t\<in>set (concat (map cert_txs certs)). reserves t = Some r) \<Longrightarrow> recorded s' r"
  using assms
proof (induction certs arbitrary: seq prev s act)
  case (Cons cert certs)
  from Cons.prems(2) obtain cur where cur: "audit_certificate c cert (seq, prev, s, act) = Inr cur"
    "fold_result (audit_certificate c) certs cur = Inr (seq', prev', s', act')" by auto
  obtain n1 h1 s1 act1 where c1: "cur = (n1, h1, s1, act1)" by (cases cur)
  from cur(1)[unfolded c1 audit_certificate_ok]
  have 1: "fold_result (audit_transaction c cert) (cert_txs cert) (s, act) = Inr (s1, act1)" by blast
  have "recorded s1 r \<or> (\<exists>t\<in>set (concat (map cert_txs certs)). reserves t = Some r)"
    using Cons.prems(1) audit_transactions_recorded[OF 1, of r] by auto
  from Cons.IH[OF this cur(2)[unfolded c1]] show ?case .
qed simp

text \<open>What an audited chain leaves in the escrow of a job.\<close>

lemma audited_escrow_balance:
  assumes "audit c db vset = Inr head"
    and "txs = concat (map cert_txs (certificates_from db 1 None))"
    and "validate_validator_set vset = Inr ()" "set_community_issuance_limit_mcu vset \<le> i64_max"
    and "\<forall>t\<in>set txs. tx_typed t \<and> shards_ok t"
    and "t \<in> set txs" "reserves t = Some (j, root, n)"
    and "settled = {i. \<exists>u\<in>set txs. settles u = Some (j, i)}"
  shows "net (concat (map tx_postings txs)) (escrow_account j) =
    (\<Sum>i | i < length (split_work root n) \<and> i \<notin> settled. work_cost_mcu (split_work root n ! i))"
proof -
  let ?limit = "set_community_issuance_limit_mcu vset"
  let ?S = "(\<Union>t\<in>set txs. set_option (settles t)) \<union> {}"
  have pos: "0 < ?limit" using assms(3) by (simp add: validate_validator_set_ok)
  from assms(1) obtain seq prev s act where
    r: "fold_result (audit_certificate c) (certificates_from db 1 None) (0, GENESIS, default_state, vset) = Inr (seq, prev, s, act)"
    by (auto simp: audit_def audit_from_def audit_start_def Let_def split: if_splits)
  have z: "book_of default_state = (\<lambda>_. 0)" by (simp add: book_of_def default_state_def)
  have bk: "book_of s = net (concat (map tx_postings txs))"
    using audit_certificates_ok[OF r, of ?limit] assms(2,4,5) pos by (simp add: z sound_book_empty)
  have "escrow_inv c ?S s"
    unfolding assms(2) by (rule escrow_inv_certificates[OF r _ escrow_inv_start]) (use assms(2,5) in simp)
  moreover have "recorded s (j, root, n)"
    by (rule audit_certificates_recorded[OF r]) (use assms(2,6,7) in auto)
  ultimately have "book_of s (escrow_account j) = unsettled_price ?S j root n"
    by (auto simp: recorded_def escrow_inv_def)
  moreover have "(j, i) \<notin> ?S \<longleftrightarrow> i \<notin> settled" for i
    by (auto simp: assms(8) elem_set)
  ultimately show ?thesis by (simp only: bk unsettled_price_def)
qed

section \<open>What a transaction claims\<close>

text \<open>What a transaction claims: the job it reserves, the shard it settles, the inference batch it takes
  out of escrow or out of holding, or the change of the set it makes.\<close>

datatype claim =
    ReserveJob string | SettleShard string | LeaveEscrow string nat nat | LeaveHolding string nat nat
  | ChangeSet string

definition claim_of :: "ledger_transaction \<Rightarrow> claim" where
  "claim_of tx =
     (case tx_evidence tx of
        EvJobReserve e \<Rightarrow> ReserveJob (jr_job_id e)
      | EvCommunityReserve job_id _ _ _ \<Rightarrow> ReserveJob job_id
      | EvInferenceReserve e \<Rightarrow> ReserveJob (ir_job_id e)
      | EvProviderReward e \<Rightarrow> SettleShard (pr_assignment_id e)
      | EvJobRefund e \<Rightarrow> SettleShard (rf_assignment_id e)
      | EvInferenceReceipt e \<Rightarrow> LeaveEscrow (rc_job_id e) (rc_batch_start e) (rc_batch_end e)
      | EvInferenceRefund e \<Rightarrow> LeaveEscrow (ifd_job_id e) (ifd_batch_start e) (ifd_batch_end e)
      | EvInferenceReward e \<Rightarrow> LeaveHolding (iw_job_id e) (iw_batch_start e) (iw_batch_end e)
      | EvInferenceDispute e \<Rightarrow> LeaveHolding (dp_job_id e) (dp_batch_start e) (dp_batch_end e)
      | EvInferenceExpiry e \<Rightarrow> LeaveHolding (ex_job_id e) (ex_batch_start e) (ex_batch_end e)
      | EvMembershipChange _ \<Rightarrow> ChangeSet (tx_transaction_id tx))"

fun key_of_claim :: "claim \<Rightarrow> string" where
  "key_of_claim (ReserveJob j) = ''reserve:'' @ j"
| "key_of_claim (SettleShard a) = ''reward:'' @ a"
| "key_of_claim (LeaveEscrow j s e) = inference_claim_key j s e"
| "key_of_claim (LeaveHolding j s e) = inference_payout_key j s e"
| "key_of_claim (ChangeSet t) = ''membership:'' @ t"

lemma claim_key_eq: "claim_key tx = key_of_claim (claim_of tx)"
  by (simp add: claim_key_def claim_of_def split: transaction_evidence.splits)

lemma key_of_claim_inj: "key_of_claim a = key_of_claim b \<longleftrightarrow> a = b"
proof
  assume "key_of_claim a = key_of_claim b"
  then show "a = b"
    by (cases a; cases b) (auto simp: inference_claim_key_def inference_payout_key_def dest: batch_key_inj[simplified])
qed simp

lemma inj_key_of_claim: "inj_on key_of_claim A"
  by (simp add: inj_on_def key_of_claim_inj)

lemma find_cert:
  assumes "chained seq prev certs" "cert \<in> set certs"
  shows "find (\<lambda>x. cert_seq x = cert_seq cert) certs = Some cert"
proof -
  obtain i where i: "i < length certs" "certs ! i = cert" using assms(2) by (auto simp: in_set_conv_nth)
  have "cert_seq (certs ! j) = seq + 1 + j" if "j < length certs" for j
    using chained_nth[OF assms(1) that] .
  with i show ?thesis by (auto simp: find_Some_iff intro!: exI[of _ i])
qed

end
