(* ===== verification/Scenario.thy ===== *)
theory Scenario
  imports Escrow Validator Network
begin

text \<open>
  Concrete inputs on which the properties are exercised: a computable stand-in for the third-party
  cryptography, a four-member validator set, and a community job that is reserved, and refunded
  once its settlement window has closed.
\<close>

definition demo :: crypto where
  "demo = \<lparr> sha256 = (\<lambda>s. s),
            json_encode = (\<lambda>j. case j of JArr (JNum n # _) \<Rightarrow> show_int n | _ \<Rightarrow> ''x''),
            b64_decode = (\<lambda>s. Some (replicate 32 CHR ''k'')),
            ed_key_ok = (\<lambda>_. True), ed_sig_ok = (\<lambda>_. True), ed_verify = (\<lambda>_ _ _. True) \<rparr>"

definition demo_set :: validator_set where
  "demo_set = \<lparr> set_threshold = 3, set_community_issuance_limit_mcu = 1000,
     set_members = map (\<lambda>n. \<lparr> vm_validator_id = ''v'' @ n, vm_url = ''u'' @ n, vm_public_key_b64 = ''k'' @ n \<rparr>)
                       [''1'', ''2'', ''3'', ''4''] \<rparr>"

definition demo_sigs :: "validator_signature list" where
  "demo_sigs = map (\<lambda>n. \<lparr> vs_validator_id = ''v'' @ n, vs_signature_b64 = ''s'' @ n \<rparr>) [''1'', ''2'', ''3'']"

definition demo_work :: work_spec where
  "demo_work = PrimeCount 2 10"

definition demo_reserve :: ledger_transaction where
  "demo_reserve = \<lparr> tx_transaction_id = ''t1'', tx_kind = CommunityReserve,
     tx_postings = [\<lparr> p_account_id = COMMUNITY_ISSUANCE_ACCOUNT, p_delta_mcu = -2 \<rparr>,
                    \<lparr> p_account_id = escrow_account ''j1'', p_delta_mcu = 2 \<rparr>],
     tx_evidence = EvCommunityReserve ''j1'' demo_work 2 demo_sigs, tx_created_at = 1000 \<rparr>"

definition demo_refund :: ledger_transaction where
  "demo_refund = \<lparr> tx_transaction_id = ''t2'', tx_kind = JobRefund,
     tx_postings = [\<lparr> p_account_id = escrow_account ''j1'', p_delta_mcu = -1 \<rparr>,
                    \<lparr> p_account_id = COMMUNITY_ISSUANCE_ACCOUNT, p_delta_mcu = 1 \<rparr>],
     tx_evidence = EvJobRefund \<lparr> rf_job_id = ''j1'', rf_assignment_id = assignment_id demo ''j1'' 0,
        rf_shard_index = 0, rf_refund_mcu = 1, rf_work = PrimeCount 2 6, rf_system_funded = True,
        rf_requester_public_key_b64 = None, rf_requester_auth = None \<rparr>,
     tx_created_at = 9000 \<rparr>"

definition demo_cert :: "nat \<Rightarrow> string \<Rightarrow> ledger_transaction list \<Rightarrow> quorum_certificate" where
  "demo_cert n prev txs =
     \<lparr> qc_entry = build_entry demo n prev txs, qc_membership_hash = membership_hash demo demo_set,
       qc_signatures = demo_sigs \<rparr>"

definition cert1 :: quorum_certificate where
  "cert1 = demo_cert 1 GENESIS [demo_reserve]"

definition cert2 :: quorum_certificate where
  "cert2 = demo_cert 2 (cert_hash cert1) [demo_refund]"

lemma demo_simps [simp]:
  "sha256 demo s = s" "b64_decode demo s = Some (replicate 32 CHR ''k'')" "ed_key_ok demo k" "ed_sig_ok demo k"
  "ed_verify demo k m sg" "json_encode demo (JArr (JNum n # js)) = show_int n"
  by (simp_all add: demo_def)

lemma demo_set_valid: "validate_validator_set demo_set = Inr ()"
  by (simp add: demo_set_def validate_validator_set_def)

lemma demo_count [simp]: "count_good demo demo_set msg {} demo_sigs = 3"
  by (simp add: demo_sigs_def demo_set_def signed_by_def verify_validator_signature_def)

lemma demo_cost [simp]: "job_cost (PrimeCount 2 10) 2 = 2" "work_cost_mcu (PrimeCount 2 6) = 1"
  by code_simp+

lemma demo_verify:
  assumes "txs \<noteq> []" "distinct (map claim_key txs)"
  shows "verify_certificate demo (demo_cert n prev txs) demo_set = Inr ()"
  using assms
  by (simp add: verify_certificate_def demo_cert_def build_entry_def Let_def check_claims_once_ok) (simp add: demo_set_def)

lemmas run_defs =
  validate_transaction_def check_postings_def check_issuance_def validate_evidence_def
  validate_community_reserve_def issuable_def moves_def Let_def add_posting_def range_defs
  checked_add_i64_def validate_refund_def refund_payee_def

lemma demo_batch:
  "validate_batch demo [demo_reserve, demo_refund] prev (\<lambda>_. 0) (\<lambda>_. None) demo_set = Inr ()"
  unfolding validate_batch_def batch_step_def
  by (simp add: run_defs demo_reserve_def demo_refund_def demo_work_def)
     (simp add: demo_set_def wrap_i64_def)

definition store1 :: store where
  "store1 = commit_tables cert1
     (fmupd (escrow_account ''j1'') 2 (fmupd COMMUNITY_ISSUANCE_ACCOUNT (-2) fmempty)) [cert1]
     (fmupd ''reserve:j1'' 1 fmempty) None empty_store"

lemma cert1_simps [simp]:
  "cert_txs cert1 = [demo_reserve]" "cert_seq cert1 = 1" "en_previous_hash (qc_entry cert1) = GENESIS"
  by (simp_all add: cert1_def demo_cert_def cert_txs_def cert_seq_def build_entry_def Let_def)

lemma demo_reserve_simps [simp]:
  "claim_key demo_reserve = ''reserve:j1''" "tx_typed demo_reserve" "tx_typed demo_refund"
  "claim_key demo_refund = ''reward:'' @ assignment_id demo ''j1'' 0"
  by (simp_all add: demo_reserve_def demo_refund_def claim_key_def tx_typed_def range_defs)

lemma demo_evidence [simp]:
  "tx_evidence demo_reserve = EvCommunityReserve ''j1'' demo_work 2 demo_sigs"
  "tx_kind demo_reserve = CommunityReserve" "tx_created_at demo_reserve = 1000"
  by (simp_all add: demo_reserve_def)

lemma demo_evidence1:
  "evidence_step demo cert1 demo_set demo_reserve None = Inr None"
  by (simp add: evidence_step_def verify_historical_evidence_def demo_reserve_def issuable_def demo_work_def)

lemma store1_apply: "store_apply demo empty_store cert1 demo_set = Inr store1"
proof -
  have "verify_certificate demo cert1 demo_set = Inr ()" unfolding cert1_def by (rule demo_verify) simp_all
  moreover have "fold_result apply_posting (concat (map tx_postings (cert_txs cert1))) (db_balances empty_store)
      = Inr (fmupd (escrow_account ''j1'') 2 (fmupd COMMUNITY_ISSUANCE_ACCOUNT (-2) fmempty))"
    by (simp add: demo_reserve_def empty_store_def apply_posting_ok range_defs)
  ultimately show ?thesis
    unfolding store_apply_ok store1_def
    by (intro exI[of _ None] exI[of _ "fmupd (escrow_account ''j1'') 2 (fmupd COMMUNITY_ISSUANCE_ACCOUNT (-2) fmempty)"]
          exI[of _ "[cert1]"] exI[of _ "fmupd ''reserve:j1'' 1 fmempty"])
       (simp add: demo_evidence1 store_head_def empty_store_def has_claim_def sqlite_sequence_def
          range_defs insert_certificate_def)
qed

lemma store1_reach: "store_reach demo store1"
  by (rule store_reach.commit[OF store_reach.init store1_apply])

lemma audit_store1: "audit demo store1 demo_set = Inr (store_head demo store1 demo_set)"
proof -
  let ?s = "\<lparr> ls_balances = fmupd (escrow_account ''j1'') 2 (fmupd COMMUNITY_ISSUANCE_ACCOUNT (-2) fmempty),
     ls_claims = {|''reserve:j1''|}, ls_reservations = fmupd ''j1'' (demo_work, 2, True, None, 1000) fmempty,
     ls_inference = fmempty,
     ls_activity = fmupd (escrow_account ''j1'') (2, 0) (fmupd COMMUNITY_ISSUANCE_ACCOUNT (0, 2) fmempty) \<rparr>"
  have v: "verify_certificate demo cert1 demo_set = Inr ()" unfolding cert1_def by (rule demo_verify) simp_all
  have h: "validate_historical_transaction demo demo_reserve prev sigs (\<lambda>a. 0) demo_set = Inr ()" for prev sigs
    by (simp add: validate_historical_transaction_def verify_historical_evidence_def run_defs historical_match_def
        demo_reserve_def demo_work_def) (simp add: demo_set_def wrap_i64_def)
  have "audit_transaction demo cert1 demo_reserve (default_state, demo_set) = Inr (?s, demo_set)"
    unfolding audit_transaction_def Let_def
    by (simp add: h default_state_def)
       (simp add: demo_reserve_def audit_evidence_def audit_posting_def Let_def checked_add_i64_def range_defs)
  then have "audit_certificate demo cert1 (0, GENESIS, default_state, demo_set) = Inr (1, cert_hash cert1, ?s, demo_set)"
    by (simp add: audit_certificate_ok v)
  moreover have "store_state store1 = ?s"
  proof -
    have rows: "certificate_rows cert1 =
       [\<lparr> ac_account_id = COMMUNITY_ISSUANCE_ACCOUNT, ac_sequence = 1, ac_posting_index = 0,
          ac_transaction_id = ''t1'', ac_delta_mcu = -2, ac_created_at = 1000 \<rparr>,
        \<lparr> ac_account_id = escrow_account ''j1'', ac_sequence = 1, ac_posting_index = 1,
          ac_transaction_id = ''t1'', ac_delta_mcu = 2, ac_created_at = 1000 \<rparr>]"
      by (simp add: certificate_rows_def demo_reserve_def)
    have "db_job_reservations store1 = fmupd ''j1'' (1, demo_work, 2, True, None, 1000) fmempty"
      "db_inference_reservations store1 = fmempty"
      by (simp_all add: store1_def commit_tables_def Let_def index_certificate_def index_transaction_def
          demo_reserve_def empty_store_def)
    moreover have "db_account_activity store1 = certificate_rows cert1"
      by (simp add: store1_def rows empty_store_def upsert_activity_def)
    moreover have "db_activity_baseline store1 = fmempty" "db_balances store1 = ls_balances ?s"
      "db_claims store1 = fmupd ''reserve:j1'' 1 fmempty"
      by (simp_all add: store1_def empty_store_def)
    moreover have "fmmap f (fmupd k v fmempty) = fmupd k (f v) fmempty" for f :: "nat \<times> reservation_record \<Rightarrow> reservation_record" and k :: string and v
      by (rule fmap_ext) simp
    ultimately show ?thesis
      by (simp add: store_state_def rows earned_sum_def spent_sum_def fm_assoc_def sorted_list_of_fset.rep_eq)
  qed
  ultimately show ?thesis
    by (simp add: audit_def audit_from_def audit_start_def certificates_from_def store1_def store_head_def)
qed

definition demo_app :: app where
  "demo_app = \<lparr> va_store = empty_store, va_id = ''v1'', va_sign = (\<lambda>m. ''s''), va_set = demo_set \<rparr>"

definition demo_ballot :: ballot where "demo_ballot = \<lparr> bl_number = 1, bl_proposer = ''p'' \<rparr>"

definition demo_request :: proposal_request where
  "demo_request = \<lparr> pp_transactions = [demo_reserve], pp_sequence = 1, pp_ballot = demo_ballot \<rparr>"

lemma demo_app_simps [simp]:
  "va_store demo_app = empty_store" "va_set demo_app = demo_set" "va_id demo_app = ''v1''"
  "pp_transactions demo_request = [demo_reserve]" "pp_sequence demo_request = 1" "pp_ballot demo_request = demo_ballot"
  "set_community_issuance_limit_mcu demo_set = 1000" "app_height demo_app = 0"
  "app_head demo demo_app = \<lparr> lh_sequence = 0, lh_entry_hash = GENESIS, lh_membership_hash = membership_hash demo demo_set \<rparr>"
  by (simp_all add: demo_app_def demo_request_def demo_set_def app_height_def empty_store_def app_head_def store_head_def)

lemma empty_store_simps [simp]:
  "db_certificates empty_store = []" "balance empty_store = (\<lambda>_. 0)" "has_claim empty_store k \<longleftrightarrow> False"
  "store_inference_reservation empty_store = (\<lambda>_. None)" "db_ballots empty_store = fmempty" "db_votes empty_store = fmempty"
  by (auto simp: empty_store_def balance_def has_claim_def store_inference_reservation_def)

lemma demo_batch_reserve:
  "validate_batch demo [demo_reserve] prev (\<lambda>_. 0) (\<lambda>_. None) demo_set = Inr ()"
  unfolding validate_batch_def batch_step_def
  by (simp add: run_defs demo_reserve_def demo_work_def) (simp add: demo_set_def wrap_i64_def)

lemma demo_proposed:
  "\<exists>db'. proposed_entry demo demo_app demo_request = Inr (qc_entry cert1, db')"
  by (simp add: proposed_entry_def validate_settlement_membership_def demo_batch_reserve
        accept_ballot_def sqlite_sequence_def range_defs build_entry_def cert1_def demo_cert_def Let_def)

text \<open>A client of the set, and seats that all answer.\<close>

definition demo_client :: client where
  "demo_client = \<lparr> cl_set = demo_set, cl_set_sequence = 0, cl_proposer = ''p'', cl_ballot = 0 \<rparr>"

definition demo_seats :: "validator_member \<Rightarrow> app option" where
  "demo_seats m = Some (demo_app\<lparr> va_id := vm_validator_id m \<rparr>)"

lemma demo_client_simps [simp]:
  "cl_set demo_client = demo_set" "fst (next_ballot demo_client) = demo_ballot"
  by (simp_all add: demo_client_def next_ballot_def wrap_u64_def demo_ballot_def)

lemma demo_signature [simp]: "verify_validator_signature demo m msg sg = Inr ()"
  by (simp add: verify_validator_signature_def)

end
