(* ===== verification/Agreement.thy ===== *)
theory Agreement
  imports Consensus Scenario
begin

text \<open>
  The runs of a system of validators as a type, the voting locale interpreted on them, and what it gives for quorum
  certificates; with a concrete run in which three of four seats promise and vote.
\<close>

section \<open>A concrete run\<close>

definition demo_seat :: "string \<Rightarrow> accepted_proposal option option \<Rightarrow> app" where
  "demo_seat v slot = \<lparr> va_store = empty_store\<lparr> db_ballots :=
       (case slot of None \<Rightarrow> fmempty | Some acc \<Rightarrow> fmupd 1 (demo_ballot, acc) fmempty) \<rparr>,
     va_id = v, va_sign = (\<lambda>m. ''s''), va_set = demo_set \<rparr>"

definition demo_accepted :: accepted_proposal where
  "demo_accepted = \<lparr> acp_ballot = demo_ballot, acp_entry_hash = cert_hash cert1, acp_transactions = [demo_reserve] \<rparr>"

text \<open>The state after the seats \<open>ps\<close> promised, the batch was proposed or not, and the seats \<open>qs\<close> voted; every
  seat starts from an empty store.\<close>

definition demo_system :: "string set \<Rightarrow> bool \<Rightarrow> string set \<Rightarrow> system" where
  "demo_system ps proposed qs =
     \<lparr> sy_apps = (\<lambda>v. demo_seat v
         (if v \<in> qs then Some (Some demo_accepted) else if v \<in> ps then Some None else None)),
       sy_promises = (\<lambda>v. (1, demo_ballot, v, None)) ` ps,
       sy_proposals = (if proposed then Map.empty((1, demo_ballot) \<mapsto> [demo_reserve]) else Map.empty),
       sy_votes = (\<lambda>v. (1, demo_ballot, v, cert_hash cert1)) ` qs \<rparr>"

lemma demo_seat_store:
  "db_ballots (va_store (demo_seat v slot)) =
     (case slot of None \<Rightarrow> fmempty | Some acc \<Rightarrow> fmupd 1 (demo_ballot, acc) fmempty)"
  "app_height (demo_seat v slot) = 0" "va_set (demo_seat v slot) = demo_set" "va_id (demo_seat v slot) = v"
  "chain_inv (va_store (demo_seat v slot)) = chain_inv empty_store"
  by (simp_all add: demo_seat_def app_height_def) (rule chain_inv_cong; simp)

lemma sqlite_one [simp]: "sqlite_sequence (Suc 0) = Inr (Suc 0)"
  by (simp add: sqlite_sequence_def i64_max_def)

lemma has_claim_ballots: "has_claim (db\<lparr> db_ballots := x \<rparr>) k = has_claim db k"
  by (simp add: has_claim_def)

lemma demo_start_reach: "sy_reach c vs (demo_system {} False {})"
  by (rule sy_reach.start)
     (simp add: sy_start_def demo_system_def demo_seat_store reach_chain_inv[OF store_reach.init])

lemma demo_promises:
  assumes "v \<notin> ps" "sy_reach demo vs (demo_system ps False {})"
  shows "sy_reach demo vs (demo_system (insert v ps) False {})"
proof -
  let ?s = "demo_system ps False {}" and ?r = "\<lparr> pq_sequence = 1, pq_ballot = demo_ballot \<rparr>"
  obtain a' vote where p: "prepare demo (demo_seat v None) ?r = (a', vote)"
    by (cases "prepare demo (demo_seat v None) ?r")
  then have out: "a' = demo_seat v (Some None)" "pv_promised vote" "pv_accepted vote = None"
    by (auto simp: prepare_def Let_def promise_def demo_seat_store is_ok_def) (simp_all add: demo_seat_def)
  have "sy_apps ?s v = demo_seat v None" using assms(1) by (simp add: demo_system_def)
  with sy_step.prepare[of demo ?s v ?r a' vote vs] p
  have "sy_step demo vs ?s (?s\<lparr> sy_apps := (sy_apps ?s)(v := a'),
      sy_promises := insert (1, demo_ballot, v, None) (sy_promises ?s) \<rparr>)" by (simp add: out)
  also have "?s\<lparr> sy_apps := (sy_apps ?s)(v := a'), sy_promises := insert (1, demo_ballot, v, None) (sy_promises ?s) \<rparr> =
     demo_system (insert v ps) False {}"
    by (auto simp: demo_system_def out(1) fun_eq_iff)
  finally show ?thesis by (rule sy_reach.step[OF assms(2)])
qed

lemma demo_votes:
  assumes "v \<notin> qs" "v \<in> ps" "sy_reach demo vs (demo_system ps True qs)"
  shows "sy_reach demo vs (demo_system ps True (insert v qs))"
proof -
  let ?s = "demo_system ps True qs" and ?a = "demo_seat v (Some None)"
  have head: "app_head demo ?a = app_head demo demo_app"
    by (simp add: app_head_def demo_seat_def demo_app_def store_head_def empty_store_def)
  have "proposed_entry demo ?a demo_request = Inr (qc_entry cert1, va_store (demo_seat v (Some (Some demo_accepted))))"
    by (simp add: proposed_entry_def head demo_seat_store)
       (simp add: demo_seat_def demo_batch_reserve accept_ballot_def outranks_def has_claim_ballots
          validate_settlement_membership_def build_entry_def cert1_def demo_cert_def Let_def demo_accepted_def cert_hash_def)
  then obtain vote where p: "propose demo ?a demo_request = (demo_seat v (Some (Some demo_accepted)), vote)"
    and vt: "vt_accepted vote" "vt_entry_hash vote = cert_hash cert1"
    by (auto simp: propose_def Let_def demo_seat_def cert_hash_def)
  have sel: "sy_apps ?s v = ?a" "sy_proposals ?s (pp_sequence demo_request, pp_ballot demo_request) = Some (pp_transactions demo_request)"
    using assms(1,2) by (simp_all add: demo_system_def)
  from sy_step.vote[OF sel(2), of demo v _ vote vs] p sel(1) vt
  have "sy_step demo vs ?s (?s\<lparr> sy_apps := (sy_apps ?s)(v := demo_seat v (Some (Some demo_accepted))),
      sy_votes := insert (1, demo_ballot, v, cert_hash cert1) (sy_votes ?s) \<rparr>)" by simp
  also have "?s\<lparr> sy_apps := (sy_apps ?s)(v := demo_seat v (Some (Some demo_accepted))),
      sy_votes := insert (1, demo_ballot, v, cert_hash cert1) (sy_votes ?s) \<rparr> = demo_system ps True (insert v qs)"
    by (auto simp: demo_system_def fun_eq_iff)
  finally show ?thesis by (rule sy_reach.step[OF assms(3)])
qed

text \<open>The proposer reads three promises back and goes ahead with its own batch.\<close>

definition demo_promise_replies :: "prepare_vote replies" where
  "demo_promise_replies m =
     Some \<lparr> pv_promised = vm_validator_id m \<noteq> ''v4'', pv_validator_id = vm_validator_id m, pv_sequence = 1,
            pv_accepted = None, pv_promised_ballot = None, pv_error = None \<rparr>"

lemma demo_claims:
  assumes "sy_reach demo (\<lambda>_. demo_set) (demo_system {''v1'', ''v2'', ''v3''} False {})"
  shows "sy_reach demo (\<lambda>_. demo_set) (demo_system {''v1'', ''v2'', ''v3''} True {})"
proof -
  let ?s = "demo_system {''v1'', ''v2'', ''v3''} False {}"
  have ch: "claim_height demo_client 1 demo_promise_replies = (demo_client, Some None)"
    by (simp add: claim_height_def prepare_votes_def answered_def demo_client_def demo_set_def map_filter_simps
        demo_promise_replies_def adopted_def)
  have "genuine ?s demo_set 1 demo_ballot demo_promise_replies"
    by (simp add: genuine_def demo_set_def demo_promise_replies_def demo_system_def)
  from sy_step.claim[OF ch, of "\<lambda>_. demo_set" ?s demo_ballot "[demo_reserve]" "[demo_reserve]" demo] this
  have "sy_step demo (\<lambda>_. demo_set) ?s (?s\<lparr> sy_proposals := (sy_proposals ?s)((1, demo_ballot) \<mapsto> [demo_reserve]) \<rparr>)"
    by (simp add: demo_client_def demo_system_def)
  also have "?s\<lparr> sy_proposals := (sy_proposals ?s)((1, demo_ballot) \<mapsto> [demo_reserve]) \<rparr> =
     demo_system {''v1'', ''v2'', ''v3''} True {}"
    by (simp add: demo_system_def)
  finally show ?thesis by (rule sy_reach.step[OF assms])
qed

lemma demo_run: "sy_reach demo (\<lambda>_. demo_set) (demo_system {''v1'', ''v2'', ''v3''} True {''v1'', ''v2'', ''v3''})"
  by (intro demo_votes demo_claims demo_promises demo_start_reach) simp_all

section \<open>Runs as a type\<close>

typedef ledger_run = "{(vs, s). (\<forall>n. validate_validator_set (vs n) = Inr ()) \<and> (\<exists>c. sy_reach c vs s)}"
  by (rule exI[of _ "(\<lambda>_. demo_set, demo_system {''v1'', ''v2'', ''v3''} True {''v1'', ''v2'', ''v3''})"])
     (use demo_run demo_set_valid in auto)

definition run_set :: "ledger_run \<Rightarrow> nat \<Rightarrow> validator_set" where
  "run_set r = fst (Rep_ledger_run r)"

definition run_state :: "ledger_run \<Rightarrow> system" where
  "run_state r = snd (Rep_ledger_run r)"

lemma run_set_valid: "validate_validator_set (run_set r n) = Inr ()"
  using Rep_ledger_run[of r] by (auto simp: run_set_def)

lemma run_inv: "sy_inv (run_set r) (run_state r)"
proof -
  obtain c where "sy_reach c (run_set r) (run_state r)"
    using Rep_ledger_run[of r] by (auto simp: run_set_def run_state_def)
  then show ?thesis by (rule sy_reach_inv) (rule run_set_valid)
qed

interpretation seats: quorum_system "quorum_at (run_set r n)" for r n
proof
  show "Q \<inter> R \<noteq> {}" if "quorum_at (run_set r n) Q" "quorum_at (run_set r n) R" for Q R
    using quorum_overlap[OF run_set_valid, of Q r n R] that by (auto simp: quorum_at_def)
qed

interpretation rounds: ballot_voting "quorum_at (run_set r n)" outranks "\<lambda>b. sy_proposals (run_state r) (n, b)"
  "voted_at (run_state r) n" for r n
proof
  show "\<not> outranks b b" for b using outranks_asym by blast
  show "outranks a b \<Longrightarrow> outranks b d \<Longrightarrow> outranks a d" for a b d by (rule outranks_trans)
  show "a \<noteq> b \<Longrightarrow> outranks a b \<or> outranks b a" for a b using outranks_total by blast
  have "Pair n ` dom (\<lambda>b. sy_proposals (run_state r) (n, b)) \<subseteq> dom (sy_proposals (run_state r))" by auto
  moreover have "finite (dom (sy_proposals (run_state r)))" using run_inv by (simp add: sy_inv_def proposals_ok_def)
  ultimately have "finite (Pair n ` dom (\<lambda>b. sy_proposals (run_state r) (n, b)))" by (rule finite_subset)
  then show "finite (dom (\<lambda>b. sy_proposals (run_state r) (n, b)))" by (simp add: finite_image_iff inj_on_def)
  show "sy_proposals (run_state r) (n, b) \<noteq> None" if "voted_at (run_state r) n v b" for v b
    using that run_inv unfolding sy_inv_def proposals_ok_def by blast
  show "\<exists>Q. quorum_at (run_set r n) Q \<and>
       ((\<forall>v\<in>Q. \<forall>b'. voted_at (run_state r) n v b' \<longrightarrow> \<not> outranks b b') \<or>
        (\<exists>b'. outranks b b' \<and> sy_proposals (run_state r) (n, b') = Some x \<and>
           (\<forall>v\<in>Q. \<forall>b''. voted_at (run_state r) n v b'' \<longrightarrow> outranks b b'' \<longrightarrow> \<not> outranks b'' b')))"
    if "sy_proposals (run_state r) (n, b) = Some x" for b x
    using that run_inv unfolding sy_inv_def proposals_ok_def safe_at_def by blast
qed

section \<open>Certificates\<close>

text \<open>The signatures of a certificate were collected in one round: they are votes under one ballot for the batch
  proposed under it, as \<open>attempt\<close> collects them.\<close>

definition collected :: "system \<Rightarrow> ballot \<Rightarrow> quorum_certificate \<Rightarrow> bool" where
  "collected s b cert \<longleftrightarrow> sy_proposals s (cert_seq cert, b) = Some (cert_txs cert) \<and>
     (\<forall>x\<in>set (qc_signatures cert). voted_at s (cert_seq cert) (vs_validator_id x) b)"

lemma collected_chosen:
  assumes "verify_certificate c cert (run_set r (cert_seq cert)) = Inr ()" "collected (run_state r) b cert"
  shows "rounds.chosen r (cert_seq cert) b (cert_txs cert)"
proof -
  let ?v = "run_set r (cert_seq cert)"
  let ?Q = "signers c ?v (ledger_entry_signing_message (membership_hash c ?v) (cert_hash cert)) (qc_signatures cert)"
  have "quorum_at ?v ?Q"
    using verify_certificate_ok(6)[OF assms(1)] signers_members by (simp add: quorum_at_def cert_hash_def)
  moreover have "\<forall>v\<in>?Q. voted_at (run_state r) (cert_seq cert) v b"
    using assms(2) by (auto simp: collected_def signers_def)
  ultimately show ?thesis using assms(2) unfolding rounds.chosen_def collected_def by blast
qed

text \<open>C7.  Agreement.  Whatever order messages arrive in, however many proposers compete and however often a height
  is retried: two certificates for the same height that verify against the set sitting there, each collected in one
  round, hold the same batch.\<close>

theorem certificates_agree:
  assumes "sy_reach c vs s" "\<And>n. validate_validator_set (vs n) = Inr ()"
    and "cert_seq cert' = cert_seq cert"
    and "verify_certificate c cert (vs (cert_seq cert)) = Inr ()" "collected s b cert"
    and "verify_certificate c cert' (vs (cert_seq cert)) = Inr ()" "collected s b' cert'"
  shows "cert_txs cert = cert_txs cert'"
proof -
  define r where "r = Abs_ledger_run (vs, s)"
  have "Rep_ledger_run r = (vs, s)" unfolding r_def by (rule Abs_ledger_run_inverse) (use assms(1,2) in auto)
  then have r: "run_set r = vs" "run_state r = s" by (simp_all add: run_set_def run_state_def)
  from collected_chosen[of c cert r b] collected_chosen[of c cert' r b'] assms r
  show ?thesis by (auto intro: rounds.agreement)
qed

theorem certificates_agree_witness:
  "cert_txs cert1 = cert_txs (cert1\<lparr> qc_signatures := rev demo_sigs \<rparr>)"
proof (rule certificates_agree[OF demo_run demo_set_valid, where b = demo_ballot and b' = demo_ballot])
  show "verify_certificate demo cert1 demo_set = Inr ()" unfolding cert1_def by (rule demo_verify) simp_all
  have "count_good demo demo_set msg {} (rev demo_sigs) = 3" for msg
    by (simp add: demo_sigs_def demo_set_def signed_by_def verify_validator_signature_def)
  then show "verify_certificate demo (cert1\<lparr> qc_signatures := rev demo_sigs \<rparr>) demo_set = Inr ()"
    by (simp add: verify_certificate_def Let_def cert1_def demo_cert_def build_entry_def) (simp add: demo_set_def)
qed (auto simp: collected_def demo_system_def voted_at_def cert1_def demo_cert_def demo_sigs_def cert_seq_def
       cert_txs_def build_entry_def Let_def)

end
