(* ===== verification/Settlement.thy ===== *)
theory Settlement
  imports Scenario
begin

text \<open>
  A ledger client and the validators it talks to, put together: the answers of an attempt are those the handlers
  of \<open>Validator\<close> give, and a client that reaches a quorum of caught-up seats settles its batch.
\<close>

section \<open>The answers of a set of seats\<close>

text \<open>\<open>seat m\<close> is the validator behind member \<open>m\<close>, when it answers at all.  Between two requests of one attempt
  nobody else writes to it.\<close>

definition promised_seat :: "crypto \<Rightarrow> proposal_request \<Rightarrow> app \<Rightarrow> app \<times> prepare_vote" where
  "promised_seat c r a = prepare c a \<lparr> pq_sequence = pp_sequence r, pq_ballot = pp_ballot r \<rparr>"

definition voted_seat :: "crypto \<Rightarrow> proposal_request \<Rightarrow> app \<Rightarrow> app \<times> proposal_vote" where
  "voted_seat c r a = propose c (fst (promised_seat c r a)) r"

definition commit_reply :: "app \<times> (validator_error + commit_response) \<Rightarrow> bool \<times> commit_response option" where
  "commit_reply out = (case snd out of Inr resp \<Rightarrow> (True, Some resp) | Inl _ \<Rightarrow> (False, None))"

definition seats_env ::
  "crypto \<Rightarrow> fetch \<Rightarrow> proposal_request \<Rightarrow> (validator_member \<Rightarrow> app option) \<Rightarrow> attempt_env" where
  "seats_env c fetch r seat =
     \<lparr> ae_heads = (\<lambda>m. map_option (head_answer c) (seat m)),
       ae_prepare = (\<lambda>b m. map_option (\<lambda>a. snd (promised_seat c (r\<lparr> pp_ballot := b \<rparr>) a)) (seat m)),
       ae_propose = (\<lambda>r m. map_option (\<lambda>a. snd (voted_seat c r a)) (seat m)),
       ae_heads_after = (\<lambda>m. map_option (head_answer c) (seat m)),
       ae_commit = (\<lambda>cert m. map_option (\<lambda>a. commit_reply (commit c fetch (fst (voted_seat c r a)) cert)) (seat m)) \<rparr>"

section \<open>A seat that is ready\<close>

text \<open>A seat at the head \<open>h\<close>, free to vote on the batch \<open>txs\<close> under the ballot \<open>b\<close>.\<close>

definition ready_seat ::
  "crypto \<Rightarrow> validator_set \<Rightarrow> ledger_head \<Rightarrow> ballot \<Rightarrow> ledger_transaction list \<Rightarrow> app \<Rightarrow> bool" where
  "ready_seat c vset h b txs a \<longleftrightarrow>
     va_set a = vset \<and> chain_inv (va_store a) \<and> app_head c a = h \<and> lh_sequence h < nat i64_max \<and>
     sound_book (set_community_issuance_limit_mcu vset) (balance (va_store a)) \<and>
     (case fmlookup (db_ballots (va_store a)) (lh_sequence h + 1) of
        None \<Rightarrow> True | Some (p, acc) \<Rightarrow> \<not> outranks p b \<and> acc = None) \<and>
     fmlookup (db_votes (va_store a)) (lh_sequence h + 1) = None \<and>
     check_proposed c (va_store a) {} txs = Inr () \<and>
     validate_batch c txs (lh_entry_hash h) (balance (va_store a)) (store_inference_reservation (va_store a)) vset
       = Inr ()"

lemma ready_promises:
  assumes "ready_seat c vset h b txs a" "pp_sequence r = lh_sequence h + 1" "pp_ballot r = b"
  shows "fst (promised_seat c r a) = a\<lparr> va_store := (va_store a)\<lparr>
       db_ballots := fmupd (lh_sequence h + 1) (b, None) (db_ballots (va_store a)) \<rparr> \<rparr>"
    and "pv_promised (snd (promised_seat c r a))" "pv_accepted (snd (promised_seat c r a)) = None"
    and "pv_validator_id (snd (promised_seat c r a)) = va_id a" "pv_sequence (snd (promised_seat c r a)) = lh_sequence h + 1"
proof -
  let ?n = "lh_sequence h + 1"
  have sq: "sqlite_sequence ?n = Inr ?n" using assms(1) by (auto simp: ready_seat_def sqlite_sequence_def i64_max_def)
  have pr: "promise (va_store a) ?n b = Inr ((va_store a)\<lparr> db_ballots := fmupd ?n (b, None) (db_ballots (va_store a)) \<rparr>, None)"
    using assms(1) sq by (auto simp: ready_seat_def promise_def split: option.splits)
  have hd: "app_head c a = h" using assms(1) by (simp add: ready_seat_def)
  show "fst (promised_seat c r a) = a\<lparr> va_store := (va_store a)\<lparr>
       db_ballots := fmupd (lh_sequence h + 1) (b, None) (db_ballots (va_store a)) \<rparr> \<rparr>"
    "pv_promised (snd (promised_seat c r a))" "pv_accepted (snd (promised_seat c r a)) = None"
    "pv_validator_id (snd (promised_seat c r a)) = va_id a" "pv_sequence (snd (promised_seat c r a)) = lh_sequence h + 1"
    using pr by (simp_all add: promised_seat_def prepare_def Let_def assms(2,3) hd is_ok_def del: add_Suc_right add_Suc Nat.add_0_right One_nat_def)
qed

lemma ready_votes:
  assumes rd: "ready_seat c vset h b txs a" and r: "r = \<lparr> pp_transactions = txs, pp_sequence = lh_sequence h + 1, pp_ballot = b \<rparr>"
  defines "e \<equiv> build_entry c (lh_sequence h + 1) (lh_entry_hash h) txs"
  shows "\<exists>db'. proposed_entry c (fst (promised_seat c r a)) r = Inr (e, db')"
    and "snd (voted_seat c r a) = \<lparr> vt_accepted = True, vt_validator_id = va_id a, vt_sequence = lh_sequence h + 1,
       vt_previous_hash = lh_entry_hash h, vt_entry_hash = en_entry_hash e,
       vt_signature_b64 = Some (va_sign a (ledger_entry_signing_message (membership_hash c vset) (en_entry_hash e))),
       vt_promised_ballot = Some b, vt_head_sequence = Some (lh_sequence h), vt_error = None \<rparr>"
proof -
  let ?n = "lh_sequence h + 1" and ?a = "fst (promised_seat c r a)"
  note pa = ready_promises(1)[OF rd, of r, unfolded r, simplified, folded r[simplified]]
  have sq: "sqlite_sequence ?n = Inr ?n" using rd by (auto simp: ready_seat_def sqlite_sequence_def i64_max_def)
  have hd: "app_head c ?a = h" "va_set ?a = vset" "va_id ?a = va_id a" "va_sign ?a = va_sign a"
    using rd by (auto simp: pa ready_seat_def app_head_def)
  have st: "va_store ?a = (va_store a)\<lparr> db_ballots := fmupd ?n (b, None) (db_ballots (va_store a)) \<rparr>" by (simp add: pa)
  have cp: "check_proposed c (va_store ?a) {} txs = Inr ()"
    using rd unfolding check_proposed_ok ready_seat_def st by (simp add: has_claim_def)
  have vb: "validate_batch c txs (lh_entry_hash h) (balance (va_store ?a)) (store_inference_reservation (va_store ?a)) vset = Inr ()"
    using rd by (simp add: ready_seat_def st)
  have rs: "pp_transactions r = txs" "pp_sequence r = ?n" "pp_ballot r = b" by (simp_all add: r)
  have ht: "app_height ?a = lh_sequence h" using hd(1) app_head_height[of c ?a] by simp
  have irr: "\<not> outranks b b" using outranks_asym by blast
  have en: "en_sequence e = ?n" "en_transactions e = txs" "en_previous_hash e = lh_entry_hash h"
    by (simp_all add: e_def build_entry_def Let_def)
  have ac: "accept_ballot (va_store ?a) ?n b (en_entry_hash e) txs = Inr ((va_store a)\<lparr> db_ballots :=
      fmupd ?n (b, Some \<lparr> acp_ballot = b, acp_entry_hash = en_entry_hash e, acp_transactions = txs \<rparr>) (db_ballots (va_store a)) \<rparr>)"
    using rd sq by (simp add: st accept_ballot_def irr ready_seat_def)
  have pe: "proposed_entry c ?a r = Inr (e, (va_store a)\<lparr> db_ballots :=
      fmupd ?n (b, Some \<lparr> acp_ballot = b, acp_entry_hash = en_entry_hash e, acp_transactions = txs \<rparr>) (db_ballots (va_store a)) \<rparr>)"
    unfolding proposed_entry_def Let_def hd rs e_def[symmetric] en using cp vb ac by simp
  then show "\<exists>db'. proposed_entry c ?a r = Inr (e, db')" by blast
  show "snd (voted_seat c r a) = \<lparr> vt_accepted = True, vt_validator_id = va_id a, vt_sequence = ?n,
       vt_previous_hash = lh_entry_hash h, vt_entry_hash = en_entry_hash e,
       vt_signature_b64 = Some (va_sign a (ledger_entry_signing_message (membership_hash c vset) (en_entry_hash e))),
       vt_promised_ballot = Some b, vt_head_sequence = Some (lh_sequence h), vt_error = None \<rparr>"
    using sq by (simp add: voted_seat_def propose_def Let_def pe hd ht en held_ballot_def promised_ballot_def rs)
qed

lemma ready_commits:
  assumes rd: "ready_seat c vset h b txs a" and r: "r = \<lparr> pp_transactions = txs, pp_sequence = lh_sequence h + 1, pp_ballot = b \<rparr>"
    and cert: "qc_entry cert = build_entry c (lh_sequence h + 1) (lh_entry_hash h) txs" "verify_certificate c cert vset = Inr ()"
    and lim: "0 < set_community_issuance_limit_mcu vset" "set_community_issuance_limit_mcu vset \<le> i64_max"
    and ok: "\<forall>t\<in>set txs. tx_typed t \<and> witness_holds c (lh_entry_hash h) (qc_signatures cert) t"
    and fresh: "\<forall>old\<in>set (db_certificates (va_store a)). cert_hash old \<noteq> cert_hash cert"
  shows "\<exists>resp. commit_reply (commit c fetch (fst (voted_seat c r a)) cert) = (True, Some resp) \<and> cr_committed resp \<and>
    lh_sequence (cr_head resp) = cert_seq cert"
proof -
  let ?a = "fst (promised_seat c r a)"
  note pa = ready_promises(1)[OF rd, of r, unfolded r, simplified, folded r[simplified]]
  obtain db' where pe: "proposed_entry c ?a r = Inr (qc_entry cert, db')"
    using ready_votes(1)[OF rd r] cert(1) by auto
  have st: "va_store ?a = (va_store a)\<lparr> db_ballots := fmupd (lh_sequence h + 1) (b, None) (db_ballots (va_store a)) \<rparr>"
    "va_set ?a = vset" using rd by (simp_all add: pa ready_seat_def)
  have inv: "chain_inv (va_store ?a) = chain_inv (va_store a)" by (rule chain_inv_cong) (simp_all add: st)
  have rs: "pp_transactions r = txs" "pp_sequence r = lh_sequence h + 1" by (simp_all add: r)
  have en: "en_previous_hash (qc_entry cert) = lh_entry_hash h" "cert_seq cert = lh_sequence h + 1"
    by (simp_all add: cert(1) build_entry_def Let_def cert_seq_def)
  have "vt_accepted (snd (propose c ?a r)) \<and>
    (\<exists>a2 resp. commit c fetch (fst (propose c ?a r)) cert = (a2, Inr resp) \<and> cr_committed resp \<and>
       lh_sequence (cr_head resp) = pp_sequence r \<and> lh_entry_hash (cr_head resp) = en_entry_hash (qc_entry cert))"
    by (rule propose_then_commit[OF pe _ _ _ _ refl, where limit = "set_community_issuance_limit_mcu vset"])
       (use rd inv lim cert(2) ok fresh in \<open>auto simp: st rs en ready_seat_def cert_hash_def\<close>)
  then show ?thesis by (auto simp: voted_seat_def commit_reply_def rs en)
qed

section \<open>A quorum of ready seats\<close>

lemma map_filter_map_option: "List.map_filter (\<lambda>m. map_option f (g m)) ms = map (f \<circ> the \<circ> g) (filter (\<lambda>m. g m \<noteq> None) ms)"
  by (induction ms) (auto simp: map_filter_simps split: option.splits)

lemma answered_seats:
  assumes "\<And>m a. m \<in> set (set_members vset) \<Longrightarrow> seat m = Some a \<Longrightarrow> good m (f a)"
  shows "answered vset good (\<lambda>m. map_option f (seat m)) =
     map (f \<circ> the \<circ> seat) (filter (\<lambda>m. seat m \<noteq> None) (set_members vset))"
proof -
  have "List.map_filter (\<lambda>m. case map_option f (seat m) of None \<Rightarrow> None | Some p \<Rightarrow> if good m p then Some p else None) ms =
      map (f \<circ> the \<circ> seat) (filter (\<lambda>m. seat m \<noteq> None) ms)" if "set ms \<subseteq> set (set_members vset)" for ms
    using that by (induction ms) (auto simp: map_filter_simps assms split: option.splits)
  then show ?thesis by (simp add: answered_def)
qed

lemma best_group_same:
  assumes "ks \<noteq> []" "\<forall>x\<in>set ks. x = k" "\<And>xs. set (ord xs) = set xs"
  shows "best_group ord ks = Some (k, length ks)"
proof (cases "best_group ord ks")
  case None
  then show ?thesis using best_group_None[of ord ks] assms(1,3) by simp
next
  case (Some kn)
  obtain k' n where kn: "kn = (k', n)" by (cases kn)
  note b = best_group_ok[OF Some[unfolded kn] assms(3)]
  have "occurrences ks k = length ks" using assms(2) by (simp add: occurrences_def)
  with b assms(2) show ?thesis by (simp add: Some kn)
qed

text \<open>The members whose seat answers, and what is asked of those that do.\<close>

definition up :: "validator_set \<Rightarrow> (validator_member \<Rightarrow> app option) \<Rightarrow> validator_member list" where
  "up vset seat = filter (\<lambda>m. seat m \<noteq> None) (set_members vset)"

definition seated :: "crypto \<Rightarrow> validator_set \<Rightarrow> (validator_member \<Rightarrow> app option) \<Rightarrow> (app \<Rightarrow> bool) \<Rightarrow> bool" where
  "seated c vset seat P \<longleftrightarrow> (\<forall>m\<in>set (set_members vset). \<forall>a. seat m = Some a \<longrightarrow>
     P a \<and> va_id a = vm_validator_id m \<and> (\<forall>msg. verify_validator_signature c m msg (va_sign a msg) = Inr ()))"

lemma up_seat:
  assumes "seated c vset seat P" "m \<in> set (up vset seat)"
  shows "m \<in> set (set_members vset)" "seat m = Some (the (seat m))" "P (the (seat m))" "va_id (the (seat m)) = vm_validator_id m"
    "is_ok (verify_validator_signature c m msg (va_sign (the (seat m)) msg))"
  using assms by (auto simp: up_def seated_def is_ok_def)

lemma seats_head_quorum:
  assumes "seated c (cl_set cl) seat (ready_seat c (cl_set cl) h b txs)" "up (cl_set cl) seat \<noteq> []"
    and "set_threshold (cl_set cl) \<le> length (up (cl_set cl) seat)" "\<And>xs. set (ord xs) = set xs"
    and "lh_membership_hash h = membership_hash c (cl_set cl)"
  shows "head_quorum c ord cl (\<lambda>m. map_option (head_answer c) (seat m)) = Inr h"
proof -
  let ?mh = "membership_hash c (cl_set cl)"
  have ans: "signed_heads c (cl_set cl) ?mh (\<lambda>m. map_option (head_answer c) (seat m)) =
      map (hp_head \<circ> (head_answer c \<circ> the \<circ> seat)) (up (cl_set cl) seat)"
    unfolding signed_heads_def up_def
    by (subst answered_seats)
       (use assms(1,5) in \<open>auto simp: seated_def head_answer_def Let_def ready_seat_def is_ok_def\<close>)
  have "best_group ord (map (\<lambda>h. (lh_sequence h, lh_entry_hash h)) (signed_heads c (cl_set cl) ?mh (\<lambda>m. map_option (head_answer c) (seat m))))
      = Some ((lh_sequence h, lh_entry_hash h), length (up (cl_set cl) seat))"
    unfolding ans using assms(2,4) up_seat(3)[OF assms(1)]
    by (subst best_group_same[where k = "(lh_sequence h, lh_entry_hash h)"])
       (auto simp: head_answer_def Let_def ready_seat_def)
  then show ?thesis using assms(3,5) by (simp add: head_quorum_def Let_def)
qed

lemma seats_claim_height:
  assumes "seated c (cl_set cl) seat (ready_seat c (cl_set cl) h (pp_ballot r) txs)"
    and "set_threshold (cl_set cl) \<le> length (up (cl_set cl) seat)" "pp_sequence r = lh_sequence h + 1"
  shows "\<exists>cl'. claim_height cl (lh_sequence h + 1) (\<lambda>m. map_option (\<lambda>a. snd (promised_seat c r a)) (seat m)) = (cl', Some None) \<and>
     cl_set cl' = cl_set cl"
proof -
  define n where "n = lh_sequence h + 1"
  define votes where "votes = map ((\<lambda>a. snd (promised_seat c r a)) \<circ> the \<circ> seat) (up (cl_set cl) seat)"
  have ans: "prepare_votes (cl_set cl) n (\<lambda>m. map_option (\<lambda>a. snd (promised_seat c r a)) (seat m)) = votes"
    unfolding prepare_votes_def up_def votes_def
  proof (rule answered_seats)
    fix m a
    assume "m \<in> set (set_members (cl_set cl))" "seat m = Some a"
    with assms(1) have rd: "ready_seat c (cl_set cl) h (pp_ballot r) txs a" "va_id a = vm_validator_id m"
      unfolding seated_def by blast+
    from ready_promises(4,5)[OF rd(1) assms(3) refl] rd(2)
    show "pv_validator_id (snd (promised_seat c r a)) = vm_validator_id m \<and> pv_sequence (snd (promised_seat c r a)) = n"
      by (simp add: n_def)
  qed
  have v: "pv_promised v \<and> pv_accepted v = None" if v: "v \<in> set votes" for v
  proof -
    from v obtain m where m: "m \<in> set (up (cl_set cl) seat)" "v = snd (promised_seat c r (the (seat m)))"
      by (auto simp: votes_def)
    from ready_promises(2,3)[OF up_seat(3)[OF assms(1) m(1)] assms(3) refl] show ?thesis by (simp add: m(2))
  qed
  have "List.map_filter pv_accepted vs = []" if "\<forall>v\<in>set vs. pv_accepted v = None" for vs :: "prepare_vote list"
    using that by (induction vs) (auto simp: map_filter_simps)
  moreover have "\<forall>v\<in>set votes. pv_accepted v = None" using v by blast
  ultimately have "adopted votes = None" by (simp add: adopted_def)
  moreover have "filter pv_promised votes = votes" using v by (simp add: filter_id_conv)
  moreover have "length votes = length (up (cl_set cl) seat)" by (simp add: votes_def)
  ultimately show ?thesis using assms(2) unfolding claim_height_def Let_def ans n_def[symmetric] by simp
qed

text \<open>The signatures the seats give an entry.\<close>

definition seat_signatures ::
  "crypto \<Rightarrow> validator_set \<Rightarrow> (validator_member \<Rightarrow> app option) \<Rightarrow> ledger_entry \<Rightarrow> validator_signature list" where
  "seat_signatures c vset seat e =
     map (\<lambda>m. \<lparr> vs_validator_id = vm_validator_id m,
                vs_signature_b64 = va_sign (the (seat m))
                  (ledger_entry_signing_message (membership_hash c vset) (en_entry_hash e)) \<rparr>) (up vset seat)"

lemma seat_certificate_verifies:
  assumes "validate_validator_set vset = Inr ()" "seated c vset seat P" "set_threshold vset \<le> length (up vset seat)"
    and "txs \<noteq> []" "distinct (map claim_key txs)" "e = build_entry c n prev txs"
  shows "verify_certificate c \<lparr> qc_entry = e, qc_membership_hash = membership_hash c vset,
     qc_signatures = seat_signatures c vset seat e \<rparr> vset = Inr ()"
proof -
  let ?msg = "ledger_entry_signing_message (membership_hash c vset) (en_entry_hash e)"
  let ?sigs = "seat_signatures c vset seat e"
  have once: "check_claims_once {} txs = Inr ()" using assms(5) by (simp add: check_claims_once_ok)
  have "\<forall>s\<in>set ?sigs. signed_by c vset ?msg s"
    using up_seat[OF assms(2)] by (auto simp: seat_signatures_def intro!: member_signed_by[OF assms(1)])
  moreover have "distinct (map vs_validator_id ?sigs)"
    using assms(1) by (simp add: seat_signatures_def o_def up_def validate_validator_set_ok distinct_map_filter)
  ultimately have "count_good c vset ?msg {} ?sigs = length ?sigs" by (intro count_good_all) auto
  moreover have "length ?sigs = length (up vset seat)" by (simp add: seat_signatures_def)
  moreover have "en_transactions e = txs" "en_transactions_hash e = transactions_hash c txs"
    "en_entry_hash e = entry_hash c (en_sequence e) (en_previous_hash e) (transactions_hash c txs)"
    by (simp_all add: assms(6) build_entry_def Let_def)
  ultimately show ?thesis using assms(3,4) once by (simp add: verify_certificate_def Let_def)
qed

lemma seats_votes:
  assumes "seated c vset seat (ready_seat c vset h (pp_ballot r) txs)"
    and r: "r = \<lparr> pp_transactions = txs, pp_sequence = lh_sequence h + 1, pp_ballot = b \<rparr>"
    and "e = build_entry c (lh_sequence h + 1) (lh_entry_hash h) txs"
    and "votes = proposal_votes vset (\<lambda>m. map_option (\<lambda>a. snd (voted_seat c r a)) (seat m))"
  shows "find (\<lambda>x. outranks x b) (List.map_filter (\<lambda>(_, v). vt_promised_ballot v) votes) = None"
    and "List.map_filter (vote_signature c (membership_hash c vset) e) votes = seat_signatures c vset seat e"
proof -
  have vs: "votes = map (\<lambda>m. (m, snd (voted_seat c r (the (seat m))))) (up vset seat)"
  proof -
    have "List.map_filter (\<lambda>m. map_option (\<lambda>v. (m, v)) (map_option f (seat m))) ms =
        map (\<lambda>m. (m, f (the (seat m)))) (filter (\<lambda>m. seat m \<noteq> None) ms)" for ms and f :: "app \<Rightarrow> proposal_vote"
      by (induction ms) (auto simp: map_filter_simps)
    then show ?thesis by (simp only: assms(4) proposal_votes_def up_def)
  qed
  have rd: "ready_seat c vset h b txs (the (seat m))" if "m \<in> set (up vset seat)" for m
    using up_seat(3)[OF assms(1) that] by (simp add: r)
  have irr: "\<not> outranks b b" using outranks_asym by blast
  have vote: "vt_promised_ballot (snd (voted_seat c r (the (seat m)))) = Some b"
    "vote_signature c (membership_hash c vset) e (m, snd (voted_seat c r (the (seat m)))) =
       Some \<lparr> vs_validator_id = vm_validator_id m, vs_signature_b64 = va_sign (the (seat m))
         (ledger_entry_signing_message (membership_hash c vset) (en_entry_hash e)) \<rparr>"
    if m: "m \<in> set (up vset seat)" for m
    using up_seat(5)[OF assms(1) m] unfolding ready_votes(2)[OF rd[OF m] r] assms(3)[symmetric]
    by (simp_all add: vote_signature_def) (simp add: assms(3) build_entry_def Let_def)
  have "List.map_filter (\<lambda>(_, v). vt_promised_ballot v) (map (\<lambda>m. (m, snd (voted_seat c r (the (seat m))))) ms) = map (\<lambda>_. b) ms"
    if "set ms \<subseteq> set (up vset seat)" for ms
    using that by (induction ms) (simp_all add: map_filter_simps vote(1))
  then show "find (\<lambda>x. outranks x b) (List.map_filter (\<lambda>(_, v). vt_promised_ballot v) votes) = None"
    by (simp add: vs find_None_iff irr)
  have "List.map_filter (vote_signature c (membership_hash c vset) e) (map (\<lambda>m. (m, snd (voted_seat c r (the (seat m))))) ms) =
      map (\<lambda>m. \<lparr> vs_validator_id = vm_validator_id m, vs_signature_b64 = va_sign (the (seat m))
         (ledger_entry_signing_message (membership_hash c vset) (en_entry_hash e)) \<rparr>) ms"
    if "set ms \<subseteq> set (up vset seat)" for ms
    using that by (induction ms) (simp_all add: map_filter_simps vote(2))
  then show "List.map_filter (vote_signature c (membership_hash c vset) e) votes = seat_signatures c vset seat e"
    by (simp add: vs seat_signatures_def)
qed

lemma seats_commit:
  assumes "seated c vset seat (\<lambda>a. ready_seat c vset h b txs a \<and> (\<forall>old\<in>set (db_certificates (va_store a)). cert_hash old \<noteq> cert_hash cert))"
    and r: "r = \<lparr> pp_transactions = txs, pp_sequence = lh_sequence h + 1, pp_ballot = b \<rparr>"
    and cert: "qc_entry cert = build_entry c (lh_sequence h + 1) (lh_entry_hash h) txs" "verify_certificate c cert vset = Inr ()"
    and lim: "0 < set_community_issuance_limit_mcu vset" "set_community_issuance_limit_mcu vset \<le> i64_max"
    and ok: "\<forall>t\<in>set txs. tx_typed t \<and> witness_holds c (lh_entry_hash h) (qc_signatures cert) t"
  shows "commits vset cert (\<lambda>m. map_option (\<lambda>a. commit_reply (commit c fetch (fst (voted_seat c r a)) cert)) (seat m)) =
     length (up vset seat)"
proof -
  have "(case map_option (\<lambda>a. commit_reply (commit c fetch (fst (voted_seat c r a)) cert)) (seat m) of
         Some (True, Some resp) \<Rightarrow> cr_committed resp \<and> lh_sequence (cr_head resp) \<ge> cert_seq cert | _ \<Rightarrow> False)
      \<longleftrightarrow> seat m \<noteq> None" if m: "m \<in> set (set_members vset)" for m
  proof (cases "seat m")
    case (Some a)
    then have "m \<in> set (up vset seat)" using m by (simp add: up_def)
    from up_seat(3)[OF assms(1) this] Some
    have rd: "ready_seat c vset h b txs a" "\<forall>old\<in>set (db_certificates (va_store a)). cert_hash old \<noteq> cert_hash cert" by auto
    from ready_commits[OF rd(1) r cert lim ok rd(2), of fetch] obtain resp where
      "commit_reply (commit c fetch (fst (voted_seat c r a)) cert) = (True, Some resp)" "cr_committed resp"
      "lh_sequence (cr_head resp) = cert_seq cert" by blast
    then show ?thesis by (simp add: Some)
  qed simp
  then show ?thesis unfolding commits_def up_def by (intro arg_cong[of _ _ length] filter_cong refl)
qed

text \<open>C8.  Settlement goes through.  When a quorum of seats answers, all at the same head, none of them bound to
  another batch at the next height and each able to validate the client's batch, one attempt settles it: the head is
  agreed, the height is claimed, the batch is signed and verified, and every answering seat commits the certificate
  the client returns.\<close>

theorem attempt_settles:
  assumes valid: "validate_validator_set (cl_set cl) = Inr ()" "set_community_issuance_limit_mcu (cl_set cl) \<le> i64_max"
    and b: "b = fst (next_ballot cl)" and r: "r = \<lparr> pp_transactions = txs, pp_sequence = lh_sequence h + 1, pp_ballot = b \<rparr>"
    and cert: "cert = \<lparr> qc_entry = build_entry c (lh_sequence h + 1) (lh_entry_hash h) txs,
       qc_membership_hash = membership_hash c (cl_set cl),
       qc_signatures = seat_signatures c (cl_set cl) seat (build_entry c (lh_sequence h + 1) (lh_entry_hash h) txs) \<rparr>"
    and st: "seated c (cl_set cl) seat (\<lambda>a. ready_seat c (cl_set cl) h b txs a \<and>
       (\<forall>old\<in>set (db_certificates (va_store a)). cert_hash old \<noteq> cert_hash cert))"
    and q: "set_threshold (cl_set cl) \<le> length (up (cl_set cl) seat)"
    and h: "lh_membership_hash h = membership_hash c (cl_set cl)"
    and txs: "txs \<noteq> []" "\<forall>t\<in>set txs. tx_typed t \<and> witness_holds c (lh_entry_hash h) (qc_signatures cert) t"
    and ord: "\<And>xs. set (ord xs) = set xs"
  shows "\<exists>cl'. attempt c ord cl txs (seats_env c fetch r seat) = (cl', Inr (Settled cert))"
proof -
  let ?v = "cl_set cl" and ?env = "seats_env c fetch r seat"
  let ?e = "build_entry c (lh_sequence h + 1) (lh_entry_hash h) txs"
  have rd: "seated c ?v seat (ready_seat c ?v h (pp_ballot r) txs)" using st by (auto simp: seated_def r)
  have pos: "0 < set_threshold ?v" "0 < set_community_issuance_limit_mcu ?v" using valid(1) by (auto simp: validate_validator_set_ok)
  then have ne: "up ?v seat \<noteq> []" using q by auto
  obtain cl1 where nb: "next_ballot cl = (b, cl1)" "cl_set cl1 = ?v"
    using b cl_set_frame(3)[of cl] by (cases "next_ballot cl") simp
  have hq: "head_quorum c ord cl (ae_heads ?env) = Inr h"
    unfolding seats_env_def attempt_env.simps by (rule seats_head_quorum[OF rd ne q ord h])
  have rb: "r\<lparr> pp_ballot := b \<rparr> = r" "pp_sequence r = lh_sequence h + 1" by (simp_all add: r)
  have "\<exists>cl2. claim_height cl1 (lh_sequence h + 1) (\<lambda>m. map_option (\<lambda>a. snd (promised_seat c r a)) (seat m)) = (cl2, Some None) \<and>
     cl_set cl2 = cl_set cl1"
    by (rule seats_claim_height) (use rd q rb(2) nb(2) in simp_all)
  then obtain cl2 where ch: "claim_height cl1 (lh_sequence h + 1) (ae_prepare ?env b) = (cl2, Some None)" "cl_set cl2 = ?v"
    using nb(2) by (auto simp: seats_env_def rb(1))
  define votes where "votes = proposal_votes ?v (ae_propose ?env r)"
  have votes': "votes = proposal_votes ?v (\<lambda>m. map_option (\<lambda>a. snd (voted_seat c r a)) (seat m))"
    by (simp add: votes_def seats_env_def)
  note sv = seats_votes[OF rd r refl votes']
  obtain m0 where m0: "m0 \<in> set (up ?v seat)" using ne by fastforce
  have "ready_seat c ?v h b txs (the (seat m0))" using up_seat(3)[OF rd m0] by (simp add: r)
  then have once: "distinct (map claim_key txs)" unfolding ready_seat_def check_proposed_ok by blast
  have vc: "verify_certificate c cert ?v = Inr ()"
    unfolding cert by (rule seat_certificate_verifies[OF valid(1) rd q txs(1) once refl])
  have cm: "commits ?v cert (ae_commit ?env cert) = length (up ?v seat)"
    unfolding seats_env_def attempt_env.simps
    by (rule seats_commit[OF st r _ vc pos(2) valid(2) txs(2)]) (simp add: cert)
  have len: "length (seat_signatures c ?v seat ?e) = length (up ?v seat)" by (simp add: seat_signatures_def)
  have "conclude c cl2 ?env (membership_hash c ?v) ?e votes False = Inr (Settled cert)"
    unfolding conclude_def Let_def ch(2) sv(2) len cert[symmetric] using q vc cm by simp
  then show ?thesis
    unfolding attempt_def hq Let_def nb(1) using ch sv(1)
    by (simp add: h votes_def[symmetric] r[symmetric] del: add_Suc_right Nat.add_0_right One_nat_def)
qed

theorem attempt_settles_witness:
  "\<exists>cl' cert. attempt demo id demo_client [demo_reserve] (seats_env demo (\<lambda>_ _ _. None) demo_request demo_seats) =
     (cl', Inr (Settled cert))"
proof -
  let ?h = "app_head demo demo_app"
  let ?e = "build_entry demo (lh_sequence ?h + 1) (lh_entry_hash ?h) [demo_reserve]"
  have up: "up demo_set demo_seats = set_members demo_set" by (simp add: up_def demo_seats_def)
  have seat: "app_head demo (demo_app\<lparr> va_id := i \<rparr>) = ?h" "app_height (demo_app\<lparr> va_id := i \<rparr>) = 0" for i
    by (simp_all add: app_head_def app_height_def)
  have rd: "ready_seat demo demo_set ?h demo_ballot [demo_reserve] (demo_app\<lparr> va_id := i \<rparr>)" for i
    unfolding ready_seat_def seat
    by (simp add: reach_chain_inv[OF store_reach.init] sound_book_empty demo_batch_reserve validate_settlement_membership_def
        i64_max_def)
  have thr: "set_threshold demo_set \<le> length (set_members demo_set)" by (simp add: demo_set_def)
  have "\<exists>cl'. attempt demo id demo_client [demo_reserve] (seats_env demo (\<lambda>_ _ _. None) demo_request demo_seats) =
     (cl', Inr (Settled \<lparr> qc_entry = ?e, qc_membership_hash = membership_hash demo (cl_set demo_client),
       qc_signatures = seat_signatures demo (cl_set demo_client) demo_seats ?e \<rparr>))"
    by (rule attempt_settles[OF _ _ refl _ refl])
       (simp_all add: demo_set_valid seated_def demo_seats_def rd[simplified] up thr demo_request_def witness_holds_def range_defs)
  then show ?thesis by blast
qed

end
