(* ===== verification/Client.thy ===== *)
theory Client
  imports Scenario
begin

text \<open>
  What a ledger client may conclude from the answers of the seats: quorums over heads, states, balances and claims,
  the outcome of an attempt, and following the set along the chain.
\<close>

section \<open>Reading\<close>

text \<open>The head a client reads does not depend on the order in which its \<open>HashMap\<close> is visited: with a valid set,
  whatever the seats answer, every order gives the same head or the same error.\<close>

theorem head_quorum_order:
  assumes "validate_validator_set (cl_set cl) = Inr ()"
    and "\<And>xs. set (ord xs) = set xs" "\<And>xs. set (ord' xs) = set xs"
  shows "head_quorum c ord cl replies = head_quorum c ord' cl replies"
proof -
  define ks where "ks = map (\<lambda>h. (lh_sequence h, lh_entry_hash h))
     (signed_heads c (cl_set cl) (membership_hash c (cl_set cl)) replies)"
  let ?t = "set_threshold (cl_set cl)"
  have len: "length ks < 2 * ?t"
    using assms(1) answered_length[of "cl_set cl" "\<lambda>m p.
       hp_validator_id p = vm_validator_id m \<and> lh_membership_hash (hp_head p) = membership_hash c (cl_set cl) \<and>
       is_ok (verify_validator_signature c m (head_message (hp_head p)) (hp_signature_b64 p))" replies]
    by (simp add: ks_def signed_heads_def validate_validator_set_ok)
  show ?thesis
  proof (cases "ks = []")
    case True
    then show ?thesis using best_group_None[of ord ks] best_group_None[of ord' ks] assms(2,3)
      by (simp add: head_quorum_def Let_def ks_def[symmetric])
  next
    case False
    then obtain k n k' n' where g: "best_group ord ks = Some (k, n)" "best_group ord' ks = Some (k', n')"
      using best_group_None[of ord ks] best_group_None[of ord' ks] assms(2,3) by fastforce
    have u: "?t \<le> n \<Longrightarrow> k' = k \<and> n' = n" "?t \<le> n' \<Longrightarrow> k = k' \<and> n = n'"
      using best_group_unique[OF assms(2,3) len g(1) _ g(2)] best_group_unique[OF assms(3,2) len g(2) _ g(1)] by blast+
    have "k' = k \<and> n' = n \<or> n < ?t \<and> n' < ?t"
    proof (cases "?t \<le> n \<or> ?t \<le> n'")
      case True
      with u show ?thesis by blast
    qed simp
    then show ?thesis
      by (cases k; cases k') (auto simp: head_quorum_def Let_def ks_def[symmetric] g)
  qed
qed

definition demo_heads :: "head_proof replies" where
  "demo_heads m = Some \<lparr> hp_head = \<lparr> lh_sequence = (if vm_validator_id m = ''v4'' then 7 else 3), lh_entry_hash = ''e'',
     lh_membership_hash = membership_hash demo demo_set \<rparr>, hp_validator_id = vm_validator_id m, hp_signature_b64 = ''s'' \<rparr>"

theorem head_quorum_order_witness:
  "head_quorum demo id demo_client demo_heads = head_quorum demo rev demo_client demo_heads"
  by (rule head_quorum_order) (simp_all add: demo_set_valid)

text \<open>A checkpoint the client assembles verifies against the set it was assembled from.\<close>

theorem checkpoint_quorum_verifies:
  assumes "validate_validator_set (cl_set cl) = Inr ()" "\<And>xs. set (ord xs) = set xs"
    and "checkpoint_quorum c ord cl replies = Inr cp"
  shows "verify_checkpoint c cp (cl_set cl) = Inr ()"
proof -
  let ?v = "cl_set cl"
  define good where "good = (\<lambda>m (p :: state_proof). sp_validator_id p = vm_validator_id m \<and>
     lh_membership_hash (sp_head p) = membership_hash c ?v \<and>
     is_ok (verify_validator_signature c m (state_message (sp_head p) (sp_state_hash p)) (sp_signature_b64 p)))"
  define proofs where "proofs = answered ?v good replies"
  have pr: "signed_states c ?v replies = proofs" by (simp add: signed_states_def proofs_def good_def)
  obtain s h st n where g: "best_group ord (map state_key proofs) = Some ((s, h, st), n)"
    and n: "set_threshold ?v \<le> n"
    and cp: "cp_head cp = \<lparr> lh_sequence = s, lh_entry_hash = h, lh_membership_hash = membership_hash c ?v \<rparr>"
      "cp_state_hash cp = st" "cp_signatures cp = map (\<lambda>p. \<lparr> vs_validator_id = sp_validator_id p, vs_signature_b64 = sp_signature_b64 p \<rparr>)
                         (filter (\<lambda>p. state_key p = (s, h, st)) proofs)"
    using assms(3) by (auto simp: checkpoint_quorum_def Let_def pr not_less split: option.splits if_splits)
  let ?agreed = "filter (\<lambda>p. state_key p = (s, h, st)) proofs"
  have len: "n = length ?agreed"
    using best_group_ok(2)[OF g assms(2)] by (simp add: occurrences_def filter_map o_def)
  let ?msg = "checkpoint_signing_message (membership_hash c ?v) s h st"
  have "\<forall>x\<in>set (cp_signatures cp). signed_by c ?v ?msg x"
  proof
    fix x
    assume "x \<in> set (cp_signatures cp)"
    then obtain p where p: "p \<in> set proofs" "state_key p = (s, h, st)"
      "x = \<lparr> vs_validator_id = sp_validator_id p, vs_signature_b64 = sp_signature_b64 p \<rparr>" by (auto simp: cp)
    from p(1) obtain m where m: "m \<in> set (set_members ?v)" "good m p" unfolding proofs_def answered_mem by blast
    have "state_message (sp_head p) (sp_state_hash p) = ?msg"
      using m(2) p(2) by (auto simp: good_def state_message_def state_key_def)
    then show "signed_by c ?v ?msg x"
      using m p(3) by (intro member_signed_by[OF assms(1) m(1)]) (auto simp: good_def)
  qed
  moreover have "distinct (map sp_validator_id proofs)"
    unfolding proofs_def by (rule answered_ids[OF assms(1)]) (simp add: good_def)
  then have "distinct (map vs_validator_id (cp_signatures cp))"
    by (simp add: cp o_def distinct_map_filter)
  ultimately have "count_good c ?v ?msg {} (cp_signatures cp) = length (cp_signatures cp)"
    by (intro count_good_all) auto
  then show ?thesis using n len by (simp add: verify_checkpoint_def Let_def cp)
qed

definition demo_states :: "state_proof replies" where
  "demo_states m = Some \<lparr> sp_head = \<lparr> lh_sequence = 3, lh_entry_hash = ''e'',
     lh_membership_hash = membership_hash demo demo_set \<rparr>, sp_state_hash = ''h'', sp_validator_id = vm_validator_id m,
     sp_signature_b64 = ''s'' \<rparr>"

theorem checkpoint_quorum_verifies_witness:
  "\<exists>cp. checkpoint_quorum demo id demo_client demo_states = Inr cp \<and> verify_checkpoint demo cp demo_set = Inr ()"
proof -
  have "is_ok (checkpoint_quorum demo id demo_client demo_states)"
    by (simp add: checkpoint_quorum_def signed_states_def answered_def demo_states_def is_ok_def Let_def)
       (simp add: demo_set_def map_filter_simps state_key_def best_group_def max_by_key_def occurrences_def)
  then obtain cp where cp: "checkpoint_quorum demo id demo_client demo_states = Inr cp"
    by (cases "checkpoint_quorum demo id demo_client demo_states") (auto simp: is_ok_def)
  with checkpoint_quorum_verifies[OF _ _ cp] demo_set_valid show ?thesis by simp
qed

text \<open>C9.  The balance a client believes was reported, with the same figures, by at least a threshold of seats, and no
  figures that as many seats agree on are newer.\<close>

theorem agreed_balance_ok:
  assumes "agreed_balance ord proofs threshold = Some p" "\<And>xs. set (ord xs) = set xs"
  shows "p \<in> set proofs \<and> threshold \<le> length (filter (\<lambda>q. balance_key q = balance_key p) proofs) \<and>
    (\<forall>q\<in>set proofs. threshold \<le> length (filter (\<lambda>r. balance_key r = balance_key q) proofs) \<longrightarrow>
       lh_sequence (bp_head q) \<le> lh_sequence (bp_head p))"
proof -
  define group where "group = (\<lambda>k. filter (\<lambda>r. balance_key r = k) proofs)"
  define groups where "groups = map group (ord (remdups (map balance_key proofs)))"
  from assms(1) obtain ps where
    ps: "max_by_key freshest (filter (\<lambda>ps. length ps \<ge> threshold) groups) = Some ps"
    and p: "max_by_key (\<lambda>p. lh_sequence (bp_head p)) ps = Some p"
    by (auto simp: agreed_balance_def Let_def groups_def group_def split: option.splits)
  have inps: "p \<in> set ps" by (rule max_by_key_in[OF p])
  from max_by_key_in[OF ps] obtain k where k: "ps = group k" "threshold \<le> length ps" by (auto simp: groups_def)
  with inps have kp: "k = balance_key p" "p \<in> set proofs" by (auto simp: group_def)
  have top: "freshest ps \<le> lh_sequence (bp_head p)" using max_by_key_le[OF p] by (intro freshest_le) auto
  have "lh_sequence (bp_head q) \<le> lh_sequence (bp_head p)"
    if q: "q \<in> set proofs" "threshold \<le> length (group (balance_key q))" for q
  proof -
    have "group (balance_key q) \<in> set (filter (\<lambda>ps. length ps \<ge> threshold) groups)"
      using q assms(2) by (auto simp: groups_def)
    from max_by_key_le[OF ps this] freshest_ge[of q "group (balance_key q)"] top q(1) show ?thesis
      by (auto simp: group_def)
  qed
  with kp k show ?thesis by (auto simp: group_def)
qed

definition demo_balance :: "int \<Rightarrow> nat \<Rightarrow> balance_proof" where
  "demo_balance b n = \<lparr> bp_account_id = ''a'', bp_balance_mcu = b, bp_earned_mcu = b, bp_spent_mcu = 0,
     bp_head = \<lparr> lh_sequence = n, lh_entry_hash = ''e'', lh_membership_hash = ''m'' \<rparr>, bp_validator_id = ''v'',
     bp_signature_b64 = ''s'' \<rparr>"

theorem agreed_balance_ok_witness:
  "agreed_balance id [demo_balance 5 1, demo_balance 5 2, demo_balance 9 7, demo_balance 5 1] 3 = Some (demo_balance 5 2) \<and>
   demo_balance 5 2 \<in> set [demo_balance 5 1, demo_balance 5 2, demo_balance 9 7, demo_balance 5 1]"
proof -
  have a: "agreed_balance id [demo_balance 5 1, demo_balance 5 2, demo_balance 9 7, demo_balance 5 1] 3 = Some (demo_balance 5 2)"
    by (simp add: agreed_balance_def demo_balance_def balance_key_def max_by_key_def freshest_def)
  from agreed_balance_ok[OF a] a show ?thesis by simp
qed

section \<open>Settling\<close>

text \<open>C10.  A batch is reported settled only under a certificate for exactly that batch that verifies against the set
  the client follows, and only after a threshold of seats said that they stored it.\<close>

theorem attempt_settled:
  assumes "attempt c ord cl txs env = (cl', Inr (Settled cert))"
  shows "verify_certificate c cert (cl_set cl) = Inr () \<and> cert_txs cert = txs \<and>
    set_threshold (cl_set cl) \<le> commits (cl_set cl) cert (ae_commit env cert)"
  using attempt_certificate[OF assms] by blast

definition demo_env :: attempt_env where
  "demo_env =
     \<lparr> ae_heads = (\<lambda>m. Some (head_answer demo (demo_app\<lparr> va_id := vm_validator_id m \<rparr>))),
       ae_prepare = (\<lambda>b m. Some \<lparr> pv_promised = True, pv_validator_id = vm_validator_id m, pv_sequence = 1,
         pv_accepted = None, pv_promised_ballot = Some b, pv_error = None \<rparr>),
       ae_propose = (\<lambda>r m. Some \<lparr> vt_accepted = True, vt_validator_id = vm_validator_id m, vt_sequence = 1,
         vt_previous_hash = GENESIS, vt_entry_hash = cert_hash cert1, vt_signature_b64 = Some ''s'',
         vt_promised_ballot = Some (pp_ballot r), vt_head_sequence = Some 0, vt_error = None \<rparr>),
       ae_heads_after = (\<lambda>_. None),
       ae_commit = (\<lambda>cert m. Some (True, Some \<lparr> cr_committed = True, cr_head = \<lparr> lh_sequence = 1,
         lh_entry_hash = cert_hash cert, lh_membership_hash = membership_hash demo demo_set \<rparr> \<rparr>)) \<rparr>"

definition demo_settled :: quorum_certificate where
  "demo_settled = cert1\<lparr> qc_signatures := map (\<lambda>n. \<lparr> vs_validator_id = ''v'' @ n, vs_signature_b64 = ''s'' \<rparr>)
     [''1'', ''2'', ''3'', ''4''] \<rparr>"

lemma demo_attempt: "\<exists>cl'. attempt demo id demo_client [demo_reserve] demo_env = (cl', Inr (Settled demo_settled))"
proof -
  have irr: "\<not> outranks demo_ballot demo_ballot" using outranks_asym by blast
  have mem: "set_members demo_set = map (\<lambda>n. \<lparr> vm_validator_id = ''v'' @ n, vm_url = ''u'' @ n, vm_public_key_b64 = ''k'' @ n \<rparr>)
      [''1'', ''2'', ''3'', ''4'']" "set_threshold demo_set = 3" by (simp_all add: demo_set_def)
  have hd: "app_head demo (demo_app\<lparr> va_id := i \<rparr>) = \<lparr> lh_sequence = 0, lh_entry_hash = GENESIS, lh_membership_hash = membership_hash demo demo_set \<rparr>" for i
    by (simp add: app_head_def store_head_def)
  have e: "build_entry demo 1 GENESIS [demo_reserve] = qc_entry cert1" "en_sequence (qc_entry cert1) = 1"
    "en_entry_hash (qc_entry cert1) = cert_hash cert1" "qc_membership_hash cert1 = membership_hash demo demo_set"
    by (simp_all add: cert1_def demo_cert_def cert_hash_def build_entry_def Let_def)
  have vc: "verify_certificate demo demo_settled demo_set = Inr ()"
  proof -
    have "count_good demo demo_set msg {} (qc_signatures demo_settled) = 4" for msg
      by (simp add: demo_settled_def mem signed_by_def)
    then show ?thesis
      by (simp add: verify_certificate_def Let_def demo_settled_def cert1_def demo_cert_def build_entry_def check_claims_once_ok mem(2))
  qed
  have hq: "head_quorum demo id demo_client (ae_heads demo_env) = Inr (app_head demo demo_app)"
    by (simp add: head_quorum_def signed_heads_def answered_def demo_env_def head_answer_def hd is_ok_def Let_def)
       (simp add: mem map_filter_simps best_group_def max_by_key_def occurrences_def)
  obtain cl1 where nb: "next_ballot demo_client = (demo_ballot, cl1)" "cl_set cl1 = demo_set"
    by (simp add: next_ballot_def demo_client_def wrap_u64_def demo_ballot_def)
  have ch: "\<exists>cl2. claim_height cl1 1 (ae_prepare demo_env demo_ballot) = (cl2, Some None) \<and> cl_set cl2 = demo_set"
    by (simp add: claim_height_def prepare_votes_def answered_def demo_env_def nb mem map_filter_simps adopted_def Let_def outbid_def)
  then obtain cl2 where cl2: "claim_height cl1 1 (ae_prepare demo_env demo_ballot) = (cl2, Some None)" "cl_set cl2 = demo_set" by blast
  have rq: "\<lparr> pp_transactions = [demo_reserve], pp_sequence = 1, pp_ballot = demo_ballot \<rparr> = demo_request"
    by (simp add: demo_request_def)
  let ?votes = "proposal_votes demo_set (ae_propose demo_env demo_request)"
  have sg: "List.map_filter (vote_signature demo (membership_hash demo demo_set) (qc_entry cert1)) ?votes = qc_signatures demo_settled"
    by (simp add: proposal_votes_def demo_env_def mem map_filter_simps vote_signature_def e is_ok_def demo_settled_def)
  have cm: "commits demo_set demo_settled (ae_commit demo_env demo_settled) = 4"
    by (simp add: commits_def demo_env_def mem demo_settled_def cert_seq_def e)
  have len: "length (qc_signatures demo_settled) = 4" by (simp add: demo_settled_def)
  have st: "\<lparr> qc_entry = qc_entry cert1, qc_membership_hash = membership_hash demo demo_set, qc_signatures = qc_signatures demo_settled \<rparr> = demo_settled"
    by (simp add: demo_settled_def e)
  have "conclude demo cl2 demo_env (membership_hash demo demo_set) (qc_entry cert1) ?votes False = Inr (Settled demo_settled)"
    unfolding conclude_def Let_def cl2(2) sg len st using vc cm by (simp add: mem(2))
  moreover have "find (\<lambda>x. outranks x demo_ballot) (List.map_filter (\<lambda>(_, v). vt_promised_ballot v) ?votes) = None"
    by (simp add: proposal_votes_def demo_env_def mem map_filter_simps irr)
  ultimately show ?thesis
    unfolding attempt_def hq Let_def nb(1) using cl2 e(1)
    by (simp add: rq del: One_nat_def)
qed

theorem attempt_settled_witness:
  "verify_certificate demo demo_settled demo_set = Inr () \<and> cert_txs demo_settled = [demo_reserve]"
proof -
  obtain cl' where "attempt demo id demo_client [demo_reserve] demo_env = (cl', Inr (Settled demo_settled))"
    using demo_attempt by blast
  from attempt_settled[OF this] show ?thesis by simp
qed

text \<open>Settling a batch answers every transaction of it, and answers with a certificate only when that certificate
  verifies against the set the client follows in the end and holds the very transaction (up to a collision of its
  hash); also when the batch was rejected and retried one by one, and when the set changed underneath.\<close>

theorem settle_batch_answers:
  assumes "settle_batch c ord cl env txs = Some (cl', answers)" "inj_on (transaction_hash c) U"
    and "set txs \<subseteq> U" "\<forall>cert. Inr cert \<in> set answers \<longrightarrow> set (cert_txs cert) \<subseteq> U"
  shows "length answers = length txs \<and>
    (\<forall>i < length txs. \<forall>cert. answers ! i = Inr cert \<longrightarrow>
       verify_certificate c cert (cl_set cl') = Inr () \<and> txs ! i \<in> set (cert_txs cert))"
proof -
  obtain cl1 first where f: "round c ord cl txs (se_rounds env 0) = (cl1, first)" by (cases "round c ord cl txs (se_rounds env 0)")
  have "\<exists>x r. settle_answer c ord env txs (x, r) = (cl', answers) \<and>
      (\<forall>cert. r = Inr cert \<longrightarrow> verify_certificate c cert (cl_set x) = Inr () \<and> cert_txs cert = txs)"
  proof (cases "\<exists>why. first = Inl (Rejected why)")
    case True
    with assms(1) f obtain cl2 b where rs: "refresh_set c cl1 (se_pages env) = Some (cl2, b)"
      by (auto simp: settle_batch_def split: option.splits)
    show ?thesis
    proof (cases "b = Inr True")
      case b: True
      obtain x r where "round c ord cl2 txs (se_rounds env 1) = (x, r)" by (cases "round c ord cl2 txs (se_rounds env 1)")
      with True b assms(1) f rs round_certificate[OF this] show ?thesis
        by (intro exI[of _ x] exI[of _ r]) (auto simp: settle_batch_def)
    next
      case False
      with True assms(1) f rs show ?thesis
        by (intro exI[of _ cl2] exI[of _ first]) (auto simp: settle_batch_def split: sum.splits bool.splits)
    qed
  next
    case False
    with assms(1) f round_certificate[OF f] show ?thesis
      by (intro exI[of _ cl1] exI[of _ first]) (auto simp: settle_batch_def split: sum.splits round_error.splits)
  qed
  then obtain x r where xr: "settle_answer c ord env txs (x, r) = (cl', answers)"
    "\<And>cert. r = Inr cert \<Longrightarrow> verify_certificate c cert (cl_set x) = Inr () \<and> cert_txs cert = txs" by blast
  have ok: "length answers = length txs \<and>
    (\<forall>i < length txs. \<forall>cert. answers ! i = Inr cert \<longrightarrow> verify_certificate c cert (cl_set cl') = Inr () \<and>
       (\<exists>t\<in>set (cert_txs cert). transaction_hash c t = transaction_hash c (txs ! i)))"
    by (rule settle_answer_ok[OF xr]) simp
  have "txs ! i \<in> set (cert_txs cert)" if i: "i < length txs" "answers ! i = Inr cert" for i cert
  proof -
    from ok i obtain t where t: "t \<in> set (cert_txs cert)" "transaction_hash c t = transaction_hash c (txs ! i)" by blast
    have "Inr cert \<in> set answers" using i ok by (metis nth_mem)
    with assms(3,4) t(1) i(1) have "t \<in> U" "txs ! i \<in> U" by (auto dest: nth_mem)
    with assms(2) t show ?thesis by (metis inj_onD)
  qed
  with ok show ?thesis by blast
qed

theorem settle_batch_answers_witness:
  "\<exists>cl' answers. settle_batch demo id demo_client
     \<lparr> se_rounds = (\<lambda>_ _. demo_env), se_pages = (\<lambda>_ _ _. None), se_claims = (\<lambda>_. Inl NoClaimProofs) \<rparr> [demo_reserve] =
       Some (cl', answers) \<and> length answers = 1"
proof -
  let ?env = "\<lparr> se_rounds = (\<lambda>_ _. demo_env), se_pages = (\<lambda>_ _ _. None), se_claims = (\<lambda>_. Inl NoClaimProofs) \<rparr>"
  obtain cl' where "attempt demo id demo_client [demo_reserve] demo_env = (cl', Inr (Settled demo_settled))"
    using demo_attempt by blast
  then have "round demo id demo_client [demo_reserve] (\<lambda>_. demo_env) = (cl', Inr demo_settled)"
    by (simp add: round_def ROUND_ATTEMPTS_def upt_rec)
  then have s: "settle_batch demo id demo_client ?env [demo_reserve] = Some (cl', [Inr demo_settled])"
    by (simp add: settle_batch_def settle_answer_def)
  have "cert_txs demo_settled = [demo_reserve]" using cert1_simps(1) by (simp add: demo_settled_def cert_txs_def)
  with settle_batch_answers[OF s, of "{demo_reserve}"] s show ?thesis by simp
qed

section \<open>Following the set\<close>

text \<open>C11.  Following the set returns when the seats serve what they are asked for: pages that start where the client
  asks and end no later than some height.\<close>

theorem refresh_set_returns:
  assumes "\<And>from limit m certs. pages from limit m = Some certs \<Longrightarrow> certs \<noteq> [] \<Longrightarrow>
      from \<le> cert_seq (last certs) \<and> cert_seq (last certs) \<le> tip"
  shows "\<exists>r. refresh_set c cl pages = Some r"
proof -
  obtain r where "refresh_loop c cl pages (cl_set cl, cl_set_sequence cl, cl_set_sequence cl) = Some r"
    using refresh_loop_returns[of pages tip c cl "(cl_set cl, cl_set_sequence cl, cl_set_sequence cl)"] assms by blast
  then show ?thesis by (cases r) (auto simp: refresh_set_def Let_def split: prod.splits)
qed

theorem refresh_set_returns_witness:
  "\<exists>r. refresh_set demo demo_client (\<lambda>from _ _. Some (if from = 1 then [cert1] else [])) = Some r"
  by (rule refresh_set_returns[where tip = 1]) (auto split: if_splits)

text \<open>It does not return when a seat answers every range with the same certificate, one that verifies: nothing
  checks that a page starts where it was asked to.\<close>

theorem refresh_set_spins:
  assumes "verify_certificate c cert (cl_set cl) = Inr ()" "membership_changes cert = []"
    and "m \<in> set (set_members (cl_set cl))"
    and "\<And>from limit. pages from limit m = Some [cert]" "\<And>from limit m'. m' \<noteq> m \<Longrightarrow> pages from limit m' = None"
  shows "refresh_set c cl pages = None"
proof -
  have no: "fold_result (\<lambda>t v. case tx_evidence t of EvMembershipChange e \<Rightarrow> verify_membership_change c v e | _ \<Rightarrow> Inr v) ts v = Inr v"
    if "List.map_filter (\<lambda>t. case tx_evidence t of EvMembershipChange e \<Rightarrow> Some e | _ \<Rightarrow> None) ts = []" for ts v
    using that by (induction ts) (auto simp: map_filter_simps split: transaction_evidence.splits)
  have ok: "is_ok (check_page c (cl_set cl) [cert])"
    using assms(1) no[OF assms(2)[unfolded membership_changes_def]] by (simp add: is_ok_def)
  have "fetch_from c (cl_set cl) (pages start limit) e ms = Inr [cert]" if "m \<in> set ms" for ms e start limit
    using that
  proof (induction ms arbitrary: e)
    case (Cons x ms)
    then show ?case using ok assms(4,5) by (cases "x = m") auto
  qed simp
  then have f: "fetch_certificates c cl pages start limit (cl_set cl) = Inr [cert]" for start limit
    using assms(3) by (simp add: fetch_certificates_def)
  have "refresh_loop c cl pages (cl_set cl, cl_set_sequence cl, cl_set_sequence cl) = None"
    by (rule refresh_loop_spins[OF f]) (use assms(2) in \<open>auto simp: refresh_certificate_def\<close>)
  then show ?thesis by (simp add: refresh_set_def Let_def)
qed

theorem refresh_set_spins_witness:
  "refresh_set demo demo_client (\<lambda>_ _ m. if m = set_members demo_set ! 0 then Some [cert1] else None) = None"
proof (rule refresh_set_spins)
  show "verify_certificate demo cert1 (cl_set demo_client) = Inr ()"
    unfolding cert1_def demo_client_simps by (rule demo_verify) simp_all
qed (simp_all add: membership_changes_def map_filter_simps demo_set_def)

end
