(* ===== verification/Federation.thy ===== *)
theory Federation
  imports Scenario
begin

text \<open>
  Several coordinators over one validator set (\<open>hocmesh-coordinator/src/federation.rs\<close>): the configuration of a
  federation, what a coordinator believes of its peers, and which of them hands out a job.  The health map
  (a \<open>BTreeMap\<close> behind a lock) is a finite map; a probe is its outcome, an argument of \<open>probe_all\<close>.
\<close>

section \<open>Definitions\<close>

record peer_config =
  pc_coordinator_id :: string
  pc_region :: string
  pc_url :: string

record federation_config =
  fg_coordinator_id :: string
  fg_region :: string
  fg_advertise :: string
  fg_peers :: "peer_config list"
  fg_probe_interval_secs :: nat
  fg_misses_before_down :: nat

record peer_health =
  ph_coordinator_id :: string
  ph_region :: string
  ph_url :: string
  ph_up :: bool
  ph_consecutive_misses :: nat
  ph_last_ok_unix :: "int option"
  ph_last_error :: "string option"

datatype transition = CameUp | WentDown

record federation =
  fd_me :: peer_config
  fd_advertise :: string
  fd_probe_interval_secs :: nat
  fd_misses_before_down :: nat
  fd_health :: "(string, peer_health) fmap"

datatype federation_error =
    NoCoordinatorId | NoMisses | NoProbeInterval | NamelessPeer | DuplicateCoordinator string | PeerWithoutUrl string

definition trim_end_slashes :: "string \<Rightarrow> string" where
  "trim_end_slashes s = rev (dropWhile (\<lambda>ch. ch = CHR ''/'') (rev s))"

text \<open>The loop of \<open>Federation::new\<close> over the configured peers, with the identifiers seen so far.\<close>

definition admit_peer ::
  "nat \<Rightarrow> peer_config \<Rightarrow> string set \<times> (string, peer_health) fmap \<Rightarrow> federation_error + string set \<times> (string, peer_health) fmap" where
  "admit_peer misses peer acc =
     (case acc of (seen, health) \<Rightarrow>
        if blank (pc_coordinator_id peer) then Inl NamelessPeer
        else if pc_coordinator_id peer \<in> seen then Inl (DuplicateCoordinator (pc_coordinator_id peer))
        else if blank (pc_url peer) then Inl (PeerWithoutUrl (pc_coordinator_id peer))
        else Inr (insert (pc_coordinator_id peer) seen,
                  fmupd (pc_coordinator_id peer)
                    \<lparr> ph_coordinator_id = pc_coordinator_id peer, ph_region = pc_region peer,
                      ph_url = trim_end_slashes (pc_url peer), ph_up = False, ph_consecutive_misses = misses,
                      ph_last_ok_unix = None, ph_last_error = None \<rparr> health))"

definition federation_new :: "federation_config \<Rightarrow> federation_error + federation" where
  "federation_new config =
     (if blank (fg_coordinator_id config) then Inl NoCoordinatorId
      else if fg_misses_before_down config = 0 then Inl NoMisses
      else if fg_probe_interval_secs config = 0 then Inl NoProbeInterval
      else qbind (fold_result (admit_peer (fg_misses_before_down config)) (fg_peers config)
                    ({fg_coordinator_id config}, fmempty))
        (\<lambda>(_, health). Inr
           \<lparr> fd_me = \<lparr> pc_coordinator_id = fg_coordinator_id config, pc_region = fg_region config,
                       pc_url = trim_end_slashes (fg_advertise config) \<rparr>,
             fd_advertise = fg_advertise config, fd_probe_interval_secs = fg_probe_interval_secs config,
             fd_misses_before_down = fg_misses_before_down config, fd_health = health \<rparr>))"

definition fd_coordinator_id :: "federation \<Rightarrow> string" where
  "fd_coordinator_id f = pc_coordinator_id (fd_me f)"

definition region :: "federation \<Rightarrow> string option" where
  "region f = (if pc_region (fd_me f) = '''' then None else Some (pc_region (fd_me f)))"

definition peers :: "federation \<Rightarrow> peer_health list" where
  "peers f = map snd (fm_assoc (fd_health f))"

definition live :: "federation \<Rightarrow> string list" where
  "live f = sort (fd_coordinator_id f # map ph_coordinator_id (filter ph_up (peers f)))"

subsection \<open>Rendezvous hashing\<close>

definition hex_value :: "char \<Rightarrow> nat" where
  "hex_value ch = (let n = of_char ch in if n < 58 then n - 48 else n - 87)"

text \<open>\<open>u64::from_str_radix\<close> on lower-case hexadecimal digits, which is what \<open>hash_bytes\<close> returns.\<close>

definition from_hex :: "string \<Rightarrow> nat" where
  "from_hex s = foldl (\<lambda>acc ch. 16 * acc + hex_value ch) 0 s"

definition weight :: "crypto \<Rightarrow> string \<Rightarrow> string \<Rightarrow> nat" where
  "weight c coordinator_id job_id = from_hex (take 16 (hash_bytes c (coordinator_id @ [CHR 0x00] @ job_id)))"

definition owner :: "crypto \<Rightarrow> string \<Rightarrow> string list \<Rightarrow> string option" where
  "owner c job_id members = max_by (\<lambda>a b. (weight c a job_id, a) > (weight c b job_id, b)) members"

definition owner_of :: "crypto \<Rightarrow> federation \<Rightarrow> string \<Rightarrow> string" where
  "owner_of c f job_id = (case owner c job_id (live f) of None \<Rightarrow> fd_coordinator_id f | Some m \<Rightarrow> m)"

definition owns :: "crypto \<Rightarrow> federation \<Rightarrow> string \<Rightarrow> bool" where
  "owns c f job_id \<longleftrightarrow> owner_of c f job_id = fd_coordinator_id f"

subsection \<open>Probes\<close>

definition sat_succ32 :: "nat \<Rightarrow> nat" where
  "sat_succ32 n = min (n + 1) u32_max"

definition probed :: "nat \<Rightarrow> string + unit \<Rightarrow> int \<Rightarrow> peer_health \<Rightarrow> peer_health" where
  "probed misses outcome now p =
     (case outcome of
        Inr _ \<Rightarrow> p\<lparr> ph_consecutive_misses := 0, ph_last_ok_unix := Some now, ph_last_error := None, ph_up := True \<rparr>
      | Inl e \<Rightarrow> (let n = sat_succ32 (ph_consecutive_misses p)
                 in p\<lparr> ph_consecutive_misses := n, ph_last_error := Some e, ph_up := n < misses \<rparr>))"

definition record_probe :: "string \<Rightarrow> string + unit \<Rightarrow> int \<Rightarrow> federation \<Rightarrow> federation \<times> transition option" where
  "record_probe coordinator_id outcome now f =
     (case fmlookup (fd_health f) coordinator_id of
        None \<Rightarrow> (f, None)
      | Some p \<Rightarrow>
          let p' = probed (fd_misses_before_down f) outcome now p
          in (f\<lparr> fd_health := fmupd coordinator_id p' (fd_health f) \<rparr>,
              case (ph_up p, ph_up p') of (False, True) \<Rightarrow> Some CameUp | (True, False) \<Rightarrow> Some WentDown | _ \<Rightarrow> None))"

text \<open>\<open>http\<close> answers for the address of a peer: its error, or nothing.\<close>

definition probe_all :: "(string \<Rightarrow> string + unit) \<Rightarrow> int \<Rightarrow> federation \<Rightarrow> federation \<times> (string \<times> transition) list" where
  "probe_all http now f =
     fold (\<lambda>p (g, ts). case record_probe (ph_coordinator_id p) (http (ph_url p)) now g of
             (g', None) \<Rightarrow> (g', ts) | (g', Some t) \<Rightarrow> (g', ts @ [(ph_coordinator_id p, t)]))
       (peers f) (f, [])"

definition peer_url :: "federation \<Rightarrow> string \<Rightarrow> string option" where
  "peer_url f coordinator_id = map_option ph_url (fmlookup (fd_health f) coordinator_id)"

section \<open>Ownership\<close>

text \<open>The order in which members are ranked for a job.\<close>

definition rank :: "crypto \<Rightarrow> string \<Rightarrow> string \<Rightarrow> nat \<times> string" where
  "rank c j a = (weight c a j, a)"

lemma rank_inj [simp]: "rank c j a = rank c j b \<longleftrightarrow> a = b"
  by (auto simp: rank_def)

lemma owner_iff: "owner c j members = Some m \<longleftrightarrow> m \<in> set members \<and> (\<forall>y\<in>set members. rank c j y \<le> rank c j m)"
proof
  have owner: "owner c j members = max_by (\<lambda>a b. rank c j a > rank c j b) members"
    by (simp only: owner_def rank_def)
  show "m \<in> set members \<and> (\<forall>y\<in>set members. rank c j y \<le> rank c j m)" if "owner c j members = Some m"
    using that max_by_in[OF that[unfolded owner]] max_by_linorder[OF that[unfolded owner]] by simp
  assume m: "m \<in> set members \<and> (\<forall>y\<in>set members. rank c j y \<le> rank c j m)"
  then have "max_by (\<lambda>a b. rank c j a > rank c j b) members \<noteq> None" by auto
  then obtain m' where m': "max_by (\<lambda>a b. rank c j a > rank c j b) members = Some m'" by blast
  have "m' \<in> set members" "rank c j m \<le> rank c j m'"
    using m max_by_in[OF m'] max_by_linorder[OF m'] by blast+
  with m have "rank c j m' = rank c j m" by (blast intro: order_antisym)
  with m' show "owner c j members = Some m" by (simp add: owner)
qed

lemma live_nonempty: "fd_coordinator_id f \<in> set (live f)"
  by (simp add: live_def set_insort_key)

lemma owner_of_iff: "owner_of c f j = m \<longleftrightarrow> m \<in> set (live f) \<and> (\<forall>y\<in>set (live f). rank c j y \<le> rank c j m)"
proof -
  have "owner c j (live f) \<noteq> None" using live_nonempty[of f] by (auto simp: owner_def)
  then have "owner c j (live f) = Some (owner_of c f j)" by (auto simp: owner_of_def)
  then have "owner_of c f j = m \<longleftrightarrow> owner c j (live f) = Some m" by auto
  then show ?thesis by (simp only: owner_iff)
qed

lemma owner_of_in: "owner_of c f j \<in> set (live f)"
  using owner_of_iff by blast

text \<open>C22. Coordinators that believe the same members alive agree on who hands out a job: when every member of a
  federation sees exactly the members of that federation, each job is owned by one of them and by no other.  No
  message passes between them, and the order in which each built its list does not matter.\<close>

theorem one_owner:
  assumes "fs \<noteq> []" "distinct (map fd_coordinator_id fs)"
    and "\<And>f. f \<in> set fs \<Longrightarrow> set (live f) = set (map fd_coordinator_id fs)"
  shows "\<exists>!f. f \<in> set fs \<and> owns c f job_id"
proof -
  obtain f0 where f0: "f0 \<in> set fs" using assms(1) by (cases fs) auto
  have same: "owner_of c f job_id = owner_of c f0 job_id" if "f \<in> set fs" for f
    using owner_of_iff[of c f0 job_id "owner_of c f0 job_id"] unfolding owner_of_iff[of c f]
    by (simp only: assms(3)[OF f0] assms(3)[OF that]) blast
  from owner_of_in[of c f0 job_id] assms(3)[OF f0]
  obtain f where f: "f \<in> set fs" "owner_of c f0 job_id = fd_coordinator_id f" by auto
  show ?thesis
  proof (rule ex1I[of _ f])
    show "f \<in> set fs \<and> owns c f job_id" using f same by (simp add: owns_def)
    show "g = f" if "g \<in> set fs \<and> owns c g job_id" for g
    proof -
      have "fd_coordinator_id g = fd_coordinator_id f" using that f same[of g] by (simp add: owns_def)
      then show ?thesis using that f assms(2) by (auto simp: distinct_map dest: inj_onD)
    qed
  qed
qed

section \<open>Failover\<close>

definition federation_ok :: "federation \<Rightarrow> bool" where
  "federation_ok f \<longleftrightarrow> (\<forall>k p. fmlookup (fd_health f) k = Some p \<longrightarrow>
     ph_coordinator_id p = k \<and> k \<noteq> fd_coordinator_id f)"

lemma federation_new_ok:
  assumes "federation_new config = Inr f"
  shows "federation_ok f"
proof -
  obtain seen health where h: "fold_result (admit_peer (fg_misses_before_down config)) (fg_peers config)
       ({fg_coordinator_id config}, fmempty) = Inr (seen, health)"
    and f: "fd_health f = health" "fd_coordinator_id f = fg_coordinator_id config"
    using assms by (auto simp: federation_new_def fd_coordinator_id_def qbind_def split: if_splits sum.splits)
  have "case (seen, health) of (seen, health) \<Rightarrow> fg_coordinator_id config \<in> seen \<and>
     (\<forall>k p. fmlookup health k = Some p \<longrightarrow> k \<in> seen \<and> k \<noteq> fg_coordinator_id config \<and> ph_coordinator_id p = k \<and> \<not> ph_up p)"
  proof (rule fold_result_invariant[OF h], goal_cases)
    case (2 peer u v)
    then show ?case by (cases u) (auto simp: admit_peer_def split: if_splits; metis)
  qed simp
  then show ?thesis by (auto simp: federation_ok_def f)
qed

lemma record_probe_frame [simp]:
  "fd_me (fst (record_probe i out now f)) = fd_me f"
  "fd_coordinator_id (fst (record_probe i out now f)) = fd_coordinator_id f"
  "fd_misses_before_down (fst (record_probe i out now f)) = fd_misses_before_down f"
  by (simp_all add: record_probe_def fd_coordinator_id_def Let_def split: option.split)

lemma record_probe_lookup:
  "fmlookup (fd_health (fst (record_probe i out now f))) k =
     (if k = i then map_option (probed (fd_misses_before_down f) out now) (fmlookup (fd_health f) i)
      else fmlookup (fd_health f) k)"
  by (simp add: record_probe_def Let_def split: option.split)

lemma probed_simps [simp]:
  "ph_coordinator_id (probed n out now p) = ph_coordinator_id p"
  "ph_url (probed n out now p) = ph_url p"
  by (simp_all add: probed_def Let_def split: sum.split)

lemma record_probe_ok: "federation_ok f \<Longrightarrow> federation_ok (fst (record_probe i out now f))"
  by (auto simp: federation_ok_def record_probe_lookup split: if_splits)

lemma peers_set: "set (peers f) = {p. \<exists>k. fmlookup (fd_health f) k = Some p}"
proof -
  have "set (peers f) = (\<lambda>k. the (fmlookup (fd_health f) k)) ` fset (fmdom (fd_health f))"
    by (simp add: peers_def fm_assoc_def image_image)
  also have "\<dots> = {p. \<exists>k. fmlookup (fd_health f) k = Some p}"
    by (force simp: image_iff fmlookup_dom_iff)
  finally show ?thesis .
qed

lemma live_set:
  assumes "federation_ok f"
  shows "set (live f) = insert (fd_coordinator_id f) {k. \<exists>p. fmlookup (fd_health f) k = Some p \<and> ph_up p}"
proof -
  have "set (live f) = insert (fd_coordinator_id f) (ph_coordinator_id ` {p. (\<exists>k. fmlookup (fd_health f) k = Some p) \<and> ph_up p})"
    unfolding live_def set_sort by (simp add: peers_set)
  also have "ph_coordinator_id ` {p. (\<exists>k. fmlookup (fd_health f) k = Some p) \<and> ph_up p} = {k. \<exists>p. fmlookup (fd_health f) k = Some p \<and> ph_up p}"
    using assms unfolding federation_ok_def image_def by (simp add: set_eq_iff) metis
  finally show ?thesis .
qed

lemma record_probe_live:
  assumes "federation_ok f" "record_probe i out now f = (f', t)"
  shows "t = None \<Longrightarrow> set (live f') = set (live f)"
    and "t = Some CameUp \<Longrightarrow> set (live f') = insert i (set (live f))"
    and "t = Some WentDown \<Longrightarrow> set (live f') = set (live f) - {i}"
proof -
  have f': "f' = fst (record_probe i out now f)" using assms(2) by simp
  have ok: "federation_ok f'" unfolding f' by (rule record_probe_ok[OF assms(1)])
  have id: "fd_coordinator_id f' = fd_coordinator_id f" by (simp add: f')
  define ups where "ups (g :: federation) = {k. \<exists>p. fmlookup (fd_health g) k = Some p \<and> ph_up p}" for g :: federation
  have live: "set (live f') = insert (fd_coordinator_id f) (ups f')" "set (live f) = insert (fd_coordinator_id f) (ups f)"
    using live_set[OF ok] live_set[OF assms(1)] id by (simp_all add: ups_def)
  have look: "fmlookup (fd_health f') k =
      (if k = i then map_option (probed (fd_misses_before_down f) out now) (fmlookup (fd_health f) i) else fmlookup (fd_health f) k)" for k
    by (simp only: f' record_probe_lookup)
  have all: "(t = None \<longrightarrow> ups f' = ups f) \<and> (t = Some CameUp \<longrightarrow> ups f' = insert i (ups f)) \<and>
    (t = Some WentDown \<longrightarrow> ups f' = ups f - {i} \<and> i \<noteq> fd_coordinator_id f)"
  proof (cases "fmlookup (fd_health f) i")
    case None
    then have "f' = f" "t = None" using assms(2) by (simp_all add: record_probe_def)
    then show ?thesis by simp
  next
    case (Some p)
    define p' where "p' = probed (fd_misses_before_down f) out now p"
    have t: "t = (case (ph_up p, ph_up p') of (False, True) \<Rightarrow> Some CameUp | (True, False) \<Rightarrow> Some WentDown | _ \<Rightarrow> None)"
      using assms(2) Some by (auto simp: record_probe_def Let_def p'_def)
    have u: "ups f' = (if ph_up p' then insert i (ups f) else ups f - {i})" "i \<in> ups f \<longleftrightarrow> ph_up p"
      by (auto simp: ups_def look Some p'_def)
    have "i \<noteq> fd_coordinator_id f" using assms(1) Some by (auto simp: federation_ok_def)
    then show ?thesis using u by (cases "ph_up p"; cases "ph_up p'") (auto simp: t)
  qed
  show "t = None \<Longrightarrow> set (live f') = set (live f)" "t = Some CameUp \<Longrightarrow> set (live f') = insert i (set (live f))"
    "t = Some WentDown \<Longrightarrow> set (live f') = set (live f) - {i}"
    using all by (auto simp only: live)
qed

text \<open>The state after a sequence of probes: whom, what came back, when.\<close>

definition after_probes :: "(string \<times> (string + unit) \<times> int) list \<Rightarrow> federation \<Rightarrow> federation" where
  "after_probes evs f = fold (\<lambda>(i, out, now) g. fst (record_probe i out now g)) evs f"

lemma after_probes_ok: "federation_ok f \<Longrightarrow> federation_ok (after_probes evs f)"
  by (induction evs arbitrary: f) (auto simp: after_probes_def record_probe_ok)

text \<open>C23. Failover moves what it must and nothing else.  After any history of probes, a probe that loses a peer
  leaves the owner of every job the peer did not own, and the peer owns nothing any more; a probe that brings a peer
  back moves jobs to that peer only; any other probe moves no job at all.\<close>

theorem failover_moves_only_what_it_must:
  assumes "federation_new config = Inr f0" and "f = after_probes evs f0"
    and "record_probe peer out now f = (f', t)"
  shows "case t of
           Some WentDown \<Rightarrow> owner_of c f' job_id \<noteq> peer \<and>
             (owner_of c f job_id \<noteq> peer \<longrightarrow> owner_of c f' job_id = owner_of c f job_id)
         | Some CameUp \<Rightarrow> owner_of c f' job_id = owner_of c f job_id \<or> owner_of c f' job_id = peer
         | None \<Rightarrow> owner_of c f' job_id = owner_of c f job_id"
proof -
  have ok: "federation_ok f" unfolding assms(2) by (rule after_probes_ok[OF federation_new_ok[OF assms(1)]])
  note live = record_probe_live[OF ok assms(3)]
  define m m' where m: "m = owner_of c f job_id" and m': "m' = owner_of c f' job_id"
  have M: "m \<in> set (live f)" "\<And>y. y \<in> set (live f) \<Longrightarrow> rank c job_id y \<le> rank c job_id m"
    using owner_of_iff[of c f job_id m] m by blast+
  have M': "m' \<in> set (live f')" "\<And>y. y \<in> set (live f') \<Longrightarrow> rank c job_id y \<le> rank c job_id m'"
    using owner_of_iff[of c f' job_id m'] m' by blast+
  have same: "m' = m" if "m' \<in> set (live f)" "m \<in> set (live f')"
    using M(2)[OF that(1)] M'(2)[OF that(2)] by (metis order_antisym rank_inj)
  show ?thesis unfolding m[symmetric] m'[symmetric]
    using M(1) M'(1) same live by (auto split: option.split transition.split)
qed


section \<open>Probes\<close>

text \<open>What was learned of one peer, and the specification: a peer is alive when it has answered, and fewer than the
  configured number of probes in a row have failed since.\<close>

definition outcomes_of :: "string \<Rightarrow> (string \<times> (string + unit) \<times> int) list \<Rightarrow> (string + unit) list" where
  "outcomes_of i evs = map (fst \<circ> snd) (filter (\<lambda>e. fst e = i) evs)"

definition failures_in_a_row :: "(string + unit) list \<Rightarrow> nat" where
  "failures_in_a_row outs = length (takeWhile isl (rev outs))"

definition believed_alive :: "nat \<Rightarrow> (string + unit) list \<Rightarrow> bool" where
  "believed_alive misses outs \<longleftrightarrow> Inr () \<in> set outs \<and> failures_in_a_row outs < misses"

lemma admitted_down:
  assumes "federation_new config = Inr f" "fmlookup (fd_health f) i = Some p"
  shows "\<not> ph_up p \<and> ph_consecutive_misses p = fg_misses_before_down config"
proof -
  obtain seen health where h: "fold_result (admit_peer (fg_misses_before_down config)) (fg_peers config)
       ({fg_coordinator_id config}, fmempty) = Inr (seen, health)" and f: "fd_health f = health"
    using assms(1) by (auto simp: federation_new_def qbind_def split: if_splits sum.splits)
  have "case (seen, health) of (_, health) \<Rightarrow> \<forall>k p. fmlookup health k = Some p \<longrightarrow>
      \<not> ph_up p \<and> ph_consecutive_misses p = fg_misses_before_down config"
    by (rule fold_result_invariant[OF h]) (auto simp: admit_peer_def split: if_splits)
  with assms(2) show ?thesis by (simp add: f)
qed

lemma after_probes_lookup:
  "fmlookup (fd_health (after_probes evs f)) i =
     map_option (\<lambda>p. fold (\<lambda>(_, out, now). probed (fd_misses_before_down f) out now) (filter (\<lambda>e. fst e = i) evs) p)
       (fmlookup (fd_health f) i)"
proof (induction evs arbitrary: f)
  case Nil
  show ?case by (simp add: after_probes_def option.map_ident)
next
  case (Cons e evs)
  obtain k out now where e: "e = (k, out, now)" by (cases e)
  have "fmlookup (fd_health (after_probes (e # evs) f)) i =
      fmlookup (fd_health (after_probes evs (fst (record_probe k out now f)))) i"
    by (simp add: after_probes_def e)
  also have "\<dots> = map_option (\<lambda>p. fold (\<lambda>(_, out, now). probed (fd_misses_before_down f) out now)
      (filter (\<lambda>e. fst e = i) (e # evs)) p) (fmlookup (fd_health f) i)"
    by (simp add: Cons.IH record_probe_lookup e option.map_comp comp_def)
  finally show ?case .
qed

lemma fold_probed:
  assumes "misses \<le> u32_max" "0 < misses" "\<not> ph_up p" "ph_consecutive_misses p = misses"
  shows "let q = fold (\<lambda>(_, out, now). probed misses out now) evs p; outs = map (fst \<circ> snd) evs
         in (Inr () \<notin> set outs \<longrightarrow> misses \<le> ph_consecutive_misses q) \<and>
            (Inr () \<in> set outs \<longrightarrow> ph_consecutive_misses q = min (failures_in_a_row outs) u32_max) \<and>
            (ph_up q \<longleftrightarrow> Inr () \<in> set outs \<and> ph_consecutive_misses q < misses)"
proof (induction evs rule: rev_induct)
  case Nil
  then show ?case using assms by simp
next
  case (snoc e evs)
  obtain k out now where e: "e = (k, out, now)" by (cases e)
  show ?case
  proof (cases out)
    case (Inl msg)
    then show ?thesis using snoc assms
      by (auto simp: Let_def e probed_def sat_succ32_def failures_in_a_row_def)
  next
    case (Inr u)
    then show ?thesis using snoc assms
      by (auto simp: Let_def e probed_def failures_in_a_row_def)
  qed
qed


text \<open>C24. The health of a peer refines its specification.  Whatever probes of whatever peers came before, a
  configured peer is believed alive exactly when it has answered at least once and fewer than
  \<open>misses_before_down\<close> of its probes in a row have failed since; a peer starts gone, and one answer brings it back.\<close>

theorem peer_health_refines:
  assumes "federation_new config = Inr f" "fg_misses_before_down config \<le> u32_max"
    and "fmlookup (fd_health f) i \<noteq> None"
  shows "\<exists>p. fmlookup (fd_health (after_probes evs f)) i = Some p \<and>
             ph_up p = believed_alive (fg_misses_before_down config) (outcomes_of i evs)"
proof -
  let ?n = "fg_misses_before_down config"
  obtain p where p: "fmlookup (fd_health f) i = Some p" using assms(3) by blast
  have n: "fd_misses_before_down f = ?n" "0 < ?n"
    using assms(1) by (auto simp: federation_new_def qbind_def split: if_splits sum.splits)
  have down: "\<not> ph_up p" "ph_consecutive_misses p = ?n" using admitted_down[OF assms(1) p] by simp_all
  let ?q = "fold (\<lambda>(_, out, now). probed ?n out now) (filter (\<lambda>e. fst e = i) evs) p"
  have "ph_up ?q = believed_alive ?n (outcomes_of i evs)"
    using fold_probed[OF assms(2) n(2) down, of "filter (\<lambda>e. fst e = i) evs"] assms(2)
    by (auto simp: Let_def believed_alive_def outcomes_of_def min_def split: if_splits)
  then show ?thesis using p by (simp add: after_probes_lookup n)
qed

section \<open>Witnesses\<close>

definition demo_config :: "string \<Rightarrow> string \<Rightarrow> federation_config" where
  "demo_config me peer =
     \<lparr> fg_coordinator_id = me, fg_region = '''', fg_advertise = ''http://a/'',
       fg_peers = [\<lparr> pc_coordinator_id = peer, pc_region = '''', pc_url = ''http://b/'' \<rparr>],
       fg_probe_interval_secs = 10, fg_misses_before_down = 2 \<rparr>"

definition demo_federation :: "string \<Rightarrow> string \<Rightarrow> federation" where
  "demo_federation me peer =
     \<lparr> fd_me = \<lparr> pc_coordinator_id = me, pc_region = '''', pc_url = ''http://a'' \<rparr>, fd_advertise = ''http://a/'',
       fd_probe_interval_secs = 10, fd_misses_before_down = 2,
       fd_health = fmupd peer
         \<lparr> ph_coordinator_id = peer, ph_region = '''', ph_url = ''http://b'', ph_up = False,
           ph_consecutive_misses = 2, ph_last_ok_unix = None, ph_last_error = None \<rparr> fmempty \<rparr>"

lemma demo_federation_new:
  "federation_new (demo_config ''east'' ''west'') = Inr (demo_federation ''east'' ''west'')"
  "federation_new (demo_config ''west'' ''east'') = Inr (demo_federation ''west'' ''east'')"
proof -
  have "\<not> blank ''east''" "\<not> blank ''west''" "\<not> blank ''http://b/''" by code_simp+
  then show "federation_new (demo_config ''east'' ''west'') = Inr (demo_federation ''east'' ''west'')"
    "federation_new (demo_config ''west'' ''east'') = Inr (demo_federation ''west'' ''east'')"
    by (simp_all add: federation_new_def demo_config_def demo_federation_def admit_peer_def trim_end_slashes_def)
qed


text \<open>Two coordinators that have heard from each other.\<close>

definition east :: federation where
  "east = after_probes [(''west'', Inr (), 5)] (demo_federation ''east'' ''west'')"

definition west :: federation where
  "west = after_probes [(''east'', Inr (), 5)] (demo_federation ''west'' ''east'')"

lemma demo_live: "live east = [''east'', ''west'']" "live west = [''east'', ''west'']"
  "fd_coordinator_id east = ''east''" "fd_coordinator_id west = ''west''"
  by code_simp+

theorem one_owner_witness:
  "\<exists>!f. f \<in> set [east, west] \<and> owns demo f ''job_1''"
  by (rule one_owner) (auto simp: demo_live)

theorem failover_moves_only_what_it_must_witness:
  "snd (record_probe ''west'' (Inl ''down'') 30 (after_probes [(''west'', Inr (), 5), (''west'', Inl ''late'', 20)] (demo_federation ''east'' ''west'')))
     = Some WentDown \<and>
   owner_of demo (fst (record_probe ''west'' (Inl ''down'') 30
     (after_probes [(''west'', Inr (), 5), (''west'', Inl ''late'', 20)] (demo_federation ''east'' ''west'')))) ''job_1'' \<noteq> ''west''"
  (is "snd ?r = _ \<and> _")
proof -
  have t: "snd ?r = Some WentDown" by code_simp
  moreover have "owner_of demo (fst ?r) ''job_1'' \<noteq> ''west''"
    using failover_moves_only_what_it_must[OF demo_federation_new(1) refl prod.collapse[symmetric],
        where evs = "[(''west'', Inr (), 5), (''west'', Inl ''late'', 20)]" and peer = "''west''" and out = "Inl ''down''"
          and now = 30 and c = demo and job_id = "''job_1''"] unfolding t by simp
  ultimately show ?thesis by simp
qed

theorem peer_health_refines_witness:
  "\<exists>p. fmlookup (fd_health (after_probes [(''west'', Inr (), 5), (''west'', Inl ''late'', 20)] (demo_federation ''east'' ''west''))) ''west'' = Some p
     \<and> ph_up p"
  using peer_health_refines[OF demo_federation_new(1),
      of "''west''" "[(''west'', Inr (), 5), (''west'', Inl ''late'', 20)]"]
  by (simp add: demo_config_def demo_federation_def rust_int believed_alive_def outcomes_of_def failures_in_a_row_def)

end
