(* ===== verification/Float64.thy ===== *)
theory Float64
  imports Complex_Main Prelude "HOL-Library.Log_Nat"
begin

text \<open>
  The \<open>f64\<close> arithmetic of the Rust sources.  A finite \<open>f64\<close> is the real number it stands for, and an operation is the
  exact result rounded to the nearest number with 53 significant bits, ties to the even one (IEEE 754 binary64).
  The exponent is unbounded: the quantities the sources compute with are counts, seconds and byte sizes of at most 64
  bits and quotients of these, far from where \<open>f64\<close> overflows or loses precision to underflow, so no infinity and no
  NaN arises and \<open>is_finite\<close> holds of every value.
\<close>

section \<open>Definitions\<close>

text \<open>The binary exponent of a number, \<open>2 ^ e \<le> \<bar>x\<bar> < 2 ^ (e + 1)\<close>.\<close>

definition exponent :: "real \<Rightarrow> int" where
  "exponent x = (if 1 \<le> \<bar>x\<bar> then int (floorlog 2 (nat \<lfloor>\<bar>x\<bar>\<rfloor>)) - 1
                 else - int (floorlog 2 (nat \<lceil>1 / \<bar>x\<bar>\<rceil> - 1)))"

text \<open>The nearest integer, ties to even.\<close>

definition round_even :: "real \<Rightarrow> int" where
  "round_even y = (let n = \<lfloor>y\<rfloor>; d = y - of_int n
     in if d < 1 / 2 \<or> d = 1 / 2 \<and> even n then n else n + 1)"

definition f_round :: "real \<Rightarrow> real" where
  "f_round x = (if x = 0 then 0
     else let q = 2 powi (exponent x - 52) in of_int (round_even (x / q)) * q)"

definition f_add :: "real \<Rightarrow> real \<Rightarrow> real" where "f_add x y = f_round (x + y)"
definition f_sub :: "real \<Rightarrow> real \<Rightarrow> real" where "f_sub x y = f_round (x - y)"
definition f_mul :: "real \<Rightarrow> real \<Rightarrow> real" where "f_mul x y = f_round (x * y)"
definition f_div :: "real \<Rightarrow> real \<Rightarrow> real" where "f_div x y = f_round (x / y)"

text \<open>Conversions from integers round; \<open>clamp\<close>, \<open>max\<close> and comparison are exact.\<close>

definition f_of_nat :: "nat \<Rightarrow> real" where "f_of_nat n = f_round (of_nat n)"
definition f_of_int :: "int \<Rightarrow> real" where "f_of_int n = f_round (of_int n)"

definition f_clamp :: "real \<Rightarrow> real \<Rightarrow> real \<Rightarrow> real" where
  "f_clamp lo hi x = (if x < lo then lo else if x > hi then hi else x)"

text \<open>\<open>round()\<close> takes ties away from zero; a cast to an integer truncates and saturates.\<close>

definition f_round_away :: "real \<Rightarrow> int" where
  "f_round_away x = (if 0 \<le> x then \<lfloor>x + 1 / 2\<rfloor> else \<lceil>x - 1 / 2\<rceil>)"

definition as_i64 :: "real \<Rightarrow> int" where
  "as_i64 x = max i64_min (min i64_max (if 0 \<le> x then \<lfloor>x\<rfloor> else \<lceil>x\<rceil>))"

definition as_u64 :: "real \<Rightarrow> nat" where
  "as_u64 x = min u64_max (nat \<lfloor>x\<rfloor>)"

section \<open>Lemmas\<close>

lemma exponent_bounds:
  assumes "x \<noteq> 0"
  shows "2 powi exponent x \<le> \<bar>x\<bar>" "\<bar>x\<bar> < 2 powi (exponent x + 1)"
proof -
  have "2 powi exponent x \<le> \<bar>x\<bar> \<and> \<bar>x\<bar> < 2 powi (exponent x + 1)"
  proof (cases "1 \<le> \<bar>x\<bar>")
    case True
    define n where "n = nat \<lfloor>\<bar>x\<bar>\<rfloor>"
    have n: "0 < n" "real n \<le> \<bar>x\<bar>" "\<bar>x\<bar> < real n + 1" using True by (simp_all add: n_def)
    define k where "k = floorlog 2 n"
    have k: "2 ^ (k - 1) \<le> n" "n < 2 ^ k" "0 < k"
      using floorlog_bounds[of n 2] n(1) by (cases "floorlog 2 n"; simp add: k_def)+
    have e: "exponent x = int (k - 1)" using True k(3) by (simp add: exponent_def n_def k_def of_nat_diff)
    have "real (2 ^ (k - 1)) \<le> \<bar>x\<bar>" using k(1) n(2) by (meson of_nat_le_iff order_trans)
    moreover have "real (n + 1) \<le> real (2 ^ k)" using k(2) by (simp only: of_nat_le_iff)
    then have "\<bar>x\<bar> < 2 ^ k" using n(3) by simp
    moreover have "exponent x + 1 = int k" using k(3) by (simp add: e)
    ultimately show ?thesis by (simp only: e power_int_of_nat of_nat_power of_nat_numeral)
  next
    case False
    define y where "y = 1 / \<bar>x\<bar>"
    have y: "1 < y" using assms False by (simp add: y_def)
    define n where "n = nat \<lceil>y\<rceil>"
    have n: "1 < n" "y \<le> real n" "real n < y + 1" using y ceiling_correct[of y] by (simp_all add: n_def)
    define k where "k = floorlog 2 (n - 1)"
    have k: "2 ^ (k - 1) \<le> n - 1" "n - 1 < 2 ^ k" "0 < k"
      using floorlog_bounds[of "n - 1" 2] n(1) by (cases "floorlog 2 (n - 1)"; simp add: k_def)+
    have e: "exponent x = - int k" using False by (simp add: exponent_def n_def k_def y_def)
    have "real n \<le> real (2 ^ k)" using k(2) by (simp only: of_nat_le_iff)
    then have "y \<le> 2 ^ k" using n(2) by (simp only: of_nat_power of_nat_numeral)
    moreover have "real (2 ^ (k - 1)) \<le> real (n - 1)" using k(1) by (simp only: of_nat_le_iff)
    then have "2 ^ (k - 1) < y" using n by (simp add: of_nat_diff)
    ultimately have "1 \<le> 2 ^ k * \<bar>x\<bar>" "2 ^ (k - 1) * \<bar>x\<bar> < 1" using assms by (simp_all add: y_def field_simps)
    moreover have "- int k + 1 = - int (k - 1)" using k(3) by simp
    ultimately show ?thesis unfolding e
      by (simp only: power_int_minus power_int_of_nat) (simp add: field_simps)
  qed
  then show "2 powi exponent x \<le> \<bar>x\<bar>" "\<bar>x\<bar> < 2 powi (exponent x + 1)" by auto
qed

lemma round_even_bounds: "\<lfloor>y\<rfloor> \<le> round_even y" "round_even y \<le> \<lfloor>y\<rfloor> + 1"
  by (simp_all add: round_even_def Let_def)

lemma round_even_int [simp]: "round_even (of_int n) = n"
  by (simp add: round_even_def)

lemma round_even_mono:
  assumes "x \<le> y"
  shows "round_even x \<le> round_even y"
proof (cases "\<lfloor>x\<rfloor> = \<lfloor>y\<rfloor>")
  case True
  then show ?thesis using assms by (auto simp: round_even_def Let_def)
next
  case False
  then have "\<lfloor>x\<rfloor> + 1 \<le> \<lfloor>y\<rfloor>" using floor_mono[OF assms] by linarith
  then show ?thesis using round_even_bounds[of x] round_even_bounds[of y] by linarith
qed

lemma round_even_minus: "round_even (- y) = - round_even y"
proof (cases "y = of_int \<lfloor>y\<rfloor>")
  case True
  then show ?thesis by (metis of_int_minus round_even_int)
next
  case False
  then have fl: "\<lfloor>- y\<rfloor> = - \<lfloor>y\<rfloor> - 1" by linarith
  show ?thesis by (auto simp: round_even_def Let_def fl)
qed

lemma exponent_minus [simp]: "exponent (- x) = exponent x"
  by (simp add: exponent_def)

lemma f_round_minus: "f_round (- x) = - f_round x"
  by (simp add: f_round_def Let_def round_even_minus)

lemma f_round_0 [simp]: "f_round 0 = 0"
  by (simp add: f_round_def)

text \<open>Numbers with at most 53 significant bits are kept.\<close>

lemma f_round_exact:
  assumes "\<bar>m\<bar> < 2 ^ 53"
  shows "f_round (of_int m * 2 powi k) = of_int m * 2 powi k"
proof (cases "m = 0")
  case False
  let ?x = "of_int m * 2 powi k :: real"
  have x: "?x \<noteq> 0" using False by simp
  have "2 powi exponent ?x \<le> \<bar>?x\<bar>" by (rule exponent_bounds[OF x])
  also have "\<bar>?x\<bar> = of_int \<bar>m\<bar> * 2 powi k" by (simp add: abs_mult)
  also have "\<dots> < 2 ^ 53 * 2 powi k" using assms by (simp add: of_int_less_iff[symmetric, of _ "2 ^ 53", where 'a = real])
  also have "(2 :: real) ^ 53 * 2 powi k = 2 powi (53 + k)" by (simp add: power_int_add)
  finally have "exponent ?x < 53 + k" by (metis not_less power_int_increasing one_le_numeral)
  then have d: "k - (exponent ?x - 52) = int (nat (k - (exponent ?x - 52)))" by simp
  define d where "d = nat (k - (exponent ?x - 52))"
  have "2 powi k = (2 :: real) ^ d * 2 powi (exponent ?x - 52)"
    using d by (simp add: d_def flip: power_int_of_nat power_int_add)
  note k = this
  then have "?x = of_int (m * 2 ^ d) * 2 powi (exponent ?x - 52)" by (metis (no_types) mult.assoc of_int_mult of_int_numeral of_int_power)
  then have q: "?x / 2 powi (exponent ?x - 52) = of_int (m * 2 ^ d)" by (metis nonzero_mult_div_cancel_right power_int_eq_0_iff zero_neq_numeral)
  show ?thesis using x unfolding f_round_def Let_def q round_even_int by (simp add: k[symmetric])
qed simp

lemma f_round_int [simp]: "\<bar>m\<bar> < 2 ^ 53 \<Longrightarrow> f_round (of_int m) = of_int m"
  using f_round_exact[of m 0] by simp

lemma f_round_pos_bounds:
  assumes "0 < x"
  shows "2 powi exponent x \<le> f_round x" "f_round x \<le> 2 powi (exponent x + 1)"
proof -
  let ?q = "2 powi (exponent x - 52) :: real"
  have q: "0 < ?q" by simp
  have p: "2 powi exponent x = of_int (2 ^ 52) * ?q" "2 powi (exponent x + 1) = of_int (2 ^ 53) * ?q"
    by (simp_all add: power_int_add power_int_diff)
  have b: "of_int (2 ^ 52) \<le> x / ?q" "x / ?q \<le> of_int (2 ^ 53)"
    using exponent_bounds[of x] assms q unfolding p by (simp_all add: field_simps)
  have "(2 ^ 52 :: int) \<le> round_even (x / ?q)" "round_even (x / ?q) \<le> 2 ^ 53"
    using round_even_mono[OF b(1)] round_even_mono[OF b(2)] by (simp_all only: round_even_int)
  then have "of_int (2 ^ 52) \<le> (of_int (round_even (x / ?q)) :: real)" "of_int (round_even (x / ?q)) \<le> (of_int (2 ^ 53) :: real)"
    by (simp_all only: of_int_le_iff)
  then show "2 powi exponent x \<le> f_round x" "f_round x \<le> 2 powi (exponent x + 1)"
    using assms q unfolding p f_round_def Let_def by (simp_all only: if_False less_irrefl mult_right_mono order_less_imp_not_eq2 less_imp_le)
qed

lemma f_round_mono_pos:
  assumes "0 < x" "x \<le> y"
  shows "f_round x \<le> f_round y"
proof (cases "exponent x = exponent y")
  case True
  have "x / 2 powi (exponent y - 52) \<le> y / 2 powi (exponent y - 52)"
    using assms(2) by (intro divide_right_mono) simp_all
  from round_even_mono[OF this] show ?thesis
    using assms True by (simp add: f_round_def Let_def)
next
  case False
  have "(2 :: real) powi exponent x \<le> \<bar>x\<bar>" "\<bar>y\<bar> < 2 powi (exponent y + 1)"
    using exponent_bounds[of x] exponent_bounds[of y] assms by simp_all
  then have "(2 :: real) powi exponent x < 2 powi (exponent y + 1)" using assms by linarith
  then have "exponent x < exponent y + 1" by (metis not_less power_int_increasing one_le_numeral)
  with False have "exponent x + 1 \<le> exponent y" by simp
  then have "(2 :: real) powi (exponent x + 1) \<le> 2 powi exponent y" by (simp add: power_int_increasing)
  then show ?thesis using f_round_pos_bounds[of x] f_round_pos_bounds[of y] assms by linarith
qed

lemma f_round_pos: "0 < x \<Longrightarrow> 0 < f_round x"
  using f_round_pos_bounds(1)[of x] by (smt (verit) zero_less_power_int)

lemma f_round_mono: "x \<le> y \<Longrightarrow> f_round x \<le> f_round y"
proof -
  assume le: "x \<le> y"
  consider "0 < x" | "y < 0" | "x \<le> 0" "0 \<le> y" using le by linarith
  then show ?thesis
  proof cases
    case 2
    then show ?thesis using f_round_mono_pos[of "- y" "- x"] le by (simp add: f_round_minus)
  next
    case 3
    have "f_round x \<le> 0" using f_round_pos[of "- x"] 3 by (cases "x = 0") (simp_all add: f_round_minus)
    moreover have "0 \<le> f_round y" using f_round_pos[of y] 3 by (cases "y = 0") simp_all
    ultimately show ?thesis by simp
  qed (simp add: f_round_mono_pos le)
qed


text \<open>The exponent and the rounding of a concrete number.\<close>

lemma exponent_eqI:
  assumes "2 powi e \<le> \<bar>x\<bar>" "\<bar>x\<bar> < 2 powi (e + 1)"
  shows "exponent x = e"
proof -
  have x: "x \<noteq> 0" using assms(1) by (metis abs_zero linorder_not_less zero_less_power_int zero_less_numeral)
  note b = exponent_bounds[OF x]
  have "(2 :: real) powi e < 2 powi (exponent x + 1)" "(2 :: real) powi exponent x < 2 powi (e + 1)"
    using b assms by linarith+
  then have "e < exponent x + 1" "exponent x < e + 1" by (metis not_less power_int_increasing one_le_numeral)+
  then show ?thesis by simp
qed

lemma round_even_eqI: "\<bar>y - of_int n\<bar> < 1 / 2 \<Longrightarrow> round_even y = n"
proof -
  assume y: "\<bar>y - of_int n\<bar> < 1 / 2"
  then have "\<lfloor>y\<rfloor> = n \<or> \<lfloor>y\<rfloor> = n - 1" by linarith
  then show ?thesis using y by (auto simp: round_even_def Let_def)
qed

lemma f_round_eqI:
  assumes "2 ^ 52 \<le> x / 2 powi k" "x / 2 powi k < 2 ^ 53" "\<bar>x / 2 powi k - of_int n\<bar> < 1 / 2"
  shows "f_round x = of_int n * 2 powi k"
proof -
  have q: "0 < (2 :: real) powi k" by simp
  have x: "2 ^ 52 * 2 powi k \<le> x" "x < 2 ^ 53 * 2 powi k" using assms(1,2) q by (simp_all add: field_simps)
  moreover have "0 < 2 ^ 52 * (2 :: real) powi k" using q by simp
  ultimately have x0: "0 < x" by linarith
  have "exponent x = k + 52"
    using x x0 by (intro exponent_eqI) (simp_all add: power_int_add mult.commute)
  then show ?thesis using x0 by (simp add: f_round_def round_even_eqI[OF assms(3)])
qed

lemma f_round_le: "x \<le> of_int m * 2 powi k \<Longrightarrow> \<bar>m\<bar> < 2 ^ 53 \<Longrightarrow> f_round x \<le> of_int m * 2 powi k"
  using f_round_mono[of x "of_int m * 2 powi k"] by (simp add: f_round_exact)

lemma f_round_ge: "of_int m * 2 powi k \<le> x \<Longrightarrow> \<bar>m\<bar> < 2 ^ 53 \<Longrightarrow> of_int m * 2 powi k \<le> f_round x"
  using f_round_mono[of "of_int m * 2 powi k" x] by (simp add: f_round_exact)

lemma f_round_nonneg [simp]: "0 \<le> x \<Longrightarrow> 0 \<le> f_round x"
  using f_round_mono[of 0 x] by simp

lemma f_round_1 [simp]: "f_round 1 = 1"
  using f_round_int[of 1] by simp

lemma f_round_le_1: "x \<le> 1 \<Longrightarrow> f_round x \<le> 1"
  using f_round_mono[of x 1] by simp

text \<open>A rounded number has at most 53 significant bits, so rounding it again changes nothing.\<close>

lemma f_round_idem [simp]: "f_round (f_round x) = f_round x"
proof -
  have pos: "f_round (f_round x) = f_round x" if "0 < x" for x
  proof -
    let ?q = "2 powi (exponent x - 52) :: real"
    define n where "n = round_even (x / ?q)"
    have r: "f_round x = of_int n * ?q" using that by (simp add: f_round_def n_def Let_def)
    have "f_round x \<le> 2 ^ 53 * ?q"
      using f_round_pos_bounds(2)[OF that] by (simp add: power_int_add power_int_diff)
    then have n: "of_int n \<le> (2 :: real) ^ 53" by (simp add: r)
    have "0 < ?q" by simp
    then have n0: "0 < n" using f_round_pos[OF that] unfolding r by (metis of_int_0_less_iff zero_less_mult_pos2)
    show ?thesis
    proof (cases "n = 2 ^ 53")
      case True
      have "f_round x = of_int 1 * 2 powi (exponent x + 1)" by (simp add: r True power_int_add power_int_diff)
      then show ?thesis by (metis f_round_exact abs_one one_less_power numeral_One numeral_less_iff pos2 semiring_norm(76) zero_less_numeral)
    next
      case False
      have "n \<le> 2 ^ 53" using n by (metis of_int_le_iff of_int_numeral of_int_power)
      then show ?thesis unfolding r using False n0 by (intro f_round_exact) simp
    qed
  qed
  consider "x = 0" | "0 < x" | "0 < - x" by linarith
  then show ?thesis
  proof cases
    case 3
    from pos[OF this] show ?thesis by (simp add: f_round_minus)
  qed (simp_all add: pos)
qed


lemma f_of_nat_exact:
  assumes "n < 2 ^ 53"
  shows "f_of_nat n = real n" "f_round (real n * 2 powi k) = real n * 2 powi k"
proof -
  have w: "\<bar>int n\<bar> < 2 ^ 53" using assms by (metis abs_of_nat of_nat_less_iff of_nat_power of_nat_numeral)
  show "f_of_nat n = real n" using f_round_int[OF w] unfolding f_of_nat_def of_int_of_nat_eq .
  show "f_round (real n * 2 powi k) = real n * 2 powi k" using f_round_exact[OF w] unfolding of_int_of_nat_eq .
qed


text \<open>The error of rounding a number of at most one, and what rounds to at most one.\<close>

lemma round_even_error: "\<bar>of_int (round_even y) - y\<bar> \<le> 1 / 2"
  by (auto simp: round_even_def Let_def)

lemma f_round_error:
  assumes "0 \<le> x" "x \<le> 1"
  shows "\<bar>f_round x - x\<bar> \<le> 2 powi (- 54)"
proof (cases "x = 0 \<or> x = 1")
  case False
  then have x: "0 < x" "x < 1" using assms by auto
  let ?q = "2 powi (exponent x - 52) :: real"
  have "(2 :: real) powi exponent x < 2 powi 0" using exponent_bounds(1)[of x] x by simp
  then have e: "exponent x \<le> - 1" by (smt (verit) one_le_numeral power_int_increasing)
  have "f_round x - x = (of_int (round_even (x / ?q)) - x / ?q) * ?q"
    using x by (simp add: f_round_def Let_def left_diff_distrib)
  then have "\<bar>f_round x - x\<bar> = \<bar>of_int (round_even (x / ?q)) - x / ?q\<bar> * ?q" by (simp add: abs_mult)
  also have "\<dots> \<le> 1 / 2 * ?q" by (intro mult_right_mono round_even_error) simp
  also have "?q \<le> 2 powi (- 53)" using e by (intro power_int_increasing) simp_all
  finally show ?thesis by (simp add: power_int_minus)
qed auto

lemma f_round_le_1_near:
  assumes "x \<le> 1 + 2 powi (- 54)"
  shows "f_round x \<le> 1"
proof (cases "x \<le> 1")
  case False
  have "f_round (1 + 2 powi (- 54)) = of_int (2 ^ 52) * 2 powi (- 52)"
    by (rule f_round_eqI) (simp_all add: power_int_minus field_simps)
  then show ?thesis using f_round_mono[OF assms] by (simp add: power_int_minus)
qed (rule f_round_le_1)

lemma f_complement:
  assumes "0 \<le> x" "x \<le> 1"
  shows "0 \<le> f_sub 1 x" "f_sub 1 x \<le> 1" "f_add x (f_sub 1 x) \<le> 1"
proof -
  show "0 \<le> f_sub 1 x" "f_sub 1 x \<le> 1" using assms by (simp_all add: f_sub_def f_round_le_1)
  show "f_add x (f_sub 1 x) \<le> 1"
    unfolding f_add_def by (rule f_round_le_1_near) (use f_round_error[of "1 - x"] assms in \<open>unfold f_sub_def, linarith\<close>)
qed

text \<open>Quotients and products that stay in the unit interval, and clamping.\<close>

lemma f_div_unit: "0 \<le> x \<Longrightarrow> x \<le> y \<Longrightarrow> 0 \<le> f_div x y \<and> f_div x y \<le> 1"
  by (auto simp: f_div_def intro!: f_round_le_1 divide_le_eq_1[THEN iffD2])

lemma f_mul_le: "0 \<le> x \<Longrightarrow> 0 \<le> y \<Longrightarrow> y \<le> 1 \<Longrightarrow> f_mul x y \<le> f_round x"
  unfolding f_mul_def by (rule f_round_mono) (simp add: mult_left_le)

lemma f_mul_nonneg: "0 \<le> x \<Longrightarrow> 0 \<le> y \<Longrightarrow> 0 \<le> f_mul x y"
  by (simp add: f_mul_def)

lemma f_add_nonneg: "0 \<le> x \<Longrightarrow> 0 \<le> y \<Longrightarrow> 0 \<le> f_add x y"
  by (simp add: f_add_def)

lemma f_add_mono: "x \<le> x' \<Longrightarrow> y \<le> y' \<Longrightarrow> f_add x y \<le> f_add x' y'"
  unfolding f_add_def by (rule f_round_mono) simp

lemma f_clamp_unit [simp]: "0 \<le> f_clamp 0 1 x" "f_clamp 0 1 x \<le> 1"
  by (simp_all add: f_clamp_def)

lemma f_of_nat_nonneg [simp]: "0 \<le> f_of_nat n"
  by (simp add: f_of_nat_def)

lemma f_of_nat_mono: "m \<le> n \<Longrightarrow> f_of_nat m \<le> f_of_nat n"
  unfolding f_of_nat_def by (rule f_round_mono) simp

lemma f_of_int_mono: "m \<le> n \<Longrightarrow> f_of_int m \<le> f_of_int n"
  unfolding f_of_int_def by (rule f_round_mono) simp

text \<open>A sum of fractions from the left is at most their number.\<close>

lemma f_sum_bounds:
  assumes "\<And>x. x \<in> set xs \<Longrightarrow> 0 \<le> x \<and> x \<le> 1" "k + length xs < 2 ^ 53" "0 \<le> s" "s \<le> real k"
  shows "0 \<le> foldl f_add s xs \<and> foldl f_add s xs \<le> real (k + length xs)"
  using assms
proof (induction xs arbitrary: s k)
  case (Cons x xs)
  have "f_add s x \<le> f_round (real (Suc k))" unfolding f_add_def using Cons.prems(1,4) by (intro f_round_mono) force
  also have "\<dots> = real (Suc k)"
    using f_of_nat_exact(1)[of "Suc k"] Cons.prems(2) by (simp add: f_of_nat_def)
  finally have "f_add s x \<le> real (Suc k)" .
  moreover have "0 \<le> f_add s x" using Cons.prems(1,3) by (simp add: f_add_nonneg)
  ultimately show ?case using Cons.IH[of "Suc k" "f_add s x"] Cons.prems(1,2) by simp
qed simp

end
