(* ===== verification/Capabilities.thy ===== *)
theory Capabilities
  imports Protocol
begin

text \<open>
  What a node advertises of itself (\<open>GpuCapability\<close>, \<open>NetworkCoordinate\<close> and \<open>NodeCapabilities\<close> of
  \<open>hocmesh-protocol/src/lib.rs\<close>), the documents serde writes of it and the hashes a node signs to register and to
  stay alive.  Sizes and counts are naturals; \<open>capabilities_typed\<close> says what their machine types allow.
\<close>

section \<open>Definitions\<close>

record gpu_capability =
  gp_stable_id :: string
  gp_vendor :: string
  gp_name :: string
  gp_backend :: string
  gp_memory_mb :: "nat option"
  gp_driver_version :: "string option"
  gp_compute_version :: "string option"
  gp_supports_fp16 :: bool
  gp_supports_bf16 :: bool
  gp_supports_int8 :: bool
  gp_benchmark_bytes_per_second :: "nat option"
  gp_benchmark_p95_micros :: "nat option"

definition COORDINATE_DIMENSIONS :: nat where
  "COORDINATE_DIMENSIONS = 3"

record network_coordinate =
  nc_vector_micros :: "int list"
  nc_height_micros :: int
  nc_error_permille :: nat

record node_capabilities =
  cp_protocol_version :: nat
  cp_hostname :: string
  cp_os :: string
  cp_arch :: string
  cp_cpu_brand :: string
  cp_logical_cpus :: nat
  cp_total_memory_bytes :: nat
  cp_cpu_benchmark_score :: nat
  cp_memory_bandwidth_bytes_per_second :: "nat option"
  cp_gpus :: "gpu_capability list"
  cp_model_seed_url :: "string option"
  cp_cached_model_manifests :: "string list"
  cp_coordinator_latency_micros :: nat
  cp_model_bandwidth_kbps :: nat
  cp_load_permille :: nat
  cp_ai_runtime_ready :: bool
  cp_shared_logical_cpus :: nat
  cp_shared_memory_bytes :: nat
  cp_shared_gpu_percent :: nat
  cp_network_coordinate :: "network_coordinate option"
  cp_probe_endpoint :: "string option"

text \<open>The documents, fields in the order of the declarations.\<close>

definition gpu_capability_json :: "gpu_capability \<Rightarrow> json" where
  "gpu_capability_json g = JObj
     [(''stable_id'', JStr (gp_stable_id g)), (''vendor'', JStr (gp_vendor g)), (''name'', JStr (gp_name g)),
      (''backend'', JStr (gp_backend g)), (''memory_mb'', jopt jnat (gp_memory_mb g)),
      (''driver_version'', jopt JStr (gp_driver_version g)), (''compute_version'', jopt JStr (gp_compute_version g)),
      (''supports_fp16'', JBool (gp_supports_fp16 g)), (''supports_bf16'', JBool (gp_supports_bf16 g)),
      (''supports_int8'', JBool (gp_supports_int8 g)),
      (''benchmark_bytes_per_second'', jopt jnat (gp_benchmark_bytes_per_second g)),
      (''benchmark_p95_micros'', jopt jnat (gp_benchmark_p95_micros g))]"

definition network_coordinate_json :: "network_coordinate \<Rightarrow> json" where
  "network_coordinate_json n = JObj
     [(''vector_micros'', JArr (map JNum (nc_vector_micros n))), (''height_micros'', JNum (nc_height_micros n)),
      (''error_permille'', jnat (nc_error_permille n))]"

definition node_capabilities_json :: "node_capabilities \<Rightarrow> json" where
  "node_capabilities_json p = JObj
     [(''protocol_version'', jnat (cp_protocol_version p)), (''hostname'', JStr (cp_hostname p)),
      (''os'', JStr (cp_os p)), (''arch'', JStr (cp_arch p)), (''cpu_brand'', JStr (cp_cpu_brand p)),
      (''logical_cpus'', jnat (cp_logical_cpus p)), (''total_memory_bytes'', jnat (cp_total_memory_bytes p)),
      (''cpu_benchmark_score'', jnat (cp_cpu_benchmark_score p)),
      (''memory_bandwidth_bytes_per_second'', jopt jnat (cp_memory_bandwidth_bytes_per_second p)),
      (''gpus'', JArr (map gpu_capability_json (cp_gpus p))),
      (''model_seed_url'', jopt JStr (cp_model_seed_url p)),
      (''cached_model_manifests'', JArr (map JStr (cp_cached_model_manifests p))),
      (''coordinator_latency_micros'', jnat (cp_coordinator_latency_micros p)),
      (''model_bandwidth_kbps'', jnat (cp_model_bandwidth_kbps p)), (''load_permille'', jnat (cp_load_permille p)),
      (''ai_runtime_ready'', JBool (cp_ai_runtime_ready p)),
      (''shared_logical_cpus'', jnat (cp_shared_logical_cpus p)),
      (''shared_memory_bytes'', jnat (cp_shared_memory_bytes p)),
      (''shared_gpu_percent'', jnat (cp_shared_gpu_percent p)),
      (''network_coordinate'', jopt network_coordinate_json (cp_network_coordinate p)),
      (''probe_endpoint'', jopt JStr (cp_probe_endpoint p))]"

definition register_body_hash :: "crypto \<Rightarrow> string \<Rightarrow> node_capabilities \<Rightarrow> string" where
  "register_body_hash c pk p = hash_json c (JArr [JStr pk, node_capabilities_json p])"

definition heartbeat_body_hash :: "crypto \<Rightarrow> node_capabilities \<Rightarrow> string" where
  "heartbeat_body_hash c p = hash_json c (node_capabilities_json p)"

definition coordinate_typed :: "network_coordinate \<Rightarrow> bool" where
  "coordinate_typed n \<longleftrightarrow> length (nc_vector_micros n) = COORDINATE_DIMENSIONS \<and> list_all in_i64 (nc_vector_micros n) \<and>
     in_i64 (nc_height_micros n) \<and> nc_error_permille n < 2 ^ 16"

definition capabilities_typed :: "node_capabilities \<Rightarrow> bool" where
  "capabilities_typed p \<longleftrightarrow> cp_logical_cpus p \<le> u64_max \<and> cp_total_memory_bytes p \<le> u64_max \<and>
     cp_cpu_benchmark_score p \<le> u64_max \<and> cp_coordinator_latency_micros p \<le> u64_max \<and>
     cp_model_bandwidth_kbps p \<le> u64_max \<and> cp_load_permille p < 2 ^ 16 \<and> cp_shared_logical_cpus p \<le> u64_max \<and>
     cp_shared_memory_bytes p \<le> u64_max \<and> cp_shared_gpu_percent p < 2 ^ 8 \<and>
     (case cp_network_coordinate p of None \<Rightarrow> True | Some n \<Rightarrow> coordinate_typed n)"

end
