(* ===== verification/Tables.thy ===== *)
theory Tables
  imports Escrow Verify Capabilities
begin

text \<open>
  The tables of a coordinator (\<open>hocmesh-coordinator/src/db.rs\<close>) and the statements on them that more than one
  caller uses.  A table is a finite map from its primary key to its rows; a text column that holds JSON holds the
  value that was encoded.  Rows are only ever deleted from the table of nonces, so the implicit \<open>rowid\<close> of an
  assignment is its place in the order of insertion.  Connections, pragmas and failures of SQLite other than the
  constraints of the schema are not modelled.
\<close>

section \<open>Definitions\<close>

subsection \<open>Rows\<close>

record node_row =
  nd_public_key_b64 :: string
  nd_capabilities :: node_capabilities
  nd_registered_at :: int
  nd_last_seen :: int
  nd_region :: "string option"

record job_row =
  jb_requester_node_id :: "string option"
  jb_system_funded :: bool
  jb_work :: work_spec
  jb_status :: string
  jb_reserved_mcu :: int
  jb_created_at :: int
  jb_completed_at :: "int option"

record assignment_row =
  as_job_id :: string
  as_shard_index :: nat
  as_work :: work_spec
  as_status :: string
  as_leased_to :: "string option"
  as_lease_until :: "int option"
  as_result :: "work_result option"
  as_reward_mcu :: int
  as_completed_at :: "int option"
  as_leased_by :: "string option"
  as_rowid :: nat

record intent_row =
  it_kind :: string
  it_object_id :: string
  it_transaction :: ledger_transaction
  it_status :: string
  it_entry_hash :: "string option"
  it_attempts :: int
  it_last_error :: "string option"
  it_created_at :: int
  it_updated_at :: int

record local_entry =
  le_node_id :: string
  le_delta_mcu :: int
  le_category :: string
  le_job_id :: "string option"
  le_assignment_id :: "string option"
  le_created_at :: int

record reputation =
  re_accepted :: nat
  re_rejected :: nat
  re_streak :: nat

record coordinator =
  co_nodes :: "(string, node_row) fmap"
  co_jobs :: "(string, job_row) fmap"
  co_assignments :: "(string, assignment_row) fmap"
  co_watermark :: "(nat \<times> validator_set) option"
  co_nonces :: "(string \<times> string, int) fmap"
  co_intents :: "(string, intent_row) fmap"
  co_balances :: "(string, int) fmap"
  co_ledger :: "local_entry list"
  co_reputation :: "(string, int \<times> int \<times> int) fmap"

definition empty_coordinator :: coordinator where
  "empty_coordinator =
     \<lparr> co_nodes = fmempty, co_jobs = fmempty, co_assignments = fmempty, co_watermark = None, co_nonces = fmempty,
       co_intents = fmempty, co_balances = fmempty, co_ledger = [], co_reputation = fmempty \<rparr>"

subsection \<open>Statements\<close>

text \<open>\<open>ON CONFLICT(key) DO NOTHING\<close>.\<close>

definition insert_or_ignore :: "'k \<Rightarrow> 'v \<Rightarrow> ('k, 'v) fmap \<Rightarrow> ('k, 'v) fmap" where
  "insert_or_ignore k v m = (if fmlookup m k = None then fmupd k v m else m)"

text \<open>\<open>UPDATE ... WHERE key=?1 AND guard\<close>: the table, and whether a row was touched.\<close>

definition update_where :: "'k \<Rightarrow> ('v \<Rightarrow> bool) \<Rightarrow> ('v \<Rightarrow> 'v) \<Rightarrow> ('k, 'v) fmap \<Rightarrow> ('k, 'v) fmap \<times> bool" where
  "update_where k guard f m =
     (case fmlookup m k of
        None \<Rightarrow> (m, False)
      | Some v \<Rightarrow> if guard v then (fmupd k (f v) m, True) else (m, False))"

text \<open>\<open>UPDATE ... WHERE guard\<close>.\<close>

definition update_all :: "('v \<Rightarrow> bool) \<Rightarrow> ('v \<Rightarrow> 'v) \<Rightarrow> ('k, 'v) fmap \<Rightarrow> ('k, 'v) fmap" where
  "update_all guard f m = fmmap (\<lambda>v. if guard v then f v else v) m"

text \<open>The constraint \<open>UNIQUE(job_id, shard_index)\<close>, the next \<open>rowid\<close>, and a new row of a shard.\<close>

definition shard_taken :: "(string, assignment_row) fmap \<Rightarrow> string \<Rightarrow> nat \<Rightarrow> bool" where
  "shard_taken m j i \<longleftrightarrow> \<not> fmpred (\<lambda>_ r. \<not> (as_job_id r = j \<and> as_shard_index r = i)) m"

definition next_rowid :: "(string, assignment_row) fmap \<Rightarrow> nat" where
  "next_rowid m = Suc (fcard (fmdom m))"

definition shard_as :: "string \<Rightarrow> nat \<Rightarrow> string \<Rightarrow> nat \<Rightarrow> work_spec \<Rightarrow> assignment_row" where
  "shard_as status rowid j i part =
     \<lparr> as_job_id = j, as_shard_index = i, as_work = part, as_status = status, as_leased_to = None,
       as_lease_until = None, as_result = None, as_reward_mcu = work_cost_mcu part, as_completed_at = None,
       as_leased_by = None, as_rowid = rowid \<rparr>"

subsection \<open>Intents\<close>

definition MAX_INTENT_ATTEMPTS :: int where "MAX_INTENT_ATTEMPTS = 240"

definition persist_ledger_intent ::
  "int \<Rightarrow> string \<Rightarrow> string \<Rightarrow> string \<Rightarrow> ledger_transaction \<Rightarrow> coordinator \<Rightarrow> coordinator" where
  "persist_ledger_intent now ck intent_kind object_id t co =
     co\<lparr> co_intents := fmupd ck
       (case fmlookup (co_intents co) ck of
          None \<Rightarrow> \<lparr> it_kind = intent_kind, it_object_id = object_id, it_transaction = t, it_status = ''pending'',
                    it_entry_hash = None, it_attempts = 0, it_last_error = None, it_created_at = now, it_updated_at = now \<rparr>
        | Some r \<Rightarrow> r\<lparr> it_transaction := t, it_updated_at := now \<rparr>) (co_intents co) \<rparr>"

definition certify_ledger_intent :: "int \<Rightarrow> string \<Rightarrow> string \<Rightarrow> coordinator \<Rightarrow> coordinator" where
  "certify_ledger_intent now ck ehash co =
     co\<lparr> co_intents := fst (update_where ck (\<lambda>_. True)
       (\<lambda>r. r\<lparr> it_status := ''certified'', it_entry_hash := Some ehash, it_last_error := None, it_updated_at := now \<rparr>)
       (co_intents co)) \<rparr>"

definition defer_ledger_intent :: "int \<Rightarrow> string \<Rightarrow> string \<Rightarrow> coordinator \<Rightarrow> coordinator \<times> int" where
  "defer_ledger_intent now ck reason co =
     (let intents = fst (update_where ck (\<lambda>r. it_status r = ''pending'')
            (\<lambda>r. r\<lparr> it_attempts := it_attempts r + 1, it_last_error := Some reason, it_updated_at := now \<rparr>) (co_intents co))
      in (co\<lparr> co_intents := intents \<rparr>, case fmlookup intents ck of None \<Rightarrow> 0 | Some r \<Rightarrow> it_attempts r))"

definition abandon_ledger_intent :: "int \<Rightarrow> string \<Rightarrow> string \<Rightarrow> coordinator \<Rightarrow> coordinator" where
  "abandon_ledger_intent now ck reason co =
     co\<lparr> co_intents := fst (update_where ck (\<lambda>r. it_status r = ''pending'')
       (\<lambda>r. r\<lparr> it_status := ''unrecoverable'', it_attempts := it_attempts r + 1, it_last_error := Some reason,
              it_updated_at := now \<rparr>) (co_intents co)) \<rparr>"

text \<open>Work that waits on an entry no pending intent names.\<close>

definition pursued :: "coordinator \<Rightarrow> string \<Rightarrow> bool" where
  "pursued co object_id \<longleftrightarrow> \<not> fmpred (\<lambda>_ i. \<not> (it_status i = ''pending'' \<and> it_object_id i = object_id)) (co_intents co)"

definition orphaned_funding_objects :: "coordinator \<Rightarrow> nat" where
  "orphaned_funding_objects co =
     length (filter (\<lambda>(j, r). jb_status r = ''funding'' \<and> \<not> pursued co j) (fm_assoc (co_jobs co))) +
     length (filter (\<lambda>(a, r). as_status r = ''settling'' \<and> \<not> pursued co a) (fm_assoc (co_assignments co)))"

subsection \<open>Leases and seeds\<close>

definition shorten_leases_from :: "string \<Rightarrow> int \<Rightarrow> coordinator \<Rightarrow> coordinator" where
  "shorten_leases_from coordinator_id deadline co =
     co\<lparr> co_assignments := update_all
       (\<lambda>r. as_status r = ''leased'' \<and> as_leased_by r = Some coordinator_id \<and>
            (case as_lease_until r of None \<Rightarrow> True | Some t \<Rightarrow> t > deadline))
       (\<lambda>r. r\<lparr> as_lease_until := Some deadline \<rparr>) (co_assignments co) \<rparr>"

datatype seed_error = SeedWork work_error | SeedJobTaken | SeedShardTaken

text \<open>A plain \<open>INSERT\<close> of a shard: a conflict fails the statement, and with it the transaction.\<close>

definition insert_shard ::
  "'e \<Rightarrow> crypto \<Rightarrow> string \<Rightarrow> string \<Rightarrow> nat \<times> work_spec \<Rightarrow> (string, assignment_row) fmap \<Rightarrow> 'e + (string, assignment_row) fmap" where
  "insert_shard err c status j ip m =
     (case ip of (i, part) \<Rightarrow>
        if fmlookup m (assignment_id c j i) \<noteq> None \<or> shard_taken m j i then Inl err
        else Inr (fmupd (assignment_id c j i) (shard_as status (next_rowid m) j i part) m))"

definition clamp_shards :: "nat \<Rightarrow> nat" where "clamp_shards n = min (max n 1) 256"

definition seed_system_job_with_id ::
  "crypto \<Rightarrow> int \<Rightarrow> string \<Rightarrow> work_spec \<Rightarrow> nat \<Rightarrow> (string \<times> string \<times> ledger_transaction) option \<Rightarrow> coordinator \<Rightarrow>
   seed_error + coordinator" where
  "seed_system_job_with_id c now j work shards intent co =
     qbind (map_err SeedWork (work_spec_validate work)) (\<lambda>_.
     let parts = split_work work (clamp_shards shards);
         jrow = \<lparr> jb_requester_node_id = None, jb_system_funded = True, jb_work = work,
                  jb_status = (if intent = None then ''pending'' else ''funding''),
                  jb_reserved_mcu = wrap_i64 (sum_list (map work_cost_mcu parts)), jb_created_at = now,
                  jb_completed_at = None \<rparr>
     in if fmlookup (co_jobs co) j \<noteq> None then Inl SeedJobTaken
        else qbind (fold_result (insert_shard SeedShardTaken c (if intent = None then ''pending'' else ''blocked'') j)
                      (List.enumerate 0 parts) (co_assignments co)) (\<lambda>assigned.
             let co1 = co\<lparr> co_jobs := fmupd j jrow (co_jobs co), co_assignments := assigned \<rparr>
             in Inr (case intent of None \<Rightarrow> co1 | Some (ck, intent_kind, t) \<Rightarrow> persist_ledger_intent now ck intent_kind j t co1)))"

section \<open>Lemmas\<close>

lemma insert_or_ignore_keep: "fmlookup m k \<noteq> None \<Longrightarrow> insert_or_ignore k v m = m"
  by (auto simp: insert_or_ignore_def)

lemma update_where_lookup:
  "fmlookup (fst (update_where k g f m)) x =
     (if x = k then map_option (\<lambda>v. if g v then f v else v) (fmlookup m k) else fmlookup m x)"
  by (auto simp: update_where_def split: option.splits)

lemma update_where_touched: "snd (update_where k g f m) \<longleftrightarrow> (\<exists>v. fmlookup m k = Some v \<and> g v)"
  by (auto simp: update_where_def split: option.splits)

lemma update_all_lookup [simp]: "fmlookup (update_all g f m) x = map_option (\<lambda>v. if g v then f v else v) (fmlookup m x)"
  by (simp add: update_all_def)

lemma shard_as_simps [simp]:
  "as_status (shard_as s n j i p) = s" "as_job_id (shard_as s n j i p) = j" "as_shard_index (shard_as s n j i p) = i"
  "as_work (shard_as s n j i p) = p" "as_reward_mcu (shard_as s n j i p) = work_cost_mcu p"
  "as_leased_to (shard_as s n j i p) = None" "as_result (shard_as s n j i p) = None"
  by (simp_all add: shard_as_def)

text \<open>The statements on intents leave the other tables alone.\<close>

lemma intent_frame [simp]:
  "co_assignments (persist_ledger_intent now ck k x t co) = co_assignments co"
  "co_assignments (certify_ledger_intent now ck h co) = co_assignments co"
  "co_assignments (abandon_ledger_intent now ck h co) = co_assignments co"
  "co_jobs (persist_ledger_intent now ck k x t co) = co_jobs co"
  "co_jobs (certify_ledger_intent now ck h co) = co_jobs co"
  "co_jobs (abandon_ledger_intent now ck h co) = co_jobs co"
  "co_nodes (persist_ledger_intent now ck k x t co) = co_nodes co"
  "co_nodes (certify_ledger_intent now ck h co) = co_nodes co"
  "co_balances (persist_ledger_intent now ck k x t co) = co_balances co"
  "co_balances (certify_ledger_intent now ck h co) = co_balances co"
  "co_nonces (persist_ledger_intent now ck k x t co) = co_nonces co"
  "co_nonces (certify_ledger_intent now ck h co) = co_nonces co"
  by (simp_all add: persist_ledger_intent_def certify_ledger_intent_def abandon_ledger_intent_def)

end
