(* ===== verification/Reputation.thy ===== *)
theory Reputation
  imports Float64 Tables
begin

text \<open>
  A node's standing and how often its results are audited (\<open>hocmesh-core/src/reputation.rs\<close> and
  \<open>AuditNonce::unit_interval\<close> of \<open>verify.rs\<close>).  \<open>powf\<close>, which the platform's mathematical library provides, is an
  argument; \<open>powf_ok\<close> is what is documented of it.
\<close>

section \<open>Definitions\<close>

definition new_reputation :: reputation where
  "new_reputation = \<lparr> re_accepted = 0, re_rejected = 0, re_streak = 0 \<rparr>"

definition INITIAL_AUDIT_RATE :: real where "INITIAL_AUDIT_RATE = 1"
definition FLOOR_AUDIT_RATE :: real where "FLOOR_AUDIT_RATE = f_round (5 / 100)"
definition STREAK_HALF_LIFE :: real where "STREAK_HALF_LIFE = 12"

definition audit_rate :: "(real \<Rightarrow> real \<Rightarrow> real) \<Rightarrow> reputation \<Rightarrow> real" where
  "audit_rate powf r =
     (let decay = powf (1 / 2) (f_div (f_of_nat (re_streak r)) STREAK_HALF_LIFE)
      in f_add FLOOR_AUDIT_RATE (f_mul (f_sub INITIAL_AUDIT_RATE FLOOR_AUDIT_RATE) decay))"

definition record_accepted :: "reputation \<Rightarrow> reputation" where
  "record_accepted r = r\<lparr> re_accepted := sat_add64 (re_accepted r) 1, re_streak := min (re_streak r + 1) u32_max \<rparr>"

definition record_rejected :: "reputation \<Rightarrow> reputation" where
  "record_rejected r = r\<lparr> re_rejected := sat_add64 (re_rejected r) 1, re_streak := 0 \<rparr>"

definition unit_interval :: "nat \<Rightarrow> real" where
  "unit_interval nonce = f_div (f_of_nat (unat (drop_bit 11 (mix (of_nat nonce XOR 0x5DEECE66D39B1A17))))) (2 ^ 53)"

definition should_audit :: "(real \<Rightarrow> real \<Rightarrow> real) \<Rightarrow> reputation \<Rightarrow> nat \<Rightarrow> bool" where
  "should_audit powf r nonce \<longleftrightarrow> unit_interval nonce < audit_rate powf r"

text \<open>What is documented of \<open>powf\<close>: anything to the power zero is one, and a fraction to a power of at least zero is a
  fraction.\<close>

definition powf_ok :: "(real \<Rightarrow> real \<Rightarrow> real) \<Rightarrow> bool" where
  "powf_ok powf \<longleftrightarrow> (\<forall>x. powf x 0 = 1) \<and> (\<forall>x y. 0 \<le> x \<longrightarrow> x \<le> 1 \<longrightarrow> 0 \<le> y \<longrightarrow> 0 \<le> powf x y \<and> powf x y \<le> 1)"

section \<open>Lemmas\<close>

lemma floor_rate: "FLOOR_AUDIT_RATE = 3602879701896397 / 72057594037927936"
  using f_round_eqI[of "5/100" "-57" "7205759403792794"] by (simp add: FLOOR_AUDIT_RATE_def)

lemma rate_gap: "f_sub INITIAL_AUDIT_RATE FLOOR_AUDIT_RATE = 4278419646001971 / 4503599627370496"
  using f_round_eqI[of "1 - 3602879701896397 / 72057594037927936" "-53" "8556839292003942"]
  by (simp add: f_sub_def INITIAL_AUDIT_RATE_def floor_rate)

lemma full_rate: "f_add FLOOR_AUDIT_RATE (4278419646001971 / 4503599627370496) = 1"
  using f_round_eqI[of "3602879701896397 / 72057594037927936 + 4278419646001971 / 4503599627370496" "-53" "2 ^ 53"]
  by (simp add: f_add_def floor_rate)

lemma gap_exact: "f_round (4278419646001971 / 4503599627370496) = 4278419646001971 / 4503599627370496"
  using f_round_exact[of 4278419646001971 "-52"] by (simp add: power_int_minus field_simps)

lemma audit_rate_bounds:
  assumes "powf_ok powf"
  shows "FLOOR_AUDIT_RATE \<le> audit_rate powf r" "audit_rate powf r \<le> 1"
proof -
  define decay where "decay = powf (1 / 2) (f_div (f_of_nat (re_streak r)) STREAK_HALF_LIFE)"
  have d: "0 \<le> decay" "decay \<le> 1"
    using assms by (simp_all add: powf_ok_def decay_def f_div_def f_of_nat_def STREAK_HALF_LIFE_def)
  define part where "part = f_mul (4278419646001971 / 4503599627370496) decay"
  have p: "0 \<le> part" "part \<le> 4278419646001971 / 4503599627370496"
    using d f_round_mono[of "4278419646001971 / 4503599627370496 * decay" "4278419646001971 / 4503599627370496"]
    by (simp_all add: part_def f_mul_def gap_exact)
  have rate: "audit_rate powf r = f_add FLOOR_AUDIT_RATE part"
    by (simp add: audit_rate_def rate_gap part_def decay_def Let_def)
  have "f_add FLOOR_AUDIT_RATE 0 \<le> f_add FLOOR_AUDIT_RATE part"
    "f_add FLOOR_AUDIT_RATE part \<le> f_add FLOOR_AUDIT_RATE (4278419646001971 / 4503599627370496)"
    using p by (auto simp: f_add_def intro!: f_round_mono)
  then show "FLOOR_AUDIT_RATE \<le> audit_rate powf r" "audit_rate powf r \<le> 1"
    unfolding rate full_rate by (simp_all add: f_add_def FLOOR_AUDIT_RATE_def)
qed

lemma audit_rate_full: "powf_ok powf \<Longrightarrow> re_streak r = 0 \<Longrightarrow> audit_rate powf r = 1"
  by (simp add: audit_rate_def rate_gap powf_ok_def f_of_nat_def f_div_def f_mul_def gap_exact full_rate)

lemma fraction_lt_1:
  assumes n: "n < 2 ^ 53"
  shows "f_div (f_of_nat n) (2 ^ 53) < 1"
proof -
  have "real n / 2 ^ 53 = real n * 2 powi (- 53)" by (simp add: power_int_minus field_simps)
  then have b: "f_round (real n / 2 ^ 53) = real n / 2 ^ 53" using f_of_nat_exact(2)[OF n, of "- 53"] by (simp only:)
  have "real n < 2 ^ 53" using n by (metis of_nat_less_iff of_nat_power of_nat_numeral)
  then show ?thesis unfolding f_div_def f_of_nat_exact(1)[OF n] b by simp
qed

lemma unit_interval_lt_1: "unit_interval nonce < 1"
proof -
  let ?m = "mix (of_nat nonce XOR 0x5DEECE66D39B1A17)"
  have "unat (drop_bit 11 ?m) = unat ?m div 2 ^ 11"
    by (rule trans[OF unat_drop_bit_eq]) (simp add: drop_bit_eq_div)
  also have "\<dots> < 2 ^ 53"
    using unsigned_less[where ?'a = nat, of ?m] by (simp add: less_mult_imp_div_less)
  finally show ?thesis unfolding unit_interval_def by (rule fraction_lt_1)
qed

lemma unproven_audited: "powf_ok powf \<Longrightarrow> re_streak r = 0 \<Longrightarrow> should_audit powf r nonce"
  by (simp add: should_audit_def audit_rate_full unit_interval_lt_1)

text \<open>Trust is earned and lost at once.  A node without a record, and one whose last result was rejected, has every
  result audited, whatever the challenge; no record, however long, brings the rate below the floor or above one.\<close>

theorem unproven_node_is_audited:
  assumes "powf_ok powf"
  shows "should_audit powf new_reputation nonce \<and> should_audit powf (record_rejected r) nonce \<and>
    FLOOR_AUDIT_RATE \<le> audit_rate powf r \<and> audit_rate powf r \<le> INITIAL_AUDIT_RATE"
  using audit_rate_bounds[OF assms, of r]
  by (simp add: unproven_audited[OF assms] new_reputation_def record_rejected_def INITIAL_AUDIT_RATE_def)

lemma powr_ok: "powf_ok (\<lambda>x y. if y = 0 then 1 else x powr y)"
  by (auto simp: powf_ok_def powr_le1)

theorem unproven_node_is_audited_witness:
  "should_audit (\<lambda>x y. if y = 0 then 1 else x powr y) (record_rejected \<lparr> re_accepted = 40, re_rejected = 0, re_streak = 40 \<rparr>) 7"
  using unproven_node_is_audited[OF powr_ok] by blast

end
