(* ===== verification/Schedule.thy ===== *)
theory Schedule
  imports Reputation
begin

text \<open>
  How pending work is matched to a node that asks (the first half of \<open>hocmesh-coordinator/src/schedule.rs\<close>).  Scores are
  \<open>f64\<close> numbers in the order of evaluation of the source; sums and differences of clock readings are integers.
\<close>

section \<open>Definitions\<close>

subsection \<open>What is scored\<close>

definition BENCHMARK_LIMIT :: nat where "BENCHMARK_LIMIT = 150000"
definition UNKNOWN :: real where "UNKNOWN = 1 / 2"
definition STARVATION_SECS :: int where "STARVATION_SECS = 300"
definition STARVATION_WEIGHT :: real where "STARVATION_WEIGHT = 5 / 4"
definition HEAD_START_SECONDS :: int where "HEAD_START_SECONDS = 30"
definition LEASE_HEADROOM :: real where "LEASE_HEADROOM = 3 / 2"

record weights =
  wt_hardware :: real
  wt_network :: real
  wt_reliability :: real
  wt_locality :: real
  wt_scarcity :: real

definition default_weights :: weights where
  "default_weights = \<lparr> wt_hardware = f_round (22 / 100), wt_network = f_round (18 / 100), wt_reliability = f_round (22 / 100),
     wt_locality = f_round (28 / 100), wt_scarcity = f_round (10 / 100) \<rparr>"

definition weights_total :: "weights \<Rightarrow> real" where
  "weights_total w = f_add (f_add (f_add (f_add (wt_hardware w) (wt_network w)) (wt_reliability w)) (wt_locality w)) (wt_scarcity w)"

record worker_profile =
  wp_node_id :: string
  wp_region :: "string option"
  wp_caps :: node_capabilities
  wp_reputation :: reputation

record shard_candidate =
  sc_assignment_id :: string
  sc_job_id :: string
  sc_shard_index :: nat
  sc_reward_mcu :: int
  sc_memory_bytes :: nat
  sc_created_at :: int
  sc_shards_done_here :: nat
  sc_nearest_done_shard :: "nat option"
  sc_required_manifests :: "string list"

record scale =
  sl_max_reward_mcu :: int
  sl_pending_shards :: nat
  sl_recent_pollers :: nat

definition scale_of :: "shard_candidate list \<Rightarrow> scale" where
  "scale_of candidates =
     \<lparr> sl_max_reward_mcu = max (if candidates = [] then 1 else Max (set (map sc_reward_mcu candidates))) 1,
       sl_pending_shards = length candidates, sl_recent_pollers = 0 \<rparr>"

definition contended :: "scale \<Rightarrow> bool" where
  "contended s \<longleftrightarrow> sl_recent_pollers s > sl_pending_shards s"

definition exposure :: "scale \<Rightarrow> shard_candidate \<Rightarrow> real" where
  "exposure s cand = f_clamp 0 1 (f_div (f_of_int (max (sc_reward_mcu cand) 0)) (f_of_int (sl_max_reward_mcu s)))"

record fit =
  ft_hardware :: real
  ft_network :: real
  ft_reliability :: real
  ft_locality :: real
  ft_scarcity :: real
  ft_starvation :: real
  ft_total :: real

datatype unfit = NoSharedCpu | NotEnoughMemory | SlowerThanLease | StillReservedForFasterNodes

subsection \<open>Speed and leases\<close>

definition mcu_per_second :: "node_capabilities \<Rightarrow> real option" where
  "mcu_per_second caps =
     (if cp_cpu_benchmark_score caps = 0 then None
      else let ops_per_second = f_mul (f_of_nat (cp_cpu_benchmark_score caps)) (f_of_nat (trial_division_ops BENCHMARK_LIMIT));
               rate = f_div ops_per_second (f_of_nat REFERENCE_OPS_PER_MCU)
           in if rate > 0 then Some rate else None)"

definition predicted_seconds :: "node_capabilities \<Rightarrow> int \<Rightarrow> real option" where
  "predicted_seconds caps reward_mcu =
     map_option (\<lambda>rate. f_div (f_of_int (max reward_mcu 0)) rate) (mcu_per_second caps)"

definition lease_seconds_for :: "node_capabilities \<Rightarrow> int \<Rightarrow> int" where
  "lease_seconds_for caps reward_mcu =
     (case predicted_seconds caps reward_mcu of
        None \<Rightarrow> DEFAULT_LEASE_SECONDS
      | Some seconds \<Rightarrow>
          let wanted = of_int \<lceil>f_mul seconds LEASE_HEADROOM\<rceil>
          in max DEFAULT_LEASE_SECONDS (min MAX_LEASE_SECONDS (as_i64 wanted)))"

definition round_trip_seconds :: "node_capabilities \<Rightarrow> real option" where
  "round_trip_seconds caps =
     (if cp_coordinator_latency_micros caps > 0 then Some (f_div (f_of_nat (cp_coordinator_latency_micros caps)) 1000000)
      else None)"

definition standing :: "(real \<Rightarrow> real \<Rightarrow> real) \<Rightarrow> reputation \<Rightarrow> real" where
  "standing powf rep =
     (let acceptance = f_div (f_add (f_of_nat (re_accepted rep)) 1) (f_add (f_of_nat (re_accepted rep + re_rejected rep)) 2);
          trust = f_clamp 0 1 (f_div (f_sub 1 (audit_rate powf rep)) (f_sub 1 FLOOR_AUDIT_RATE))
      in f_clamp 0 1 (f_add (f_mul (1 / 2) trust) (f_mul (1 / 2) acceptance)))"

subsection \<open>The axes\<close>

definition scarcity :: "worker_profile \<Rightarrow> shard_candidate \<Rightarrow> real" where
  "scarcity worker cand =
     (let caps = wp_caps worker;
          memory = (if sc_memory_bytes cand = 0 \<or> cp_shared_memory_bytes caps = 0 then UNKNOWN
            else f_clamp 0 1 (f_div (f_of_nat (sc_memory_bytes cand)) (f_of_nat (cp_shared_memory_bytes caps))))
      in if sc_required_manifests cand = [] \<and> cp_shared_gpu_percent caps > 0 \<and> cp_gpus caps \<noteq> []
         then f_mul memory (1 / 2) else memory)"

text \<open>The parts are summed from the left, starting at zero, and divided by their number.\<close>

definition locality :: "worker_profile \<Rightarrow> shard_candidate \<Rightarrow> real" where
  "locality worker cand =
     (let job_affinity = f_sub 1 (f_div 1 (f_add 1 (f_of_nat (sc_shards_done_here cand))));
          near = (case sc_nearest_done_shard cand of
              None \<Rightarrow> []
            | Some d \<Rightarrow> [f_div 1 (max (f_of_nat (nat \<bar>int (sc_shard_index cand) - int d\<bar>)) 1)]);
          held = (if sc_required_manifests cand = [] then []
            else [f_div (f_of_nat (length (filter (\<lambda>m. m \<in> set (cp_cached_model_manifests (wp_caps worker))) (sc_required_manifests cand))))
                   (f_of_nat (length (sc_required_manifests cand)))]);
          parts = job_affinity # near @ held
      in f_div (foldl f_add 0 parts) (f_of_nat (length parts)))"

definition network_axis :: "worker_profile \<Rightarrow> real option \<Rightarrow> string option \<Rightarrow> real" where
  "network_axis worker seconds coordinator_region =
     (let direct = (case (round_trip_seconds (wp_caps worker), seconds) of
            (Some rtt, Some work) \<Rightarrow> if f_add rtt work > 0 then f_div work (f_add rtt work) else UNKNOWN
          | _ \<Rightarrow> UNKNOWN)
      in case (coordinator_region, wp_region worker) of
           (Some here, Some there) \<Rightarrow> if here \<noteq> there then f_mul direct (3 / 4) else direct
         | _ \<Rightarrow> direct)"

definition starvation_bonus :: "int \<Rightarrow> shard_candidate \<Rightarrow> real" where
  "starvation_bonus now cand =
     f_mul (f_clamp 0 1 (f_div (f_of_int (max (now - sc_created_at cand) 0)) (f_of_int STARVATION_SECS))) STARVATION_WEIGHT"

definition MIN_POSITIVE :: real where "MIN_POSITIVE = 2 powi (- 1022)"

definition hardware_axis :: "real option \<Rightarrow> real" where
  "hardware_axis seconds =
     (case seconds of None \<Rightarrow> UNKNOWN | Some s \<Rightarrow> f_clamp 0 1 (f_sub 1 (f_div s (f_of_int DEFAULT_LEASE_SECONDS))))"

definition head_start :: "real \<Rightarrow> int" where
  "head_start hardware = max i64_min (min i64_max (f_round_away (f_mul (f_of_int HEAD_START_SECONDS) (f_sub 1 hardware))))"

definition reliability_axis :: "(real \<Rightarrow> real \<Rightarrow> real) \<Rightarrow> worker_profile \<Rightarrow> scale \<Rightarrow> shard_candidate \<Rightarrow> real" where
  "reliability_axis powf worker scale cand =
     (let st = standing powf (wp_reputation worker)
      in f_add st (f_mul (f_sub 1 st) (f_sub 1 (exposure scale cand))))"

definition weighted_mean :: "weights \<Rightarrow> real \<Rightarrow> real \<Rightarrow> real \<Rightarrow> real \<Rightarrow> real \<Rightarrow> real" where
  "weighted_mean w h n r l s =
     f_div (f_add (f_add (f_add (f_add (f_mul (wt_hardware w) h) (f_mul (wt_network w) n)) (f_mul (wt_reliability w) r))
              (f_mul (wt_locality w) l)) (f_mul (wt_scarcity w) s)) (max (weights_total w) MIN_POSITIVE)"

definition fit ::
  "(real \<Rightarrow> real \<Rightarrow> real) \<Rightarrow> worker_profile \<Rightarrow> shard_candidate \<Rightarrow> scale \<Rightarrow> int \<Rightarrow> string option \<Rightarrow> weights \<Rightarrow> unfit + fit" where
  "fit powf worker cand scale now coordinator_region w =
     (let caps = wp_caps worker; seconds = predicted_seconds caps (sc_reward_mcu cand); hardware = hardware_axis seconds in
      if cp_shared_logical_cpus caps = 0 then Inl NoSharedCpu
      else if cp_shared_memory_bytes caps < sc_memory_bytes cand then Inl NotEnoughMemory
      else if (case seconds of None \<Rightarrow> False | Some s \<Rightarrow> s > f_of_int MAX_LEASE_SECONDS) then Inl SlowerThanLease
      else if contended scale \<and> max i64_min (min i64_max (now - sc_created_at cand)) < head_start hardware
      then Inl StillReservedForFasterNodes
      else
        let network = network_axis worker seconds coordinator_region;
            reliability = reliability_axis powf worker scale cand;
            loc = locality worker cand; sca = scarcity worker cand;
            starvation = starvation_bonus now cand
        in Inr \<lparr> ft_hardware = hardware, ft_network = network, ft_reliability = reliability, ft_locality = loc,
                 ft_scarcity = sca, ft_starvation = starvation,
                 ft_total = f_add (weighted_mean w hardware network reliability loc sca) starvation \<rparr>)"

subsection \<open>The offer\<close>

definition best ::
  "(real \<Rightarrow> real \<Rightarrow> real) \<Rightarrow> worker_profile \<Rightarrow> shard_candidate list \<Rightarrow> int \<Rightarrow> string option \<Rightarrow> weights \<Rightarrow> nat \<Rightarrow> (shard_candidate \<times> fit) option" where
  "best powf worker candidates now coordinator_region w recent_pollers =
     (let scale = (scale_of candidates)\<lparr> sl_recent_pollers := recent_pollers \<rparr>
      in max_by (\<lambda>(lc, lf) (rc, rf). ft_total lf > ft_total rf \<or>
                   ft_total lf = ft_total rf \<and> sc_assignment_id rc > sc_assignment_id lc)
           (List.map_filter (\<lambda>cand. case fit powf worker cand scale now coordinator_region w of
               Inl _ \<Rightarrow> None | Inr f \<Rightarrow> Some (cand, f)) candidates))"

section \<open>Every axis is a fraction\<close>

definition unit_range :: "real \<Rightarrow> bool" where
  "unit_range x \<longleftrightarrow> 0 \<le> x \<and> x \<le> 1"

named_theorems unit_axes \<open>the axes of a fit lie in the unit interval\<close>

lemma unit_clamp [unit_axes]: "unit_range (f_clamp 0 1 x)"
  by (simp add: unit_range_def)

lemma unit_half [unit_axes]: "unit_range UNKNOWN" "unit_range (1 / 2)"
  by (simp_all add: unit_range_def UNKNOWN_def)

lemma unit_mul [unit_axes]: "unit_range x \<Longrightarrow> unit_range y \<Longrightarrow> unit_range (f_mul x y)"
  by (simp add: unit_range_def f_mul_def f_round_le_1 mult_le_one)

lemma unit_standing [unit_axes]: "unit_range (standing powf rep)"
  by (simp add: standing_def Let_def unit_clamp)

lemma unit_scarcity [unit_axes]: "unit_range (scarcity worker cand)"
  unfolding scarcity_def Let_def by (simp add: unit_axes)

lemma predicted_seconds_float:
  assumes "predicted_seconds caps m = Some s"
  shows "0 \<le> s" "f_round s = s"
  using assms by (auto simp: predicted_seconds_def f_div_def f_of_int_def mcu_per_second_def Let_def split: if_splits)

lemma unit_network [unit_axes]:
  assumes "seconds = predicted_seconds (wp_caps worker) m"
  shows "unit_range (network_axis worker seconds region)"
proof -
  have direct: "unit_range (f_div work (f_add rtt work))"
    if "round_trip_seconds (wp_caps worker) = Some rtt" "seconds = Some work" for rtt work
  proof -
    have work: "0 \<le> work" "f_round work = work"
      using predicted_seconds_float[of "wp_caps worker" m work] that(2) assms by simp_all
    have rtt: "0 \<le> rtt" using that(1) by (auto simp: round_trip_seconds_def f_div_def f_of_nat_def split: if_splits)
    have "work \<le> f_add rtt work" using f_round_mono[of work "rtt + work"] work rtt by (simp add: f_add_def)
    then show ?thesis using f_div_unit[OF work(1)] by (simp add: unit_range_def)
  qed
  have "unit_range (3 / 4)" by (simp add: unit_range_def)
  then show ?thesis using direct
    by (auto simp: network_axis_def Let_def unit_half unit_mul split: option.split)
qed

lemma unit_locality [unit_axes]: "unit_range (locality worker cand)"
proof -
  define aff where "aff = f_sub 1 (f_div 1 (f_add 1 (f_of_nat (sc_shards_done_here cand))))"
  define near where "near = (case sc_nearest_done_shard cand of None \<Rightarrow> []
    | Some d \<Rightarrow> [f_div 1 (max (f_of_nat (nat \<bar>int (sc_shard_index cand) - int d\<bar>)) 1)])"
  define held where "held = (if sc_required_manifests cand = [] then []
    else [f_div (f_of_nat (length (filter (\<lambda>m. m \<in> set (cp_cached_model_manifests (wp_caps worker))) (sc_required_manifests cand))))
           (f_of_nat (length (sc_required_manifests cand)))])"
  let ?parts = "aff # near @ held"
  have "1 \<le> f_add 1 (f_of_nat (sc_shards_done_here cand))"
    using f_round_mono[of 1 "1 + f_of_nat (sc_shards_done_here cand)"] by (simp add: f_add_def)
  then have "0 \<le> aff \<and> aff \<le> 1" using f_div_unit[of 1] by (simp add: aff_def f_complement)
  moreover have "0 \<le> x \<and> x \<le> 1" if "x \<in> set near" for x
    using that by (cases "sc_nearest_done_shard cand") (simp_all add: near_def f_div_unit)
  moreover have "0 \<le> x \<and> x \<le> 1" if "x \<in> set held" for x
    using that f_div_unit[OF f_of_nat_nonneg f_of_nat_mono[OF length_filter_le]] by (auto simp: held_def split: if_splits)
  ultimately have parts: "0 \<le> x \<and> x \<le> 1" if "x \<in> set ?parts" for x using that by auto
  have "length near \<le> 1" "length held \<le> 1" by (simp_all add: near_def held_def split: option.split)
  then have len: "length ?parts < 2 ^ 53" by simp
  then have sum: "0 \<le> foldl f_add 0 ?parts" "foldl f_add 0 ?parts \<le> f_of_nat (length ?parts)"
    using f_sum_bounds[of ?parts 0 0] parts by (auto simp: f_of_nat_exact)
  have "locality worker cand = f_div (foldl f_add 0 ?parts) (f_of_nat (length ?parts))"
    by (simp add: locality_def Let_def aff_def near_def held_def)
  then show ?thesis using f_div_unit[OF sum] by (simp add: unit_range_def)
qed

lemma unit_reliability [unit_axes]: "unit_range (reliability_axis powf worker scale cand)"
proof -
  define st x where "st = standing powf (wp_reputation worker)" and "x = exposure scale cand"
  have u: "unit_range st" "unit_range x" by (simp_all add: st_def x_def unit_axes exposure_def)
  then have c: "0 \<le> f_sub 1 st" "f_add st (f_sub 1 st) \<le> 1" "0 \<le> f_sub 1 x" "f_sub 1 x \<le> 1"
    using f_complement by (simp_all add: unit_range_def)
  have "f_mul (f_sub 1 st) (f_sub 1 x) \<le> f_sub 1 st"
    using f_mul_le[OF c(1,3,4)] by (simp add: f_sub_def)
  then have "f_add st (f_mul (f_sub 1 st) (f_sub 1 x)) \<le> f_add st (f_sub 1 st)" by (simp add: f_add_mono)
  then show ?thesis using c u
    by (simp add: reliability_axis_def Let_def unit_range_def f_add_nonneg f_mul_nonneg flip: st_def x_def)
qed

lemma unit_hardware [unit_axes]: "unit_range (hardware_axis seconds)"
  by (cases seconds) (simp_all add: hardware_axis_def unit_axes)

text \<open>Weights are floating-point numbers of at least zero.\<close>

definition weights_ok :: "weights \<Rightarrow> bool" where
  "weights_ok w \<longleftrightarrow> (\<forall>x\<in>{wt_hardware w, wt_network w, wt_reliability w, wt_locality w, wt_scarcity w}. 0 \<le> x \<and> f_round x = x)"

lemma default_weights_ok: "weights_ok default_weights"
  by (simp add: weights_ok_def default_weights_def)

lemma unit_weighted_mean:
  assumes "weights_ok w" "unit_range h" "unit_range n" "unit_range r" "unit_range l" "unit_range s"
  shows "unit_range (weighted_mean w h n r l s)"
proof -
  have le: "f_mul x y \<le> x" "0 \<le> f_mul x y" if "0 \<le> x" "f_round x = x" "unit_range y" for x y
    using f_mul_le[of x y] that by (simp_all add: unit_range_def f_mul_nonneg)
  let ?sum = "f_add (f_add (f_add (f_add (f_mul (wt_hardware w) h) (f_mul (wt_network w) n)) (f_mul (wt_reliability w) r))
              (f_mul (wt_locality w) l)) (f_mul (wt_scarcity w) s)"
  have "?sum \<le> weights_total w" unfolding weights_total_def
    using assms le by (intro f_add_mono) (simp_all add: weights_ok_def)
  moreover have "0 \<le> ?sum" using assms le by (intro f_add_nonneg) (simp_all add: weights_ok_def)
  ultimately show ?thesis unfolding weighted_mean_def unit_range_def by (intro f_div_unit) simp_all
qed


lemma starvation_bonus_bounds: "0 \<le> starvation_bonus now cand" "starvation_bonus now cand \<le> STARVATION_WEIGHT"
proof -
  have w: "f_round STARVATION_WEIGHT = STARVATION_WEIGHT"
    using f_round_exact[of 5 "- 2"] by (simp add: STARVATION_WEIGHT_def)
  let ?a = "f_clamp 0 1 (f_div (f_of_int (max (now - sc_created_at cand) 0)) (f_of_int STARVATION_SECS))"
  have "f_mul STARVATION_WEIGHT ?a \<le> f_round STARVATION_WEIGHT"
    by (rule f_mul_le) (simp_all add: STARVATION_WEIGHT_def)
  then show "0 \<le> starvation_bonus now cand" "starvation_bonus now cand \<le> STARVATION_WEIGHT"
    unfolding starvation_bonus_def w by (simp_all add: f_mul_def mult.commute) (simp add: STARVATION_WEIGHT_def)
qed

text \<open>The axes of an accepted fit, and its total.\<close>

lemma fit_accepted:
  assumes "fit powf worker cand scale now region w = Inr f"
  shows "ft_total f = f_add (weighted_mean w (ft_hardware f) (ft_network f) (ft_reliability f) (ft_locality f) (ft_scarcity f))
                        (starvation_bonus now cand)"
    and "unit_range (ft_hardware f)" "unit_range (ft_network f)" "unit_range (ft_reliability f)"
    and "unit_range (ft_locality f)" "unit_range (ft_scarcity f)" and "ft_starvation f = starvation_bonus now cand"
    and "\<And>s. predicted_seconds (wp_caps worker) (sc_reward_mcu cand) = Some s \<Longrightarrow> s \<le> f_of_int MAX_LEASE_SECONDS"
  using assms by (auto simp: fit_def Let_def unit_axes unit_network[OF refl] split: if_splits)

lemma fit_mean_unit:
  assumes "fit powf worker cand scale now region w = Inr f" "weights_ok w"
  shows "unit_range (weighted_mean w (ft_hardware f) (ft_network f) (ft_reliability f) (ft_locality f) (ft_scarcity f))"
  using unit_weighted_mean[OF assms(2)] fit_accepted[OF assms(1)] by blast


section \<open>The guarantees of the scheduler\<close>

text \<open>Scores are what the module says they are: every axis of an accepted fit is a fraction, the starvation bonus is
  at most its weight, and the total is between zero and one plus that weight, whatever the node advertises and however
  the sums round.\<close>

theorem fit_bounds:
  assumes "fit powf worker cand scale now region w = Inr f" "weights_ok w"
  shows "unit_range (ft_hardware f) \<and> unit_range (ft_network f) \<and> unit_range (ft_reliability f) \<and>
         unit_range (ft_locality f) \<and> unit_range (ft_scarcity f) \<and>
         0 \<le> ft_starvation f \<and> ft_starvation f \<le> STARVATION_WEIGHT \<and> 0 \<le> ft_total f \<and> ft_total f \<le> 1 + STARVATION_WEIGHT"
proof -
  note a = fit_accepted[OF assms(1)]
  let ?m = "weighted_mean w (ft_hardware f) (ft_network f) (ft_reliability f) (ft_locality f) (ft_scarcity f)"
  have m: "0 \<le> ?m" "?m \<le> 1" using fit_mean_unit[OF assms] by (simp_all add: unit_range_def)
  have "f_add ?m (starvation_bonus now cand) \<le> f_add 1 STARVATION_WEIGHT"
    by (rule f_add_mono[OF m(2) starvation_bonus_bounds(2)])
  also have "\<dots> = 1 + STARVATION_WEIGHT"
    using f_round_exact[of 9 "- 2"] by (simp add: f_add_def STARVATION_WEIGHT_def)
  finally have "ft_total f \<le> 1 + STARVATION_WEIGHT" by (simp add: a(1))
  moreover have "0 \<le> ft_total f" using m(1) starvation_bonus_bounds(1) by (simp add: a(1) f_add_nonneg)
  ultimately show ?thesis using a(2-7) starvation_bonus_bounds by simp
qed

lemma starved_bonus:
  assumes "STARVATION_SECS \<le> now - sc_created_at cand"
  shows "starvation_bonus now cand = STARVATION_WEIGHT"
proof -
  have "f_of_int STARVATION_SECS \<le> f_of_int (max (now - sc_created_at cand) 0)"
    by (rule f_of_int_mono) (use assms in simp)
  moreover have s: "f_of_int STARVATION_SECS = 300" using f_round_int[of 300] by (simp add: f_of_int_def STARVATION_SECS_def)
  ultimately have "1 \<le> f_of_int (max (now - sc_created_at cand) 0) / 300" by simp
  from f_round_mono[OF this] have "1 \<le> f_div (f_of_int (max (now - sc_created_at cand) 0)) 300" by (simp add: f_div_def)
  then have "f_clamp 0 1 (f_div (f_of_int (max (now - sc_created_at cand) 0)) (f_of_int STARVATION_SECS)) = 1"
    by (simp add: f_clamp_def s)
  then show ?thesis
    using f_round_exact[of 5 "- 2"] by (simp add: starvation_bonus_def f_mul_def STARVATION_WEIGHT_def)
qed

lemma fresh_bonus:
  assumes "now - sc_created_at cand < 60"
  shows "starvation_bonus now cand \<le> 255 / 1024"
proof -
  let ?w = "f_of_int (max (now - sc_created_at cand) 0)"
  have s: "f_of_int STARVATION_SECS = 300" "f_of_int 59 = 59"
    using f_round_int[of 300] f_round_int[of 59] by (simp_all add: f_of_int_def STARVATION_SECS_def)
  have "?w \<le> 59" unfolding s(2)[symmetric] by (rule f_of_int_mono) (use assms in simp)
  then have "?w / 300 \<le> of_int 51 * 2 powi (- 8)" by simp
  from f_round_le[OF this] have d: "f_div ?w 300 \<le> 51 / 256" by (simp add: f_div_def)
  have "0 \<le> ?w" by (simp add: f_of_int_def)
  then have "f_clamp 0 1 (f_div ?w 300) \<le> 51 / 256" using d by (simp add: f_clamp_def)
  then have "f_clamp 0 1 (f_div ?w 300) * (5 / 4) \<le> of_int 255 * 2 powi (- 10)" by simp
  from f_round_le[OF this] show ?thesis
    by (simp add: starvation_bonus_def f_mul_def STARVATION_WEIGHT_def s)
qed

lemma starved_outranks_fresh:
  assumes "fit powf worker x scale now region w = Inr f" "fit powf worker y scale now region w = Inr g" "weights_ok w"
    and "STARVATION_SECS \<le> now - sc_created_at x" "now - sc_created_at y < 60"
  shows "ft_total g < ft_total f"
proof -
  let ?m = "\<lambda>f. weighted_mean w (ft_hardware f) (ft_network f) (ft_reliability f) (ft_locality f) (ft_scarcity f)"
  have m: "0 \<le> ?m f" "?m g \<le> 1" using fit_mean_unit[OF assms(1,3)] fit_mean_unit[OF assms(2,3)] by (simp_all add: unit_range_def)
  have "?m g + starvation_bonus now y \<le> of_int 1279 * 2 powi (- 10)" using m(2) fresh_bonus[OF assms(5)] by simp
  from f_round_le[OF this] have "ft_total g \<le> 1279 / 1024" by (simp add: fit_accepted(1)[OF assms(2)] f_add_def)
  moreover have "of_int 5 * 2 powi (- 2) \<le> ?m f + starvation_bonus now x"
    using m(1) starved_bonus[OF assms(4)] by (simp add: STARVATION_WEIGHT_def)
  from f_round_ge[OF this] have "5 / 4 \<le> ft_total f" by (simp add: fit_accepted(1)[OF assms(1)] f_add_def)
  ultimately show ?thesis by simp
qed


text \<open>The offer is a candidate that fits, and no candidate that fits scores higher.\<close>

lemma best_some:
  assumes "best powf worker candidates now region w pollers = Some (cand, f)"
  shows "cand \<in> set candidates"
    and "fit powf worker cand ((scale_of candidates)\<lparr> sl_recent_pollers := pollers \<rparr>) now region w = Inr f"
    and "\<And>y g. y \<in> set candidates \<Longrightarrow>
       fit powf worker y ((scale_of candidates)\<lparr> sl_recent_pollers := pollers \<rparr>) now region w = Inr g \<Longrightarrow> ft_total g \<le> ft_total f"
proof -
  let ?fit = "\<lambda>cand. fit powf worker cand ((scale_of candidates)\<lparr> sl_recent_pollers := pollers \<rparr>) now region w"
  let ?beats = "\<lambda>(lc, lf) (rc, rf). ft_total lf > ft_total rf \<or> ft_total lf = ft_total rf \<and> sc_assignment_id rc > sc_assignment_id lc"
  define xs where "xs = List.map_filter (\<lambda>cand. case ?fit cand of Inl _ \<Rightarrow> None | Inr f \<Rightarrow> Some (cand, f)) candidates"
  have best: "max_by ?beats xs = Some (cand, f)" using assms by (simp add: best_def Let_def xs_def)
  have mem: "(c, g) \<in> set xs \<longleftrightarrow> c \<in> set candidates \<and> ?fit c = Inr g" for c g
    proof -
    have split: "(case r of Inl _ \<Rightarrow> None | Inr f \<Rightarrow> Some (x, f)) = Some (c, g) \<longleftrightarrow> x = c \<and> r = Inr g" for r :: "unfit + fit" and x
      by (cases r) auto
    show ?thesis by (auto simp: xs_def in_map_filter split)
  qed
  from max_by_in[OF best] show "cand \<in> set candidates" "?fit cand = Inr f" by (simp_all add: mem)
  obtain z zs where xs: "xs = z # zs" using best by (cases xs) auto
  have unbeaten: "\<forall>y\<in>set (z # zs). \<not> ?beats y (foldl (\<lambda>best y. if ?beats best y then best else y) z zs)"
    by (rule foldl_max_unbeaten) (auto intro!: transp_onI asymp_onI)
  show "ft_total g \<le> ft_total f" if "y \<in> set candidates" "?fit y = Inr g" for y g
    using unbeaten best that mem[of y g] unfolding xs by (auto simp: not_less)
qed

text \<open>C25. Waiting is bounded by age.  When a shard that has waited out the starvation window fits the node that asks,
  the shard offered has itself waited for at least a minute: no fresher shard is preferred, however well it fits.\<close>

theorem starved_shard_is_served:
  assumes "best powf worker candidates now region w pollers = Some (chosen, f)" "weights_ok w"
    and "x \<in> set candidates" "STARVATION_SECS \<le> now - sc_created_at x"
    and "fit powf worker x ((scale_of candidates)\<lparr> sl_recent_pollers := pollers \<rparr>) now region w = Inr g"
  shows "60 \<le> now - sc_created_at chosen"
proof (rule ccontr)
  assume "\<not> 60 \<le> now - sc_created_at chosen"
  then have "ft_total f < ft_total g"
    using starved_outranks_fresh[OF assms(5) best_some(2)[OF assms(1)] assms(2,4)] by simp
  then show False using best_some(3)[OF assms(1,3,5)] by simp
qed

text \<open>A lease covers the work it is granted for.  A node is never offered a shard that its own benchmark says it
  cannot finish within the lease it is given, and every lease is between the default and the ceiling.\<close>

theorem lease_covers_prediction:
  assumes "best powf worker candidates now region w pollers = Some (chosen, f)"
    and "lease = lease_seconds_for (wp_caps worker) (sc_reward_mcu chosen)"
  shows "DEFAULT_LEASE_SECONDS \<le> lease \<and> lease \<le> MAX_LEASE_SECONDS \<and>
         (\<forall>s. predicted_seconds (wp_caps worker) (sc_reward_mcu chosen) = Some s \<longrightarrow> s \<le> of_int lease)"
proof (intro conjI allI impI)
  have d: "DEFAULT_LEASE_SECONDS \<le> MAX_LEASE_SECONDS" by (simp add: DEFAULT_LEASE_SECONDS_def MAX_LEASE_SECONDS_def)
  then show "DEFAULT_LEASE_SECONDS \<le> lease" "lease \<le> MAX_LEASE_SECONDS"
    by (simp_all add: assms(2) lease_seconds_for_def Let_def split: option.split)
  fix s assume s: "predicted_seconds (wp_caps worker) (sc_reward_mcu chosen) = Some s"
  have m: "f_of_int MAX_LEASE_SECONDS = of_int MAX_LEASE_SECONDS"
    unfolding f_of_int_def by (rule f_round_int) (simp add: MAX_LEASE_SECONDS_def DEFAULT_LEASE_SECONDS_def)
  have le: "s \<le> of_int MAX_LEASE_SECONDS"
    using fit_accepted(8)[OF best_some(2)[OF assms(1)] s] by (simp add: m)
  note fl = predicted_seconds_float[OF s]
  have "s \<le> f_mul s LEASE_HEADROOM"
    using f_round_mono[of s "s * LEASE_HEADROOM"] fl by (simp add: f_mul_def LEASE_HEADROOM_def)
  then have "s \<le> of_int \<lceil>f_mul s LEASE_HEADROOM\<rceil>" by linarith
  then have "s \<le> of_int (min MAX_LEASE_SECONDS (as_i64 (of_int \<lceil>f_mul s LEASE_HEADROOM\<rceil>)))"
    using le f_mul_nonneg[OF fl(1), of LEASE_HEADROOM] by (auto simp: LEASE_HEADROOM_def as_i64_def min_def max_def rust_int MAX_LEASE_SECONDS_def DEFAULT_LEASE_SECONDS_def)
  then show "s \<le> of_int lease"
    unfolding assms(2) lease_seconds_for_def s Let_def option.case by (simp only: of_int_max le_max_iff_disj) blast
qed


section \<open>Two shards and a node\<close>

text \<open>A node that has measured nothing and has no record, and shards of one job that need no memory.\<close>

definition demo_caps :: node_capabilities where
  "demo_caps =
     \<lparr> cp_protocol_version = 1, cp_hostname = [], cp_os = [], cp_arch = [], cp_cpu_brand = [], cp_logical_cpus = 1,
       cp_total_memory_bytes = 0, cp_cpu_benchmark_score = 0, cp_memory_bandwidth_bytes_per_second = None, cp_gpus = [],
       cp_model_seed_url = None, cp_cached_model_manifests = [], cp_coordinator_latency_micros = 0,
       cp_model_bandwidth_kbps = 0, cp_load_permille = 0, cp_ai_runtime_ready = False, cp_shared_logical_cpus = 1,
       cp_shared_memory_bytes = 2 ^ 30, cp_shared_gpu_percent = 0, cp_network_coordinate = None, cp_probe_endpoint = None \<rparr>"

definition demo_worker :: worker_profile where
  "demo_worker = \<lparr> wp_node_id = ''w'', wp_region = None, wp_caps = demo_caps, wp_reputation = new_reputation \<rparr>"

definition demo_shard :: "string \<Rightarrow> int \<Rightarrow> nat option \<Rightarrow> shard_candidate" where
  "demo_shard aid created warm =
     \<lparr> sc_assignment_id = aid, sc_job_id = ''j'', sc_shard_index = 0, sc_reward_mcu = 10, sc_memory_bytes = 0,
       sc_created_at = created, sc_shards_done_here = (case warm of None \<Rightarrow> 0 | Some _ \<Rightarrow> 1), sc_nearest_done_shard = warm,
       sc_required_manifests = [] \<rparr>"

lemma dyadic [simp]:
  "f_round (1 / 2) = 1 / 2" "f_round (1 / 4) = 1 / 4" "f_round (3 / 4) = 3 / 4" "f_round (3 / 2) = 3 / 2"
  "f_round 2 = 2" "f_round 10 = 10"
  using f_round_exact[of 1 "- 1"] f_round_exact[of 1 "- 2"] f_round_exact[of 3 "- 2"] f_round_exact[of 3 "- 1"]
    f_round_int[of 2] f_round_int[of 10] by simp_all

lemma demo_fit:
  assumes "powf_ok powf" "sl_max_reward_mcu scale = 10" "\<not> contended scale" "warm = None \<or> warm = Some 1"
    and "l = (if warm = None then 0 else 3 / 4)"
  shows "fit powf demo_worker (demo_shard aid created warm) scale now None w =
     Inr \<lparr> ft_hardware = 1 / 2, ft_network = 1 / 2, ft_reliability = 1 / 4, ft_locality = l, ft_scarcity = 1 / 2,
           ft_starvation = starvation_bonus now (demo_shard aid created warm),
           ft_total = f_add (weighted_mean w (1 / 2) (1 / 2) (1 / 4) l (1 / 2)) (starvation_bonus now (demo_shard aid created warm)) \<rparr>"
proof -
  have st: "standing powf (wp_reputation demo_worker) = 1 / 4"
    using audit_rate_full[OF assms(1), of new_reputation]
    by (simp add: standing_def demo_worker_def new_reputation_def f_of_nat_def f_add_def f_div_def f_mul_def f_sub_def f_clamp_def)
  have x: "exposure scale (demo_shard aid created warm) = 1"
    using assms(2) by (simp add: exposure_def demo_shard_def f_of_int_def f_div_def f_clamp_def)
  have l: "locality demo_worker (demo_shard aid created warm) = l"
    using assms(4,5) by (auto simp: locality_def demo_shard_def f_of_nat_def f_add_def f_div_def f_sub_def Let_def)
  have p: "predicted_seconds demo_caps m = None" for m by (simp add: predicted_seconds_def mcu_per_second_def demo_caps_def)
  have n: "network_axis demo_worker None None = 1 / 2" by (simp add: network_axis_def UNKNOWN_def split: option.split)
  have s: "scarcity demo_worker (demo_shard aid created warm) = 1 / 2"
    by (simp add: scarcity_def demo_worker_def demo_caps_def demo_shard_def UNKNOWN_def)
  have r: "reliability_axis powf demo_worker scale (demo_shard aid created warm) = 1 / 4"
    by (simp add: reliability_axis_def st x f_sub_def f_mul_def f_add_def)
  have caps: "wp_caps demo_worker = demo_caps" "cp_shared_logical_cpus demo_caps = 1"
    "cp_shared_memory_bytes demo_caps = 2 ^ 30" "sc_memory_bytes (demo_shard aid created warm) = 0"
    by (simp_all add: demo_worker_def demo_caps_def demo_shard_def)
  show ?thesis using assms(3) by (simp add: fit_def caps p n s r l hardware_axis_def UNKNOWN_def Let_def)
qed

text \<open>The default weights lie between neighbouring multiples of \<open>1 / 1024\<close>.\<close>

lemma weight_bounds:
  "225 / 1024 \<le> f_round (22 / 100)" "f_round (22 / 100) \<le> 226 / 1024"
  "184 / 1024 \<le> f_round (18 / 100)" "f_round (18 / 100) \<le> 185 / 1024"
  "286 / 1024 \<le> f_round (28 / 100)" "f_round (28 / 100) \<le> 287 / 1024"
  "102 / 1024 \<le> f_round (10 / 100)" "f_round (10 / 100) \<le> 103 / 1024"
  using f_round_ge[of 225 "- 10" "22 / 100"] f_round_le[of "22 / 100" 226 "- 10"] f_round_ge[of 184 "- 10" "18 / 100"]
    f_round_le[of "18 / 100" 185 "- 10"] f_round_ge[of 286 "- 10" "28 / 100"] f_round_le[of "28 / 100" 287 "- 10"]
    f_round_ge[of 102 "- 10" "10 / 100"] f_round_le[of "10 / 100" 103 "- 10"] by simp_all


lemma up: "x \<le> real_of_int m / 4096 \<Longrightarrow> \<bar>m\<bar> < 2 ^ 53 \<Longrightarrow> f_round x \<le> real_of_int m / 4096"
  using f_round_le[of x m "- 12"] by simp

lemma down: "real_of_int m / 4096 \<le> x \<Longrightarrow> \<bar>m\<bar> < 2 ^ 53 \<Longrightarrow> real_of_int m / 4096 \<le> f_round x"
  using f_round_ge[of m "- 12" x] by simp

lemma default_total: "4088 / 4096 \<le> weights_total default_weights" "weights_total default_weights \<le> 4108 / 4096"
proof -
  let ?h = "f_round (22 / 100)" and ?n = "f_round (18 / 100)" and ?l = "f_round (28 / 100)" and ?s = "f_round (10 / 100)"
  have a: "f_round (?h + ?n) \<le> 1644 / 4096" "1636 / 4096 \<le> f_round (?h + ?n)"
    using up[of "?h + ?n" 1644] down[of 1636 "?h + ?n"] weight_bounds by simp_all
  have b: "f_round (f_round (?h + ?n) + ?h) \<le> 2548 / 4096" "2536 / 4096 \<le> f_round (f_round (?h + ?n) + ?h)"
    using up[of "f_round (?h + ?n) + ?h" 2548] down[of 2536 "f_round (?h + ?n) + ?h"] weight_bounds a by simp_all
  have c: "f_round (f_round (f_round (?h + ?n) + ?h) + ?l) \<le> 3696 / 4096" "3680 / 4096 \<le> f_round (f_round (f_round (?h + ?n) + ?h) + ?l)"
    using up[of "f_round (f_round (?h + ?n) + ?h) + ?l" 3696] down[of 3680 "f_round (f_round (?h + ?n) + ?h) + ?l"] weight_bounds b by simp_all
  show "4088 / 4096 \<le> weights_total default_weights" "weights_total default_weights \<le> 4108 / 4096"
    using up[of "f_round (f_round (f_round (?h + ?n) + ?h) + ?l) + ?s" 4108] down[of 4088 "f_round (f_round (f_round (?h + ?n) + ?h) + ?l) + ?s"]
      weight_bounds c by (simp_all add: weights_total_def default_weights_def f_add_def)
qed

lemma demo_sum:
  defines "A \<equiv> f_add (f_add (f_mul (wt_hardware default_weights) (1 / 2)) (f_mul (wt_network default_weights) (1 / 2)))
                  (f_mul (wt_reliability default_weights) (1 / 4))"
  shows "1043 / 4096 \<le> A" "A \<le> 1048 / 4096"
    "f_mul (wt_locality default_weights) (3 / 4) \<ge> 858 / 4096" "f_mul (wt_scarcity default_weights) (1 / 2) \<ge> 204 / 4096"
    "f_mul (wt_scarcity default_weights) (1 / 2) \<le> 206 / 4096"
proof -
  let ?h = "f_round (22 / 100)" and ?n = "f_round (18 / 100)" and ?l = "f_round (28 / 100)" and ?s = "f_round (10 / 100)"
  have p: "f_round (?h / 2) \<le> 452 / 4096" "450 / 4096 \<le> f_round (?h / 2)" "f_round (?n / 2) \<le> 370 / 4096"
     "368 / 4096 \<le> f_round (?n / 2)" "f_round (?h / 4) \<le> 226 / 4096" "225 / 4096 \<le> f_round (?h / 4)"
    using up[of "?h / 2" 452] down[of 450 "?h / 2"] up[of "?n / 2" 370] down[of 368 "?n / 2"] up[of "?h / 4" 226] down[of 225 "?h / 4"]
      weight_bounds by simp_all
  have a: "f_round (f_round (?h / 2) + f_round (?n / 2)) \<le> 822 / 4096" "818 / 4096 \<le> f_round (f_round (?h / 2) + f_round (?n / 2))"
    using up[of "f_round (?h / 2) + f_round (?n / 2)" 822] down[of 818 "f_round (?h / 2) + f_round (?n / 2)"] p by simp_all
  show "1043 / 4096 \<le> A" "A \<le> 1048 / 4096"
    using up[of "f_round (f_round (?h / 2) + f_round (?n / 2)) + f_round (?h / 4)" 1048]
      down[of 1043 "f_round (f_round (?h / 2) + f_round (?n / 2)) + f_round (?h / 4)"] p a
    by (simp_all add: A_def default_weights_def f_add_def f_mul_def)
  show "f_mul (wt_locality default_weights) (3 / 4) \<ge> 858 / 4096" "f_mul (wt_scarcity default_weights) (1 / 2) \<ge> 204 / 4096"
    "f_mul (wt_scarcity default_weights) (1 / 2) \<le> 206 / 4096"
    using down[of 858 "?l * (3 / 4)"] down[of 204 "?s * (1 / 2)"] up[of "?s * (1 / 2)" 206] weight_bounds
    by (simp_all add: default_weights_def f_mul_def)
qed

lemma demo_means:
  "weighted_mean default_weights (1 / 2) (1 / 2) (1 / 4) 0 (1 / 2) \<le> 1280 / 4096"
  "2048 / 4096 \<le> weighted_mean default_weights (1 / 2) (1 / 2) (1 / 4) (3 / 4) (1 / 2)"
proof -
  let ?A = "f_add (f_add (f_mul (wt_hardware default_weights) (1 / 2)) (f_mul (wt_network default_weights) (1 / 2)))
                  (f_mul (wt_reliability default_weights) (1 / 4))"
  let ?s = "f_mul (wt_scarcity default_weights) (1 / 2)" and ?l = "f_mul (wt_locality default_weights) (3 / 4)"
  define t where "t = max (weights_total default_weights) MIN_POSITIVE"
  have "MIN_POSITIVE \<le> 2 powi 0" unfolding MIN_POSITIVE_def by (rule power_int_increasing) simp_all
  then have t: "4088 / 4096 \<le> t" "t \<le> 4108 / 4096" using default_total by (auto simp: t_def)
  have "f_add (f_add ?A 0) ?s \<le> 1254 / 4096"
    using up[of "?A" 1048] up[of "f_add ?A 0 + ?s" 1254] demo_sum by (simp add: f_add_def)
  then have "f_add (f_add ?A 0) ?s / t \<le> 1280 / 4096" using t by (simp add: divide_le_eq)
  from up[of _ 1280] this show "weighted_mean default_weights (1 / 2) (1 / 2) (1 / 4) 0 (1 / 2) \<le> 1280 / 4096"
    by (simp add: weighted_mean_def f_div_def f_mul_def[of _ 0] flip: t_def)
  have "1901 / 4096 \<le> f_add ?A ?l" using down[of 1901 "?A + ?l"] demo_sum by (simp add: f_add_def)
  then have "2105 / 4096 \<le> f_add (f_add ?A ?l) ?s"
    using down[of 2105 "f_add ?A ?l + ?s"] demo_sum by (simp add: f_add_def[of "f_add ?A ?l"])
  then have "2048 / 4096 \<le> f_add (f_add ?A ?l) ?s / t" using t by (simp add: le_divide_eq)
  from down[of 2048, OF _] this show "2048 / 4096 \<le> weighted_mean default_weights (1 / 2) (1 / 2) (1 / 4) (3 / 4) (1 / 2)"
    by (simp add: weighted_mean_def f_div_def flip: t_def)
qed


text \<open>A cold shard that has waited out the window, and a warm one that has waited thirty seconds less.\<close>

lemma demo_scale:
  "sl_max_reward_mcu ((scale_of [demo_shard a t1 w1, demo_shard b t2 w2])\<lparr> sl_recent_pollers := 0 \<rparr>) = 10"
  "\<not> contended ((scale_of [demo_shard a t1 w1, demo_shard b t2 w2])\<lparr> sl_recent_pollers := 0 \<rparr>)"
  by (simp_all add: scale_of_def contended_def demo_shard_def)

lemma demo_starved_total: "f_add (weighted_mean default_weights (1 / 2) (1 / 2) (1 / 4) 0 (1 / 2)) STARVATION_WEIGHT \<le> 6400 / 4096"
  using up[of "weighted_mean default_weights (1 / 2) (1 / 2) (1 / 4) 0 (1 / 2) + STARVATION_WEIGHT" 6400] demo_means(1)
  by (simp add: f_add_def STARVATION_WEIGHT_def)

lemma demo_warm_total:
  assumes "270 \<le> now - created"
  shows "6608 / 4096 \<le> f_add (weighted_mean default_weights (1 / 2) (1 / 2) (1 / 4) (3 / 4) (1 / 2))
           (starvation_bonus now (demo_shard aid created warm))"
proof -
  let ?w = "f_of_int (max (now - created) 0)"
  have s: "f_of_int STARVATION_SECS = 300" "f_of_int 270 = 270"
    using f_round_int[of 300] f_round_int[of 270] by (simp_all add: f_of_int_def STARVATION_SECS_def)
  have "270 \<le> ?w" unfolding s(2)[symmetric] by (rule f_of_int_mono) (use assms in simp)
  then have "57 / 64 \<le> f_div ?w 300" using down[of 3648 "?w / 300"] by (simp add: f_div_def)
  then have "57 / 64 \<le> f_clamp 0 1 (f_div ?w 300)" by (simp add: f_clamp_def)
  then have "4560 / 4096 \<le> starvation_bonus now (demo_shard aid created warm)"
    using down[of 4560 "f_clamp 0 1 (f_div ?w 300) * (5 / 4)"]
    by (simp add: starvation_bonus_def f_mul_def STARVATION_WEIGHT_def s demo_shard_def)
  then show ?thesis
    using down[of 6608 "weighted_mean default_weights (1 / 2) (1 / 2) (1 / 4) (3 / 4) (1 / 2) + starvation_bonus now (demo_shard aid created warm)"]
      demo_means(2) by (simp add: f_add_def)
qed

lemma demo_best:
  assumes "powf_ok powf"
  shows "\<exists>f. best powf demo_worker [demo_shard ''starved'' 0 None, demo_shard ''warm'' 30 (Some 1)] 300 None default_weights 0
           = Some (demo_shard ''warm'' 30 (Some 1), f)"
proof -
  let ?s = "demo_shard ''starved'' 0 None" and ?o = "demo_shard ''warm'' 30 (Some 1)"
  let ?scale = "(scale_of [?s, ?o])\<lparr> sl_recent_pollers := 0 \<rparr>"
  have b: "starvation_bonus 300 ?s = STARVATION_WEIGHT"
    by (rule starved_bonus) (simp add: STARVATION_SECS_def demo_shard_def)
  obtain fs where s: "fit powf demo_worker ?s ?scale 300 None default_weights = Inr fs" "ft_total fs \<le> 6400 / 4096"
    using demo_starved_total demo_fit[OF assms demo_scale disjI1[OF refl], of 0] by (simp add: b)
  obtain fo where o': "fit powf demo_worker ?o ?scale 300 None default_weights = Inr fo" "6608 / 4096 \<le> ft_total fo"
    using demo_warm_total[of 300 30 "''warm''" "Some 1"] demo_fit[OF assms demo_scale disjI2[OF refl], of "3 / 4"] by simp
  have "ft_total fs < ft_total fo" using s(2) o'(2) by simp
  then show ?thesis using s(1) o'(1) by (simp add: best_def map_filter_simps)
qed

text \<open>A starved shard can be passed over.  The documentation says that a shard that has waited out the starvation
  window strictly outranks every candidate that has not; the bonus grows linearly over the window, so a candidate that
  has waited ninety percent of it and fits better is offered instead.\<close>

theorem starved_shard_outranked:
  assumes "powf_ok powf"
  shows "\<exists>f. best powf demo_worker [demo_shard ''starved'' 0 None, demo_shard ''warm'' 30 (Some 1)] 300 None default_weights 0
           = Some (demo_shard ''warm'' 30 (Some 1), f)"
  using assms by (rule demo_best)

section \<open>Witnesses\<close>

lemma demo_warm_fit:
  "powf_ok powf \<Longrightarrow> \<exists>f. fit powf demo_worker (demo_shard ''warm'' 30 (Some 1))
     ((scale_of [demo_shard ''starved'' 0 None, demo_shard ''warm'' 30 (Some 1)])\<lparr> sl_recent_pollers := 0 \<rparr>) 300 None default_weights = Inr f"
  by (subst demo_fit[OF _ demo_scale, where l = "3 / 4"]) simp_all

abbreviation platform_powf :: "real \<Rightarrow> real \<Rightarrow> real" where
  "platform_powf x y \<equiv> (if y = 0 then 1 else x powr y)"

theorem starved_shard_outranked_witness:
  "\<exists>f. best (\<lambda>x y. platform_powf x y) demo_worker [demo_shard ''starved'' 0 None, demo_shard ''warm'' 30 (Some 1)] 300 None default_weights 0
         = Some (demo_shard ''warm'' 30 (Some 1), f)"
  by (rule starved_shard_outranked[OF powr_ok])


theorem fit_bounds_witness:
  "\<exists>f. fit (\<lambda>x y. platform_powf x y) demo_worker (demo_shard ''warm'' 30 (Some 1))
         ((scale_of [demo_shard ''starved'' 0 None, demo_shard ''warm'' 30 (Some 1)])\<lparr> sl_recent_pollers := 0 \<rparr>) 300 None default_weights = Inr f \<and>
       0 \<le> ft_total f \<and> ft_total f \<le> 1 + STARVATION_WEIGHT"
  using demo_warm_fit[OF powr_ok] fit_bounds[OF _ default_weights_ok] by blast

theorem starved_shard_is_served_witness:
  "\<exists>chosen f. best (\<lambda>x y. platform_powf x y) demo_worker [demo_shard ''starved'' 0 None, demo_shard ''warm'' 30 (Some 1)] 300 None default_weights 0
         = Some (chosen, f) \<and> 60 \<le> 300 - sc_created_at chosen"
proof -
  obtain f where b: "best (\<lambda>x y. platform_powf x y) demo_worker [demo_shard ''starved'' 0 None, demo_shard ''warm'' 30 (Some 1)] 300 None default_weights 0
       = Some (demo_shard ''warm'' 30 (Some 1), f)" using demo_best[OF powr_ok] by blast
  have w: "STARVATION_SECS \<le> 300 - sc_created_at (demo_shard ''starved'' 0 None)"
    by (simp add: STARVATION_SECS_def demo_shard_def)
  obtain g where g: "fit (\<lambda>x y. platform_powf x y) demo_worker (demo_shard ''starved'' 0 None)
       ((scale_of [demo_shard ''starved'' 0 None, demo_shard ''warm'' 30 (Some 1)])\<lparr> sl_recent_pollers := 0 \<rparr>) 300 None default_weights = Inr g"
    using demo_fit[OF powr_ok demo_scale disjI1[OF refl], of 0] by simp
  from starved_shard_is_served[OF b default_weights_ok _ w g] b show ?thesis by force
qed

theorem lease_covers_prediction_witness:
  "\<exists>chosen f. best (\<lambda>x y. platform_powf x y) demo_worker [demo_shard ''starved'' 0 None, demo_shard ''warm'' 30 (Some 1)] 300 None default_weights 0
         = Some (chosen, f) \<and> DEFAULT_LEASE_SECONDS \<le> lease_seconds_for (wp_caps demo_worker) (sc_reward_mcu chosen)"
  using demo_best[OF powr_ok] lease_covers_prediction[OF _ refl] by blast

end
