(* ===== verification/Jobs.thy ===== *)
theory Jobs
  imports Federation Schedule
begin

text \<open>
  The work a coordinator hands out (\<open>hocmesh-coordinator/src/api.rs\<close> and the reconciliation of \<open>main.rs\<close>):
  registering, submitting a job, polling for a shard, reporting its result, reclaiming its escrow, and
  finishing what a crash left half done.

  A handler takes a connection, uses it, gives it back, and may wait for the validators before it takes the next one:
  between two such stretches other requests run.  Every stretch is a definition of its own, a function from the tables
  to the tables and a result; a handler is their composition, and an interleaving of requests is a sequence of
  stretches.  The clock, the audit nonce, the answer of the validators and the platform's \<open>powf\<close> are arguments.  Clock readings within one stretch agree; the two readings of an authentication, which
  decide about replays, are kept apart.
\<close>

section \<open>Definitions\<close>

datatype api_error =
    UnsupportedVersion | NotRegistered | AuthRefused auth_error | ReplayedNonce | UnknownAssignment | NotLeasedHere
  | MetadataMismatch | VerificationFailed | ChangedMeanwhile | LedgerPending | NoBalanceRecord | UnknownNode
  | QuorumUnavailable | NothingReclaimable string | WindowOpen | CommunityEscrow | NeedsSignature | ForeignEscrow
  | LedgerRefused | BadWork work_error | BadShards | SubmitUsed | InsufficientCredit | InternalError | UnknownJob

type_synonym 'a step = "coordinator \<times> (api_error + 'a)"

definition bind_step :: "'a step \<Rightarrow> ('a \<Rightarrow> coordinator \<Rightarrow> 'b step) \<Rightarrow> 'b step" where
  "bind_step r k = (case r of (co, Inl e) \<Rightarrow> (co, Inl e) | (co, Inr v) \<Rightarrow> k v co)"

text \<open>A SQL transaction: an error rolls it back.\<close>

definition transaction :: "coordinator \<Rightarrow> api_error + coordinator \<times> 'a \<Rightarrow> 'a step" where
  "transaction co r = (case r of Inl e \<Rightarrow> (co, Inl e) | Inr (co', v) \<Rightarrow> (co', Inr v))"

subsection \<open>Authentication\<close>

definition live_nonces :: "int \<Rightarrow> (string \<times> string, int) fmap \<Rightarrow> (string \<times> string, int) fmap" where
  "live_nonces now m = fmfilter (\<lambda>k. case fmlookup m k of None \<Rightarrow> False | Some expires \<Rightarrow> \<not> expires < now) m"

definition consume_nonce :: "int \<Rightarrow> auth_proof \<Rightarrow> coordinator \<Rightarrow> unit step" where
  "consume_nonce now auth co =
     (let kept = live_nonces now (co_nonces co); key = (ap_node_id auth, ap_nonce_b64 auth)
      in if fmlookup kept key \<noteq> None then (co\<lparr> co_nonces := kept \<rparr>, Inl ReplayedNonce)
         else (co\<lparr> co_nonces := fmupd key (now + AUTH_MAX_CLOCK_SKEW_SECS * 2) kept \<rparr>, Inr ()))"

definition authenticate_known_node ::
  "crypto \<Rightarrow> int \<Rightarrow> int \<Rightarrow> auth_proof \<Rightarrow> string \<Rightarrow> string \<Rightarrow> coordinator \<Rightarrow> unit step" where
  "authenticate_known_node c checked stored auth action body_hash co =
     (case fmlookup (co_nodes co) (ap_node_id auth) of
        None \<Rightarrow> (co, Inl NotRegistered)
      | Some n \<Rightarrow>
          (case verify_auth c checked (nd_public_key_b64 n) auth action body_hash of
             Inl e \<Rightarrow> (co, Inl (AuthRefused e))
           | Inr _ \<Rightarrow> consume_nonce stored auth co))"

subsection \<open>Balances\<close>

definition apply_ledger_delta ::
  "int \<Rightarrow> string \<Rightarrow> int \<Rightarrow> string \<Rightarrow> string option \<Rightarrow> string option \<Rightarrow> coordinator \<Rightarrow> api_error + coordinator" where
  "apply_ledger_delta now node_id delta category job_id aid co =
     (case fmlookup (co_balances co) node_id of
        None \<Rightarrow> Inl NoBalanceRecord
      | Some b \<Rightarrow>
          Inr (co\<lparr> co_balances := fmupd node_id (b + delta) (co_balances co),
                   co_ledger := co_ledger co @ [\<lparr> le_node_id = node_id, le_delta_mcu = delta, le_category = category,
                     le_job_id = job_id, le_assignment_id = aid, le_created_at = now \<rparr>] \<rparr>))"

text \<open>With a ledger the balance is the validators' (\<open>None\<close> when no quorum answers).\<close>

definition authoritative_balance :: "int option option \<Rightarrow> string \<Rightarrow> coordinator \<Rightarrow> api_error + int" where
  "authoritative_balance quorum node_id co =
     (case quorum of
        Some (Some b) \<Rightarrow> Inr b
      | Some None \<Rightarrow> Inl QuorumUnavailable
      | None \<Rightarrow> (case fmlookup (co_balances co) node_id of None \<Rightarrow> Inl UnknownNode | Some b \<Rightarrow> Inr b))"

definition cache_balance :: "string \<Rightarrow> int \<Rightarrow> coordinator \<Rightarrow> coordinator" where
  "cache_balance node_id b co = co\<lparr> co_balances := fst (update_where node_id (\<lambda>_. True) (\<lambda>_. b) (co_balances co)) \<rparr>"

text \<open>How every answer that carries a balance ends.\<close>

definition report_balance :: "int option option \<Rightarrow> string \<Rightarrow> coordinator \<Rightarrow> int step" where
  "report_balance quorum node_id co =
     (case authoritative_balance quorum node_id co of
        Inl e \<Rightarrow> (co, Inl e)
      | Inr b \<Rightarrow> (cache_balance node_id b co, Inr b))"

subsection \<open>Registration\<close>

definition home_region :: "federation option \<Rightarrow> string option" where
  "home_region fed = Option.bind fed region"

definition register ::
  "crypto \<Rightarrow> int \<Rightarrow> int option option \<Rightarrow> federation option \<Rightarrow> auth_proof \<Rightarrow> string \<Rightarrow> node_capabilities \<Rightarrow> coordinator \<Rightarrow> int step" where
  "register c now quorum fed auth public_key_b64 capabilities co =
     (if cp_protocol_version capabilities \<noteq> PROTOCOL_VERSION then (co, Inl UnsupportedVersion)
      else case verify_auth c now public_key_b64 auth ''register'' (register_body_hash c public_key_b64 capabilities) of
             Inl e \<Rightarrow> (co, Inl (AuthRefused e))
           | Inr _ \<Rightarrow> bind_step (consume_nonce now auth co) (\<lambda>_ co1.
               let n = ap_node_id auth;
                   new = (case fmlookup (co_nodes co1) n of
                            None \<Rightarrow> \<lparr> nd_public_key_b64 = public_key_b64, nd_capabilities = capabilities,
                                      nd_registered_at = now, nd_last_seen = now, nd_region = home_region fed \<rparr>
                          | Some r \<Rightarrow> r\<lparr> nd_public_key_b64 := public_key_b64, nd_capabilities := capabilities,
                                        nd_last_seen := now, nd_region := home_region fed \<rparr>)
               in report_balance quorum n (co1\<lparr> co_nodes := fmupd n new (co_nodes co1),
                       co_balances := insert_or_ignore n 0 (co_balances co1) \<rparr>)))"

definition heartbeat ::
  "crypto \<Rightarrow> int \<Rightarrow> federation option \<Rightarrow> auth_proof \<Rightarrow> node_capabilities \<Rightarrow> coordinator \<Rightarrow> unit step" where
  "heartbeat c now fed auth capabilities co =
     bind_step (authenticate_known_node c now now auth ''heartbeat'' (heartbeat_body_hash c capabilities) co) (\<lambda>_ co1.
     (co1\<lparr> co_nodes := fst (update_where (ap_node_id auth) (\<lambda>_. True)
        (\<lambda>r. r\<lparr> nd_last_seen := now, nd_capabilities := capabilities, nd_region := home_region fed \<rparr>)
        (co_nodes co1)) \<rparr>, Inr ()))"

subsection \<open>Closing jobs\<close>

definition final_status :: "string \<Rightarrow> bool" where
  "final_status s \<longleftrightarrow> s = ''completed'' \<or> s = ''refunded''"

definition job_open :: "coordinator \<Rightarrow> string \<Rightarrow> bool" where
  "job_open co j \<longleftrightarrow> \<not> fmpred (\<lambda>_ r. as_job_id r = j \<longrightarrow> final_status (as_status r)) (co_assignments co)"

definition job_refunded :: "coordinator \<Rightarrow> string \<Rightarrow> bool" where
  "job_refunded co j \<longleftrightarrow> \<not> fmpred (\<lambda>_ r. \<not> (as_job_id r = j \<and> as_status r = ''refunded'')) (co_assignments co)"

definition close_settled_job :: "int \<Rightarrow> string \<Rightarrow> coordinator \<Rightarrow> coordinator" where
  "close_settled_job now j co =
     (if job_open co j then co
      else co\<lparr> co_jobs := fst (update_where j (\<lambda>_. True)
             (\<lambda>r. r\<lparr> jb_status := (if job_refunded co j then ''closed'' else ''completed''), jb_completed_at := Some now \<rparr>)
             (co_jobs co)) \<rparr>)"

definition set_assignment ::
  "string \<Rightarrow> (assignment_row \<Rightarrow> bool) \<Rightarrow> (assignment_row \<Rightarrow> assignment_row) \<Rightarrow> coordinator \<Rightarrow> coordinator" where
  "set_assignment aid guard f co = co\<lparr> co_assignments := fst (update_where aid guard f (co_assignments co)) \<rparr>"

definition touches :: "string \<Rightarrow> (assignment_row \<Rightarrow> bool) \<Rightarrow> coordinator \<Rightarrow> bool" where
  "touches aid guard co \<longleftrightarrow> snd (update_where aid guard id (co_assignments co))"

definition settle_refunded_shard :: "int \<Rightarrow> string \<Rightarrow> string \<Rightarrow> coordinator \<Rightarrow> coordinator" where
  "settle_refunded_shard now aid j co =
     close_settled_job now j (set_assignment aid (\<lambda>_. True)
       (\<lambda>r. r\<lparr> as_status := ''refunded'', as_completed_at := Some now, as_lease_until := None \<rparr>) co)"

definition finalize_reservation :: "int \<Rightarrow> string \<Rightarrow> string \<Rightarrow> string \<Rightarrow> coordinator \<Rightarrow> coordinator" where
  "finalize_reservation now j ck ehash co =
     (let co1 = certify_ledger_intent now ck ehash co
      in co1\<lparr> co_jobs := fst (update_where j (\<lambda>r. jb_status r = ''funding'') (\<lambda>r. r\<lparr> jb_status := ''pending'' \<rparr>) (co_jobs co1)),
              co_assignments := update_all (\<lambda>r. as_job_id r = j \<and> as_status r = ''blocked'')
                (\<lambda>r. r\<lparr> as_status := ''pending'' \<rparr>) (co_assignments co1) \<rparr>)"

definition finalize_reward :: "int \<Rightarrow> string \<Rightarrow> string \<Rightarrow> string \<Rightarrow> coordinator \<Rightarrow> unit step" where
  "finalize_reward now aid ck ehash co =
     transaction co
       (case fmlookup (co_assignments co) aid of
          None \<Rightarrow> Inl InternalError
        | Some r \<Rightarrow>
            Inr (close_settled_job now (as_job_id r)
              (set_assignment aid (\<lambda>r. as_status r = ''settling'')
                 (\<lambda>r. r\<lparr> as_status := ''completed'', as_completed_at := Some now, as_lease_until := None \<rparr>)
                 (certify_ledger_intent now ck ehash co)), ()))"

subsection \<open>Reputation\<close>

definition reputation_row :: "coordinator \<Rightarrow> string \<Rightarrow> reputation" where
  "reputation_row co node_id =
     (case fmlookup (co_reputation co) node_id of
        None \<Rightarrow> new_reputation
      | Some (a, r, s) \<Rightarrow> \<lparr> re_accepted = nat a, re_rejected = nat r, re_streak = min (nat s) u32_max \<rparr>)"

definition record_reputation :: "string \<Rightarrow> bool \<Rightarrow> coordinator \<Rightarrow> coordinator" where
  "record_reputation node_id accepted co =
     (let r = (if accepted then record_accepted else record_rejected) (reputation_row co node_id)
      in co\<lparr> co_reputation := fmupd node_id
           (wrap_i64 (int (re_accepted r)), wrap_i64 (int (re_rejected r)), int (re_streak r)) (co_reputation co) \<rparr>)"

subsection \<open>Polling\<close>

definition POLL_WINDOW :: nat where "POLL_WINDOW = 256"

fun shard_memory_bytes :: "work_spec \<Rightarrow> nat" where
  "shard_memory_bytes (PrimeCount _ _) = 2 ^ 20"
| "shard_memory_bytes (CollatzPeak _ _) = 2 ^ 20"
| "shard_memory_bytes (MatrixMultiply _ _ d rs re) =
     sat_add64 (2 ^ 20) (sat_mul64 (sat_add64 (sat_mul64 d d) (sat_mul64 (re - rs) d)) 4)"

definition release_expired :: "int \<Rightarrow> coordinator \<Rightarrow> coordinator" where
  "release_expired now co =
     co\<lparr> co_assignments := update_all
       (\<lambda>r. as_status r = ''leased'' \<and> (case as_lease_until r of None \<Rightarrow> False | Some t \<Rightarrow> t < now))
       (\<lambda>r. r\<lparr> as_status := ''pending'', as_leased_to := None, as_lease_until := None, as_leased_by := None \<rparr>)
       (co_assignments co) \<rparr>"

text \<open>The rows of the query, in the order \<open>created_at, rowid\<close>, before the federation's filter.\<close>

definition offerable :: "string \<Rightarrow> coordinator \<Rightarrow> (string \<times> assignment_row \<times> job_row) list" where
  "offerable node_id co =
     sort_key (\<lambda>(_, a, j). (jb_created_at j, as_rowid a))
       (List.map_filter (\<lambda>(aid, a).
          case fmlookup (co_jobs co) (as_job_id a) of
            None \<Rightarrow> None
          | Some j \<Rightarrow> if as_status a = ''pending'' \<and> jb_requester_node_id j \<noteq> Some node_id then Some (aid, a, j) else None)
        (fm_assoc (co_assignments co)))"

text \<open>The shards of each job the node has already returned, in the order of their rows, and the nearest of them.\<close>

definition completed_shards_by_job :: "string \<Rightarrow> coordinator \<Rightarrow> string \<Rightarrow> nat list" where
  "completed_shards_by_job node_id co j =
     map as_shard_index (sort_key as_rowid (filter (\<lambda>a. as_job_id a = j \<and> as_leased_to a = Some node_id \<and>
        (as_status a = ''completed'' \<or> as_status a = ''settling'')) (map snd (fm_assoc (co_assignments co)))))"

fun nearest_done :: "nat \<Rightarrow> nat list \<Rightarrow> nat option" where
  "nearest_done i [] = None"
| "nearest_done i (d # ds) =
     Some (foldl (\<lambda>best s. if nat \<bar>int s - int i\<bar> < nat \<bar>int best - int i\<bar> then s else best) d ds)"

definition shard_offer :: "string \<Rightarrow> coordinator \<Rightarrow> string \<times> assignment_row \<times> job_row \<Rightarrow> shard_candidate" where
  "shard_offer node_id co r =
     (case r of (aid, a, j) \<Rightarrow>
        let history = completed_shards_by_job node_id co (as_job_id a)
        in \<lparr> sc_assignment_id = aid, sc_job_id = as_job_id a, sc_shard_index = as_shard_index a, sc_reward_mcu = as_reward_mcu a,
             sc_memory_bytes = shard_memory_bytes (as_work a), sc_created_at = jb_created_at j,
             sc_shards_done_here = length history, sc_nearest_done_shard = nearest_done (as_shard_index a) history,
             sc_required_manifests = [] \<rparr>)"

definition pending_work :: "crypto \<Rightarrow> federation option \<Rightarrow> string \<Rightarrow> coordinator \<Rightarrow> shard_candidate list" where
  "pending_work c fed node_id co =
     map (shard_offer node_id co)
       (filter (\<lambda>(_, a, _). case fed of None \<Rightarrow> True | Some f \<Rightarrow> owns c f (as_job_id a))
         (take POLL_WINDOW (offerable node_id co)))"

definition worker_profile :: "string \<Rightarrow> coordinator \<Rightarrow> api_error + worker_profile" where
  "worker_profile node_id co =
     (case fmlookup (co_nodes co) node_id of
        None \<Rightarrow> Inl InternalError
      | Some n \<Rightarrow> Inr \<lparr> wp_node_id = node_id, wp_region = nd_region n, wp_caps = nd_capabilities n,
                        wp_reputation = reputation_row co node_id \<rparr>)"

definition recent_pollers :: "int \<Rightarrow> coordinator \<Rightarrow> nat" where
  "recent_pollers now co = length (filter (\<lambda>n. nd_last_seen n \<ge> now - HEAD_START_SECONDS) (map snd (fm_assoc (co_nodes co))))"

text \<open>First stretch: who asks, what is free, what is offered and for how long.\<close>

definition poll_offer ::
  "crypto \<Rightarrow> (real \<Rightarrow> real \<Rightarrow> real) \<Rightarrow> int \<Rightarrow> federation option \<Rightarrow> auth_proof \<Rightarrow> coordinator \<Rightarrow> (shard_candidate \<times> int) option step" where
  "poll_offer c powf now fed auth co =
     bind_step (authenticate_known_node c now now auth ''poll'' (empty_body_hash c) co) (\<lambda>_ co1.
     let node = ap_node_id auth; co2 = release_expired now co1;
         co3 = co2\<lparr> co_nodes := fst (update_where node (\<lambda>_. True) (\<lambda>r. r\<lparr> nd_last_seen := now \<rparr>) (co_nodes co2)) \<rparr>
     in (co3, qbind (worker_profile node co3) (\<lambda>worker.
          Inr (case best powf worker (pending_work c fed node co3) now (home_region fed) default_weights (recent_pollers now co3) of
                 None \<Rightarrow> None
               | Some (s, _) \<Rightarrow> Some (s, now + lease_seconds_for (wp_caps worker) (sc_reward_mcu s))))))"

text \<open>The offer becomes a lease only if the shard is still pending.\<close>

definition poll_lease :: "federation option \<Rightarrow> string \<Rightarrow> shard_candidate \<times> int \<Rightarrow> coordinator \<Rightarrow> (shard_candidate \<times> int) option step" where
  "poll_lease fed node_id offer co =
     (case offer of (s, lease_until) \<Rightarrow>
        let aid = sc_assignment_id s; guard = (\<lambda>r. as_status r = ''pending'')
        in if touches aid guard co
           then (set_assignment aid guard (\<lambda>r. r\<lparr> as_status := ''leased'', as_leased_to := Some node_id,
                   as_lease_until := Some lease_until, as_leased_by := map_option fd_coordinator_id fed \<rparr>) co,
                 Inr (Some offer))
           else (co, Inr None))"

definition poll_work ::
  "crypto \<Rightarrow> (real \<Rightarrow> real \<Rightarrow> real) \<Rightarrow> int \<Rightarrow> federation option \<Rightarrow> auth_proof \<Rightarrow> coordinator \<Rightarrow> (shard_candidate \<times> int) option step" where
  "poll_work c powf now fed auth co =
     bind_step (poll_offer c powf now fed auth co) (\<lambda>offer co1.
     case offer of None \<Rightarrow> (co1, Inr None) | Some o' \<Rightarrow> poll_lease fed (ap_node_id auth) o' co1)"

subsection \<open>Results\<close>

record result_request =
  rr_auth :: auth_proof
  rr_assignment_id :: string
  rr_job_id :: string
  rr_shard_index :: nat
  rr_work :: work_spec
  rr_reward_mcu :: int
  rr_system_funded :: bool
  rr_result :: work_result

text \<open>First stretch: who reports what.\<close>

definition result_check :: "crypto \<Rightarrow> int \<Rightarrow> result_request \<Rightarrow> coordinator \<Rightarrow> string step" where
  "result_check c now req co =
     bind_step (authenticate_known_node c now now (rr_auth req) ''result''
       (result_body_hash c (rr_assignment_id req) (rr_job_id req) (rr_shard_index req) (rr_work req) (rr_reward_mcu req)
          (rr_system_funded req) (rr_result req)) co) (\<lambda>_ co1.
     (co1, case fmlookup (co_nodes co1) (ap_node_id (rr_auth req)) of
        None \<Rightarrow> Inl InternalError
      | Some n \<Rightarrow>
          (case fmlookup (co_assignments co1) (rr_assignment_id req) of
             None \<Rightarrow> Inl UnknownAssignment
           | Some a \<Rightarrow>
               (case fmlookup (co_jobs co1) (as_job_id a) of
                  None \<Rightarrow> Inl UnknownAssignment
                | Some j \<Rightarrow>
                    if as_status a \<noteq> ''leased'' \<or> as_leased_to a \<noteq> Some (ap_node_id (rr_auth req)) then Inl NotLeasedHere
                    else if rr_job_id req \<noteq> as_job_id a \<or> rr_shard_index req \<noteq> as_shard_index a \<or> rr_work req \<noteq> as_work a \<or>
                            rr_reward_mcu req \<noteq> as_reward_mcu a \<or> rr_system_funded req \<noteq> jb_system_funded j
                    then Inl MetadataMismatch
                    else Inr (nd_public_key_b64 n)))))"

text \<open>Second stretch: the audit.  A rejected shard goes back to the queue, whatever has become of it.\<close>

definition result_judge ::
  "(real \<Rightarrow> real \<Rightarrow> real) \<Rightarrow> nat \<Rightarrow> result_request \<Rightarrow> coordinator \<Rightarrow> unit step" where
  "result_judge powf nonce req co =
     (let node = ap_node_id (rr_auth req);
          verdict = st_verdict (settle (should_audit powf (reputation_row co node)) (rr_work req) (rr_result req) nonce)
      in if is_rejected verdict \<or> verdict = Inconclusive
         then (set_assignment (rr_assignment_id req) (\<lambda>_. True)
                 (\<lambda>r. r\<lparr> as_status := ''pending'', as_leased_to := None, as_lease_until := None \<rparr>)
                 (record_reputation node False co), Inl VerificationFailed)
         else (record_reputation node True co, Inr ()))"

text \<open>Third stretch, without a ledger: the shard is completed and paid.\<close>

definition held_lease :: "result_request \<Rightarrow> assignment_row \<Rightarrow> bool" where
  "held_lease req r \<longleftrightarrow> as_status r = ''leased'' \<and> as_leased_to r = Some (ap_node_id (rr_auth req))"

definition result_local :: "int \<Rightarrow> result_request \<Rightarrow> coordinator \<Rightarrow> unit step" where
  "result_local now req co =
     transaction co
       (if \<not> touches (rr_assignment_id req) (held_lease req) co then Inl ChangedMeanwhile
        else qbind (apply_ledger_delta now (ap_node_id (rr_auth req)) (rr_reward_mcu req) ''contribution''
                      (Some (rr_job_id req)) (Some (rr_assignment_id req))
                (set_assignment (rr_assignment_id req) (held_lease req)
                   (\<lambda>r. r\<lparr> as_status := ''completed'', as_result := Some (rr_result req), as_completed_at := Some now,
                          as_lease_until := None \<rparr>) co)) (\<lambda>co1.
             Inr (close_settled_job now (rr_job_id req) co1, ())))"

text \<open>Third stretch, with a ledger: the intent to pay, and what is proposed to the validators.\<close>

definition reward_transaction :: "int \<Rightarrow> string \<Rightarrow> nat \<Rightarrow> result_request \<Rightarrow> ledger_transaction" where
  "reward_transaction now provider_pk nonce req =
     \<lparr> tx_transaction_id = ''reward_'' @ rr_assignment_id req, tx_kind = ProviderReward,
       tx_postings = [\<lparr> p_account_id = escrow_account (rr_job_id req), p_delta_mcu = - rr_reward_mcu req \<rparr>,
                      \<lparr> p_account_id = ap_node_id (rr_auth req), p_delta_mcu = rr_reward_mcu req \<rparr>],
       tx_evidence = EvProviderReward \<lparr> pr_job_id = rr_job_id req, pr_assignment_id = rr_assignment_id req,
         pr_shard_index = rr_shard_index req, pr_reward_mcu = rr_reward_mcu req, pr_provider_public_key_b64 = provider_pk,
         pr_provider_auth = rr_auth req, pr_work = rr_work req, pr_result = rr_result req,
         pr_system_funded = rr_system_funded req, pr_provisional_audit_nonce = nonce \<rparr>,
       tx_created_at = now \<rparr>"

definition result_intend :: "int \<Rightarrow> result_request \<Rightarrow> ledger_transaction \<Rightarrow> coordinator \<Rightarrow> unit step" where
  "result_intend now req t co =
     transaction co
       (if \<not> touches (rr_assignment_id req) (held_lease req) co then Inl ChangedMeanwhile
        else Inr (persist_ledger_intent now (claim_key t) ''provider_reward'' (rr_assignment_id req) t
               (set_assignment (rr_assignment_id req) (held_lease req)
                  (\<lambda>r. r\<lparr> as_status := ''settling'', as_result := Some (rr_result req), as_lease_until := None \<rparr>) co), ()))"

text \<open>What the handler answers: the balance, and whether the job is over.\<close>

definition result_answer :: "int option option \<Rightarrow> result_request \<Rightarrow> coordinator \<Rightarrow> (int \<times> bool) step" where
  "result_answer quorum req co =
     (case fmlookup (co_jobs co) (rr_job_id req) of
        None \<Rightarrow> (co, Inl InternalError)
      | Some j \<Rightarrow> bind_step (report_balance quorum (ap_node_id (rr_auth req)) co) (\<lambda>b co1.
          (co1, Inr (b, jb_status j = ''completed''))))"

text \<open>\<open>ledger\<close> is \<open>None\<close> without validators; with them, it is the entry that settled the transaction, if one did.\<close>

definition report_result ::
  "crypto \<Rightarrow> int \<Rightarrow> (real \<Rightarrow> real \<Rightarrow> real) \<Rightarrow> nat \<Rightarrow> (ledger_transaction \<Rightarrow> string option) option \<Rightarrow> int option option \<Rightarrow>
   result_request \<Rightarrow> coordinator \<Rightarrow> (int \<times> bool) step" where
  "report_result c now powf nonce ledger quorum req co =
     bind_step (result_check c now req co) (\<lambda>pk co1.
     bind_step (result_judge powf nonce req co1) (\<lambda>_ co2.
     bind_step (case ledger of
         None \<Rightarrow> result_local now req co2
       | Some transact \<Rightarrow>
           (let t = reward_transaction now pk nonce req in
            bind_step (result_intend now req t co2) (\<lambda>_ co3.
            case transact t of
              None \<Rightarrow> (co3, Inl LedgerPending)
            | Some ehash \<Rightarrow> finalize_reward now (rr_assignment_id req) (claim_key t) ehash co3))) (\<lambda>_ co4.
     result_answer quorum req co4)))"

subsection \<open>Refunds\<close>

record refund_claim =
  fc_job_id :: string
  fc_shard_index :: nat
  fc_work :: work_spec
  fc_system_funded :: bool
  fc_requester :: "string option"

text \<open>First stretch: what the shard holds.  Nothing is written.\<close>

definition refund_check :: "int \<Rightarrow> string \<Rightarrow> coordinator \<Rightarrow> api_error + refund_claim" where
  "refund_check now aid co =
     (case fmlookup (co_assignments co) aid of
        None \<Rightarrow> Inl UnknownAssignment
      | Some a \<Rightarrow>
          (case fmlookup (co_jobs co) (as_job_id a) of
             None \<Rightarrow> Inl UnknownAssignment
           | Some j \<Rightarrow>
               if as_status a \<noteq> ''pending'' \<and> as_status a \<noteq> ''leased'' then Inl (NothingReclaimable (as_status a))
               else if now \<le> jb_created_at j + SETTLEMENT_WINDOW_SECS then Inl WindowOpen
               else Inr \<lparr> fc_job_id = as_job_id a, fc_shard_index = as_shard_index a, fc_work = as_work a,
                          fc_system_funded = jb_system_funded j, fc_requester = jb_requester_node_id j \<rparr>))"

text \<open>Second stretch: who may claim it, and under which key.\<close>

definition refund_authorize ::
  "crypto \<Rightarrow> int \<Rightarrow> string \<Rightarrow> auth_proof option \<Rightarrow> refund_claim \<Rightarrow> coordinator \<Rightarrow> (string \<times> string option) step" where
  "refund_authorize c now aid auth cl co =
     (case (auth, fc_system_funded cl) of
        (Some _, True) \<Rightarrow> (co, Inl CommunityEscrow)
      | (None, False) \<Rightarrow> (co, Inl NeedsSignature)
      | (None, True) \<Rightarrow> (co, Inr (COMMUNITY_ISSUANCE_ACCOUNT, None))
      | (Some a, False) \<Rightarrow>
          if fc_requester cl \<noteq> Some (ap_node_id a) then (co, Inl ForeignEscrow)
          else bind_step (authenticate_known_node c now now a ''refund''
                 (refund_body_hash c aid (fc_job_id cl) (fc_shard_index cl) (fc_work cl) (work_cost_mcu (fc_work cl))
                    (fc_system_funded cl)) co) (\<lambda>_ co1.
               case fmlookup (co_nodes co1) (ap_node_id a) of
                 None \<Rightarrow> (co1, Inl InternalError)
               | Some n \<Rightarrow> (co1, Inr (ap_node_id a, Some (nd_public_key_b64 n)))))"

definition refund_transaction ::
  "int \<Rightarrow> string \<Rightarrow> auth_proof option \<Rightarrow> refund_claim \<Rightarrow> string \<times> string option \<Rightarrow> ledger_transaction" where
  "refund_transaction now aid auth cl who =
     (let amount = work_cost_mcu (fc_work cl) in
      \<lparr> tx_transaction_id = ''refund_'' @ aid, tx_kind = JobRefund,
        tx_postings = [\<lparr> p_account_id = escrow_account (fc_job_id cl), p_delta_mcu = - amount \<rparr>,
                       \<lparr> p_account_id = fst who, p_delta_mcu = amount \<rparr>],
        tx_evidence = EvJobRefund \<lparr> rf_job_id = fc_job_id cl, rf_assignment_id = aid, rf_shard_index = fc_shard_index cl,
          rf_refund_mcu = amount, rf_work = fc_work cl, rf_system_funded = fc_system_funded cl,
          rf_requester_public_key_b64 = snd who, rf_requester_auth = auth \<rparr>,
        tx_created_at = now \<rparr>)"

text \<open>Third stretch: the money, after the validators have decided or, without them, at once.\<close>

definition refund_certified :: "int \<Rightarrow> string \<Rightarrow> refund_claim \<Rightarrow> ledger_transaction \<Rightarrow> string \<Rightarrow> coordinator \<Rightarrow> coordinator" where
  "refund_certified now aid cl t ehash co =
     settle_refunded_shard now aid (fc_job_id cl)
       (certify_ledger_intent now (claim_key t) ehash
         (persist_ledger_intent now (claim_key t) ''job_refund'' aid t co))"

definition refund_local :: "int \<Rightarrow> string \<Rightarrow> refund_claim \<Rightarrow> string \<Rightarrow> coordinator \<Rightarrow> unit step" where
  "refund_local now aid cl paid_to co =
     transaction co
       (qbind (if fc_system_funded cl then Inr co
               else apply_ledger_delta now paid_to (work_cost_mcu (fc_work cl)) ''refund'' (Some (fc_job_id cl)) (Some aid) co)
         (\<lambda>co1. Inr (settle_refunded_shard now aid (fc_job_id cl) co1, ())))"

definition refund_shard ::
  "crypto \<Rightarrow> int \<Rightarrow> (ledger_transaction \<Rightarrow> string option) option \<Rightarrow> string \<Rightarrow> auth_proof option \<Rightarrow> coordinator \<Rightarrow>
   (int \<times> string) step" where
  "refund_shard c now ledger aid auth co =
     (case refund_check now aid co of
        Inl e \<Rightarrow> (co, Inl e)
      | Inr cl \<Rightarrow> bind_step (refund_authorize c now aid auth cl co) (\<lambda>who co1.
          case ledger of
            None \<Rightarrow> bind_step (refund_local now aid cl (fst who) co1) (\<lambda>_ co2.
              (co2, Inr (work_cost_mcu (fc_work cl), fst who)))
          | Some transact \<Rightarrow>
              (let t = refund_transaction now aid auth cl who in
               case transact t of
                 None \<Rightarrow> (co1, Inl LedgerRefused)
               | Some ehash \<Rightarrow> (refund_certified now aid cl t ehash co1, Inr (work_cost_mcu (fc_work cl), fst who)))))"

subsection \<open>Submitting\<close>

definition submit_check :: "crypto \<Rightarrow> int \<Rightarrow> auth_proof \<Rightarrow> work_spec \<Rightarrow> nat \<Rightarrow> coordinator \<Rightarrow> string step" where
  "submit_check c now auth work shards co =
     (case work_spec_validate work of
        Inl e \<Rightarrow> (co, Inl (BadWork e))
      | Inr _ \<Rightarrow>
          if \<not> (1 \<le> shards \<and> shards \<le> 256) then (co, Inl BadShards)
          else bind_step (authenticate_known_node c now now auth ''submit'' (submit_body_hash c work shards) co) (\<lambda>_ co1.
            if fmlookup (co_jobs co1) (job_id_from_auth c auth) \<noteq> None then (co1, Inl SubmitUsed)
            else case fmlookup (co_nodes co1) (ap_node_id auth) of
                   None \<Rightarrow> (co1, Inl InternalError)
                 | Some n \<Rightarrow> (co1, Inr (nd_public_key_b64 n))))"

definition reserve_transaction :: "crypto \<Rightarrow> int \<Rightarrow> auth_proof \<Rightarrow> string \<Rightarrow> work_spec \<Rightarrow> nat \<Rightarrow> ledger_transaction" where
  "reserve_transaction c now auth pk work shards =
     (let j = job_id_from_auth c auth; total = job_cost work shards in
      \<lparr> tx_transaction_id = ''reserve_'' @ j, tx_kind = JobReserve,
        tx_postings = [\<lparr> p_account_id = ap_node_id auth, p_delta_mcu = - total \<rparr>,
                       \<lparr> p_account_id = escrow_account j, p_delta_mcu = total \<rparr>],
        tx_evidence = EvJobReserve \<lparr> jr_job_id = j, jr_requester_public_key_b64 = pk, jr_requester_auth = auth,
          jr_work = work, jr_shards = shards \<rparr>,
        tx_created_at = now \<rparr>)"

text \<open>The job and its shards, blocked until the reserve is certified; without a ledger the requester is charged here.\<close>

definition submit_record ::
  "crypto \<Rightarrow> int \<Rightarrow> auth_proof \<Rightarrow> work_spec \<Rightarrow> nat \<Rightarrow> ledger_transaction option \<Rightarrow> coordinator \<Rightarrow> unit step" where
  "submit_record c now auth work shards t co =
     transaction co
       (let j = job_id_from_auth c auth; total = job_cost work shards;
            jrow = \<lparr> jb_requester_node_id = Some (ap_node_id auth), jb_system_funded = False, jb_work = work,
                     jb_status = (if t = None then ''pending'' else ''funding''), jb_reserved_mcu = total,
                     jb_created_at = now, jb_completed_at = None \<rparr>
        in if fmlookup (co_jobs co) j \<noteq> None then Inl InternalError
           else qbind (if t = None
                       then apply_ledger_delta now (ap_node_id auth) (- total) ''consumption_reservation'' (Some j) None co
                       else Inr co) (\<lambda>co1.
                qbind (fold_result (insert_shard InternalError c (if t = None then ''pending'' else ''blocked'') j)
                         (List.enumerate 0 (split_work work shards)) (co_assignments co1)) (\<lambda>assigned.
                let co2 = co1\<lparr> co_jobs := fmupd j jrow (co_jobs co1), co_assignments := assigned \<rparr>
                in Inr (case t of None \<Rightarrow> co2 | Some tr \<Rightarrow> persist_ledger_intent now (claim_key tr) ''job_reserve'' j tr co2, ()))))"

definition submit_job ::
  "crypto \<Rightarrow> int \<Rightarrow> (ledger_transaction \<Rightarrow> string option) option \<Rightarrow> int option option \<Rightarrow> int option option \<Rightarrow>
   auth_proof \<Rightarrow> work_spec \<Rightarrow> nat \<Rightarrow> coordinator \<Rightarrow> (string \<times> int) step" where
  "submit_job c now ledger quorum_before quorum_after auth work shards co =
     bind_step (submit_check c now auth work shards co) (\<lambda>pk co1.
     case authoritative_balance quorum_before (ap_node_id auth) co1 of
       Inl e \<Rightarrow> (co1, Inl e)
     | Inr b \<Rightarrow>
         if b < job_cost work shards then (co1, Inl InsufficientCredit)
         else let t = map_option (\<lambda>_. reserve_transaction c now auth pk work shards) ledger; j = job_id_from_auth c auth in
         bind_step (submit_record c now auth work shards t co1) (\<lambda>_ co2.
         bind_step (case (ledger, t) of
             (Some transact, Some tr) \<Rightarrow>
               (case transact tr of
                  None \<Rightarrow> (co2, Inl LedgerPending)
                | Some ehash \<Rightarrow> (finalize_reservation now j (claim_key tr) ehash co2, Inr ()))
           | _ \<Rightarrow> (co2, Inr ())) (\<lambda>_ co3.
         bind_step (report_balance quorum_after (ap_node_id auth) co3) (\<lambda>b' co4. (co4, Inr (j, b'))))))"

subsection \<open>Reconciliation\<close>

datatype intent_fault = Transient string | Terminal string

text \<open>\<open>claim\<close> is what a quorum says of a claim key (\<open>None\<close> when there is none to ask); \<open>transact\<close> proposes.\<close>

definition recover_one ::
  "int \<Rightarrow> (string \<Rightarrow> string option option) \<Rightarrow> (ledger_transaction \<Rightarrow> string option) \<Rightarrow> string \<times> intent_row \<Rightarrow> coordinator \<Rightarrow>
   coordinator \<times> (intent_fault + string)" where
  "recover_one now claim transact ci co =
     (case ci of (ck, i) \<Rightarrow>
        if claim_key (it_transaction i) \<noteq> ck then (co, Inl (Terminal ''claim mismatch''))
        else if it_kind i \<notin> {''job_reserve'', ''community_reserve'', ''provider_reward''}
        then (co, Inl (Terminal ''unknown kind''))
        else case claim ck of
               None \<Rightarrow> (co, Inl (Transient ''claim not confirmable yet''))
             | Some existing \<Rightarrow>
                 (case (case existing of Some h \<Rightarrow> Some h | None \<Rightarrow> transact (it_transaction i)) of
                    None \<Rightarrow> (co, Inl (Transient ''settlement did not go through''))
                  | Some ehash \<Rightarrow>
                      if it_kind i = ''provider_reward''
                      then (case finalize_reward now (it_object_id i) ck ehash co of
                              (co', Inl _) \<Rightarrow> (co', Inl (Transient ''settled but not recorded''))
                            | (co', Inr _) \<Rightarrow> (co', Inr ehash))
                      else (finalize_reservation now (it_object_id i) ck ehash co, Inr ehash)))"

record reconcile_report =
  rq_recovered :: nat
  rq_deferred :: nat
  rq_abandoned :: nat
  rq_orphaned :: nat

definition recover_step ::
  "int \<Rightarrow> (string \<Rightarrow> string option option) \<Rightarrow> (ledger_transaction \<Rightarrow> string option) \<Rightarrow> string \<times> intent_row \<Rightarrow>
   coordinator \<times> reconcile_report \<Rightarrow> coordinator \<times> reconcile_report" where
  "recover_step now claim transact ci st =
     (case st of (co, report) \<Rightarrow>
        case recover_one now claim transact ci co of
          (co1, Inr _) \<Rightarrow> (co1, report\<lparr> rq_recovered := rq_recovered report + 1 \<rparr>)
        | (co1, Inl (Transient why)) \<Rightarrow>
            (let (co2, attempts) = defer_ledger_intent now (fst ci) why co1 in
             if attempts \<ge> MAX_INTENT_ATTEMPTS
             then (abandon_ledger_intent now (fst ci) why co2, report\<lparr> rq_abandoned := rq_abandoned report + 1 \<rparr>)
             else (co2, report\<lparr> rq_deferred := rq_deferred report + 1 \<rparr>))
        | (co1, Inl (Terminal why)) \<Rightarrow>
            (abandon_ledger_intent now (fst ci) why co1, report\<lparr> rq_abandoned := rq_abandoned report + 1 \<rparr>))"

definition pending_intents :: "coordinator \<Rightarrow> (string \<times> intent_row) list" where
  "pending_intents co =
     sort_key (\<lambda>(ck, i). (it_created_at i, ck)) (filter (\<lambda>(_, i). it_status i = ''pending'') (fm_assoc (co_intents co)))"

definition recover_pending ::
  "int \<Rightarrow> (string \<Rightarrow> string option option) \<Rightarrow> (ledger_transaction \<Rightarrow> string option) \<Rightarrow> coordinator \<Rightarrow> coordinator \<times> reconcile_report" where
  "recover_pending now claim transact co =
     (case fold (recover_step now claim transact) (pending_intents co)
             (co, \<lparr> rq_recovered = 0, rq_deferred = 0, rq_abandoned = 0, rq_orphaned = 0 \<rparr>) of
        (co', report) \<Rightarrow> (co', report\<lparr> rq_orphaned := orphaned_funding_objects co' \<rparr>))"

subsection \<open>The answer to a job\<close>

definition shards_of :: "string \<Rightarrow> coordinator \<Rightarrow> (string \<times> assignment_row) list" where
  "shards_of j co = sort_key (\<lambda>(_, r). as_shard_index r) (filter (\<lambda>(_, r). as_job_id r = j) (fm_assoc (co_assignments co)))"

fun roll_up :: "work_result \<Rightarrow> nat option \<times> (nat \<times> nat) option \<Rightarrow> nat option \<times> (nat \<times> nat) option" where
  "roll_up (RPrimeCount n _ _) (tot, peak) = (Some (sat_add64 (case tot of None \<Rightarrow> 0 | Some t \<Rightarrow> t) n), peak)"
| "roll_up (RMatrixMultiply _ _) (tot, peak) = (tot, peak)"
| "roll_up (RCollatzPeak steps seed _ _ _) (tot, peak) =
     (tot, case peak of
        None \<Rightarrow> Some (steps, seed)
      | Some (s, d) \<Rightarrow> if steps > s \<or> steps = s \<and> seed < d then Some (steps, seed) else Some (s, d))"

record job_status_response =
  js_requester_node_id :: "string option"
  js_system_funded :: bool
  js_status :: string
  js_total_assignments :: nat
  js_completed_assignments :: nat
  js_reserved_mcu :: int
  js_prime_count_total :: "nat option"
  js_collatz_peak :: "(nat \<times> nat) option"
  js_refundable :: "(string \<times> nat \<times> int \<times> work_spec) list"

definition job_status :: "int \<Rightarrow> string \<Rightarrow> coordinator \<Rightarrow> api_error + job_status_response" where
  "job_status now j co =
     (case fmlookup (co_jobs co) j of
        None \<Rightarrow> Inl UnknownJob
      | Some job \<Rightarrow>
          let rows = shards_of j co; done' = filter (\<lambda>(_, r). as_status r = ''completed'') rows in
          if list_ex (\<lambda>(_, r). as_result r = None) done' then Inl InternalError
          else let (tot, peak) = fold roll_up (List.map_filter (\<lambda>(_, r). as_result r) done') (None, None) in
          Inr \<lparr> js_requester_node_id = jb_requester_node_id job, js_system_funded = jb_system_funded job, js_status = jb_status job,
                js_total_assignments = length rows, js_completed_assignments = length done', js_reserved_mcu = jb_reserved_mcu job,
                js_prime_count_total = tot, js_collatz_peak = peak,
                js_refundable = (if now > jb_created_at job + SETTLEMENT_WINDOW_SECS
                  then map (\<lambda>(aid, r). (aid, as_shard_index r, work_cost_mcu (as_work r), as_work r))
                         (filter (\<lambda>(_, r). as_status r = ''pending'' \<or> as_status r = ''leased'') rows)
                  else []) \<rparr>)"

end
