(* ===== verification/Rebuild.thy ===== *)
theory Rebuild
  imports Tables Network
begin

text \<open>
  A coordinator's scheduling tables, rebuilt from the ledger (\<open>hocmesh-coordinator/src/rebuild.rs\<close>).  Every
  certificate is one SQL transaction: what was committed before an error stays.
\<close>

section \<open>Definitions\<close>

subsection \<open>Reports and errors\<close>

record rebuild_report =
  rp_entries :: nat
  rp_jobs :: nat
  rp_settled_shards :: nat
  rp_open_shards :: nat

definition empty_report :: rebuild_report where
  "empty_report = \<lparr> rp_entries = 0, rp_jobs = 0, rp_settled_shards = 0, rp_open_shards = 0 \<rparr>"

datatype rebuild_error =
    BadRequesterKey | ShardTaken | UnreservedShard string | ChainRefused ledger_error | UnexpectedEntry nat nat
  | NothingAt nat | FetchRefused network_error | NoHead network_error

subsection \<open>One transaction\<close>

text \<open>The placeholder document, with serde's defaults for the fields it leaves out.\<close>

definition placeholder_capabilities :: node_capabilities where
  "placeholder_capabilities =
     \<lparr> cp_protocol_version = PROTOCOL_VERSION, cp_hostname = [], cp_os = [], cp_arch = [], cp_cpu_brand = [],
       cp_logical_cpus = 0, cp_total_memory_bytes = 0, cp_cpu_benchmark_score = 0,
       cp_memory_bandwidth_bytes_per_second = None, cp_gpus = [], cp_model_seed_url = None,
       cp_cached_model_manifests = [], cp_coordinator_latency_micros = 0, cp_model_bandwidth_kbps = 0,
       cp_load_permille = 0, cp_ai_runtime_ready = False, cp_shared_logical_cpus = 0, cp_shared_memory_bytes = 0,
       cp_shared_gpu_percent = 0, cp_network_coordinate = None, cp_probe_endpoint = None \<rparr>"

definition requester_node ::
  "crypto \<Rightarrow> int \<Rightarrow> string \<Rightarrow> coordinator \<Rightarrow> rebuild_error + string \<times> coordinator" where
  "requester_node c now public_key_b64 co =
     (case node_id_from_public_key_b64 c public_key_b64 of
        None \<Rightarrow> Inl BadRequesterKey
      | Some node_id \<Rightarrow>
          Inr (node_id, co\<lparr> co_nodes := insert_or_ignore node_id
            \<lparr> nd_public_key_b64 = public_key_b64, nd_capabilities = placeholder_capabilities,
              nd_registered_at = now, nd_last_seen = 0, nd_region = None \<rparr> (co_nodes co) \<rparr>))"

definition insert_assignment ::
  "crypto \<Rightarrow> string \<Rightarrow> nat \<times> work_spec \<Rightarrow> (string, assignment_row) fmap \<Rightarrow> rebuild_error + (string, assignment_row) fmap" where
  "insert_assignment c j ip m =
     (case ip of (i, part) \<Rightarrow>
        if fmlookup m (assignment_id c j i) \<noteq> None then Inr m
        else if shard_taken m j i then Inl ShardTaken
        else Inr (fmupd (assignment_id c j i) (shard_as ''pending'' (next_rowid m) j i part) m))"

definition insert_job ::
  "crypto \<Rightarrow> string \<Rightarrow> string option \<Rightarrow> bool \<Rightarrow> work_spec \<Rightarrow> nat \<Rightarrow> int \<Rightarrow> coordinator \<Rightarrow> rebuild_error + coordinator" where
  "insert_job c j requester system_funded work shards created_at co =
     (let parts = split_work work shards;
          jrow = \<lparr> jb_requester_node_id = requester, jb_system_funded = system_funded, jb_work = work,
                  jb_status = ''pending'', jb_reserved_mcu = wrap_i64 (sum_list (map work_cost_mcu parts)),
                  jb_created_at = created_at, jb_completed_at = None \<rparr>
      in qbind (fold_result (insert_assignment c j) (List.enumerate 0 parts) (co_assignments co)) (\<lambda>assigned.
         Inr (co\<lparr> co_jobs := insert_or_ignore j jrow (co_jobs co), co_assignments := assigned \<rparr>)))"

definition settle_shard ::
  "string \<Rightarrow> string \<Rightarrow> work_result option \<Rightarrow> int \<Rightarrow> coordinator \<Rightarrow> rebuild_error + coordinator" where
  "settle_shard aid status result completed_at co =
     (case fmlookup (co_assignments co) aid of
        None \<Rightarrow> Inl (UnreservedShard aid)
      | Some asg \<Rightarrow>
          Inr (co\<lparr> co_assignments := fmupd aid
            (asg\<lparr> as_status := status, as_result := (case result of Some r \<Rightarrow> Some r | None \<Rightarrow> as_result asg),
                  as_completed_at := Some completed_at, as_leased_to := None, as_lease_until := None \<rparr>)
            (co_assignments co) \<rparr>))"

definition apply_transaction ::
  "crypto \<Rightarrow> int \<Rightarrow> ledger_transaction \<Rightarrow> coordinator \<times> rebuild_report \<Rightarrow> rebuild_error + coordinator \<times> rebuild_report" where
  "apply_transaction c now t st =
     (case st of (co, report) \<Rightarrow>
        case tx_evidence t of
          EvJobReserve e \<Rightarrow>
            qbind (requester_node c now (jr_requester_public_key_b64 e) co) (\<lambda>(requester, co1).
            qbind (insert_job c (jr_job_id e) (Some requester) False (jr_work e) (jr_shards e) (tx_created_at t) co1) (\<lambda>co2.
            Inr (co2, report\<lparr> rp_jobs := rp_jobs report + 1 \<rparr>)))
        | EvCommunityReserve job_id work shards _ \<Rightarrow>
            qbind (insert_job c job_id None True work shards (tx_created_at t) co) (\<lambda>co1.
            Inr (co1, report\<lparr> rp_jobs := rp_jobs report + 1 \<rparr>))
        | EvProviderReward e \<Rightarrow>
            qbind (settle_shard (pr_assignment_id e) ''completed'' (Some (pr_result e)) (tx_created_at t) co) (\<lambda>co1.
            Inr (co1, report\<lparr> rp_settled_shards := rp_settled_shards report + 1 \<rparr>))
        | EvJobRefund e \<Rightarrow>
            qbind (settle_shard (rf_assignment_id e) ''refunded'' None (tx_created_at t) co) (\<lambda>co1.
            Inr (co1, report\<lparr> rp_settled_shards := rp_settled_shards report + 1 \<rparr>))
        | _ \<Rightarrow> Inr (co, report))"

subsection \<open>The chain\<close>

text \<open>The evidence of a transaction is verified, then the set moves, then the tables.\<close>

definition replay_transaction ::
  "crypto \<Rightarrow> int \<Rightarrow> quorum_certificate \<Rightarrow> validator_set \<Rightarrow> ledger_transaction \<Rightarrow>
   coordinator \<times> rebuild_report \<times> validator_set option \<Rightarrow>
   rebuild_error + coordinator \<times> rebuild_report \<times> validator_set option" where
  "replay_transaction c now cert vset t st =
     (case st of (co, report, advance) \<Rightarrow>
        qbind (map_err ChainRefused (verify_historical_evidence c t (en_previous_hash (qc_entry cert)) (qc_signatures cert))) (\<lambda>_.
        qbind (case tx_evidence t of
                 EvMembershipChange e \<Rightarrow>
                   qbind (map_err ChainRefused (verify_membership_change c
                     (case advance of Some s \<Rightarrow> s | None \<Rightarrow> vset) e)) (\<lambda>s. Inr (Some s))
               | _ \<Rightarrow> Inr advance) (\<lambda>advance'.
        qbind (apply_transaction c now t (co, report)) (\<lambda>(co', report').
        Inr (co', report', advance')))))"

definition replay_certificate ::
  "crypto \<Rightarrow> int \<Rightarrow> quorum_certificate \<Rightarrow> coordinator \<times> rebuild_report \<times> nat \<times> validator_set \<Rightarrow>
   rebuild_error + coordinator \<times> rebuild_report \<times> nat \<times> validator_set" where
  "replay_certificate c now cert st =
     (case st of (co, report, next, vset) \<Rightarrow>
        if cert_seq cert \<noteq> next then Inl (UnexpectedEntry (cert_seq cert) next)
        else qbind (map_err ChainRefused (verify_certificate c cert vset)) (\<lambda>_.
             qbind (fold_result (replay_transaction c now cert vset) (cert_txs cert) (co, report, None))
               (\<lambda>(co', report', advance).
             Inr (co', report'\<lparr> rp_entries := rp_entries report' + 1 \<rparr>, cert_seq cert + 1,
                  case advance of Some s \<Rightarrow> s | None \<Rightarrow> vset))))"

text \<open>The tables as the last committed transaction left them, and how it went.\<close>

fun replay_page ::
  "crypto \<Rightarrow> int \<Rightarrow> quorum_certificate list \<Rightarrow> coordinator \<times> rebuild_report \<times> nat \<times> validator_set \<Rightarrow>
   coordinator \<times> (rebuild_error + rebuild_report \<times> nat \<times> validator_set)" where
  "replay_page c now [] st = (fst st, Inr (snd st))"
| "replay_page c now (cert # certs) st =
     (case replay_certificate c now cert st of
        Inl e \<Rightarrow> (fst st, Inl e)
      | Inr st' \<Rightarrow> replay_page c now certs st')"

type_synonym source = "nat \<Rightarrow> nat \<Rightarrow> validator_set \<Rightarrow> network_error + quorum_certificate list"

lemma replay_certificate_next:
  assumes "replay_certificate c now cert (co, report, n, vset) = Inr (co', report', n', vset')"
  shows "n' = Suc n" "cert_seq cert = n"
  using assms by (auto simp: replay_certificate_def qbind_Inr split: if_splits)

lemma replay_page_progress:
  assumes "replay_page c now certs (co, report, n, vset) = (co', Inr (report', n', vset'))"
  shows "n' = n + length certs"
  using assms
proof (induction certs arbitrary: co report n vset)
  case (Cons cert certs)
  from Cons.prems obtain co1 rep1 n1 v1 where st: "replay_certificate c now cert (co, report, n, vset) = Inr (co1, rep1, n1, v1)"
    "replay_page c now certs (co1, rep1, n1, v1) = (co', Inr (report', n', vset'))" by (auto split: sum.splits)
  show ?case using replay_certificate_next(1)[OF st(1)] Cons.IH[OF st(2)] by simp
qed simp

function replay ::
  "crypto \<Rightarrow> int \<Rightarrow> source \<Rightarrow> nat \<Rightarrow> nat \<Rightarrow> coordinator \<times> rebuild_report \<times> nat \<times> validator_set \<Rightarrow>
   coordinator \<times> (rebuild_error + rebuild_report \<times> nat \<times> validator_set)" where
  "replay c now fetch batch head_sequence (co, report, next, vset) =
     (if next \<le> head_sequence
      then case fetch next batch vset of
             Inl e \<Rightarrow> (co, Inl (FetchRefused e))
           | Inr [] \<Rightarrow> (co, Inl (NothingAt next))
           | Inr (cert # certs) \<Rightarrow>
               (case replay_page c now (cert # certs) (co, report, next, vset) of
                  (co', Inl e) \<Rightarrow> (co', Inl e)
                | (co', Inr (report', next', vset')) \<Rightarrow>
                    replay c now fetch batch head_sequence (co', report', next', vset'))
      else (co, Inr (report, next, vset)))"
  by pat_completeness auto

termination replay
  by (relation "measure (\<lambda>(c, now, fetch, batch, head_sequence, co, report, next, vset). head_sequence + 1 - next)")
     (auto simp del: replay_page.simps dest: replay_page_progress[OF sym])

declare replay.simps [simp del]

text \<open>A job is finished when none of its shards is open; \<open>MAX\<close> ignores the missing.\<close>

definition job_closed :: "coordinator \<Rightarrow> string \<Rightarrow> bool" where
  "job_closed co j \<longleftrightarrow>
     fmpred (\<lambda>_ a. as_job_id a = j \<longrightarrow> as_status a = ''completed'' \<or> as_status a = ''refunded'') (co_assignments co)"

definition last_completed :: "coordinator \<Rightarrow> string \<Rightarrow> int option" where
  "last_completed co j =
     (let ts = List.map_filter (\<lambda>(_, a). if as_job_id a = j then as_completed_at a else None) (fm_assoc (co_assignments co))
      in if ts = [] then None else Some (Max (set ts)))"

definition finalize_jobs :: "coordinator \<Rightarrow> coordinator" where
  "finalize_jobs co = co\<lparr> co_jobs := fmmap_keys (\<lambda>j jrow.
     if job_closed co j then jrow\<lparr> jb_status := ''completed'', jb_completed_at := last_completed co j \<rparr> else jrow)
     (co_jobs co) \<rparr>"

definition open_shards :: "coordinator \<Rightarrow> nat" where
  "open_shards co = length (filter (\<lambda>(_, a). as_status a = ''pending'') (fm_assoc (co_assignments co)))"

definition replay_from ::
  "crypto \<Rightarrow> int \<Rightarrow> source \<Rightarrow> nat \<Rightarrow> nat \<Rightarrow> validator_set \<Rightarrow> nat \<Rightarrow> coordinator \<Rightarrow>
   coordinator \<times> (rebuild_error + rebuild_report)" where
  "replay_from c now fetch batch from vset head_sequence co =
     (case replay c now fetch (max batch 1) head_sequence (co, empty_report, from, vset) of
        (co', Inl e) \<Rightarrow> (co', Inl e)
      | (co', Inr (report, next, vset')) \<Rightarrow>
          let done = (finalize_jobs co')\<lparr> co_watermark := Some (next, vset') \<rparr>
          in (done, Inr (report\<lparr> rp_open_shards := open_shards done \<rparr>)))"

text \<open>Both ends ask the network first: the set is followed (a failure is ignored), then the head.\<close>

definition rebuild_from_ledger ::
  "crypto \<Rightarrow> int \<Rightarrow> ((nat \<times> string) list \<Rightarrow> (nat \<times> string) list) \<Rightarrow> client \<Rightarrow>
   (nat \<Rightarrow> nat \<Rightarrow> quorum_certificate list replies) \<Rightarrow> head_proof replies \<Rightarrow> nat \<Rightarrow> coordinator \<Rightarrow>
   (coordinator \<times> (rebuild_error + rebuild_report)) option" where
  "rebuild_from_ledger c now ord cl pages heads batch co =
     (case refresh_set c cl pages of
        None \<Rightarrow> None
      | Some (cl', _) \<Rightarrow>
          (case head_quorum c ord cl' heads of
             Inl e \<Rightarrow> Some (co, Inl (NoHead e))
           | Inr h \<Rightarrow>
               Some (replay_from c now (fetch_certificates c cl' pages) batch 1 (cl_set cl') (lh_sequence h) co)))"

definition sync_from_ledger ::
  "crypto \<Rightarrow> int \<Rightarrow> ((nat \<times> string) list \<Rightarrow> (nat \<times> string) list) \<Rightarrow> client \<Rightarrow>
   (nat \<Rightarrow> nat \<Rightarrow> quorum_certificate list replies) \<Rightarrow> head_proof replies \<Rightarrow> nat \<Rightarrow> coordinator \<Rightarrow>
   (coordinator \<times> (rebuild_error + rebuild_report)) option" where
  "sync_from_ledger c now ord cl pages heads batch co =
     (case co_watermark co of
        None \<Rightarrow> rebuild_from_ledger c now ord cl pages heads batch co
      | Some (from_sequence, vset) \<Rightarrow>
          (case refresh_set c cl pages of
             None \<Rightarrow> None
           | Some (cl', _) \<Rightarrow>
               (case head_quorum c ord cl' heads of
                  Inl e \<Rightarrow> Some (co, Inl (NoHead e))
                | Inr h \<Rightarrow>
                    Some (replay_from c now (fetch_certificates c cl' pages) batch (max from_sequence 1) vset
                      (lh_sequence h) co))))"

section \<open>Lemmas\<close>

subsection \<open>The shards of a reservation\<close>

text \<open>A job whose ids are free gets one pending row per part; a job whose ids are all there is left as it is.\<close>

lemma insert_assignments_new:
  assumes "\<forall>i\<in>{k..<k + length parts}. fmlookup m (assignment_id c j i) = None"
    and "\<forall>aid r. fmlookup m aid = Some r \<longrightarrow> as_job_id r = j \<longrightarrow> as_shard_index r < k"
  shows "\<exists>m'. fold_result (insert_assignment c j) (List.enumerate k parts) m = Inr m' \<and>
    (\<forall>i\<in>{k..<k + length parts}. \<exists>n. fmlookup m' (assignment_id c j i) = Some (shard_as ''pending'' n j i (parts ! (i - k)))) \<and>
    (\<forall>aid. (\<forall>i\<in>{k..<k + length parts}. aid \<noteq> assignment_id c j i) \<longrightarrow> fmlookup m' aid = fmlookup m aid)"
  using assms
proof (induction parts arbitrary: k m)
  case (Cons part parts)
  let ?m = "fmupd (assignment_id c j k) (shard_as ''pending'' (next_rowid m) j k part) m"
  have free: "\<not> shard_taken m j k" using Cons.prems(2) by (auto simp: shard_taken_def fmpred_iff)
  have "\<exists>m'. fold_result (insert_assignment c j) (List.enumerate (Suc k) parts) ?m = Inr m' \<and>
    (\<forall>i\<in>{Suc k..<Suc k + length parts}. \<exists>n. fmlookup m' (assignment_id c j i) = Some (shard_as ''pending'' n j i (parts ! (i - Suc k)))) \<and>
    (\<forall>aid. (\<forall>i\<in>{Suc k..<Suc k + length parts}. aid \<noteq> assignment_id c j i) \<longrightarrow> fmlookup m' aid = fmlookup ?m aid)"
    by (rule Cons.IH) (use Cons.prems in \<open>auto simp: shard_as_def intro: less_SucI\<close>)
  then obtain m' where m': "fold_result (insert_assignment c j) (List.enumerate (Suc k) parts) ?m = Inr m'"
    "\<And>i. i \<in> {Suc k..<Suc k + length parts} \<Longrightarrow> \<exists>n. fmlookup m' (assignment_id c j i) = Some (shard_as ''pending'' n j i (parts ! (i - Suc k)))"
    "\<And>aid. \<forall>i\<in>{Suc k..<Suc k + length parts}. aid \<noteq> assignment_id c j i \<Longrightarrow> fmlookup m' aid = fmlookup ?m aid" by metis
  have "fold_result (insert_assignment c j) (List.enumerate k (part # parts)) m = Inr m'"
    using Cons.prems(1) m'(1) free by (simp add: insert_assignment_def)
  moreover have "\<exists>n. fmlookup m' (assignment_id c j i) = Some (shard_as ''pending'' n j i ((part # parts) ! (i - k)))"
    if "i \<in> {k..<k + length (part # parts)}" for i
  proof (cases "i = k")
    case True then show ?thesis using m'(3)[of "assignment_id c j k"] by auto
  next
    case False then show ?thesis using that m'(2)[of i] by (simp add: nth_Cons' Suc_diff_Suc[symmetric])
  qed
  moreover have "fmlookup m' aid = fmlookup m aid"
    if "\<forall>i\<in>{k..<k + length (part # parts)}. aid \<noteq> assignment_id c j i" for aid
    using that m'(3)[of aid] by auto
  ultimately show ?case by blast
qed simp

lemma insert_assignments_again:
  assumes "\<forall>i\<in>{k..<k + length parts}. fmlookup m (assignment_id c j i) \<noteq> None"
  shows "fold_result (insert_assignment c j) (List.enumerate k parts) m = Inr m"
  using assms by (induction parts arbitrary: k) (simp_all add: insert_assignment_def)

lemma insert_or_ignore_lookup: "fmlookup (insert_or_ignore k v m) k \<noteq> None"
  by (simp add: insert_or_ignore_def)

lemma insert_or_ignore_mono: "fmlookup m x \<noteq> None \<Longrightarrow> fmlookup (insert_or_ignore k v m) x = fmlookup m x"
  by (auto simp: insert_or_ignore_def)

subsection \<open>The tables follow the audit\<close>

text \<open>The row of a shard: as the reservation made it, or closed by the settlement the chain has for it.\<close>

definition shard_row :: "string \<Rightarrow> nat \<Rightarrow> work_spec \<Rightarrow> bool \<Rightarrow> assignment_row \<Rightarrow> bool" where
  "shard_row j i part settled r \<longleftrightarrow>
     as_job_id r = j \<and> as_shard_index r = i \<and> as_work r = part \<and> as_reward_mcu r = work_cost_mcu part \<and>
     (if settled then as_status r \<in> {''completed'', ''refunded''} \<and> as_completed_at r \<noteq> None
      else \<exists>n. r = shard_as ''pending'' n j i part)"

lemma shard_row_status:
  assumes "shard_row j i part settled r"
  shows "settled \<longleftrightarrow> as_status r = ''completed'' \<or> as_status r = ''refunded''"
proof (cases settled)
  case False
  with assms obtain n where "r = shard_as ''pending'' n j i part" unfolding shard_row_def by metis
  then have "as_status r = ''pending''" by simp
  with False show ?thesis by simp
qed (use assms in \<open>auto simp: shard_row_def\<close>)

definition tracks ::
  "crypto \<Rightarrow> (string \<times> nat) set \<Rightarrow> (string, reservation_record) fmap \<Rightarrow> coordinator \<Rightarrow> bool" where
  "tracks c S R co \<longleftrightarrow>
     (\<forall>j root n rest i. fmlookup R j = Some (root, n, rest) \<longrightarrow> i < length (split_work root n) \<longrightarrow>
        (\<exists>r. fmlookup (co_assignments co) (assignment_id c j i) = Some r \<and>
             shard_row j i (split_work root n ! i) ((j, i) \<in> S) r)) \<and>
     (\<forall>aid r. fmlookup (co_assignments co) aid = Some r \<longrightarrow>
        (\<exists>root n rest. fmlookup R (as_job_id r) = Some (root, n, rest) \<and>
             as_shard_index r < length (split_work root n) \<and> aid = assignment_id c (as_job_id r) (as_shard_index r))) \<and>
     (\<forall>j. fmlookup (co_jobs co) j \<noteq> None \<longleftrightarrow> fmlookup R j \<noteq> None) \<and>
     (\<forall>j r. fmlookup (co_jobs co) j = Some r \<longrightarrow> jb_status r = ''pending'' \<and> jb_completed_at r = None \<and>
        map_option fst (fmlookup R j) = Some (jb_work r)) \<and>
     (\<forall>j i. (j, i) \<in> S \<longrightarrow> fmlookup R j \<noteq> None)"

text \<open>The ids of two jobs do not collide: they are told apart by twenty digits of a hash.\<close>

definition ids_apart :: "crypto \<Rightarrow> string set \<Rightarrow> bool" where
  "ids_apart c J \<longleftrightarrow> (\<forall>j\<in>J. \<forall>k\<in>J. \<forall>i l. assignment_id c j i = assignment_id c k l \<longrightarrow> j = k)"

lemma ids_apartD: "ids_apart c J \<Longrightarrow> assignment_id c j i = assignment_id c k l \<Longrightarrow> j \<in> J \<Longrightarrow> k \<in> J \<Longrightarrow> j = k"
  unfolding ids_apart_def by blast

lemma in_fmdom: "fmlookup m k \<noteq> None \<Longrightarrow> k \<in> fset (fmdom m)"
  by (auto intro: fmdomI)

lemma tracks_rows_of:
  assumes "tracks c S R co" "fmlookup (co_assignments co) aid = Some r"
  shows "fmlookup R (as_job_id r) \<noteq> None" "aid = assignment_id c (as_job_id r) (as_shard_index r)"
  using assms unfolding tracks_def by fastforce+

lemma tracks_shard:
  assumes "tracks c S R co" "fmlookup R j = Some (root, n, rest)" "i < length (split_work root n)"
  shows "\<exists>r. fmlookup (co_assignments co) (assignment_id c j i) = Some r \<and>
    shard_row j i (split_work root n ! i) ((j, i) \<in> S) r"
  using assms unfolding tracks_def by blast

lemma tracks_row:
  assumes "tracks c S R co" "fmlookup (co_assignments co) aid = Some r"
  shows "\<exists>root n rest. fmlookup R (as_job_id r) = Some (root, n, rest) \<and>
    as_shard_index r < length (split_work root n) \<and> aid = assignment_id c (as_job_id r) (as_shard_index r)"
  using assms unfolding tracks_def by blast

lemma tracks_reserve:
  assumes tr: "tracks c S R co" and new: "fmlookup R j = None" and apart: "ids_apart c (insert j (fset (fmdom R)))"
  shows "\<exists>co'. insert_job c j requester sys w n at co = Inr co' \<and> tracks c S (fmupd j (w, n, rest) R) co'"
proof -
  let ?parts = "split_work w n" and ?R = "fmupd j (w, n, rest) R"
  have free: "fmlookup (co_assignments co) (assignment_id c j i) = None" for i
  proof (rule ccontr)
    assume "fmlookup (co_assignments co) (assignment_id c j i) \<noteq> None"
    then obtain r where r: "fmlookup (co_assignments co) (assignment_id c j i) = Some r" by auto
    note rr = tracks_rows_of[OF tr r]
    have "as_job_id r = j"
      using ids_apartD[OF apart rr(2)] in_fmdom[OF rr(1)] by simp
    then show False using rr(1) new by simp
  qed
  have foreign: "\<forall>aid r. fmlookup (co_assignments co) aid = Some r \<longrightarrow> as_job_id r = j \<longrightarrow> as_shard_index r < 0"
    using tracks_rows_of(1)[OF tr] new by metis
  from insert_assignments_new[of 0 ?parts "co_assignments co" c j] free foreign obtain m' where
    m': "fold_result (insert_assignment c j) (List.enumerate 0 ?parts) (co_assignments co) = Inr m'"
    "\<And>i. i < length ?parts \<Longrightarrow> \<exists>n. fmlookup m' (assignment_id c j i) = Some (shard_as ''pending'' n j i (?parts ! i))"
    "\<And>aid. \<forall>i<length ?parts. aid \<noteq> assignment_id c j i \<Longrightarrow> fmlookup m' aid = fmlookup (co_assignments co) aid"
    by auto
  have none: "fmlookup (co_jobs co) j = None" using tr new unfolding tracks_def by blast
  obtain co' where co': "insert_job c j requester sys w n at co = Inr co'" "co_assignments co' = m'"
    "co_jobs co' = fmupd j \<lparr> jb_requester_node_id = requester, jb_system_funded = sys, jb_work = w,
       jb_status = ''pending'', jb_reserved_mcu = wrap_i64 (sum_list (map work_cost_mcu ?parts)),
       jb_created_at = at, jb_completed_at = None \<rparr> (co_jobs co)"
    using m'(1) none by (simp add: insert_job_def Let_def insert_or_ignore_def)
  have old: "fmlookup m' aid = Some r" if "fmlookup (co_assignments co) aid = Some r" for aid r
    using m'(3)[of aid] free that by (metis option.simps(3))
  have new': "(\<exists>i<length ?parts. \<exists>n. aid = assignment_id c j i \<and> r = shard_as ''pending'' n j i (?parts ! i)) \<or>
      fmlookup (co_assignments co) aid = Some r" if "fmlookup m' aid = Some r" for aid r
  proof (cases "\<exists>i<length ?parts. aid = assignment_id c j i")
    case True
    then obtain i where i: "i < length ?parts" "aid = assignment_id c j i" by blast
    from m'(2)[OF i(1)] that i show ?thesis by auto
  qed (use m'(3)[of aid] that in auto)
  have "tracks c S ?R co'"
    unfolding tracks_def co'(2,3)
  proof (intro conjI allI impI)
    fix k root m rst i
    assume k: "fmlookup ?R k = Some (root, m, rst)" "i < length (split_work root m)"
    show "\<exists>r. fmlookup m' (assignment_id c k i) = Some r \<and> shard_row k i (split_work root m ! i) ((k, i) \<in> S) r"
    proof (cases "k = j")
      case True
      moreover have "(j, i) \<notin> S" using tr new unfolding tracks_def by blast
      ultimately show ?thesis using k m'(2)[of i] by (auto simp: shard_row_def shard_as_def)
    next
      case False
      with k tracks_shard[OF tr, of k root m rst i] show ?thesis by (auto dest: old)
    qed
  next
    fix aid r assume "fmlookup m' aid = Some r"
    from new'[OF this] show "\<exists>root m rst. fmlookup ?R (as_job_id r) = Some (root, m, rst) \<and>
      as_shard_index r < length (split_work root m) \<and> aid = assignment_id c (as_job_id r) (as_shard_index r)"
    proof (elim disjE exE conjE)
      assume "fmlookup (co_assignments co) aid = Some r"
      from tracks_row[OF tr this] new show ?thesis by auto
    qed (cases rest; simp add: shard_as_def)
  qed (use tr in \<open>cases rest; auto simp: tracks_def split: if_splits\<close>)+
  with co'(1) show ?thesis by blast
qed

lemma tracks_settle:
  assumes tr: "tracks c S R co" and R: "fmlookup R j = Some (root, n, rest)" "i < length (split_work root n)"
    and apart: "ids_apart c (fset (fmdom R))" and st: "status \<in> {''completed'', ''refunded''}"
  shows "\<exists>co'. settle_shard (assignment_id c j i) status result at co = Inr co' \<and> tracks c (insert (j, i) S) R co'"
proof -
  let ?aid = "assignment_id c j i"
  from tr R obtain r where r: "fmlookup (co_assignments co) ?aid = Some r"
    "shard_row j i (split_work root n ! i) ((j, i) \<in> S) r" unfolding tracks_def by blast
  let ?r = "r\<lparr> as_status := status, as_result := (case result of Some x \<Rightarrow> Some x | None \<Rightarrow> as_result r),
     as_completed_at := Some at, as_leased_to := None, as_lease_until := None \<rparr>"
  let ?co = "co\<lparr> co_assignments := fmupd ?aid ?r (co_assignments co) \<rparr>"
  have row: "shard_row j i (split_work root n ! i) True ?r"
    using r(2) st by (auto simp: shard_row_def shard_as_def split: if_splits)
  have other: "k = j \<and> l = i" if "fmlookup R k \<noteq> None" "assignment_id c k l = ?aid" for k l
    using ids_apartD[OF apart that(2)] in_fmdom[OF that(1)] in_fmdom[of R j] that(2) R(1) by auto
  have "tracks c (insert (j, i) S) R ?co"
    unfolding tracks_def
  proof (intro conjI allI impI)
    fix k w m rst l
    assume k: "fmlookup R k = Some (w, m, rst)" "l < length (split_work w m)"
    show "\<exists>x. fmlookup (co_assignments ?co) (assignment_id c k l) = Some x \<and>
      shard_row k l (split_work w m ! l) ((k, l) \<in> insert (j, i) S) x"
    proof (cases "(k, l) = (j, i)")
      case True then show ?thesis using row R k by auto
    next
      case False
      with other[of k l] k(1) have "assignment_id c k l \<noteq> ?aid" by auto
      with False tracks_shard[OF tr k] show ?thesis by auto
    qed
  next
    fix aid x assume "fmlookup (co_assignments ?co) aid = Some x"
    then show "\<exists>w m rst. fmlookup R (as_job_id x) = Some (w, m, rst) \<and>
      as_shard_index x < length (split_work w m) \<and> aid = assignment_id c (as_job_id x) (as_shard_index x)"
      using tracks_row[OF tr, of aid x] row R by (cases rest; cases "aid = ?aid") (auto simp: shard_row_def)
  qed (use tr R(1) in \<open>cases rest; auto simp: tracks_def\<close>)+
  then show ?thesis using r(1) by (auto simp: settle_shard_def)
qed

lemma tracks_nodes [simp]: "tracks c S R (co\<lparr> co_nodes := x \<rparr>) = tracks c S R co"
  by (simp add: tracks_def)

lemma verified_key:
  assumes "verify_auth_signature c k p act h = Inr ()"
  shows "\<exists>node. node_id_from_public_key_b64 c k = Some node"
  using assms by (auto simp: verify_auth_signature_def node_id_from_public_key_b64_def Let_def
      split: option.splits if_splits)

lemma audit_evidence_new:
  assumes "audit_evidence c t (s, act) = Inr (s2, act')" "reserves t = Some (j, w, n)"
  shows "fmlookup (ls_reservations s) j = None"
proof (rule ccontr)
  assume "fmlookup (ls_reservations s) j \<noteq> None"
  then show False using assms
    by (auto simp: audit_evidence_def reserves_def Let_def split: transaction_evidence.splits)
qed

text \<open>What the audit accepts the replay accepts, and the tables keep following.\<close>

lemma replay_transaction_tracks:
  assumes a: "audit_transaction c cert t (s, act) = Inr (s', act')"
    and tr: "tracks c S (ls_reservations s) co" and act: "act = (case advance of Some v \<Rightarrow> v | None \<Rightarrow> vset)"
    and apart: "ids_apart c J" "fset (fmdom (ls_reservations s')) \<subseteq> J"
  shows "\<exists>co' report' advance'. replay_transaction c now cert vset t (co, report, advance) = Inr (co', report', advance') \<and>
    tracks c (set_option (settles t) \<union> S) (ls_reservations s') co' \<and>
    act' = (case advance' of Some v \<Rightarrow> v | None \<Rightarrow> vset)"
proof -
  let ?s1 = "s\<lparr> ls_claims := finsert (claim_key t) (ls_claims s) \<rparr>"
  from a obtain s2 where
    v: "validate_historical_transaction c t (en_previous_hash (qc_entry cert)) (qc_signatures cert) (book_of s) act = Inr ()"
    and e: "audit_evidence c t (?s1, act) = Inr (s2, act')"
    and R: "ls_reservations s' = ls_reservations s2"
    by (rule audit_transaction_steps)
  have h: "verify_historical_evidence c t (en_previous_hash (qc_entry cert)) (qc_signatures cert) = Inr ()"
    using v by (simp add: validate_historical_transaction_def)
  note tb = audit_evidence_tables[OF e] and fresh = audit_evidence_new[OF e]
  have sub: "ids_apart c A" if "A \<subseteq> J" for A using apart(1) that unfolding ids_apart_def by blast
  show ?thesis
  proof (cases "settles t")
    case (Some ji)
    obtain j i where ji: "ji = (j, i)" by (cases ji)
    from e Some[unfolded ji] obtain root n sys req at where
      r: "fmlookup (ls_reservations ?s1) j = Some (root, n, sys, req, at)" "i < length (split_work root n)"
      by (rule audit_evidence_settles)
    have same: "ls_reservations s' = ls_reservations s" using tb Some by (simp add: R settles_def split: transaction_evidence.splits)
    have key: "claim_key t = ''reward:'' @ assignment_id c j i" by (rule settles_claim[OF v Some[unfolded ji]])
    have st: "\<exists>co'. settle_shard (assignment_id c j i) status result at' co = Inr co' \<and>
        tracks c (insert (j, i) S) (ls_reservations s') co'"
      if "status \<in> {''completed'', ''refunded''}" for status result at'
      unfolding same by (rule tracks_settle[OF tr _ r(2) _ that]) (use r(1) sub apart(2) same in auto)
    show ?thesis
    proof (cases "tx_evidence t")
      case (EvProviderReward x)
      then show ?thesis using Some st[of "''completed''" "Some (pr_result x)" "tx_created_at t"] h e key act
        by (auto simp: replay_transaction_def apply_transaction_def settles_def ji claim_key_def audit_evidence_def Let_def)
    next
      case (EvJobRefund x)
      then show ?thesis using Some st[of "''refunded''" "None" "tx_created_at t"] h e key act
        by (auto simp: replay_transaction_def apply_transaction_def settles_def ji claim_key_def audit_evidence_def Let_def)
    qed (use Some in \<open>simp_all add: settles_def\<close>)
  next
    case None
    show ?thesis
    proof (cases "tx_evidence t")
      case (EvJobReserve x)
      from h EvJobReserve obtain node where node: "node_id_from_public_key_b64 c (jr_requester_public_key_b64 x) = Some node"
        by (auto simp: verify_historical_evidence_def dest: verified_key)
      from node obtain co1 where co1: "requester_node c now (jr_requester_public_key_b64 x) co = Inr (node, co1)"
        "tracks c S (ls_reservations s) co1" using tr by (simp add: requester_node_def)
      have "\<exists>co'. insert_job c (jr_job_id x) (Some node) False (jr_work x) (jr_shards x) (tx_created_at t) co1 = Inr co' \<and>
          tracks c S (ls_reservations s') co'"
        unfolding R using tb e EvJobReserve
        by (simp, intro tracks_reserve[OF co1(2)] sub)
           (use apart(2) R fresh in \<open>auto simp: reserves_def\<close>)
      then show ?thesis using EvJobReserve None h co1(1) e act
        by (auto simp: replay_transaction_def apply_transaction_def audit_evidence_def Let_def split: if_splits)
    next
      case (EvCommunityReserve j w n sp)
      have "\<exists>co'. insert_job c j None True w n (tx_created_at t) co = Inr co' \<and> tracks c S (ls_reservations s') co'"
        unfolding R using tb e EvCommunityReserve
        by (simp, intro tracks_reserve[OF tr] sub)
           (use apart(2) R fresh in \<open>auto simp: reserves_def\<close>)
      then show ?thesis using EvCommunityReserve None h e act
        by (auto simp: replay_transaction_def apply_transaction_def audit_evidence_def Let_def split: if_splits)
    next
      case (EvMembershipChange x)
      then show ?thesis using None h e tb act tr R
        by (auto simp: replay_transaction_def apply_transaction_def audit_evidence_def Let_def)
    qed (use None h e tb act tr R in
        \<open>auto simp: replay_transaction_def apply_transaction_def audit_evidence_def settles_def Let_def split: if_splits\<close>)
  qed
qed

text \<open>The reservations an audit has read stay.\<close>

lemma dom_recorded:
  assumes "\<And>r. recorded s r \<Longrightarrow> recorded s' r"
  shows "fset (fmdom (ls_reservations s)) \<subseteq> fset (fmdom (ls_reservations s'))"
proof
  fix j assume "j \<in> fset (fmdom (ls_reservations s))"
  then obtain root n rest where "fmlookup (ls_reservations s) j = Some (root, n, rest)" by (metis fmdomE prod_cases3)
  with assms[of "(j, root, n)"] show "j \<in> fset (fmdom (ls_reservations s'))" by (cases rest) (auto simp: recorded_def intro: fmdomI)
qed

lemma replay_transactions_tracks:
  assumes "fold_result (audit_transaction c cert) ts (s, act) = Inr (s', act')"
    and "tracks c S (ls_reservations s) co" "act = (case advance of Some v \<Rightarrow> v | None \<Rightarrow> vset)"
    and "ids_apart c J" "fset (fmdom (ls_reservations s')) \<subseteq> J"
  shows "\<exists>co' report' advance'. fold_result (replay_transaction c now cert vset) ts (co, report, advance) = Inr (co', report', advance') \<and>
    tracks c ((\<Union>t\<in>set ts. set_option (settles t)) \<union> S) (ls_reservations s') co' \<and>
    act' = (case advance' of Some v \<Rightarrow> v | None \<Rightarrow> vset)"
  using assms
proof (induction ts arbitrary: s act S co report advance)
  case (Cons t ts)
  from Cons.prems(1) obtain s1 act1 where 1: "audit_transaction c cert t (s, act) = Inr (s1, act1)"
    "fold_result (audit_transaction c cert) ts (s1, act1) = Inr (s', act')" by auto
  have "fset (fmdom (ls_reservations s1)) \<subseteq> J"
    using dom_recorded[of s1 s'] audit_transactions_recorded[OF 1(2)] Cons.prems(5) by blast
  from replay_transaction_tracks[OF 1(1) Cons.prems(2,3,4) this] obtain co1 rp1 adv1 where
    2: "replay_transaction c now cert vset t (co, report, advance) = Inr (co1, rp1, adv1)"
    "tracks c (set_option (settles t) \<union> S) (ls_reservations s1) co1"
    "act1 = (case adv1 of Some v \<Rightarrow> v | None \<Rightarrow> vset)" by blast
  from Cons.IH[OF 1(2) 2(2,3) Cons.prems(4,5)] 2(1) show ?case
    by (fastforce simp: Un_assoc Un_left_commute)
qed simp

lemma replay_transactions_entries:
  assumes "fold_result (replay_transaction c now cert vset) ts (co, report, advance) = Inr (co', report', advance')"
  shows "rp_entries report' = rp_entries report"
  using assms
proof (induction ts arbitrary: co report advance)
  case (Cons t ts)
  from Cons.prems obtain co1 rp1 adv1 where 1: "replay_transaction c now cert vset t (co, report, advance) = Inr (co1, rp1, adv1)"
    "fold_result (replay_transaction c now cert vset) ts (co1, rp1, adv1) = Inr (co', report', advance')" by auto
  from 1(1) have "rp_entries rp1 = rp_entries report"
    by (auto simp: replay_transaction_def apply_transaction_def split: transaction_evidence.splits)
  with Cons.IH[OF 1(2)] show ?case by simp
qed simp

lemma replay_certificate_tracks:
  assumes "audit_certificate c cert (seq, prev, s, act) = Inr (seq', prev', s', act')"
    and "tracks c S (ls_reservations s) co" "ids_apart c J" "fset (fmdom (ls_reservations s')) \<subseteq> J"
  shows "\<exists>co' report'. replay_certificate c now cert (co, report, seq + 1, act) = Inr (co', report', seq' + 1, act') \<and>
    rp_entries report' = rp_entries report + 1 \<and>
    tracks c ((\<Union>t\<in>set (cert_txs cert). set_option (settles t)) \<union> S) (ls_reservations s') co'"
proof -
  from assms(1)[unfolded audit_certificate_ok] have a: "verify_certificate c cert act = Inr ()" "cert_seq cert = seq + 1"
    "seq' = cert_seq cert" "fold_result (audit_transaction c cert) (cert_txs cert) (s, act) = Inr (s', act')" by blast+
  from replay_transactions_tracks[OF a(4) assms(2) _ assms(3,4), where advance = None and vset = act and now = now and report = report] obtain co' rp adv where
    r: "fold_result (replay_transaction c now cert act) (cert_txs cert) (co, report, None) = Inr (co', rp, adv)"
    "tracks c ((\<Union>t\<in>set (cert_txs cert). set_option (settles t)) \<union> S) (ls_reservations s') co'"
    "act' = (case adv of Some v \<Rightarrow> v | None \<Rightarrow> act)" by auto
  have "rp_entries rp = rp_entries report" using replay_transactions_entries[OF r(1)] .
  with r a show ?thesis by (simp add: replay_certificate_def)
qed

lemma replay_page_tracks:
  assumes "fold_result (audit_certificate c) certs (seq, prev, s, act) = Inr (seq', prev', s', act')"
    and "tracks c S (ls_reservations s) co" "ids_apart c J" "fset (fmdom (ls_reservations s')) \<subseteq> J"
  shows "\<exists>co' report'. replay_page c now certs (co, report, seq + 1, act) = (co', Inr (report', seq' + 1, act')) \<and>
    rp_entries report' = rp_entries report + length certs \<and>
    tracks c ((\<Union>t\<in>set (concat (map cert_txs certs)). set_option (settles t)) \<union> S) (ls_reservations s') co'"
  using assms
proof (induction certs arbitrary: seq prev s act S co report)
  case (Cons cert certs)
  from Cons.prems(1) obtain n1 h1 s1 act1 where 1: "audit_certificate c cert (seq, prev, s, act) = Inr (n1, h1, s1, act1)"
    "fold_result (audit_certificate c) certs (n1, h1, s1, act1) = Inr (seq', prev', s', act')" by auto
  have "fset (fmdom (ls_reservations s1)) \<subseteq> J"
    using dom_recorded[of s1 s'] audit_certificates_recorded[OF 1(2)] Cons.prems(4) by blast
  from replay_certificate_tracks[OF 1(1) Cons.prems(2,3) this] obtain co1 rp1 where
    2: "replay_certificate c now cert (co, report, seq + 1, act) = Inr (co1, rp1, n1 + 1, act1)"
    "rp_entries rp1 = rp_entries report + 1"
    "tracks c ((\<Union>t\<in>set (cert_txs cert). set_option (settles t)) \<union> S) (ls_reservations s1) co1" by blast
  from Cons.IH[OF 1(2) 2(3) Cons.prems(3,4), of rp1] 2(1,2) show ?case
    by (simp add: Un_assoc Un_left_commute)
qed simp

lemma audit_transaction_only:
  assumes "audit_transaction c cert t (s, act) = Inr (s', act')" "recorded s' r"
  shows "recorded s r \<or> reserves t = Some r"
proof -
  from assms(1) obtain s2 where
    e: "audit_evidence c t (s\<lparr> ls_claims := finsert (claim_key t) (ls_claims s) \<rparr>, act) = Inr (s2, act')"
    and r: "ls_reservations s' = ls_reservations s2" by (rule audit_transaction_steps)
  from audit_evidence_tables[OF e] assms(2) show ?thesis
    by (cases r) (auto simp: recorded_def r reserves_def split: transaction_evidence.splits if_splits)
qed

lemma audit_transactions_only:
  assumes "fold_result (audit_transaction c cert) ts (s, act) = Inr (s', act')" "recorded s' r"
  shows "recorded s r \<or> (\<exists>t\<in>set ts. reserves t = Some r)"
  using assms
proof (induction ts arbitrary: s act)
  case (Cons t ts)
  then obtain s1 act1 where 1: "audit_transaction c cert t (s, act) = Inr (s1, act1)"
    "fold_result (audit_transaction c cert) ts (s1, act1) = Inr (s', act')" by auto
  from Cons.IH[OF 1(2) Cons.prems(2)] audit_transaction_only[OF 1(1), of r] show ?case by auto
qed simp

lemma audit_certificates_only:
  assumes "fold_result (audit_certificate c) certs (seq, prev, s, act) = Inr (seq', prev', s', act')" "recorded s' r"
  shows "recorded s r \<or> (\<exists>t\<in>set (concat (map cert_txs certs)). reserves t = Some r)"
  using assms
proof (induction certs arbitrary: seq prev s act)
  case (Cons cert certs)
  then obtain n1 h1 s1 act1 where 1: "audit_certificate c cert (seq, prev, s, act) = Inr (n1, h1, s1, act1)"
    "fold_result (audit_certificate c) certs (n1, h1, s1, act1) = Inr (seq', prev', s', act')" by auto
  from 1(1)[unfolded audit_certificate_ok]
  have "fold_result (audit_transaction c cert) (cert_txs cert) (s, act) = Inr (s1, act1)" by blast
  from Cons.IH[OF 1(2) Cons.prems(2)] audit_transactions_only[OF this, of r] show ?case by auto
qed simp

subsection \<open>Paging\<close>

lemma replay_page_append:
  "replay_page c now (xs @ ys) st =
   (case replay_page c now xs st of
      (co, Inl e) \<Rightarrow> (co, Inl e)
    | (co, Inr st') \<Rightarrow> replay_page c now ys (co, st'))"
  by (induction xs arbitrary: st) (auto split: sum.splits)

lemma replay_serves:
  assumes "\<And>n co r v. n < length certs \<Longrightarrow> replay_page c now (take n certs) st0 = (co, Inr (r, Suc n, v)) \<Longrightarrow>
      \<exists>k>0. fetch (Suc n) batch v = Inr (take k (drop n certs))"
    and "n \<le> length certs" "replay_page c now (take n certs) st0 = (co, Inr (r, Suc n, v))"
  shows "replay c now fetch batch (length certs) (co, r, Suc n, v) = replay_page c now (drop n certs) (co, r, Suc n, v)"
  using assms(2,3)
proof (induction "length certs - n" arbitrary: n co r v rule: less_induct)
  case less
  show ?case
  proof (cases "n < length certs")
    case False
    then show ?thesis using less.prems(1) by (subst replay.simps) simp
  next
    case True
    then obtain k where k: "k > 0" "fetch (Suc n) batch v = Inr (take k (drop n certs))"
      using assms(1)[OF True less.prems(2)] by blast
    let ?page = "take k (drop n certs)" and ?m = "min (n + k) (length certs)"
    obtain cert rest where page: "?page = cert # rest" using True k(1) by (cases ?page) auto
    have m: "n < ?m" "?m \<le> length certs" "n + length ?page = ?m" using True k(1) by auto
    have split1: "take ?m certs = take n certs @ ?page" using True by (simp add: take_add min_def)
    have split2: "drop n certs = ?page @ drop ?m certs"
      using True append_take_drop_id[of k "drop n certs"] by (auto simp add: min_def add.commute)
    have root: "replay_page c now (drop n certs) st = (case replay_page c now ?page st of
        (co, Inl e) \<Rightarrow> (co, Inl e) | (co, Inr st') \<Rightarrow> replay_page c now (drop ?m certs) (co, st'))" for st
      by (subst split2) (rule replay_page_append)
    obtain co1 out where o: "replay_page c now ?page (co, r, Suc n, v) = (co1, out)" by fastforce
    show ?thesis
    proof (cases out)
      case (Inl e)
      have "replay_page c now (drop n certs) (co, r, Suc n, v) = (co1, Inl e)"
        unfolding root o Inl by simp
      moreover have "replay c now fetch batch (length certs) (co, r, Suc n, v) = (co1, Inl e)"
        using True k(2) o[unfolded page Inl] by (subst replay.simps) (simp del: replay_page.simps add: page)
      ultimately show ?thesis by simp
    next
      case (Inr st1)
      obtain r1 n1 v1 where st1: "st1 = (r1, n1, v1)" by (cases st1)
      have n1: "n1 = Suc ?m" using replay_page_progress[OF o[unfolded Inr st1]] m(3) by simp
      have at: "replay_page c now (take ?m certs) st0 = (co1, Inr (r1, Suc ?m, v1))"
        unfolding split1 replay_page_append less.prems(2) using o Inr st1 n1 by simp
      have "replay c now fetch batch (length certs) (co, r, Suc n, v) = replay c now fetch batch (length certs) (co1, r1, Suc ?m, v1)"
        using True k(2) o[unfolded page Inr st1 n1] by (subst replay.simps) (simp del: replay_page.simps add: page)
      also have "\<dots> = replay_page c now (drop ?m certs) (co1, r1, Suc ?m, v1)"
        by (rule less.hyps[OF _ m(2) at]) (use m True in linarith)
      also have "\<dots> = replay_page c now (drop n certs) (co, r, Suc n, v)"
        unfolding root o Inr st1 n1 by simp
      finally show ?thesis .
    qed
  qed
qed

subsection \<open>A rebuild\<close>

text \<open>A source that serves a chain: whatever the replay asks for next, it gets some of, with the set it holds.\<close>

definition serves ::
  "crypto \<Rightarrow> int \<Rightarrow> source \<Rightarrow> nat \<Rightarrow> quorum_certificate list \<Rightarrow> coordinator \<times> rebuild_report \<times> nat \<times> validator_set \<Rightarrow> bool" where
  "serves c now fetch batch certs st0 \<longleftrightarrow>
     (\<forall>n<length certs. \<forall>co r v. replay_page c now (take n certs) st0 = (co, Inr (r, Suc n, v)) \<longrightarrow>
        (\<exists>k>0. fetch (Suc n) batch v = Inr (take k (drop n certs))))"

definition reserved_jobs :: "ledger_transaction list \<Rightarrow> string set" where
  "reserved_jobs txs = {j. \<exists>t\<in>set txs. \<exists>w n. reserves t = Some (j, w, n)}"

lemma tracks_empty: "tracks c {} fmempty empty_coordinator"
  by (simp add: tracks_def empty_coordinator_def)

lemma default_not_recorded: "\<not> recorded default_state r"
  by (auto simp: recorded_def default_state_def split: prod.splits)

lemma rebuild_audited:
  assumes a: "audit c db vset = Inr h" and certs: "certs = certificates_from db 1 None"
    and txs: "txs = concat (map cert_txs certs)" and apart: "ids_apart c (reserved_jobs txs)"
    and served: "serves c now fetch (max batch 1) certs (empty_coordinator, empty_report, 1, vset)"
  obtains co report R act where
    "replay_from c now fetch batch 1 vset (length certs) empty_coordinator =
       ((finalize_jobs co)\<lparr> co_watermark := Some (length certs + 1, act) \<rparr>,
        Inr (report\<lparr> rp_open_shards := open_shards co \<rparr>))"
    "rp_entries report = length certs" "tracks c (\<Union>t\<in>set txs. set_option (settles t)) R co"
    "\<forall>j root n. (\<exists>rest. fmlookup R j = Some (root, n, rest)) \<longleftrightarrow> (\<exists>t\<in>set txs. reserves t = Some (j, root, n))"
proof -
  from a certs obtain seq prev s act where
    r: "fold_result (audit_certificate c) certs (0, GENESIS, default_state, vset) = Inr (seq, prev, s, act)"
    by (auto simp: audit_def audit_from_def audit_start_def Let_def split: if_splits)
  have R: "(\<exists>rest. fmlookup (ls_reservations s) j = Some (root, n, rest)) \<longleftrightarrow> (\<exists>t\<in>set txs. reserves t = Some (j, root, n))"
    for j root n
    using audit_certificates_only[OF r, of "(j, root, n)"] audit_certificates_recorded[OF r, of "(j, root, n)"]
      default_not_recorded[of "(j, root, n)"] unfolding txs by (simp add: recorded_def) blast
  have "fset (fmdom (ls_reservations s)) \<subseteq> reserved_jobs txs"
  proof
    fix j assume "j \<in> fset (fmdom (ls_reservations s))"
    then obtain root n rest where "fmlookup (ls_reservations s) j = Some (root, n, rest)" by (metis fmdomE prod_cases3)
    with R[of j root n] show "j \<in> reserved_jobs txs" unfolding reserved_jobs_def by blast
  qed
  from replay_page_tracks[OF r _ apart this, of "{}" empty_coordinator now empty_report] tracks_empty obtain co report where
    p: "replay_page c now certs (empty_coordinator, empty_report, 1, vset) = (co, Inr (report, seq + 1, act))"
    "rp_entries report = length certs" "tracks c (\<Union>t\<in>set txs. set_option (settles t)) (ls_reservations s) co"
    unfolding txs by (auto simp: default_state_def empty_report_def)
  have "seq + 1 = length certs + 1" using replay_page_progress[OF p(1)] by simp
  moreover have "replay c now fetch (max batch 1) (length certs) (empty_coordinator, empty_report, 1, vset) =
      (co, Inr (report, seq + 1, act))"
    using replay_serves[of certs c now "(empty_coordinator, empty_report, 1, vset)" fetch "max batch 1" 0]
      served p(1) unfolding serves_def by simp
  ultimately have "replay_from c now fetch batch 1 vset (length certs) empty_coordinator =
       ((finalize_jobs co)\<lparr> co_watermark := Some (length certs + 1, act) \<rparr>,
        Inr (report\<lparr> rp_open_shards := open_shards co \<rparr>))"
    by (simp add: replay_from_def Let_def open_shards_def finalize_jobs_def)
  from that[OF this p(2,3)] R show thesis by blast
qed

subsection \<open>Replaying again\<close>

text \<open>The tables already hold what a transaction would write.\<close>

definition job_there :: "crypto \<Rightarrow> string \<Rightarrow> work_spec \<Rightarrow> nat \<Rightarrow> coordinator \<Rightarrow> bool" where
  "job_there c j w n co \<longleftrightarrow> fmlookup (co_jobs co) j \<noteq> None \<and>
     (\<forall>i<length (split_work w n). fmlookup (co_assignments co) (assignment_id c j i) \<noteq> None)"

definition closed_as :: "string \<Rightarrow> string \<Rightarrow> work_result option \<Rightarrow> int \<Rightarrow> coordinator \<Rightarrow> bool" where
  "closed_as aid status result at co \<longleftrightarrow>
     (\<exists>r. fmlookup (co_assignments co) aid = Some r \<and> as_status r = status \<and> as_completed_at r = Some at \<and>
        as_leased_to r = None \<and> as_lease_until r = None \<and> (result = None \<or> as_result r = result))"

definition absorbed :: "crypto \<Rightarrow> ledger_transaction \<Rightarrow> coordinator \<Rightarrow> bool" where
  "absorbed c t co \<longleftrightarrow>
     (case tx_evidence t of
        EvJobReserve e \<Rightarrow> job_there c (jr_job_id e) (jr_work e) (jr_shards e) co \<and>
          (\<exists>node. node_id_from_public_key_b64 c (jr_requester_public_key_b64 e) = Some node \<and>
             fmlookup (co_nodes co) node \<noteq> None)
      | EvCommunityReserve j w n _ \<Rightarrow> job_there c j w n co
      | EvProviderReward e \<Rightarrow> closed_as (pr_assignment_id e) ''completed'' (Some (pr_result e)) (tx_created_at t) co
      | EvJobRefund e \<Rightarrow> closed_as (rf_assignment_id e) ''refunded'' None (tx_created_at t) co
      | _ \<Rightarrow> True)"

definition reported :: "ledger_transaction \<Rightarrow> rebuild_report \<Rightarrow> rebuild_report" where
  "reported t report =
     (case tx_evidence t of
        EvJobReserve _ \<Rightarrow> report\<lparr> rp_jobs := rp_jobs report + 1 \<rparr>
      | EvCommunityReserve _ _ _ _ \<Rightarrow> report\<lparr> rp_jobs := rp_jobs report + 1 \<rparr>
      | EvProviderReward _ \<Rightarrow> report\<lparr> rp_settled_shards := rp_settled_shards report + 1 \<rparr>
      | EvJobRefund _ \<Rightarrow> report\<lparr> rp_settled_shards := rp_settled_shards report + 1 \<rparr>
      | _ \<Rightarrow> report)"

lemma insert_assignment_keep:
  assumes "insert_assignment c j ip m = Inr m'"
  shows "fmlookup m aid = Some r \<Longrightarrow> fmlookup m' aid = Some r" "fmlookup m' (assignment_id c j (fst ip)) \<noteq> None"
  using assms by (auto simp: insert_assignment_def split: prod.splits if_splits)

lemma insert_assignments_keep:
  assumes "fold_result (insert_assignment c j) (List.enumerate k parts) m = Inr m'" "fmlookup m aid = Some r"
  shows "fmlookup m' aid = Some r"
  using assms
proof (induction parts arbitrary: k m)
  case (Cons part parts)
  from Cons.prems obtain m1 where "insert_assignment c j (k, part) m = Inr m1"
    "fold_result (insert_assignment c j) (List.enumerate (Suc k) parts) m1 = Inr m'" by auto
  with Cons.IH Cons.prems(2) insert_assignment_keep(1) show ?case by blast
qed simp

lemma insert_assignments_there:
  assumes "fold_result (insert_assignment c j) (List.enumerate k parts) m = Inr m'" "k \<le> i" "i < k + length parts"
  shows "fmlookup m' (assignment_id c j i) \<noteq> None"
  using assms
proof (induction parts arbitrary: k m)
  case (Cons part parts)
  from Cons.prems obtain m1 where m1: "insert_assignment c j (k, part) m = Inr m1"
    "fold_result (insert_assignment c j) (List.enumerate (Suc k) parts) m1 = Inr m'" by auto
  show ?case
  proof (cases "i = k")
    case True
    with insert_assignment_keep(2)[OF m1(1)] insert_assignments_keep[OF m1(2)] show ?thesis by fastforce
  next
    case False
    with Cons.IH[OF m1(2)] Cons.prems show ?thesis by simp
  qed
qed simp

lemma insert_job_there:
  assumes "insert_job c j requester sys w n at co = Inr co'"
  shows "job_there c j w n co'" "co_nodes co' = co_nodes co"
    and "fmlookup (co_jobs co) x \<noteq> None \<Longrightarrow> fmlookup (co_jobs co') x = fmlookup (co_jobs co) x"
    and "fmlookup (co_assignments co) aid = Some r \<Longrightarrow> fmlookup (co_assignments co') aid = Some r"
  using assms insert_assignments_there[of c j 0 "split_work w n" "co_assignments co"]
    insert_assignments_keep[of c j 0 "split_work w n" "co_assignments co"]
  by (auto simp: insert_job_def Let_def job_there_def insert_or_ignore_def split: if_splits)

lemma insert_job_again:
  assumes "job_there c j w n co" shows "insert_job c j requester sys w n at co = Inr co"
  using assms insert_assignments_again[of 0 "split_work w n" "co_assignments co" c j]
  by (auto simp: insert_job_def Let_def job_there_def insert_or_ignore_def)

lemma settle_shard_closed:
  assumes "settle_shard aid status result at co = Inr co'"
  shows "closed_as aid status result at co'" "co_nodes co' = co_nodes co" "co_jobs co' = co_jobs co"
    and "x \<noteq> aid \<Longrightarrow> fmlookup (co_assignments co') x = fmlookup (co_assignments co) x"
    and "fmlookup (co_assignments co) x = Some y \<Longrightarrow> \<exists>y. fmlookup (co_assignments co') x = Some y"
  using assms by (auto simp: settle_shard_def closed_as_def split: option.splits)

lemma settle_shard_again:
  assumes "closed_as aid status result at co" shows "settle_shard aid status result at co = Inr co"
proof -
  from assms obtain r where r: "fmlookup (co_assignments co) aid = Some r" "as_status r = status"
    "as_completed_at r = Some at" "as_leased_to r = None" "as_lease_until r = None" "result = None \<or> as_result r = result"
    unfolding closed_as_def by blast
  then have "r\<lparr> as_status := status, as_result := (case result of Some x \<Rightarrow> Some x | None \<Rightarrow> as_result r),
     as_completed_at := Some at, as_leased_to := None, as_lease_until := None \<rparr> = r" by (auto split: option.splits)
  moreover have "fmupd aid r (co_assignments co) = co_assignments co" by (rule fmap_ext) (auto simp: r(1))
  ultimately show ?thesis using r(1) by (simp add: settle_shard_def)
qed

lemma requester_node_there:
  assumes "requester_node c now k co = Inr (node, co')"
  shows "node_id_from_public_key_b64 c k = Some node" "\<exists>y. fmlookup (co_nodes co') node = Some y"
    "co_jobs co' = co_jobs co" "co_assignments co' = co_assignments co"
    and "fmlookup (co_nodes co) x = Some y \<Longrightarrow> \<exists>y. fmlookup (co_nodes co') x = Some y"
  using assms by (auto simp: requester_node_def insert_or_ignore_def split: option.splits if_splits)

lemma requester_present:
  assumes "requester_node c now k co = Inr (n, co')"
  shows "\<exists>node. node_id_from_public_key_b64 c k = Some node \<and> (\<exists>y. fmlookup (co_nodes co') node = Some y)"
  using requester_node_there(1,2)[OF assms] by blast

lemma requester_node_again:
  assumes "node_id_from_public_key_b64 c k = Some node" "fmlookup (co_nodes co) node \<noteq> None"
  shows "requester_node c now k co = Inr (node, co)"
  using assms by (simp add: requester_node_def insert_or_ignore_keep)

lemma apply_transaction_absorbed:
  assumes "apply_transaction c now t (co, report) = Inr (co', report')"
  shows "absorbed c t co'" "report' = reported t report"
  using assms
  by (auto simp: apply_transaction_def absorbed_def reported_def insert_job_there settle_shard_closed
      intro: requester_present split: transaction_evidence.splits)

lemma apply_transaction_again:
  assumes "absorbed c t co"
  shows "apply_transaction c now t (co, report) = Inr (co, reported t report)"
  using assms
  by (auto simp: apply_transaction_def absorbed_def reported_def insert_job_again settle_shard_again
      requester_node_again split: transaction_evidence.splits)

lemma closed_as_keep:
  assumes "closed_as aid status result at co" "fmlookup (co_assignments co') aid = fmlookup (co_assignments co) aid"
  shows "closed_as aid status result at co'"
  using assms by (simp add: closed_as_def)

text \<open>A transaction with another claim leaves alone what was absorbed.\<close>

lemma apply_transaction_tables:
  assumes "apply_transaction c now u (co, report) = Inr (co', report')"
  shows "fmlookup (co_nodes co) x \<noteq> None \<Longrightarrow> fmlookup (co_nodes co') x \<noteq> None"
    and "fmlookup (co_jobs co) x \<noteq> None \<Longrightarrow> fmlookup (co_jobs co') x \<noteq> None"
    and "fmlookup (co_assignments co) x \<noteq> None \<Longrightarrow> fmlookup (co_assignments co') x \<noteq> None"
    and "fmlookup (co_assignments co) x \<noteq> None \<Longrightarrow> claim_of u \<noteq> SettleShard x \<Longrightarrow>
      fmlookup (co_assignments co') x = fmlookup (co_assignments co) x"
  using assms
  by (auto simp: apply_transaction_def claim_of_def insert_job_there settle_shard_closed requester_node_there
      split: transaction_evidence.splits)

lemma absorbed_keep:
  assumes "absorbed c t co" "apply_transaction c now u (co, report) = Inr (co', report')" "claim_of t \<noteq> claim_of u"
  shows "absorbed c t co'"
proof -
  note k = apply_transaction_tables[OF assms(2)]
  have there: "job_there c j w n co \<Longrightarrow> job_there c j w n co'" for j w n
    using k(2,3) unfolding job_there_def by blast
  have closed: "closed_as aid status result at co \<Longrightarrow> claim_of u \<noteq> SettleShard aid \<Longrightarrow> closed_as aid status result at co'"
    for aid status result at using k(4)[of aid] closed_as_keep unfolding closed_as_def by fastforce
  have node: "\<exists>y. fmlookup (co_nodes co) x = Some y \<Longrightarrow> \<exists>y. fmlookup (co_nodes co') x = Some y" for x
    using k(1)[of x] by auto
  show ?thesis using assms(1,3) there closed node
    by (auto simp: absorbed_def claim_of_def split: transaction_evidence.splits)
qed

definition absorbed_all :: "crypto \<Rightarrow> ledger_transaction list \<Rightarrow> coordinator \<Rightarrow> bool" where
  "absorbed_all c ts co \<longleftrightarrow> (\<forall>t\<in>set ts. absorbed c t co)"

text \<open>A replayed transaction: what was verified, and the tables it was applied to.\<close>

lemma replay_transaction_ok:
  assumes "replay_transaction c now cert vset t (co, report, advance) = Inr (co', report', advance')"
  shows "apply_transaction c now t (co, report) = Inr (co', report')" "report' = reported t report"
    and "absorbed c t co2 \<Longrightarrow> replay_transaction c now2 cert vset t (co2, report, advance) = Inr (co2, report', advance')"
proof -
  show a: "apply_transaction c now t (co, report) = Inr (co', report')"
    using assms by (auto simp: replay_transaction_def split: transaction_evidence.splits)
  then show r: "report' = reported t report" by (rule apply_transaction_absorbed(2))
  show "replay_transaction c now2 cert vset t (co2, report, advance) = Inr (co2, report', advance')"
    if "absorbed c t co2"
    using assms r unfolding replay_transaction_def
    by (auto simp: apply_transaction_again[OF that] split: transaction_evidence.splits)
qed

lemma replay_transactions_absorb:
  assumes "fold_result (replay_transaction c now cert vset) ts (co, report, advance) = Inr (co', report', advance')"
    and "distinct (map claim_of (us @ ts))" "absorbed_all c us co"
  shows "absorbed_all c (us @ ts) co'"
  using assms
proof (induction ts arbitrary: us co report advance)
  case (Cons t ts)
  from Cons.prems(1) obtain co1 rp1 adv1 where 1: "replay_transaction c now cert vset t (co, report, advance) = Inr (co1, rp1, adv1)"
    "fold_result (replay_transaction c now cert vset) ts (co1, rp1, adv1) = Inr (co', report', advance')" by auto
  note a = replay_transaction_ok(1)[OF 1(1)]
  have "claim_of u \<noteq> claim_of t" if "u \<in> set us" for u using Cons.prems(2) that by (auto simp: image_iff)
  then have "absorbed_all c (us @ [t]) co1"
    using Cons.prems(3) absorbed_keep[OF _ a] apply_transaction_absorbed(1)[OF a] by (auto simp: absorbed_all_def)
  with Cons.IH[OF 1(2), of "us @ [t]"] Cons.prems(2) show ?case by simp
qed simp

lemma replay_transactions_again:
  assumes "fold_result (replay_transaction c now cert vset) ts (co, report, advance) = Inr (co', report', advance')"
    and "absorbed_all c ts co2"
  shows "fold_result (replay_transaction c now2 cert vset) ts (co2, report, advance) = Inr (co2, report', advance')"
  using assms
proof (induction ts arbitrary: co report advance)
  case (Cons t ts)
  from Cons.prems(1) obtain co1 rp1 adv1 where 1: "replay_transaction c now cert vset t (co, report, advance) = Inr (co1, rp1, adv1)"
    "fold_result (replay_transaction c now cert vset) ts (co1, rp1, adv1) = Inr (co', report', advance')" by auto
  from Cons.IH[OF 1(2)] replay_transaction_ok(3)[OF 1(1), of co2] Cons.prems(2) show ?case
    by (simp add: absorbed_all_def)
qed simp

lemma replay_certificate_absorb:
  assumes "replay_certificate c now cert (co, report, n, vset) = Inr (co', report', n', vset')"
  shows "distinct (map claim_of (us @ cert_txs cert)) \<Longrightarrow> absorbed_all c us co \<Longrightarrow> absorbed_all c (us @ cert_txs cert) co'"
    and "absorbed_all c (cert_txs cert) co2 \<Longrightarrow>
      replay_certificate c now2 cert (co2, report, n, vset) = Inr (co2, report', n', vset')"
proof -
  from assms obtain rp adv where r: "fold_result (replay_transaction c now cert vset) (cert_txs cert) (co, report, None) = Inr (co', rp, adv)"
    "report' = rp\<lparr> rp_entries := rp_entries rp + 1 \<rparr>" "n' = cert_seq cert + 1" "cert_seq cert = n"
    "vset' = (case adv of Some s \<Rightarrow> s | None \<Rightarrow> vset)" "verify_certificate c cert vset = Inr ()"
    by (auto simp: replay_certificate_def split: if_splits)
  show "distinct (map claim_of (us @ cert_txs cert)) \<Longrightarrow> absorbed_all c us co \<Longrightarrow> absorbed_all c (us @ cert_txs cert) co'"
    by (rule replay_transactions_absorb[OF r(1)])
  show "replay_certificate c now2 cert (co2, report, n, vset) = Inr (co2, report', n', vset')"
    if a: "absorbed_all c (cert_txs cert) co2"
    using r replay_transactions_again[OF r(1) a] by (simp add: replay_certificate_def)
qed

lemma replay_page_absorb:
  assumes "replay_page c now certs (co, report, n, vset) = (co', Inr out)"
    and "distinct (map claim_of (us @ concat (map cert_txs certs)))" "absorbed_all c us co"
  shows "absorbed_all c (us @ concat (map cert_txs certs)) co'"
  using assms
proof (induction certs arbitrary: us co report n vset)
  case (Cons cert certs)
  from Cons.prems(1) obtain co1 rp1 n1 v1 where 1: "replay_certificate c now cert (co, report, n, vset) = Inr (co1, rp1, n1, v1)"
    "replay_page c now certs (co1, rp1, n1, v1) = (co', Inr out)" by (auto split: sum.splits)
  have "absorbed_all c (us @ cert_txs cert) co1"
    by (rule replay_certificate_absorb(1)[OF 1(1)]) (use Cons.prems(2,3) in auto)
  with Cons.IH[OF 1(2), of "us @ cert_txs cert"] Cons.prems(2) show ?case by simp
qed simp

lemma replay_page_again:
  assumes "replay_page c now certs (co, report, n, vset) = (co', Inr out)" "absorbed_all c (concat (map cert_txs certs)) co2"
  shows "replay_page c now2 certs (co2, report, n, vset) = (co2, Inr out)"
  using assms
proof (induction certs arbitrary: co report n vset)
  case (Cons cert certs)
  from Cons.prems(1) obtain co1 rp1 n1 v1 where 1: "replay_certificate c now cert (co, report, n, vset) = Inr (co1, rp1, n1, v1)"
    "replay_page c now certs (co1, rp1, n1, v1) = (co', Inr out)" by (auto split: sum.splits)
  have "replay_certificate c now2 cert (co2, report, n, vset) = Inr (co2, rp1, n1, v1)"
    by (rule replay_certificate_absorb(2)[OF 1(1)]) (use Cons.prems(2) in \<open>simp add: absorbed_all_def\<close>)
  with Cons.IH[OF 1(2)] Cons.prems(2) show ?case by (auto simp: absorbed_all_def)
qed simp

lemma absorbed_finalize [simp]:
  "absorbed c t (finalize_jobs co) = absorbed c t co" "absorbed c t (co\<lparr> co_watermark := w \<rparr>) = absorbed c t co"
  by (auto simp: absorbed_def finalize_jobs_def job_there_def closed_as_def split: transaction_evidence.splits)

lemma finalize_jobs_tables [simp]:
  "co_assignments (finalize_jobs co) = co_assignments co" "co_nodes (finalize_jobs co) = co_nodes co"
  "co_watermark (finalize_jobs co) = co_watermark co" "job_closed (finalize_jobs co) = job_closed co"
  "last_completed (finalize_jobs co) = last_completed co" "open_shards (finalize_jobs co) = open_shards co"
  "job_closed (co\<lparr> co_watermark := w \<rparr>) = job_closed co"
  "last_completed (co\<lparr> co_watermark := w \<rparr>) = last_completed co" "open_shards (co\<lparr> co_watermark := w \<rparr>) = open_shards co"
  by (auto simp: finalize_jobs_def job_closed_def[abs_def] last_completed_def[abs_def] open_shards_def)

lemma job_closed_jobs: "job_closed (co\<lparr> co_jobs := m \<rparr>) = job_closed co" "job_closed (co\<lparr> co_jobs := m, co_watermark := w \<rparr>) = job_closed co"
  by (auto simp: job_closed_def[abs_def])

lemma last_completed_jobs: "last_completed (co\<lparr> co_jobs := m \<rparr>) = last_completed co" "last_completed (co\<lparr> co_jobs := m, co_watermark := w \<rparr>) = last_completed co"
  by (auto simp: last_completed_def[abs_def])

lemma finalize_jobs_again:
  "finalize_jobs ((finalize_jobs co)\<lparr> co_watermark := w \<rparr>) = (finalize_jobs co)\<lparr> co_watermark := w \<rparr>"
proof -
  let ?close = "\<lambda>j r. if job_closed co j then r\<lparr> jb_status := ''completed'', jb_completed_at := last_completed co j \<rparr> else r"
  have twice: "fmmap_keys ?close (fmmap_keys ?close m) = fmmap_keys ?close m" for m
    by (rule fmap_ext) (auto simp: option.map_comp comp_def intro!: option.map_cong)
  show ?thesis by (simp add: finalize_jobs_def job_closed_jobs last_completed_jobs twice cong: if_cong)
qed

text \<open>A source that serves a replay serves every replay of the same chain.\<close>

lemma serves_again:
  assumes "serves c now fetch batch certs (co, report, n, vset)"
    and "replay_page c now certs (co, report, n, vset) = (co', Inr out)" "absorbed_all c (concat (map cert_txs certs)) co2"
  shows "serves c now2 fetch batch certs (co2, report, n, vset)"
  unfolding serves_def
proof (intro allI impI)
  fix m cox r v
  assume m: "m < length certs" "replay_page c now2 (take m certs) (co2, report, n, vset) = (cox, Inr (r, Suc m, v))"
  have "replay_page c now (take m certs @ drop m certs) (co, report, n, vset) = (co', Inr out)" using assms(2) by simp
  then obtain co1 out1 where 1: "replay_page c now (take m certs) (co, report, n, vset) = (co1, Inr out1)"
    unfolding replay_page_append by (auto split: prod.splits sum.splits)
  have "absorbed_all c (concat (map cert_txs (take m certs))) co2"
    using assms(3) by (auto simp: absorbed_all_def dest: in_set_takeD)
  from replay_page_again[OF 1 this, of now2] m(2) have "out1 = (r, Suc m, v)" by simp
  with 1 assms(1) m(1) show "\<exists>k>0. fetch (Suc m) batch v = Inr (take k (drop m certs))" unfolding serves_def by blast
qed

end
