(* ===== verification/Recovery.thy ===== *)
theory Recovery
  imports Rebuild Scenario
begin

text \<open>
  What a coordinator rebuilt from the ledger is: the schedule the audited chain implies, shard by shard, whose
  open rewards are what the escrow accounts still hold; the same after a second rebuild; and the case in which
  a rebuild cannot succeed.
\<close>

section \<open>Definitions\<close>

text \<open>The price of the shards of a job that are still pending.\<close>

definition open_rewards :: "coordinator \<Rightarrow> string \<Rightarrow> int" where
  "open_rewards co j =
     sum_list (map (\<lambda>(_, a). as_reward_mcu a)
       (filter (\<lambda>(_, a). as_job_id a = j \<and> as_status a = ''pending'') (fm_assoc (co_assignments co))))"

text \<open>The schedule a list of transactions implies.\<close>

definition schedule_of :: "crypto \<Rightarrow> ledger_transaction list \<Rightarrow> coordinator \<Rightarrow> bool" where
  "schedule_of c txs co \<longleftrightarrow>
     (\<forall>t\<in>set txs. \<forall>j root n. reserves t = Some (j, root, n) \<longrightarrow>
        (\<forall>i<length (split_work root n). \<exists>r. fmlookup (co_assignments co) (assignment_id c j i) = Some r \<and>
           shard_row j i (split_work root n ! i) (\<exists>u\<in>set txs. settles u = Some (j, i)) r) \<and>
        (\<exists>r. fmlookup (co_jobs co) j = Some r \<and> jb_work r = root \<and>
           (jb_status r = ''completed'' \<longleftrightarrow> (\<forall>i<length (split_work root n). \<exists>u\<in>set txs. settles u = Some (j, i))))) \<and>
     (\<forall>aid r. fmlookup (co_assignments co) aid = Some r \<longrightarrow>
        (\<exists>t\<in>set txs. \<exists>root n. reserves t = Some (as_job_id r, root, n) \<and>
           as_shard_index r < length (split_work root n) \<and> aid = assignment_id c (as_job_id r) (as_shard_index r))) \<and>
     (\<forall>j. fmlookup (co_jobs co) j \<noteq> None \<longleftrightarrow> j \<in> reserved_jobs txs)"

section \<open>Lemmas\<close>

lemma fm_assoc_sum:
  "sum_list (map f (filter P (fm_assoc m))) = (\<Sum>k | k \<in> fset (fmdom m) \<and> P (k, the (fmlookup m k)). f (k, the (fmlookup m k)))"
proof -
  let ?ks = "sorted_list_of_fset (fmdom m)" and ?g = "\<lambda>k. (k, the (fmlookup m k))"
  have "sum_list (map f (filter P (fm_assoc m))) = sum_list (map (f \<circ> ?g) (filter (P \<circ> ?g) ?ks))"
    by (simp add: fm_assoc_def filter_map comp_def)
  also have "\<dots> = (\<Sum>k\<in>set (filter (P \<circ> ?g) ?ks). (f \<circ> ?g) k)"
    by (rule sum_list_distinct_conv_sum_set) (simp add: sorted_list_of_fset.rep_eq)
  finally show ?thesis by (simp add: comp_def sorted_list_of_fset.rep_eq)
qed

lemma tracks_open_rewards:
  assumes tr: "tracks c S R co" and R: "fmlookup R j = Some (root, n, rest)"
  shows "open_rewards co j = (\<Sum>i | i < length (split_work root n) \<and> (j, i) \<notin> S. work_cost_mcu (split_work root n ! i))"
proof -
  let ?m = "co_assignments co" and ?I = "{i. i < length (split_work root n) \<and> (j, i) \<notin> S}"
  let ?A = "{k \<in> fset (fmdom ?m). as_job_id (the (fmlookup ?m k)) = j \<and> as_status (the (fmlookup ?m k)) = ''pending''}"
  have row: "\<exists>k. fmlookup ?m (assignment_id c j i) = Some (shard_as ''pending'' k j i (split_work root n ! i))" if "i \<in> ?I" for i
    using tracks_shard[OF tr R, of i] that by (auto simp: shard_row_def)
  have "bij_betw (assignment_id c j) ?I ?A"
  proof (rule bij_betw_imageI)
    show "inj_on (assignment_id c j) ?I" by (simp add: inj_on_def)
    show "assignment_id c j ` ?I = ?A"
    proof (intro equalityI subsetI)
      fix k assume "k \<in> assignment_id c j ` ?I"
      then obtain i where "i \<in> ?I" "k = assignment_id c j i" by blast
      with row[of i] show "k \<in> ?A" by (auto simp: shard_as_def intro: fmdomI)
    next
      fix k assume k: "k \<in> ?A"
      then obtain r where r: "fmlookup ?m k = Some r" "as_job_id r = j" "as_status r = ''pending''" by (auto elim: fmdomE)
      from tracks_row[OF tr r(1)] r(2) R have i: "as_shard_index r < length (split_work root n)"
        "k = assignment_id c j (as_shard_index r)" by auto
      from tracks_shard[OF tr R i(1)] i(2) r have "(j, as_shard_index r) \<notin> S" by (auto simp: shard_row_def split: if_splits)
      with i show "k \<in> assignment_id c j ` ?I" by blast
    qed
  qed
  then have "(\<Sum>i\<in>?I. as_reward_mcu (the (fmlookup ?m (assignment_id c j i)))) = (\<Sum>k\<in>?A. as_reward_mcu (the (fmlookup ?m k)))"
    by (rule sum.reindex_bij_betw)
  moreover have "(\<Sum>i\<in>?I. as_reward_mcu (the (fmlookup ?m (assignment_id c j i)))) = (\<Sum>i\<in>?I. work_cost_mcu (split_work root n ! i))"
    by (rule sum.cong[OF refl]) (use row in \<open>fastforce simp: shard_as_def\<close>)
  ultimately have "(\<Sum>k\<in>?A. as_reward_mcu (the (fmlookup ?m k))) = (\<Sum>i\<in>?I. work_cost_mcu (split_work root n ! i))"
    by simp
  then show ?thesis by (simp add: open_rewards_def fm_assoc_sum)
qed

lemma tracks_job_closed:
  assumes tr: "tracks c S R co" and R: "fmlookup R j = Some (root, n, rest)"
  shows "job_closed co j \<longleftrightarrow> (\<forall>i<length (split_work root n). (j, i) \<in> S)"
proof
  assume cl: "job_closed co j"
  show "\<forall>i<length (split_work root n). (j, i) \<in> S"
  proof (intro allI impI)
    fix i assume i: "i < length (split_work root n)"
    from tracks_shard[OF tr R i] obtain r where r: "fmlookup (co_assignments co) (assignment_id c j i) = Some r"
      "shard_row j i (split_work root n ! i) ((j, i) \<in> S) r" by blast
    from cl r(1) have "as_job_id r = j \<longrightarrow> as_status r = ''completed'' \<or> as_status r = ''refunded''"
      by (auto simp: job_closed_def fmpred_iff)
    with r(2) shard_row_status[OF r(2)] show "(j, i) \<in> S" by (auto simp: shard_row_def)
  qed
next
  assume all: "\<forall>i<length (split_work root n). (j, i) \<in> S"
  show "job_closed co j"
    unfolding job_closed_def fmpred_iff
  proof (intro allI impI)
    fix aid r assume r: "fmlookup (co_assignments co) aid = Some r" "as_job_id r = j"
    from tracks_row[OF tr r(1)] r(2) R have i: "as_shard_index r < length (split_work root n)"
      "aid = assignment_id c j (as_shard_index r)" by auto
    from tracks_shard[OF tr R i(1)] all i r show "as_status r = ''completed'' \<or> as_status r = ''refunded''"
      by (auto simp: shard_row_def)
  qed
qed

lemma tracks_job:
  assumes "tracks c S R co" "fmlookup (co_jobs co) j = Some r" "fmlookup R j = Some (root, n, rest)"
  shows "jb_status r = ''pending'' \<and> jb_work r = root"
proof -
  from assms(1,2) have "jb_status r = ''pending'' \<and> map_option fst (fmlookup R j) = Some (jb_work r)"
    unfolding tracks_def by blast
  with assms(3) show ?thesis by simp
qed

lemma tracks_schedule:
  assumes tr: "tracks c (\<Union>t\<in>set txs. set_option (settles t)) R co"
    and R: "\<forall>j root n. (\<exists>rest. fmlookup R j = Some (root, n, rest)) \<longleftrightarrow> (\<exists>t\<in>set txs. reserves t = Some (j, root, n))"
  shows "schedule_of c txs ((finalize_jobs co)\<lparr> co_watermark := w \<rparr>)"
proof -
  let ?S = "\<Union>t\<in>set txs. set_option (settles t)"
  have S: "(j, i) \<in> ?S \<longleftrightarrow> (\<exists>u\<in>set txs. settles u = Some (j, i))" for j i by (auto simp: elem_set)
  have dom: "fmlookup R j \<noteq> None \<longleftrightarrow> j \<in> reserved_jobs txs" for j
  proof
    assume "fmlookup R j \<noteq> None"
    then obtain root n rest where "fmlookup R j = Some (root, n, rest)" by (metis not_Some_eq prod_cases3)
    with R show "j \<in> reserved_jobs txs" unfolding reserved_jobs_def by blast
  next
    assume "j \<in> reserved_jobs txs"
    then show "fmlookup R j \<noteq> None" using R unfolding reserved_jobs_def by fastforce
  qed
  have jobs: "fmlookup (co_jobs co) j \<noteq> None \<longleftrightarrow> fmlookup R j \<noteq> None" for j using tr unfolding tracks_def by blast
  have one: "(\<forall>i<length (split_work root n). \<exists>r. fmlookup (co_assignments co) (assignment_id c j i) = Some r \<and>
           shard_row j i (split_work root n ! i) (\<exists>u\<in>set txs. settles u = Some (j, i)) r) \<and>
        (\<exists>r. fmlookup (co_jobs (finalize_jobs co)) j = Some r \<and> jb_work r = root \<and>
           (jb_status r = ''completed'' \<longleftrightarrow> (\<forall>i<length (split_work root n). \<exists>u\<in>set txs. settles u = Some (j, i))))"
    if t: "t \<in> set txs" "reserves t = Some (j, root, n)" for t j root n
  proof (rule conjI)
    from t R obtain rest where rr: "fmlookup R j = Some (root, n, rest)" by blast
    show "\<forall>i<length (split_work root n). \<exists>r. fmlookup (co_assignments co) (assignment_id c j i) = Some r \<and>
           shard_row j i (split_work root n ! i) (\<exists>u\<in>set txs. settles u = Some (j, i)) r"
      using tracks_shard[OF tr rr] by (simp only: S) blast
    from jobs[of j] rr obtain r where r: "fmlookup (co_jobs co) j = Some r" by auto
    with tracks_job[OF tr r rr] have "jb_status r = ''pending''" "jb_work r = root" by simp_all
    then show "\<exists>r. fmlookup (co_jobs (finalize_jobs co)) j = Some r \<and> jb_work r = root \<and>
           (jb_status r = ''completed'' \<longleftrightarrow> (\<forall>i<length (split_work root n). \<exists>u\<in>set txs. settles u = Some (j, i)))"
      using r tracks_job_closed[OF tr rr] by (simp only: S) (simp add: finalize_jobs_def)
  qed
  moreover have "\<exists>t\<in>set txs. \<exists>root n. reserves t = Some (as_job_id r, root, n) \<and>
           as_shard_index r < length (split_work root n) \<and> aid = assignment_id c (as_job_id r) (as_shard_index r)"
    if "fmlookup (co_assignments co) aid = Some r" for aid r
    using tracks_row[OF tr that] R by blast
  moreover have "fmlookup (co_jobs (finalize_jobs co)) j \<noteq> None \<longleftrightarrow> j \<in> reserved_jobs txs" for j
    using jobs[of j] dom[of j] by (simp add: finalize_jobs_def)
  ultimately show ?thesis unfolding schedule_of_def by (simp del: not_None_eq)
qed

lemma open_rewards_finalize [simp]:
  "open_rewards ((finalize_jobs co)\<lparr> co_watermark := w \<rparr>) = open_rewards co"
  by (simp add: open_rewards_def[abs_def])

lemma fetch_wrong_set:
  assumes "\<forall>m\<in>set ms. \<forall>cert rest. pages m = Some (cert # rest) \<longrightarrow> qc_membership_hash cert \<noteq> membership_hash c at"
  shows "fetch_from c at pages e ms = Inr [] \<or> (\<exists>x. fetch_from c at pages e ms = Inl x)"
  using assms
proof (induction ms arbitrary: e)
  case (Cons m ms)
  have "\<not> is_ok (check_page c at (cert # rest))" if "pages m = Some (cert # rest)" for cert rest
    using Cons.prems that by (auto simp: verify_certificate_def is_ok_def)
  then show ?case using Cons by (auto simp del: check_page.simps split: option.splits list.splits)
qed auto

section \<open>Properties\<close>

definition demo_source :: source where
  "demo_source n batch v = Inr (drop (n - 1) [cert1])"

lemma demo_served: "serves demo now demo_source batch [cert1] st"
  by (auto simp: serves_def demo_source_def intro!: exI[of _ 1])

lemma demo_ids: "ids_apart demo (reserved_jobs [demo_reserve])"
  by (auto simp: ids_apart_def reserved_jobs_def reserves_def)

lemma demo_chain: "[cert1] = certificates_from store1 1 None" "[demo_reserve] = concat (map cert_txs [cert1])"
  by (simp_all add: certificates_from_def store1_def)

lemmas demo_rebuild = audit_store1 demo_chain demo_ids demo_served

text \<open>C12.  A coordinator with an empty database that replays a chain the audit accepts, from any source that
  serves it page by page, finishes without an error, has read every entry, and holds the schedule the chain
  implies: for every reservation a job and one row per shard of the split, with the work and the price of that
  shard, pending exactly when no reward or refund of it is on the chain, the job completed exactly when every
  shard is settled, and no other row.  The assignment ids of two jobs are assumed not to collide.\<close>

theorem rebuild_schedule:
  assumes "audit c db vset = Inr h" and "certs = certificates_from db 1 None"
    and "txs = concat (map cert_txs certs)" and "ids_apart c (reserved_jobs txs)"
    and "serves c now fetch (max batch 1) certs (empty_coordinator, empty_report, 1, vset)"
  shows "\<exists>co report. replay_from c now fetch batch 1 vset (length certs) empty_coordinator = (co, Inr report) \<and>
    rp_entries report = length certs \<and> schedule_of c txs co"
proof -
  from assms obtain co report R act where
    r: "replay_from c now fetch batch 1 vset (length certs) empty_coordinator =
       ((finalize_jobs co)\<lparr> co_watermark := Some (length certs + 1, act) \<rparr>,
        Inr (report\<lparr> rp_open_shards := open_shards co \<rparr>))"
    and e: "rp_entries report = length certs" and t: "tracks c (\<Union>t\<in>set txs. set_option (settles t)) R co"
    and R: "\<forall>j root n. (\<exists>rest. fmlookup R j = Some (root, n, rest)) \<longleftrightarrow> (\<exists>t\<in>set txs. reserves t = Some (j, root, n))"
    by (rule rebuild_audited) blast
  from r e tracks_schedule[OF t R] show ?thesis by simp
qed

theorem rebuild_schedule_witness:
  "\<exists>co report. replay_from demo 7 demo_source 10 1 demo_set (length [cert1]) empty_coordinator = (co, Inr report) \<and>
    rp_entries report = length [cert1] \<and> schedule_of demo [demo_reserve] co"
  by (rule rebuild_schedule[OF demo_rebuild])

text \<open>C13.  What the rebuilt coordinator still has to pay for a job is what the ledger holds in escrow for it: the
  rewards of its pending shards add up to the balance of the job's escrow account.\<close>

theorem rebuild_escrow:
  assumes "audit c db vset = Inr h" and "certs = certificates_from db 1 None"
    and "txs = concat (map cert_txs certs)" and "ids_apart c (reserved_jobs txs)"
    and "serves c now fetch (max batch 1) certs (empty_coordinator, empty_report, 1, vset)"
    and "validate_validator_set vset = Inr ()" "set_community_issuance_limit_mcu vset \<le> i64_max"
    and "\<forall>t\<in>set txs. tx_typed t \<and> shards_ok t" and "j \<in> reserved_jobs txs"
  shows "\<exists>co report. replay_from c now fetch batch 1 vset (length certs) empty_coordinator = (co, Inr report) \<and>
    open_rewards co j = net (concat (map tx_postings txs)) (escrow_account j)"
proof -
  from assms(1-5) obtain co report R act where
    r: "replay_from c now fetch batch 1 vset (length certs) empty_coordinator =
       ((finalize_jobs co)\<lparr> co_watermark := Some (length certs + 1, act) \<rparr>,
        Inr (report\<lparr> rp_open_shards := open_shards co \<rparr>))"
    and t: "tracks c (\<Union>t\<in>set txs. set_option (settles t)) R co"
    and R: "\<forall>j root n. (\<exists>rest. fmlookup R j = Some (root, n, rest)) \<longleftrightarrow> (\<exists>t\<in>set txs. reserves t = Some (j, root, n))"
    by (rule rebuild_audited) blast
  from assms(9) obtain u root n where u: "u \<in> set txs" "reserves u = Some (j, root, n)" unfolding reserved_jobs_def by blast
  with R obtain rest where "fmlookup R j = Some (root, n, rest)" by blast
  note o = tracks_open_rewards[OF t this]
  have "(j, i) \<in> (\<Union>t\<in>set txs. set_option (settles t)) \<longleftrightarrow> i \<in> {i. \<exists>u\<in>set txs. settles u = Some (j, i)}" for i
    by (auto simp: elem_set)
  with audited_escrow_balance[OF assms(1) _ assms(6-8) u refl] o assms(2,3)
  have "open_rewards co j = net (concat (map tx_postings txs)) (escrow_account j)" by simp
  with r show ?thesis by simp
qed

theorem rebuild_escrow_witness:
  "\<exists>co report. replay_from demo 7 demo_source 10 1 demo_set (length [cert1]) empty_coordinator = (co, Inr report) \<and>
    open_rewards co ''j1'' = net (concat (map tx_postings [demo_reserve])) (escrow_account ''j1'')"
  by (rule rebuild_escrow[OF demo_rebuild demo_set_valid])
     (auto simp: range_defs reserved_jobs_def reserves_def shards_ok_def)

text \<open>C14.  Rebuilding is idempotent: whatever database a rebuild started from, once it has gone through, running
  it again at any later time over the same chain leaves every table as it is and reports the same.\<close>

theorem rebuild_idempotent:
  assumes "distinct (map claim_of (concat (map cert_txs certs)))"
    and "serves c now fetch (max batch 1) certs (co0, empty_report, 1, vset)"
    and "replay_from c now fetch batch 1 vset (length certs) co0 = (co1, Inr report)"
  shows "replay_from c later fetch batch 1 vset (length certs) co1 = (co1, Inr report)"
proof -
  let ?st = "(co0, empty_report, 1, vset)"
  have run: "replay c t fetch (max batch 1) (length certs) (co, empty_report, 1, vset) =
      replay_page c t certs (co, empty_report, 1, vset)"
    if "serves c t fetch (max batch 1) certs (co, empty_report, 1, vset)" for t co
    using replay_serves[of certs c t "(co, empty_report, 1, vset)" fetch "max batch 1" 0 co] that unfolding serves_def by simp
  from assms(3) obtain co rep n v where p: "replay_page c now certs ?st = (co, Inr (rep, n, v))"
    and co1: "co1 = (finalize_jobs co)\<lparr> co_watermark := Some (n, v) \<rparr>"
    and rep: "report = rep\<lparr> rp_open_shards := open_shards co1 \<rparr>"
    unfolding replay_from_def run[OF assms(2)] by (auto simp: Let_def split: prod.splits sum.splits)
  have "absorbed_all c (concat (map cert_txs certs)) co"
    using replay_page_absorb[OF p, of "[]"] assms(1) by (simp add: absorbed_all_def)
  then have ab: "absorbed_all c (concat (map cert_txs certs)) co1" by (simp add: co1 absorbed_all_def)
  note again = run[OF serves_again[OF assms(2) p ab, of later]]
  have fin: "(finalize_jobs co1)\<lparr> co_watermark := Some (n, v) \<rparr> = co1" unfolding co1 finalize_jobs_again by simp
  show ?thesis
    unfolding replay_from_def again replay_page_again[OF p ab] by (simp add: Let_def fin rep)
qed

theorem rebuild_idempotent_witness:
  "\<exists>co report. replay_from demo 7 demo_source 10 1 demo_set (length [cert1]) empty_coordinator = (co, Inr report) \<and>
    replay_from demo 8 demo_source 10 1 demo_set (length [cert1]) co = (co, Inr report)"
proof -
  obtain co report where r: "replay_from demo 7 demo_source 10 1 demo_set (length [cert1]) empty_coordinator = (co, Inr report)"
    by (rule rebuild_audited[OF demo_rebuild]) blast
  from rebuild_idempotent[OF _ demo_served r] r show ?thesis by simp
qed

text \<open>A rebuild starts at the first entry with the set the client has just refreshed.  Once the membership has
  changed, the first entry was certified by another set: whatever the validators serve for it, the rebuild ends in an
  error and writes nothing.\<close>

theorem rebuild_after_change_fails:
  assumes "refresh_set c cl pages = Some (cl', followed)" "head_quorum c ord cl' heads = Inr h" "1 \<le> lh_sequence h"
    and "\<forall>m\<in>set (set_members (cl_set cl')). \<forall>cert rest. pages 1 (max batch 1) m = Some (cert # rest) \<longrightarrow>
      qc_membership_hash cert \<noteq> membership_hash c (cl_set cl')"
  shows "\<exists>e. rebuild_from_ledger c now ord cl pages heads batch co = Some (co, Inl e)"
proof -
  from fetch_wrong_set[OF assms(4)]
  have "fetch_certificates c cl' pages 1 (max batch 1) (cl_set cl') = Inr [] \<or>
      (\<exists>x. fetch_certificates c cl' pages 1 (max batch 1) (cl_set cl') = Inl x)" by (simp add: fetch_certificates_def)
  then show ?thesis using assms(1,2,3)
    by (auto simp: rebuild_from_ledger_def replay_from_def replay.simps)
qed

definition changed_client :: client where
  "changed_client = demo_client\<lparr> cl_set_sequence := 5 \<rparr>"

definition old_pages :: "nat \<Rightarrow> nat \<Rightarrow> quorum_certificate list replies" where
  "old_pages n batch m = Some (if n = 1 then [cert1\<lparr> qc_membership_hash := ''old'' \<rparr>] else [])"

definition agreed_heads :: "head_proof replies" where
  "agreed_heads m = Some \<lparr> hp_head = \<lparr> lh_sequence = 6, lh_entry_hash = ''e'',
     lh_membership_hash = membership_hash demo demo_set \<rparr>, hp_validator_id = vm_validator_id m, hp_signature_b64 = ''s'' \<rparr>"

theorem rebuild_after_change_fails_witness:
  "\<exists>e. rebuild_from_ledger demo 7 id changed_client old_pages agreed_heads 10 empty_coordinator =
    Some (empty_coordinator, Inl e)"
proof (rule rebuild_after_change_fails)
  have end': "fetch_from demo demo_set (\<lambda>_. Some []) e ms = Inr []" if "e \<or> ms \<noteq> []" for e ms
    using that by (induction ms arbitrary: e) auto
  have "fetch_certificates demo changed_client old_pages 6 256 demo_set = Inr []"
    using end'[of False "set_members demo_set"]
    by (simp add: fetch_certificates_def old_pages_def[abs_def] changed_client_def demo_set_def)
  then have "refresh_loop demo changed_client old_pages (demo_set, 5, 5) = Some (Inr (demo_set, 5, 5))"
    by (subst refresh_loop.simps) simp
  then show "refresh_set demo changed_client old_pages = Some (changed_client, Inr False)"
    by (simp add: refresh_set_def changed_client_def)
  show "head_quorum demo id changed_client agreed_heads =
      Inr \<lparr> lh_sequence = 6, lh_entry_hash = ''e'', lh_membership_hash = membership_hash demo demo_set \<rparr>"
  proof -
    have mem: "set_members demo_set = map (\<lambda>n. \<lparr> vm_validator_id = ''v'' @ n, vm_url = ''u'' @ n, vm_public_key_b64 = ''k'' @ n \<rparr>)
        [''1'', ''2'', ''3'', ''4'']" "set_threshold demo_set = 3" by (simp_all add: demo_set_def)
    have "signed_heads demo demo_set (membership_hash demo demo_set) agreed_heads =
        replicate 4 \<lparr> lh_sequence = 6, lh_entry_hash = ''e'', lh_membership_hash = membership_hash demo demo_set \<rparr>"
      by (simp add: signed_heads_def answered_def agreed_heads_def mem map_filter_simps numeral_eq_Suc)
    then show ?thesis
      by (simp add: head_quorum_def changed_client_def best_group_def max_by_key_def Let_def mem numeral_eq_Suc occurrences_def)
  qed
  have "even (length (hex_lower bytes))" for bytes by simp
  moreover have "odd (length ''old'')" by simp
  ultimately have "''old'' \<noteq> membership_hash demo demo_set"
    unfolding membership_hash_def hash_json_def hash_bytes_def by metis
  then show "\<forall>m\<in>set (set_members (cl_set changed_client)). \<forall>cert rest. old_pages 1 (max 10 1) m = Some (cert # rest) \<longrightarrow>
      qc_membership_hash cert \<noteq> membership_hash demo (cl_set changed_client)"
    by (auto simp: old_pages_def changed_client_def)
qed simp

end
