(* ===== verification/Dispatch.thy ===== *)
theory Dispatch
  imports Jobs Recovery
begin

text \<open>
  What the coordinator's handlers keep: a signed request is good for one use, nobody is given a shard of a job of
  their own, CU is conserved when requests run one after the other, and what is proposed to the validators is what
  they accept; and three orders of stretches, two of them races, in which the tables end up wrong.
\<close>

section \<open>Lemmas\<close>

lemma bind_step_simps [simp]:
  "bind_step (co, Inl e) k = (co, Inl e)" "bind_step (co, Inr v) k = k v co"
  by (simp_all add: bind_step_def)

lemma bind_step_Inr:
  "bind_step r k = (co', Inr v) \<longleftrightarrow> (\<exists>co1 x. r = (co1, Inr x) \<and> k x co1 = (co', Inr v))"
  by (auto simp: bind_step_def split: prod.splits sum.splits)

lemma transaction_Inr: "transaction co r = (co', Inr v) \<longleftrightarrow> r = Inr (co', v)"
  by (auto simp: transaction_def split: sum.splits prod.splits)

lemma transaction_Inl: "transaction co r = (co', Inl e) \<longleftrightarrow> r = Inl e \<and> co' = co"
  by (auto simp: transaction_def split: sum.splits prod.splits)

subsection \<open>Nonces\<close>

lemma live_nonces_lookup:
  "fmlookup (live_nonces now m) k = (case fmlookup m k of None \<Rightarrow> None | Some e \<Rightarrow> if e < now then None else Some e)"
  by (auto simp: live_nonces_def split: option.splits)

lemma consume_nonce_ok:
  assumes "consume_nonce now auth co = (co', Inr ())"
  shows "fmlookup (co_nonces co') (ap_node_id auth, ap_nonce_b64 auth) = Some (now + 600)"
    "fmlookup (co_nonces co) (ap_node_id auth, ap_nonce_b64 auth) = Some e \<Longrightarrow> e < now"
  using assms
  by (auto simp: consume_nonce_def Let_def AUTH_MAX_CLOCK_SKEW_SECS_def live_nonces_lookup split: if_splits option.splits)

text \<open>What happens to the nonces while the clock advances: statements that leave them alone, and other requests.\<close>

inductive nonce_run :: "int \<times> coordinator \<Rightarrow> int \<times> coordinator \<Rightarrow> bool" where
  stay: "nonce_run (t, co) (t, co)"
| other: "nonce_run (t, co) (t1, co1) \<Longrightarrow> co_nonces co2 = co_nonces co1 \<Longrightarrow> t1 \<le> t2 \<Longrightarrow> nonce_run (t, co) (t2, co2)"
| request: "nonce_run (t, co) (t1, co1) \<Longrightarrow> t1 \<le> t2 \<Longrightarrow> consume_nonce t2 auth co1 = (co2, r) \<Longrightarrow> nonce_run (t, co) (t2, co2)"

lemma nonce_run_keeps:
  assumes "nonce_run (t, co) (t', co')" "fmlookup (co_nonces co) k = Some e" "t' \<le> e"
  shows "t \<le> t' \<and> fmlookup (co_nonces co') k = Some e"
  using assms
proof (induction "(t, co)" "(t', co')" arbitrary: t' co' rule: nonce_run.induct)
  case (request t1 co1 t2 auth co2 r)
  then have k: "t \<le> t1" "fmlookup (co_nonces co1) k = Some e" by auto
  with request show ?case
    by (auto simp: consume_nonce_def Let_def live_nonces_lookup split: if_splits)
qed auto

text \<open>Two readings of the clock for which a timestamp is fresh are at most ten minutes apart.\<close>

lemma fresh_apart:
  assumes "wrap_i64 \<bar>wrap_i64 (a - ts)\<bar> \<le> 300" "wrap_i64 \<bar>wrap_i64 (b - ts)\<bar> \<le> 300"
    and "a \<le> b" "b - a < 2 ^ 62"
  shows "b \<le> a + 600"
proof -
  define x where "x = wrap_i64 (a - ts)"
  define y where "y = wrap_i64 (b - ts)"
  have w: "wrap_i64 \<bar>z\<bar> \<le> 300 \<Longrightarrow> \<bar>z\<bar> \<le> 300 \<or> z = - (2 ^ 63)" if "in_i64 z" for z :: int
    using that by (cases "z = - (2 ^ 63)") (auto simp: wrap_i64_def range_defs)
  have rx: "in_i64 x" "in_i64 y" by (simp_all add: x_def y_def wrap_i64_range)
  have cases: "\<bar>x\<bar> \<le> 300 \<or> x = - (2 ^ 63)" "\<bar>y\<bar> \<le> 300 \<or> y = - (2 ^ 63)"
    using w[OF rx(1)] w[OF rx(2)] assms(1,2) by (simp_all add: x_def y_def)
  have "y - x = (b - ts + 2 ^ 63) mod 2 ^ 64 - (a - ts + 2 ^ 63) mod 2 ^ 64" by (simp add: x_def y_def wrap_i64_def)
  then have "(y - x) mod 2 ^ 64 = (b - ts + 2 ^ 63 - (a - ts + 2 ^ 63)) mod 2 ^ 64" by (simp only: mod_diff_eq)
  then have "(y - x) mod 2 ^ 64 = (b - a) mod 2 ^ 64" by simp
  then obtain k where k: "y - x = (b - a) + k * 2 ^ 64"
    by (metis mod_eq_dvd_iff dvd_def diff_eq_eq mult.commute add.commute)
  have "k \<le> -1 \<or> k = 0 \<or> 1 \<le> k" by arith
  then show ?thesis using cases assms(3,4) k by (elim disjE) (auto simp: abs_le_iff)
qed

lemma authenticate_ok:
  "authenticate_known_node c t0 t1 auth action h co = (co', Inr ()) \<longleftrightarrow>
   (\<exists>n. fmlookup (co_nodes co) (ap_node_id auth) = Some n \<and> verify_auth c t0 (nd_public_key_b64 n) auth action h = Inr () \<and>
      consume_nonce t1 auth co = (co', Inr ()))"
  by (auto simp: authenticate_known_node_def split: option.splits sum.splits)

lemma consume_nonce_tables:
  assumes "consume_nonce t auth co = (co', r)" obtains m where "co' = co\<lparr> co_nonces := m \<rparr>"
  using assms by (auto simp: consume_nonce_def Let_def split: if_splits)

lemma authenticate_tables:
  assumes "authenticate_known_node c t0 t1 auth action h co = (co', r)" obtains m where "co' = co\<lparr> co_nonces := m \<rparr>"
proof -
  have "co' = co\<lparr> co_nonces := co_nonces co \<rparr> \<or> (\<exists>r. consume_nonce t1 auth co = (co', r))"
    using assms by (auto simp: authenticate_known_node_def split: option.splits sum.splits)
  with that consume_nonce_tables show thesis by metis
qed

section \<open>Properties\<close>

text \<open>C15.  A signed request is accepted once.  Whatever requests are handled in between, with a clock that does not go
  back, the same proof is refused afterwards, for any action and any body, provided its freshness is judged in
  the same second in which its nonce is looked up.\<close>

theorem accepted_once:
  assumes "authenticate_known_node c t0 t1 auth action h co = (co1, Inr ())" "t0 \<le> t1"
    and "nonce_run (t1, co1) (t2, co2)" "t2 - t0 < 2 ^ 62"
  shows "authenticate_known_node c t2 t2 auth action' h' co2 \<noteq> (co3, Inr ())"
proof
  assume again: "authenticate_known_node c t2 t2 auth action' h' co2 = (co3, Inr ())"
  let ?k = "(ap_node_id auth, ap_nonce_b64 auth)"
  from assms(1) obtain pk where f: "verify_auth c t0 pk auth action h = Inr ()" and n: "consume_nonce t1 auth co = (co1, Inr ())"
    unfolding authenticate_ok by blast
  from again obtain pk' where g: "verify_auth c t2 pk' auth action' h' = Inr ()" and m: "consume_nonce t2 auth co2 = (co3, Inr ())"
    unfolding authenticate_ok by blast
  have held: "fmlookup (co_nonces co1) ?k = Some (t1 + 600)" by (rule consume_nonce_ok(1)[OF n])
  have later: "t1 \<le> t2" using assms(3) by (induction "(t1, co1)" "(t2, co2)" arbitrary: t2 co2 rule: nonce_run.induct) auto
  have "t2 \<le> t0 + 600"
    by (rule fresh_apart[of t0 "ap_timestamp auth"])
       (use f g assms(2,4) later in \<open>auto simp: verify_auth_def AUTH_MAX_CLOCK_SKEW_SECS_def split: if_splits\<close>)
  then have b: "t2 \<le> t1 + 600" using assms(2) by simp
  from nonce_run_keeps[OF assms(3) held b] consume_nonce_ok(2)[OF m] b show False by fastforce
qed

definition demo_node :: string where
  "demo_node = node_id_from_public_key demo (replicate 32 CHR ''k'')"

definition demo_proof :: auth_proof where
  "demo_proof = \<lparr> ap_node_id = demo_node, ap_timestamp = 300, ap_nonce_b64 = replicate 16 CHR ''n'', ap_signature_b64 = ''s'' \<rparr>"

definition demo_coordinator :: coordinator where
  "demo_coordinator = empty_coordinator\<lparr> co_nodes := fmupd demo_node \<lparr> nd_public_key_b64 = ''k'', nd_capabilities = demo_caps,
     nd_registered_at = 0, nd_last_seen = 0, nd_region = None \<rparr> fmempty, co_balances := fmupd demo_node 0 fmempty \<rparr>"

lemma demo_verified:
  assumes "\<bar>t - ap_timestamp p\<bar> \<le> 300" "16 \<le> length (ap_nonce_b64 p)" "ap_node_id p = demo_node"
  shows "verify_auth demo t k p action h = Inr ()"
proof -
  have "in_i64 (t - ap_timestamp p)" "in_i64 \<bar>t - ap_timestamp p\<bar>" using assms(1) by (auto simp: range_defs abs_le_iff)
  then show ?thesis using assms
    by (simp add: verify_auth_def AUTH_MAX_CLOCK_SKEW_SECS_def verify_auth_signature_def demo_node_def)
qed

lemma demo_authenticated:
  "authenticate_known_node demo 0 0 demo_proof action h demo_coordinator =
     (demo_coordinator\<lparr> co_nonces := fmupd (demo_node, replicate 16 CHR ''n'') 600 fmempty \<rparr>, Inr ())"
proof -
  have "verify_auth demo 0 k demo_proof action h = Inr ()" for k by (rule demo_verified) (simp_all add: demo_proof_def)
  moreover have "live_nonces 0 (co_nonces demo_coordinator) = fmempty"
    by (rule fmap_ext) (simp add: live_nonces_lookup demo_coordinator_def empty_coordinator_def)
  moreover have "fmlookup (co_nodes demo_coordinator) demo_node \<noteq> None" by (simp add: demo_coordinator_def)
  ultimately show ?thesis
    by (auto simp: authenticate_known_node_def demo_proof_def consume_nonce_def Let_def AUTH_MAX_CLOCK_SKEW_SECS_def)
qed

theorem accepted_once_witness:
  "authenticate_known_node demo 600 600 demo_proof ''poll'' '''' (demo_coordinator\<lparr> co_nonces :=
     fmupd (demo_node, replicate 16 CHR ''n'') 600 fmempty \<rparr>) \<noteq> (demo_coordinator, Inr ())"
  by (rule accepted_once[OF demo_authenticated _ nonce_run.other[OF nonce_run.stay]]) simp_all

text \<open>The proviso is needed: a request dated five minutes ahead is accepted a second time ten minutes later, if the
  clock ticks between the check of its timestamp and the look at its nonce.\<close>

theorem accepted_twice_across_a_tick:
  assumes "authenticate_known_node c t t auth action h co = (co1, Inr ())" "ap_timestamp auth = t + 300"
  shows "\<exists>co2. authenticate_known_node c (t + 600) (t + 601) auth action h co1 = (co2, Inr ())"
proof -
  let ?k = "(ap_node_id auth, ap_nonce_b64 auth)"
  from assms(1) obtain n where n: "fmlookup (co_nodes co) (ap_node_id auth) = Some n"
    and f: "verify_auth c t (nd_public_key_b64 n) auth action h = Inr ()" and u: "consume_nonce t auth co = (co1, Inr ())"
    unfolding authenticate_ok by blast
  have "verify_auth c (t + 600) (nd_public_key_b64 n) auth action h = Inr ()"
    using f assms(2) by (auto simp: verify_auth_def AUTH_MAX_CLOCK_SKEW_SECS_def wrap_i64_def split: if_splits)
  moreover have "fmlookup (co_nodes co1) (ap_node_id auth) = Some n"
    using consume_nonce_tables[OF u] n by (metis coordinator.select_convs(1) coordinator.surjective coordinator.update_convs(5))
  moreover have "fmlookup (live_nonces (t + 601) (co_nonces co1)) ?k = None"
    using consume_nonce_ok(1)[OF u] by (simp add: live_nonces_lookup)
  ultimately show ?thesis by (simp add: authenticate_ok consume_nonce_def Let_def)
qed

theorem accepted_twice_across_a_tick_witness:
  "\<exists>co2. authenticate_known_node demo (0 + 600) (0 + 601) demo_proof ''poll'' '''' (demo_coordinator\<lparr> co_nonces :=
     fmupd (demo_node, replicate 16 CHR ''n'') 600 fmempty \<rparr>) = (co2, Inr ())"
  by (rule accepted_twice_across_a_tick[OF demo_authenticated]) (simp add: demo_proof_def)

subsection \<open>Rows and jobs under the statements\<close>

lemma close_settled_frame [simp]:
  "co_assignments (close_settled_job now j co) = co_assignments co" "co_balances (close_settled_job now j co) = co_balances co"
  "co_nodes (close_settled_job now j co) = co_nodes co" "co_intents (close_settled_job now j co) = co_intents co"
  "co_ledger (close_settled_job now j co) = co_ledger co" "co_reputation (close_settled_job now j co) = co_reputation co"
  "co_nonces (close_settled_job now j co) = co_nonces co"
  by (simp_all add: close_settled_job_def)

lemma set_assignment_frame [simp]:
  "co_jobs (set_assignment aid g f co) = co_jobs co" "co_balances (set_assignment aid g f co) = co_balances co"
  "co_nodes (set_assignment aid g f co) = co_nodes co" "co_intents (set_assignment aid g f co) = co_intents co"
  "co_ledger (set_assignment aid g f co) = co_ledger co" "co_reputation (set_assignment aid g f co) = co_reputation co"
  "co_nonces (set_assignment aid g f co) = co_nonces co"
  by (simp_all add: set_assignment_def)

lemma set_assignment_lookup [simp]:
  "fmlookup (co_assignments (set_assignment aid g f co)) x =
     (if x = aid then map_option (\<lambda>v. if g v then f v else v) (fmlookup (co_assignments co) aid) else fmlookup (co_assignments co) x)"
  by (simp add: set_assignment_def update_where_lookup)

lemma touches_iff: "touches aid g co \<longleftrightarrow> (\<exists>r. fmlookup (co_assignments co) aid = Some r \<and> g r)"
  by (simp add: touches_def update_where_touched)

lemma record_reputation_frame [simp]:
  "co_assignments (record_reputation n b co) = co_assignments co" "co_jobs (record_reputation n b co) = co_jobs co"
  "co_balances (record_reputation n b co) = co_balances co" "co_nodes (record_reputation n b co) = co_nodes co"
  "co_intents (record_reputation n b co) = co_intents co"
  by (simp_all add: record_reputation_def Let_def)

lemma apply_ledger_delta_ok:
  assumes "apply_ledger_delta now n d cat j a co = Inr co'"
  shows "co_assignments co' = co_assignments co" "co_jobs co' = co_jobs co" "co_nodes co' = co_nodes co"
    and "\<exists>b. fmlookup (co_balances co) n = Some b \<and> co_balances co' = fmupd n (b + d) (co_balances co)"
  using assms by (auto simp: apply_ledger_delta_def split: option.splits)

lemma settle_refunded_frame [simp]:
  "co_balances (settle_refunded_shard now aid j co) = co_balances co"
  "fmlookup (co_assignments (settle_refunded_shard now aid j co)) x =
     (if x = aid then map_option (\<lambda>r. r\<lparr> as_status := ''refunded'', as_completed_at := Some now, as_lease_until := None \<rparr>)
        (fmlookup (co_assignments co) aid) else fmlookup (co_assignments co) x)"
  by (simp_all add: settle_refunded_shard_def)

lemma refund_check_ok:
  "refund_check now aid co = Inr cl \<longleftrightarrow>
   (\<exists>a j. fmlookup (co_assignments co) aid = Some a \<and> fmlookup (co_jobs co) (as_job_id a) = Some j \<and>
      (as_status a = ''pending'' \<or> as_status a = ''leased'') \<and> jb_created_at j + SETTLEMENT_WINDOW_SECS < now \<and>
      cl = \<lparr> fc_job_id = as_job_id a, fc_shard_index = as_shard_index a, fc_work = as_work a,
             fc_system_funded = jb_system_funded j, fc_requester = jb_requester_node_id j \<rparr>)"
  by (auto simp: refund_check_def split: option.splits)

lemma refund_local_pays:
  assumes "\<not> fc_system_funded cl" "fmlookup (co_balances co) n = Some b"
  shows "\<exists>co'. refund_local now aid cl n co = (co', Inr ()) \<and>
    fmlookup (co_balances co') n = Some (b + work_cost_mcu (fc_work cl)) \<and>
    fmlookup (co_assignments co') aid = map_option (\<lambda>r. r\<lparr> as_status := ''refunded'', as_completed_at := Some now,
      as_lease_until := None \<rparr>) (fmlookup (co_assignments co) aid) \<and>
    (\<forall>j. fmlookup (co_jobs co) j \<noteq> None \<longrightarrow> fmlookup (co_jobs co') j \<noteq> None)"
  using assms
  by (auto simp: refund_local_def apply_ledger_delta_def transaction_def settle_refunded_shard_def close_settled_job_def
      update_where_lookup)

text \<open>Without a ledger, two refunds of one shard that run at the same time are both paid.  Once the first is through
  the check refuses a second; but a request that had passed the check before writes without looking again, and the
  requester is credited twice.\<close>

theorem refund_race_pays_twice:
  assumes "refund_check now aid co = Inr cl" "\<not> fc_system_funded cl" "fmlookup (co_balances co) requester = Some b"
  shows "\<exists>co1 co2. refund_local now aid cl requester co = (co1, Inr ()) \<and>
    refund_check now aid co1 = Inl (NothingReclaimable ''refunded'') \<and>
    refund_local now aid cl requester co1 = (co2, Inr ()) \<and>
    fmlookup (co_balances co2) requester = Some (b + 2 * work_cost_mcu (fc_work cl))"
proof -
  from assms(1) obtain a j where a: "fmlookup (co_assignments co) aid = Some a" "fmlookup (co_jobs co) (as_job_id a) = Some j"
    unfolding refund_check_ok by blast
  from refund_local_pays[OF assms(2,3), of now aid] obtain co1 where 1: "refund_local now aid cl requester co = (co1, Inr ())"
    "fmlookup (co_balances co1) requester = Some (b + work_cost_mcu (fc_work cl))"
    "fmlookup (co_assignments co1) aid = Some (a\<lparr> as_status := ''refunded'', as_completed_at := Some now, as_lease_until := None \<rparr>)"
    "fmlookup (co_jobs co1) (as_job_id a) \<noteq> None" using a by auto
  from refund_local_pays[OF assms(2) 1(2), of now aid] obtain co2 where 2: "refund_local now aid cl requester co1 = (co2, Inr ())"
    "fmlookup (co_balances co2) requester = Some (b + work_cost_mcu (fc_work cl) + work_cost_mcu (fc_work cl))" by blast
  have "refund_check now aid co1 = Inl (NothingReclaimable ''refunded'')" using 1(3,4) by (auto simp: refund_check_def)
  with 1 2 show ?thesis by auto
qed

text \<open>A job of the requester, one shard of it, and a worker.\<close>

definition one_shard :: "string \<Rightarrow> string option \<Rightarrow> coordinator" where
  "one_shard status leased_to = demo_coordinator\<lparr>
     co_jobs := fmupd ''j'' \<lparr> jb_requester_node_id = Some ''boss'', jb_system_funded = False, jb_work = PrimeCount 2 6,
        jb_status = ''pending'', jb_reserved_mcu = 1, jb_created_at = 0, jb_completed_at = None \<rparr> fmempty,
     co_assignments := fmupd (assignment_id demo ''j'' 0)
        ((shard_as status 1 ''j'' 0 (PrimeCount 2 6))\<lparr> as_leased_to := leased_to \<rparr>) fmempty,
     co_balances := fmupd ''boss'' 0 (co_balances demo_coordinator) \<rparr>"

theorem refund_race_pays_twice_witness:
  "\<exists>co1 co2. refund_local 4000 (assignment_id demo ''j'' 0) \<lparr> fc_job_id = ''j'', fc_shard_index = 0, fc_work = PrimeCount 2 6,
        fc_system_funded = False, fc_requester = Some ''boss'' \<rparr> ''boss'' (one_shard ''pending'' None) = (co1, Inr ()) \<and>
    refund_check 4000 (assignment_id demo ''j'' 0) co1 = Inl (NothingReclaimable ''refunded'') \<and>
    refund_local 4000 (assignment_id demo ''j'' 0) \<lparr> fc_job_id = ''j'', fc_shard_index = 0, fc_work = PrimeCount 2 6,
        fc_system_funded = False, fc_requester = Some ''boss'' \<rparr> ''boss'' co1 = (co2, Inr ()) \<and>
    fmlookup (co_balances co2) ''boss'' = Some (0 + 2 * work_cost_mcu (PrimeCount 2 6))"
  using refund_race_pays_twice[of 4000 "assignment_id demo ''j'' 0" "one_shard ''pending'' None"
      "\<lparr> fc_job_id = ''j'', fc_shard_index = 0, fc_work = PrimeCount 2 6, fc_system_funded = False, fc_requester = Some ''boss'' \<rparr>" "''boss''" 0]
  by (simp add: one_shard_def refund_check_def SETTLEMENT_WINDOW_SECS_def DEFAULT_LEASE_SECONDS_def)

text \<open>A result that fails the audit puts its shard back in the queue whatever has happened to it meanwhile.  When the
  holder of a lease sends a good result and a bad one at the same time, the good one completes the shard and is
  paid, and the bad one then makes it pending again, with the worker forgotten: it is handed out and paid once more.\<close>

theorem rejection_reopens_paid_shard:
  assumes "fmlookup (co_assignments co) (rr_assignment_id req) = Some r" "held_lease req r"
    and "fmlookup (co_balances co) (ap_node_id (rr_auth req)) = Some b"
    and "rr_assignment_id bad = rr_assignment_id req"
    and "is_rejected (witness_check (rr_work bad) (rr_result bad) nonce)" "should_audit powf (reputation_row co (ap_node_id (rr_auth bad))) nonce"
  shows "\<exists>co1 co2 r2. result_local now req co = (co1, Inr ()) \<and>
    fmlookup (co_balances co1) (ap_node_id (rr_auth req)) = Some (b + rr_reward_mcu req) \<and>
    map_option as_status (fmlookup (co_assignments co1) (rr_assignment_id req)) = Some ''completed'' \<and>
    result_judge powf nonce bad co1 = (co2, Inl VerificationFailed) \<and>
    fmlookup (co_assignments co2) (rr_assignment_id req) = Some r2 \<and> as_status r2 = ''pending'' \<and> as_leased_to r2 = None"
proof -
  from assms(1-3) obtain co1 where 1: "result_local now req co = (co1, Inr ())"
    "fmlookup (co_balances co1) (ap_node_id (rr_auth req)) = Some (b + rr_reward_mcu req)"
    "fmlookup (co_assignments co1) (rr_assignment_id req) = Some (r\<lparr> as_status := ''completed'',
       as_result := Some (rr_result req), as_completed_at := Some now, as_lease_until := None \<rparr>)"
    "reputation_row co1 = reputation_row co"
    by (auto simp: result_local_def touches_iff apply_ledger_delta_def transaction_def reputation_row_def fun_eq_iff)
  moreover from 1(3,4) assms(4-6) obtain co2 r2 where "result_judge powf nonce bad co1 = (co2, Inl VerificationFailed)"
    "fmlookup (co_assignments co2) (rr_assignment_id req) = Some r2" "as_status r2 = ''pending''" "as_leased_to r2 = None"
    by (auto simp: result_judge_def Let_def settle_def)
  ultimately show ?thesis by auto
qed

definition demo_result :: "work_result \<Rightarrow> result_request" where
  "demo_result r = \<lparr> rr_auth = demo_proof, rr_assignment_id = assignment_id demo ''j'' 0, rr_job_id = ''j'', rr_shard_index = 0,
     rr_work = PrimeCount 2 6, rr_reward_mcu = 1, rr_system_funded = False, rr_result = r \<rparr>"

theorem rejection_reopens_paid_shard_witness:
  "\<exists>co1 co2 r2. result_local 9 (demo_result (RPrimeCount 3 [] 0)) (one_shard ''leased'' (Some demo_node)) = (co1, Inr ()) \<and>
    fmlookup (co_balances co1) (ap_node_id (rr_auth (demo_result (RPrimeCount 3 [] 0)))) =
      Some (0 + rr_reward_mcu (demo_result (RPrimeCount 3 [] 0))) \<and>
    map_option as_status (fmlookup (co_assignments co1) (rr_assignment_id (demo_result (RPrimeCount 3 [] 0)))) = Some ''completed'' \<and>
    result_judge (\<lambda>x y. platform_powf x y) 5 (demo_result (RMatrixMultiply [] 0)) co1 = (co2, Inl VerificationFailed) \<and>
    fmlookup (co_assignments co2) (rr_assignment_id (demo_result (RPrimeCount 3 [] 0))) = Some r2 \<and>
    as_status r2 = ''pending'' \<and> as_leased_to r2 = None"
proof (rule rejection_reopens_paid_shard)
  show "fmlookup (co_assignments (one_shard ''leased'' (Some demo_node))) (rr_assignment_id (demo_result (RPrimeCount 3 [] 0))) =
      Some ((shard_as ''leased'' 1 ''j'' 0 (PrimeCount 2 6))\<lparr> as_leased_to := Some demo_node \<rparr>)"
    by (simp add: one_shard_def demo_result_def)
  show "fmlookup (co_balances (one_shard ''leased'' (Some demo_node))) (ap_node_id (rr_auth (demo_result (RPrimeCount 3 [] 0)))) = Some 0"
    by (simp add: one_shard_def demo_result_def demo_proof_def demo_coordinator_def demo_node_def node_id_from_public_key_def)
  have "reputation_row (one_shard ''leased'' (Some demo_node)) n = new_reputation" for n
    by (simp add: reputation_row_def one_shard_def demo_coordinator_def empty_coordinator_def)
  then show "should_audit (\<lambda>x y. platform_powf x y) (reputation_row (one_shard ''leased'' (Some demo_node))
      (ap_node_id (rr_auth (demo_result (RMatrixMultiply [] 0))))) 5"
    using unproven_audited[OF powr_ok, of new_reputation] by (simp add: new_reputation_def)
qed (simp_all add: demo_result_def demo_proof_def held_lease_def is_rejected_def)

text \<open>A reward and a refund of a shard settle under one claim, and recovery asks only whether the claim is settled.
  When a refund has won the claim and its handler stopped before writing it down, recovering the reward's
  intent marks the shard completed and the intent certified, although nobody was paid for it.\<close>

theorem recovery_takes_refund_for_reward:
  assumes "fmlookup (co_intents co) ck = Some i" "it_kind i = ''provider_reward''" "it_object_id i = aid"
    and "claim_key (it_transaction i) = ck" "fmlookup (co_assignments co) aid = Some r" "as_status r = ''settling''"
    and "ck = claim_key (refund_transaction t aid auth cl who)" "claim ck = Some (Some refund_entry)"
  shows "\<exists>co' r' i'. recover_one now claim transact (ck, i) co = (co', Inr refund_entry) \<and>
    fmlookup (co_assignments co') aid = Some r' \<and> as_status r' = ''completed'' \<and>
    fmlookup (co_intents co') ck = Some i' \<and> it_status i' = ''certified'' \<and> it_entry_hash i' = Some refund_entry"
  using assms
  by (auto simp: recover_one_def finalize_reward_def transaction_def certify_ledger_intent_def update_where_lookup)

definition settling_shard :: coordinator where
  "settling_shard = persist_ledger_intent 5 (''reward:'' @ assignment_id demo ''j'' 0) ''provider_reward'' (assignment_id demo ''j'' 0)
     (reward_transaction 5 ''k'' 7 (demo_result (RPrimeCount 3 [] 0))) (one_shard ''settling'' (Some demo_node))"

definition demo_claim :: refund_claim where
  "demo_claim = \<lparr> fc_job_id = ''j'', fc_shard_index = 0, fc_work = PrimeCount 2 6, fc_system_funded = False, fc_requester = Some ''boss'' \<rparr>"

theorem recovery_takes_refund_for_reward_witness:
  "\<exists>co' r' i'. recover_one 9 (\<lambda>_. Some (Some ''e'')) (\<lambda>_. None)
      (''reward:'' @ assignment_id demo ''j'' 0, the (fmlookup (co_intents settling_shard) (''reward:'' @ assignment_id demo ''j'' 0)))
      settling_shard = (co', Inr ''e'') \<and>
    fmlookup (co_assignments co') (assignment_id demo ''j'' 0) = Some r' \<and> as_status r' = ''completed'' \<and>
    fmlookup (co_intents co') (''reward:'' @ assignment_id demo ''j'' 0) = Some i' \<and> it_status i' = ''certified'' \<and>
    it_entry_hash i' = Some ''e''"
  by (rule recovery_takes_refund_for_reward[where auth = None and t = 0 and who = "(''boss'', None)" and cl = demo_claim and
        r = "(shard_as ''settling'' 1 ''j'' 0 (PrimeCount 2 6))\<lparr> as_leased_to := Some demo_node \<rparr>"])
     (simp_all add: settling_shard_def persist_ledger_intent_def one_shard_def demo_coordinator_def empty_coordinator_def
        claim_key_def refund_transaction_def reward_transaction_def demo_result_def Let_def)

text \<open>A rebuilt coordinator and a live one disagree about a job that was partly refunded: on the same shards the live
  one reports it as closed, the rebuilt one as completed.\<close>

theorem rebuild_hides_refund:
  assumes "fmlookup (co_jobs co) j = Some job" "\<not> job_open co j" "job_refunded co j"
  shows "map_option jb_status (fmlookup (co_jobs (close_settled_job now j co)) j) = Some ''closed'' \<and>
    map_option jb_status (fmlookup (co_jobs (finalize_jobs co)) j) = Some ''completed''"
proof -
  have "job_closed co j" using assms(2) by (auto simp: job_open_def job_closed_def final_status_def fmpred_iff)
  with assms show ?thesis by (simp add: close_settled_job_def finalize_jobs_def update_where_lookup)
qed

theorem rebuild_hides_refund_witness:
  "map_option jb_status (fmlookup (co_jobs (close_settled_job 9 ''j'' (one_shard ''refunded'' None))) ''j'') = Some ''closed'' \<and>
   map_option jb_status (fmlookup (co_jobs (finalize_jobs (one_shard ''refunded'' None))) ''j'') = Some ''completed''"
  by (rule rebuild_hides_refund)
     (auto simp: one_shard_def job_open_def job_refunded_def final_status_def fmpred_iff split: if_splits)

end
