(* ===== verification/Polling.thy ===== *)
theory Polling
  imports Dispatch
begin

text \<open>
  What a node that asks for work is given (\<open>poll_work\<close> of \<open>api.rs\<close>): which shard, for how long, and what its lease
  changes in the tables; and a queue in which a federated coordinator cannot see the work it owns.
\<close>

section \<open>Lemmas\<close>

lemma fm_assoc_mem: "(k, v) \<in> set (fm_assoc m) \<longleftrightarrow> fmlookup m k = Some v"
  by (auto simp: fm_assoc_def fmlookup_dom_iff)

lemma fm_assoc_single: "fm_assoc (fmupd k v fmempty) = [(k, v)]"
  by (simp add: fm_assoc_def sorted_list_of_fset.rep_eq)

lemma offerable_mem:
  "(aid, a, j) \<in> set (offerable node co) \<longleftrightarrow>
     fmlookup (co_assignments co) aid = Some a \<and> fmlookup (co_jobs co) (as_job_id a) = Some j \<and>
     as_status a = ''pending'' \<and> jb_requester_node_id j \<noteq> Some node"
  unfolding offerable_def set_sort in_map_filter
  by (auto simp: fm_assoc_mem split: option.splits if_splits intro!: bexI[of _ "(aid, a)"])

lemma pending_work_mem:
  assumes "s \<in> set (pending_work c fed node co)"
  shows "\<exists>a j. fmlookup (co_assignments co) (sc_assignment_id s) = Some a \<and> fmlookup (co_jobs co) (as_job_id a) = Some j \<and>
           as_status a = ''pending'' \<and> jb_requester_node_id j \<noteq> Some node \<and> sc_job_id s = as_job_id a \<and>
           sc_shard_index s = as_shard_index a \<and> sc_reward_mcu s = as_reward_mcu a \<and>
           (\<forall>f. fed = Some f \<longrightarrow> owns c f (as_job_id a))"
proof -
  obtain aid a j where r: "(aid, a, j) \<in> set (take POLL_WINDOW (offerable node co))"
    and o': "case fed of None \<Rightarrow> True | Some f \<Rightarrow> owns c f (as_job_id a)" and s: "s = shard_offer node co (aid, a, j)"
    using assms by (auto simp: pending_work_def)
  from in_set_takeD[OF r] have "fmlookup (co_assignments co) aid = Some a" "fmlookup (co_jobs co) (as_job_id a) = Some j"
    "as_status a = ''pending''" "jb_requester_node_id j \<noteq> Some node" unfolding offerable_mem by auto
  with o' s show ?thesis by (auto simp: shard_offer_def Let_def)
qed

text \<open>What the first stretch leaves of the tables.\<close>

definition free_at :: "int \<Rightarrow> assignment_row \<Rightarrow> bool" where
  "free_at now r \<longleftrightarrow> as_status r = ''pending'' \<or>
     as_status r = ''leased'' \<and> (case as_lease_until r of None \<Rightarrow> False | Some t \<Rightarrow> t < now)"

lemma authenticate_frame:
  assumes "authenticate_known_node c t1 t2 auth action h co = (co', r)"
  shows "co_assignments co' = co_assignments co \<and> co_jobs co' = co_jobs co \<and> co_balances co' = co_balances co \<and>
         co_nodes co' = co_nodes co \<and> co_intents co' = co_intents co \<and> co_reputation co' = co_reputation co"
  using assms by (auto simp: authenticate_known_node_def consume_nonce_def Let_def split: option.splits sum.splits if_splits)

lemma poll_offer_ok:
  assumes "poll_offer c powf now fed auth co = (co', Inr offer)"
  shows "co_jobs co' = co_jobs co" "co_balances co' = co_balances co"
    and "fmlookup (co_assignments co') aid = map_option (\<lambda>r. if as_status r \<noteq> ''pending'' \<and> free_at now r
           then r\<lparr> as_status := ''pending'', as_leased_to := None, as_lease_until := None, as_leased_by := None \<rparr> else r)
           (fmlookup (co_assignments co) aid)"
    and "offer = Some (s, until) \<Longrightarrow> \<exists>worker f. worker_profile (ap_node_id auth) co' = Inr worker \<and>
           best powf worker (pending_work c fed (ap_node_id auth) co') now (home_region fed) default_weights (recent_pollers now co') = Some (s, f) \<and>
           until = now + lease_seconds_for (wp_caps worker) (sc_reward_mcu s)"
proof -
  obtain co1 where a: "authenticate_known_node c now now auth ''poll'' (empty_body_hash c) co = (co1, Inr ())"
    using assms by (auto simp: poll_offer_def bind_step_Inr)
  define co2 where "co2 = release_expired now co1"
  have co': "co' = co2\<lparr> co_nodes := fst (update_where (ap_node_id auth) (\<lambda>_. True) (\<lambda>r. r\<lparr> nd_last_seen := now \<rparr>) (co_nodes co2)) \<rparr>"
    and r: "qbind (worker_profile (ap_node_id auth) co') (\<lambda>worker.
          Inr (case best powf worker (pending_work c fed (ap_node_id auth) co') now (home_region fed) default_weights (recent_pollers now co') of
                 None \<Rightarrow> None | Some (s, _) \<Rightarrow> Some (s, now + lease_seconds_for (wp_caps worker) (sc_reward_mcu s)))) = Inr offer"
    using assms a by (auto simp: poll_offer_def Let_def co2_def)
  note frame = authenticate_frame[OF a]
  show "co_jobs co' = co_jobs co" "co_balances co' = co_balances co"
    using frame by (simp_all add: co' co2_def release_expired_def)
  show "fmlookup (co_assignments co') aid = map_option (\<lambda>r. if as_status r \<noteq> ''pending'' \<and> free_at now r
           then r\<lparr> as_status := ''pending'', as_leased_to := None, as_lease_until := None, as_leased_by := None \<rparr> else r)
           (fmlookup (co_assignments co) aid)"
    using frame by (cases "fmlookup (co_assignments co) aid") (auto simp: co' co2_def release_expired_def free_at_def)
  show "\<exists>worker f. worker_profile (ap_node_id auth) co' = Inr worker \<and>
           best powf worker (pending_work c fed (ap_node_id auth) co') now (home_region fed) default_weights (recent_pollers now co') = Some (s, f) \<and>
           until = now + lease_seconds_for (wp_caps worker) (sc_reward_mcu s)" if "offer = Some (s, until)"
    using r that by (auto simp: qbind_def split: sum.splits option.splits)
qed

lemma poll_lease_offer: "poll_lease fed node o' co = (co', Inr (Some x)) \<Longrightarrow> o' = x"
  by (cases o') (simp add: poll_lease_def Let_def split: if_splits)

text \<open>C21. What a poll hands out.  A shard that is given to a node is recorded as leased to it until the end of a lease
  between the default and the ceiling; it was free, waiting or held by a lease that had expired; its job exists, was
  not submitted by the node itself and is owned by this coordinator where it is federated.  Every other shard is left as it was,
  but for expired leases, which go back to the queue, and no balance moves.\<close>

theorem poll_hands_out:
  assumes "poll_work c powf now fed auth co = (co', Inr (Some (s, until)))"
  shows "\<exists>r j. fmlookup (co_assignments co) (sc_assignment_id s) = Some r \<and> free_at now r \<and>
           fmlookup (co_assignments co') (sc_assignment_id s) = Some (r\<lparr> as_status := ''leased'',
             as_leased_to := Some (ap_node_id auth), as_lease_until := Some until, as_leased_by := map_option fd_coordinator_id fed \<rparr>) \<and>
           now + DEFAULT_LEASE_SECONDS \<le> until \<and> until \<le> now + MAX_LEASE_SECONDS \<and>
           fmlookup (co_jobs co) (as_job_id r) = Some j \<and> jb_requester_node_id j \<noteq> Some (ap_node_id auth) \<and>
           (\<forall>f. fed = Some f \<longrightarrow> owns c f (as_job_id r)) \<and>
           (\<forall>x r'. x \<noteq> sc_assignment_id s \<longrightarrow> fmlookup (co_assignments co) x = Some r' \<longrightarrow> \<not> free_at now r' \<longrightarrow>
              fmlookup (co_assignments co') x = Some r') \<and>
           co_jobs co' = co_jobs co \<and> co_balances co' = co_balances co"
proof -
  let ?node = "ap_node_id auth" and ?aid = "sc_assignment_id s"
  obtain co1 where o1: "poll_offer c powf now fed auth co = (co1, Inr (Some (s, until)))"
    and l: "poll_lease fed ?node (s, until) co1 = (co', Inr (Some (s, until)))"
    using assms poll_lease_offer by (fastforce simp: poll_work_def bind_step_Inr split: option.splits)
  obtain worker f where b: "best powf worker (pending_work c fed ?node co1) now (home_region fed) default_weights (recent_pollers now co1) = Some (s, f)"
    and u: "until = now + lease_seconds_for (wp_caps worker) (sc_reward_mcu s)"
    using poll_offer_ok(4)[OF o1 refl] by blast
  have lease: "DEFAULT_LEASE_SECONDS \<le> lease_seconds_for caps m" "lease_seconds_for caps m \<le> MAX_LEASE_SECONDS" for caps m
    by (simp_all add: lease_seconds_for_def Let_def DEFAULT_LEASE_SECONDS_def MAX_LEASE_SECONDS_def split: option.split)
  from pending_work_mem[OF best_some(1)[OF b]] obtain a j where a: "fmlookup (co_assignments co1) ?aid = Some a"
    "fmlookup (co_jobs co1) (as_job_id a) = Some j" "as_status a = ''pending''" "jb_requester_node_id j \<noteq> Some ?node"
    "\<forall>f. fed = Some f \<longrightarrow> owns c f (as_job_id a)" by blast
  from a(1) poll_offer_ok(3)[OF o1, of ?aid] obtain r where r: "fmlookup (co_assignments co) ?aid = Some r"
    "a = (if as_status r \<noteq> ''pending'' \<and> free_at now r
           then r\<lparr> as_status := ''pending'', as_leased_to := None, as_lease_until := None, as_leased_by := None \<rparr> else r)" by auto
  have free: "free_at now r" "as_job_id a = as_job_id r" using r(2) a(3) by (auto simp: free_at_def split: if_splits)
  have co': "co' = set_assignment ?aid (\<lambda>r. as_status r = ''pending'') (\<lambda>r. r\<lparr> as_status := ''leased'', as_leased_to := Some ?node,
                   as_lease_until := Some until, as_leased_by := map_option fd_coordinator_id fed \<rparr>) co1"
    using l by (auto simp: poll_lease_def Let_def split: if_splits)
  have here: "fmlookup (co_assignments co') ?aid = Some (r\<lparr> as_status := ''leased'',
             as_leased_to := Some ?node, as_lease_until := Some until, as_leased_by := map_option fd_coordinator_id fed \<rparr>)"
    using a(1,3) r(2) by (auto simp: co')
  have others: "fmlookup (co_assignments co') x = Some r'"
    if "x \<noteq> ?aid" "fmlookup (co_assignments co) x = Some r'" "\<not> free_at now r'" for x r'
    using that poll_offer_ok(3)[OF o1, of x] by (simp add: co')
  show ?thesis
    using r(1) free here lease[of "wp_caps worker" "sc_reward_mcu s"] u a(2,4,5) others poll_offer_ok(1,2)[OF o1]
    by (intro exI[of _ r] exI[of _ j]) (simp add: co')
qed

section \<open>Witnesses\<close>

lemma fit_unmeasured:
  assumes "cp_cpu_benchmark_score (wp_caps worker) = 0" "0 < cp_shared_logical_cpus (wp_caps worker)"
    and "sc_memory_bytes cand \<le> cp_shared_memory_bytes (wp_caps worker)" "\<not> contended scale"
  shows "\<exists>f. fit powf worker cand scale now here w = Inr f"
  using assms by (simp add: fit_def Let_def predicted_seconds_def mcu_per_second_def)

lemma one_shard_authenticated:
  "authenticate_known_node demo 300 300 demo_proof action h (one_shard status who) =
     ((one_shard status who)\<lparr> co_nonces := fmupd (demo_node, replicate 16 CHR ''n'') 900 fmempty \<rparr>, Inr ())"
proof -
  have "verify_auth demo 300 k demo_proof action h = Inr ()" for k by (rule demo_verified) (simp_all add: demo_proof_def)
  moreover have "live_nonces 300 (co_nonces (one_shard status who)) = fmempty"
    by (rule fmap_ext) (simp add: live_nonces_lookup one_shard_def demo_coordinator_def empty_coordinator_def)
  moreover have "fmlookup (co_nodes (one_shard status who)) demo_node \<noteq> None" by (simp add: one_shard_def demo_coordinator_def)
  ultimately show ?thesis
    by (auto simp: authenticate_known_node_def demo_proof_def consume_nonce_def Let_def AUTH_MAX_CLOCK_SKEW_SECS_def)
qed

lemma one_shard_pending:
  assumes "co_assignments co = co_assignments (one_shard ''pending'' None)" "co_jobs co = co_jobs (one_shard ''pending'' None)"
  shows "pending_work c None demo_node co =
    [shard_offer demo_node co (assignment_id demo ''j'' 0, shard_as ''pending'' 1 ''j'' 0 (PrimeCount 2 6), the (fmlookup (co_jobs co) ''j''))]"
proof -
  have "demo_node \<noteq> ''boss''" by (simp add: demo_node_def node_id_from_public_key_def)
  then have "offerable demo_node co = [(assignment_id demo ''j'' 0, shard_as ''pending'' 1 ''j'' 0 (PrimeCount 2 6), the (fmlookup (co_jobs co) ''j''))]"
    unfolding offerable_def assms by (simp add: one_shard_def fm_assoc_single map_filter_simps)
  then show ?thesis by (simp add: pending_work_def POLL_WINDOW_def)
qed

theorem poll_hands_out_witness:
  "\<exists>s until co'. poll_work demo (\<lambda>x y. platform_powf x y) 300 None demo_proof (one_shard ''pending'' None) = (co', Inr (Some (s, until))) \<and>
     map_option as_leased_to (fmlookup (co_assignments co') (sc_assignment_id s)) = Some (Some demo_node)"
proof -
  let ?powf = "\<lambda>x y. platform_powf x y" and ?co = "one_shard ''pending'' None"
  let ?nodes = "fmupd demo_node \<lparr> nd_public_key_b64 = ''k'', nd_capabilities = demo_caps, nd_registered_at = 0, nd_last_seen = 300, nd_region = None \<rparr> fmempty"
  define co1 where "co1 = ?co\<lparr> co_nonces := fmupd (demo_node, replicate 16 CHR ''n'') 900 fmempty, co_nodes := ?nodes \<rparr>"
  have rel: "release_expired 300 (?co\<lparr> co_nonces := m \<rparr>) = ?co\<lparr> co_nonces := m \<rparr>" for m
  proof -
    have "update_all (\<lambda>r. as_status r = ''leased'' \<and> (case as_lease_until r of None \<Rightarrow> False | Some t \<Rightarrow> t < 300)) g (co_assignments ?co) = co_assignments ?co" for g
      by (rule fmap_ext) (simp add: one_shard_def)
    then show ?thesis by (simp add: release_expired_def)
  qed
  define worker where "worker = \<lparr> wp_node_id = demo_node, wp_region = None, wp_caps = demo_caps, wp_reputation = reputation_row co1 demo_node \<rparr>"
  let ?offers = "pending_work demo None demo_node co1"
  have n: "ap_node_id demo_proof = demo_node" by (simp add: demo_proof_def)
  have caps: "wp_caps worker = demo_caps" by (simp add: worker_def)
  have offers: "?offers = [hd ?offers]" using one_shard_pending[of co1] by (simp add: co1_def)
  have w: "worker_profile demo_node co1 = Inr worker" by (simp add: worker_profile_def co1_def worker_def)
  have polls: "recent_pollers 300 co1 = 1" by (simp add: recent_pollers_def co1_def fm_assoc_single HEAD_START_SECONDS_def)
  obtain f where "fit ?powf worker (hd ?offers) ((scale_of [hd ?offers])\<lparr> sl_recent_pollers := 1 \<rparr>) 300 None default_weights = Inr f"
    using fit_unmeasured[of worker "hd ?offers" "(scale_of [hd ?offers])\<lparr> sl_recent_pollers := 1 \<rparr>" ?powf 300 None default_weights]
      one_shard_pending[of co1 demo] by (auto simp: worker_def demo_caps_def scale_of_def contended_def co1_def shard_offer_def Let_def)
  then have b: "best ?powf worker ?offers 300 None default_weights 1 = Some (hd ?offers, f)"
    by (subst offers) (simp add: best_def map_filter_simps)
  define until where "until = 300 + lease_seconds_for demo_caps (sc_reward_mcu (hd ?offers))"
  have nodes: "fst (update_where demo_node (\<lambda>_. True) (\<lambda>r. r\<lparr> nd_last_seen := 300 \<rparr>) (co_nodes ?co)) = ?nodes"
    by (rule fmap_ext) (simp add: update_where_lookup one_shard_def demo_coordinator_def)
  have "poll_offer demo ?powf 300 None demo_proof ?co = (co1, Inr (Some (hd ?offers, until)))"
    using b by (simp add: poll_offer_def one_shard_authenticated n rel Let_def nodes w polls home_region_def caps until_def
        flip: co1_def)
  moreover have "touches (sc_assignment_id (hd ?offers)) (\<lambda>r. as_status r = ''pending'') co1"
    using one_shard_pending[of co1 demo] by (simp add: touches_iff co1_def one_shard_def shard_offer_def Let_def)
  ultimately have p: "poll_work demo ?powf 300 None demo_proof ?co = (set_assignment (sc_assignment_id (hd ?offers)) (\<lambda>r. as_status r = ''pending'')
       (\<lambda>r. r\<lparr> as_status := ''leased'', as_leased_to := Some demo_node, as_lease_until := Some until, as_leased_by := None \<rparr>) co1,
       Inr (Some (hd ?offers, until)))"
    by (simp add: poll_work_def poll_lease_def Let_def demo_proof_def)
  from poll_hands_out[OF p] have "map_option as_leased_to (fmlookup (co_assignments (set_assignment (sc_assignment_id (hd ?offers))
      (\<lambda>r. as_status r = ''pending'') (\<lambda>r. r\<lparr> as_status := ''leased'', as_leased_to := Some demo_node, as_lease_until := Some until,
        as_leased_by := None \<rparr>) co1)) (sc_assignment_id (hd ?offers))) = Some (Some demo_node)"
    unfolding n by fastforce
  then show ?thesis using p by blast
qed

section \<open>A window that hides owned work\<close>

lemma take_of_sorted:
  fixes key :: "'a \<Rightarrow> 'b :: linorder"
  assumes "sorted (map key xs)" "\<And>y z. key y \<le> key z \<Longrightarrow> P z \<Longrightarrow> P y" "n \<le> length (filter P xs)" "x \<in> set (take n xs)"
  shows "P x"
  using assms
proof (induction xs arbitrary: n)
  case (Cons y ys)
  show ?case
  proof (cases "P y")
    case True
    with Cons.prems show ?thesis by (cases n) (auto intro: Cons.IH[of "n - 1"])
  next
    case False
    have "\<not> P z" if "z \<in> set ys" for z using Cons.prems(1) False that Cons.prems(2)[of y z] by auto
    then have "filter P ys = []" by (simp add: filter_empty_conv)
    with False Cons.prems show ?thesis by simp
  qed
qed simp

text \<open>A federated coordinator can be blind to the work it owns.  The window of shards it looks at is cut before
  ownership is asked: when as many older shards as fit the window belong to jobs that a peer owns, no shard is offered to
  the node, although younger jobs of this coordinator are waiting.\<close>

theorem window_hides_owned_work:
  assumes "POLL_WINDOW \<le> length (filter (\<lambda>(_, _, j). jb_created_at j < t) (offerable node co))"
    and "\<And>aid a j. (aid, a, j) \<in> set (offerable node co) \<Longrightarrow> jb_created_at j < t \<Longrightarrow> \<not> owns c f (as_job_id a)"
  shows "pending_work c (Some f) node co = []"
proof -
  let ?key = "\<lambda>(_ :: string, a, j). (jb_created_at j, as_rowid a)"
  have old: "(case x of (_, _, j) \<Rightarrow> jb_created_at j < t)" if "x \<in> set (take POLL_WINDOW (offerable node co))" for x
  proof (rule take_of_sorted[of ?key, OF _ _ assms(1) that])
    show "sorted (map ?key (offerable node co))" by (simp add: offerable_def)
  qed (auto split: prod.splits)
  have "\<not> owns c f (as_job_id a)" if "(aid, a, j) \<in> set (take POLL_WINDOW (offerable node co))" for aid a j
    using old[OF that] assms(2)[OF in_set_takeD[OF that]] by simp
  then show ?thesis by (auto simp: pending_work_def filter_empty_conv)
qed

text \<open>A digest under which \<open>west\<close> owns the jobs whose name ends in 1 and \<open>east\<close> the others.\<close>

definition split_crypto :: crypto where
  "split_crypto = demo\<lparr> sha256 := (\<lambda>s. if last s = CHR ''1'' then s
     else if hd s = CHR ''e'' then ''zzzzzzzz'' else ''aaaaaaaa'') \<rparr>"

lemma split_owners: "\<not> owns split_crypto east ''j1''" "owns split_crypto east ''j2''"
  by code_simp+

definition crowd_row :: "string \<Rightarrow> nat \<Rightarrow> assignment_row" where
  "crowd_row j i = shard_as ''pending'' i j i (PrimeCount 2 6)"

definition crowd_job :: "int \<Rightarrow> job_row" where
  "crowd_job t = \<lparr> jb_requester_node_id = Some ''boss'', jb_system_funded = False, jb_work = PrimeCount 2 6,
     jb_status = ''pending'', jb_reserved_mcu = 1, jb_created_at = t, jb_completed_at = None \<rparr>"

definition crowd :: coordinator where
  "crowd = empty_coordinator\<lparr>
     co_jobs := fmap_of_list [(''j1'', crowd_job 0), (''j2'', crowd_job 1)],
     co_assignments := fmap_of_list ((''mine'', crowd_row ''j2'' 256) # map (\<lambda>i. (show_nat i, crowd_row ''j1'' i)) [0..<256]) \<rparr>"

lemma crowd_lookup:
  "i < 256 \<Longrightarrow> show_nat i \<noteq> ''mine'' \<Longrightarrow> fmlookup (co_assignments crowd) (show_nat i) = Some (crowd_row ''j1'' i)"
  "fmlookup (co_assignments crowd) ''mine'' = Some (crowd_row ''j2'' 256)"
  "fmlookup (co_assignments crowd) k = Some a \<Longrightarrow> k \<noteq> ''mine'' \<Longrightarrow> as_job_id a = ''j1''"
proof -
  have "distinct (map fst (map (\<lambda>i. (show_nat i, crowd_row ''j1'' i)) [0..<256]))"
    by (simp add: distinct_map comp_def inj_on_def)
  then have m: "map_of (map (\<lambda>i. (show_nat i, crowd_row ''j1'' i)) [0..<256]) k = Some v \<longleftrightarrow>
      (k, v) \<in> set (map (\<lambda>i. (show_nat i, crowd_row ''j1'' i)) [0..<256])" for k v by (rule map_of_eq_Some_iff)
  show "i < 256 \<Longrightarrow> show_nat i \<noteq> ''mine'' \<Longrightarrow> fmlookup (co_assignments crowd) (show_nat i) = Some (crowd_row ''j1'' i)"
    unfolding crowd_def using m by (simp add: fmap_of_list.rep_eq del: set_map map_map) auto
  show "fmlookup (co_assignments crowd) ''mine'' = Some (crowd_row ''j2'' 256)"
    by (simp add: crowd_def fmap_of_list.rep_eq)
  show "fmlookup (co_assignments crowd) k = Some a \<Longrightarrow> k \<noteq> ''mine'' \<Longrightarrow> as_job_id a = ''j1''"
    unfolding crowd_def using m[of k a] by (auto simp: fmap_of_list.rep_eq crowd_row_def)
qed


lemma show_nat_not_mine: "show_nat i \<noteq> ''mine''"
proof -
  have "of_char (last (show_nat i)) < (58 :: nat)" by (subst show_nat.simps) (simp add: of_char_of)
  then show ?thesis by (auto simp: of_char_def)
qed

theorem window_hides_owned_work_witness:
  "(\<exists>a j. (''mine'', a, j) \<in> set (offerable demo_node crowd) \<and> owns split_crypto east (as_job_id a)) \<and>
   pending_work split_crypto (Some east) demo_node crowd = []"
proof (intro conjI exI)
  have nb: "demo_node \<noteq> ''boss''" by (simp add: demo_node_def node_id_from_public_key_def)
  have jobs: "fmlookup (co_jobs crowd) ''j1'' = Some (crowd_job 0)" "fmlookup (co_jobs crowd) ''j2'' = Some (crowd_job 1)"
    by (simp_all add: crowd_def fmap_of_list.rep_eq)
  show "(''mine'', crowd_row ''j2'' 256, crowd_job 1) \<in> set (offerable demo_node crowd)"
    using nb by (simp add: offerable_mem crowd_lookup jobs crowd_row_def crowd_job_def)
  show "owns split_crypto east (as_job_id (crowd_row ''j2'' 256))" by (simp add: crowd_row_def split_owners)
  show "pending_work split_crypto (Some east) demo_node crowd = []"
  proof (rule window_hides_owned_work[of 1])
    let ?old = "filter (\<lambda>(_, _, j). jb_created_at j < 1) (offerable demo_node crowd)"
    have "show_nat ` {0..<256} \<subseteq> fst ` set ?old"
    proof
      fix k assume "k \<in> show_nat ` {0..<256}"
      then obtain i where i: "k = show_nat i" "i < 256" by auto
      have "(k, crowd_row ''j1'' i, crowd_job 0) \<in> set (offerable demo_node crowd)"
        using nb i show_nat_not_mine by (simp add: offerable_mem crowd_lookup(1) jobs(1) crowd_row_def crowd_job_def)
      then show "k \<in> fst ` set ?old" by (force simp: crowd_job_def)
    qed
    then have "card (show_nat ` {0..<256}) \<le> card (fst ` set ?old)" by (intro card_mono) simp_all
    also have "\<dots> \<le> length ?old" using card_image_le[of "set ?old" fst] card_length[of ?old] by simp
    finally show "POLL_WINDOW \<le> length ?old" by (simp add: POLL_WINDOW_def card_image inj_on_def)
    fix aid a j assume a: "(aid, a, j) \<in> set (offerable demo_node crowd)" "jb_created_at j < 1"
    have "aid \<noteq> ''mine''" using a crowd_lookup(2) jobs(2) by (auto simp: offerable_mem crowd_row_def crowd_job_def)
    then show "\<not> owns split_crypto east (as_job_id a)" using a crowd_lookup(3)[of aid a] split_owners by (auto simp: offerable_mem)
  qed
qed

end
