(* ===== verification/Custody.thy ===== *)
theory Custody
  imports Polling
begin

text \<open>
  Compute credit in a coordinator that keeps the balances itself (no validators configured): what every request, run to
  its end or to its error, does to the sum of the balances and of the credit held for open shards.
\<close>

section \<open>Definitions\<close>

definition table_sum :: "('v \<Rightarrow> int) \<Rightarrow> ('k, 'v) fmap \<Rightarrow> int" where
  "table_sum g m = (\<Sum>k\<in>fset (fmdom m). g (the (fmlookup m k)))"

definition community_job :: "coordinator \<Rightarrow> string \<Rightarrow> bool" where
  "community_job co j = (case fmlookup (co_jobs co) j of None \<Rightarrow> False | Some job \<Rightarrow> jb_system_funded job)"

text \<open>Credit in accounts; credit taken from a requester and not yet paid out; credit created by completed community
  work.\<close>

definition credit :: "coordinator \<Rightarrow> int" where
  "credit co = table_sum id (co_balances co)"

definition escrowed :: "coordinator \<Rightarrow> int" where
  "escrowed co = table_sum (\<lambda>r. if \<not> community_job co (as_job_id r) \<and> \<not> final_status (as_status r) then as_reward_mcu r else 0) (co_assignments co)"

definition minted :: "coordinator \<Rightarrow> int" where
  "minted co = table_sum (\<lambda>r. if community_job co (as_job_id r) \<and> as_status r = ''completed'' then as_reward_mcu r else 0) (co_assignments co)"

definition books_ok :: "coordinator \<Rightarrow> bool" where
  "books_ok co \<longleftrightarrow> credit co + escrowed co = minted co \<and> (\<forall>n b. fmlookup (co_balances co) n = Some b \<longrightarrow> 0 \<le> b) \<and>
     (\<forall>k r. fmlookup (co_assignments co) k = Some r \<longrightarrow>
        fmlookup (co_jobs co) (as_job_id r) \<noteq> None \<and> as_reward_mcu r = work_cost_mcu (as_work r))"

section \<open>Sums over tables\<close>

lemma table_sum_upd:
  "table_sum g (fmupd k v m) = table_sum g m - (case fmlookup m k of None \<Rightarrow> 0 | Some u \<Rightarrow> g u) + g v"
proof (cases "fmlookup m k")
  case None
  then have "k \<notin> fset (fmdom m)" by (simp add: fmdom_notI)
  then have "table_sum g (fmupd k v m) = g v + (\<Sum>x\<in>fset (fmdom m). g (the (fmlookup (fmupd k v m) x)))"
    by (simp add: table_sum_def)
  also have "(\<Sum>x\<in>fset (fmdom m). g (the (fmlookup (fmupd k v m) x))) = table_sum g m"
    unfolding table_sum_def by (rule sum.cong) (use \<open>k \<notin> fset (fmdom m)\<close> in auto)
  finally show ?thesis by (simp add: None)
next
  case (Some u)
  then have k: "k \<in> fset (fmdom m)" by (simp add: fmdomI)
  then have ins: "insert k (fset (fmdom m)) = fset (fmdom m)" by auto
  have "table_sum g (fmupd k v m) = g v + (\<Sum>x\<in>fset (fmdom m) - {k}. g (the (fmlookup (fmupd k v m) x)))"
    unfolding table_sum_def by (simp add: ins sum.remove[OF _ k])
  also have "(\<Sum>x\<in>fset (fmdom m) - {k}. g (the (fmlookup (fmupd k v m) x))) = (\<Sum>x\<in>fset (fmdom m) - {k}. g (the (fmlookup m x)))"
    by (rule sum.cong) auto
  also have "\<dots> = table_sum g m - g u" unfolding table_sum_def by (simp add: sum.remove[OF _ k] Some)
  finally show ?thesis by (simp add: Some)
qed

lemma table_sum_cong:
  assumes "\<And>k. rel_option (\<lambda>u v. g u = h v) (fmlookup m k) (fmlookup m' k)"
  shows "table_sum g m = table_sum h m'"
proof -
  have dom: "fset (fmdom m) = fset (fmdom m')"
  proof (intro set_eqI)
    fix k show "k \<in> fset (fmdom m) \<longleftrightarrow> k \<in> fset (fmdom m')"
      using assms[of k] by (auto simp: fmlookup_dom_iff option_rel_Some1 option_rel_Some2)
  qed
  show ?thesis unfolding table_sum_def dom
  proof (rule sum.cong[OF refl])
    fix k assume "k \<in> fset (fmdom m')"
    then obtain v where "fmlookup m' k = Some v" by (auto simp: fmlookup_dom_iff)
    with assms[of k] show "g (the (fmlookup m k)) = h (the (fmlookup m' k))" by (auto simp: option_rel_Some2)
  qed
qed

text \<open>The books of a state that differs only where nothing is worth anything: rows keep their job, work, price and whether and how
  they are settled; balances stay.\<close>

definition same_worth :: "assignment_row \<Rightarrow> assignment_row \<Rightarrow> bool" where
  "same_worth r r' \<longleftrightarrow> as_job_id r' = as_job_id r \<and> as_work r' = as_work r \<and> as_reward_mcu r' = as_reward_mcu r \<and>
     final_status (as_status r') = final_status (as_status r) \<and> (as_status r' = ''completed'') = (as_status r = ''completed'')"

lemma same_worth_refl [simp]: "same_worth r r"
  by (simp add: same_worth_def)

lemma books_unmoved:
  assumes "books_ok co" "co_balances co' = co_balances co"
    and "\<And>k. rel_option same_worth (fmlookup (co_assignments co) k) (fmlookup (co_assignments co') k)"
    and "\<And>j. map_option jb_system_funded (fmlookup (co_jobs co') j) = map_option jb_system_funded (fmlookup (co_jobs co) j)"
  shows "books_ok co'"
proof -
  have sys: "community_job co' = community_job co"
  proof
    fix j show "community_job co' j = community_job co j"
      using assms(4)[of j] by (auto simp: community_job_def split: option.splits)
  qed
  have jobs: "fmlookup (co_jobs co') j \<noteq> None \<longleftrightarrow> fmlookup (co_jobs co) j \<noteq> None" for j
    using assms(4)[of j] by (metis option.map_disc_iff)
  have e: "escrowed co' = escrowed co" "minted co' = minted co"
    unfolding escrowed_def minted_def sys
    by (rule table_sum_cong[symmetric], rule option.rel_mono_strong[OF assms(3)], simp add: same_worth_def)+
  have rows: "\<exists>r0. fmlookup (co_assignments co) k = Some r0 \<and> same_worth r0 r" if "fmlookup (co_assignments co') k = Some r" for k r
    using assms(3)[of k] that by (auto simp: option_rel_Some2)
  show ?thesis using assms(1,2) e rows jobs unfolding books_ok_def credit_def same_worth_def by metis
qed

lemma books_same:
  assumes "books_ok co" "co_balances co' = co_balances co" "co_assignments co' = co_assignments co" "co_jobs co' = co_jobs co"
  shows "books_ok co'"
  using assms unfolding books_ok_def credit_def escrowed_def minted_def community_job_def by simp

text \<open>Settling one open shard: what leaves escrow or is minted is what an account receives.\<close>

lemma books_settle:
  assumes ok: "books_ok co" and r: "fmlookup (co_assignments co) k = Some r" "\<not> final_status (as_status r)"
    and r': "as_job_id r' = as_job_id r" "as_work r' = as_work r" "as_reward_mcu r' = as_reward_mcu r" "final_status (as_status r')"
    and a: "co_assignments co' = fmupd k r' (co_assignments co)" and j: "co_jobs co' = co_jobs co"
    and d: "d = (if community_job co (as_job_id r) \<and> as_status r' \<noteq> ''completed'' then 0 else as_reward_mcu r)"
    and b: "co_balances co' = (if d = 0 then co_balances co else fmupd n (b + d) (co_balances co))"
    and n: "d \<noteq> 0 \<Longrightarrow> fmlookup (co_balances co) n = Some b"
  shows "books_ok co'"
proof -
  have sys: "community_job co' = community_job co" using j by (simp add: community_job_def fun_eq_iff)
  have cost: "0 \<le> as_reward_mcu r" using ok r(1) work_cost_bounds(1)[of "as_work r"] by (auto simp: books_ok_def)
  have nc: "as_status r \<noteq> ''completed''" using r(2) by (auto simp: final_status_def)
  have "credit co' = credit co + d"
    using b n by (cases "d = 0") (simp_all add: credit_def table_sum_upd)
  moreover have "escrowed co' = escrowed co - (if community_job co (as_job_id r) then 0 else as_reward_mcu r)"
    unfolding escrowed_def sys a table_sum_upd using r r' by simp
  moreover have "minted co' = minted co + (if community_job co (as_job_id r) \<and> as_status r' = ''completed'' then as_reward_mcu r else 0)"
    unfolding minted_def sys a table_sum_upd using r r' nc by simp
  ultimately have "credit co' + escrowed co' = minted co'" using ok d by (auto simp: books_ok_def)
  moreover have "0 \<le> v" if "fmlookup (co_balances co') x = Some v" for x v
    using that b n ok cost d by (auto simp: books_ok_def split: if_splits)
  moreover have "fmlookup (co_jobs co') (as_job_id v) \<noteq> None \<and> as_reward_mcu v = work_cost_mcu (as_work v)"
    if "fmlookup (co_assignments co') x = Some v" for x v
    using that ok r(1) r' unfolding a j books_ok_def by (auto split: if_splits)
  ultimately show ?thesis unfolding books_ok_def by blast
qed

section \<open>The contract of a handler\<close>

locale custodian =
  fixes handle :: "coordinator \<Rightarrow> coordinator \<times> 'r"
  assumes keeps_books: "books_ok co \<Longrightarrow> handle co = (co', r) \<Longrightarrow> books_ok co'"
begin

lemma keeps_fst: "books_ok co \<Longrightarrow> books_ok (fst (handle co))"
  using keeps_books prod.collapse by metis

text \<open>A request that a client repeats, whatever it answers, is as good as one.\<close>

lemma keeps_retries: "books_ok co \<Longrightarrow> books_ok (((\<lambda>s. fst (handle s)) ^^ n) co)"
  by (induction n) (simp_all add: keeps_fst)

end

lemma books_authenticated: "books_ok co \<Longrightarrow> authenticate_known_node c t1 t2 auth action h co = (co', r) \<Longrightarrow> books_ok co'"
  using authenticate_frame books_same by metis

lemma books_report_balance:
  assumes "books_ok co" "report_balance None n co = (co', r)"
  shows "books_ok co'"
proof (cases "fmlookup (co_balances co) n")
  case None
  then show ?thesis using assms by (simp add: report_balance_def authoritative_balance_def)
next
  case (Some b)
  then have "fst (update_where n (\<lambda>_. True) (\<lambda>_. b) (co_balances co)) = co_balances co"
    by (intro fmap_ext) (simp add: update_where_lookup)
  then have "co' = co" using assms(2) Some by (simp add: report_balance_def authoritative_balance_def cache_balance_def)
  then show ?thesis using assms(1) by simp
qed

lemma books_new_account:
  assumes "books_ok co" "co_balances co' = insert_or_ignore n 0 (co_balances co)" "co_assignments co' = co_assignments co"
    "co_jobs co' = co_jobs co"
  shows "books_ok co'"
proof (cases "fmlookup (co_balances co) n")
  case None
  then have b: "co_balances co' = fmupd n 0 (co_balances co)" using assms(2) by (simp add: insert_or_ignore_def)
  have "credit co' = credit co" by (simp add: credit_def b table_sum_upd None)
  then show ?thesis using assms(1,3,4) by (auto simp: books_ok_def escrowed_def minted_def community_job_def b)
next
  case (Some b)
  then show ?thesis using assms by (intro books_same[OF assms(1)]) (simp_all add: insert_or_ignore_keep)
qed

interpretation registering: custodian "register c now None fed auth pk caps" for c now fed auth pk caps
proof
  fix co co' r assume ok: "books_ok co" and run: "register c now None fed auth pk caps co = (co', r)"
  show "books_ok co'"
    using run ok
    by (auto simp: register_def bind_step_def consume_nonce_def Let_def split: if_splits sum.splits option.splits prod.splits
        elim!: books_report_balance[rotated] intro: books_same books_new_account)
qed

interpretation beating: custodian "heartbeat c now fed auth caps" for c now fed auth caps
proof
  fix co co' r assume ok: "books_ok co" and run: "heartbeat c now fed auth caps co = (co', r)"
  obtain co1 x where a: "authenticate_known_node c now now auth ''heartbeat'' (heartbeat_body_hash c caps) co = (co1, x)" by fastforce
  have "books_ok co1" by (rule books_authenticated[OF ok a])
  then show "books_ok co'" using run a by (cases x) (auto simp: heartbeat_def intro: books_same)
qed


text \<open>A change of one row that keeps its worth.\<close>

lemma books_set_assignment:
  assumes "books_ok co" "\<And>r. fmlookup (co_assignments co) aid = Some r \<Longrightarrow> g r \<Longrightarrow> same_worth r (f r)"
  shows "books_ok (set_assignment aid g f co)"
proof (rule books_unmoved[OF assms(1)])
  fix k show "rel_option same_worth (fmlookup (co_assignments co) k) (fmlookup (co_assignments (set_assignment aid g f co)) k)"
    using assms(2) by (cases "fmlookup (co_assignments co) k") auto
qed simp_all

lemma books_released: "books_ok co \<Longrightarrow> books_ok (release_expired now co)"
proof (rule books_unmoved)
  fix k show "rel_option same_worth (fmlookup (co_assignments co) k) (fmlookup (co_assignments (release_expired now co)) k)"
    by (cases "fmlookup (co_assignments co) k") (auto simp: release_expired_def same_worth_def final_status_def)
qed (simp_all add: release_expired_def)

lemma books_closed:
  assumes "books_ok co"
  shows "books_ok (close_settled_job now j co)"
proof (rule books_unmoved[OF assms])
  fix i show "map_option jb_system_funded (fmlookup (co_jobs (close_settled_job now j co)) i) = map_option jb_system_funded (fmlookup (co_jobs co) i)"
    by (cases "fmlookup (co_jobs co) i") (auto simp: close_settled_job_def update_where_lookup)
  fix k show "rel_option same_worth (fmlookup (co_assignments co) k) (fmlookup (co_assignments (close_settled_job now j co)) k)"
    by (cases "fmlookup (co_assignments co) k") simp_all
qed simp

interpretation polling: custodian "poll_work c powf now fed auth" for c powf now fed auth
proof
  fix co co' r assume ok: "books_ok co" and run: "poll_work c powf now fed auth co = (co', r)"
  obtain co1 x where a: "authenticate_known_node c now now auth ''poll'' (empty_body_hash c) co = (co1, x)" by fastforce
  have ok1: "books_ok co1" by (rule books_authenticated[OF ok a])
  obtain co2 offer where p: "poll_offer c powf now fed auth co = (co2, offer)" by fastforce
  have seen: "books_ok ((release_expired now co1)\<lparr> co_nodes := m \<rparr>)" for m
    by (rule books_same[OF books_released[OF ok1]]) simp_all
  have ok2: "books_ok co2" using p a ok1 seen by (cases x) (auto simp: poll_offer_def Let_def)
  have leased: "books_ok (fst (poll_lease fed n o' co2))" for n o'
    by (cases o') (auto simp: poll_lease_def Let_def same_worth_def final_status_def intro!: ok2 books_set_assignment)
  show "books_ok co'"
    using run p ok2 leased[of "ap_node_id auth"]
    by (auto simp: poll_work_def bind_step_def split: sum.splits option.splits) (metis fst_conv)
qed

text \<open>A result: the check leaves the books alone and knows the row, the judgement keeps its worth, the settlement pays its price.\<close>

lemma result_check_ok:
  assumes "result_check c now req co = (co', Inr pk)"
  shows "\<exists>a. fmlookup (co_assignments co') (rr_assignment_id req) = Some a \<and> as_status a = ''leased'' \<and>
           rr_job_id req = as_job_id a \<and> rr_reward_mcu req = as_reward_mcu a"
  using assms by (auto simp: result_check_def bind_step_Inr split: option.splits if_splits)

lemma books_checked: "books_ok co \<Longrightarrow> result_check c now req co = (co', r) \<Longrightarrow> books_ok co'"
  unfolding result_check_def bind_step_def by (auto split: prod.splits sum.splits dest: books_authenticated)

lemma books_judged:
  assumes "books_ok co" "fmlookup (co_assignments co) (rr_assignment_id req) = Some a" "as_status a = ''leased''"
    and "result_judge powf nonce req co = (co', r)"
  shows "books_ok co' \<and> (is_ok r \<longrightarrow> co_assignments co' = co_assignments co)"
proof -
  have "books_ok (record_reputation n b co)" for n b by (rule books_same[OF assms(1)]) simp_all
  then show ?thesis using assms(2-4)
    by (auto simp: result_judge_def Let_def is_ok_def same_worth_def final_status_def split: if_splits intro!: books_set_assignment)
qed

lemma books_result_local:
  assumes ok: "books_ok co" and a: "fmlookup (co_assignments co) (rr_assignment_id req) = Some a" "as_status a = ''leased''"
    "rr_reward_mcu req = as_reward_mcu a" and run: "result_local now req co = (co', r)"
  shows "books_ok co'"
proof (cases r)
  case (Inl e)
  then show ?thesis using run ok by (simp add: result_local_def transaction_Inl)
next
  case (Inr u)
  let ?done = "a\<lparr> as_status := ''completed'', as_result := Some (rr_result req), as_completed_at := Some now, as_lease_until := None \<rparr>"
  have lease: "held_lease req a"
    using run a unfolding Inr by (auto simp: result_local_def transaction_Inr touches_iff split: if_splits)
  obtain b where b: "fmlookup (co_balances co) (ap_node_id (rr_auth req)) = Some b"
    using run unfolding Inr by (auto simp: result_local_def transaction_Inr apply_ledger_delta_def split: if_splits option.splits)
  define co1 where "co1 = (set_assignment (rr_assignment_id req) (held_lease req)
      (\<lambda>r. r\<lparr> as_status := ''completed'', as_result := Some (rr_result req), as_completed_at := Some now, as_lease_until := None \<rparr>) co)
      \<lparr> co_balances := fmupd (ap_node_id (rr_auth req)) (b + rr_reward_mcu req) (co_balances co),
         co_ledger := co_ledger co @ [\<lparr> le_node_id = ap_node_id (rr_auth req), le_delta_mcu = rr_reward_mcu req,
           le_category = ''contribution'', le_job_id = Some (rr_job_id req), le_assignment_id = Some (rr_assignment_id req),
           le_created_at = now \<rparr>] \<rparr>"
  have co': "co' = close_settled_job now (rr_job_id req) co1"
    using run b unfolding Inr co1_def by (auto simp: result_local_def transaction_Inr apply_ledger_delta_def split: if_splits)
  have c1: "co_balances co1 = fmupd (ap_node_id (rr_auth req)) (b + as_reward_mcu a) (co_balances co)" "co_jobs co1 = co_jobs co"
    "co_assignments co1 = fmupd (rr_assignment_id req) ?done (co_assignments co)"
    using a lease by (simp_all add: co1_def set_assignment_def update_where_def)
  have "books_ok co1"
  proof (rule books_settle[OF ok a(1), where r' = ?done and d = "as_reward_mcu a" and n = "ap_node_id (rr_auth req)" and b = b])
    have "0 < as_reward_mcu a" using ok a(1) work_cost_bounds(1)[of "as_work a"] by (auto simp: books_ok_def)
    then show "co_balances co1 = (if as_reward_mcu a = 0 then co_balances co
        else fmupd (ap_node_id (rr_auth req)) (b + as_reward_mcu a) (co_balances co))" using c1(1) by simp
  qed (use a c1 b in \<open>simp_all add: final_status_def\<close>)
  then show ?thesis unfolding co' by (rule books_closed)
qed

interpretation reporting: custodian "report_result c now powf nonce None None req" for c now powf nonce req
proof
  fix co co' r assume ok: "books_ok co" and run: "report_result c now powf nonce None None req co = (co', r)"
  obtain co1 x where c1: "result_check c now req co = (co1, x)" by fastforce
  have ok1: "books_ok co1" by (rule books_checked[OF ok c1])
  show "books_ok co'"
  proof (cases x)
    case (Inl e)
    then show ?thesis using run c1 ok1 by (simp add: report_result_def)
  next
    case (Inr pk)
    obtain a where a: "fmlookup (co_assignments co1) (rr_assignment_id req) = Some a" "as_status a = ''leased''"
      "rr_job_id req = as_job_id a" "rr_reward_mcu req = as_reward_mcu a" using result_check_ok[OF c1[unfolded Inr]] by blast
    obtain co2 y where c2: "result_judge powf nonce req co1 = (co2, y)" by fastforce
    note ok2 = books_judged[OF ok1 a(1,2) c2]
    show ?thesis
    proof (cases y)
      case (Inl e)
      then show ?thesis using run c1 c2 Inr ok2 by (simp add: report_result_def)
    next
      case R: (Inr u)
      obtain co3 z where c3: "result_local now req co2 = (co3, z)" by fastforce
      have ok3: "books_ok co3"
        by (rule books_result_local[OF _ _ a(2,4) c3]) (use ok2 R a(1) in \<open>auto simp: is_ok_def\<close>)
      have "report_result c now powf nonce None None req co = bind_step (co3, z) (\<lambda>_. result_answer None req)"
        using c1 c2 c3 Inr R by (simp add: report_result_def)
      then show ?thesis using run ok3 books_report_balance[OF ok3]
        by (cases z) (auto simp: result_answer_def bind_step_def split: option.splits prod.splits sum.splits)
    qed
  qed
qed


text \<open>A refund: the check knows an open row, the authorisation leaves the tables alone.\<close>

lemma books_authorized: "books_ok co \<Longrightarrow> refund_authorize c now aid auth cl co = (co', r) \<Longrightarrow> books_ok co' \<and> co_assignments co' = co_assignments co \<and> co_jobs co' = co_jobs co"
  by (cases auth; cases "fc_system_funded cl")
     (auto simp: refund_authorize_def bind_step_def split: option.splits if_splits prod.splits sum.splits
       dest: books_authenticated authenticate_frame)

lemma books_refund_local:
  assumes ok: "books_ok co" and a: "fmlookup (co_assignments co) aid = Some a" "\<not> final_status (as_status a)"
    "fc_work cl = as_work a" "fc_system_funded cl = community_job co (as_job_id a)" and run: "refund_local now aid cl who co = (co', r)"
  shows "books_ok co'"
proof (cases r)
  case (Inl e)
  then show ?thesis using run ok by (simp add: refund_local_def transaction_Inl)
next
  case (Inr u)
  let ?done = "a\<lparr> as_status := ''refunded'', as_completed_at := Some now, as_lease_until := None \<rparr>"
  let ?d = "if community_job co (as_job_id a) then 0 else as_reward_mcu a"
  have pay: "as_reward_mcu a = work_cost_mcu (fc_work cl)" "0 < as_reward_mcu a"
    using ok a work_cost_bounds(1)[of "as_work a"] by (auto simp: books_ok_def)
  obtain b co1 where paid: "co_balances co1 = (if ?d = 0 then co_balances co else fmupd who (b + ?d) (co_balances co))"
    "?d \<noteq> 0 \<Longrightarrow> fmlookup (co_balances co) who = Some b" "co_assignments co1 = co_assignments co" "co_jobs co1 = co_jobs co"
    and co': "co' = settle_refunded_shard now aid (fc_job_id cl) co1"
  proof (cases "community_job co (as_job_id a)")
    case True
    then have "co' = settle_refunded_shard now aid (fc_job_id cl) co" using run a(4) unfolding Inr by (simp add: refund_local_def transaction_Inr)
    then show thesis using that[of co] True by simp
  next
    case False
    then obtain b where b: "fmlookup (co_balances co) who = Some b"
      using run a(4) unfolding Inr by (auto simp: refund_local_def transaction_Inr apply_ledger_delta_def split: option.splits)
    then show thesis using that[of "co\<lparr> co_balances := fmupd who (b + ?d) (co_balances co), co_ledger := co_ledger co @ [\<lparr> le_node_id = who,
         le_delta_mcu = work_cost_mcu (fc_work cl), le_category = ''refund'', le_job_id = Some (fc_job_id cl), le_assignment_id = Some aid,
         le_created_at = now \<rparr>] \<rparr>" b] run False a(4) pay
      unfolding Inr by (auto simp: refund_local_def transaction_Inr apply_ledger_delta_def)
  qed
  have rows: "co_assignments (set_assignment aid (\<lambda>_. True) (\<lambda>r. r\<lparr> as_status := ''refunded'', as_completed_at := Some now, as_lease_until := None \<rparr>) co1)
      = fmupd aid ?done (co_assignments co)"
    using a(1) paid(3) by (simp add: set_assignment_def update_where_def)
  have "books_ok (set_assignment aid (\<lambda>_. True) (\<lambda>r. r\<lparr> as_status := ''refunded'', as_completed_at := Some now, as_lease_until := None \<rparr>) co1)"
    by (rule books_settle[OF ok a(1,2), where r' = ?done and d = ?d and n = who and b = b])
       (use paid rows in \<open>simp_all add: final_status_def\<close>)
  then show ?thesis unfolding co' settle_refunded_shard_def by (rule books_closed)
qed

interpretation refunding: custodian "refund_shard c now None aid auth" for c now aid auth
proof
  fix co co' r assume ok: "books_ok co" and run: "refund_shard c now None aid auth co = (co', r)"
  show "books_ok co'"
  proof (cases "refund_check now aid co")
    case (Inl e)
    then show ?thesis using run ok by (simp add: refund_shard_def)
  next
    case (Inr cl)
    then obtain a where a: "fmlookup (co_assignments co) aid = Some a" "\<not> final_status (as_status a)" "fc_work cl = as_work a"
      "fc_system_funded cl = community_job co (as_job_id a)"
      by (auto simp: refund_check_def community_job_def final_status_def Let_def split: option.splits if_splits)
    obtain co1 x where c1: "refund_authorize c now aid auth cl co = (co1, x)" by fastforce
    note ok1 = books_authorized[OF ok c1]
    have sys: "community_job co1 = community_job co" using ok1 by (simp add: community_job_def fun_eq_iff)
    show ?thesis
    proof (cases x)
      case (Inl e)
      then show ?thesis using run Inr c1 ok1 by (simp add: refund_shard_def)
    next
      case R: (Inr who)
      obtain co2 y where c2: "refund_local now aid cl (fst who) co1 = (co2, y)" by fastforce
      have "books_ok co2" by (rule books_refund_local[OF _ _ a(2,3) _ c2]) (use ok1 a sys in simp_all)
      then show ?thesis using run Inr c1 R c2 by (cases y) (simp_all add: refund_shard_def)
    qed
  qed
qed


text \<open>A new job: its shards enter the table together, at the price of their work.\<close>

lemma insert_shards_ok:
  assumes "fold_result (insert_shard err c status j) (List.enumerate k parts) m = Inr m'"
  shows "\<And>g w. (\<And>n i p. g (shard_as status n j i p) = w p) \<Longrightarrow> table_sum g m' = table_sum g m + sum_list (map w parts)"
    and "\<And>x r. fmlookup m' x = Some r \<Longrightarrow> fmlookup m x = Some r \<or> as_job_id r = j \<and> as_reward_mcu r = work_cost_mcu (as_work r)"
proof -
  have "(\<forall>g w. (\<forall>n i p. g (shard_as status n j i p) = w p) \<longrightarrow> table_sum g m' = table_sum g m + sum_list (map w parts)) \<and>
     (\<forall>x r. fmlookup m' x = Some r \<longrightarrow> fmlookup m x = Some r \<or> as_job_id r = j \<and> as_reward_mcu r = work_cost_mcu (as_work r))"
    using assms
  proof (induction parts arbitrary: k m)
    case (Cons p ps)
    let ?row = "shard_as status (next_rowid m) j k p" and ?key = "assignment_id c j k"
    from Cons.prems have new: "fmlookup m ?key = None"
      and rest: "fold_result (insert_shard err c status j) (List.enumerate (Suc k) ps) (fmupd ?key ?row m) = Inr m'"
      by (auto simp: insert_shard_def[of _ _ _ _ "(k, p)"] split: if_splits)
    note ih = Cons.IH[OF rest]
    show ?case
    proof (intro conjI allI impI)
      fix g :: "assignment_row \<Rightarrow> int" and w assume g: "\<forall>n i p. g (shard_as status n j i p) = w p"
      then have "table_sum g m' = table_sum g (fmupd ?key ?row m) + sum_list (map w ps)" using ih by blast
      then show "table_sum g m' = table_sum g m + sum_list (map w (p # ps))" using g new by (simp add: table_sum_upd)
    next
      fix x r assume "fmlookup m' x = Some r"
      with ih have "fmlookup (fmupd ?key ?row m) x = Some r \<or> as_job_id r = j \<and> as_reward_mcu r = work_cost_mcu (as_work r)" by blast
      then show "fmlookup m x = Some r \<or> as_job_id r = j \<and> as_reward_mcu r = work_cost_mcu (as_work r)"
        by (auto split: if_splits)
    qed
  qed simp
  then show "\<And>g w. (\<And>n i p. g (shard_as status n j i p) = w p) \<Longrightarrow> table_sum g m' = table_sum g m + sum_list (map w parts)"
    "\<And>x r. fmlookup m' x = Some r \<Longrightarrow> fmlookup m x = Some r \<or> as_job_id r = j \<and> as_reward_mcu r = work_cost_mcu (as_work r)" by blast+
qed

lemma books_new_job:
  assumes ok: "books_ok co" and new: "fmlookup (co_jobs co) j = None" and st: "\<not> final_status status"
    and ins: "fold_result (insert_shard err c status j) (List.enumerate 0 parts) (co_assignments co) = Inr (co_assignments co')"
    and jobs: "co_jobs co' = fmupd j jrow (co_jobs co)"
    and d: "d = (if jb_system_funded jrow then 0 else sum_list (map work_cost_mcu parts))" "d \<noteq> 0 \<Longrightarrow> d \<le> b"
    and b: "co_balances co' = (if d = 0 then co_balances co else fmupd n (b - d) (co_balances co))"
      "d \<noteq> 0 \<Longrightarrow> fmlookup (co_balances co) n = Some b"
  shows "books_ok co'"
proof -
  have old: "as_job_id r \<noteq> j" if "fmlookup (co_assignments co) k = Some r" for k r
    using ok that new unfolding books_ok_def by metis
  have sys: "community_job co' i = (if i = j then jb_system_funded jrow else community_job co i)" for i
    by (simp add: community_job_def jobs)
  have nc: "status \<noteq> ''completed''" using st by (auto simp: final_status_def)
  have keep: "table_sum (\<lambda>r. f (community_job co' (as_job_id r)) r) (co_assignments co) = table_sum (\<lambda>r. f (community_job co (as_job_id r)) r) (co_assignments co)" for f
  proof (rule table_sum_cong)
    fix k show "rel_option (\<lambda>u v. f (community_job co' (as_job_id u)) u = f (community_job co (as_job_id v)) v)
        (fmlookup (co_assignments co) k) (fmlookup (co_assignments co) k)"
      using old[of k] by (cases "fmlookup (co_assignments co) k") (simp_all add: sys)
  qed
  note shards = insert_shards_ok[OF ins]
  have e: "escrowed co' = escrowed co + d"
    unfolding escrowed_def
    by (subst shards(1)[where w = "\<lambda>p. if jb_system_funded jrow then 0 else work_cost_mcu p"])
       (use st keep[of "\<lambda>s r. if \<not> s \<and> \<not> final_status (as_status r) then as_reward_mcu r else 0"] d(1) in \<open>simp_all add: sys\<close>)
  have m: "minted co' = minted co"
    unfolding minted_def
    by (subst shards(1)[where w = "\<lambda>_. 0"])
       (use nc keep[of "\<lambda>s r. if s \<and> as_status r = ''completed'' then as_reward_mcu r else 0"] in \<open>simp_all add: sum_list_0\<close>)
  have "credit co' = credit co - d" using b by (cases "d = 0") (simp_all add: credit_def table_sum_upd)
  then have "credit co' + escrowed co' = minted co'" using e m ok by (simp add: books_ok_def)
  moreover have "0 \<le> v" if "fmlookup (co_balances co') x = Some v" for x v
    using that b d(2) ok by (auto simp: books_ok_def split: if_splits)
  moreover have "fmlookup (co_jobs co') (as_job_id r) \<noteq> None \<and> as_reward_mcu r = work_cost_mcu (as_work r)"
    if "fmlookup (co_assignments co') x = Some r" for x r
    using shards(2)[OF that] ok by (auto simp: jobs books_ok_def)
  ultimately show ?thesis unfolding books_ok_def by blast
qed


lemma books_submitted:
  assumes ok: "books_ok co" and "shards \<le> 256" "fmlookup (co_balances co) (ap_node_id auth) = Some b" "job_cost work shards \<le> b"
    and run: "submit_record c now auth work shards None co = (co', r)"
  shows "books_ok co'"
proof (cases r)
  case (Inl e)
  then show ?thesis using run ok by (simp add: submit_record_def transaction_Inl)
next
  case (Inr u)
  let ?j = "job_id_from_auth c auth" and ?cost = "job_cost work shards"
  note cost = job_cost_eq[OF assms(2), of work]
  show ?thesis
  proof (rule books_new_job[OF ok, where d = ?cost and b = b and n = "ap_node_id auth" and j = ?j and status = "''pending''"])
    show "fmlookup (co_jobs co) ?j = None" "fold_result (insert_shard InternalError c ''pending'' ?j)
        (List.enumerate 0 (split_work work shards)) (co_assignments co) = Inr (co_assignments co')"
      "co_balances co' = (if ?cost = 0 then co_balances co else fmupd (ap_node_id auth) (b - ?cost) (co_balances co))"
      "co_jobs co' = fmupd ?j \<lparr> jb_requester_node_id = Some (ap_node_id auth), jb_system_funded = False, jb_work = work,
         jb_status = ''pending'', jb_reserved_mcu = ?cost, jb_created_at = now, jb_completed_at = None \<rparr> (co_jobs co)"
      using run assms(3) cost(2) unfolding Inr
      by (auto simp: submit_record_def transaction_Inr apply_ledger_delta_def Let_def qbind_def split: if_splits sum.splits)
  qed (use assms cost in \<open>simp_all add: final_status_def\<close>)
qed

interpretation submitting: custodian "submit_job c now None None None auth work shards" for c now auth work shards
proof
  fix co co' r assume ok: "books_ok co" and run: "submit_job c now None None None auth work shards co = (co', r)"
  obtain co1 x where c1: "submit_check c now auth work shards co = (co1, x)" by fastforce
  have ok1: "books_ok co1" using ok c1
    by (auto simp: submit_check_def bind_step_def split: sum.splits if_splits prod.splits option.splits dest: books_authenticated)
  show "books_ok co'"
  proof (cases x)
    case (Inl e)
    then show ?thesis using run c1 ok1 by (simp add: submit_job_def)
  next
    case (Inr pk)
    have n: "shards \<le> 256" using c1 Inr by (auto simp: submit_check_def split: sum.splits if_splits)
    show ?thesis
    proof (cases "fmlookup (co_balances co1) (ap_node_id auth)")
      case None
      then show ?thesis using run c1 Inr ok1 by (simp add: submit_job_def authoritative_balance_def)
    next
      case (Some b)
      show ?thesis
      proof (cases "b < job_cost work shards")
        case True
        then show ?thesis using run c1 Inr ok1 Some by (simp add: submit_job_def authoritative_balance_def)
      next
        case False
        obtain co2 y where c2: "submit_record c now auth work shards None co1 = (co2, y)" by fastforce
        have ok2: "books_ok co2" by (rule books_submitted[OF ok1 n Some _ c2]) (use False in simp)
        have "submit_job c now None None None auth work shards co =
            bind_step (co2, y) (\<lambda>_ co3. bind_step (report_balance None (ap_node_id auth) co3) (\<lambda>b' co4. (co4, Inr (job_id_from_auth c auth, b'))))"
          using c1 c2 Inr Some False by (simp add: submit_job_def authoritative_balance_def)
        then show ?thesis using run ok2 books_report_balance[OF ok2]
          by (cases y) (auto simp: bind_step_def split: prod.splits sum.splits)
      qed
    qed
  qed
qed

lemma books_seeded:
  assumes "books_ok co" "seed_system_job_with_id c now j work shards None co = Inr co'"
  shows "books_ok co'"
proof (rule books_new_job[OF assms(1), where d = 0 and j = j and status = "''pending''"])
  show "fmlookup (co_jobs co) j = None" "fold_result (insert_shard SeedShardTaken c ''pending'' j)
      (List.enumerate 0 (split_work work (clamp_shards shards))) (co_assignments co) = Inr (co_assignments co')"
    "co_balances co' = (if (0 :: int) = 0 then co_balances co else fmupd n (b - 0) (co_balances co))"
    "co_jobs co' = fmupd j \<lparr> jb_requester_node_id = None, jb_system_funded = True, jb_work = work, jb_status = ''pending'',
       jb_reserved_mcu = wrap_i64 (sum_list (map work_cost_mcu (split_work work (clamp_shards shards)))), jb_created_at = now,
       jb_completed_at = None \<rparr> (co_jobs co)"
    for n b
    using assms(2) by (auto simp: seed_system_job_with_id_def Let_def qbind_def split: sum.splits if_splits)
qed (simp_all add: final_status_def)

section \<open>Requests in sequence\<close>

text \<open>A coordinator without validators, from an empty database on: community jobs are seeded, requests of any kind are
  answered one after the other, at any time, with any answer.\<close>

inductive local_run :: "crypto \<Rightarrow> coordinator \<Rightarrow> bool" for c where
  fresh: "local_run c empty_coordinator"
| seeding: "local_run c co \<Longrightarrow> seed_system_job_with_id c now j work shards None co = Inr co' \<Longrightarrow> local_run c co'"
| registering: "local_run c co \<Longrightarrow> register c now None fed auth pk caps co = (co', r) \<Longrightarrow> local_run c co'"
| beating: "local_run c co \<Longrightarrow> heartbeat c now fed auth caps co = (co', u) \<Longrightarrow> local_run c co'"
| polling: "local_run c co \<Longrightarrow> poll_work c powf now fed auth co = (co', p) \<Longrightarrow> local_run c co'"
| reporting: "local_run c co \<Longrightarrow> report_result c now powf nonce None None req co = (co', a) \<Longrightarrow> local_run c co'"
| refunding: "local_run c co \<Longrightarrow> refund_shard c now None aid proof' co = (co', f) \<Longrightarrow> local_run c co'"
| submitting: "local_run c co \<Longrightarrow> submit_job c now None None None auth work shards co = (co', s) \<Longrightarrow> local_run c co'"

lemma local_run_books: "local_run c co \<Longrightarrow> books_ok co"
proof (induction rule: local_run.induct)
  case fresh
  show ?case by (simp add: books_ok_def credit_def escrowed_def minted_def table_sum_def empty_coordinator_def)
qed (blast intro: books_seeded registering.keeps_books beating.keeps_books polling.keeps_books reporting.keeps_books
    refunding.keeps_books submitting.keeps_books)+




end
