(* ===== verification/Proximity.thy ===== *)
theory Proximity
  imports Reputation
begin

text \<open>
  Where machines are (\<open>hocmesh-core/src/proximity.rs\<close>), what they may be asked to do (\<open>roles.rs\<close>), how fast their
  uplink has been seen to be (\<open>bandwidth.rs\<close>), and the graph of machines a coordinator chooses tight clusters from
  (the second half of \<open>hocmesh-coordinator/src/schedule.rs\<close>).  Positions are \<open>f64\<close> numbers in the order of evaluation
  of the source.  The file a position is kept in is the state it decodes to, or nothing.
\<close>

section \<open>Definitions\<close>

subsection \<open>Coordinates\<close>

definition ERROR_SENSITIVITY :: real where "ERROR_SENSITIVITY = 1 / 4"
definition POSITION_SENSITIVITY :: real where "POSITION_SENSITIVITY = 1 / 4"
definition INITIAL_ERROR :: real where "INITIAL_ERROR = 1"
definition MIN_ERROR :: real where "MIN_ERROR = f_round (5 / 100)"
definition MAX_COORDINATE_MICROS :: int where "MAX_COORDINATE_MICROS = 60000000"
definition MAX_STEP_MICROS :: real where "MAX_STEP_MICROS = 5000000"
definition ZERO_THRESHOLD :: real where "ZERO_THRESHOLD = f_round (1 / 1000000)"
definition SEED_JITTER_MICROS :: nat where "SEED_JITTER_MICROS = 1000"
definition FNV_OFFSET :: "64 word" where "FNV_OFFSET = 0xcbf29ce484222325"
definition FNV_PRIME :: "64 word" where "FNV_PRIME = 0x00000100000001b3"
definition UNKNOWN_EDGE_MICROS :: nat where "UNKNOWN_EDGE_MICROS = 400000"

text \<open>\<open>sqrt\<close> is correctly rounded.\<close>

definition f_sqrt :: "real \<Rightarrow> real" where "f_sqrt x = f_round (sqrt x)"

definition sum_squares :: "real list \<Rightarrow> real" where
  "sum_squares ds = foldl f_add 0 (map (\<lambda>d. f_mul d d) ds)"

definition predicted_rtt_micros :: "network_coordinate \<Rightarrow> network_coordinate \<Rightarrow> nat" where
  "predicted_rtt_micros a b =
     (let deltas = map2 (\<lambda>x y. f_of_int (wrap_i64 (x - y))) (nc_vector_micros a) (nc_vector_micros b);
          distance = f_add (f_add (f_sqrt (sum_squares deltas)) (f_of_int (max (nc_height_micros a) 0)))
                       (f_of_int (max (nc_height_micros b) 0))
      in as_u64 (max distance 0))"

text \<open>\<open>abs\<close> of the least \<open>i64\<close> wraps.\<close>

definition is_plausible :: "network_coordinate \<Rightarrow> bool" where
  "is_plausible n \<longleftrightarrow> nc_error_permille n \<le> 1000 \<and> 0 \<le> nc_height_micros n \<and>
     nc_height_micros n \<le> MAX_COORDINATE_MICROS \<and> list_all (\<lambda>x. wrap_i64 \<bar>x\<bar> \<le> MAX_COORDINATE_MICROS) (nc_vector_micros n)"

subsection \<open>A fitted position\<close>

record vivaldi =
  vv_vector :: "real list"
  vv_height :: real
  vv_error :: real
  vv_observations :: nat

definition vivaldi_default :: vivaldi where
  "vivaldi_default = \<lparr> vv_vector = replicate COORDINATE_DIMENSIONS 0, vv_height = 0, vv_error = INITIAL_ERROR, vv_observations = 0 \<rparr>"

text \<open>The hash runs on from one axis to the next.\<close>

definition fnv :: "64 word \<Rightarrow> 8 word list \<Rightarrow> 64 word" where
  "fnv h bytes = foldl (\<lambda>h b. (h XOR ucast b) * FNV_PRIME) h bytes"

definition jitter :: "64 word \<Rightarrow> real" where
  "jitter h = f_sub (f_of_nat (unat h mod (2 * SEED_JITTER_MICROS + 1))) (f_of_nat SEED_JITTER_MICROS)"

fun seeded_axes :: "8 word list \<Rightarrow> nat list \<Rightarrow> 64 word \<Rightarrow> real list" where
  "seeded_axes seed [] h = []"
| "seeded_axes seed (axis # axes) h =
     (let h' = fnv h (seed @ [of_nat axis]) in jitter h' # seeded_axes seed axes h')"

definition seeded :: "8 word list \<Rightarrow> vivaldi" where
  "seeded seed = vivaldi_default\<lparr> vv_vector := seeded_axes seed [0..<COORDINATE_DIMENSIONS] FNV_OFFSET \<rparr>"

definition clamp_axis :: "real \<Rightarrow> int" where
  "clamp_axis x = as_i64 (f_clamp (- of_int MAX_COORDINATE_MICROS) (of_int MAX_COORDINATE_MICROS) (of_int (f_round_away x)))"

definition provisional_coordinate :: "vivaldi \<Rightarrow> network_coordinate" where
  "provisional_coordinate v =
     \<lparr> nc_vector_micros = map clamp_axis (vv_vector v), nc_height_micros = clamp_axis (max (vv_height v) 0),
       nc_error_permille = min (nat (f_round_away (f_mul (f_clamp 0 1 (vv_error v)) 1000))) (2 ^ 16 - 1) \<rparr>"

definition coordinate :: "vivaldi \<Rightarrow> network_coordinate option" where
  "coordinate v = (if vv_observations v = 0 then None else Some (provisional_coordinate v))"

definition offsets :: "vivaldi \<Rightarrow> network_coordinate \<Rightarrow> real list" where
  "offsets v remote = map2 (\<lambda>x y. f_sub x (f_of_int y)) (vv_vector v) (nc_vector_micros remote)"

definition predicted_to :: "vivaldi \<Rightarrow> network_coordinate \<Rightarrow> real" where
  "predicted_to v remote =
     f_add (f_add (f_sqrt (sum_squares (offsets v remote))) (max (vv_height v) 0)) (f_of_int (max (nc_height_micros remote) 0))"

definition direction :: "vivaldi \<Rightarrow> network_coordinate \<Rightarrow> real list" where
  "direction v remote =
     (let unit = offsets v remote; magnitude = f_sqrt (sum_squares unit)
      in if magnitude > ZERO_THRESHOLD then map (\<lambda>s. f_div s magnitude) unit
         else unit[vv_observations v mod COORDINATE_DIMENSIONS := 1])"

definition apply_force :: "network_coordinate \<Rightarrow> real \<Rightarrow> vivaldi \<Rightarrow> vivaldi" where
  "apply_force remote force v =
     (let magnitude = f_sqrt (sum_squares (offsets v remote)); limit = of_int MAX_COORDINATE_MICROS;
          height = f_add (f_div (f_mul (f_add (vv_height v) (f_of_int (max (nc_height_micros remote) 0))) force) magnitude) (vv_height v)
      in v\<lparr> vv_vector := map2 (\<lambda>x step. f_clamp (- limit) limit (f_add x (f_mul step force))) (vv_vector v) (direction v remote),
            vv_height := (if magnitude > ZERO_THRESHOLD then f_clamp 0 limit height else vv_height v) \<rparr>)"

definition remote_error :: "network_coordinate \<Rightarrow> real" where
  "remote_error remote = f_clamp MIN_ERROR 1 (f_div (f_of_nat (nc_error_permille remote)) 1000)"

definition observe :: "network_coordinate \<Rightarrow> nat \<Rightarrow> vivaldi \<Rightarrow> vivaldi \<times> bool" where
  "observe remote rtt_micros v =
     (if rtt_micros = 0 \<or> \<not> is_plausible remote then (v, False)
      else let measured = f_of_nat rtt_micros;
               weight = f_div (vv_error v) (f_add (vv_error v) (remote_error remote));
               predicted = predicted_to v remote;
               relative_error = f_div \<bar>f_sub predicted measured\<bar> measured;
               alpha = f_mul ERROR_SENSITIVITY weight;
               error' = f_clamp MIN_ERROR INITIAL_ERROR (f_add (f_mul relative_error alpha) (f_mul (vv_error v) (f_sub 1 alpha)));
               force = f_clamp (- MAX_STEP_MICROS) MAX_STEP_MICROS
                         (f_mul (f_mul POSITION_SENSITIVITY weight) (f_sub measured predicted));
               moved = apply_force remote force (v\<lparr> vv_error := error' \<rparr>)
           in (moved\<lparr> vv_observations := sat_add64 (vv_observations moved) 1 \<rparr>, True))"

record proximity_state =
  ps_vector_micros :: "real list"
  ps_height_micros :: real
  ps_error :: real
  ps_observations :: nat

definition from_state :: "proximity_state \<Rightarrow> vivaldi option" where
  "from_state s =
     (let limit = of_int MAX_COORDINATE_MICROS in
      if list_all (\<lambda>x. \<bar>x\<bar> \<le> limit) (ps_vector_micros s) \<and> 0 \<le> ps_height_micros s \<and> ps_height_micros s \<le> limit \<and>
         MIN_ERROR \<le> ps_error s \<and> ps_error s \<le> INITIAL_ERROR
      then Some \<lparr> vv_vector = ps_vector_micros s, vv_height = ps_height_micros s, vv_error = ps_error s,
                  vv_observations = ps_observations s \<rparr>
      else None)"

definition to_state :: "vivaldi \<Rightarrow> proximity_state" where
  "to_state v = \<lparr> ps_vector_micros = vv_vector v, ps_height_micros = vv_height v, ps_error = vv_error v,
     ps_observations = vv_observations v \<rparr>"

text \<open>\<open>stored\<close> is what the file decodes to, \<open>None\<close> when it is missing or unreadable.\<close>

definition load_or_seeded :: "proximity_state option \<Rightarrow> 8 word list \<Rightarrow> vivaldi" where
  "load_or_seeded stored seed = (case Option.bind stored from_state of None \<Rightarrow> seeded seed | Some v \<Rightarrow> v)"

section \<open>Lemmas\<close>

lemma f_round_rel: "\<bar>f_round x - x\<bar> \<le> 2 powi (- 53) * \<bar>x\<bar>"
proof (cases "x = 0")
  case False
  let ?q = "2 powi (exponent x - 52) :: real"
  have "f_round x - x = (of_int (round_even (x / ?q)) - x / ?q) * ?q"
    using False by (simp add: f_round_def Let_def left_diff_distrib)
  then have "\<bar>f_round x - x\<bar> = \<bar>of_int (round_even (x / ?q)) - x / ?q\<bar> * ?q" by (simp add: abs_mult)
  also have "\<dots> \<le> 1 / 2 * ?q" by (intro mult_right_mono round_even_error) simp
  also have "\<dots> = 2 powi (- 53) * 2 powi exponent x" by (simp add: power_int_diff power_int_minus)
  also have "\<dots> \<le> 2 powi (- 53) * \<bar>x\<bar>" using exponent_bounds(1)[OF False] by (intro mult_left_mono) simp_all
  finally show ?thesis .
qed simp

lemma f_round_coarse: "\<bar>f_round x - x\<bar> \<le> \<bar>x\<bar> / 1000000000"
  using f_round_rel[of x] mult_right_mono[of "2 powi (- 53) :: real" "1 / 1000000000" "\<bar>x\<bar>"]
  by (simp add: power_int_minus)

lemma abs_f_round_le: "\<bar>f_round x\<bar> \<le> \<bar>x\<bar> * (1 + 1 / 1000000000)"
proof -
  have "\<bar>f_round x\<bar> \<le> \<bar>x\<bar> + \<bar>f_round x - x\<bar>" by linarith
  then have "\<bar>f_round x\<bar> \<le> \<bar>x\<bar> + \<bar>x\<bar> / 1000000000" using f_round_coarse[of x] by linarith
  then show ?thesis by (simp add: distrib_left)
qed

lemma f_round_ge_rel:
  assumes "0 \<le> x"
  shows "x * (1 - 1 / 1000000000) \<le> f_round x"
proof -
  have "x - f_round x \<le> \<bar>x\<bar> / 1000000000" using f_round_coarse[of x] by linarith
  then have "x - x / 1000000000 \<le> f_round x" using assms by linarith
  then show ?thesis by (simp add: right_diff_distrib)
qed

text \<open>No square in a sum is larger than the sum.\<close>

lemma foldl_f_add_ge:
  assumes "\<And>x. x \<in> set xs \<Longrightarrow> 0 \<le> x \<and> f_round x = x" "0 \<le> s" "f_round s = s"
  shows "s \<le> foldl f_add s xs \<and> (\<forall>x\<in>set xs. x \<le> foldl f_add s xs)"
  using assms
proof (induction xs arbitrary: s)
  case (Cons x xs)
  have x: "0 \<le> x" "f_round x = x" using Cons.prems(1) by auto
  have "f_round s \<le> f_add s x" "f_round x \<le> f_add s x"
    unfolding f_add_def using x(1) Cons.prems(2) by (intro f_round_mono; simp)+
  moreover have "f_round (f_add s x) = f_add s x" "0 \<le> f_add s x"
    using x Cons.prems(2) by (simp_all add: f_add_def)
  moreover have "f_add s x \<le> foldl f_add (f_add s x) xs \<and> (\<forall>y\<in>set xs. y \<le> foldl f_add (f_add s x) xs)"
    using calculation Cons.prems(1) by (intro Cons.IH) simp_all
  ultimately show ?case using Cons.prems(3) x(2) by (auto intro: order_trans)
qed simp

lemma sum_squares_ge:
  assumes "d \<in> set ds"
  shows "d * d * (1 - 1 / 1000000000) \<le> sum_squares ds"
proof -
  have "0 \<le> foldl f_add 0 (map (\<lambda>d. f_mul d d) ds) \<and> (\<forall>x\<in>set (map (\<lambda>d. f_mul d d) ds). x \<le> foldl f_add 0 (map (\<lambda>d. f_mul d d) ds))"
    by (rule foldl_f_add_ge) (auto simp: f_mul_def)
  then have "f_mul d d \<le> sum_squares ds" using assms by (simp add: sum_squares_def)
  moreover have "d * d * (1 - 1 / 1000000000) \<le> f_mul d d" unfolding f_mul_def by (rule f_round_ge_rel) simp
  ultimately show ?thesis by linarith
qed

lemma direction_small:
  assumes "s \<in> set (map (\<lambda>d. f_div d (f_sqrt (sum_squares ds))) ds)" "f_sqrt (sum_squares ds) > 0"
  shows "\<bar>s\<bar> \<le> 1 + 1 / 100000000"
proof -
  let ?u = "1 / 1000000000 :: real" and ?m = "f_sqrt (sum_squares ds)"
  obtain d where d: "d \<in> set ds" "s = f_div d ?m" using assms(1) by auto
  have "(\<bar>d\<bar> * (1 - ?u))\<^sup>2 \<le> d * d * (1 - ?u)" by (simp add: power2_eq_square)
  then have "(\<bar>d\<bar> * (1 - ?u))\<^sup>2 \<le> sum_squares ds" using sum_squares_ge[OF d(1)] by linarith
  then have r: "\<bar>d\<bar> * (1 - ?u) \<le> sqrt (sum_squares ds)" by (metis real_le_rsqrt)
  have "0 \<le> sqrt (sum_squares ds)" using r by (rule order_trans[rotated]) simp
  then have "sqrt (sum_squares ds) * (1 - ?u) \<le> ?m" unfolding f_sqrt_def by (rule f_round_ge_rel)
  moreover have "\<bar>d\<bar> * (1 - ?u) * (1 - ?u) \<le> sqrt (sum_squares ds) * (1 - ?u)" using r by (rule mult_right_mono) simp
  ultimately have "\<bar>d\<bar> \<le> ?m / ((1 - ?u) * (1 - ?u))" by (simp add: field_simps)
  then have "\<bar>d / ?m\<bar> \<le> 1 / ((1 - ?u) * (1 - ?u))" using assms(2) by (simp add: field_simps)
  moreover have "\<bar>s\<bar> \<le> \<bar>d / ?m\<bar> * (1 + ?u)" unfolding d(2) f_div_def by (rule abs_f_round_le)
  ultimately show ?thesis by (simp add: field_simps)
qed

lemma f_clamp_range: "lo \<le> hi \<Longrightarrow> lo \<le> f_clamp lo hi x \<and> f_clamp lo hi x \<le> hi"
  by (simp add: f_clamp_def)

lemma f_clamp_closer: "lo \<le> x \<Longrightarrow> x \<le> hi \<Longrightarrow> \<bar>f_clamp lo hi y - x\<bar> \<le> \<bar>y - x\<bar>"
  by (auto simp: f_clamp_def)

lemma min_error_range: "0 < MIN_ERROR" "MIN_ERROR \<le> 1"
  by (simp_all add: MIN_ERROR_def f_round_pos f_round_le_1)

subsection \<open>What holds of every position\<close>

definition positioned :: "vivaldi \<Rightarrow> bool" where
  "positioned v \<longleftrightarrow> length (vv_vector v) = COORDINATE_DIMENSIONS \<and>
     (\<forall>x\<in>set (vv_vector v). \<bar>x\<bar> \<le> of_int MAX_COORDINATE_MICROS) \<and>
     0 \<le> vv_height v \<and> vv_height v \<le> of_int MAX_COORDINATE_MICROS \<and>
     MIN_ERROR \<le> vv_error v \<and> vv_error v \<le> INITIAL_ERROR"

text \<open>The positions of a node: loaded or seeded, then moved by measurements.  The arrays of the source have three
  entries.\<close>

inductive fitted :: "vivaldi \<Rightarrow> bool" where
  start: "(case stored of None \<Rightarrow> True | Some s \<Rightarrow> length (ps_vector_micros s) = COORDINATE_DIMENSIONS) \<Longrightarrow>
    fitted (load_or_seeded stored seed)"
| measure: "fitted v \<Longrightarrow> length (nc_vector_micros remote) = COORDINATE_DIMENSIONS \<Longrightarrow> fitted (fst (observe remote rtt v))"

lemma jitter_range: "\<bar>jitter h\<bar> \<le> 1000"
proof -
  have n: "unat h mod (2 * SEED_JITTER_MICROS + 1) \<le> 2000" by (simp add: SEED_JITTER_MICROS_def)
  then have "jitter h = f_round (of_int (int (unat h mod (2 * SEED_JITTER_MICROS + 1)) - 1000))"
    by (simp add: jitter_def f_sub_def f_of_nat_exact SEED_JITTER_MICROS_def)
  also have "\<dots> = of_int (int (unat h mod (2 * SEED_JITTER_MICROS + 1)) - 1000)" using n by (intro f_round_int) simp
  finally show ?thesis using n by simp
qed

lemma seeded_axes_range: "length (seeded_axes seed axes h) = length axes \<and> (\<forall>x\<in>set (seeded_axes seed axes h). \<bar>x\<bar> \<le> 1000)"
  by (induction axes arbitrary: h) (simp_all add: Let_def jitter_range)

lemma positioned_seeded: "positioned (seeded seed)"
  using seeded_axes_range[of seed "[0..<COORDINATE_DIMENSIONS]" FNV_OFFSET] min_error_range
  by (fastforce simp: positioned_def seeded_def vivaldi_default_def MAX_COORDINATE_MICROS_def INITIAL_ERROR_def)

lemma positioned_from_state:
  "from_state s = Some v \<Longrightarrow> length (ps_vector_micros s) = COORDINATE_DIMENSIONS \<Longrightarrow> positioned v"
  by (auto simp: from_state_def positioned_def Let_def list_all_iff split: if_splits)

lemma positioned_force:
  assumes "positioned v" "length (nc_vector_micros remote) = COORDINATE_DIMENSIONS"
  shows "positioned (apply_force remote force v)"
proof -
  have "length (direction v remote) = COORDINATE_DIMENSIONS"
    using assms by (simp add: direction_def offsets_def positioned_def Let_def)
  moreover have "\<bar>f_clamp (- of_int MAX_COORDINATE_MICROS) (of_int MAX_COORDINATE_MICROS) y\<bar> \<le> of_int MAX_COORDINATE_MICROS" for y
    by (auto simp: f_clamp_def MAX_COORDINATE_MICROS_def)
  ultimately show ?thesis
    using assms f_clamp_range[of 0 "of_int MAX_COORDINATE_MICROS"]
    by (auto simp: positioned_def apply_force_def Let_def MAX_COORDINATE_MICROS_def in_set_zip)
qed

lemma positioned_observe:
  assumes "positioned v" "length (nc_vector_micros remote) = COORDINATE_DIMENSIONS"
  shows "positioned (fst (observe remote rtt v))"
proof -
  have "positioned (v\<lparr> vv_error := f_clamp MIN_ERROR INITIAL_ERROR e \<rparr>)" for e
    using assms(1) f_clamp_range[of MIN_ERROR INITIAL_ERROR e] min_error_range(2)
    by (simp add: positioned_def INITIAL_ERROR_def)
  note force = positioned_force[OF this assms(2)]
  have more: "positioned u \<Longrightarrow> positioned (u\<lparr> vv_observations := n \<rparr>)" for u n by (simp add: positioned_def)
  show ?thesis using assms(1) by (simp add: observe_def Let_def more force)
qed

lemma fitted_positioned: "fitted v \<Longrightarrow> positioned v"
proof (induction rule: fitted.induct)
  case (start stored seed)
  then show ?case
    by (auto simp: load_or_seeded_def positioned_seeded split: option.splits bind_splits dest!: positioned_from_state)
qed (simp add: positioned_observe)

lemma clamp_axis_range: "\<bar>clamp_axis x\<bar> \<le> MAX_COORDINATE_MICROS"
  by (auto simp: clamp_axis_def f_clamp_def as_i64_def MAX_COORDINATE_MICROS_def range_defs min_def max_def)

lemma clamp_axis_nonneg: "0 \<le> x \<Longrightarrow> 0 \<le> clamp_axis x"
proof -
  assume "0 \<le> x"
  then have "0 \<le> f_round_away x" by (simp add: f_round_away_def)
  then show ?thesis by (auto simp: clamp_axis_def f_clamp_def as_i64_def MAX_COORDINATE_MICROS_def range_defs)
qed

lemma permille_le: "f_round_away (f_mul (f_clamp 0 1 e) 1000) \<le> 1000"
proof -
  have "f_mul (f_clamp 0 1 e) 1000 \<le> f_round (of_int 1000)"
    unfolding f_mul_def by (rule f_round_mono) (use f_clamp_unit(2)[of e] in simp)
  also have "\<dots> = 1000" by (subst f_round_int) simp_all
  finally have "f_mul (f_clamp 0 1 e) 1000 \<le> 1000" .
  moreover have "0 \<le> f_mul (f_clamp 0 1 e) 1000" by (simp add: f_mul_nonneg)
  ultimately show ?thesis by (simp add: f_round_away_def)
qed

lemma provisional_plausible: "is_plausible (provisional_coordinate v)"
proof -
  have "wrap_i64 \<bar>clamp_axis x\<bar> \<le> MAX_COORDINATE_MICROS" for x
    using clamp_axis_range[of x] by (simp add: MAX_COORDINATE_MICROS_def range_defs)
  moreover have "nat (f_round_away (f_mul (f_clamp 0 1 (vv_error v)) 1000)) \<le> 1000"
    using permille_le[of "vv_error v"] by simp
  ultimately show ?thesis
    using clamp_axis_range[of "max (vv_height v) 0"] clamp_axis_nonneg[of "max (vv_height v) 0"]
    by (auto simp: is_plausible_def provisional_coordinate_def list_all_iff)
qed

subsection \<open>How far one measurement moves a position\<close>

lemma direction_bounded:
  assumes "s \<in> set (direction v remote)" "positioned v" "length (nc_vector_micros remote) = COORDINATE_DIMENSIONS"
  shows "\<bar>s\<bar> \<le> 1 + 1 / 100000000"
proof (cases "f_sqrt (sum_squares (offsets v remote)) > ZERO_THRESHOLD")
  case True
  have "0 < ZERO_THRESHOLD" by (simp add: ZERO_THRESHOLD_def f_round_pos)
  then show ?thesis using True assms(1) direction_small[of s "offsets v remote"] by (simp add: direction_def Let_def)
next
  case False
  let ?ds = "offsets v remote" and ?u = "1 / 1000000000 :: real"
  have z: "ZERO_THRESHOLD \<le> 1 / 2" unfolding ZERO_THRESHOLD_def
    using f_round_le[of "1 / 1000000" 1 "-1"] by (simp add: power_int_minus)
  have "s = 1 \<or> s \<in> set ?ds" using False assms(1) by (auto simp: direction_def Let_def dest: set_update_subset_insert[THEN subsetD])
  moreover have "\<bar>d\<bar> \<le> 1" if d: "d \<in> set ?ds" for d
  proof -
    have S: "d * d * (1 - ?u) \<le> sum_squares ?ds" by (rule sum_squares_ge[OF d])
    then have S0: "0 \<le> sum_squares ?ds" by (rule order_trans[rotated]) simp
    have "sqrt (sum_squares ?ds) * (1 - ?u) \<le> f_sqrt (sum_squares ?ds)" unfolding f_sqrt_def by (rule f_round_ge_rel) (simp add: S0)
    then have "sqrt (sum_squares ?ds) \<le> 3 / 4" using False z by (simp add: field_simps)
    then have "sum_squares ?ds \<le> (3 / 4)\<^sup>2" by (rule sqrt_le_D)
    then have "d * d * (1 - ?u) \<le> 9 / 16" using S by (simp add: power2_eq_square)
    then have "d * d \<le> 1" by (simp add: field_simps)
    then show ?thesis by (simp add: abs_square_le_1 power2_eq_square flip: power2_eq_square)
  qed
  ultimately show ?thesis by fastforce
qed

lemma axis_step:
  assumes "\<bar>x\<bar> \<le> of_int MAX_COORDINATE_MICROS" "\<bar>s\<bar> \<le> 1 + 1 / 100000000" "\<bar>force\<bar> \<le> MAX_STEP_MICROS"
  shows "\<bar>f_clamp (- of_int MAX_COORDINATE_MICROS) (of_int MAX_COORDINATE_MICROS) (f_add x (f_mul s force)) - x\<bar> \<le> MAX_STEP_MICROS + 1"
proof -
  have "\<bar>s * force\<bar> \<le> (1 + 1 / 100000000) * 5000000"
    using mult_mono[OF assms(2,3)] by (simp add: abs_mult MAX_STEP_MICROS_def)
  then have m: "\<bar>f_mul s force\<bar> \<le> 5000000 + 1 / 10"
    using abs_f_round_le[of "s * force"] by (simp add: f_mul_def field_simps)
  have x: "\<bar>x\<bar> \<le> 60000000" using assms(1) by (simp add: MAX_COORDINATE_MICROS_def)
  have "\<bar>f_add x (f_mul s force) - (x + f_mul s force)\<bar> \<le> \<bar>x + f_mul s force\<bar> / 1000000000"
    unfolding f_add_def by (rule f_round_coarse)
  moreover have "\<bar>x + f_mul s force\<bar> / 1000000000 \<le> 1 / 10" using m x by simp
  ultimately have "\<bar>f_add x (f_mul s force) - (x + f_mul s force)\<bar> \<le> 1 / 10" by (rule order_trans)
  then have "\<bar>f_add x (f_mul s force) - x\<bar> \<le> 5000001" using m by linarith
  moreover have "- of_int MAX_COORDINATE_MICROS \<le> x" "x \<le> of_int MAX_COORDINATE_MICROS" using assms(1) by linarith+
  note f_clamp_closer[OF this, of "f_add x (f_mul s force)"]
  ultimately show ?thesis unfolding MAX_STEP_MICROS_def by linarith
qed

lemma force_axes_bounded:
  assumes "positioned v" "length (nc_vector_micros remote) = COORDINATE_DIMENSIONS" "\<bar>force\<bar> \<le> MAX_STEP_MICROS"
    and "i < COORDINATE_DIMENSIONS"
  shows "\<bar>vv_vector (apply_force remote force v) ! i - vv_vector v ! i\<bar> \<le> MAX_STEP_MICROS + 1"
proof -
  have l: "length (direction v remote) = COORDINATE_DIMENSIONS" "length (vv_vector v) = COORDINATE_DIMENSIONS"
    using assms(1,2) by (simp_all add: direction_def offsets_def positioned_def Let_def)
  have "\<bar>direction v remote ! i\<bar> \<le> 1 + 1 / 100000000"
    using direction_bounded[OF _ assms(1,2)] assms(4) l by (metis nth_mem)
  moreover have "\<bar>vv_vector v ! i\<bar> \<le> of_int MAX_COORDINATE_MICROS" using assms(1,4) l by (auto simp: positioned_def)
  ultimately show ?thesis using axis_step[OF _ _ assms(3)] l assms(4) by (simp add: apply_force_def Let_def)
qed

lemma observe_refused: "\<not> snd (observe remote rtt v) \<Longrightarrow> fst (observe remote rtt v) = v"
  by (auto simp: observe_def Let_def split: if_splits)

lemma observe_axes_bounded:
  assumes "positioned v" "length (nc_vector_micros remote) = COORDINATE_DIMENSIONS" "i < COORDINATE_DIMENSIONS"
  shows "\<bar>vv_vector (fst (observe remote rtt v)) ! i - vv_vector v ! i\<bar> \<le> MAX_STEP_MICROS + 1"
proof (cases "snd (observe remote rtt v)")
  case True
  let ?v = "\<lambda>e. v\<lparr> vv_error := f_clamp MIN_ERROR INITIAL_ERROR e \<rparr>"
  have p: "positioned (?v e)" for e
    using assms(1) f_clamp_range[of MIN_ERROR INITIAL_ERROR e] min_error_range(2) by (simp add: positioned_def INITIAL_ERROR_def)
  have f: "\<bar>f_clamp (- MAX_STEP_MICROS) MAX_STEP_MICROS y\<bar> \<le> MAX_STEP_MICROS" for y
    by (auto simp: f_clamp_def MAX_STEP_MICROS_def)
  show ?thesis using force_axes_bounded[OF p assms(2) f assms(3)] True by (simp add: observe_def Let_def split: if_splits)
qed (simp add: observe_refused MAX_STEP_MICROS_def)

section \<open>Properties\<close>

text \<open>C31.  Whatever was stored and whatever peers report, a node's position stays a position: three axes within a minute of
  the origin, a height between zero and a minute, an error between its floor and one.  What it tells peers passes their
  plausibility check, what it stores it can load again, no measurement moves an axis by more than five seconds and a
  rounding error, and a refused measurement changes nothing.\<close>

theorem position_stays_plausible:
  assumes "fitted v" "length (nc_vector_micros remote) = COORDINATE_DIMENSIONS"
  shows "positioned v \<and> is_plausible (provisional_coordinate v) \<and> from_state (to_state v) = Some v \<and>
    (\<forall>i < COORDINATE_DIMENSIONS. \<bar>vv_vector (fst (observe remote rtt v)) ! i - vv_vector v ! i\<bar> \<le> MAX_STEP_MICROS + 1) \<and>
    (\<not> snd (observe remote rtt v) \<longrightarrow> fst (observe remote rtt v) = v)"
proof -
  have p: "positioned v" by (rule fitted_positioned[OF assms(1)])
  then have "from_state (to_state v) = Some v"
    by (auto simp: from_state_def to_state_def positioned_def list_all_iff Let_def)
  then show ?thesis using p provisional_plausible observe_axes_bounded[OF p assms(2)] observe_refused by blast
qed

definition resting_state :: proximity_state where
  "resting_state = \<lparr> ps_vector_micros = [0, 0, 0], ps_height_micros = 0, ps_error = 1, ps_observations = 1 \<rparr>"

definition near_peer :: network_coordinate where
  "near_peer = \<lparr> nc_vector_micros = [1, 0, 0], nc_height_micros = 1000, nc_error_permille = 1000 \<rparr>"

theorem position_stays_plausible_witness:
  "positioned (load_or_seeded (Some resting_state) []) \<and>
   is_plausible (provisional_coordinate (load_or_seeded (Some resting_state) []))"
proof -
  have "fitted (load_or_seeded (Some resting_state) [])"
    by (rule start) (simp add: resting_state_def COORDINATE_DIMENSIONS_def)
  moreover have "length (nc_vector_micros near_peer) = COORDINATE_DIMENSIONS"
    by (simp add: near_peer_def COORDINATE_DIMENSIONS_def)
  ultimately show ?thesis using position_stays_plausible[of "load_or_seeded (Some resting_state) []" near_peer 1] by blast
qed

lemma f_round_numeral: "(numeral n :: int) < 2 ^ 53 \<Longrightarrow> f_round (numeral n) = numeral n"
  using f_round_int[of "numeral n"] by simp

lemma f_round_neg_numeral: "(numeral n :: int) < 2 ^ 53 \<Longrightarrow> f_round (- numeral n) = - numeral n"
  using f_round_numeral[of n] by (simp add: f_round_minus)

text \<open>The bound on a step does not cover the height.  One round trip of 801 milliseconds reported by a plausible peer a
  microsecond away lifts the height of a node from zero to the largest there is, a minute, although \<open>MAX_STEP_MICROS\<close> says
  that no single observation may move a position further than five seconds.\<close>

theorem one_measurement_lifts_to_the_ceiling:
  "let v = load_or_seeded (Some resting_state) []; (v', taken) = observe near_peer 801001 v
   in is_plausible near_peer \<and> taken \<and> vv_height v = 0 \<and> vv_height v' = of_int MAX_COORDINATE_MICROS"
proof -
  have v: "load_or_seeded (Some resting_state) [] = \<lparr> vv_vector = [0, 0, 0], vv_height = 0, vv_error = 1, vv_observations = 1 \<rparr>"
    using min_error_range by (simp add: load_or_seeded_def resting_state_def from_state_def Let_def MAX_COORDINATE_MICROS_def INITIAL_ERROR_def)
  have z: "ZERO_THRESHOLD < 1" unfolding ZERO_THRESHOLD_def
    using f_round_le[of "1 / 1000000" 1 "-1"] by (simp add: power_int_minus)
  have halves: "f_round (1 / 2) = 1 / 2" "f_round (1 / 8) = 1 / 8"
    using f_round_exact[of 1 "-1"] f_round_exact[of 1 "-3"] by (simp_all add: power_int_minus)
  have ints: "f_round 2 = 2" "f_round 1000 = 1000" "f_round 1001 = 1001" "f_round 801001 = 801001" "f_round 800000 = 800000"
    "f_round 100000 = 100000" "f_round 100000000 = 100000000" "f_round (- 1) = - 1"
    by (simp_all add: f_round_numeral f_round_minus)
  note arith = f_add_def f_sub_def f_mul_def f_div_def f_sqrt_def f_of_nat_def f_of_int_def f_clamp_def sum_squares_def
    offsets_def halves ints
  have plausible: "is_plausible near_peer" by (simp add: is_plausible_def near_peer_def MAX_COORDINATE_MICROS_def range_defs)
  have weight: "remote_error near_peer = 1" by (simp add: remote_error_def near_peer_def arith) (use min_error_range in linarith)
  have predicted: "predicted_to (load_or_seeded (Some resting_state) []) near_peer = 1001"
    by (simp add: v predicted_to_def near_peer_def arith)
  show ?thesis
    using plausible z
    by (simp add: observe_def v[symmetric] weight predicted Let_def apply_force_def)
      (simp add: v near_peer_def arith POSITION_SENSITIVITY_def MAX_STEP_MICROS_def MAX_COORDINATE_MICROS_def)
qed

text \<open>The least \<open>i64\<close> passes the plausibility check: its absolute value wraps.\<close>

lemma least_axis_is_plausible:
  "is_plausible \<lparr> nc_vector_micros = [i64_min, 0, 0], nc_height_micros = 0, nc_error_permille = 0 \<rparr>"
  by (simp add: is_plausible_def wrap_i64_def range_defs MAX_COORDINATE_MICROS_def)

text \<open>A plausible position can be further away than \<open>UNKNOWN_EDGE_MICROS\<close>, the distance assumed of a machine that has
  measured nothing.\<close>

lemma unmeasured_is_nearer:
  "is_plausible \<lparr> nc_vector_micros = [0, 0, 0], nc_height_micros = 300000, nc_error_permille = 100 \<rparr> \<and>
   predicted_rtt_micros \<lparr> nc_vector_micros = [0, 0, 0], nc_height_micros = 300000, nc_error_permille = 100 \<rparr>
     \<lparr> nc_vector_micros = [0, 0, 0], nc_height_micros = 300000, nc_error_permille = 100 \<rparr> > UNKNOWN_EDGE_MICROS"
  by (simp add: is_plausible_def predicted_rtt_micros_def UNKNOWN_EDGE_MICROS_def range_defs MAX_COORDINATE_MICROS_def
      f_add_def f_mul_def f_of_int_def f_sqrt_def sum_squares_def f_round_numeral as_u64_def wrap_i64_def)

end
