(* ===== verification/Topology.thy ===== *)
theory Topology
  imports Proximity Schedule
begin

text \<open>
  What machines may be asked to do (\<open>hocmesh-core/src/roles.rs\<close>), how fast their uplink has been seen to be
  (\<open>bandwidth.rs\<close>), and the graph of machines a coordinator chooses tight clusters from (\<open>ResourceGraph\<close> of
  \<open>hocmesh-coordinator/src/schedule.rs\<close>).  The time a transfer took is a number of nanoseconds.
\<close>

section \<open>Definitions\<close>

subsection \<open>Iterators\<close>

text \<open>\<open>Iterator::min_by_key\<close>: the first of the minimal elements.\<close>

definition min_by_key :: "('a \<Rightarrow> 'b :: linorder) \<Rightarrow> 'a list \<Rightarrow> 'a option" where
  "min_by_key key xs = (case xs of [] \<Rightarrow> None | x # ys \<Rightarrow> Some (foldl (\<lambda>best y. if key y < key best then y else best) x ys))"

subsection \<open>The uplink\<close>

definition ASSUMED_KBPS :: nat where "ASSUMED_KBPS = 100000"
definition MEANINGFUL_BYTES :: nat where "MEANINGFUL_BYTES = 256 * 1024"
definition WINDOW :: nat where "WINDOW = 16"
definition MIN_ELAPSED :: nat where "MIN_ELAPSED = 100000"

definition secs_f64 :: "nat \<Rightarrow> real" where
  "secs_f64 nanos = f_add (f_of_nat (nanos div 10 ^ 9)) (f_div (f_of_nat (nanos mod 10 ^ 9)) (10 ^ 9))"

definition record_transfer :: "nat \<Rightarrow> nat \<Rightarrow> nat list \<Rightarrow> nat list" where
  "record_transfer bytes elapsed samples =
     (if bytes < MEANINGFUL_BYTES \<or> elapsed < MIN_ELAPSED then samples
      else let kbps = as_u64 (f_div (f_div (f_mul (f_of_nat bytes) 8) 1000) (secs_f64 elapsed))
           in if kbps = 0 then samples
              else let grown = samples @ [kbps]
                   in if length grown > WINDOW then drop (length grown - WINDOW) grown else grown)"

definition meter_kbps :: "nat list \<Rightarrow> nat option" where
  "meter_kbps samples = (if samples = [] then None else Some (sort samples ! (length samples div 2)))"

subsection \<open>Roles\<close>

definition PREFILL_UPLINK_KBPS :: nat where "PREFILL_UPLINK_KBPS = 1000000"

datatype node_role = Prefill | Decode | Seed | Batch

definition node_roles :: "node_role list" where
  "node_roles = [Prefill, Decode, Seed, Batch]"

definition measured_uplink_kbps :: "node_capabilities \<Rightarrow> nat option" where
  "measured_uplink_kbps caps = (if cp_model_bandwidth_kbps caps > 0 then Some (cp_model_bandwidth_kbps caps) else None)"

definition can_serve :: "node_capabilities \<Rightarrow> node_role \<Rightarrow> bool" where
  "can_serve caps role \<longleftrightarrow> cp_shared_logical_cpus caps \<noteq> 0 \<and>
     (case role of
        Seed \<Rightarrow> True
      | Batch \<Rightarrow> cp_ai_runtime_ready caps
      | Decode \<Rightarrow> cp_ai_runtime_ready caps
      | Prefill \<Rightarrow> cp_ai_runtime_ready caps \<and>
          (case measured_uplink_kbps caps of None \<Rightarrow> False | Some kbps \<Rightarrow> kbps \<ge> PREFILL_UPLINK_KBPS))"

definition roles_for :: "node_capabilities \<Rightarrow> node_role list" where
  "roles_for caps = filter (can_serve caps) node_roles"

subsection \<open>The resource graph\<close>

record vertex =
  vx_node_id :: string
  vx_region :: "string option"
  vx_caps :: node_capabilities
  vx_reputation :: reputation
  vx_online :: bool

record cluster =
  cl_node_ids :: "string list"
  cl_worst_edge_micros :: nat
  cl_total_edge_micros :: nat

text \<open>Two positions when both are plausible, else the way through the coordinator, else far.\<close>

definition vertex_edge :: "vertex \<Rightarrow> vertex \<Rightarrow> nat" where
  "vertex_edge va vb =
     (let via = sat_add64 (cp_coordinator_latency_micros (vx_caps va)) (cp_coordinator_latency_micros (vx_caps vb));
          other = (if via = 0 then UNKNOWN_EDGE_MICROS else via)
      in case (cp_network_coordinate (vx_caps va), cp_network_coordinate (vx_caps vb)) of
           (Some x, Some y) \<Rightarrow> if is_plausible x \<and> is_plausible y then predicted_rtt_micros x y else other
         | _ \<Rightarrow> other)"

definition graph_edge_micros :: "vertex list \<Rightarrow> nat \<Rightarrow> nat \<Rightarrow> nat" where
  "graph_edge_micros g a b = (if a = b then 0 else vertex_edge (g ! a) (g ! b))"

text \<open>The sum of the edges to the machines chosen so far wraps.\<close>

definition reach_key :: "vertex list \<Rightarrow> nat list \<Rightarrow> nat \<Rightarrow> nat \<times> nat \<times> string" where
  "reach_key g chosen c =
     (let es = map (\<lambda>m. graph_edge_micros g m c) chosen
      in (if es = [] then 0 else Max (set es), wrap_u64 (sum_list es), vx_node_id (g ! c)))"

fun grow :: "vertex list \<Rightarrow> nat \<Rightarrow> nat list \<Rightarrow> nat list \<Rightarrow> nat list" where
  "grow g 0 chosen rest = chosen"
| "grow g (Suc n) chosen rest =
     (case min_by_key (reach_key g chosen) rest of
        None \<Rightarrow> chosen
      | Some pick \<Rightarrow> grow g n (chosen @ [pick]) (filter (\<lambda>i. i \<noteq> pick) rest))"

fun pairs_of :: "'a list \<Rightarrow> ('a \<times> 'a) list" where
  "pairs_of [] = []"
| "pairs_of (x # xs) = map (Pair x) xs @ pairs_of xs"

definition measure_cluster :: "vertex list \<Rightarrow> nat list \<Rightarrow> cluster" where
  "measure_cluster g chosen =
     (let es = map (\<lambda>(a, b). graph_edge_micros g a b) (pairs_of chosen)
      in \<lparr> cl_node_ids = sort (map (\<lambda>i. vx_node_id (g ! i)) chosen),
           cl_worst_edge_micros = foldl max 0 es, cl_total_edge_micros = foldl sat_add64 0 es \<rparr>)"

definition cluster_rank :: "cluster \<Rightarrow> nat \<times> nat \<times> string list" where
  "cluster_rank c = (cl_worst_edge_micros c, cl_total_edge_micros c, cl_node_ids c)"

definition eligible :: "vertex list \<Rightarrow> (vertex \<Rightarrow> bool) \<Rightarrow> nat list" where
  "eligible g gate = filter (\<lambda>i. vx_online (g ! i) \<and> gate (g ! i)) [0..<length g]"

definition grown_from :: "vertex list \<Rightarrow> nat \<Rightarrow> nat list \<Rightarrow> nat \<Rightarrow> nat list" where
  "grown_from g k el seed = grow g (k - 1) [seed] (filter (\<lambda>i. i \<noteq> seed) el)"

definition keep_better :: "cluster option \<Rightarrow> cluster \<Rightarrow> cluster option" where
  "keep_better kept c = (case kept of None \<Rightarrow> Some c | Some b \<Rightarrow> if cluster_rank c < cluster_rank b then Some c else Some b)"

definition cluster :: "vertex list \<Rightarrow> nat \<Rightarrow> (vertex \<Rightarrow> bool) \<Rightarrow> cluster option" where
  "cluster g k gate =
     (let el = eligible g gate in
      if k = 0 \<or> length el < k then None
      else foldl (\<lambda>best seed. let chosen = grown_from g k el seed
                   in if length chosen < k then best else keep_better best (measure_cluster g chosen)) None el)"

section \<open>Lemmas\<close>

lemma foldl_min_in: "foldl (\<lambda>best y. if key y < key best then y else best) x ys \<in> set (x # ys)"
  by (induction ys arbitrary: x) (fastforce split: if_splits)+

lemma foldl_min_least_head:
  fixes key :: "'a \<Rightarrow> 'b :: linorder"
  shows "key (foldl (\<lambda>best y. if key y < key best then y else best) x ys) \<le> key x"
proof (induction ys arbitrary: x)
  case (Cons z ys)
  then show ?case by (auto intro: order_trans[OF Cons.IH])
qed simp

lemma foldl_min_least:
  fixes key :: "'a \<Rightarrow> 'b :: linorder"
  shows "y \<in> set (x # ys) \<Longrightarrow> key (foldl (\<lambda>best y. if key y < key best then y else best) x ys) \<le> key y"
proof (induction ys arbitrary: x)
  case (Cons z ys)
  let ?w = "if key z < key x then z else x"
  have "key (foldl (\<lambda>best y. if key y < key best then y else best) ?w ys) \<le> key ?w" by (rule foldl_min_least_head)
  moreover have "key ?w \<le> key x" "key ?w \<le> key z" by auto
  moreover have "y \<in> set ys \<Longrightarrow> key (foldl (\<lambda>best y. if key y < key best then y else best) ?w ys) \<le> key y"
    using Cons.IH[of ?w] by simp
  ultimately show ?case using Cons.prems by (elim set_ConsD[elim_format] disjE; simp only: foldl_Cons)
qed simp

lemma min_by_key_in: "min_by_key key xs = Some m \<Longrightarrow> m \<in> set xs"
  using foldl_min_in[of key] by (force simp: min_by_key_def split: list.splits)

lemma min_by_key_least: "min_by_key key xs = Some m \<Longrightarrow> y \<in> set xs \<Longrightarrow> key m \<le> key y"
  using foldl_min_least[of y _ _ key] by (force simp: min_by_key_def split: list.splits)

lemma min_by_key_None [simp]: "min_by_key key xs = None \<longleftrightarrow> xs = []"
  by (simp add: min_by_key_def split: list.splits)

subsection \<open>Growing a cluster\<close>

lemma length_remove_one: "distinct xs \<Longrightarrow> x \<in> set xs \<Longrightarrow> length (filter (\<lambda>i. i \<noteq> x) xs) = length xs - 1"
proof (induction xs)
  case (Cons a xs)
  have "x \<notin> set xs \<Longrightarrow> filter (\<lambda>i. i \<noteq> x) xs = xs" by (rule filter_True) auto
  then show ?case using Cons by (cases xs; cases "a = x") auto
qed simp

lemma grow_ok:
  assumes "distinct (chosen @ rest)"
  shows "distinct (grow g n chosen rest) \<and> set (grow g n chosen rest) \<subseteq> set chosen \<union> set rest \<and>
    length (grow g n chosen rest) = length chosen + min n (length rest)"
  using assms
proof (induction g n chosen rest rule: grow.induct)
  case (2 g n chosen rest)
  show ?case
  proof (cases "min_by_key (reach_key g chosen) rest")
    case None
    then have "rest = []" by simp
    then show ?thesis using "2.prems" by (simp add: min_by_key_def)
  next
    case (Some pick)
    have pick: "pick \<in> set rest" by (rule min_by_key_in[OF Some])
    have d: "distinct ((chosen @ [pick]) @ filter (\<lambda>i. i \<noteq> pick) rest)" using "2.prems" pick by auto
    note ih = "2.IH"[OF Some d]
    have "length (filter (\<lambda>i. i \<noteq> pick) rest) = length rest - 1" using "2.prems" pick by (intro length_remove_one) auto
    moreover have "0 < length rest" using pick by (cases rest) auto
    ultimately have "Suc (min n (length (filter (\<lambda>i. i \<noteq> pick) rest))) = min (Suc n) (length rest)" by linarith
    then show ?thesis using ih Some pick by auto
  qed
qed simp

lemma grown_from_ok:
  assumes "distinct el" "seed \<in> set el" "0 < k" "k \<le> length el"
  shows "distinct (grown_from g k el seed)" "set (grown_from g k el seed) \<subseteq> set el" "length (grown_from g k el seed) = k"
proof -
  have "distinct ([seed] @ filter (\<lambda>i. i \<noteq> seed) el)" using assms(1) by simp
  from grow_ok[OF this, of g "k - 1"] length_remove_one[OF assms(1,2)]
  show "distinct (grown_from g k el seed)" "set (grown_from g k el seed) \<subseteq> set el" "length (grown_from g k el seed) = k"
    using assms(2-4) by (auto simp: grown_from_def)
qed

lemma foldl_keep_better:
  "foldl (\<lambda>best s. keep_better best (f s)) b xs = None \<longleftrightarrow> b = None \<and> xs = []"
  "foldl (\<lambda>best s. keep_better best (f s)) b xs = Some c \<Longrightarrow>
     (b = Some c \<or> (\<exists>s\<in>set xs. c = f s)) \<and> (\<forall>s\<in>set xs. cluster_rank c \<le> cluster_rank (f s)) \<and>
     (\<forall>b'. b = Some b' \<longrightarrow> cluster_rank c \<le> cluster_rank b')"
proof -
  show "foldl (\<lambda>best s. keep_better best (f s)) b xs = None \<longleftrightarrow> b = None \<and> xs = []"
    by (induction xs arbitrary: b) (auto simp: keep_better_def split: option.splits if_splits)
  show "foldl (\<lambda>best s. keep_better best (f s)) b xs = Some c \<Longrightarrow>
     (b = Some c \<or> (\<exists>s\<in>set xs. c = f s)) \<and> (\<forall>s\<in>set xs. cluster_rank c \<le> cluster_rank (f s)) \<and>
     (\<forall>b'. b = Some b' \<longrightarrow> cluster_rank c \<le> cluster_rank b')"
  proof (induction xs arbitrary: b)
    case (Cons x xs)
    from Cons.IH[of "keep_better b (f x)"] Cons.prems show ?case
      by (cases b) (auto simp: keep_better_def split: if_splits intro: order_trans)
  qed simp
qed

lemma foldl_sat_add: "s \<le> u64_max \<Longrightarrow> foldl sat_add64 s xs = min (s + sum_list xs) u64_max"
  by (induction xs arbitrary: s) (simp_all add: sat_add64_def)

lemma foldl_max_Max: "foldl max (m :: nat) xs = Max (set (m # xs))"
proof (induction xs arbitrary: m)
  case (Cons x xs)
  then show ?case by (cases "xs = []") (simp_all add: max.assoc)
qed simp

lemma cluster_foldl:
  assumes "0 < k" "k \<le> length (eligible g gate)"
  shows "cluster g k gate =
    foldl (\<lambda>best seed. keep_better best (measure_cluster g (grown_from g k (eligible g gate) seed))) None (eligible g gate)"
proof -
  have d: "distinct (eligible g gate)" by (simp add: eligible_def)
  show ?thesis using assms grown_from_ok(3)[OF d _ assms]
    by (simp add: cluster_def Let_def cong: foldl_cong)
qed

lemma card_eligible: "length (eligible g gate) = card {i. i < length g \<and> vx_online (g ! i) \<and> gate (g ! i)}"
proof -
  have "distinct (eligible g gate)" "set (eligible g gate) = {i. i < length g \<and> vx_online (g ! i) \<and> gate (g ! i)}"
    by (auto simp: eligible_def)
  then show ?thesis by (metis distinct_card)
qed

section \<open>Properties\<close>

text \<open>C30.  A cluster is found exactly when enough machines are online and pass the gate.  It is then the asked number of
  different such machines, its worst edge and its total are those of its pairs (the total saturating), and no cluster
  grown from another starting machine is tighter.\<close>

theorem cluster_found:
  "(cluster g k gate = None \<longleftrightarrow> k = 0 \<or> card {i. i < length g \<and> vx_online (g ! i) \<and> gate (g ! i)} < k) \<and>
   (\<forall>c. cluster g k gate = Some c \<longrightarrow>
      (\<exists>chosen. distinct chosen \<and> length chosen = k \<and> (\<forall>i\<in>set chosen. i < length g \<and> vx_online (g ! i) \<and> gate (g ! i)) \<and>
         cl_node_ids c = sort (map (\<lambda>i. vx_node_id (g ! i)) chosen) \<and>
         cl_worst_edge_micros c = Max (insert 0 ((\<lambda>(a, b). graph_edge_micros g a b) ` set (pairs_of chosen))) \<and>
         cl_total_edge_micros c = min (\<Sum>(a, b)\<leftarrow>pairs_of chosen. graph_edge_micros g a b) u64_max) \<and>
      (\<forall>seed. seed < length g \<and> vx_online (g ! seed) \<and> gate (g ! seed) \<longrightarrow>
         cluster_rank c \<le> cluster_rank (measure_cluster g (grown_from g k (eligible g gate) seed))))"
proof (cases "k = 0 \<or> length (eligible g gate) < k")
  case True
  then show ?thesis by (auto simp: cluster_def Let_def simp flip: card_eligible)
next
  case False
  let ?el = "eligible g gate" and ?f = "\<lambda>seed. measure_cluster g (grown_from g k (eligible g gate) seed)"
  have k: "0 < k" "k \<le> length ?el" using False by auto
  have d: "distinct ?el" and el: "\<And>i. i \<in> set ?el \<longleftrightarrow> i < length g \<and> vx_online (g ! i) \<and> gate (g ! i)"
    by (auto simp: eligible_def)
  have found: "(\<exists>seed\<in>set ?el. c = ?f seed) \<and> (\<forall>seed\<in>set ?el. cluster_rank c \<le> cluster_rank (?f seed))" if "cluster g k gate = Some c" for c
    using foldl_keep_better(2)[of ?f None ?el c] that cluster_foldl[OF k] by auto
  have "cluster g k gate \<noteq> None"
    using foldl_keep_better(1)[of ?f None ?el] cluster_foldl[OF k] k by auto
  moreover have "\<exists>chosen. distinct chosen \<and> length chosen = k \<and> (\<forall>i\<in>set chosen. i < length g \<and> vx_online (g ! i) \<and> gate (g ! i)) \<and>
         cl_node_ids c = sort (map (\<lambda>i. vx_node_id (g ! i)) chosen) \<and>
         cl_worst_edge_micros c = Max (insert 0 ((\<lambda>(a, b). graph_edge_micros g a b) ` set (pairs_of chosen))) \<and>
         cl_total_edge_micros c = min (\<Sum>(a, b)\<leftarrow>pairs_of chosen. graph_edge_micros g a b) u64_max"
    if c: "cluster g k gate = Some c" for c
  proof -
    obtain seed where s: "seed \<in> set ?el" "c = ?f seed" using found[OF c] by auto
    note g = grown_from_ok[OF d s(1) k, of g]
    show ?thesis
      by (rule exI[of _ "grown_from g k ?el seed"])
        (use g el in \<open>auto simp: s(2) measure_cluster_def Let_def foldl_max_Max foldl_sat_add\<close>)
  qed
  ultimately show ?thesis using found False el by (auto simp flip: card_eligible)
qed

definition demo_vertex :: "string \<Rightarrow> nat \<Rightarrow> vertex" where
  "demo_vertex name latency = \<lparr> vx_node_id = name, vx_region = None,
     vx_caps = demo_caps\<lparr> cp_coordinator_latency_micros := latency, cp_network_coordinate := None \<rparr>,
     vx_reputation = new_reputation, vx_online = True \<rparr>"

theorem cluster_found_witness:
  "\<exists>c. cluster [demo_vertex ''a'' 10, demo_vertex ''b'' 20] 2 vx_online = Some c \<and> length (cl_node_ids c) = 2"
proof -
  let ?g = "[demo_vertex ''a'' 10, demo_vertex ''b'' 20]"
  have "{i. i < length ?g \<and> vx_online (?g ! i) \<and> vx_online (?g ! i)} = {0, 1}"
    by (auto simp: demo_vertex_def less_Suc_eq)
  then have "card {i. i < length ?g \<and> vx_online (?g ! i) \<and> vx_online (?g ! i)} = 2" by simp
  then obtain c where "cluster ?g 2 vx_online = Some c" using cluster_found[of ?g 2 vx_online] by auto
  then show ?thesis using cluster_found[of ?g 2 vx_online] by fastforce
qed

end
