(* ===== verification/Gguf.thy ===== *)
theory Gguf
  imports Prelude "HOL-Library.Multiset"
begin

text \<open>
  The reader of GGUF model headers of \<open>hocmesh-model/src/gguf.rs\<close>: a cursor that never leaves its buffer, the walk
  over the metadata, the tensor directory, and the byte extents and chunks a pipeline stage has to fetch.
  Bytes are characters (Rust strings are their UTF-8 bytes).  \<open>usize\<close> has 64 bits.  A result
  \<open>Ok(None)\<close>, the answer is not in these bytes, is \<open>Inr None\<close>.
\<close>

section \<open>Definitions\<close>

definition MAGIC :: string where "MAGIC = ''GGUF''"

definition MAX_STRING_LEN :: nat where "MAX_STRING_LEN = 2 ^ 20"

definition MAX_KV_PAIRS :: nat where "MAX_KV_PAIRS = 2 ^ 20"

definition MAX_TENSORS :: nat where "MAX_TENSORS = 2 ^ 20"

definition MAX_DIMENSIONS :: nat where "MAX_DIMENSIONS = 8"

definition DEFAULT_ALIGNMENT :: nat where "DEFAULT_ALIGNMENT = 32"

definition ALIGNMENT_KEY :: string where "ALIGNMENT_KEY = ''general.alignment''"

definition supported_version :: "nat \<Rightarrow> bool" where "supported_version v \<longleftrightarrow> 2 \<le> v \<and> v \<le> 3"

datatype gguf_error =
    TooShort | BadMagic | NoVersion | UnsupportedVersion nat | ImplausiblePairs nat | ImplausibleTensors nat
  | UnknownType nat | NotAString | NotANumber | DoesNotFit | BadAlignment nat | TooManyDimensions nat
  | StartOverflow | StartPastEnd | OffsetOverflow | LengthOverflow | RunsPastEnd | Overlapping | ZeroChunk

datatype value_type = VU8 | VI8 | VU16 | VI16 | VU32 | VI32 | VF32 | VBool | VString | VArray | VU64 | VI64 | VF64

definition value_types :: "value_type list" where
  "value_types = [VU8, VI8, VU16, VI16, VU32, VI32, VF32, VBool, VString, VArray, VU64, VI64, VF64]"

definition from_code :: "nat \<Rightarrow> gguf_error + value_type" where
  "from_code code = (if code < 13 then Inr (value_types ! code) else Inl (UnknownType code))"

fun fixed_width :: "value_type \<Rightarrow> nat option" where
  "fixed_width VU8 = Some 1" | "fixed_width VI8 = Some 1" | "fixed_width VBool = Some 1"
| "fixed_width VU16 = Some 2" | "fixed_width VI16 = Some 2"
| "fixed_width VU32 = Some 4" | "fixed_width VI32 = Some 4" | "fixed_width VF32 = Some 4"
| "fixed_width VU64 = Some 8" | "fixed_width VI64 = Some 8" | "fixed_width VF64 = Some 8"
| "fixed_width VString = None" | "fixed_width VArray = None"

subsection \<open>The cursor\<close>

record reader =
  rd_bytes :: string
  rd_at :: nat

definition new_reader :: "string \<Rightarrow> reader" where
  "new_reader bytes = \<lparr> rd_bytes = bytes, rd_at = 0 \<rparr>"

definition rtake :: "nat \<Rightarrow> reader \<Rightarrow> (string \<times> reader) option" where
  "rtake n r =
     (if rd_at r + n \<le> u64_max \<and> rd_at r + n \<le> length (rd_bytes r)
      then Some (take n (drop (rd_at r) (rd_bytes r)), r\<lparr> rd_at := rd_at r + n \<rparr>) else None)"

definition rskip :: "nat \<Rightarrow> reader \<Rightarrow> reader option" where
  "rskip n r = map_option snd (rtake n r)"

text \<open>\<open>from_le_bytes\<close>.\<close>

definition le_nat :: "string \<Rightarrow> nat" where
  "le_nat bs = foldr (\<lambda>b n. of_char b + 256 * n) bs 0"

definition ru32 :: "reader \<Rightarrow> (nat \<times> reader) option" where
  "ru32 r = map_option (\<lambda>(bs, r'). (le_nat bs, r')) (rtake 4 r)"

definition ru64 :: "reader \<Rightarrow> (nat \<times> reader) option" where
  "ru64 r = map_option (\<lambda>(bs, r'). (le_nat bs, r')) (rtake 8 r)"

definition rstring :: "reader \<Rightarrow> (string \<times> reader) option" where
  "rstring r =
     Option.bind (ru64 r) (\<lambda>(len, r'). if len > MAX_STRING_LEN then None else rtake len r')"

text \<open>Stepping over a value.  An array of fixed-width elements is skipped at once, the others are walked one by one;
  the first argument bounds how deep arrays nest, and as every array header takes twelve bytes, the number of bytes
  left is always enough.\<close>

fun repeat_skip :: "nat \<Rightarrow> (reader \<Rightarrow> reader option) \<Rightarrow> reader \<Rightarrow> reader option" where
  "repeat_skip 0 f r = Some r"
| "repeat_skip (Suc n) f r = Option.bind (f r) (repeat_skip n f)"

fun skip_nested :: "nat \<Rightarrow> reader \<Rightarrow> value_type \<Rightarrow> reader option" where
  "skip_nested 0 r t = None"
| "skip_nested (Suc depth) r t =
     (case t of
        VString \<Rightarrow> map_option snd (rstring r)
      | VArray \<Rightarrow>
          Option.bind (ru32 r) (\<lambda>(code, r1).
          case from_code code of
            Inl _ \<Rightarrow> None
          | Inr element \<Rightarrow>
              Option.bind (ru64 r1) (\<lambda>(count, r2).
              case fixed_width element of
                Some width \<Rightarrow> rskip (sat_mul64 count width) r2
              | None \<Rightarrow> repeat_skip count (\<lambda>r'. skip_nested depth r' element) r2))
      | fixed \<Rightarrow> rskip (case fixed_width fixed of Some w \<Rightarrow> w | None \<Rightarrow> 0) r)"

definition skip_value :: "reader \<Rightarrow> value_type \<Rightarrow> reader option" where
  "skip_value r t = skip_nested (Suc (length (rd_bytes r) - rd_at r)) r t"

subsection \<open>Metadata\<close>

text \<open>\<open>let Ok(x) = ... else { return Ok(None) }\<close>.\<close>

definition or_absent :: "'a option \<Rightarrow> ('a \<Rightarrow> 'e + 'b option) \<Rightarrow> 'e + 'b option" where
  "or_absent x k = (case x of None \<Rightarrow> Inr None | Some v \<Rightarrow> k v)"

definition check_magic :: "string \<Rightarrow> gguf_error + reader" where
  "check_magic bytes =
     (case rtake 4 (new_reader bytes) of
        None \<Rightarrow> Inl TooShort
      | Some (magic, r1) \<Rightarrow>
          if magic \<noteq> MAGIC then Inl BadMagic
          else (case ru32 r1 of
                  None \<Rightarrow> Inl NoVersion
                | Some (version, r2) \<Rightarrow>
                    if supported_version version then Inr r2 else Inl (UnsupportedVersion version)))"

text \<open>The replacement of invalid UTF-8, a byte sequence at a time, as \<open>String::from_utf8_lossy\<close> does it.\<close>

definition replacement :: string where
  "replacement = [CHR 0xEF, CHR 0xBF, CHR 0xBD]"

definition in_range :: "nat \<Rightarrow> nat \<Rightarrow> char \<Rightarrow> bool" where
  "in_range lo hi b \<longleftrightarrow> lo \<le> of_char b \<and> of_char b \<le> hi"

abbreviation continues :: "char \<Rightarrow> bool" where
  "continues \<equiv> in_range 0x80 0xBF"

definition second_of_three :: "char \<Rightarrow> char \<Rightarrow> bool" where
  "second_of_three a b =
     (if of_char a = (0xE0 :: nat) then in_range 0xA0 0xBF b
      else if of_char a = (0xED :: nat) then in_range 0x80 0x9F b else continues b)"

definition second_of_four :: "char \<Rightarrow> char \<Rightarrow> bool" where
  "second_of_four a b =
     (if of_char a = (0xF0 :: nat) then in_range 0x90 0xBF b
      else if of_char a = (0xF4 :: nat) then in_range 0x80 0x8F b else continues b)"

text \<open>How many bytes the next step takes, and whether they are a character or are replaced.\<close>

definition utf8_step :: "char \<Rightarrow> string \<Rightarrow> nat \<times> bool" where
  "utf8_step a rest =
     (if of_char a < (128 :: nat) then (1, True)
      else if in_range 0xC2 0xDF a then
        (case rest of b # _ \<Rightarrow> if continues b then (2, True) else (1, False) | [] \<Rightarrow> (1, False))
      else if in_range 0xE0 0xEF a then
        (case rest of
           b # c # _ \<Rightarrow> if \<not> second_of_three a b then (1, False) else if continues c then (3, True) else (2, False)
         | [b] \<Rightarrow> if second_of_three a b then (2, False) else (1, False)
         | [] \<Rightarrow> (1, False))
      else if in_range 0xF0 0xF4 a then
        (case rest of
           b # c # d # _ \<Rightarrow>
             if \<not> second_of_four a b then (1, False) else if \<not> continues c then (2, False)
             else if continues d then (4, True) else (3, False)
         | [b, c] \<Rightarrow> if \<not> second_of_four a b then (1, False) else if continues c then (3, False) else (2, False)
         | [b] \<Rightarrow> if second_of_four a b then (2, False) else (1, False)
         | [] \<Rightarrow> (1, False))
      else (1, False))"

function from_utf8_lossy :: "string \<Rightarrow> string" where
  "from_utf8_lossy [] = []"
| "from_utf8_lossy (a # rest) =
     (case utf8_step a rest of (n, good) \<Rightarrow>
        (if good then take n (a # rest) else replacement) @ from_utf8_lossy (drop (n - 1) rest))"
  by pat_completeness auto

termination from_utf8_lossy
  by (relation "measure length") auto

fun string_walk :: "nat \<Rightarrow> string \<Rightarrow> reader \<Rightarrow> gguf_error + string option" where
  "string_walk 0 key r = Inr None"
| "string_walk (Suc n) key r =
     or_absent (rstring r) (\<lambda>(found_key, r1).
     or_absent (ru32 r1) (\<lambda>(code, r2).
     qbind (from_code code) (\<lambda>value_type.
     if found_key = key \<and> value_type = VString
     then or_absent (rstring r2) (\<lambda>(v, _). Inr (Some (from_utf8_lossy v)))
     else if found_key = key then Inl NotAString
     else or_absent (skip_value r2 value_type) (string_walk n key))))"

definition metadata_string :: "string \<Rightarrow> string \<Rightarrow> gguf_error + string option" where
  "metadata_string bytes key =
     qbind (check_magic bytes) (\<lambda>r.
     or_absent (ru64 r) (\<lambda>(_, r1).
     or_absent (ru64 r1) (\<lambda>(pairs, r2).
     if pairs > MAX_KV_PAIRS then Inl (ImplausiblePairs pairs) else string_walk pairs key r2)))"

definition architecture :: "string \<Rightarrow> gguf_error + string option" where
  "architecture bytes = metadata_string bytes ''general.architecture''"

definition model_name :: "string \<Rightarrow> gguf_error + string option" where
  "model_name bytes = metadata_string bytes ''general.name''"

text \<open>Floating-point values are kept as the bits the file holds.\<close>

datatype scalar = Unsigned nat | Signed int | Float nat nat | Boolean bool

definition signed_le :: "string \<Rightarrow> int" where
  "signed_le bs =
     (let n = int (le_nat bs); w = 2 ^ (8 * length bs) in if 2 * n < w then n else n - w)"

definition read_scalar :: "reader \<Rightarrow> value_type \<Rightarrow> scalar option option" where
  "read_scalar r t =
     (case fixed_width t of
        None \<Rightarrow> Some None
      | Some width \<Rightarrow>
          map_option (\<lambda>(bs, _). Some
            (if t \<in> {VU8, VU16, VU32, VU64} then Unsigned (le_nat bs)
             else if t = VBool then Boolean (of_char (bs ! 0) \<noteq> (0 :: nat))
             else if t \<in> {VF32, VF64} then Float width (le_nat bs)
             else Signed (signed_le bs))) (rtake width r))"

fun scalar_walk :: "nat \<Rightarrow> string \<Rightarrow> (scalar \<Rightarrow> scalar option) \<Rightarrow> reader \<Rightarrow> gguf_error + scalar option" where
  "scalar_walk 0 key wanted r = Inr None"
| "scalar_walk (Suc n) key wanted r =
     or_absent (rstring r) (\<lambda>(found_key, r1).
     or_absent (ru32 r1) (\<lambda>(code, r2).
     qbind (from_code code) (\<lambda>value_type.
     if found_key \<noteq> key then or_absent (skip_value r2 value_type) (scalar_walk n key wanted)
     else case read_scalar r2 value_type of
            Some (Some s) \<Rightarrow> (case wanted s of Some v \<Rightarrow> Inr (Some v) | None \<Rightarrow> Inl DoesNotFit)
          | _ \<Rightarrow> Inl NotANumber)))"

definition find_scalar :: "string \<Rightarrow> string \<Rightarrow> (scalar \<Rightarrow> scalar option) \<Rightarrow> gguf_error + scalar option" where
  "find_scalar bytes key wanted =
     qbind (check_magic bytes) (\<lambda>r.
     or_absent (ru64 r) (\<lambda>(_, r1).
     or_absent (ru64 r1) (\<lambda>(pairs, r2).
     if pairs > MAX_KV_PAIRS then Inl (ImplausiblePairs pairs) else scalar_walk pairs key wanted r2)))"

fun as_count :: "scalar \<Rightarrow> scalar option" where
  "as_count (Unsigned v) = Some (Unsigned v)"
| "as_count (Signed v) = (if v \<ge> 0 then Some (Unsigned (nat v)) else None)"
| "as_count (Boolean b) = Some (Unsigned (if b then 1 else 0))"
| "as_count (Float _ _) = None"

definition metadata_u64 :: "string \<Rightarrow> string \<Rightarrow> gguf_error + nat option" where
  "metadata_u64 bytes key =
     qbind (find_scalar bytes key as_count)
       (\<lambda>s. Inr (case s of Some (Unsigned v) \<Rightarrow> Some v | _ \<Rightarrow> None))"

subsection \<open>Tensors\<close>

record block_layout =
  bl_elements :: nat
  bl_bytes :: nat

definition block_layouts :: "(nat \<times> nat \<times> nat) list" where
  "block_layouts =
     [(0, 1, 4), (1, 1, 2), (2, 32, 18), (3, 32, 20), (6, 32, 22), (7, 32, 24), (8, 32, 34), (9, 32, 36),
      (10, 256, 84), (11, 256, 110), (12, 256, 144), (13, 256, 176), (14, 256, 210), (15, 256, 292), (16, 256, 66),
      (17, 256, 74), (18, 256, 98), (19, 256, 50), (20, 32, 18), (21, 256, 110), (22, 256, 82), (23, 256, 136),
      (24, 1, 1), (25, 1, 2), (26, 1, 4), (27, 1, 8), (28, 1, 8), (29, 256, 56), (30, 1, 2)]"

definition block_layout_of :: "nat \<Rightarrow> block_layout option" where
  "block_layout_of kind =
     map_option (\<lambda>(e, b). \<lparr> bl_elements = e, bl_bytes = b \<rparr>) (map_of block_layouts kind)"

record tensor_info =
  ti_name :: string
  ti_dimensions :: "nat list"
  ti_kind :: nat
  ti_offset :: nat

definition checked_mul64 :: "nat \<Rightarrow> nat \<Rightarrow> nat option" where
  "checked_mul64 a b = (if a * b \<le> u64_max then Some (a * b) else None)"

definition checked_add64 :: "nat \<Rightarrow> nat \<Rightarrow> nat option" where
  "checked_add64 a b = (if a + b \<le> u64_max then Some (a + b) else None)"

definition element_count :: "tensor_info \<Rightarrow> nat option" where
  "element_count t = foldl (\<lambda>total x. Option.bind total (\<lambda>n. checked_mul64 n x)) (Some 1) (ti_dimensions t)"

definition data_len :: "tensor_info \<Rightarrow> nat option" where
  "data_len t =
     Option.bind (block_layout_of (ti_kind t)) (\<lambda>layout.
     Option.bind (element_count t) (\<lambda>elements.
     checked_mul64 (div_ceil elements (max (bl_elements layout) 1)) (bl_bytes layout)))"

text \<open>\<open>str::parse::<u32>\<close>: an optional plus sign, then digits, and no overflow.\<close>

definition is_digit :: "char \<Rightarrow> bool" where
  "is_digit ch \<longleftrightarrow> 48 \<le> (of_char ch :: nat) \<and> (of_char ch :: nat) \<le> 57"

definition parse_u32 :: "string \<Rightarrow> nat option" where
  "parse_u32 s =
     (let ds = (case s of CHR ''+'' # rest \<Rightarrow> rest | _ \<Rightarrow> s)
      in if ds \<noteq> [] \<and> list_all is_digit ds \<and> read_nat ds \<le> u32_max then Some (read_nat ds) else None)"

definition layer_index :: "tensor_info \<Rightarrow> nat option" where
  "layer_index t =
     (if take 4 (ti_name t) \<noteq> ''blk.'' then None
      else let rest = drop 4 (ti_name t)
           in if CHR ''.'' \<in> set rest then parse_u32 (takeWhile (\<lambda>ch. ch \<noteq> CHR ''.'') rest) else None)"

datatype byte_extent = ByteExtent (be_start: nat) (be_end: nat)

definition be_is_empty :: "byte_extent \<Rightarrow> bool" where
  "be_is_empty e \<longleftrightarrow> be_end e \<le> be_start e"

text \<open>The derived order: by start, then by end.\<close>

instantiation byte_extent :: linorder
begin

definition less_eq_byte_extent :: "byte_extent \<Rightarrow> byte_extent \<Rightarrow> bool" where
  "less_eq_byte_extent a b \<longleftrightarrow> be_start a < be_start b \<or> be_start a = be_start b \<and> be_end a \<le> be_end b"

definition less_byte_extent :: "byte_extent \<Rightarrow> byte_extent \<Rightarrow> bool" where
  "less_byte_extent a b \<longleftrightarrow> be_start a < be_start b \<or> be_start a = be_start b \<and> be_end a < be_end b"

instance
  by standard (auto simp: less_eq_byte_extent_def less_byte_extent_def intro: byte_extent.expand)

end

record tensor_dir =
  td_alignment :: nat
  td_data_start :: nat
  td_tensors :: "tensor_info list"

definition align_up :: "nat \<Rightarrow> nat \<Rightarrow> nat option" where
  "align_up v alignment =
     (if alignment \<le> 1 then Some v
      else let remainder = v mod alignment
           in if remainder = 0 then Some v else checked_add64 v (alignment - remainder))"

function is_power_of_two :: "nat \<Rightarrow> bool" where
  "is_power_of_two n = (if n = 0 then False else if n = 1 then True else even n \<and> is_power_of_two (n div 2))"
  by pat_completeness auto

termination is_power_of_two
  by (relation "measure id") auto

declare is_power_of_two.simps [simp del]

fun directory_walk :: "nat \<Rightarrow> nat \<Rightarrow> reader \<Rightarrow> gguf_error + (nat \<times> reader) option" where
  "directory_walk 0 alignment r = Inr (Some (alignment, r))"
| "directory_walk (Suc n) alignment r =
     or_absent (rstring r) (\<lambda>(key, r1).
     or_absent (ru32 r1) (\<lambda>(code, r2).
     qbind (from_code code) (\<lambda>value_type.
     if key = ALIGNMENT_KEY \<and> value_type = VU32
     then or_absent (ru32 r2) (\<lambda>(declared, r3).
          if declared \<noteq> 0 \<and> is_power_of_two declared then directory_walk n declared r3
          else Inl (BadAlignment declared))
     else or_absent (skip_value r2 value_type) (directory_walk n alignment))))"

fun read_dimensions :: "nat \<Rightarrow> reader \<Rightarrow> (nat list \<times> reader) option" where
  "read_dimensions 0 r = Some ([], r)"
| "read_dimensions (Suc n) r =
     Option.bind (ru64 r) (\<lambda>(x, r1). map_option (\<lambda>(xs, r2). (x # xs, r2)) (read_dimensions n r1))"

fun tensor_walk :: "nat \<Rightarrow> reader \<Rightarrow> gguf_error + (tensor_info list \<times> reader) option" where
  "tensor_walk 0 r = Inr (Some ([], r))"
| "tensor_walk (Suc n) r =
     or_absent (rstring r) (\<lambda>(name, r1).
     or_absent (ru32 r1) (\<lambda>(dimension_count, r2).
     if dimension_count > MAX_DIMENSIONS then Inl (TooManyDimensions dimension_count)
     else or_absent (read_dimensions dimension_count r2) (\<lambda>(dimensions, r3).
          or_absent (ru32 r3) (\<lambda>(kind, r4).
          or_absent (ru64 r4) (\<lambda>(offset, r5).
          qbind (tensor_walk n r5) (\<lambda>rest.
          Inr (map_option (\<lambda>(ts, r6).
            (\<lparr> ti_name = from_utf8_lossy name, ti_dimensions = dimensions, ti_kind = kind, ti_offset = offset \<rparr> # ts, r6))
            rest)))))))"

definition tensor_directory :: "string \<Rightarrow> gguf_error + tensor_dir option" where
  "tensor_directory bytes =
     qbind (check_magic bytes) (\<lambda>r.
     or_absent (ru64 r) (\<lambda>(tensor_count, r1).
     if tensor_count > MAX_TENSORS then Inl (ImplausibleTensors tensor_count)
     else or_absent (ru64 r1) (\<lambda>(pairs, r2).
     if pairs > MAX_KV_PAIRS then Inl (ImplausiblePairs pairs)
     else qbind (directory_walk pairs DEFAULT_ALIGNMENT r2) (\<lambda>walked.
     or_absent walked (\<lambda>(alignment, r3).
     qbind (tensor_walk tensor_count r3) (\<lambda>listed.
     or_absent listed (\<lambda>(tensors, r4).
     case align_up (rd_at r4) alignment of
       None \<Rightarrow> Inl StartOverflow
     | Some data_start \<Rightarrow>
         Inr (Some \<lparr> td_alignment = alignment, td_data_start = data_start, td_tensors = tensors \<rparr>))))))))"

subsection \<open>Layers, extents, chunks\<close>

definition layer_count :: "tensor_dir \<Rightarrow> nat" where
  "layer_count d =
     (let is = List.map_filter layer_index (td_tensors d) in if is = [] then 0 else as_u32 (Max (set is) + 1))"

definition tensors_for_layers :: "tensor_dir \<Rightarrow> nat \<Rightarrow> nat \<Rightarrow> tensor_info list" where
  "tensors_for_layers d lo hi =
     filter (\<lambda>t. case layer_index t of Some i \<Rightarrow> lo \<le> i \<and> i < hi | None \<Rightarrow> False) (td_tensors d)"

definition shared_tensors :: "tensor_dir \<Rightarrow> tensor_info list" where
  "shared_tensors d = filter (\<lambda>t. layer_index t = None) (td_tensors d)"

definition extent_of :: "tensor_dir \<Rightarrow> tensor_info \<Rightarrow> nat \<Rightarrow> byte_extent" where
  "extent_of d t file_len =
     (let start = sat_add64 (td_data_start d) (ti_offset t);
          later = filter (\<lambda>x. x > ti_offset t) (map ti_offset (td_tensors d));
          stop = (case data_len t of
                    Some len \<Rightarrow> sat_add64 start len
                  | None \<Rightarrow> if later = [] then file_len else sat_add64 (td_data_start d) (Min (set later)))
      in ByteExtent start (min stop file_len))"

fun merge_extents :: "nat \<Rightarrow> byte_extent list \<Rightarrow> byte_extent list \<Rightarrow> byte_extent list" where
  "merge_extents alignment merged [] = rev merged"
| "merge_extents alignment [] (span # spans) = merge_extents alignment [span] spans"
| "merge_extents alignment (l # merged) (span # spans) =
     (if be_start span \<le> (case align_up (be_end l) alignment of Some e \<Rightarrow> e | None \<Rightarrow> be_end l)
      then merge_extents alignment (ByteExtent (be_start l) (max (be_end l) (be_end span)) # merged) spans
      else merge_extents alignment (span # l # merged) spans)"

definition extents_of :: "tensor_dir \<Rightarrow> tensor_info list \<Rightarrow> nat \<Rightarrow> byte_extent list" where
  "extents_of d ts file_len =
     merge_extents (td_alignment d) [] (sort (filter (\<lambda>e. \<not> be_is_empty e) (map (\<lambda>t. extent_of d t file_len) ts)))"

definition extents_for_layers :: "tensor_dir \<Rightarrow> nat \<Rightarrow> nat \<Rightarrow> nat \<Rightarrow> byte_extent list" where
  "extents_for_layers d lo hi file_len = extents_of d (tensors_for_layers d lo hi) file_len"

definition chunks_for_extents :: "byte_extent list \<Rightarrow> nat \<Rightarrow> gguf_error + nat list" where
  "chunks_for_extents extents chunk_size =
     (if chunk_size = 0 then Inl ZeroChunk
      else Inr (remdups_adj (sort (concat (map
             (\<lambda>e. [be_start e div chunk_size ..< Suc ((be_end e - 1) div chunk_size)])
             (filter (\<lambda>e. \<not> be_is_empty e) extents))))))"

definition tensor_span :: "tensor_dir \<Rightarrow> nat \<Rightarrow> tensor_info \<Rightarrow> gguf_error + byte_extent option" where
  "tensor_span d file_len t =
     (case checked_add64 (td_data_start d) (ti_offset t) of
        None \<Rightarrow> Inl OffsetOverflow
      | Some start \<Rightarrow>
          (case data_len t of
             None \<Rightarrow> if start \<le> file_len then Inr None else Inl RunsPastEnd
           | Some len \<Rightarrow>
               (case checked_add64 start len of
                  None \<Rightarrow> Inl LengthOverflow
                | Some e \<Rightarrow> if e \<le> file_len then Inr (Some (ByteExtent start e)) else Inl RunsPastEnd)))"

fun no_overlap :: "byte_extent list \<Rightarrow> bool" where
  "no_overlap (a # b # es) \<longleftrightarrow> be_end a \<le> be_start b \<and> no_overlap (b # es)"
| "no_overlap _ \<longleftrightarrow> True"

definition validate :: "tensor_dir \<Rightarrow> nat \<Rightarrow> gguf_error + unit" where
  "validate d file_len =
     (if td_data_start d > file_len then Inl StartPastEnd
      else qbind (fold_result (\<lambda>t spans. qbind (tensor_span d file_len t) (\<lambda>e.
               Inr (case e of Some x \<Rightarrow> spans @ [x] | None \<Rightarrow> spans))) (td_tensors d) []) (\<lambda>spans.
           if no_overlap (sort spans) then Inr () else Inl Overlapping))"

section \<open>Lemmas\<close>

subsection \<open>More bytes change no answer\<close>

definition ext :: "string \<Rightarrow> reader \<Rightarrow> reader" where
  "ext e r = r\<lparr> rd_bytes := rd_bytes r @ e \<rparr>"

lemma ext_simps [simp]: "rd_at (ext e r) = rd_at r" "rd_bytes (ext e r) = rd_bytes r @ e"
  by (simp_all add: ext_def)

lemma rtake_ext: "rtake n r = Some (x, r') \<Longrightarrow> rtake n (ext e r) = Some (x, ext e r')"
  by (auto simp: rtake_def ext_def split: if_splits)

lemma rskip_ext: "rskip n r = Some r' \<Longrightarrow> rskip n (ext e r) = Some (ext e r')"
  using rtake_ext by (auto simp: rskip_def)

lemma ru32_ext: "ru32 r = Some (x, r') \<Longrightarrow> ru32 (ext e r) = Some (x, ext e r')"
  using rtake_ext by (fastforce simp: ru32_def)

lemma ru64_ext: "ru64 r = Some (x, r') \<Longrightarrow> ru64 (ext e r) = Some (x, ext e r')"
  using rtake_ext by (fastforce simp: ru64_def)

lemma rstring_ext: "rstring r = Some (x, r') \<Longrightarrow> rstring (ext e r) = Some (x, ext e r')"
  by (simp add: rstring_def bind_eq_Some_conv) (metis (no_types, lifting) case_prodE case_prodI2' option.distinct(1) prod.inject rtake_ext ru64_ext)

lemma repeat_skip_ext:
  assumes "\<And>r r'. f r = Some r' \<Longrightarrow> g (ext e r) = Some (ext e r')"
  shows "repeat_skip n f r = Some r' \<Longrightarrow> repeat_skip n g (ext e r) = Some (ext e r')"
  by (induction n arbitrary: r) (auto simp: bind_eq_Some_conv dest: assms)

lemma skip_array_Some:
  "skip_nested (Suc k) r VArray = Some r' \<longleftrightarrow>
   (\<exists>code r1 el n r2. ru32 r = Some (code, r1) \<and> from_code code = Inr el \<and> ru64 r1 = Some (n, r2) \<and>
      (case fixed_width el of Some w \<Rightarrow> rskip (sat_mul64 n w) r2
       | None \<Rightarrow> repeat_skip n (\<lambda>r. skip_nested k r el) r2) = Some r')"
proof (cases "ru32 r")
  case (Some x)
  obtain code r1 where x: "x = (code, r1)" by (cases x)
  show ?thesis
  proof (cases "from_code code")
    case (Inr el)
    show ?thesis by (cases "ru64 r1") (auto simp: Some x Inr)
  qed (simp add: Some x)
qed simp

lemma skip_nested_ext: "skip_nested k r t = Some r' \<Longrightarrow> k \<le> k' \<Longrightarrow> skip_nested k' (ext e r) t = Some (ext e r')"
proof (induction k arbitrary: k' r t r')
  case (Suc k)
  then obtain j where k': "k' = Suc j" "k \<le> j" by (cases k') auto
  show ?case
  proof (cases t)
    case VString
    with Suc.prems(1) k' show ?thesis by (auto dest: rstring_ext[where e = e])
  next
    case VArray
    with Suc.prems(1) obtain code r1 el n r2 where
      s: "ru32 r = Some (code, r1)" "from_code code = Inr el" "ru64 r1 = Some (n, r2)"
      and r': "(case fixed_width el of Some w \<Rightarrow> rskip (sat_mul64 n w) r2
         | None \<Rightarrow> repeat_skip n (\<lambda>r. skip_nested k r el) r2) = Some r'"
      unfolding VArray skip_array_Some by blast
    note x = ru32_ext[OF s(1), of e] ru64_ext[OF s(3), of e]
    show ?thesis
    proof (cases "fixed_width el")
      case None
      with r' have "repeat_skip n (\<lambda>r. skip_nested k r el) r2 = Some r'" by simp
      from repeat_skip_ext[where e = e and g = "\<lambda>r. skip_nested j r el", OF _ this] Suc.IH k'(2)
      show ?thesis using VArray s x None k' by simp
    next
      case (Some w)
      with r' VArray s x k' show ?thesis by (auto dest: rskip_ext[where e = e])
    qed
  qed (use Suc.prems(1) k' in \<open>auto dest: rskip_ext[where e = e]\<close>)
qed simp

lemma skip_value_ext: "skip_value r t = Some r' \<Longrightarrow> skip_value (ext e r) t = Some (ext e r')"
  unfolding skip_value_def by (erule skip_nested_ext) simp

lemmas partial_ext = rstring_ext ru32_ext ru64_ext skip_value_ext

subsection \<open>The bound on nesting is never felt\<close>

text \<open>The bytes left, and what every step leaves of them.\<close>

definition left :: "reader \<Rightarrow> nat" where
  "left r = length (rd_bytes r) - rd_at r"

lemma rtake_left: "rtake n r = Some (x, r') \<Longrightarrow> left r' + n = left r"
  by (auto simp: rtake_def left_def split: if_splits)

lemma step_left:
  "ru32 r = Some (x, r') \<Longrightarrow> left r' + 4 = left r" "ru64 r = Some (x, r') \<Longrightarrow> left r' + 8 = left r"
  "rskip n r = Some r' \<Longrightarrow> left r' + n = left r" "rstring r = Some (y, r') \<Longrightarrow> left r' + 8 \<le> left r"
  by (auto simp: ru32_def ru64_def rskip_def rstring_def bind_eq_Some_conv dest!: rtake_left split: if_splits)

lemma repeat_skip_left:
  assumes "\<And>r r'. f r = Some r' \<Longrightarrow> left r' \<le> left r"
  shows "repeat_skip n f r = Some r' \<Longrightarrow> left r' \<le> left r"
proof (induction n arbitrary: r)
  case (Suc n)
  then obtain r1 where "f r = Some r1" "repeat_skip n f r1 = Some r'" by (auto simp: bind_eq_Some_conv)
  with Suc.IH assms show ?case by (meson le_trans)
qed simp

lemma skip_nested_left: "skip_nested k r t = Some r' \<Longrightarrow> left r' \<le> left r"
proof (induction k arbitrary: r t r')
  case (Suc k)
  show ?case
  proof (cases "t = VArray")
    case True
    with Suc.prems obtain code r1 el n r2 where
      s: "ru32 r = Some (code, r1)" "ru64 r1 = Some (n, r2)"
      and r': "(case fixed_width el of Some w \<Rightarrow> rskip (sat_mul64 n w) r2
         | None \<Rightarrow> repeat_skip n (\<lambda>r. skip_nested k r el) r2) = Some r'"
      unfolding True skip_array_Some by blast
    have "left r' \<le> left r2"
      using r' repeat_skip_left[of "\<lambda>r. skip_nested k r el" n r2 r'] Suc.IH step_left(3)[of _ r2 r']
      by (cases "fixed_width el") fastforce+
    then show ?thesis using step_left(1)[OF s(1)] step_left(2)[OF s(2)] by simp
  next
    case False
    with Suc.prems show ?thesis by (cases t) (auto dest!: step_left)
  qed
qed simp

lemma repeat_skip_cong:
  assumes "\<And>r. left r \<le> m \<Longrightarrow> f r = g r" "\<And>r r'. f r = Some r' \<Longrightarrow> left r' \<le> left r" "left r \<le> m"
  shows "repeat_skip n f r = repeat_skip n g r"
  using assms(3)
proof (induction n arbitrary: r)
  case (Suc n)
  show ?case
  proof (cases "f r")
    case None
    then show ?thesis using assms(1)[OF Suc.prems] by simp
  next
    case (Some r1)
    with assms(2) Suc.prems have "left r1 \<le> m" by (meson le_trans)
    from Suc.IH[OF this] Some assms(1)[OF Suc.prems] show ?thesis by simp
  qed
qed simp

lemma skip_nested_enough: "left r < k \<Longrightarrow> left r < k' \<Longrightarrow> skip_nested k r t = skip_nested k' r t"
proof (induction k arbitrary: k' r t)
  case (Suc k)
  then obtain j where k': "k' = Suc j" by (cases k') auto
  have arr: "repeat_skip n (\<lambda>r. skip_nested k r el) r2 = repeat_skip n (\<lambda>r. skip_nested j r el) r2"
    if "ru32 r = Some (code, r1)" "ru64 r1 = Some (n, r2)" for code r1 el n r2
  proof (rule repeat_skip_cong[where m = "left r2"])
    have "left r2 < k" "left r2 < j" using step_left(1)[OF that(1)] step_left(2)[OF that(2)] Suc.prems k' by auto
    then show "skip_nested k x el = skip_nested j x el" if "left x \<le> left r2" for x
      using Suc.IH[of x j el] that by auto
  qed (auto dest: skip_nested_left)
  show ?case
  proof (cases "t = VArray")
    case True
    have "skip_nested (Suc k) r VArray = skip_nested (Suc j) r VArray"
    proof (cases "ru32 r")
      case (Some x)
      obtain code r1 where x: "x = (code, r1)" by (cases x)
      show ?thesis
      proof (cases "ru64 r1")
        case (Some y)
        obtain n r2 where y: "y = (n, r2)" by (cases y)
        show ?thesis using arr[OF \<open>ru32 r = Some x\<close>[unfolded x] Some[unfolded y]]
          by (simp add: \<open>ru32 r = Some x\<close> x Some y cong: sum.case_cong option.case_cong)
      qed (simp add: Some x split: sum.split)
    qed simp
    then show ?thesis by (simp only: True k')
  next
    case False
    then show ?thesis by (cases t) (simp_all add: k')
  qed
qed simp

text \<open>So the walk over an array is the loop of the source, whatever it nests.\<close>

lemma skip_value_array:
  "skip_value r VArray =
     Option.bind (ru32 r) (\<lambda>(code, r1).
     case from_code code of
       Inl _ \<Rightarrow> None
     | Inr element \<Rightarrow>
         Option.bind (ru64 r1) (\<lambda>(count, r2).
         case fixed_width element of
           Some width \<Rightarrow> rskip (sat_mul64 count width) r2
         | None \<Rightarrow> repeat_skip count (\<lambda>r'. skip_value r' element) r2))"
proof (cases "ru32 r")
  case (Some x)
  obtain code r1 where x: "x = (code, r1)" by (cases x)
  have "repeat_skip n (\<lambda>r'. skip_nested (left r) r' el) r2 = repeat_skip n (\<lambda>r'. skip_value r' el) r2"
    if "ru64 r1 = Some (n, r2)" for n r2 el
  proof (rule repeat_skip_cong[where m = "left r2"])
    have less: "left r2 < left r" using step_left(1)[OF Some[unfolded x]] step_left(2)[OF that] by simp
    show "skip_nested (left r) y el = skip_value y el" if "left y \<le> left r2" for y
      unfolding skip_value_def left_def[symmetric] by (rule skip_nested_enough) (use that less in auto)
  qed (auto dest: skip_nested_left)
  then show ?thesis
    by (cases "ru64 r1")
       (auto simp: skip_value_def[of r] left_def[symmetric] Some x split: sum.split option.split)
qed (simp add: skip_value_def)

subsection \<open>Walks over more bytes\<close>

lemma or_absent_simps [simp]: "or_absent None k = Inr None" "or_absent (Some v) k = k v"
  by (simp_all add: or_absent_def)

lemma string_walk_ext: "string_walk n key r = Inr None \<or> string_walk n key (ext e r) = string_walk n key r"
proof (induction n arbitrary: r)
  case (Suc n)
  show ?case
  proof (cases "rstring r")
    case (Some x)
    obtain k r1 where x: "x = (k, r1)" by (cases x)
    show ?thesis
    proof (cases "ru32 r1")
      case u: (Some y)
      obtain code r2 where y: "y = (code, r2)" by (cases y)
      note fx = rstring_ext[OF Some[unfolded x], of e] ru32_ext[OF u[unfolded y], of e]
      show ?thesis
      proof (cases "from_code code")
        case (Inl err)
        then show ?thesis by (simp add: fx Some x u y)
      next
        case (Inr t)
        show ?thesis
        proof (cases "k = key")
          case True
          then show ?thesis
            by (cases "rstring r2") (auto simp: fx Some x u y Inr dest: rstring_ext[where e = e])
        next
          case False
          then show ?thesis using Suc.IH skip_value_ext[of r2 t _ e]
            by (cases "skip_value r2 t") (auto simp: fx Some x u y Inr)
        qed
      qed
    qed (simp add: Some x)
  qed simp
qed simp

text \<open>A walk that hands its cursor on.\<close>

definition carries :: "string \<Rightarrow> 'e + ('a \<times> reader) option \<Rightarrow> 'e + ('a \<times> reader) option \<Rightarrow> bool" where
  "carries e res res' = (case res of
      Inl err \<Rightarrow> res' = Inl err | Inr None \<Rightarrow> True | Inr (Some (v, r)) \<Rightarrow> res' = Inr (Some (v, ext e r)))"

lemma carries_simps [simp]:
  "carries e (Inl err) (Inl err)" "carries e (Inr None) res" "carries e (Inr (Some (v, r))) (Inr (Some (v, ext e r)))"
  by (simp_all add: carries_def)

lemma carries_absent:
  assumes "\<And>v r'. x = Some (v, r') \<Longrightarrow> x' = Some (v, ext e r') \<and> carries e (k (v, r')) (k (v, ext e r'))"
  shows "carries e (or_absent x k) (or_absent x' k)"
  using assms by (cases x) auto

lemma directory_walk_ext: "carries e (directory_walk n al r) (directory_walk n al (ext e r))"
proof (induction n arbitrary: al r)
  case (Suc n)
  have skip: "carries e (or_absent (skip_value r2 t) (directory_walk n al)) (or_absent (skip_value (ext e r2) t) (directory_walk n al))"
    for r2 t using Suc.IH by (cases "skip_value r2 t") (auto dest: skip_value_ext[where e = e])
  show ?case unfolding directory_walk.simps
    by (intro carries_absent conjI; (erule partial_ext)?)
       (auto intro!: carries_absent skip Suc.IH ru32_ext split: sum.splits simp: from_code_def)
qed simp

lemma read_dimensions_ext: "read_dimensions n r = Some (xs, r') \<Longrightarrow> read_dimensions n (ext e r) = Some (xs, ext e r')"
proof (induction n arbitrary: r xs)
  case (Suc n)
  then obtain x r1 ys where "ru64 r = Some (x, r1)" "read_dimensions n r1 = Some (ys, r')" "xs = x # ys"
    by (auto simp: bind_eq_Some_conv)
  with Suc.IH ru64_ext[of r x r1 e] show ?case by simp
qed simp

lemma tensor_walk_ext: "carries e (tensor_walk n r) (tensor_walk n (ext e r))"
proof (induction n arbitrary: r)
  case (Suc n)
  have rest: "carries e (qbind (tensor_walk n r5) (\<lambda>rest. Inr (map_option (\<lambda>(ts, r6). (f ts, r6)) rest)))
      (qbind (tensor_walk n (ext e r5)) (\<lambda>rest. Inr (map_option (\<lambda>(ts, r6). (f ts, r6)) rest)))" for r5 f
    using Suc.IH[of r5] by (auto simp: carries_def split: sum.splits option.splits)
  show ?case unfolding tensor_walk.simps
    by (intro carries_absent conjI; (erule partial_ext)?)
       (auto intro!: carries_absent rest ru32_ext ru64_ext read_dimensions_ext)
qed simp

lemma check_magic_ext:
  assumes "8 \<le> length bytes"
  shows "check_magic (bytes @ e) = map_sum id (ext e) (check_magic bytes)"
proof -
  have new: "new_reader (bytes @ e) = ext e (new_reader bytes)" by (simp add: new_reader_def ext_def)
  obtain m r1 where m: "rtake 4 (new_reader bytes) = Some (m, r1)"
    using assms by (simp add: rtake_def new_reader_def u64_max_def)
  then have r1: "rd_at r1 = 4" "rd_bytes r1 = bytes" by (auto simp: rtake_def new_reader_def split: if_splits)
  obtain v r2 where v: "ru32 r1 = Some (v, r2)" using assms r1 by (simp add: ru32_def rtake_def u64_max_def)
  show ?thesis unfolding check_magic_def new rtake_ext[OF m] m using v ru32_ext[OF v] by simp
qed

lemma string_header_ext:
  assumes "8 \<le> length bytes"
  shows "metadata_string bytes key = Inr None \<or> metadata_string (bytes @ e) key = metadata_string bytes key"
proof (cases "check_magic bytes")
  case (Inl err)
  then show ?thesis by (simp add: metadata_string_def check_magic_ext[OF assms])
next
  case (Inr r)
  show ?thesis
  proof (cases "ru64 r")
    case (Some x)
    obtain t r1 where x: "x = (t, r1)" by (cases x)
    show ?thesis
    proof (cases "ru64 r1")
      case p: (Some y)
      obtain n r2 where y: "y = (n, r2)" by (cases y)
      show ?thesis
        using ru64_ext[OF Some[unfolded x], of e] ru64_ext[OF p[unfolded y], of e] string_walk_ext[of n key r2 e]
        by (auto simp: metadata_string_def check_magic_ext[OF assms] Inr Some x p y)
    qed (simp add: metadata_string_def Inr Some x)
  qed (simp add: metadata_string_def Inr)
qed

lemma directory_ext:
  assumes "8 \<le> length bytes"
  shows "tensor_directory bytes = Inr None \<or> tensor_directory (bytes @ e) = tensor_directory bytes"
proof -
  define fin where "fin = (\<lambda>(listed :: (tensor_info list \<times> reader) option) al. or_absent listed (\<lambda>(tensors, r4).
     case align_up (rd_at r4) al of None \<Rightarrow> Inl StartOverflow
     | Some data_start \<Rightarrow> Inr (Some \<lparr> td_alignment = al, td_data_start = data_start, td_tensors = tensors \<rparr>)))"
  have last: "res = Inr None \<or> qbind res' (\<lambda>l. fin l al) = qbind res (\<lambda>l. fin l al)"
    if "carries e res res'" for res res' al
    using that by (auto simp: carries_def fin_def split: sum.splits option.splits)
  have walk: "qbind (tensor_walk n r) (\<lambda>l. fin l al) = Inr None \<or>
      qbind (tensor_walk n (ext e r)) (\<lambda>l. fin l al) = qbind (tensor_walk n r) (\<lambda>l. fin l al)" for n r al
    using last[OF tensor_walk_ext[of e n r], of al] by (cases "tensor_walk n r = Inr None") (simp_all add: fin_def)
  have mid: "qbind res (\<lambda>w. or_absent w (\<lambda>(al, r3). qbind (tensor_walk n r3) (\<lambda>l. fin l al))) = Inr None \<or>
      qbind res' (\<lambda>w. or_absent w (\<lambda>(al, r3). qbind (tensor_walk n r3) (\<lambda>l. fin l al))) =
      qbind res (\<lambda>w. or_absent w (\<lambda>(al, r3). qbind (tensor_walk n r3) (\<lambda>l. fin l al)))"
    if "carries e res res'" for res res' n
  proof (cases "\<exists>al r3. res = Inr (Some (al, r3))")
    case True
    then obtain al r3 where res: "res = Inr (Some (al, r3))" by blast
    with that have "res' = Inr (Some (al, ext e r3))" by (simp add: carries_def)
    with res walk[of n r3 al] show ?thesis by simp
  next
    case False
    with that show ?thesis by (auto simp: carries_def split: sum.splits option.splits)
  qed
  show ?thesis
  proof (cases "check_magic bytes")
    case (Inl err)
    then show ?thesis by (simp add: tensor_directory_def check_magic_ext[OF assms])
  next
    case (Inr r)
    show ?thesis
    proof (cases "ru64 r")
      case (Some x)
      obtain t r1 where x: "x = (t, r1)" by (cases x)
      note x1 = ru64_ext[OF Some[unfolded x], of e]
      show ?thesis
      proof (cases "ru64 r1")
        case p: (Some y)
        obtain n r2 where y: "y = (n, r2)" by (cases y)
        note x2 = ru64_ext[OF p[unfolded y], of e]
        show ?thesis
          using mid[OF directory_walk_ext[of e n DEFAULT_ALIGNMENT r2], of t]
          unfolding fin_def
          by (auto simp: tensor_directory_def check_magic_ext[OF assms] Inr Some x p y x1 x2)
      next
        case None
        then show ?thesis by (simp add: tensor_directory_def check_magic_ext[OF assms] Inr Some x x1)
      qed
    qed (simp add: tensor_directory_def Inr)
  qed
qed

subsection \<open>Alignment\<close>

lemma align_up_Some:
  assumes "align_up v a = Some w" "0 < a"
  shows "a dvd w" "v \<le> w" "w < v + a"
proof -
  have m: "v mod a < a" using assms(2) by simp
  have "a dvd w \<and> v \<le> w \<and> w < v + a"
  proof (cases "v mod a = 0 \<or> a \<le> 1")
    case True
    with assms show ?thesis by (cases "a = 1") (auto simp: align_up_def Let_def split: if_splits)
  next
    case False
    then have w: "w = v + (a - v mod a)" using assms by (auto simp: align_up_def Let_def checked_add64_def split: if_splits)
    have "v div a * a + v mod a = v" by simp
    then have "w = v div a * a + a" using m w by linarith
    then have "a dvd w" by simp
    moreover have "v \<le> w" "w < v + a" using w m False by linarith+
    ultimately show ?thesis by blast
  qed
  then show "a dvd w" "v \<le> w" "w < v + a" by auto
qed

lemma is_power_of_two_iff: "is_power_of_two n \<longleftrightarrow> (\<exists>k. n = 2 ^ k)"
proof (induction n rule: is_power_of_two.induct)
  case (1 n)
  consider "n = 0" | "n = 1" | "n \<ge> 2" by linarith
  then show ?case
  proof cases
    case 2
    then show ?thesis by (auto simp: is_power_of_two.simps intro: exI[of _ 0])
  next
    case 3
    then have ih: "is_power_of_two (n div 2) \<longleftrightarrow> (\<exists>k. n div 2 = 2 ^ k)" using 1 by auto
    have "even n \<and> (\<exists>k. n div 2 = 2 ^ k) \<longleftrightarrow> (\<exists>k. n = 2 ^ k)"
    proof
      assume "even n \<and> (\<exists>k. n div 2 = 2 ^ k)"
      then obtain k where "even n" "n div 2 = 2 ^ k" by blast
      then have "n = 2 ^ Suc k" by auto
      then show "\<exists>k. n = 2 ^ k" by blast
    next
      assume "\<exists>k. n = 2 ^ k"
      then obtain k where k: "n = 2 ^ k" by blast
      with 3 obtain j where "k = Suc j" by (cases k) auto
      with k show "even n \<and> (\<exists>k. n div 2 = 2 ^ k)" by auto
    qed
    with ih 3 show ?thesis by (subst is_power_of_two.simps) auto
  qed (simp add: is_power_of_two.simps)
qed

subsection \<open>Extents\<close>

definition bytes_of :: "byte_extent \<Rightarrow> nat set" where
  "bytes_of e = {be_start e ..< be_end e}"

lemma no_overlap_sorted:
  assumes "no_overlap es" "i < j" "j < length es" "\<forall>e\<in>set es. be_start e \<le> be_end e"
  shows "be_end (es ! i) \<le> be_start (es ! j)"
  using assms
proof (induction es arbitrary: i j rule: no_overlap.induct)
  case (1 a b es)
  obtain j' where j: "j = Suc j'" using 1 by (cases j) auto
  show ?case
  proof (cases i)
    case 0
    show ?thesis
    proof (cases j')
      case (Suc k)
      with 1 j have "be_end ((b # es) ! 0) \<le> be_start ((b # es) ! j')" by (intro "1.IH") auto
      moreover have "be_end a \<le> be_start b" "be_start b \<le> be_end b" using 1 by auto
      ultimately show ?thesis using j 0 by simp
    qed (use 1 j 0 in simp)
  next
    case (Suc i')
    with 1 j show ?thesis by simp
  qed
qed auto

lemma no_overlap_once:
  assumes "no_overlap es" "\<forall>e\<in>set es. be_start e \<le> be_end e"
  shows "length (filter (\<lambda>e. x \<in> bytes_of e) es) \<le> 1"
  using assms
proof (induction es rule: no_overlap.induct)
  case (1 a b es)
  show ?case
  proof (cases "x \<in> bytes_of a")
    case True
    have "x \<notin> bytes_of e" if "e \<in> set (b # es)" for e
    proof -
      from that obtain j where j: "j < length (b # es)" "e = (b # es) ! j" by (metis in_set_conv_nth)
      have "be_end ((a # b # es) ! 0) \<le> be_start ((a # b # es) ! Suc j)"
        by (rule no_overlap_sorted) (use 1 j in auto)
      then show ?thesis using True j by (auto simp: bytes_of_def)
    qed
    then have "filter (\<lambda>e. x \<in> bytes_of e) (b # es) = []" by (simp add: filter_empty_conv)
    then show ?thesis using True by simp
  next
    case False
    with 1 show ?thesis by simp
  qed
qed auto

lemma filter_concat_twice:
  assumes "i < j" "j < length ts" "\<exists>e\<in>set (f (ts ! i)). P e" "\<exists>e\<in>set (f (ts ! j)). P e"
  shows "2 \<le> length (filter P (concat (map f ts)))"
proof -
  have ts: "ts = take i ts @ ts ! i # drop (Suc i) ts" using assms(1,2) by (simp add: id_take_nth_drop)
  have "ts ! j \<in> set (drop (Suc i) ts)"
    using assms(1,2) by (auto simp: in_set_conv_nth intro!: exI[of _ "j - Suc i"])
  then have "filter P (concat (map f (drop (Suc i) ts))) \<noteq> []" using assms(4) by (auto simp: filter_empty_conv)
  moreover have "filter P (f (ts ! i)) \<noteq> []" using assms(3) by (auto simp: filter_empty_conv)
  ultimately have "1 \<le> length (filter P (f (ts ! i)))" "1 \<le> length (filter P (concat (map f (drop (Suc i) ts))))"
    by (simp_all add: Suc_le_eq)
  then show ?thesis by (subst ts) simp
qed

text \<open>What the loop keeps: the merged spans, newest first, start after the reach of the one before.\<close>

definition reach :: "nat \<Rightarrow> byte_extent \<Rightarrow> nat" where
  "reach a e = (case align_up (be_end e) a of Some x \<Rightarrow> x | None \<Rightarrow> be_end e)"

lemma reach_bounds: "0 < a \<Longrightarrow> be_end e \<le> reach a e \<and> reach a e < be_end e + a"
  using align_up_Some[of "be_end e" a] by (auto simp: reach_def split: option.splits)

lemma merge_step:
  "merge_extents a (l # merged) (span # spans) =
     (if be_start span \<le> reach a l
      then merge_extents a (ByteExtent (be_start l) (max (be_end l) (be_end span)) # merged) spans
      else merge_extents a (span # l # merged) spans)"
  by (simp add: reach_def)

fun spaced :: "nat \<Rightarrow> byte_extent list \<Rightarrow> bool" where
  "spaced a (e # f # es) \<longleftrightarrow> reach a f < be_start e \<and> spaced a (f # es)"
| "spaced a _ \<longleftrightarrow> True"

lemma merge_extents_spaced:
  assumes "spaced a merged" "sorted (map be_start spans)"
    and "merged \<noteq> [] \<Longrightarrow> \<forall>s\<in>set spans. be_start (hd merged) \<le> be_start s"
  shows "spaced a (rev (merge_extents a merged spans))"
  using assms
proof (induction a merged spans rule: merge_extents.induct)
  case (3 a l merged span spans)
  show ?case
  proof (cases "be_start span \<le> reach a l")
    case True
    have sp: "spaced a (ByteExtent (be_start l) (max (be_end l) (be_end span)) # merged)"
      using "3.prems"(1) by (cases merged) auto
    from 3 True sp show ?thesis by (simp add: reach_def)
  next
    case False
    with 3 show ?thesis by (simp add: reach_def)
  qed
qed auto

lemma merge_extents_covers:
  assumes "\<forall>s\<in>set spans. be_start (hd merged) \<le> be_start s \<or> merged = []" "sorted (map be_start spans)"
    and "e \<in> set merged \<union> set spans"
  shows "\<exists>f\<in>set (merge_extents a merged spans). be_start f \<le> be_start e \<and> be_end e \<le> be_end f"
  using assms
proof (induction a merged spans arbitrary: e rule: merge_extents.induct)
  case (3 a l merged span spans)
  let ?l = "ByteExtent (be_start l) (max (be_end l) (be_end span))"
  show ?case
  proof (cases "be_start span \<le> reach a l")
    case True
    have "\<exists>d\<in>set (?l # merged) \<union> set spans. be_start d \<le> be_start e \<and> be_end e \<le> be_end d"
      using "3.prems" by (cases "e = l \<or> e = span") fastforce+
    then obtain d where d: "d \<in> set (?l # merged) \<union> set spans" "be_start d \<le> be_start e" "be_end e \<le> be_end d" by blast
    have "\<exists>f\<in>set (merge_extents a (?l # merged) spans). be_start f \<le> be_start d \<and> be_end d \<le> be_end f"
      by (rule "3.IH"(1)[folded reach_def, OF True]) (use "3.prems" d(1) in auto)
    with d show ?thesis unfolding merge_step if_P[OF True] by (meson le_trans)
  next
    case False
    show ?thesis unfolding merge_step if_not_P[OF False]
      by (rule "3.IH"(2)[folded reach_def, OF False]) (use "3.prems" in auto)
  qed
qed auto

lemma merge_extents_padding:
  assumes "0 < a" "f \<in> set (merge_extents a merged spans)" "be_start f \<le> x" "x < be_end f"
  shows "\<exists>e\<in>set merged \<union> set spans. be_start e \<le> x \<and> x < be_end e + a"
proof -
  have "\<exists>e\<in>set merged \<union> set spans. be_start e \<le> x \<and> x < be_end e + a"
    if "\<exists>f\<in>set (merge_extents a merged spans). be_start f \<le> x \<and> x < be_end f + a"
    using that assms(1)
  proof (induction a merged spans rule: merge_extents.induct)
    case (3 a l merged span spans)
    let ?l = "ByteExtent (be_start l) (max (be_end l) (be_end span))"
    show ?case
    proof (cases "be_start span \<le> reach a l")
      case True
      from "3.prems"(1)[unfolded merge_step if_P[OF True]]
      have "\<exists>e\<in>set (?l # merged) \<union> set spans. be_start e \<le> x \<and> x < be_end e + a"
        by (rule "3.IH"(1)[folded reach_def, OF True _ "3.prems"(2)])
      then obtain e where e: "e \<in> set (?l # merged) \<union> set spans" "be_start e \<le> x" "x < be_end e + a" by blast
      show ?thesis
      proof (cases "e = ?l")
        case el: True
        show ?thesis
        proof (cases "x < be_end l + a")
          case True
          then show ?thesis using e(2) el by (intro bexI[of _ l]) auto
        next
          case False
          then show ?thesis using e(3) el True reach_bounds[OF "3.prems"(2), of l] by (intro bexI[of _ span]) auto
        qed
      qed (use e in auto)
    next
      case False
      from "3.prems"(1)[unfolded merge_step if_not_P[OF False]]
      have "\<exists>e\<in>set (span # l # merged) \<union> set spans. be_start e \<le> x \<and> x < be_end e + a"
        by (rule "3.IH"(2)[folded reach_def, OF False _ "3.prems"(2)])
      then show ?thesis by auto
    qed
  qed auto
  with assms show ?thesis by (meson trans_less_add1)
qed

lemma spaced_rev_nth:
  assumes "spaced a (rev es)" "Suc i < length es"
  shows "reach a (es ! i) < be_start (es ! Suc i)"
proof -
  have gen: "spaced a fs \<Longrightarrow> Suc j < length fs \<Longrightarrow> reach a (fs ! Suc j) < be_start (fs ! j)" for fs j
    by (induction a fs arbitrary: j rule: spaced.induct) (auto simp: nth_Cons split: nat.splits)
  let ?j = "length es - Suc (Suc i)"
  have "reach a (rev es ! Suc ?j) < be_start (rev es ! ?j)" by (rule gen[OF assms(1)]) (use assms(2) in simp)
  then show ?thesis using assms(2) by (simp add: rev_nth Suc_diff_Suc)
qed

subsection \<open>A writer, and reading back what it wrote\<close>

fun le_bytes :: "nat \<Rightarrow> nat \<Rightarrow> string" where
  "le_bytes 0 n = []"
| "le_bytes (Suc k) n = char_of (n mod 256) # le_bytes k (n div 256)"

lemma le_bytes_length [simp]: "length (le_bytes k n) = k"
  by (induction k arbitrary: n) auto

lemma le_bytes_numeral: "le_bytes (numeral k) n = char_of (n mod 256) # le_bytes (pred_numeral k) (n div 256)"
  by (simp only: numeral_eq_Suc[of k] le_bytes.simps)

lemma le_nat_simps [simp]: "le_nat [] = 0" "le_nat (b # bs) = of_char b + 256 * le_nat bs"
  by (simp_all add: le_nat_def)

lemma le_nat_le_bytes: "n < 256 ^ k \<Longrightarrow> le_nat (le_bytes k n) = n"
proof (induction k arbitrary: n)
  case (Suc k)
  then have "n div 256 < 256 ^ k" by (simp add: less_mult_imp_div_less mult.commute)
  with Suc.IH show ?case by simp
qed simp

datatype gguf_value = GFixed value_type string | GString string | GArray value_type "gguf_value list"

definition code_of :: "value_type \<Rightarrow> nat" where
  "code_of t = the (find (\<lambda>i. value_types ! i = t) [0..<13])"

fun type_of_value :: "gguf_value \<Rightarrow> value_type" where
  "type_of_value (GFixed t bs) = t"
| "type_of_value (GString s) = VString"
| "type_of_value (GArray t vs) = VArray"

definition encode_string :: "string \<Rightarrow> string" where
  "encode_string s = le_bytes 8 (length s) @ s"

fun encode_value :: "gguf_value \<Rightarrow> string" where
  "encode_value (GFixed t bs) = bs"
| "encode_value (GString s) = encode_string s"
| "encode_value (GArray t vs) = le_bytes 4 (code_of t) @ le_bytes 8 (length vs) @ concat (map encode_value vs)"

fun writable :: "gguf_value \<Rightarrow> bool" where
  "writable (GFixed t bs) \<longleftrightarrow> fixed_width t = Some (length bs)"
| "writable (GString s) \<longleftrightarrow> length s \<le> MAX_STRING_LEN"
| "writable (GArray t vs) \<longleftrightarrow> (\<forall>v\<in>set vs. writable v \<and> type_of_value v = t) \<and> length vs \<le> u64_max"

definition rdr :: "string \<Rightarrow> string \<Rightarrow> reader" where
  "rdr pre post = \<lparr> rd_bytes = pre @ post, rd_at = length pre \<rparr>"

lemma rtake_rdr: "length (pre @ xs @ post) \<le> u64_max \<Longrightarrow> rtake (length xs) (rdr pre (xs @ post)) = Some (xs, rdr (pre @ xs) post)"
  by (simp add: rtake_def rdr_def)

lemma ru32_rdr: "length (pre @ post) + 4 \<le> u64_max \<Longrightarrow> n \<le> u32_max \<Longrightarrow>
    ru32 (rdr pre (le_bytes 4 n @ post)) = Some (n, rdr (pre @ le_bytes 4 n) post)"
  using rtake_rdr[of pre "le_bytes 4 n" post] le_nat_le_bytes[of n 4] by (simp add: ru32_def u32_max_def)

lemma ru64_rdr: "length (pre @ post) + 8 \<le> u64_max \<Longrightarrow> n \<le> u64_max \<Longrightarrow>
    ru64 (rdr pre (le_bytes 8 n @ post)) = Some (n, rdr (pre @ le_bytes 8 n) post)"
  using rtake_rdr[of pre "le_bytes 8 n" post] le_nat_le_bytes[of n 8] by (simp add: ru64_def u64_max_def)

lemma rstring_rdr: "length (pre @ encode_string s @ post) \<le> u64_max \<Longrightarrow> length s \<le> MAX_STRING_LEN \<Longrightarrow>
    rstring (rdr pre (encode_string s @ post)) = Some (s, rdr (pre @ encode_string s) post)"
  using ru64_rdr[of pre "s @ post" "length s"] rtake_rdr[of "pre @ le_bytes 8 (length s)" s post]
  by (simp add: rstring_def encode_string_def MAX_STRING_LEN_def u64_max_def)

lemma code_of_small: "code_of t \<le> u32_max" "from_code (code_of t) = Inr t"
proof -
  have "code_of t < 13 \<and> value_types ! code_of t = t"
    by (cases t) (simp_all add: code_of_def value_types_def upt_rec)
  then show "code_of t \<le> u32_max" "from_code (code_of t) = Inr t" by (simp_all add: from_code_def u32_max_def)
qed

lemma repeat_skip_rdr:
  assumes "\<And>v pre post. v \<in> set vs \<Longrightarrow> length (pre @ encode_value v @ post) \<le> u64_max \<Longrightarrow>
      f (rdr pre (encode_value v @ post)) = Some (rdr (pre @ encode_value v) post)"
    and "length (pre @ concat (map encode_value vs) @ post) \<le> u64_max"
  shows "repeat_skip (length vs) f (rdr pre (concat (map encode_value vs) @ post)) =
    Some (rdr (pre @ concat (map encode_value vs)) post)"
  using assms
proof (induction vs arbitrary: pre)
  case (Cons v vs)
  have "f (rdr pre (encode_value v @ concat (map encode_value vs) @ post)) =
      Some (rdr (pre @ encode_value v) (concat (map encode_value vs) @ post))"
    by (rule Cons.prems(1)) (use Cons.prems(2) in auto)
  moreover have "repeat_skip (length vs) f (rdr (pre @ encode_value v) (concat (map encode_value vs) @ post)) =
      Some (rdr ((pre @ encode_value v) @ concat (map encode_value vs)) post)"
    by (rule Cons.IH) (use Cons.prems in auto)
  ultimately show ?case by simp
qed simp

lemma fixed_array_length:
  assumes "\<forall>v\<in>set vs. writable v \<and> type_of_value v = t" "fixed_width t = Some w"
  shows "length (concat (map encode_value vs)) = length vs * w"
  using assms
proof (induction vs)
  case (Cons v vs)
  then have "length (encode_value v) = w" by (cases v) auto
  with Cons show ?case by simp
qed simp

lemma skip_value_rdr:
  assumes "writable v" "length (pre @ encode_value v @ post) \<le> u64_max"
  shows "skip_value (rdr pre (encode_value v @ post)) (type_of_value v) = Some (rdr (pre @ encode_value v) post)"
  using assms
proof (induction v arbitrary: pre post)
  case (GFixed t bs)
  then have "rskip (length bs) (rdr pre (bs @ post)) = Some (rdr (pre @ bs) post)"
    using rtake_rdr[of pre bs post] by (simp add: rskip_def)
  with GFixed.prems(1) show ?case by (cases t) (simp_all add: skip_value_def)
next
  case (GString s)
  then show ?case using rstring_rdr[of pre s post] by (simp add: skip_value_def)
next
  case (GArray t vs)
  let ?body = "concat (map encode_value vs)"
  have r1: "ru32 (rdr pre (le_bytes 4 (code_of t) @ le_bytes 8 (length vs) @ ?body @ post)) =
      Some (code_of t, rdr (pre @ le_bytes 4 (code_of t)) (le_bytes 8 (length vs) @ ?body @ post))"
    by (rule ru32_rdr) (use GArray.prems in \<open>auto simp: code_of_small\<close>)
  have r2: "ru64 (rdr (pre @ le_bytes 4 (code_of t)) (le_bytes 8 (length vs) @ ?body @ post)) =
      Some (length vs, rdr ((pre @ le_bytes 4 (code_of t)) @ le_bytes 8 (length vs)) (?body @ post))"
    by (rule ru64_rdr) (use GArray.prems in auto)
  let ?pre = "pre @ le_bytes 4 (code_of t) @ le_bytes 8 (length vs)"
  show ?case
  proof (cases "fixed_width t")
    case None
    have "repeat_skip (length vs) (\<lambda>r. skip_value r t) (rdr ?pre (?body @ post)) = Some (rdr (?pre @ ?body) post)"
    proof (rule repeat_skip_rdr)
      fix v pre post
      assume v: "v \<in> set vs" "length (pre @ encode_value v @ post) \<le> u64_max"
      with GArray.IH[of v pre post] GArray.prems(1)
      show "skip_value (rdr pre (encode_value v @ post)) t = Some (rdr (pre @ encode_value v) post)" by auto
    qed (use GArray.prems in auto)
    then show ?thesis using r1 r2 None by (simp add: skip_value_array code_of_small)
  next
    case (Some w)
    have len: "length ?body = length vs * w" using fixed_array_length[OF _ Some, of vs] GArray.prems(1) by auto
    then have "sat_mul64 (length vs) w = length ?body" using GArray.prems(2) by (auto simp: sat_mul64_def)
    moreover have "rskip (length ?body) (rdr ?pre (?body @ post)) = Some (rdr (?pre @ ?body) post)"
      using rtake_rdr[of ?pre ?body post] GArray.prems(2) by (simp add: rskip_def)
    ultimately show ?thesis using r1 r2 Some by (simp add: skip_value_array code_of_small)
  qed
qed

definition encode_pair :: "string \<times> gguf_value \<Rightarrow> string" where
  "encode_pair kv = encode_string (fst kv) @ le_bytes 4 (code_of (type_of_value (snd kv))) @ encode_value (snd kv)"

definition encode_tensor :: "tensor_info \<Rightarrow> string" where
  "encode_tensor t =
     encode_string (ti_name t) @ le_bytes 4 (length (ti_dimensions t)) @ concat (map (le_bytes 8) (ti_dimensions t)) @
     le_bytes 4 (ti_kind t) @ le_bytes 8 (ti_offset t)"

definition encode_header :: "nat \<Rightarrow> (string \<times> gguf_value) list \<Rightarrow> tensor_info list \<Rightarrow> string" where
  "encode_header version kvs ts =
     MAGIC @ le_bytes 4 version @ le_bytes 8 (length ts) @ le_bytes 8 (length kvs) @
     concat (map encode_pair kvs) @ concat (map encode_tensor ts)"

text \<open>The alignment the pairs declare, the last one that does winning.\<close>

fun declared_alignment :: "nat \<Rightarrow> (string \<times> gguf_value) list \<Rightarrow> nat" where
  "declared_alignment al [] = al"
| "declared_alignment al ((k, GFixed VU32 bs) # kvs) =
     declared_alignment (if k = ALIGNMENT_KEY then le_nat bs else al) kvs"
| "declared_alignment al (_ # kvs) = declared_alignment al kvs"

definition pair_ok :: "string \<times> gguf_value \<Rightarrow> bool" where
  "pair_ok kv \<longleftrightarrow> length (fst kv) \<le> MAX_STRING_LEN \<and> writable (snd kv) \<and>
     (fst kv = ALIGNMENT_KEY \<longrightarrow> (\<forall>bs. snd kv = GFixed VU32 bs \<longrightarrow> is_power_of_two (le_nat bs)))"

definition tensor_ok :: "tensor_info \<Rightarrow> bool" where
  "tensor_ok t \<longleftrightarrow> length (ti_name t) \<le> MAX_STRING_LEN \<and> from_utf8_lossy (ti_name t) = ti_name t \<and>
     length (ti_dimensions t) \<le> MAX_DIMENSIONS \<and> (\<forall>x\<in>set (ti_dimensions t). x \<le> u64_max) \<and>
     ti_kind t \<le> u32_max \<and> ti_offset t \<le> u64_max"

lemma directory_walk_rdr:
  assumes "\<forall>kv\<in>set kvs. pair_ok kv" "length (pre @ concat (map encode_pair kvs) @ post) \<le> u64_max"
  shows "directory_walk (length kvs) al (rdr pre (concat (map encode_pair kvs) @ post)) =
    Inr (Some (declared_alignment al kvs, rdr (pre @ concat (map encode_pair kvs)) post))"
  using assms
proof (induction kvs arbitrary: al pre)
  case (Cons kv kvs)
  obtain k v where kv: "kv = (k, v)" by (cases kv)
  let ?rest = "concat (map encode_pair kvs) @ post"
  let ?p1 = "pre @ encode_string k" and ?p2 = "(pre @ encode_string k) @ le_bytes 4 (code_of (type_of_value v))"
  have ok: "length k \<le> MAX_STRING_LEN" "writable v"
    "k = ALIGNMENT_KEY \<Longrightarrow> v = GFixed VU32 bs \<Longrightarrow> is_power_of_two (le_nat bs)" for bs
    using Cons.prems(1) by (auto simp: pair_ok_def kv)
  have len: "length (?p2 @ encode_value v @ ?rest) \<le> u64_max" using Cons.prems(2) by (simp add: kv encode_pair_def[of "(k, v)"])
  have s1: "rstring (rdr pre (encode_string k @ le_bytes 4 (code_of (type_of_value v)) @ encode_value v @ ?rest)) =
      Some (k, rdr ?p1 (le_bytes 4 (code_of (type_of_value v)) @ encode_value v @ ?rest))"
    by (rule rstring_rdr) (use len ok in auto)
  have s2: "ru32 (rdr ?p1 (le_bytes 4 (code_of (type_of_value v)) @ encode_value v @ ?rest)) =
      Some (code_of (type_of_value v), rdr ?p2 (encode_value v @ ?rest))"
    by (rule ru32_rdr) (use len in \<open>auto simp: code_of_small\<close>)
  have ih: "directory_walk (length kvs) a (rdr (?p2 @ encode_value v) ?rest) =
      Inr (Some (declared_alignment a kvs, rdr ((?p2 @ encode_value v) @ concat (map encode_pair kvs)) post))" for a
    by (rule Cons.IH) (use Cons.prems(1) len in auto)
  have enc: "concat (map encode_pair (kv # kvs)) @ post =
      encode_string k @ le_bytes 4 (code_of (type_of_value v)) @ encode_value v @ ?rest"
    "pre @ concat (map encode_pair (kv # kvs)) = (?p2 @ encode_value v) @ concat (map encode_pair kvs)"
    by (simp_all add: kv encode_pair_def[of "(k, v)"])
  show ?case
  proof (cases "k = ALIGNMENT_KEY \<and> type_of_value v = VU32")
    case True
    then obtain bs where v: "v = GFixed VU32 bs" by (cases v) auto
    with ok True have bs: "length bs = 4" "is_power_of_two (le_nat bs)" by auto
    then have nz: "le_nat bs \<noteq> 0" using is_power_of_two_iff by force
    have "rtake (length bs) (rdr ?p2 (bs @ ?rest)) = Some (bs, rdr (?p2 @ bs) ?rest)"
      by (rule rtake_rdr) (use len v in simp)
    then have "ru32 (rdr ?p2 (encode_value v @ ?rest)) = Some (le_nat bs, rdr (?p2 @ encode_value v) ?rest)"
      using bs by (simp add: ru32_def v)
    then show ?thesis unfolding enc using s1 s2 ih[of "le_nat bs"] True bs nz
      by (simp add: code_of_small v kv)
  next
    case False
    have "skip_value (rdr ?p2 (encode_value v @ ?rest)) (type_of_value v) = Some (rdr (?p2 @ encode_value v) ?rest)"
      by (rule skip_value_rdr[OF ok(2) len])
    moreover have "declared_alignment al (kv # kvs) = declared_alignment al kvs"
    proof (cases v)
      case (GFixed t bs)
      with False show ?thesis by (cases t) (auto simp: kv)
    qed (simp_all add: kv)
    moreover have "\<not> (k = ALIGNMENT_KEY \<and> type_of_value v = VU32)" by (rule False)
    ultimately show ?thesis unfolding enc using s1 s2 ih[of al] by (auto simp: code_of_small)
  qed
qed simp

lemma read_dimensions_rdr:
  assumes "\<forall>x\<in>set xs. x \<le> u64_max" "length (pre @ concat (map (le_bytes 8) xs) @ post) \<le> u64_max"
  shows "read_dimensions (length xs) (rdr pre (concat (map (le_bytes 8) xs) @ post)) =
    Some (xs, rdr (pre @ concat (map (le_bytes 8) xs)) post)"
  using assms
proof (induction xs arbitrary: pre)
  case (Cons x xs)
  have "ru64 (rdr pre (le_bytes 8 x @ concat (map (le_bytes 8) xs) @ post)) =
      Some (x, rdr (pre @ le_bytes 8 x) (concat (map (le_bytes 8) xs) @ post))"
    by (rule ru64_rdr) (use Cons.prems in auto)
  moreover have "read_dimensions (length xs) (rdr (pre @ le_bytes 8 x) (concat (map (le_bytes 8) xs) @ post)) =
      Some (xs, rdr ((pre @ le_bytes 8 x) @ concat (map (le_bytes 8) xs)) post)"
    by (rule Cons.IH) (use Cons.prems in auto)
  ultimately show ?case by simp
qed simp

lemma tensor_walk_rdr:
  assumes "\<forall>t\<in>set ts. tensor_ok t" "length (pre @ concat (map encode_tensor ts) @ post) \<le> u64_max"
  shows "tensor_walk (length ts) (rdr pre (concat (map encode_tensor ts) @ post)) =
    Inr (Some (ts, rdr (pre @ concat (map encode_tensor ts)) post))"
  using assms
proof (induction ts arbitrary: pre)
  case (Cons t ts)
  let ?n = "encode_string (ti_name t)" and ?c = "le_bytes 4 (length (ti_dimensions t))"
    and ?d = "concat (map (le_bytes 8) (ti_dimensions t))" and ?k = "le_bytes 4 (ti_kind t)" and ?o = "le_bytes 8 (ti_offset t)"
    and ?rest = "concat (map encode_tensor ts) @ post"
  have ok: "length (ti_name t) \<le> MAX_STRING_LEN" "from_utf8_lossy (ti_name t) = ti_name t"
    "length (ti_dimensions t) \<le> MAX_DIMENSIONS" "\<forall>x\<in>set (ti_dimensions t). x \<le> u64_max"
    "ti_kind t \<le> u32_max" "ti_offset t \<le> u64_max" using Cons.prems(1) by (auto simp: tensor_ok_def)
  have len: "length (pre @ ?n @ ?c @ ?d @ ?k @ ?o @ ?rest) \<le> u64_max" using Cons.prems(2) by (simp add: encode_tensor_def[of t])
  have c: "length (ti_dimensions t) \<le> u32_max" using ok(3) by (simp add: MAX_DIMENSIONS_def u32_max_def)
  have s1: "rstring (rdr pre (?n @ ?c @ ?d @ ?k @ ?o @ ?rest)) = Some (ti_name t, rdr (pre @ ?n) (?c @ ?d @ ?k @ ?o @ ?rest))"
    by (rule rstring_rdr) (use len ok in auto)
  have s2: "ru32 (rdr (pre @ ?n) (?c @ ?d @ ?k @ ?o @ ?rest)) =
      Some (length (ti_dimensions t), rdr ((pre @ ?n) @ ?c) (?d @ ?k @ ?o @ ?rest))"
    by (rule ru32_rdr) (use len c in auto)
  have s3: "read_dimensions (length (ti_dimensions t)) (rdr ((pre @ ?n) @ ?c) (?d @ ?k @ ?o @ ?rest)) =
      Some (ti_dimensions t, rdr (((pre @ ?n) @ ?c) @ ?d) (?k @ ?o @ ?rest))"
    by (rule read_dimensions_rdr[OF ok(4)]) (use len in auto)
  have s4: "ru32 (rdr (((pre @ ?n) @ ?c) @ ?d) (?k @ ?o @ ?rest)) = Some (ti_kind t, rdr ((((pre @ ?n) @ ?c) @ ?d) @ ?k) (?o @ ?rest))"
    by (rule ru32_rdr) (use len ok in auto)
  have s5: "ru64 (rdr ((((pre @ ?n) @ ?c) @ ?d) @ ?k) (?o @ ?rest)) = Some (ti_offset t, rdr (((((pre @ ?n) @ ?c) @ ?d) @ ?k) @ ?o) ?rest)"
    by (rule ru64_rdr) (use len ok in auto)
  have ih: "tensor_walk (length ts) (rdr (((((pre @ ?n) @ ?c) @ ?d) @ ?k) @ ?o) ?rest) =
      Inr (Some (ts, rdr ((((((pre @ ?n) @ ?c) @ ?d) @ ?k) @ ?o) @ concat (map encode_tensor ts)) post))"
    by (rule Cons.IH) (use Cons.prems(1) len in auto)
  have enc: "concat (map encode_tensor (t # ts)) @ post = ?n @ ?c @ ?d @ ?k @ ?o @ ?rest" by (simp add: encode_tensor_def[of t])
  show ?case unfolding enc
    using s1 s2 s3 s4 s5 ih ok(2,3) by (simp add: not_less encode_tensor_def[of t])
qed simp

section \<open>Properties\<close>

text \<open>C26.  Reading back a header: whatever version, metadata (strings, numbers, arrays nested to any depth) and tensors a
  writer puts down, the reader returns exactly those tensors, the alignment declared last, and a data section that
  starts at the first aligned byte after the header, however much data follows.\<close>

theorem directory_roundtrip:
  assumes "supported_version v" "\<forall>kv\<in>set kvs. pair_ok kv" "\<forall>t\<in>set ts. tensor_ok t"
    and "length kvs \<le> MAX_KV_PAIRS" "length ts \<le> MAX_TENSORS"
    and "length (encode_header v kvs ts @ data) \<le> u64_max"
    and "al = declared_alignment DEFAULT_ALIGNMENT kvs" "align_up (length (encode_header v kvs ts)) al = Some start"
  shows "tensor_directory (encode_header v kvs ts @ data) =
    Inr (Some \<lparr> td_alignment = al, td_data_start = start, td_tensors = ts \<rparr>)"
proof -
  let ?kvs = "concat (map encode_pair kvs)" and ?ts = "concat (map encode_tensor ts)"
  let ?p0 = "MAGIC" and ?v = "le_bytes 4 v" and ?t = "le_bytes 8 (length ts)" and ?k = "le_bytes 8 (length kvs)"
  have enc: "encode_header v kvs ts @ data = ?p0 @ ?v @ ?t @ ?k @ ?kvs @ ?ts @ data" by (simp add: encode_header_def)
  have len: "length (?p0 @ ?v @ ?t @ ?k @ ?kvs @ ?ts @ data) \<le> u64_max" using assms(6) by (simp only: enc)
  have m4: "length MAGIC = 4" by (simp add: MAGIC_def)
  have v: "v \<le> u32_max" using assms(1) by (simp add: supported_version_def u32_max_def)
  have small: "length ts \<le> u64_max" "length kvs \<le> u64_max"
    using assms(4,5) by (simp_all add: MAX_KV_PAIRS_def MAX_TENSORS_def u64_max_def)
  have s0: "rtake 4 (new_reader (?p0 @ ?v @ ?t @ ?k @ ?kvs @ ?ts @ data)) = Some (MAGIC, rdr ?p0 (?v @ ?t @ ?k @ ?kvs @ ?ts @ data))"
    using rtake_rdr[of "[]" MAGIC "?v @ ?t @ ?k @ ?kvs @ ?ts @ data"] len m4 by (simp add: rdr_def new_reader_def)
  have s1: "ru32 (rdr ?p0 (?v @ ?t @ ?k @ ?kvs @ ?ts @ data)) = Some (v, rdr (?p0 @ ?v) (?t @ ?k @ ?kvs @ ?ts @ data))"
    by (rule ru32_rdr) (use len v in auto)
  have s2: "ru64 (rdr (?p0 @ ?v) (?t @ ?k @ ?kvs @ ?ts @ data)) = Some (length ts, rdr ((?p0 @ ?v) @ ?t) (?k @ ?kvs @ ?ts @ data))"
    by (rule ru64_rdr) (use len small in auto)
  have s3: "ru64 (rdr ((?p0 @ ?v) @ ?t) (?k @ ?kvs @ ?ts @ data)) = Some (length kvs, rdr (((?p0 @ ?v) @ ?t) @ ?k) (?kvs @ ?ts @ data))"
    by (rule ru64_rdr) (use len small in auto)
  have s4: "directory_walk (length kvs) DEFAULT_ALIGNMENT (rdr (((?p0 @ ?v) @ ?t) @ ?k) (?kvs @ ?ts @ data)) =
      Inr (Some (al, rdr ((((?p0 @ ?v) @ ?t) @ ?k) @ ?kvs) (?ts @ data)))"
    unfolding assms(7) by (rule directory_walk_rdr[OF assms(2)]) (use len in auto)
  have s5: "tensor_walk (length ts) (rdr ((((?p0 @ ?v) @ ?t) @ ?k) @ ?kvs) (?ts @ data)) =
      Inr (Some (ts, rdr (((((?p0 @ ?v) @ ?t) @ ?k) @ ?kvs) @ ?ts) data))"
    by (rule tensor_walk_rdr[OF assms(3)]) (use len in auto)
  have "rd_at (rdr (((((?p0 @ ?v) @ ?t) @ ?k) @ ?kvs) @ ?ts) data) = length (encode_header v kvs ts)"
    by (simp add: rdr_def encode_header_def)
  with s0 s1 s2 s3 s4 s5 assms(1,4,5,8) show ?thesis
    unfolding enc tensor_directory_def check_magic_def by (simp add: not_less)
qed

definition demo_tensor :: tensor_info where
  "demo_tensor = \<lparr> ti_name = ''blk.0.w'', ti_dimensions = [4, 2], ti_kind = 0, ti_offset = 0 \<rparr>"

definition demo_pairs :: "(string \<times> gguf_value) list" where
  "demo_pairs = [(''a'', GArray VArray [GArray VString [GString ''x''], GArray VU8 [GFixed VU8 ''q'']]),
     (ALIGNMENT_KEY, GFixed VU32 (le_bytes 4 64)), (''n'', GString ''llama'')]"

lemma demo_pairs_ok: "\<forall>kv\<in>set demo_pairs. pair_ok kv" "tensor_ok demo_tensor"
proof -
  have "is_power_of_two 64" unfolding is_power_of_two_iff by (rule exI[of _ 6]) simp
  then show "\<forall>kv\<in>set demo_pairs. pair_ok kv"
    using le_nat_le_bytes[of 64 4]
    by (auto simp: demo_pairs_def pair_ok_def MAX_STRING_LEN_def ALIGNMENT_KEY_def u64_max_def simp del: le_bytes.simps le_nat_simps)
  show "tensor_ok demo_tensor"
    by (simp add: demo_tensor_def tensor_ok_def MAX_STRING_LEN_def MAX_DIMENSIONS_def u64_max_def u32_max_def utf8_step_def)
qed

theorem directory_roundtrip_witness:
  "tensor_directory (encode_header 3 demo_pairs [demo_tensor] @ ''data'') =
    Inr (Some \<lparr> td_alignment = 64, td_data_start = 192, td_tensors = [demo_tensor] \<rparr>)"
proof -
  have al: "declared_alignment DEFAULT_ALIGNMENT demo_pairs = 64"
    using le_nat_le_bytes[of 64 4]
    by (simp add: demo_pairs_def del: le_bytes.simps le_nat_simps)
  have len: "length (encode_header 3 demo_pairs [demo_tensor]) = 189"
    by (simp add: encode_header_def MAGIC_def demo_pairs_def encode_pair_def encode_string_def encode_tensor_def
        demo_tensor_def ALIGNMENT_KEY_def del: le_bytes.simps)
  show ?thesis
    by (rule directory_roundtrip)
       (use demo_pairs_ok in \<open>simp_all add: al len supported_version_def MAX_KV_PAIRS_def MAX_TENSORS_def u64_max_def
          align_up_def checked_add64_def del: le_bytes.simps\<close>, simp add: demo_pairs_def)
qed

text \<open>A header cut short is absent, never wrong: once eight bytes are there, what the reader answers about the start
  of a file is either nothing yet or exactly what it answers about the whole file, errors included.  The same holds of
  a string in the metadata.\<close>

theorem directory_of_prefix:
  assumes "8 \<le> length bytes"
  shows "(tensor_directory bytes = Inr None \<or> tensor_directory (bytes @ rest) = tensor_directory bytes) \<and>
    (metadata_string bytes key = Inr None \<or> metadata_string (bytes @ rest) key = metadata_string bytes key)"
  using directory_ext[OF assms] string_header_ext[OF assms] by blast

theorem directory_of_prefix_witness:
  "tensor_directory (MAGIC @ le_bytes 4 9) = Inl (UnsupportedVersion 9) \<and>
   tensor_directory ((MAGIC @ le_bytes 4 9) @ ''rest'') = Inl (UnsupportedVersion 9)"
proof -
  have "tensor_directory (MAGIC @ le_bytes 4 9) = Inl (UnsupportedVersion 9)"
    using le_nat_le_bytes[of 9 4]
    by (simp add: tensor_directory_def check_magic_def rtake_def new_reader_def MAGIC_def ru32_def u64_max_def
        supported_version_def)
  with directory_of_prefix[of "MAGIC @ le_bytes 4 9" "''rest''"] show ?thesis by (simp add: MAGIC_def)
qed

definition cut_number :: string where
  "cut_number = MAGIC @ le_bytes 4 3 @ le_bytes 8 0 @ le_bytes 8 1 @ encode_string ''n'' @ le_bytes 4 4"

text \<open>A number in the metadata does not behave so: a header that ends inside the number asked for is reported as
  malformed, although the rest of the file would have answered the question.\<close>

theorem truncated_number_is_error:
  "metadata_u64 (cut_number @ le_bytes 2 7) ''n'' = Inl NotANumber \<and>
   metadata_u64 ((cut_number @ le_bytes 2 7) @ le_bytes 2 0) ''n'' = Inr (Some 7)"
  by (simp add: cut_number_def encode_string_def MAGIC_def metadata_u64_def find_scalar_def check_magic_def rtake_def
      new_reader_def ru32_def ru64_def rstring_def u64_max_def supported_version_def MAX_KV_PAIRS_def MAX_STRING_LEN_def
      read_scalar_def from_code_def value_types_def le_bytes_numeral)

definition tensor_bytes :: "tensor_dir \<Rightarrow> tensor_info \<Rightarrow> nat set" where
  "tensor_bytes d t =
     (case data_len t of None \<Rightarrow> {}
      | Some n \<Rightarrow> {td_data_start d + ti_offset t ..< td_data_start d + ti_offset t + n})"

definition known_span :: "tensor_dir \<Rightarrow> tensor_info \<Rightarrow> byte_extent list" where
  "known_span d t = (case data_len t of None \<Rightarrow> []
     | Some n \<Rightarrow> [ByteExtent (td_data_start d + ti_offset t) (td_data_start d + ti_offset t + n)])"

lemma tensor_span_ok:
  assumes "tensor_span d file_len t = Inr e"
  shows "(case e of Some x \<Rightarrow> spans @ [x] | None \<Rightarrow> spans) = spans @ known_span d t" "tensor_bytes d t \<subseteq> {..< file_len}"
  using assms
  by (auto simp: tensor_span_def known_span_def tensor_bytes_def checked_add64_def split: option.splits if_splits)

lemma validate_spans:
  assumes "fold_result (\<lambda>t spans. qbind (tensor_span d file_len t) (\<lambda>e.
        Inr (case e of Some x \<Rightarrow> spans @ [x] | None \<Rightarrow> spans))) ts acc = Inr spans"
  shows "spans = acc @ concat (map (known_span d) ts) \<and> (\<forall>t\<in>set ts. tensor_bytes d t \<subseteq> {..< file_len})"
  using assms
proof (induction ts arbitrary: acc)
  case (Cons t ts)
  from Cons.prems obtain e where e: "tensor_span d file_len t = Inr e" by auto
  note ok = tensor_span_ok[OF e]
  have "fold_result (\<lambda>t spans. qbind (tensor_span d file_len t) (\<lambda>e.
        Inr (case e of Some x \<Rightarrow> spans @ [x] | None \<Rightarrow> spans))) ts (acc @ known_span d t) = Inr spans"
    using Cons.prems e ok(1)[of acc] by simp
  from Cons.IH[OF this] ok(2) show ?case by auto
qed simp

text \<open>C27.  A validated directory is safe to slice: every tensor of a known type lies inside the file, and no byte belongs
  to two of them.\<close>

theorem validate_sound:
  assumes "validate d file_len = Inr ()" "i < j" "j < length (td_tensors d)"
  shows "tensor_bytes d (td_tensors d ! i) \<subseteq> {..< file_len} \<and> tensor_bytes d (td_tensors d ! j) \<subseteq> {..< file_len} \<and>
    tensor_bytes d (td_tensors d ! i) \<inter> tensor_bytes d (td_tensors d ! j) = {}"
proof -
  let ?ts = "td_tensors d" and ?spans = "concat (map (known_span d) (td_tensors d))"
  have inside: "\<forall>t\<in>set ?ts. tensor_bytes d t \<subseteq> {..< file_len}" and no: "no_overlap (sort ?spans)"
    using assms(1) validate_spans[of d file_len ?ts "[]"] by (auto simp: validate_def split: if_splits)
  have "\<forall>e\<in>set (sort ?spans). be_start e \<le> be_end e" by (auto simp: known_span_def split: option.splits)
  from no_overlap_once[OF no this] have once: "length (filter (\<lambda>e. x \<in> bytes_of e) ?spans) \<le> 1" for x
    by (simp add: filter_sort)
  have in_span: "x \<in> tensor_bytes d t \<Longrightarrow> \<exists>e\<in>set (known_span d t). x \<in> bytes_of e" for x t
    by (auto simp: tensor_bytes_def known_span_def bytes_of_def split: option.splits)
  have "tensor_bytes d (?ts ! i) \<inter> tensor_bytes d (?ts ! j) = {}"
  proof (rule ccontr)
    assume "tensor_bytes d (?ts ! i) \<inter> tensor_bytes d (?ts ! j) \<noteq> {}"
    then obtain x where "x \<in> tensor_bytes d (?ts ! i)" "x \<in> tensor_bytes d (?ts ! j)" by blast
    from filter_concat_twice[OF assms(2,3) in_span[OF this(1)] in_span[OF this(2)]] once[of x] show False by simp
  qed
  with inside assms(2,3) show ?thesis by simp
qed

definition demo_directory :: tensor_dir where
  "demo_directory = \<lparr> td_alignment = 32, td_data_start = 64,
     td_tensors = [demo_tensor\<lparr> ti_name := ''blk.1.w'', ti_offset := 32 \<rparr>, demo_tensor,
       demo_tensor\<lparr> ti_name := ''output'', ti_offset := 64 \<rparr>] \<rparr>"

lemma demo_data_len: "data_len (demo_tensor\<lparr> ti_name := s, ti_offset := n \<rparr>) = Some 32" "data_len demo_tensor = Some 32"
  by (simp_all add: data_len_def block_layout_of_def block_layouts_def demo_tensor_def element_count_def checked_mul64_def
      u64_max_def div_ceil_def)

lemma demo_directory_valid: "validate demo_directory 160 = Inr ()"
  by (simp add: validate_def demo_directory_def tensor_span_def checked_add64_def demo_data_len u64_max_def)
     (simp add: demo_tensor_def insort_key.simps less_eq_byte_extent_def)

theorem validate_sound_witness:
  "tensor_bytes demo_directory (td_tensors demo_directory ! 0) \<inter> tensor_bytes demo_directory (td_tensors demo_directory ! 1) = {} \<and>
   tensor_bytes demo_directory (td_tensors demo_directory ! 1) = {64 ..< 96}"
  using validate_sound[OF demo_directory_valid, of 0 1]
  by (simp add: demo_directory_def tensor_bytes_def demo_data_len) (simp add: demo_tensor_def)

text \<open>What a stage fetches: the merged extents lie in the file, leave more than the alignment padding between
  them, hold every byte of every tensor asked for, and hold nothing else but padding, less than one alignment after
  the end of such a tensor.\<close>

theorem extents_exact:
  assumes "0 < td_alignment d" and "es = extents_of d ts file_len"
  shows "(\<forall>t\<in>set ts. bytes_of (extent_of d t file_len) \<subseteq> (\<Union>e\<in>set es. bytes_of e)) \<and>
    (\<forall>e\<in>set es. \<forall>x\<in>bytes_of e. \<exists>t\<in>set ts. be_start (extent_of d t file_len) \<le> x \<and>
       x < be_end (extent_of d t file_len) + td_alignment d) \<and>
    (\<forall>i. Suc i < length es \<longrightarrow> be_end (es ! i) < be_start (es ! Suc i))"
proof -
  let ?x = "\<lambda>t. extent_of d t file_len" and ?a = "td_alignment d"
  define spans where "spans = sort (filter (\<lambda>e. \<not> be_is_empty e) (map ?x ts))"
  have es: "es = merge_extents ?a [] spans" by (simp add: assms(2) extents_of_def spans_def)
  have "sorted spans" by (simp add: spans_def)
  then have "sorted_wrt (\<lambda>a b. be_start a \<le> be_start b) spans"
    by (rule sorted_wrt_mono_rel[rotated]) (auto simp: less_eq_byte_extent_def)
  then have srt: "sorted (map be_start spans)" by (simp add: sorted_wrt_map)
  have mem: "e \<in> set spans \<longleftrightarrow> be_start e < be_end e \<and> (\<exists>t\<in>set ts. e = ?x t)" for e
    by (auto simp: spans_def be_is_empty_def)
  have cov: "bytes_of (?x t) \<subseteq> (\<Union>e\<in>set es. bytes_of e)" if "t \<in> set ts" for t
  proof (cases "?x t \<in> set spans")
    case True
    have "\<exists>f\<in>set (merge_extents ?a [] spans). be_start f \<le> be_start (?x t) \<and> be_end (?x t) \<le> be_end f"
      by (rule merge_extents_covers) (use True srt in auto)
    then show ?thesis by (fastforce simp: es bytes_of_def)
  next
    case False
    with that have "bytes_of (?x t) = {}" by (auto simp: mem bytes_of_def)
    then show ?thesis by simp
  qed
  have pad: "\<exists>t\<in>set ts. be_start (?x t) \<le> x \<and> x < be_end (?x t) + ?a" if "e \<in> set es" "x \<in> bytes_of e" for e x
    using merge_extents_padding[OF assms(1), of e "[]" spans x] that by (auto simp: es bytes_of_def mem)
  have "spaced ?a (rev es)" unfolding es by (rule merge_extents_spaced) (use srt in auto)
  then have gap: "be_end (es ! i) < be_start (es ! Suc i)" if "Suc i < length es" for i
    using spaced_rev_nth[OF _ that] reach_bounds[OF assms(1), of "es ! i"] by (meson le_less_trans)
  from cov pad gap show ?thesis by blast
qed

theorem extents_exact_witness:
  "bytes_of (extent_of demo_directory demo_tensor 160) \<subseteq> (\<Union>e\<in>set (extents_of demo_directory [demo_tensor] 160). bytes_of e)"
  using extents_exact[of demo_directory _ "[demo_tensor]" 160] by (simp add: demo_directory_def)

lemma layer_index_small: "layer_index t = Some i \<Longrightarrow> i \<le> u32_max"
  by (auto simp: layer_index_def parse_u32_def Let_def split: if_splits)

text \<open>Cutting the blocks of a model into consecutive layer ranges loses nothing: every tensor is shared or in
  exactly one range, as long as no tensor names the largest block index.\<close>

theorem layers_partition:
  assumes "\<forall>t\<in>set (td_tensors d). layer_index t \<noteq> Some u32_max" "k \<le> layer_count d"
  shows "mset (td_tensors d) =
    mset (shared_tensors d) + mset (tensors_for_layers d 0 k) + mset (tensors_for_layers d k (layer_count d))"
proof -
  have below: "i < layer_count d" if t: "t \<in> set (td_tensors d)" "layer_index t = Some i" for t i
  proof -
    let ?is = "List.map_filter layer_index (td_tensors d)"
    note mem = in_map_filter[of _ layer_index "td_tensors d"]
    have i: "i \<in> set ?is" using t mem by auto
    then have ne: "?is \<noteq> []" by auto
    have "Max (set ?is) \<in> set ?is" by (rule Max_in) (use ne in auto)
    then obtain u where u: "u \<in> set (td_tensors d)" "layer_index u = Some (Max (set ?is))" using mem by auto
    have "Max (set ?is) \<le> u32_max" by (rule layer_index_small[OF u(2)])
    moreover have "Max (set ?is) \<noteq> u32_max" using assms(1) u by auto
    ultimately have "Max (set ?is) + 1 \<le> u32_max" by linarith
    then have "layer_count d = Max (set ?is) + 1" using ne by (simp only: layer_count_def Let_def if_False as_u32_id)
    with i show ?thesis by (simp add: less_Suc_eq_le)
  qed
  let ?none = "\<lambda>t. layer_index t = None" and ?lo = "\<lambda>t. case layer_index t of Some i \<Rightarrow> 0 \<le> i \<and> i < k | None \<Rightarrow> False"
    and ?hi = "\<lambda>t. case layer_index t of Some i \<Rightarrow> k \<le> i \<and> i < layer_count d | None \<Rightarrow> False"
  have "mset ts = mset (filter ?none ts) + mset (filter ?lo ts) + mset (filter ?hi ts)" if "set ts \<subseteq> set (td_tensors d)" for ts
    using that
  proof (induction ts)
    case (Cons t ts)
    then show ?case using below[of t] assms(2) by (cases "layer_index t") auto
  qed simp
  then show ?thesis by (simp add: shared_tensors_def tensors_for_layers_def)
qed

lemma demo_layers: "layer_index (demo_tensor\<lparr> ti_name := ''blk.1.w'', ti_offset := n \<rparr>) = Some 1"
  "layer_index demo_tensor = Some 0" "layer_index (demo_tensor\<lparr> ti_name := ''output'', ti_offset := n \<rparr>) = None"
  by (simp_all add: layer_index_def demo_tensor_def parse_u32_def is_digit_def read_nat_def u32_max_def)

theorem layers_partition_witness:
  "mset (td_tensors demo_directory) =
    mset (shared_tensors demo_directory) + mset (tensors_for_layers demo_directory 0 1) +
    mset (tensors_for_layers demo_directory 1 2)"
proof -
  have two: "layer_count demo_directory = 2"
    by (simp add: layer_count_def demo_directory_def List.map_filter_def demo_layers as_u32_def)
  show ?thesis using layers_partition[of demo_directory 1] by (simp add: two) (simp add: demo_directory_def demo_layers u32_max_def)
qed

text \<open>A file that names the largest block index, 4294967295, has no layers at all: the count wraps to zero.\<close>

theorem layer_count_wraps:
  assumes "t \<in> set (td_tensors d)" "layer_index t = Some u32_max"
  shows "layer_count d = 0"
proof -
  let ?is = "List.map_filter layer_index (td_tensors d)"
  note mem = in_map_filter[of _ layer_index "td_tensors d"]
  have "Max (set ?is) = u32_max" by (rule Max_eqI) (use assms mem layer_index_small in auto)
  moreover have "?is \<noteq> []" using assms mem by fastforce
  ultimately show ?thesis by (simp add: layer_count_def Let_def as_u32_def u32_max_def)
qed

theorem layer_count_wraps_witness:
  "layer_count (demo_directory\<lparr> td_tensors := [demo_tensor\<lparr> ti_name := ''blk.4294967295.w'' \<rparr>] \<rparr>) = 0"
  by (rule layer_count_wraps[where t = "demo_tensor\<lparr> ti_name := ''blk.4294967295.w'' \<rparr>"])
     (simp_all add: layer_index_def parse_u32_def is_digit_def read_nat_def u32_max_def)

lemma distinct_remdups_adj: "sorted xs \<Longrightarrow> distinct (remdups_adj (xs :: nat list))"
  by (induction xs rule: remdups_adj.induct) auto

text \<open>The chunks to fetch are exactly those that hold a byte of some extent, in ascending order, each once.\<close>

theorem chunks_exact:
  assumes "0 < chunk_size"
  shows "\<exists>cs. chunks_for_extents es chunk_size = Inr cs \<and> sorted cs \<and> distinct cs \<and>
    set cs = (\<lambda>x. x div chunk_size) ` (\<Union>e\<in>set es. bytes_of e)"
proof -
  define all where "all = concat (map (\<lambda>e. [be_start e div chunk_size ..< Suc ((be_end e - 1) div chunk_size)])
     (filter (\<lambda>e. \<not> be_is_empty e) es))"
  have one: "{be_start e div chunk_size ..< Suc ((be_end e - 1) div chunk_size)} = (\<lambda>x. x div chunk_size) ` bytes_of e"
    if ne: "be_start e < be_end e" for e
  proof (intro set_eqI iffI)
    fix c
    assume c: "c \<in> {be_start e div chunk_size ..< Suc ((be_end e - 1) div chunk_size)}"
    let ?x = "max (be_start e) (c * chunk_size)"
    have "c * chunk_size \<le> be_end e - 1" using c by (simp add: less_Suc_eq_le assms less_eq_div_iff_mult_less_eq)
    then have x: "?x \<in> bytes_of e" using ne by (auto simp: bytes_of_def)
    have "?x div chunk_size = c"
    proof (cases "c * chunk_size \<le> be_start e")
      case True
      then have "c \<le> be_start e div chunk_size" using assms by (simp add: less_eq_div_iff_mult_less_eq)
      with c True show ?thesis by (simp add: max_def)
    qed (use assms in \<open>simp add: max_def\<close>)
    with x show "c \<in> (\<lambda>x. x div chunk_size) ` bytes_of e" by (metis imageI)
  next
    fix c
    assume "c \<in> (\<lambda>x. x div chunk_size) ` bytes_of e"
    then show "c \<in> {be_start e div chunk_size ..< Suc ((be_end e - 1) div chunk_size)}"
      by (auto simp: bytes_of_def less_Suc_eq_le intro!: div_le_mono)
  qed
  have "set all = (\<Union>e\<in>set es \<inter> {e. be_start e < be_end e}. (\<lambda>x. x div chunk_size) ` bytes_of e)"
  proof -
    have "set all = (\<Union>e\<in>set es \<inter> {e. be_start e < be_end e}. {be_start e div chunk_size ..< Suc ((be_end e - 1) div chunk_size)})"
      unfolding all_def by (auto simp: be_is_empty_def not_le simp del: upt_Suc)
    also have "\<dots> = (\<Union>e\<in>set es \<inter> {e. be_start e < be_end e}. (\<lambda>x. x div chunk_size) ` bytes_of e)"
      by (rule SUP_cong) (auto simp only: one Int_iff mem_Collect_eq)
    finally show ?thesis .
  qed
  also have "\<dots> = (\<lambda>x. x div chunk_size) ` (\<Union>e\<in>set es. bytes_of e)" by (auto simp: bytes_of_def)
  finally have "set (remdups_adj (sort all)) = (\<lambda>x. x div chunk_size) ` (\<Union>e\<in>set es. bytes_of e)" by simp
  moreover have "sorted (remdups_adj (sort all))" "distinct (remdups_adj (sort all))"
    by (simp_all add: sorted_remdups_adj distinct_remdups_adj)
  ultimately show ?thesis using assms by (simp add: chunks_for_extents_def all_def)
qed

theorem chunks_exact_witness: "\<exists>cs. chunks_for_extents [ByteExtent 3 9, ByteExtent 9 9] 4 = Inr cs \<and> sorted cs"
  using chunks_exact[of 4 "[ByteExtent 3 9, ByteExtent 9 9]"] by auto

end
