(* ===== verification/Model.thy ===== *)
theory Model
  imports Gguf Validate
begin

text \<open>
  Model manifests and the store of content-addressed chunks (\<open>hocmesh-model/src/lib.rs\<close>).  A store is a map from the
  digest that names a chunk file to the bytes in it; a file is the list of its bytes.  Reading and writing do not fail,
  and what a crash leaves of a temporary file is not modelled.  The registry is a table of manifests in SQLite.
\<close>

section \<open>Definitions\<close>

subsection \<open>Manifests\<close>

datatype model_format = GgufFile | Safetensors

record chunk_ref =
  ck_index :: nat
  ck_sha256 :: string
  ck_size_bytes :: nat

record model_manifest =
  mm_schema_version :: nat
  mm_model_id :: string
  mm_revision :: string
  mm_format :: model_format
  mm_architecture :: string
  mm_parameter_count :: "nat option"
  mm_tensor_dtype :: "string option"
  mm_total_size_bytes :: nat
  mm_chunks :: "chunk_ref list"
  mm_metadata :: "(string \<times> string) list"

datatype manifest_error = UnsupportedSchema | EmptyModelId | EmptyRevision | EmptyArchitecture | NoChunks
  | ChunkIndexes | ChunkDigest | EmptyChunk | SizeOverflow | SizeMismatch

definition ascii_hexdigit :: "char \<Rightarrow> bool" where
  "ascii_hexdigit ch \<longleftrightarrow> (let b = of_char ch :: nat in 48 \<le> b \<and> b \<le> 57 \<or> 97 \<le> b \<and> b \<le> 102 \<or> 65 \<le> b \<and> b \<le> 70)"

definition is_sha256 :: "string \<Rightarrow> bool" where
  "is_sha256 v \<longleftrightarrow> length v = 64 \<and> list_all ascii_hexdigit v"

fun check_chunks :: "nat \<Rightarrow> nat \<Rightarrow> chunk_ref list \<Rightarrow> manifest_error + nat" where
  "check_chunks expected tot [] = Inr tot"
| "check_chunks expected tot (ch # chs) =
     (if ck_index ch \<noteq> expected then Inl ChunkIndexes
      else if \<not> is_sha256 (ck_sha256 ch) then Inl ChunkDigest
      else if ck_size_bytes ch = 0 then Inl EmptyChunk
      else case checked_add64 tot (ck_size_bytes ch) of
             None \<Rightarrow> Inl SizeOverflow
           | Some tot' \<Rightarrow> check_chunks (Suc expected) tot' chs)"

definition manifest_validate :: "model_manifest \<Rightarrow> manifest_error + unit" where
  "manifest_validate m =
     (if mm_schema_version m \<noteq> 1 then Inl UnsupportedSchema
      else if blank (mm_model_id m) then Inl EmptyModelId
      else if blank (mm_revision m) then Inl EmptyRevision
      else if blank (mm_architecture m) then Inl EmptyArchitecture
      else if mm_chunks m = [] then Inl NoChunks
      else qbind (check_chunks 0 0 (mm_chunks m)) (\<lambda>tot.
           if tot \<noteq> mm_total_size_bytes m then Inl SizeMismatch else Inr ()))"

definition chunk_ref_json :: "chunk_ref \<Rightarrow> json" where
  "chunk_ref_json ch = JObj [(''index'', jnat (ck_index ch)), (''sha256'', JStr (ck_sha256 ch)), (''size_bytes'', jnat (ck_size_bytes ch))]"

definition model_format_json :: "model_format \<Rightarrow> json" where
  "model_format_json f = JStr (case f of GgufFile \<Rightarrow> ''gguf'' | Safetensors \<Rightarrow> ''safetensors'')"

definition model_manifest_json :: "model_manifest \<Rightarrow> json" where
  "model_manifest_json m = JObj
     [(''schema_version'', jnat (mm_schema_version m)), (''model_id'', JStr (mm_model_id m)), (''revision'', JStr (mm_revision m)),
      (''format'', model_format_json (mm_format m)), (''architecture'', JStr (mm_architecture m)),
      (''parameter_count'', jopt jnat (mm_parameter_count m)), (''tensor_dtype'', jopt JStr (mm_tensor_dtype m)),
      (''total_size_bytes'', jnat (mm_total_size_bytes m)), (''chunks'', JArr (map chunk_ref_json (mm_chunks m))),
      (''metadata'', JObj (map (\<lambda>(k, v). (k, JStr v)) (mm_metadata m)))]"

definition manifest_digest :: "crypto \<Rightarrow> model_manifest \<Rightarrow> manifest_error + string" where
  "manifest_digest c m = qbind (manifest_validate m) (\<lambda>_. Inr (hash_json c (model_manifest_json m)))"

subsection \<open>Chunks\<close>

datatype chunk_error = ZeroChunkSize | EmptyModel | EmptyBytes | BadDigest | NoSuchChunk | CorruptChunk | DigestCollision
  | ChunkSize | BadManifest manifest_error

type_synonym chunk_store = "(string, string) fmap"

definition chunk_read :: "crypto \<Rightarrow> chunk_store \<Rightarrow> string \<Rightarrow> chunk_error + string" where
  "chunk_read c st h =
     (if \<not> is_sha256 h then Inl BadDigest
      else case fmlookup st h of
             None \<Rightarrow> Inl NoSuchChunk
           | Some bytes \<Rightarrow> if hash_bytes c bytes = h then Inr bytes else Inl CorruptChunk)"

definition chunk_put :: "crypto \<Rightarrow> string \<Rightarrow> chunk_store \<Rightarrow> chunk_error + (chunk_store \<times> string)" where
  "chunk_put c bytes st =
     (if bytes = [] then Inl EmptyBytes
      else let h = hash_bytes c bytes in
           if \<not> is_sha256 h then Inl BadDigest
           else if fmlookup st h \<noteq> None
           then qbind (chunk_read c st h) (\<lambda>b. if b = bytes then Inr (st, h) else Inl DigestCollision)
           else Inr (fmupd h bytes st, h))"

text \<open>Chunks stored before a failure stay in the store.  \<open>n\<close> is the number of chunks so far.\<close>

function import_chunks :: "crypto \<Rightarrow> nat \<Rightarrow> nat \<Rightarrow> string \<Rightarrow> chunk_store \<Rightarrow> chunk_store \<times> (chunk_error + chunk_ref list)" where
  "import_chunks c k n data st =
     (if data = [] \<or> k = 0 then (st, Inr [])
      else case chunk_put c (take k data) st of
             Inl e \<Rightarrow> (st, Inl e)
           | Inr (st1, h) \<Rightarrow>
               (case import_chunks c k (Suc n) (drop k data) st1 of
                  (st2, Inl e) \<Rightarrow> (st2, Inl e)
                | (st2, Inr chs) \<Rightarrow>
                    (st2, Inr (\<lparr> ck_index = as_u32 n, ck_sha256 = h, ck_size_bytes = length (take k data) \<rparr> # chs))))"
  by pat_completeness auto

termination import_chunks
  by (relation "measure (\<lambda>(c, k, n, data, st). length data)") auto

declare import_chunks.simps [simp del]

definition import_reader :: "crypto \<Rightarrow> nat \<Rightarrow> string \<Rightarrow> chunk_store \<Rightarrow> chunk_store \<times> (chunk_error + chunk_ref list)" where
  "import_reader c k data st =
     (if k = 0 then (st, Inl ZeroChunkSize)
      else case import_chunks c k 0 data st of
             (st1, Inl e) \<Rightarrow> (st1, Inl e)
           | (st1, Inr chs) \<Rightarrow> (st1, if chs = [] then Inl EmptyModel else Inr chs))"

definition contains :: "crypto \<Rightarrow> chunk_store \<Rightarrow> chunk_ref \<Rightarrow> bool" where
  "contains c st ch = (case chunk_read c st (ck_sha256 ch) of Inl _ \<Rightarrow> False | Inr data \<Rightarrow> length data = ck_size_bytes ch)"

definition chunk_data :: "crypto \<Rightarrow> chunk_store \<Rightarrow> chunk_ref \<Rightarrow> chunk_error + string" where
  "chunk_data c st ch =
     qbind (chunk_read c st (ck_sha256 ch)) (\<lambda>data. if length data = ck_size_bytes ch then Inr data else Inl ChunkSize)"

definition materialize :: "crypto \<Rightarrow> chunk_store \<Rightarrow> model_manifest \<Rightarrow> chunk_error + string" where
  "materialize c st m =
     qbind (map_err BadManifest (manifest_validate m)) (\<lambda>_.
     fold_result (\<lambda>ch file. qbind (chunk_data c st ch) (\<lambda>data. Inr (file @ data))) (mm_chunks m) [])"

text \<open>A file with holes: its bytes, and the extents that were written.\<close>

definition write_at :: "nat \<Rightarrow> string \<Rightarrow> string \<Rightarrow> string" where
  "write_at offset data file = take offset file @ data @ drop (offset + length data) file"

definition note_extent :: "nat \<Rightarrow> nat \<Rightarrow> byte_extent list \<Rightarrow> byte_extent list" where
  "note_extent start stop present =
     (if present \<noteq> [] \<and> be_end (last present) = start
      then butlast present @ [ByteExtent (be_start (last present)) stop]
      else present @ [ByteExtent start stop])"

definition keep_chunk ::
  "crypto \<Rightarrow> chunk_store \<Rightarrow> nat list \<Rightarrow> chunk_ref \<Rightarrow> nat \<times> string \<times> byte_extent list \<Rightarrow>
   chunk_error + nat \<times> string \<times> byte_extent list" where
  "keep_chunk c st keep ch s =
     (case s of (offset, file, present) \<Rightarrow>
        let stop = offset + ck_size_bytes ch in
        if ck_index ch \<notin> set keep then Inr (stop, file, present)
        else qbind (chunk_data c st ch) (\<lambda>data. Inr (stop, write_at offset data file, note_extent offset stop present)))"

definition materialize_partial ::
  "crypto \<Rightarrow> chunk_store \<Rightarrow> model_manifest \<Rightarrow> nat list \<Rightarrow> chunk_error + string \<times> byte_extent list" where
  "materialize_partial c st m keep =
     qbind (map_err BadManifest (manifest_validate m)) (\<lambda>_.
     qbind (fold_result (keep_chunk c st keep) (mm_chunks m) (0, replicate (mm_total_size_bytes m) CHR 0x00, []))
       (\<lambda>(_, file, present). Inr (file, present)))"

definition manifest_for_file ::
  "crypto \<Rightarrow> string \<Rightarrow> string \<Rightarrow> string \<Rightarrow> model_format \<Rightarrow> string \<Rightarrow> nat \<Rightarrow> chunk_store \<Rightarrow>
   chunk_store \<times> (chunk_error + model_manifest)" where
  "manifest_for_file c data model_id revision format arch k st =
     (case import_reader c k data st of
        (st1, Inl e) \<Rightarrow> (st1, Inl e)
      | (st1, Inr chs) \<Rightarrow>
          (let m = \<lparr> mm_schema_version = 1, mm_model_id = model_id, mm_revision = revision, mm_format = format,
                     mm_architecture = arch, mm_parameter_count = None, mm_tensor_dtype = None,
                     mm_total_size_bytes = wrap_u64 (sum_list (map ck_size_bytes chs)), mm_chunks = chs, mm_metadata = [] \<rparr>
           in (st1, qbind (map_err BadManifest (manifest_validate m)) (\<lambda>_. Inr m))))"

definition validate_format_header :: "model_format \<Rightarrow> string \<Rightarrow> bool" where
  "validate_format_header format bytes =
     (case format of
        GgufFile \<Rightarrow> take 4 bytes = ''GGUF''
      | Safetensors \<Rightarrow> length bytes \<ge> 8 \<and>
          (let len = sum_list (map2 (\<lambda>b i. of_char b * 256 ^ i) (take 8 bytes) [0..<8]) :: nat in 1 < len \<and> len \<le> 100000000))"

section \<open>Lemmas\<close>

subsection \<open>Manifests\<close>

lemma check_chunks_ok:
  assumes "check_chunks n tot chs = Inr s"
  shows "map ck_index chs = [n..<n + length chs] \<and> s = tot + sum_list (map ck_size_bytes chs) \<and>
    (\<forall>ch\<in>set chs. is_sha256 (ck_sha256 ch) \<and> 0 < ck_size_bytes ch)"
  using assms
proof (induction n tot chs arbitrary: s rule: check_chunks.induct)
  case (2 n tot ch chs)
  obtain t where t: "ck_index ch = n" "is_sha256 (ck_sha256 ch)" "ck_size_bytes ch \<noteq> 0"
    "checked_add64 tot (ck_size_bytes ch) = Some t" "check_chunks (Suc n) t chs = Inr s"
    using "2.prems" by (auto split: if_splits option.splits)
  note ih = "2.IH"[OF _ _ _ t(4,5)]
  have "t = tot + ck_size_bytes ch" using t(4) by (simp add: checked_add64_def split: if_splits)
  moreover have "[n..<n + length (ch # chs)] = n # [Suc n..<Suc n + length chs]" by (subst upt_conv_Cons) simp_all
  ultimately show ?case using ih t(1-3) by (simp del: upt_Suc)
qed simp

lemma manifest_valid:
  assumes "manifest_validate m = Inr ()"
  shows "map ck_index (mm_chunks m) = [0..<length (mm_chunks m)]" "mm_total_size_bytes m = sum_list (map ck_size_bytes (mm_chunks m))"
    "\<forall>ch\<in>set (mm_chunks m). 0 < ck_size_bytes ch"
  using assms check_chunks_ok[of 0 0 "mm_chunks m"]
  by (auto simp: manifest_validate_def qbind_def split: if_splits sum.splits)

subsection \<open>Whole and partial files\<close>

lemma chunk_data_length: "chunk_data c st ch = Inr p \<Longrightarrow> length p = ck_size_bytes ch"
  by (auto simp: chunk_data_def qbind_def split: sum.splits if_splits)

text \<open>The pieces a file is put together from.\<close>

lemma append_fold:
  "fold_result (\<lambda>ch file. qbind (chunk_data c st ch) (\<lambda>data. Inr (file @ data))) chs s = Inr whole \<longleftrightarrow>
     (\<exists>ps. list_all2 (\<lambda>ch p. chunk_data c st ch = Inr p) chs ps \<and> whole = s @ concat ps)"
proof (induction chs arbitrary: s)
  case (Cons ch chs)
  show ?case
  proof (cases "chunk_data c st ch")
    case (Inl e)
    then show ?thesis by (auto simp: qbind_def list_all2_Cons1)
  next
    case (Inr p)
    then show ?thesis using Cons.IH[of "s @ p"] by (auto simp: qbind_def list_all2_Cons1)
  qed
qed auto

lemma materialize_pieces:
  "materialize c st m = Inr whole \<longleftrightarrow> manifest_validate m = Inr () \<and>
     (\<exists>ps. list_all2 (\<lambda>ch p. chunk_data c st ch = Inr p) (mm_chunks m) ps \<and> whole = concat ps)"
  by (cases "manifest_validate m") (simp_all add: materialize_def map_err_def append_fold)

definition kept_piece :: "nat list \<Rightarrow> chunk_ref \<Rightarrow> string \<Rightarrow> string" where
  "kept_piece keep ch p = (if ck_index ch \<in> set keep then p else replicate (length p) CHR 0x00)"

fun kept_bytes :: "nat \<Rightarrow> nat list \<Rightarrow> chunk_ref list \<Rightarrow> nat set" where
  "kept_bytes off keep [] = {}"
| "kept_bytes off keep (ch # chs) =
     (if ck_index ch \<in> set keep then {off ..< off + ck_size_bytes ch} else {}) \<union> kept_bytes (off + ck_size_bytes ch) keep chs"

definition extents_bytes :: "byte_extent list \<Rightarrow> nat set" where
  "extents_bytes es = (\<Union>e\<in>set es. bytes_of e)"

text \<open>The extents noted so far: in order, with a gap between any two, and none beyond the offset.\<close>

definition noted :: "nat \<Rightarrow> byte_extent list \<Rightarrow> bool" where
  "noted off es \<longleftrightarrow> sorted_wrt (\<lambda>e f. be_end e < be_start f) es \<and> (\<forall>e\<in>set es. be_start e < be_end e \<and> be_end e \<le> off)"

lemma note_extent_ok:
  assumes "noted off es" "0 < n"
  shows "noted (off + n) (note_extent off (off + n) es)" "extents_bytes (note_extent off (off + n) es) = extents_bytes es \<union> {off ..< off + n}"
proof -
  show "noted (off + n) (note_extent off (off + n) es)"
  proof (cases es rule: rev_cases)
    case (snoc fs e)
    show ?thesis using assms unfolding snoc by (fastforce simp: noted_def note_extent_def sorted_wrt_append)
  qed (use assms in \<open>simp add: noted_def note_extent_def\<close>)
  show "extents_bytes (note_extent off (off + n) es) = extents_bytes es \<union> {off ..< off + n}"
  proof (cases es rule: rev_cases)
    case (snoc fs e)
    have "be_start e < be_end e" using assms(1) by (simp add: noted_def snoc)
    then show ?thesis using assms(2) by (auto simp: snoc note_extent_def extents_bytes_def bytes_of_def)
  qed (simp add: note_extent_def extents_bytes_def bytes_of_def)
qed

lemma noted_later: "noted off es \<Longrightarrow> off \<le> off' \<Longrightarrow> noted off' es"
  by (fastforce simp: noted_def)

lemma write_at_hole: "length data = n \<Longrightarrow> write_at (length pre) data (pre @ replicate (n + r) z) = (pre @ data) @ replicate r z"
  by (simp add: write_at_def)

lemma keep_fold:
  assumes "list_all2 (\<lambda>ch p. chunk_data c st ch = Inr p) chs ps" "\<forall>ch\<in>set chs. 0 < ck_size_bytes ch" "noted (length pre) es"
  shows "\<exists>es'. fold_result (keep_chunk c st keep) chs (length pre, pre @ replicate (sum_list (map ck_size_bytes chs)) CHR 0x00, es) =
      Inr (length pre + sum_list (map ck_size_bytes chs), pre @ concat (map2 (kept_piece keep) chs ps), es') \<and>
    noted (length pre + sum_list (map ck_size_bytes chs)) es' \<and>
    extents_bytes es' = extents_bytes es \<union> kept_bytes (length pre) keep chs"
  using assms
proof (induction chs ps arbitrary: pre es rule: list_all2_induct)
  case (Cons ch chs p ps)
  let ?n = "ck_size_bytes ch" and ?r = "sum_list (map ck_size_bytes chs)"
  have p: "length p = ?n" by (rule chunk_data_length[OF Cons.hyps(1)])
  have n: "0 < ?n" "\<forall>ch\<in>set chs. 0 < ck_size_bytes ch" using Cons.prems(1) by simp_all
  have lk: "length (kept_piece keep ch p) = ?n" by (simp add: kept_piece_def p)
  define pre' where "pre' = pre @ kept_piece keep ch p"
  have l: "length pre' = length pre + ?n" by (simp add: pre'_def kept_piece_def p)
  define es1 where "es1 = (if ck_index ch \<in> set keep then note_extent (length pre) (length pre + ?n) es else es)"
  have "noted (length pre') es1" "extents_bytes es1 = extents_bytes es \<union> (if ck_index ch \<in> set keep then {length pre ..< length pre + ?n} else {})"
    using note_extent_ok[OF Cons.prems(2) n(1)] noted_later[OF Cons.prems(2)] by (simp_all add: es1_def l)
  note IH = Cons.IH[OF n(2) this(1)] this(2)
  have "keep_chunk c st keep ch (length pre, pre @ replicate (?n + ?r) CHR 0x00, es) = Inr (length pre', pre' @ replicate ?r CHR 0x00, es1)"
    using Cons.hyps(1) p l
    by (simp add: keep_chunk_def Let_def qbind_def write_at_hole pre'_def es1_def kept_piece_def flip: replicate_add)
  then show ?case using IH by (auto simp: qbind_def l lk pre'_def ac_simps)
qed simp

lemma kept_content:
  assumes "list_all2 (\<lambda>ch p. length p = ck_size_bytes ch) chs ps" "x < length (concat ps)"
  shows "concat (map2 (kept_piece keep) chs ps) ! x = (if off + x \<in> kept_bytes off keep chs then concat ps ! x else CHR 0x00)"
  using assms
proof (induction chs ps arbitrary: x off rule: list_all2_induct)
  case (Cons ch chs p ps)
  have later: "off + x \<notin> kept_bytes (off + n) keep chs'" if "x < n" for n chs'
    using that by (induction chs' arbitrary: n) (auto simp: add.assoc)
  show ?case
  proof (cases "x < length p")
    case True
    then show ?thesis using Cons.hyps(1) later[of "ck_size_bytes ch" chs] by (simp add: nth_append kept_piece_def)
  next
    case False
    define y where "y = x - length p"
    have y: "x = length p + y" "y < length (concat ps)" using False Cons.prems by (auto simp: y_def)
    show ?thesis using Cons.IH[OF y(2), of "off + ck_size_bytes ch"] Cons.hyps(1)
      by (simp add: y(1) nth_append kept_piece_def add.assoc)
  qed
qed simp

lemma partial_file:
  assumes "materialize c st m = Inr whole"
  shows "\<exists>file present. materialize_partial c st m keep = Inr (file, present) \<and> length file = length whole \<and>
    length whole = mm_total_size_bytes m \<and> sorted_wrt (\<lambda>e f. be_end e < be_start f) present \<and>
    extents_bytes present = kept_bytes 0 keep (mm_chunks m) \<and>
    (\<forall>x < length whole. file ! x = (if x \<in> extents_bytes present then whole ! x else CHR 0x00))"
proof -
  obtain ps where m: "manifest_validate m = Inr ()" and ps: "list_all2 (\<lambda>ch p. chunk_data c st ch = Inr p) (mm_chunks m) ps"
    and whole: "whole = concat ps" using assms by (auto simp: materialize_pieces)
  note mv = manifest_valid[OF m]
  have lens: "list_all2 (\<lambda>ch p. length p = ck_size_bytes ch) (mm_chunks m) ps"
    using ps by (rule list_all2_mono) (rule chunk_data_length)
  then have tot: "length whole = mm_total_size_bytes m" unfolding whole mv(2)
    by (induction rule: list_all2_induct) simp_all
  have same: "length (concat (map2 (kept_piece keep) (mm_chunks m) ps)) = length (concat ps)"
    using lens by (induction rule: list_all2_induct) (simp_all add: kept_piece_def)
  have "noted (length []) []" by (simp add: noted_def)
  from keep_fold[OF ps mv(3) this, of keep] obtain es where es:
    "fold_result (keep_chunk c st keep) (mm_chunks m) (0, replicate (mm_total_size_bytes m) CHR 0x00, []) =
       Inr (mm_total_size_bytes m, concat (map2 (kept_piece keep) (mm_chunks m) ps), es)"
    "noted (mm_total_size_bytes m) es" "extents_bytes es = kept_bytes 0 keep (mm_chunks m)"
    by (auto simp: mv(2) extents_bytes_def)
  then have "materialize_partial c st m keep = Inr (concat (map2 (kept_piece keep) (mm_chunks m) ps), es)"
    by (simp add: materialize_partial_def m map_err_def)
  then show ?thesis
    using es(2,3) same tot kept_content[OF lens, of _ keep 0] by (auto simp: noted_def whole)
qed

subsection \<open>Importing\<close>

lemma hash_bytes_sha: "(\<forall>x. length (sha256 c x) = 32) \<Longrightarrow> is_sha256 (hash_bytes c b)"
proof -
  have digit: "ascii_hexdigit (hex_digit n)" if "n < 16" for n
    using that by (auto simp: ascii_hexdigit_def hex_digit_def Let_def)
  have "list_all ascii_hexdigit (hex_lower bs)" for bs
    by (induction bs) (simp_all add: hex_lower_def digit less_mult_imp_div_less)
  moreover have "length (hex_lower bs) = 2 * length bs" for bs by (induction bs) (simp_all add: hex_lower_def)
  ultimately show "(\<forall>x. length (sha256 c x) = 32) \<Longrightarrow> is_sha256 (hash_bytes c b)" by (simp add: is_sha256_def hash_bytes_def)
qed

definition grown :: "chunk_store \<Rightarrow> chunk_store \<Rightarrow> bool" where
  "grown st st' \<longleftrightarrow> (\<forall>h b. fmlookup st h = Some b \<longrightarrow> fmlookup st' h = Some b)"

lemma grown_read: "grown st st' \<Longrightarrow> chunk_read c st h = Inr b \<Longrightarrow> chunk_read c st' h = Inr b"
  by (auto simp: grown_def chunk_read_def split: if_splits option.splits)

lemma chunk_put_ok:
  assumes "chunk_put c bytes st = Inr (st', h)"
  shows "grown st st'" "chunk_read c st' h = Inr bytes"
proof -
  have "st' = st \<and> chunk_read c st h = Inr bytes \<or>
      fmlookup st h = None \<and> is_sha256 h \<and> hash_bytes c bytes = h \<and> st' = fmupd h bytes st"
    using assms by (auto simp: chunk_put_def Let_def split: if_splits)
  then show "grown st st'" "chunk_read c st' h = Inr bytes" by (auto simp: grown_def chunk_read_def)
qed

lemma import_chunks_ok:
  assumes "import_chunks c k n data st = (st', Inr chs)" "0 < k"
  shows "grown st st' \<and> (\<exists>ps. list_all2 (\<lambda>ch p. chunk_data c st' ch = Inr p) chs ps \<and> concat ps = data) \<and>
    (map ck_index chs = [n..<n + length chs] \<longrightarrow>
       kept_bytes (n * k) keep chs = {x. n * k \<le> x \<and> x < n * k + length data \<and> x div k \<in> set keep})"
  using assms
proof (induction c k n data st arbitrary: st' chs rule: import_chunks.induct)
  case (1 c k n data st)
  show ?case
  proof (cases "data = []")
    case True
    then show ?thesis using "1.prems" by (auto simp: grown_def import_chunks.simps[of c k n])
  next
    case False
    obtain st1 h where put: "chunk_put c (take k data) st = Inr (st1, h)"
      using "1.prems" False by (auto simp: import_chunks.simps[of c k n data] split: sum.splits)
    obtain chs' where rest: "import_chunks c k (Suc n) (drop k data) st1 = (st', Inr chs')"
      and chs: "chs = \<lparr> ck_index = as_u32 n, ck_sha256 = h, ck_size_bytes = length (take k data) \<rparr> # chs'"
      using "1.prems" False put by (auto simp: import_chunks.simps[of c k n data] split: prod.splits sum.splits)
    have g: "\<not> (data = [] \<or> k = 0)" using False "1.prems"(2) by simp
    note ih = "1.IH"[OF g put refl rest "1.prems"(2)]
    note p = chunk_put_ok[OF put]
    obtain ps where ps: "list_all2 (\<lambda>ch p. chunk_data c st' ch = Inr p) chs' ps" "concat ps = drop k data" using ih by blast
    have g1: "grown st1 st'" using ih by blast
    then have "grown st st'" using p(1) by (auto simp: grown_def)
    moreover have "list_all2 (\<lambda>ch p. chunk_data c st' ch = Inr p) chs (take k data # ps)"
      using ps(1) grown_read[OF g1 p(2)] by (simp add: chs chunk_data_def)
    moreover have "concat (take k data # ps) = data" by (simp add: ps(2))
    moreover have "kept_bytes (n * k) keep chs = {x. n * k \<le> x \<and> x < n * k + length data \<and> x div k \<in> set keep}"
      if idx: "map ck_index chs = [n..<n + length chs]"
    proof -
      have idx': "as_u32 n = n" "map ck_index chs' = [Suc n..<Suc n + length chs']"
        using idx by (simp_all add: chs upt_conv_Cons del: upt_Suc)
      have first: "x div k = n" if "n * k \<le> x" "x < n * k + min k (length data)" for x
        using that by (intro div_nat_eqI) (simp_all add: ac_simps)
      show ?thesis
      proof (cases "length data \<le> k")
        case True
        then have "chs' = []" using rest by (simp add: import_chunks.simps[of c k "Suc n"])
        then show ?thesis using True first by (auto simp: chs idx')
      next
        case False
        then have "kept_bytes (n * k + k) keep chs' = {x. n * k + k \<le> x \<and> x < n * k + length data \<and> x div k \<in> set keep}"
          using ih idx' by (simp add: add.commute)
        then show ?thesis using False first by (auto simp: chs idx' min_def)
      qed
    qed
    ultimately show ?thesis by blast
  qed
qed
definition intact :: "crypto \<Rightarrow> chunk_store \<Rightarrow> bool" where
  "intact c st \<longleftrightarrow> (\<forall>h b. fmlookup st h = Some b \<longrightarrow> hash_bytes c b = h)"

lemma chunk_put_succeeds:
  assumes "\<forall>x. length (sha256 c x) = 32" "intact c st" "bytes \<noteq> []" "inj_on (hash_bytes c) S" "fmran' st \<subseteq> S" "bytes \<in> S"
  shows "\<exists>st' h. chunk_put c bytes st = Inr (st', h) \<and> intact c st' \<and> fmran' st' \<subseteq> S \<and> is_sha256 h"
proof -
  let ?h = "hash_bytes c bytes"
  have h: "is_sha256 ?h" by (rule hash_bytes_sha[OF assms(1)])
  show ?thesis
  proof (cases "fmlookup st ?h")
    case None
    have "fmran' (fmupd ?h bytes st) \<subseteq> S" using assms(5,6) by (fastforce simp: fmran'_def split: if_splits)
    moreover have "intact c (fmupd ?h bytes st)" using assms(2) by (simp add: intact_def)
    ultimately show ?thesis using None h assms(3) by (simp add: chunk_put_def Let_def)
  next
    case (Some b)
    have "b \<in> S" using Some assms(5) by (auto simp: fmran'_def)
    moreover have "hash_bytes c b = ?h" using Some assms(2) by (simp add: intact_def)
    ultimately have "b = bytes" using assms(4,6) by (auto dest: inj_onD)
    then show ?thesis using Some h assms(2,3,5) by (simp add: chunk_put_def Let_def chunk_read_def)
  qed
qed

lemma import_chunks_succeeds:
  assumes "\<forall>x. length (sha256 c x) = 32" "intact c st" "inj_on (hash_bytes c) S" "fmran' st \<subseteq> S"
    and "\<forall>i < length data. take k (drop i data) \<in> S" "0 < k" "n * k + length data \<le> 2 ^ 32 * k" "tot + length data \<le> u64_max"
  shows "\<exists>st' chs. import_chunks c k n data st = (st', Inr chs) \<and> intact c st' \<and> check_chunks n tot chs = Inr (tot + length data) \<and>
    sum_list (map ck_size_bytes chs) = length data \<and> (chs = [] \<longleftrightarrow> data = [])"
  using assms
proof (induction "length data" arbitrary: n data st tot rule: less_induct)
  case less
  show ?case
  proof (cases "data = []")
    case False
    have k: "length (take k data) \<noteq> 0" "length (take k data) + length (drop k data) = length data" using False less.prems(6) by simp_all
    have "take k (drop 0 data) \<in> S" using less.prems(5) False by blast
    then obtain st1 h where put: "chunk_put c (take k data) st = Inr (st1, h)" "intact c st1" "fmran' st1 \<subseteq> S" "is_sha256 h"
      using chunk_put_succeeds[OF less.prems(1,2) _ less.prems(3,4), of "take k data"] False less.prems(6) by auto
    have n: "n < 2 ^ 32" using less.prems(6,7) False
      by (metis add_is_0 length_0_conv less_le_trans linorder_not_le mult_le_mono1 nat_add_left_cancel_less add_0_right zero_less_iff_neq_zero)
    have short: "Suc n * k + length (drop k data) \<le> 2 ^ 32 * k \<or> drop k data = []" using less.prems(7) by auto
    have pieces: "\<forall>i < length (drop k data). take k (drop i (drop k data)) \<in> S" using less.prems(5) by (simp add: add.commute)
    have fits: "(tot + length (take k data)) + length (drop k data) \<le> u64_max" using less.prems(8) k(2) by linarith
    have "Suc n * k \<le> 2 ^ 32 * k" using n by (intro mult_le_mono1) simp
    then have "Suc n * k + length (drop k data) \<le> 2 ^ 32 * k" using short by auto
    from less.hyps[OF _ less.prems(1) put(2) less.prems(3) put(3) pieces less.prems(6) this fits] False less.prems(6)
    obtain st2 chs where rest: "import_chunks c k (Suc n) (drop k data) st1 = (st2, Inr chs)" "intact c st2"
      "check_chunks (Suc n) (tot + length (take k data)) chs = Inr (tot + length (take k data) + length (drop k data))"
      "sum_list (map ck_size_bytes chs) = length (drop k data)" by auto
    have add: "checked_add64 tot (length (take k data)) = Some (tot + length (take k data))"
      using fits by (simp add: checked_add64_def)
    let ?ch = "\<lparr> ck_index = as_u32 n, ck_sha256 = h, ck_size_bytes = length (take k data) \<rparr>"
    have "import_chunks c k n data st = (st2, Inr (?ch # chs))"
      using False less.prems(6) put(1) rest(1) by (simp add: import_chunks.simps[of c k n data])
    moreover have "check_chunks n tot (?ch # chs) = Inr (tot + length data)"
      using n put(4) k rest(3) add by (simp add: as_u32_def)
    ultimately show ?thesis using rest(2,4) k(2) by auto
  qed (simp add: less.prems(2) import_chunks.simps[of c k n])
qed

lemma manifest_for_file_succeeds:
  assumes "\<forall>x. length (sha256 c x) = 32" "intact c st" "inj_on (hash_bytes c) (fmran' st \<union> {take k (drop i data) | i. i < length data})"
    and "data \<noteq> []" "0 < k" "length data \<le> u64_max" "length data \<le> 2 ^ 32 * k"
    and "\<not> blank model_id" "\<not> blank revision" "\<not> blank arch"
  shows "\<exists>st' m. manifest_for_file c data model_id revision format arch k st = (st', Inr m) \<and> intact c st'"
proof -
  let ?S = "fmran' st \<union> {take k (drop i data) | i. i < length data}"
  have "\<exists>st' chs. import_chunks c k 0 data st = (st', Inr chs) \<and> intact c st' \<and> check_chunks 0 0 chs = Inr (0 + length data) \<and>
    sum_list (map ck_size_bytes chs) = length data \<and> (chs = [] \<longleftrightarrow> data = [])"
    by (rule import_chunks_succeeds[OF assms(1,2,3)]) (use assms(5-7) in auto)
  then obtain st' chs where imp: "import_chunks c k 0 data st = (st', Inr chs)" "intact c st'" "check_chunks 0 0 chs = Inr (length data)"
    "sum_list (map ck_size_bytes chs) = length data" "chs \<noteq> []" using assms(4) by auto
  have w: "wrap_u64 (length data) = length data" using assms(6) by (simp add: wrap_u64_def u64_max_def)
  show ?thesis using assms(5,8-10) imp
    by (simp add: manifest_for_file_def import_reader_def manifest_validate_def Let_def w map_err_def)
qed

lemma manifest_for_file_ok:
  assumes "manifest_for_file c data model_id revision format arch k st = (st', Inr m)"
  shows "0 < k" "manifest_validate m = Inr ()" "materialize c st' m = Inr data" "grown st st'"
    "kept_bytes 0 keep (mm_chunks m) = {x. x < length data \<and> x div k \<in> set keep}"
proof -
  obtain chs where imp: "import_chunks c k 0 data st = (st', Inr chs)" "0 < k" "mm_chunks m = chs" "manifest_validate m = Inr ()"
    using assms(1) by (auto simp: manifest_for_file_def import_reader_def Let_def map_err_def split: prod.splits sum.splits if_splits)
  note ok = import_chunks_ok[OF imp(1,2), of keep]
  have "map ck_index chs = [0..<length chs]" using manifest_valid(1)[OF imp(4)] imp(3) by simp
  then show "kept_bytes 0 keep (mm_chunks m) = {x. x < length data \<and> x div k \<in> set keep}" using ok imp(3) by simp
  show "materialize c st' m = Inr data" using ok imp(3,4) unfolding materialize_pieces by blast
  show "0 < k" "manifest_validate m = Inr ()" "grown st st'" using ok imp(2,4) by simp_all
qed

section \<open>Properties\<close>

text \<open>C32.  Publishing a model and putting it together again loses nothing.  When the digests of the chunks of a file and of
  the stored chunks are all different and the store is intact, importing the file succeeds and writes a valid manifest,
  the store stays intact and keeps what it had, and materialising the manifest gives the file byte for byte.\<close>

theorem import_roundtrip:
  assumes "\<forall>x. length (sha256 c x) = 32" "intact c st" "inj_on (hash_bytes c) (fmran' st \<union> {take k (drop i data) | i. i < length data})"
    and "data \<noteq> []" "0 < k" "length data \<le> u64_max" "length data \<le> 2 ^ 32 * k"
    and "\<not> blank model_id" "\<not> blank revision" "\<not> blank arch"
  shows "\<exists>st' m. manifest_for_file c data model_id revision format arch k st = (st', Inr m) \<and>
    manifest_validate m = Inr () \<and> materialize c st' m = Inr data \<and> intact c st' \<and>
    (\<forall>h b. chunk_read c st h = Inr b \<longrightarrow> chunk_read c st' h = Inr b)"
proof -
  obtain st' m where m: "manifest_for_file c data model_id revision format arch k st = (st', Inr m)" "intact c st'"
    using manifest_for_file_succeeds[OF assms] by blast
  then show ?thesis using manifest_for_file_ok[OF m(1)] grown_read by blast
qed

definition demo_digests :: crypto where
  "demo_digests = \<lparr> sha256 = \<lambda>x. take 32 (x @ replicate 32 CHR 0x00), json_encode = (\<lambda>_. ''''), b64_decode = (\<lambda>_. None),
     ed_key_ok = (\<lambda>_. False), ed_sig_ok = (\<lambda>_. False), ed_verify = (\<lambda>_ _ _. False) \<rparr>"

lemma demo_pieces: "{take 2 (drop i ''abc'') | i. i < length ''abc''} = {''ab'', ''bc'', ''c''}"
proof -
  have "{take 2 (drop i ''abc'') | i. i < length ''abc''} = (\<lambda>i. take 2 (drop i ''abc'')) ` {i. i < length ''abc''}" by blast
  also have "{i. i < length ''abc''} = {0, 1, 2}" by auto
  finally show ?thesis by simp
qed

lemma demo_digests_differ: "inj_on (hash_bytes demo_digests) {''ab'', ''bc'', ''c''}"
  by (simp add: inj_on_def hash_bytes_def demo_digests_def hex_lower_def hex_digit_def)

lemma demo_import_ok:
  "\<forall>x. length (sha256 demo_digests x) = 32" "intact demo_digests fmempty"
  "inj_on (hash_bytes demo_digests) (fmran' fmempty \<union> {take 2 (drop i ''abc'') | i. i < length ''abc''})"
  "''abc'' \<noteq> []" "(0 :: nat) < 2" "length ''abc'' \<le> u64_max" "length ''abc'' \<le> 2 ^ 32 * 2"
  "\<not> blank ''m''" "\<not> blank ''r''" "\<not> blank ''llama''"
proof -
  show "\<forall>x. length (sha256 demo_digests x) = 32" by (auto simp: demo_digests_def)
  show "inj_on (hash_bytes demo_digests) (fmran' fmempty \<union> {take 2 (drop i ''abc'') | i. i < length ''abc''})"
    unfolding demo_pieces using demo_digests_differ by (simp add: fmran'_def)
qed (simp_all add: intact_def u64_max_def blank_def ws_len_def)

theorem import_roundtrip_witness:
  "\<exists>st' m. manifest_for_file demo_digests ''abc'' ''m'' ''r'' GgufFile ''llama'' 2 fmempty = (st', Inr m) \<and>
     materialize demo_digests st' m = Inr ''abc''"
  using import_roundtrip[OF demo_import_ok, of GgufFile] by blast

text \<open>C33.  A stage file holds the weights of its stage and nothing it was not asked to keep.  When a node keeps the chunks
  that cover some extents of a published model, every byte of those extents that the model has is in the file it writes and
  is the model's; the extents it reports are apart and are exactly the bytes of the chunks with such a byte; every other
  byte reads as zero.\<close>

theorem stage_file_holds_its_extents:
  assumes "manifest_for_file c data model_id revision format arch k st = (st', Inr m)" "chunks_for_extents es k = Inr keep"
  shows "\<exists>file present. materialize_partial c st' m keep = Inr (file, present) \<and> length file = length data \<and>
    sorted_wrt (\<lambda>e f. be_end e < be_start f) present \<and>
    extents_bytes present = {x. x < length data \<and> (\<exists>y\<in>extents_bytes es. y div k = x div k)} \<and>
    (\<forall>x < length data. file ! x = (if x \<in> extents_bytes present then data ! x else CHR 0x00))"
proof -
  note ok = manifest_for_file_ok[OF assms(1)]
  have "set keep = (\<lambda>x. x div k) ` extents_bytes es"
    using chunks_exact[OF ok(1), of es] assms(2) by (auto simp: extents_bytes_def)
  then have "kept_bytes 0 keep (mm_chunks m) = {x. x < length data \<and> (\<exists>y\<in>extents_bytes es. y div k = x div k)}"
    unfolding ok(5) by (simp add: image_iff eq_commute)
  then show ?thesis using partial_file[OF ok(3), of keep] by auto
qed

theorem stage_file_holds_its_extents_witness:
  "\<exists>st' m file present. manifest_for_file demo_digests ''abc'' ''m'' ''r'' GgufFile ''llama'' 2 fmempty = (st', Inr m) \<and>
     materialize_partial demo_digests st' m [1] = Inr (file, present) \<and> length file = 3 \<and> file ! 2 = CHR ''c'' \<and> file ! 0 = CHR 0x00"
proof -
  obtain st' m where m: "manifest_for_file demo_digests ''abc'' ''m'' ''r'' GgufFile ''llama'' 2 fmempty = (st', Inr m)"
    using manifest_for_file_succeeds[OF demo_import_ok, of GgufFile] by blast
  have "chunks_for_extents [ByteExtent 2 3] 2 = Inr [1]" by (simp add: chunks_for_extents_def be_is_empty_def)
  from stage_file_holds_its_extents[OF m this] obtain fl present where f:
    "materialize_partial demo_digests st' m [1] = Inr (fl, present)" "length fl = length ''abc''"
    "extents_bytes present = {x. x < length ''abc'' \<and> (\<exists>y\<in>extents_bytes [ByteExtent 2 3]. y div 2 = x div 2)}"
    "\<forall>x < length ''abc''. fl ! x = (if x \<in> extents_bytes present then ''abc'' ! x else CHR 0x00)" by blast
  have p: "2 \<in> extents_bytes present" "0 \<notin> extents_bytes present" unfolding f(3) by (force simp: extents_bytes_def bytes_of_def)+
  have "fl ! 2 = CHR ''c''" "fl ! 0 = CHR 0x00" using f(4)[rule_format, of 2] f(4)[rule_format, of 0] p by simp_all
  then show ?thesis using m f(1,2) by (intro exI[of _ st'] exI[of _ m] exI[of _ fl] exI[of _ present]) simp
qed

end
