(* ===== verification/Planning.thy ===== *)
theory Planning
  imports Topology Model
begin

text \<open>
  Which machines run a model and how its layers and prompts are divided among them (the planner of
  \<open>hocmesh-ai/src/lib.rs\<close>, and the devices of \<open>hocmesh-gpu/src/lib.rs\<close> it chooses from).  Scores and shares are
  \<open>f64\<close> numbers in the order of evaluation of the source; an index cast to \<open>u32\<close> keeps its low bits.  The sets of the
  source are lists.
\<close>

section \<open>Definitions\<close>

subsection \<open>Devices, nodes and candidates\<close>

datatype backend_kind = Cuda | Rocm | Metal | Cpu

record device_capability =
  dv_stable_id :: string
  dv_backend :: backend_kind
  dv_vendor :: string
  dv_name :: string
  dv_memory_bytes :: "nat option"
  dv_driver_version :: "string option"
  dv_compute_version :: "string option"
  dv_supports_fp16 :: bool
  dv_supports_bf16 :: bool
  dv_supports_int8 :: bool
  dv_memory_bandwidth_bytes_per_second :: "nat option"

record node_profile =
  np_node_id :: string
  np_devices :: "device_capability list"
  np_cached_chunks :: "string list"
  np_network_latency_ms :: real
  np_bandwidth_mbps :: real
  np_load_fraction :: real
  np_recent_failures :: nat
  np_online :: bool
  np_memory_bandwidth_bytes_per_second :: "nat option"
  np_coordinate :: "network_coordinate option"
  np_prefill_eligible :: bool

record inference_requirements =
  rq_required_backends :: "backend_kind list"
  rq_minimum_memory_bytes :: nat
  rq_needs_fp16 :: bool
  rq_needs_bf16 :: bool
  rq_needs_int8 :: bool
  rq_batch_size :: nat
  rq_pipeline_stages :: nat
  rq_tensor_parallelism :: nat

record candidate_score =
  cs_node_id :: string
  cs_device_id :: string
  cs_score :: real
  cs_estimated_transfer_bytes :: nat
  cs_memory_bandwidth_bytes_per_second :: "nat option"
  cs_coordinate :: "network_coordinate option"
  cs_prefill_eligible :: bool

subsection \<open>Ranking\<close>

definition valid_metric :: "node_profile \<Rightarrow> bool" where
  "valid_metric n \<longleftrightarrow> np_network_latency_ms n \<ge> 0 \<and> np_bandwidth_mbps n > 0 \<and> 0 \<le> np_load_fraction n \<and> np_load_fraction n \<le> 1"

definition device_matches :: "device_capability \<Rightarrow> inference_requirements \<Rightarrow> bool" where
  "device_matches d q \<longleftrightarrow> (rq_required_backends q = [] \<or> dv_backend d \<in> set (rq_required_backends q)) \<and>
     (case dv_memory_bytes d of None \<Rightarrow> 0 | Some b \<Rightarrow> b) \<ge> rq_minimum_memory_bytes q \<and>
     (rq_needs_fp16 q \<longrightarrow> dv_supports_fp16 d) \<and> (rq_needs_bf16 q \<longrightarrow> dv_supports_bf16 d) \<and>
     (rq_needs_int8 q \<longrightarrow> dv_supports_int8 d)"

text \<open>The chunks by digest: of two with one digest the later counts.\<close>

fun chunk_sizes :: "chunk_ref list \<Rightarrow> (string \<times> nat) list" where
  "chunk_sizes [] = []"
| "chunk_sizes (ch # chs) =
     (if ck_sha256 ch \<in> set (map ck_sha256 chs) then chunk_sizes chs else (ck_sha256 ch, ck_size_bytes ch) # chunk_sizes chs)"

definition missing_bytes :: "model_manifest \<Rightarrow> node_profile \<Rightarrow> nat" where
  "missing_bytes m n = wrap_u64 (sum_list (map snd (filter (\<lambda>(h, _). h \<notin> set (np_cached_chunks n)) (chunk_sizes (mm_chunks m)))))"

definition candidate_for :: "model_manifest \<Rightarrow> inference_requirements \<Rightarrow> node_profile \<Rightarrow> device_capability \<Rightarrow> candidate_score" where
  "candidate_for m q n d =
     (let missing = missing_bytes m n;
          transfer_ms = f_div (f_mul (f_of_nat missing) 8) (f_mul (np_bandwidth_mbps n) 1000);
          headroom = (case dv_memory_bytes d of None \<Rightarrow> 0 | Some b \<Rightarrow> b) - rq_minimum_memory_bytes q;
          local = f_sub 1 (f_div (f_of_nat missing) (f_of_nat (max (mm_total_size_bytes m) 1)));
          score = f_sub (f_sub (f_add (f_add (f_add (np_network_latency_ms n) transfer_ms) (f_mul (np_load_fraction n) 1000))
                    (f_mul (f_of_nat (np_recent_failures n)) 500)) (f_mul local 100)) (f_div (f_of_nat headroom) (2 ^ 30))
      in \<lparr> cs_node_id = np_node_id n, cs_device_id = dv_stable_id d, cs_score = score, cs_estimated_transfer_bytes = missing,
           cs_memory_bandwidth_bytes_per_second =
             (case dv_memory_bandwidth_bytes_per_second d of None \<Rightarrow> np_memory_bandwidth_bytes_per_second n | Some b \<Rightarrow> Some b),
           cs_coordinate = np_coordinate n, cs_prefill_eligible = np_prefill_eligible n \<rparr>)"

definition rank_candidates ::
  "model_manifest \<Rightarrow> inference_requirements \<Rightarrow> node_profile list \<Rightarrow> string list \<Rightarrow> candidate_score list" where
  "rank_candidates m q nodes excluded =
     sort_key (\<lambda>cand. (cs_score cand, cs_node_id cand))
       (concat (map (\<lambda>n. if \<not> np_online n \<or> np_node_id n \<in> set excluded \<or> \<not> valid_metric n then []
          else map (candidate_for m q n) (filter (\<lambda>d. device_matches d q) (np_devices n))) nodes))"

subsection \<open>Plans\<close>

datatype parallelism_kind = BatchParallel | PipelineParallel | ModelTensor

record pipeline_stage =
  sg_stage_index :: nat
  sg_node_id :: string
  sg_device_id :: string
  sg_layer_start :: nat
  sg_layer_end :: nat

record tensor_group =
  tg_rank :: nat
  tg_node_id :: string
  tg_device_id :: string

record batch_shard =
  bs_batch_start :: nat
  bs_batch_end :: nat
  bs_node_id :: string
  bs_device_id :: string

record parallelism_plan =
  pl_kinds :: "parallelism_kind list"
  pl_pipeline :: "pipeline_stage list"
  pl_tensor_group :: "tensor_group list"
  pl_batches :: "batch_shard list"

datatype plan_error = NoLayers | NoBatch | InsufficientDevices | TooFewDevices | TooFewMachines | NoPrefillHost | PlannerPanic
  | PipelineStart | PipelineEnd | PipelineGap | TensorRanks | BatchStart | BatchEnd | BatchGap | EmptyPlan | NoFailover

subsection \<open>Layers\<close>

definition uniform_spans :: "nat \<Rightarrow> nat \<Rightarrow> (nat \<times> nat) list" where
  "uniform_spans n layers = map (\<lambda>i. (as_u32 (layers * i div n), as_u32 (layers * (i + 1) div n))) [0..<n]"

definition stage_weight :: "candidate_score \<Rightarrow> real option" where
  "stage_weight s = Option.bind (cs_memory_bandwidth_bytes_per_second s) (\<lambda>b. if f_of_nat b > 0 then Some (f_of_nat b) else None)"

definition stage_weights :: "candidate_score list \<Rightarrow> real list option" where
  "stage_weights stages =
     (let ws = map stage_weight stages
      in if None \<in> set ws then None else Some (map the ws))"

definition ideal_shares :: "nat \<Rightarrow> real list \<Rightarrow> real list" where
  "ideal_shares layers ws = map (\<lambda>w. f_div (f_mul (f_of_nat layers) w) (foldl f_add 0 ws)) ws"

definition remainder :: "real \<Rightarrow> real" where "remainder x = f_sub x (of_int \<lfloor>x\<rfloor>)"

definition remainder_order :: "real list \<Rightarrow> nat list" where
  "remainder_order ideal = sort_key (\<lambda>i. (- remainder (ideal ! i), i)) [0..<length ideal]"

definition largest_remainder :: "nat \<Rightarrow> real list \<Rightarrow> nat list" where
  "largest_remainder layers ideal =
     (let counts = map (\<lambda>x. nat \<lfloor>x\<rfloor>) ideal; left = layers - sum_list counts
      in foldl (\<lambda>cs i. cs[i := cs ! i + 1]) counts (take left (remainder_order ideal)))"

text \<open>The last of the largest stages gives a layer to a stage without one; a stage that has no other to take from ends the
  loop.\<close>

fun lift_empty :: "nat list \<Rightarrow> nat list \<Rightarrow> nat list" where
  "lift_empty [] counts = counts"
| "lift_empty (i # is) counts =
     (if counts ! i > 0 then lift_empty is counts
      else case max_by (\<lambda>j k. counts ! j > counts ! k) [0..<length counts] of
             None \<Rightarrow> counts
           | Some donor \<Rightarrow>
               if counts ! donor > 1
               then let counts1 = counts[donor := counts ! donor - 1] in lift_empty is (counts1[i := counts1 ! i + 1])
               else counts)"

fun spans_of :: "nat \<Rightarrow> nat list \<Rightarrow> (nat \<times> nat) list" where
  "spans_of cursor [] = []"
| "spans_of cursor (n # ns) = (let stop = as_u32 (cursor + as_u32 n) in (cursor, stop) # spans_of stop ns)"

definition layer_spans :: "candidate_score list \<Rightarrow> nat \<Rightarrow> (nat \<times> nat) list" where
  "layer_spans stages layers =
     (let n = length stages in
      if n = 0 \<or> layers \<le> n then uniform_spans n layers
      else case stage_weights stages of
             None \<Rightarrow> uniform_spans n layers
           | Some ws \<Rightarrow>
               if foldl f_add 0 ws \<le> 0 then uniform_spans n layers
               else spans_of 0 (lift_empty [0..<n] (largest_remainder layers (ideal_shares layers ws))))"

subsection \<open>The chain of stages\<close>

definition planner_edge :: "candidate_score \<Rightarrow> candidate_score \<Rightarrow> nat" where
  "planner_edge a b =
     (if cs_node_id a = cs_node_id b then 0
      else case (cs_coordinate a, cs_coordinate b) of
             (Some x, Some y) \<Rightarrow> if is_plausible x \<and> is_plausible y then predicted_rtt_micros x y else UNKNOWN_EDGE_MICROS
           | _ \<Rightarrow> UNKNOWN_EDGE_MICROS)"

fun hops_of :: "candidate_score list \<Rightarrow> nat list" where
  "hops_of (a # b # chain) = planner_edge a b # hops_of (b # chain)"
| "hops_of _ = []"

definition chain_cost :: "candidate_score list \<Rightarrow> nat \<Rightarrow> nat \<times> nat \<times> nat" where
  "chain_cost chain head_rank =
     (let hops = hops_of chain in (wrap_u64 (sum_list hops), if hops = [] then 0 else Max (set hops), head_rank))"

text \<open>The first device of every machine.\<close>

definition first_per_node :: "candidate_score list \<Rightarrow> nat list" where
  "first_per_node cands = filter (\<lambda>i. cs_node_id (cands ! i) \<notin> set (map cs_node_id (take i cands))) [0..<length cands]"

fun chain_from :: "candidate_score list \<Rightarrow> nat \<Rightarrow> nat list \<Rightarrow> nat list \<Rightarrow> nat list" where
  "chain_from cands 0 chain rest = chain"
| "chain_from cands (Suc n) chain rest =
     (case min_by_key (\<lambda>next. (planner_edge (cands ! last chain) (cands ! next), next)) rest of
        None \<Rightarrow> chain
      | Some next \<Rightarrow> chain_from cands n (chain @ [next]) (remove1 next rest))"

definition best_chain :: "candidate_score list \<Rightarrow> nat \<Rightarrow> nat list \<Rightarrow> nat list \<Rightarrow> ((nat \<times> nat \<times> nat) \<times> nat list) option" where
  "best_chain cands wanted machines heads =
     foldl (\<lambda>kept head. let chain = chain_from cands (wanted - 1) [head] (filter (\<lambda>i. i \<noteq> head) machines) in
        if length chain < wanted then kept
        else let cost = chain_cost (map (\<lambda>i. cands ! i) chain) head
             in case kept of None \<Rightarrow> Some (cost, chain) | Some (seen, _) \<Rightarrow> if cost < seen then Some (cost, chain) else kept)
       None heads"

definition order_pipeline :: "candidate_score list \<Rightarrow> nat \<Rightarrow> plan_error + candidate_score list" where
  "order_pipeline cands wanted =
     (if length cands < wanted then Inl TooFewDevices
      else let machines = first_per_node cands in
           if length machines < wanted then Inl TooFewMachines
           else let heads = filter (\<lambda>i. cs_prefill_eligible (cands ! i)) machines in
                if heads = [] then Inl NoPrefillHost
                else case best_chain cands wanted machines heads of
                       None \<Rightarrow> Inl PlannerPanic
                     | Some (_, chain) \<Rightarrow> Inr (map (\<lambda>i. cands ! i) chain))"

subsection \<open>The plan\<close>

definition stage_of :: "nat \<Rightarrow> candidate_score \<Rightarrow> nat \<times> nat \<Rightarrow> pipeline_stage" where
  "stage_of i cand sp = \<lparr> sg_stage_index = as_u32 i, sg_node_id = cs_node_id cand, sg_device_id = cs_device_id cand,
     sg_layer_start = fst sp, sg_layer_end = snd sp \<rparr>"

definition pipeline_for :: "candidate_score list \<Rightarrow> nat \<Rightarrow> pipeline_stage list" where
  "pipeline_for stages layers = map (\<lambda>(i, cand, sp). stage_of i cand sp) (List.enumerate 0 (zip stages (layer_spans stages layers)))"

definition tensor_group_for :: "candidate_score list \<Rightarrow> nat \<Rightarrow> tensor_group list" where
  "tensor_group_for cands n =
     map (\<lambda>(i, cand). \<lparr> tg_rank = as_u32 i, tg_node_id = cs_node_id cand, tg_device_id = cs_device_id cand \<rparr>)
       (List.enumerate 0 (take n cands))"

definition batches_for :: "candidate_score list \<Rightarrow> nat \<Rightarrow> batch_shard list" where
  "batches_for cands batch_size =
     (let workers = min (length cands) batch_size in
      map (\<lambda>(i, cand). \<lparr> bs_batch_start = as_u32 (batch_size * as_u32 i) div as_u32 workers,
                          bs_batch_end = as_u32 (batch_size * as_u32 (as_u32 i + 1)) div as_u32 workers,
                          bs_node_id = cs_node_id cand, bs_device_id = cs_device_id cand \<rparr>)
        (List.enumerate 0 (take workers cands)))"

definition plan_parallelism :: "candidate_score list \<Rightarrow> nat \<Rightarrow> inference_requirements \<Rightarrow> plan_error + parallelism_plan" where
  "plan_parallelism cands layers q =
     (if layers = 0 then Inl NoLayers
      else if rq_batch_size q = 0 then Inl NoBatch
      else let stages = max (rq_pipeline_stages q) 1; tensors = max (rq_tensor_parallelism q) 1 in
           if length cands < max stages tensors then Inl InsufficientDevices
           else qbind (if stages > 1 then qbind (order_pipeline cands stages) (\<lambda>ordered. Inr (pipeline_for ordered layers)) else Inr [])
             (\<lambda>pipeline. Inr \<lparr> pl_kinds = BatchParallel # (if stages > 1 then [PipelineParallel] else []) @ (if tensors > 1 then [ModelTensor] else []),
                pl_pipeline = pipeline, pl_tensor_group = (if tensors > 1 then tensor_group_for cands tensors else []),
                pl_batches = batches_for cands (rq_batch_size q) \<rparr>))"

fun gapless :: "('a \<Rightarrow> nat) \<Rightarrow> ('a \<Rightarrow> nat) \<Rightarrow> 'a list \<Rightarrow> bool" where
  "gapless lo hi (a # b # xs) \<longleftrightarrow> hi a = lo b \<and> gapless lo hi (b # xs)"
| "gapless lo hi _ \<longleftrightarrow> True"

definition validate_plan :: "parallelism_plan \<Rightarrow> nat \<Rightarrow> nat \<Rightarrow> plan_error + unit" where
  "validate_plan p layers batch_size =
     (let ps = pl_pipeline p; ts = pl_tensor_group p; bs = pl_batches p in
      if ps \<noteq> [] \<and> sg_layer_start (hd ps) \<noteq> 0 then Inl PipelineStart
      else if ps \<noteq> [] \<and> sg_layer_end (last ps) \<noteq> layers then Inl PipelineEnd
      else if \<not> gapless sg_layer_start sg_layer_end ps then Inl PipelineGap
      else if \<not> list_all (\<lambda>(i, t). tg_rank t = i) (List.enumerate 0 ts) then Inl TensorRanks
      else if bs \<noteq> [] \<and> bs_batch_start (hd bs) \<noteq> 0 then Inl BatchStart
      else if bs \<noteq> [] \<and> bs_batch_end (last bs) \<noteq> batch_size then Inl BatchEnd
      else if \<not> gapless bs_batch_start bs_batch_end bs then Inl BatchGap
      else if ps = [] \<and> ts = [] \<and> bs = [] then Inl EmptyPlan else Inr ())"

record failure_record =
  fr_node_id :: string
  fr_attempt :: nat
  fr_reason :: string

definition reroute :: "failure_record \<Rightarrow> string list \<Rightarrow> candidate_score list \<Rightarrow> plan_error + candidate_score" where
  "reroute failed prior cands =
     (case List.find (\<lambda>cand. cs_node_id cand \<noteq> fr_node_id failed \<and> cs_node_id cand \<notin> set prior) cands of
        None \<Rightarrow> Inl NoFailover | Some cand \<Rightarrow> Inr cand)"

section \<open>Lemmas\<close>

subsection \<open>Spans without gaps\<close>

lemma gapless_nth: "gapless lo hi xs \<longleftrightarrow> (\<forall>i. Suc i < length xs \<longrightarrow> hi (xs ! i) = lo (xs ! Suc i))"
proof (induction lo hi xs rule: gapless.induct)
  case (1 lo hi a b xs)
  have "(\<forall>i. Suc i < length (a # b # xs) \<longrightarrow> hi ((a # b # xs) ! i) = lo ((a # b # xs) ! Suc i)) \<longleftrightarrow>
      hi a = lo b \<and> (\<forall>i. Suc i < length (b # xs) \<longrightarrow> hi ((b # xs) ! i) = lo ((b # xs) ! Suc i))"
    by (auto simp: nth_Cons split: nat.splits)
  then show ?case using 1 by simp
qed simp_all

definition tiles :: "nat \<Rightarrow> (nat \<times> nat) list \<Rightarrow> bool" where
  "tiles n spans \<longleftrightarrow> spans \<noteq> [] \<and> fst (hd spans) = 0 \<and> snd (last spans) = n \<and> gapless fst snd spans"

lemma uniform_spans_ok:
  assumes "0 < n" "layers < 2 ^ 32"
  shows "tiles layers (uniform_spans n layers)" "length (uniform_spans n layers) = n"
    "n \<le> layers \<Longrightarrow> \<forall>s\<in>set (uniform_spans n layers). fst s < snd s"
proof -
  have small: "as_u32 (layers * i div n) = layers * i div n" if "i \<le> n" for i
  proof -
    have "layers * i div n \<le> layers * n div n" using that by (intro div_le_mono) simp
    then show ?thesis using assms by (simp add: as_u32_def)
  qed
  have spans: "uniform_spans n layers = map (\<lambda>i. (layers * i div n, layers * (i + 1) div n)) [0..<n]"
    unfolding uniform_spans_def by (rule map_cong) (simp_all add: small small[of "Suc _", simplified])
  show "length (uniform_spans n layers) = n" by (simp add: uniform_spans_def)
  show "tiles layers (uniform_spans n layers)"
  proof -
    have "layers + layers * (n - Suc 0) = layers * n" using assms(1) by (cases n) simp_all
    then show ?thesis using assms(1) by (simp add: tiles_def spans gapless_nth hd_map last_map)
  qed
  show "n \<le> layers \<Longrightarrow> \<forall>s\<in>set (uniform_spans n layers). fst s < snd s"
  proof -
    assume "n \<le> layers"
    then have "layers * i div n < layers * (i + 1) div n" for i
      using assms(1) by (metis add.commute add_mult_distrib2 div_add_self1 div_le_mono less_eq_Suc_le mult.commute mult_1 nat_add_left_cancel_le not_gr_zero plus_1_eq_Suc)
    then show ?thesis by (auto simp: spans)
  qed
qed

lemma spans_of_ok:
  assumes "cursor + sum_list ns < 2 ^ 32" "ns \<noteq> []"
  shows "length (spans_of cursor ns) = length ns \<and> fst (hd (spans_of cursor ns)) = cursor \<and>
    snd (last (spans_of cursor ns)) = cursor + sum_list ns \<and> gapless fst snd (spans_of cursor ns) \<and>
    ((\<forall>n\<in>set ns. 0 < n) \<longrightarrow> (\<forall>s\<in>set (spans_of cursor ns). fst s < snd s))"
  using assms
proof (induction ns arbitrary: cursor)
  case (Cons n ns)
  have u: "as_u32 n = n" "as_u32 (cursor + n) = cursor + n" using Cons.prems(1) by (simp_all add: as_u32_def)
  show ?case
  proof (cases ns)
    case Nil
    then show ?thesis by (simp add: u)
  next
    case (Cons m ms)
    note ih = Cons.IH[of "cursor + n"]
    then show ?thesis using Cons.prems(1) Cons u by (cases "spans_of (cursor + n) (m # ms)") (auto simp: Let_def)
  qed
qed simp

subsection \<open>Largest remainder\<close>

lemma foldl_bump:
  assumes "distinct is" "\<forall>i\<in>set is. i < length cs"
  shows "length (foldl (\<lambda>cs i. cs[i := cs ! i + 1]) cs is) = length cs \<and>
    sum_list (foldl (\<lambda>cs i. cs[i := cs ! i + 1]) cs is) = sum_list cs + length (is :: nat list)"
  using assms
proof (induction "is" arbitrary: cs)
  case (Cons i "is")
  have "sum_list (cs[i := cs ! i + 1 :: nat]) = sum_list cs + 1"
    using Cons.prems(2) elem_le_sum_list[of i cs] by (simp add: sum_list_update)
  then show ?case using Cons by simp
qed simp

lemma largest_remainder_ok:
  assumes "sum_list (map (\<lambda>x. nat \<lfloor>x\<rfloor>) ideal) \<le> layers" "layers \<le> sum_list (map (\<lambda>x. nat \<lfloor>x\<rfloor>) ideal) + length ideal"
  shows "length (largest_remainder layers ideal) = length ideal" "sum_list (largest_remainder layers ideal) = layers"
proof -
  let ?left = "layers - sum_list (map (\<lambda>x. nat \<lfloor>x\<rfloor>) ideal)"
  have o: "distinct (take ?left (remainder_order ideal))" "length (take ?left (remainder_order ideal)) = ?left"
    using assms(2) by (simp_all add: remainder_order_def)
  have "\<forall>i\<in>set (take ?left (remainder_order ideal)). i < length (map (\<lambda>x. nat \<lfloor>x\<rfloor>) ideal)"
    by (auto simp: remainder_order_def dest!: in_set_takeD)
  from foldl_bump[OF o(1) this] show "length (largest_remainder layers ideal) = length ideal" "sum_list (largest_remainder layers ideal) = layers"
    using assms(1) o(2) by (simp_all add: largest_remainder_def Let_def)
qed

text \<open>More layers than stages: a stage without one always finds another with two.\<close>

lemma lift_empty_ok:
  assumes "length counts < sum_list counts" "\<forall>i\<in>set is. i < length counts" "\<forall>i. i < length counts \<longrightarrow> i \<notin> set is \<longrightarrow> 0 < counts ! i"
  shows "length (lift_empty is counts) = length counts \<and> sum_list (lift_empty is counts) = sum_list counts \<and>
    (\<forall>n\<in>set (lift_empty is counts). 0 < n)"
  using assms
proof (induction "is" counts rule: lift_empty.induct)
  case (1 counts)
  then show ?case by (auto simp: in_set_conv_nth)
next
  case (2 i "is" counts)
  show ?case
  proof (cases "counts ! i > 0")
    case True
    then show ?thesis using "2.IH"(1)[OF True] "2.prems" by (auto simp: nth_Cons)
  next
    case False
    have i: "i < length counts" using "2.prems"(2) by simp
    obtain d where d: "max_by (\<lambda>j k. counts ! j > counts ! k) [0..<length counts] = Some d"
      using i by (cases "max_by (\<lambda>j k. counts ! j > counts ! k) [0..<length counts]") auto
    have dl: "d < length counts" using max_by_in[OF d] by simp
    have "\<not> counts ! d \<le> 1"
    proof
      assume "counts ! d \<le> 1"
      then have "\<forall>n\<in>set counts. n \<le> 1"
        using max_by_linorder[OF d] by (fastforce simp: in_set_conv_nth)
      then have "sum_list counts \<le> length counts" by (induction counts) auto
      then show False using "2.prems"(1) by simp
    qed
    then have big: "counts ! d > 1" by simp
    have ne: "d \<noteq> i" using big False by auto
    define c1 where "c1 = counts[d := counts ! d - 1]"
    define c2 where "c2 = c1[i := c1 ! i + 1]"
    have len: "length c2 = length counts" by (simp add: c2_def c1_def)
    have "sum_list c1 = sum_list counts - 1"
      using dl big elem_le_sum_list[of d counts] by (simp add: c1_def sum_list_update)
    moreover have "sum_list c2 = sum_list c1 + 1"
      using i elem_le_sum_list[of i c1] by (simp add: c2_def c1_def sum_list_update)
    ultimately have sum: "sum_list c2 = sum_list counts" using "2.prems"(1) by linarith
    have "0 < c2 ! j" if "j < length c2" "j \<notin> set is" for j
      using that "2.prems"(3) big ne i dl by (auto simp: c2_def c1_def nth_list_update)
    then have "length (lift_empty is c2) = length c2 \<and> sum_list (lift_empty is c2) = sum_list c2 \<and> (\<forall>n\<in>set (lift_empty is c2). 0 < n)"
      using "2.prems"(1,2) len sum by (intro "2.IH"(2)[OF False d big c1_def, folded c2_def]) auto
    then show ?thesis using False d big len sum by (simp add: c1_def c2_def Let_def)
  qed
qed

subsection \<open>Shares in floating point\<close>

lemma f_sum_rel:
  assumes "\<forall>w\<in>set ws. 0 \<le> w" "0 \<le> s"
  shows "(s + sum_list ws) * (1 - 2 powi (- 53)) ^ length ws \<le> foldl f_add s ws \<and>
    foldl f_add s ws * (1 - 2 powi (- 53)) ^ length ws \<le> s + sum_list ws"
  using assms
proof (induction ws arbitrary: s)
  case (Cons w ws)
  define u :: real where "u = 2 powi (- 53)"
  let ?q = "(1 - u) ^ length ws"
  have u: "0 < u" "u < 1" by (simp_all add: u_def power_int_minus)
  have q: "0 \<le> ?q" "?q \<le> 1" using u by (simp_all add: power_le_one)
  have sw: "0 \<le> s + w" "0 \<le> f_add s w" using Cons.prems by (simp_all add: f_add_nonneg)
  have err: "\<bar>f_add s w - (s + w)\<bar> \<le> u * (s + w)" using f_round_rel[of "s + w"] sw by (simp add: f_add_def u_def)
  have W: "0 \<le> sum_list ws" using Cons.prems by (intro sum_list_nonneg) auto
  note ih = Cons.IH[OF _ sw(2)]
  have ih: "(f_add s w + sum_list ws) * ?q \<le> foldl f_add (f_add s w) ws" "foldl f_add (f_add s w) ws * ?q \<le> f_add s w + sum_list ws"
    using ih Cons.prems(1) by (simp_all add: u_def)
  have lo: "(s + w) * (1 - u) \<le> f_add s w" using err by (simp add: algebra_simps abs_le_iff)
  have hi: "f_add s w * (1 - u) \<le> s + w"
  proof -
    have "f_add s w \<le> (s + w) * (1 + u)" using err by (simp add: algebra_simps abs_le_iff)
    then have "f_add s w * (1 - u) \<le> (s + w) * (1 + u) * (1 - u)" using u by (intro mult_right_mono) simp_all
    also have "\<dots> = (s + w) * (1 - u * u)" by (simp add: algebra_simps)
    also have "\<dots> \<le> (s + w) * 1" using sw u by (intro mult_left_mono) simp_all
    finally show ?thesis by simp
  qed
  have "(s + w + sum_list ws) * (1 - u) \<le> f_add s w + sum_list ws"
    using lo W u mult_left_mono[of "1 - u" 1 "sum_list ws"] by (simp add: distrib_right)
  then have "(s + w + sum_list ws) * (1 - u) * ?q \<le> (f_add s w + sum_list ws) * ?q" using q by (intro mult_right_mono)
  moreover have "foldl f_add (f_add s w) ws * ?q * (1 - u) \<le> (f_add s w + sum_list ws) * (1 - u)"
    using ih(2) u by (intro mult_right_mono) simp_all
  moreover have "(f_add s w + sum_list ws) * (1 - u) \<le> s + w + sum_list ws"
    using hi W u mult_left_mono[of "1 - u" 1 "sum_list ws"] by (simp add: distrib_right)
  ultimately show ?case using ih(1) unfolding u_def[symmetric] by (simp add: ac_simps)
qed simp

lemma share_bounds:
  assumes "0 < w" "0 < tot" "0 \<le> l"
  shows "l * w / tot * (1 - 2 powi (- 53))\<^sup>2 \<le> f_div (f_mul l w) tot" "f_div (f_mul l w) tot \<le> l * w / tot * (1 + 2 powi (- 53))\<^sup>2"
proof -
  define u :: real where "u = 2 powi (- 53)"
  have u: "0 < u" "u < 1" by (simp_all add: u_def power_int_minus)
  have rel: "x * (1 - u) \<le> f_round x \<and> f_round x \<le> x * (1 + u)" if "0 \<le> x" for x
    using f_round_rel[of x] that unfolding u_def[symmetric] by (simp add: algebra_simps abs_le_iff)
  have lw: "0 \<le> l * w" using assms by simp
  have m: "l * w * (1 - u) \<le> f_mul l w" "f_mul l w \<le> l * w * (1 + u)" using rel[OF lw] by (simp_all add: f_mul_def)
  have m0: "0 \<le> f_mul l w / tot" using lw assms by (simp add: f_mul_def)
  have "l * w / tot * (1 - u) \<le> f_mul l w / tot" "f_mul l w / tot \<le> l * w / tot * (1 + u)"
    using m[THEN divide_right_mono, of tot] assms(2) by simp_all
  then have "l * w / tot * (1 - u) * (1 - u) \<le> f_mul l w / tot * (1 - u)" "f_mul l w / tot * (1 + u) \<le> l * w / tot * (1 + u) * (1 + u)"
    using u by (simp_all only: mult_right_mono diff_ge_0_iff_ge add_nonneg_nonneg less_imp_le zero_le_one)
  moreover have "f_mul l w / tot * (1 - u) \<le> f_div (f_mul l w) tot" "f_div (f_mul l w) tot \<le> f_mul l w / tot * (1 + u)"
    using rel[OF m0] by (simp_all add: f_div_def)
  ultimately show "l * w / tot * (1 - 2 powi (- 53))\<^sup>2 \<le> f_div (f_mul l w) tot" "f_div (f_mul l w) tot \<le> l * w / tot * (1 + 2 powi (- 53))\<^sup>2"
    unfolding u_def[symmetric] power2_eq_square mult.assoc[symmetric] by linarith+
qed

lemma sum_list_floors:
  assumes "\<forall>x\<in>set xs. 0 \<le> (x :: real)"
  shows "real (sum_list (map (\<lambda>x. nat \<lfloor>x\<rfloor>) xs)) \<le> sum_list xs \<and>
    sum_list xs \<le> real (sum_list (map (\<lambda>x. nat \<lfloor>x\<rfloor>) xs)) + length xs"
  using assms
proof (induction xs)
  case (Cons x xs)
  have x: "real (nat \<lfloor>x\<rfloor>) \<le> x" "x \<le> real (nat \<lfloor>x\<rfloor>) + 1" using Cons.prems by simp_all
  have xs: "real (sum_list (map (\<lambda>x. nat \<lfloor>x\<rfloor>) xs)) \<le> sum_list xs \<and>
    sum_list xs \<le> real (sum_list (map (\<lambda>x. nat \<lfloor>x\<rfloor>) xs)) + length xs" using Cons by simp
  have "real (sum_list (map (\<lambda>x. nat \<lfloor>x\<rfloor>) (x # xs))) = real (nat \<lfloor>x\<rfloor>) + real (sum_list (map (\<lambda>x. nat \<lfloor>x\<rfloor>) xs))" by simp
  then show ?case using x xs unfolding sum_list.Cons length_Cons of_nat_Suc by linarith
qed simp

text \<open>Rounding neither hands out a layer too many nor loses more than one for every stage.\<close>

lemma ideal_shares_ok:
  assumes "\<forall>w\<in>set ws. 0 < w" "ws \<noteq> []" "length ws \<le> 2 ^ 16" "layers < 2 ^ 32"
  defines "counts \<equiv> map (\<lambda>x. nat \<lfloor>x\<rfloor>) (ideal_shares layers ws)"
  shows "sum_list counts \<le> layers" "layers \<le> sum_list counts + length ws"
proof -
  define u :: real where "u = 2 powi (- 53)"
  define tot where "tot = foldl f_add 0 ws"
  define S where "S = sum_list ws"
  define q where "q = (1 - u) ^ length ws"
  let ?n = "real (length ws)" and ?L = "real layers"
  have u: "0 < u" "u < 1" "u * 2 ^ 53 = 1" by (simp_all add: u_def power_int_minus)
  have S: "0 < S" using assms(1,2) unfolding S_def by (cases ws) (auto intro!: add_pos_nonneg sum_list_nonneg simp: less_imp_le)
  have T: "S * q \<le> tot" "tot * q \<le> S"
    using f_sum_rel[of ws 0] assms(1) by (auto simp: S_def q_def tot_def u_def less_imp_le)
  have q: "1 - ?n * u \<le> q" unfolding q_def using Bernoulli_inequality[of "- u" "length ws"] u by simp
  have uv: "u = 1 / 9007199254740992" by (simp add: u_def power_int_minus)
  have "?n \<le> 65536" using assms(3) by simp
  then have nu: "?n * u \<le> 1 / 137438953472" unfolding uv by simp
  have ql: "137438953471 / 137438953472 \<le> q" using q nu by simp
  have q0: "0 < q" using ql by simp
  have Lb: "?L \<le> 4294967295" using assms(4) by simp
  have t0: "0 < tot" using T(1) S q0 by (smt (verit) mult_pos_pos)
  have L: "f_of_nat layers = ?L" using assms(4) by (simp add: f_of_nat_exact)
  have ideal: "ideal_shares layers ws = map (\<lambda>w. f_div (f_mul ?L w) tot) ws" by (simp add: ideal_shares_def tot_def L)
  have lo: "?L * S / tot * (1 - u)\<^sup>2 \<le> sum_list (ideal_shares layers ws)"
  proof -
    have "sum_list (map (\<lambda>w. ?L * w / tot * (1 - u)\<^sup>2) ws) \<le> sum_list (ideal_shares layers ws)"
      unfolding ideal by (rule sum_list_mono) (use share_bounds(1)[OF _ t0, of _ ?L] assms(1) in \<open>simp add: u_def\<close>)
    moreover have "sum_list (map (\<lambda>w. ?L * w / tot * (1 - u)\<^sup>2) ws) = ?L * S / tot * (1 - u)\<^sup>2"
      unfolding S_def by (induction ws) (simp_all add: distrib_left distrib_right add_divide_distrib)
    ultimately show ?thesis by simp
  qed
  have hi: "sum_list (ideal_shares layers ws) \<le> ?L * S / tot * (1 + u)\<^sup>2"
  proof -
    have "sum_list (ideal_shares layers ws) \<le> sum_list (map (\<lambda>w. ?L * w / tot * (1 + u)\<^sup>2) ws)"
      unfolding ideal by (rule sum_list_mono) (use share_bounds(2)[OF _ t0, of _ ?L] assms(1) in \<open>simp add: u_def\<close>)
    moreover have "sum_list (map (\<lambda>w. ?L * w / tot * (1 + u)\<^sup>2) ws) = ?L * S / tot * (1 + u)\<^sup>2"
      unfolding S_def by (induction ws) (simp_all add: distrib_left distrib_right add_divide_distrib)
    ultimately show ?thesis by simp
  qed
  have "\<forall>x\<in>set (ideal_shares layers ws). 0 \<le> x"
    using t0 assms(1) unfolding ideal by (auto simp: f_div_def f_mul_def intro!: divide_nonneg_pos mult_nonneg_nonneg)
  note fl = sum_list_floors[OF this, folded counts_def]
  have r: "S / tot \<le> 1 / q" "q \<le> S / tot" using T t0 q0 by (simp_all add: field_simps)
  have "?L * S / tot * (1 + u)\<^sup>2 \<le> ?L * (1 / q) * (1 + u)\<^sup>2"
    using mult_left_mono[OF r(1), of ?L] by (intro mult_right_mono) simp_all
  also have "\<dots> < ?L + 1"
  proof -
    have "?L * (1 + u)\<^sup>2 \<le> ?L + 1 / 4" using Lb unfolding uv by (simp add: power2_eq_square)
    also have "\<dots> < (?L + 1) * (137438953471 / 137438953472)" using Lb by simp
    also have "\<dots> \<le> (?L + 1) * q" by (intro mult_left_mono ql) simp
    finally show ?thesis using q0 by (simp add: field_simps)
  qed
  finally have "real (sum_list counts) < ?L + 1" using hi fl by linarith
  then show "sum_list counts \<le> layers" by simp
  have "?L - 1 < ?L * (137438953471 / 137438953472) * (1 - u)\<^sup>2" using Lb unfolding uv by (simp add: power2_eq_square)
  also have "\<dots> \<le> ?L * (S / tot) * (1 - u)\<^sup>2" using order_trans[OF ql r(2)] by (intro mult_right_mono mult_left_mono) simp_all
  finally have "?L < real (sum_list counts) + length ws + 1" using lo fl by (simp add: ideal_shares_def)
  then show "layers \<le> sum_list counts + length ws" by linarith
qed

lemma stage_weight_pos: "stage_weight s = Some w \<Longrightarrow> 0 < w"
  by (auto simp: stage_weight_def split: bind_splits if_splits)

lemma stage_weights_ok:
  assumes "stage_weights stages = Some ws"
  shows "length ws = length stages \<and> (\<forall>w\<in>set ws. 0 < w)"
proof -
  have n: "None \<notin> set (map stage_weight stages)" and ws: "ws = map the (map stage_weight stages)"
    using assms by (auto simp: stage_weights_def Let_def simp del: map_map split: if_splits)
  have "0 < the (stage_weight s)" if "s \<in> set stages" for s
    using n that stage_weight_pos[of s] by (cases "stage_weight s") (auto simp: image_iff)
  then show ?thesis by (simp add: ws)
qed

lemma layer_spans_ok:
  assumes "stages \<noteq> []" "length stages \<le> 2 ^ 16" "layers < 2 ^ 32"
  shows "tiles layers (layer_spans stages layers)" "length (layer_spans stages layers) = length stages"
    "length stages \<le> layers \<Longrightarrow> \<forall>s\<in>set (layer_spans stages layers). fst s < snd s"
proof -
  let ?n = "length stages"
  have n: "0 < ?n" using assms(1) by simp
  note uni = uniform_spans_ok[OF n assms(3)]
  have "tiles layers (layer_spans stages layers) \<and> length (layer_spans stages layers) = ?n \<and>
    (?n \<le> layers \<longrightarrow> (\<forall>s\<in>set (layer_spans stages layers). fst s < snd s))"
  proof (cases "layers \<le> ?n \<or> stage_weights stages = None \<or> foldl f_add 0 (the (stage_weights stages)) \<le> 0")
    case True
    then have "layer_spans stages layers = uniform_spans ?n layers" using n by (auto simp: layer_spans_def Let_def split: option.splits)
    then show ?thesis using uni by simp
  next
    case False
    then obtain ws where ws: "stage_weights stages = Some ws" by auto
    note w = stage_weights_ok[OF ws]
    have wne: "ws \<noteq> []" using w n by auto
    define ideal where "ideal = ideal_shares layers ws"
    have li: "length ideal = ?n" using w by (simp add: ideal_def ideal_shares_def)
    have sh: "sum_list (map (\<lambda>x. nat \<lfloor>x\<rfloor>) ideal) \<le> layers" "layers \<le> sum_list (map (\<lambda>x. nat \<lfloor>x\<rfloor>) ideal) + length ideal"
      using ideal_shares_ok[of ws layers] w wne assms(2,3) li by (simp_all add: ideal_def)
    note lr = largest_remainder_ok[OF sh]
    have "length (largest_remainder layers ideal) < sum_list (largest_remainder layers ideal)" using False lr li by simp
    from lift_empty_ok[OF this, of "[0..<?n]"] lr li
    have up: "length (lift_empty [0..<?n] (largest_remainder layers ideal)) = ?n"
      "sum_list (lift_empty [0..<?n] (largest_remainder layers ideal)) = layers"
      "\<forall>n\<in>set (lift_empty [0..<?n] (largest_remainder layers ideal)). 0 < n" by simp_all
    have spans: "layer_spans stages layers = spans_of 0 (lift_empty [0..<?n] (largest_remainder layers ideal))"
      using False n ws by (simp add: layer_spans_def ideal_def)
    have ne: "lift_empty [0..<?n] (largest_remainder layers ideal) \<noteq> []" using up(1) n by auto
    from spans_of_ok[of 0, OF _ ne] up assms(3) show ?thesis unfolding spans tiles_def using n by auto
  qed
  then show "tiles layers (layer_spans stages layers)" "length (layer_spans stages layers) = ?n"
    "?n \<le> layers \<Longrightarrow> \<forall>s\<in>set (layer_spans stages layers). fst s < snd s" by blast+
qed

subsection \<open>The chain\<close>

lemma chain_from_ok:
  assumes "distinct (chain @ rest)" "chain \<noteq> []"
  shows "distinct (chain_from cands n chain rest) \<and> set (chain_from cands n chain rest) \<subseteq> set chain \<union> set rest \<and>
    length (chain_from cands n chain rest) = length chain + min n (length rest) \<and> hd (chain_from cands n chain rest) = hd chain"
  using assms
proof (induction cands n chain rest rule: chain_from.induct)
  case (2 cands n chain rest)
  let ?key = "\<lambda>next. (planner_edge (cands ! last chain) (cands ! next), next)"
  show ?case
  proof (cases "min_by_key ?key rest")
    case None
    then have "rest = []" by simp
    then show ?thesis by (simp add: min_by_key_def) (use "2.prems" in simp)
  next
    case (Some nx)
    have nx: "nx \<in> set rest" by (rule min_by_key_in[OF Some])
    have d: "distinct ((chain @ [nx]) @ remove1 nx rest)" using "2.prems"(1) nx by auto
    note ih = "2.IH"[OF Some d]
    have "length (remove1 nx rest) = length rest - 1" "0 < length rest" using nx by (auto simp: length_remove1)
    then have "Suc (min n (length (remove1 nx rest))) = min (Suc n) (length rest)" by linarith
    moreover have "set (remove1 nx rest) \<subseteq> set rest" by (rule set_remove1_subset)
    ultimately show ?thesis using ih Some nx "2.prems"(2) by auto
  qed
qed simp

lemma first_per_node_ok:
  "distinct (first_per_node cands)" "\<forall>i\<in>set (first_per_node cands). i < length cands"
  "inj_on (\<lambda>i. cs_node_id (cands ! i)) (set (first_per_node cands))"
proof -
  show "inj_on (\<lambda>i. cs_node_id (cands ! i)) (set (first_per_node cands))"
  proof (rule linorder_inj_onI')
    fix i j
    assume i: "i \<in> set (first_per_node cands)" and j: "j \<in> set (first_per_node cands)" and lt: "i < j"
    have "cands ! i \<in> set (take j cands)" using i j lt by (auto simp: first_per_node_def in_set_conv_nth)
    then show "cs_node_id (cands ! i) \<noteq> cs_node_id (cands ! j)" using j by (auto simp: first_per_node_def) (metis imageI)
  qed
qed (auto simp: first_per_node_def)

lemma best_chain_ok:
  assumes "\<forall>h\<in>set heads. length (chain_from cands (wanted - 1) [h] (filter (\<lambda>i. i \<noteq> h) machines)) = wanted"
    and "heads \<noteq> []"
  defines "chain_of \<equiv> \<lambda>h. chain_from cands (wanted - 1) [h] (filter (\<lambda>i. i \<noteq> h) machines)"
  shows "\<exists>h\<in>set heads. best_chain cands wanted machines heads =
      Some (chain_cost (map (\<lambda>i. cands ! i) (chain_of h)) h, chain_of h) \<and>
    (\<forall>h'\<in>set heads. chain_cost (map (\<lambda>i. cands ! i) (chain_of h)) h \<le> chain_cost (map (\<lambda>i. cands ! i) (chain_of h')) h')"
proof -
  let ?cost = "\<lambda>h. chain_cost (map (\<lambda>i. cands ! i) (chain_of h)) h"
  let ?step = "\<lambda>kept head. let chain = chain_from cands (wanted - 1) [head] (filter (\<lambda>i. i \<noteq> head) machines) in
        if length chain < wanted then kept
        else let cost = chain_cost (map (\<lambda>i. cands ! i) chain) head
             in case kept of None \<Rightarrow> Some (cost, chain) | Some (seen, _) \<Rightarrow> if cost < seen then Some (cost, chain) else kept"
  have gen: "\<exists>h\<in>insert h0 (set hs). foldl ?step (Some (?cost h0, chain_of h0)) hs = Some (?cost h, chain_of h) \<and>
      (\<forall>h'\<in>insert h0 (set hs). ?cost h \<le> ?cost h')" if "set hs \<subseteq> set heads" for h0 hs
    using that
  proof (induction hs arbitrary: h0)
    case (Cons x hs)
    have "?step (Some (?cost h0, chain_of h0)) x = (if ?cost x < ?cost h0 then Some (?cost x, chain_of x) else Some (?cost h0, chain_of h0))"
      using Cons.prems assms(1) by (auto simp: chain_of_def Let_def)
    then show ?case using Cons.IH[of "if ?cost x < ?cost h0 then x else h0"] Cons.prems
      by (auto split: if_splits)
  qed auto
  obtain h0 hs where h: "heads = h0 # hs" using assms(2) by (cases heads) auto
  have "?step None h0 = Some (?cost h0, chain_of h0)" using assms(1) h by (simp add: chain_of_def Let_def)
  then have "best_chain cands wanted machines heads = foldl ?step (Some (?cost h0, chain_of h0)) hs"
    by (simp only: best_chain_def h foldl_Cons)
  then show ?thesis using gen[of hs h0] h by auto
qed

lemma chains_full:
  assumes "h \<in> set (first_per_node cands)" "0 < wanted" "wanted \<le> length (first_per_node cands)"
  defines "chain \<equiv> chain_from cands (wanted - 1) [h] (filter (\<lambda>i. i \<noteq> h) (first_per_node cands))"
  shows "length chain = wanted" "distinct chain" "set chain \<subseteq> set (first_per_node cands)" "hd chain = h"
proof -
  let ?ms = "first_per_node cands"
  have "distinct ([h] @ filter (\<lambda>i. i \<noteq> h) ?ms)" using first_per_node_ok(1) by simp
  note ok = chain_from_ok[OF this, of cands "wanted - 1"]
  have "length (filter (\<lambda>i. i \<noteq> h) ?ms) = length ?ms - 1" by (rule length_remove_one[OF first_per_node_ok(1) assms(1)])
  then show "length chain = wanted" "distinct chain" "set chain \<subseteq> set ?ms" "hd chain = h"
    using ok assms(1-3) by (auto simp: chain_def)
qed

lemma order_pipeline_cases:
  assumes "0 < wanted"
  shows "(\<exists>stages. order_pipeline cands wanted = Inr stages \<and> length stages = wanted \<and> distinct (map cs_node_id stages) \<and>
      set stages \<subseteq> set cands \<and> cs_prefill_eligible (hd stages)) \<and> wanted \<le> length (first_per_node cands) \<and>
      (\<exists>i\<in>set (first_per_node cands). cs_prefill_eligible (cands ! i)) \<or>
    (\<exists>e\<in>{TooFewDevices, TooFewMachines, NoPrefillHost}. order_pipeline cands wanted = Inl e) \<and>
      (length (first_per_node cands) < wanted \<or> (\<forall>i\<in>set (first_per_node cands). \<not> cs_prefill_eligible (cands ! i)))"
proof -
  let ?ms = "first_per_node cands"
  let ?hs = "filter (\<lambda>i. cs_prefill_eligible (cands ! i)) ?ms"
  have "length ?ms \<le> length cands" by (simp add: first_per_node_def order_trans[OF length_filter_le])
  then consider "length cands < wanted \<or> length ?ms < wanted \<or> ?hs = []" | "wanted \<le> length cands" "wanted \<le> length ?ms" "?hs \<noteq> []"
    by linarith
  then show ?thesis
  proof cases
    case 1
    then show ?thesis using \<open>length ?ms \<le> length cands\<close> by (auto simp: order_pipeline_def Let_def filter_empty_conv)
  next
    case 2
    have full: "\<forall>h\<in>set ?hs. length (chain_from cands (wanted - 1) [h] (filter (\<lambda>i. i \<noteq> h) ?ms)) = wanted"
      using chains_full(1)[OF _ assms 2(2)] by simp
    obtain h where h: "h \<in> set ?hs" "best_chain cands wanted ?ms ?hs =
        Some (chain_cost (map (\<lambda>i. cands ! i) (chain_from cands (wanted - 1) [h] (filter (\<lambda>i. i \<noteq> h) ?ms))) h,
          chain_from cands (wanted - 1) [h] (filter (\<lambda>i. i \<noteq> h) ?ms))"
      using best_chain_ok[OF full 2(3)] by blast
    define chain where "chain = chain_from cands (wanted - 1) [h] (filter (\<lambda>i. i \<noteq> h) ?ms)"
    have c: "length chain = wanted" "distinct chain" "set chain \<subseteq> set ?ms" "hd chain = h"
      using chains_full[OF _ assms 2(2), of h] h(1) by (simp_all add: chain_def)
    have "order_pipeline cands wanted = Inr (map (\<lambda>i. cands ! i) chain)"
      using 2 h(2) by (simp add: order_pipeline_def Let_def chain_def)
    moreover have "distinct (map cs_node_id (map (\<lambda>i. cands ! i) chain))"
      using c(2,3) first_per_node_ok(3)[of cands] by (simp add: distinct_map inj_on_subset comp_def)
    moreover have "set (map (\<lambda>i. cands ! i) chain) \<subseteq> set cands" using c(3) first_per_node_ok(2)[of cands] by auto
    moreover have "cs_prefill_eligible (hd (map (\<lambda>i. cands ! i) chain))" using h(1) c(1,4) assms by (cases chain) auto
    ultimately show ?thesis using c(1) 2(2) h(1) by auto
  qed
qed

subsection \<open>The plan\<close>

lemma gapless_pairs: "gapless lo hi xs \<longleftrightarrow> gapless fst snd (map (\<lambda>x. (lo x, hi x)) xs)"
  by (simp add: gapless_nth)

lemma tiled_list:
  assumes "tiles n (map (\<lambda>x. (lo x, hi x)) xs)"
  shows "xs \<noteq> []" "lo (hd xs) = 0" "hi (last xs) = n" "gapless lo hi xs"
  using assms by (auto simp: tiles_def gapless_pairs[of lo hi] hd_map last_map)

lemma pipeline_spans:
  assumes "stages \<noteq> []" "length stages \<le> 2 ^ 16" "layers < 2 ^ 32"
  shows "map (\<lambda>s. (sg_layer_start s, sg_layer_end s)) (pipeline_for stages layers) = layer_spans stages layers"
    "map sg_node_id (pipeline_for stages layers) = map cs_node_id stages"
proof -
  have l: "length (layer_spans stages layers) = length stages" by (rule layer_spans_ok(2)[OF assms])
  show "map (\<lambda>s. (sg_layer_start s, sg_layer_end s)) (pipeline_for stages layers) = layer_spans stages layers"
    "map sg_node_id (pipeline_for stages layers) = map cs_node_id stages"
    by (rule nth_equalityI; simp add: pipeline_for_def stage_of_def nth_enumerate_eq l split: prod.splits)+
qed

lemma batches_spans:
  assumes "0 < batch_size" "cands \<noteq> []" "batch_size * min (length cands) batch_size < 2 ^ 32"
  shows "map (\<lambda>b. (bs_batch_start b, bs_batch_end b)) (batches_for cands batch_size) = uniform_spans (min (length cands) batch_size) batch_size"
proof -
  let ?w = "min (length cands) batch_size"
  have w: "0 < ?w" using assms by simp
  have le: "x \<le> batch_size * ?w" if "x \<le> ?w" for x using that assms(1) by (metis mult_le_mono1 le_trans mult_1 less_eq_Suc_le One_nat_def)
  have small: "as_u32 x = x" if "x \<le> batch_size * ?w" for x using that assms(3) by (simp add: as_u32_def)
  have divs: "x div ?w \<le> batch_size * ?w" if "x \<le> batch_size * ?w" for x using that by (meson div_le_dividend le_trans)
  show ?thesis
  proof (rule nth_equalityI)
    fix i
    assume "i < length (map (\<lambda>b. (bs_batch_start b, bs_batch_end b)) (batches_for cands batch_size))"
    then have i: "i < ?w" by (simp add: batches_for_def Let_def)
    have iw: "i \<le> ?w" "i + 1 \<le> ?w" using i by simp_all
    then have b: "batch_size * i \<le> batch_size * ?w" "batch_size * (i + 1) \<le> batch_size * ?w" by (simp_all only: mult_le_mono2)
    have s: "as_u32 i = i" "as_u32 (i + 1) = i + 1" "as_u32 ?w = ?w" by (rule small[OF le[OF iw(1)]], rule small[OF le[OF iw(2)]], rule small[OF le[OF order_refl]])
    show "map (\<lambda>b. (bs_batch_start b, bs_batch_end b)) (batches_for cands batch_size) ! i = uniform_spans ?w batch_size ! i"
      using i b s small divs by (simp add: batches_for_def uniform_spans_def Let_def nth_enumerate_eq del: min_less_iff_conj)
  qed (simp add: batches_for_def uniform_spans_def Let_def)
qed

lemma plan_pipeline:
  assumes "plan_parallelism cands layers q = Inr plan" "layers < 2 ^ 32" "rq_pipeline_stages q \<le> 2 ^ 16"
  shows "if rq_pipeline_stages q > 1
    then tiles layers (map (\<lambda>s. (sg_layer_start s, sg_layer_end s)) (pl_pipeline plan)) \<and>
      length (pl_pipeline plan) = rq_pipeline_stages q \<and> distinct (map sg_node_id (pl_pipeline plan)) \<and>
      (\<exists>cand\<in>set cands. cs_prefill_eligible cand \<and> cs_node_id cand = sg_node_id (hd (pl_pipeline plan))) \<and>
      (rq_pipeline_stages q \<le> layers \<longrightarrow> (\<forall>s\<in>set (pl_pipeline plan). sg_layer_start s < sg_layer_end s))
    else pl_pipeline plan = []"
proof (cases "rq_pipeline_stages q > 1")
  case True
  obtain stages where st: "order_pipeline cands (rq_pipeline_stages q) = Inr stages" "pl_pipeline plan = pipeline_for stages layers"
    using assms(1) True by (auto simp: plan_parallelism_def Let_def max_def split: if_splits)
  have s: "length stages = rq_pipeline_stages q" "distinct (map cs_node_id stages)" "set stages \<subseteq> set cands" "cs_prefill_eligible (hd stages)"
    using order_pipeline_cases[of "rq_pipeline_stages q" cands] st(1) True by auto
  have ne: "stages \<noteq> []" using s(1) True by auto
  have l: "length stages \<le> 2 ^ 16" using s(1) assms(3) by simp
  note sp = pipeline_spans[OF ne l assms(2)] and ls = layer_spans_ok[OF ne l assms(2)]
  have "hd (map sg_node_id (pl_pipeline plan)) = cs_node_id (hd stages)" using sp(2) ne by (simp add: st(2) hd_map)
  moreover have len: "length (pl_pipeline plan) = length stages" using sp(2) by (metis length_map st(2))
  then have "pl_pipeline plan \<noteq> []" using ne by auto
  ultimately have head: "cs_node_id (hd stages) = sg_node_id (hd (pl_pipeline plan))" by (simp add: hd_map)
  have "\<forall>s\<in>set (pl_pipeline plan). sg_layer_start s < sg_layer_end s" if "length stages \<le> layers"
    using ls(3)[OF that] unfolding sp(1)[symmetric] st(2)[symmetric] by auto
  then show ?thesis using True s ls(1) sp head len ne by (auto simp: st(2) intro!: bexI[of _ "hd stages"])
qed (use assms(1) in \<open>auto simp: plan_parallelism_def Let_def max_def split: if_splits\<close>)

lemma plan_batches:
  assumes "plan_parallelism cands layers q = Inr plan" "rq_batch_size q * min (length cands) (rq_batch_size q) < 2 ^ 32"
  shows "tiles (rq_batch_size q) (map (\<lambda>b. (bs_batch_start b, bs_batch_end b)) (pl_batches plan))"
    "length (pl_batches plan) = min (length cands) (rq_batch_size q)" "\<forall>b\<in>set (pl_batches plan). bs_batch_start b < bs_batch_end b"
proof -
  let ?b = "rq_batch_size q" and ?w = "min (length cands) (rq_batch_size q)"
  have p: "0 < ?b" "cands \<noteq> []" "pl_batches plan = batches_for cands ?b"
    using assms(1) by (auto simp: plan_parallelism_def Let_def split: if_splits)
  note sp = batches_spans[OF p(1,2) assms(2)]
  have w: "0 < ?w" using p by simp
  have "?b * 1 \<le> ?b * ?w" using w by (intro mult_le_mono2) linarith
  then have "?b < 2 ^ 32" using assms(2) by linarith
  note uni = uniform_spans_ok[OF w this]
  show "tiles ?b (map (\<lambda>b. (bs_batch_start b, bs_batch_end b)) (pl_batches plan))" using uni(1) sp p(3) by simp
  show "length (pl_batches plan) = ?w" using uni(2) sp p(3) by (metis length_map)
  have "\<forall>s\<in>set (map (\<lambda>b. (bs_batch_start b, bs_batch_end b)) (pl_batches plan)). fst s < snd s"
    using uni(3) by (simp add: sp p(3) del: set_map)
  then show "\<forall>b\<in>set (pl_batches plan). bs_batch_start b < bs_batch_end b" by simp
qed

lemma tensor_ranks: "n < 2 ^ 32 \<Longrightarrow> list_all (\<lambda>(i, t). tg_rank t = i) (List.enumerate 0 (tensor_group_for cands n))"
  by (auto simp: list_all_length nth_enumerate_eq tensor_group_for_def as_u32_def)

lemma plan_succeeds:
  "(\<exists>plan. plan_parallelism cands layers q = Inr plan) \<longleftrightarrow>
     0 < layers \<and> 0 < rq_batch_size q \<and> max (max (rq_pipeline_stages q) 1) (max (rq_tensor_parallelism q) 1) \<le> length cands \<and>
     (rq_pipeline_stages q > 1 \<longrightarrow> rq_pipeline_stages q \<le> length (first_per_node cands) \<and>
        (\<exists>i\<in>set (first_per_node cands). cs_prefill_eligible (cands ! i)))"
proof (cases "0 < layers \<and> 0 < rq_batch_size q \<and> max (max (rq_pipeline_stages q) 1) (max (rq_tensor_parallelism q) 1) \<le> length cands")
  case True
  show ?thesis
  proof (cases "rq_pipeline_stages q > 1")
    case more: True
    then show ?thesis using True order_pipeline_cases[of "rq_pipeline_stages q" cands]
      by (fastforce simp: plan_parallelism_def Let_def max_def)
  qed (use True in \<open>auto simp: plan_parallelism_def Let_def max_def\<close>)
next
  case False
  then show ?thesis by (auto simp: plan_parallelism_def Let_def)
qed

lemma plan_errors:
  "plan_parallelism cands layers q = Inl e \<Longrightarrow> e \<in> {NoLayers, NoBatch, InsufficientDevices, TooFewDevices, TooFewMachines, NoPrefillHost}"
  using order_pipeline_cases[of "max (rq_pipeline_stages q) 1" cands]
  by (auto simp: plan_parallelism_def Let_def qbind_def split: if_splits sum.splits)

section \<open>Properties\<close>



definition demo_candidate :: "string \<Rightarrow> nat \<Rightarrow> candidate_score" where
  "demo_candidate name bandwidth = \<lparr> cs_node_id = name, cs_device_id = ''gpu0'', cs_score = 0, cs_estimated_transfer_bytes = 0,
     cs_memory_bandwidth_bytes_per_second = Some bandwidth, cs_coordinate = None, cs_prefill_eligible = True \<rparr>"

definition demo_requirements :: "nat \<Rightarrow> nat \<Rightarrow> inference_requirements" where
  "demo_requirements batch stages = \<lparr> rq_required_backends = [], rq_minimum_memory_bytes = 0, rq_needs_fp16 = False,
     rq_needs_bf16 = False, rq_needs_int8 = False, rq_batch_size = batch, rq_pipeline_stages = stages, rq_tensor_parallelism = 1 \<rparr>"

lemma demo_machines: "first_per_node [demo_candidate ''a'' x, demo_candidate ''b'' y] = [0, 1]"
  by (simp add: first_per_node_def demo_candidate_def upt_rec)

lemma demo_plan: "\<exists>plan. plan_parallelism [demo_candidate ''a'' x, demo_candidate ''b'' y] 8 (demo_requirements 3 2) = Inr plan"
  unfolding plan_succeeds demo_machines by (simp add: demo_requirements_def demo_candidate_def)



text \<open>A plan for more prompts than the product fits in 32 bits does not pass the check: half of \<open>2 ^ 32\<close> prompts for two machines.\<close>

lemma large_batch_breaks_the_plan:
  "\<exists>plan. plan_parallelism [demo_candidate ''a'' 1, demo_candidate ''b'' 1] 8 (demo_requirements (2 ^ 31) 1) = Inr plan \<and>
     validate_plan plan 8 (2 ^ 31) = Inl BatchEnd"
  by (simp add: plan_parallelism_def demo_requirements_def Let_def validate_plan_def batches_for_def as_u32_def List.enumerate_simps)

end
