(* ===== verification/Inference.thy ===== *)
theory Inference
  imports Planning Polling
begin

text \<open>
  Inference jobs at a coordinator (the AI endpoints of \<open>hocmesh-coordinator/src/api.rs\<close>, the requests of
  \<open>hocmesh-ai/src/lib.rs\<close> they answer, and the sweep of \<open>main.rs\<close>): publishing a model, planning, submitting prompts
  against escrow, delivering answers, taking delivery, judging, reclaiming and handing a batch on.

  The conventions are those of the work a coordinator hands out: a stretch between two connections is one function on the
  tables, the clock and the answers of the validators are arguments.  The state adds three tables to the coordinator's;
  a column that holds JSON holds the value that was encoded, and the sets of the source are lists.
\<close>

section \<open>Definitions\<close>

subsection \<open>Requests\<close>

record submit_inference_request =
  sq_auth :: auth_proof
  sq_model_id :: string
  sq_revision :: string
  sq_prompts :: "string list"
  sq_max_tokens :: nat
  sq_billing :: inference_billing
  sq_temperature_milli :: nat
  sq_seed :: nat
  sq_requirements :: inference_requirements
  sq_layer_count :: nat

datatype request_error = EmptyModelReference | PromptCount | PromptLength | MaxTokensRange | TemperatureRange | BatchSizeMismatch
  | NoLayerCount

definition submit_request_validate :: "submit_inference_request \<Rightarrow> request_error + unit" where
  "submit_request_validate r =
     (if sq_model_id r = [] \<or> sq_revision r = [] then Inl EmptyModelReference
      else if sq_prompts r = [] \<or> length (sq_prompts r) > 256 then Inl PromptCount
      else if \<not> list_all (\<lambda>p. p \<noteq> [] \<and> length p \<le> 1000000) (sq_prompts r) then Inl PromptLength
      else if \<not> (0 < sq_max_tokens r \<and> sq_max_tokens r \<le> 32768) then Inl MaxTokensRange
      else if sq_temperature_milli r > 5000 then Inl TemperatureRange
      else if rq_batch_size (sq_requirements r) \<noteq> length (sq_prompts r) then Inl BatchSizeMismatch
      else if sq_layer_count r = 0 then Inl NoLayerCount else Inr ())"

record inference_assignment =
  ia_assignment_id :: string
  ia_job_id :: string
  ia_manifest :: model_manifest
  ia_seed_peers :: "string list"
  ia_prompts :: "(nat \<times> string) list"
  ia_max_tokens :: nat
  ia_temperature_milli :: nat
  ia_seed :: nat
  ia_device_id :: string
  ia_lease_seconds :: int

record prompt_output =
  po_prompt_index :: nat
  po_text :: string
  po_output_sha256 :: string
  po_duration_ms :: nat

definition output_valid :: "crypto \<Rightarrow> prompt_output \<Rightarrow> bool" where
  "output_valid c p \<longleftrightarrow> hash_bytes c (po_text p) = po_output_sha256 p"

record report_inference_request =
  rr_auth :: auth_proof
  rr_assignment_id :: string
  rr_job_id :: string
  rr_batch_start :: nat
  rr_batch_end :: nat
  rr_reward_mcu :: int
  rr_outputs :: "prompt_output list"

record refund_inference_request =
  fq_auth :: auth_proof
  fq_job_id :: string
  fq_assignment_id :: string
  fq_batch_start :: nat
  fq_batch_end :: nat
  fq_refund_mcu :: int

subsection \<open>What is signed\<close>

definition backend_json :: "backend_kind \<Rightarrow> json" where
  "backend_json b = JStr (case b of Cuda \<Rightarrow> ''cuda'' | Rocm \<Rightarrow> ''rocm'' | Metal \<Rightarrow> ''metal'' | Cpu \<Rightarrow> ''cpu'')"

definition requirements_json :: "inference_requirements \<Rightarrow> json" where
  "requirements_json q = JObj
     [(''required_backends'', JArr (map backend_json (rq_required_backends q))),
      (''minimum_memory_bytes'', jnat (rq_minimum_memory_bytes q)), (''needs_fp16'', JBool (rq_needs_fp16 q)),
      (''needs_bf16'', JBool (rq_needs_bf16 q)), (''needs_int8'', JBool (rq_needs_int8 q)),
      (''batch_size'', jnat (rq_batch_size q)), (''pipeline_stages'', jnat (rq_pipeline_stages q)),
      (''tensor_parallelism'', jnat (rq_tensor_parallelism q))]"

definition prompt_output_json :: "prompt_output \<Rightarrow> json" where
  "prompt_output_json p = JObj [(''prompt_index'', jnat (po_prompt_index p)), (''text'', JStr (po_text p)),
     (''output_sha256'', JStr (po_output_sha256 p)), (''duration_ms'', jnat (po_duration_ms p))]"

definition register_model_body_hash :: "crypto \<Rightarrow> model_manifest \<Rightarrow> string" where
  "register_model_body_hash c m = hash_json c (model_manifest_json m)"

definition inference_settings_digest :: "crypto \<Rightarrow> submit_inference_request \<Rightarrow> string" where
  "inference_settings_digest c r = hash_json c (JArr [JStr (sq_model_id r), JStr (sq_revision r), jnat (sq_temperature_milli r),
     jnat (sq_seed r), requirements_json (sq_requirements r), jnat (sq_layer_count r)])"

definition submit_inference_hash :: "crypto \<Rightarrow> submit_inference_request \<Rightarrow> string" where
  "submit_inference_hash c r = inference_submit_body_hash c (inference_billing_hash c (sq_billing r)) (inference_settings_digest c r)"

definition outputs_hash :: "crypto \<Rightarrow> prompt_output list \<Rightarrow> string" where
  "outputs_hash c os = hash_json c (JArr (map prompt_output_json os))"

definition report_inference_body_hash :: "crypto \<Rightarrow> report_inference_request \<Rightarrow> string" where
  "report_inference_body_hash c r = inference_reward_body_hash c (rr_assignment_id r) (rr_job_id r) (rr_batch_start r) (rr_batch_end r)
     (rr_reward_mcu r) (outputs_hash c (rr_outputs r))"

definition refund_inference_hash :: "crypto \<Rightarrow> refund_inference_request \<Rightarrow> string" where
  "refund_inference_hash c r = inference_refund_body_hash c (fq_assignment_id r) (fq_job_id r) (fq_batch_start r) (fq_batch_end r) (fq_refund_mcu r)"

definition fail_inference_body_hash :: "crypto \<Rightarrow> string \<Rightarrow> string \<Rightarrow> string" where
  "fail_inference_body_hash c aid reason = hash_json c (JArr [JStr aid, JStr reason])"

definition plan_body_hash :: "crypto \<Rightarrow> string \<Rightarrow> string \<Rightarrow> inference_requirements \<Rightarrow> nat \<Rightarrow> string list \<Rightarrow> string" where
  "plan_body_hash c model revision q layers excluded =
     hash_json c (JArr [JStr model, JStr revision, requirements_json q, jnat layers, JArr (map JStr excluded)])"

subsection \<open>Bills\<close>

definition prompt_bytes :: "string list \<Rightarrow> nat list" where
  "prompt_bytes prompts = map length prompts"

definition prompts_digest :: "crypto \<Rightarrow> string list \<Rightarrow> string" where
  "prompts_digest c prompts = hash_json c (JArr (map JStr prompts))"

definition bill_for_prompts :: "crypto \<Rightarrow> string \<Rightarrow> nat \<Rightarrow> nat \<Rightarrow> string list \<Rightarrow> nat \<Rightarrow> inference_billing" where
  "bill_for_prompts c mdigest parameter_count total_size_bytes prompts max_tokens =
     \<lparr> ib_manifest_digest = mdigest, ib_parameter_count = parameter_count, ib_total_size_bytes = total_size_bytes,
       ib_prompts_digest = prompts_digest c prompts, ib_prompt_bytes = prompt_bytes prompts, ib_max_tokens = max_tokens,
       ib_max_cost_mcu = inference_cost_mcu (prompt_bytes prompts) max_tokens parameter_count \<rparr>"

definition assignment_claim :: "inference_assignment \<Rightarrow> (nat \<times> nat \<times> int) option" where
  "assignment_claim a =
     (case (ia_prompts a, mm_parameter_count (ia_manifest a)) of
        ((first, _) # _, Some parameter_count) \<Rightarrow>
          Some (first, as_u32 (fst (last (ia_prompts a)) + 1),
                inference_cost_mcu (map (\<lambda>(_, p). length p) (ia_prompts a)) (ia_max_tokens a) parameter_count)
      | _ \<Rightarrow> None)"

datatype ai_error = Core api_error | BadRequest request_error | BadManifestSent manifest_error | UnknownModel | UnknownAiJob
  | UnknownAiAssignment | BillForOtherRevision | UnpricedModel | BillForOtherModel | ImplausibleParameters | BillForOtherPrompts
  | CostsTooMuch | NoEligibleDevice | CannotPlan plan_error | AiInternal | NoCredit | FundingPending | NoOutputs | OutputDigest
  | NotLeased | OutputIndexes | NoPriceableBatch | ClaimMismatch | SelfReward | NotDelivered | NotRequester | TakeDeliveryFirst
  | AlreadySettled | LedgerRejected | RefundMismatch | InsideWindow | BadReason | NoFailoverDevice

definition check_inference_bill :: "crypto \<Rightarrow> submit_inference_request \<Rightarrow> model_manifest \<Rightarrow> string \<Rightarrow> ai_error + int" where
  "check_inference_bill c r m mdigest =
     (let b = sq_billing r in
      if ib_manifest_digest b \<noteq> mdigest then Inl BillForOtherRevision
      else case mm_parameter_count m of
        None \<Rightarrow> Inl UnpricedModel
      | Some parameter_count \<Rightarrow>
          if ib_parameter_count b \<noteq> parameter_count \<or> ib_total_size_bytes b \<noteq> mm_total_size_bytes m then Inl BillForOtherModel
          else if \<not> parameter_count_is_plausible (ib_parameter_count b) (ib_total_size_bytes b) then Inl ImplausibleParameters
          else if ib_max_tokens b \<noteq> sq_max_tokens r \<or> ib_prompt_bytes b \<noteq> prompt_bytes (sq_prompts r) \<or>
                  ib_prompts_digest b \<noteq> prompts_digest c (sq_prompts r) then Inl BillForOtherPrompts
          else let cost = inference_cost_mcu (ib_prompt_bytes b) (ib_max_tokens b) (ib_parameter_count b) in
               if cost > ib_max_cost_mcu b then Inl CostsTooMuch else Inr cost)"

subsection \<open>Tables\<close>

record manifest_row =
  mr_digest :: string
  mr_manifest :: model_manifest
  mr_publisher_node_id :: string
  mr_created_at :: int

record ai_job_row =
  aj_requester_node_id :: string
  aj_request :: submit_inference_request
  aj_plan :: parallelism_plan
  aj_manifest_digest :: string
  aj_status :: string
  aj_created_at :: int
  aj_completed_at :: "int option"

record ai_assignment_row =
  aa_job_id :: string
  aa_assigned_node_id :: string
  aa_assignment :: inference_assignment
  aa_status :: string
  aa_lease_until :: "int option"
  aa_outputs :: "prompt_output list option"
  aa_failure_count :: int
  aa_failed_nodes :: "string list"
  aa_completed_at :: "int option"
  aa_report :: "report_inference_request option"
  aa_outputs_digest :: "string option"
  aa_receipted :: bool
  aa_settled :: "string option"
  aa_receipt_auth :: "auth_proof option"
  aa_rowid :: nat

record ai_state =
  ai_core :: coordinator
  ai_manifests :: "(string \<times> string, manifest_row) fmap"
  ai_jobs :: "(string, ai_job_row) fmap"
  ai_assignments :: "(string, ai_assignment_row) fmap"

type_synonym 'a ai_step = "ai_state \<times> (ai_error + 'a)"

definition ai_bind :: "'a ai_step \<Rightarrow> ('a \<Rightarrow> ai_state \<Rightarrow> 'b ai_step) \<Rightarrow> 'b ai_step" where
  "ai_bind r k = (case r of (st, Inl e) \<Rightarrow> (st, Inl e) | (st, Inr v) \<Rightarrow> k v st)"

text \<open>A step on the coordinator's own tables, and a check that reads.\<close>

definition on_core :: "ai_state \<Rightarrow> 'a step \<Rightarrow> 'a ai_step" where
  "on_core st r = (case r of (co, Inl e) \<Rightarrow> (st\<lparr> ai_core := co \<rparr>, Inl (Core e)) | (co, Inr v) \<Rightarrow> (st\<lparr> ai_core := co \<rparr>, Inr v))"

definition reading :: "ai_state \<Rightarrow> ai_error + 'a \<Rightarrow> 'a ai_step" where
  "reading st r = (st, r)"

definition ai_authenticate :: "crypto \<Rightarrow> int \<Rightarrow> auth_proof \<Rightarrow> string \<Rightarrow> string \<Rightarrow> ai_state \<Rightarrow> unit ai_step" where
  "ai_authenticate c now auth action body_hash st = on_core st (authenticate_known_node c now now auth action body_hash (ai_core st))"

definition public_key_of :: "ai_state \<Rightarrow> string \<Rightarrow> ai_error + string" where
  "public_key_of st n = (case fmlookup (co_nodes (ai_core st)) n of None \<Rightarrow> Inl AiInternal | Some r \<Rightarrow> Inr (nd_public_key_b64 r))"

text \<open>How every answer that carries a balance ends.\<close>

definition ai_report_balance :: "int option option \<Rightarrow> string \<Rightarrow> ai_state \<Rightarrow> int ai_step" where
  "ai_report_balance quorum n st = on_core st (report_balance quorum n (ai_core st))"

subsection \<open>Models\<close>

definition register_model :: "crypto \<Rightarrow> int \<Rightarrow> auth_proof \<Rightarrow> model_manifest \<Rightarrow> ai_state \<Rightarrow> string ai_step" where
  "register_model c now auth m st =
     (case manifest_digest c m of
        Inl e \<Rightarrow> (st, Inl (BadManifestSent e))
      | Inr d \<Rightarrow> ai_bind (ai_authenticate c now auth ''register_model'' (register_model_body_hash c m) st) (\<lambda>_ st1.
          (st1\<lparr> ai_manifests := fmupd (mm_model_id m, mm_revision m)
             \<lparr> mr_digest = d, mr_manifest = m, mr_publisher_node_id = ap_node_id auth, mr_created_at = now \<rparr> (ai_manifests st1) \<rparr>,
           Inr d)))"

definition get_model :: "string \<Rightarrow> string \<Rightarrow> ai_state \<Rightarrow> ai_error + model_manifest" where
  "get_model model revision st =
     (case fmlookup (ai_manifests st) (model, revision) of None \<Rightarrow> Inl UnknownModel | Some r \<Rightarrow> Inr (mr_manifest r))"

definition list_models :: "ai_state \<Rightarrow> model_manifest list" where
  "list_models st = map (\<lambda>(_, r). mr_manifest r) (fm_assoc (ai_manifests st))"

subsection \<open>Who can run a model\<close>

definition NODE_ONLINE_SECS :: int where "NODE_ONLINE_SECS = 30"

definition ascii_lowercase :: "string \<Rightarrow> string" where
  "ascii_lowercase s = map (\<lambda>ch. let b = of_char ch :: nat in if 65 \<le> b \<and> b \<le> 90 then char_of (b + 32) else ch) s"

definition backend_of :: "string \<Rightarrow> backend_kind option" where
  "backend_of s =
     (let l = ascii_lowercase s in
      if l = ''cuda'' then Some Cuda else if l = ''rocm'' \<or> l = ''hip'' then Some Rocm
      else if l = ''metal'' then Some Metal else if l = ''cpu'' then Some Cpu else None)"

definition protocol_gpu_to_device :: "gpu_capability \<Rightarrow> device_capability option" where
  "protocol_gpu_to_device g =
     map_option (\<lambda>b. \<lparr> dv_stable_id = gp_stable_id g, dv_backend = b, dv_vendor = gp_vendor g, dv_name = gp_name g,
        dv_memory_bytes = map_option (\<lambda>mb. wrap_u64 (wrap_u64 (mb * 1024) * 1024)) (gp_memory_mb g),
        dv_driver_version = gp_driver_version g, dv_compute_version = gp_compute_version g,
        dv_supports_fp16 = gp_supports_fp16 g, dv_supports_bf16 = gp_supports_bf16 g, dv_supports_int8 = gp_supports_int8 g,
        dv_memory_bandwidth_bytes_per_second = gp_benchmark_bytes_per_second g \<rparr>) (backend_of (gp_backend g))"

definition stored_coordinate :: "coordinator \<Rightarrow> string \<Rightarrow> network_coordinate option" where
  "stored_coordinate co n =
     Option.bind (fmlookup (co_nodes co) n) (\<lambda>r. Option.bind (cp_network_coordinate (nd_capabilities r))
       (\<lambda>x. if is_plausible x then Some x else None))"

definition scoring_latency_ms :: "network_coordinate option \<Rightarrow> node_capabilities \<Rightarrow> real" where
  "scoring_latency_ms requester worker =
     (let micros = (case (requester, cp_network_coordinate worker) of
            (Some from, Some to) \<Rightarrow> if is_plausible to then predicted_rtt_micros from to else cp_coordinator_latency_micros worker
          | _ \<Rightarrow> cp_coordinator_latency_micros worker)
      in max (f_div (f_of_nat micros) 1000) (f_round (1 / 10)))"

definition ranking_bandwidth_mbps :: "node_capabilities \<Rightarrow> real" where
  "ranking_bandwidth_mbps caps =
     max (f_div (f_of_nat (case measured_uplink_kbps caps of None \<Rightarrow> ASSUMED_KBPS | Some k \<Rightarrow> k)) 1000) (f_round (1 / 1000))"

definition profile_of :: "network_coordinate option \<Rightarrow> string \<Rightarrow> model_manifest \<Rightarrow> string \<times> node_row \<Rightarrow> node_profile" where
  "profile_of requester d m nr =
     (let caps = nd_capabilities (snd nr) in
      \<lparr> np_node_id = fst nr, np_devices = List.map_filter protocol_gpu_to_device (cp_gpus caps),
        np_cached_chunks = (if d \<in> set (cp_cached_model_manifests caps) then map ck_sha256 (mm_chunks m) else []),
        np_network_latency_ms = scoring_latency_ms requester caps, np_bandwidth_mbps = ranking_bandwidth_mbps caps,
        np_load_fraction = f_div (f_of_nat (min (cp_load_permille caps) 1000)) 1000, np_recent_failures = 0, np_online = True,
        np_memory_bandwidth_bytes_per_second = cp_memory_bandwidth_bytes_per_second caps,
        np_coordinate = cp_network_coordinate caps, np_prefill_eligible = can_serve caps Prefill \<rparr>)"

text \<open>The manifest, its digest, the machines that are online and can run a model, and the addresses of those that hold it.\<close>

definition ai_context ::
  "crypto \<Rightarrow> int \<Rightarrow> string \<Rightarrow> string \<Rightarrow> string \<Rightarrow> ai_state \<Rightarrow> ai_error + model_manifest \<times> string \<times> node_profile list \<times> string list" where
  "ai_context c now requester model revision st =
     qbind (get_model model revision st) (\<lambda>m.
     qbind (map_err (\<lambda>_. AiInternal) (manifest_digest c m)) (\<lambda>d.
     let from = stored_coordinate (ai_core st) requester;
         rows = filter (\<lambda>(n, r). nd_last_seen r \<ge> now - NODE_ONLINE_SECS \<and> n \<noteq> requester \<and> cp_ai_runtime_ready (nd_capabilities r))
                  (fm_assoc (co_nodes (ai_core st)))
     in Inr (m, d, map (profile_of from d m) rows,
             List.map_filter (\<lambda>(_, r). if d \<in> set (cp_cached_model_manifests (nd_capabilities r))
                                       then cp_model_seed_url (nd_capabilities r) else None) rows)))"

definition checked_plan :: "candidate_score list \<Rightarrow> nat \<Rightarrow> inference_requirements \<Rightarrow> ai_error + parallelism_plan" where
  "checked_plan cands layers q =
     (if cands = [] then Inl NoEligibleDevice
      else qbind (map_err CannotPlan (plan_parallelism cands layers q)) (\<lambda>plan.
           qbind (map_err (\<lambda>_. AiInternal) (validate_plan plan layers (rq_batch_size q))) (\<lambda>_. Inr plan)))"

definition plan_ai ::
  "crypto \<Rightarrow> int \<Rightarrow> auth_proof \<Rightarrow> string \<Rightarrow> string \<Rightarrow> inference_requirements \<Rightarrow> nat \<Rightarrow> string list \<Rightarrow> ai_state \<Rightarrow>
   (string \<times> candidate_score list \<times> parallelism_plan) ai_step" where
  "plan_ai c now auth model revision q layers excluded st =
     ai_bind (ai_authenticate c now auth ''plan_ai'' (plan_body_hash c model revision q layers excluded) st) (\<lambda>_ st1.
     reading st1 (qbind (ai_context c now (ap_node_id auth) model revision st1) (\<lambda>(m, d, nodes, _).
       let cands = rank_candidates m q nodes excluded
       in qbind (checked_plan cands layers q) (\<lambda>plan. Inr (d, cands, plan)))))"

subsection \<open>Submitting prompts\<close>

record inference_job =
  ij_manifest :: model_manifest
  ij_digest :: string
  ij_plan :: parallelism_plan
  ij_seed_peers :: "string list"
  ij_requester_pk :: string
  ij_cost :: int

text \<open>First stretch: everything that is checked before the balance is read.\<close>

definition submit_inference_check :: "crypto \<Rightarrow> int \<Rightarrow> submit_inference_request \<Rightarrow> ai_state \<Rightarrow> inference_job ai_step" where
  "submit_inference_check c now r st =
     (case submit_request_validate r of
        Inl e \<Rightarrow> (st, Inl (BadRequest e))
      | Inr _ \<Rightarrow> ai_bind (ai_authenticate c now (sq_auth r) ''submit_inference'' (submit_inference_hash c r) st) (\<lambda>_ st1.
          reading st1
            (qbind (ai_context c now (ap_node_id (sq_auth r)) (sq_model_id r) (sq_revision r) st1) (\<lambda>(m, d, nodes, seeds).
             qbind (check_inference_bill c r m d) (\<lambda>cost.
             qbind (checked_plan (rank_candidates m (sq_requirements r) nodes []) (sq_layer_count r) (sq_requirements r)) (\<lambda>plan.
             qbind (public_key_of st1 (ap_node_id (sq_auth r))) (\<lambda>pk.
             Inr \<lparr> ij_manifest = m, ij_digest = d, ij_plan = plan, ij_seed_peers = seeds, ij_requester_pk = pk, ij_cost = cost \<rparr>)))))))"

definition priced_batches :: "parallelism_plan \<Rightarrow> priced_batch list" where
  "priced_batches p = map (\<lambda>b. \<lparr> pb_batch_start = bs_batch_start b, pb_batch_end = bs_batch_end b, pb_node_id = bs_node_id b \<rparr>) (pl_batches p)"

definition inference_reserve_transaction :: "crypto \<Rightarrow> int \<Rightarrow> submit_inference_request \<Rightarrow> inference_job \<Rightarrow> ledger_transaction" where
  "inference_reserve_transaction c now r j =
     (let job = inference_job_id_from_auth c (sq_auth r) in
      \<lparr> tx_transaction_id = ''reserve_'' @ job, tx_kind = InferenceReserve,
        tx_postings = [\<lparr> p_account_id = ap_node_id (sq_auth r), p_delta_mcu = - ij_cost j \<rparr>,
                       \<lparr> p_account_id = escrow_account job, p_delta_mcu = ij_cost j \<rparr>],
        tx_evidence = EvInferenceReserve \<lparr> ir_job_id = job, ir_requester_public_key_b64 = ij_requester_pk j,
          ir_requester_auth = sq_auth r, ir_billing = sq_billing r, ir_settings_digest = inference_settings_digest c r,
          ir_batches = priced_batches (ij_plan j) \<rparr>,
        tx_created_at = now \<rparr>)"

definition assignment_for :: "crypto \<Rightarrow> submit_inference_request \<Rightarrow> inference_job \<Rightarrow> nat \<times> batch_shard \<Rightarrow> inference_assignment" where
  "assignment_for c r j ib =
     (let job = inference_job_id_from_auth c (sq_auth r); b = snd ib in
      \<lparr> ia_assignment_id = inference_assignment_id c job (as_u32 (fst ib)), ia_job_id = job, ia_manifest = ij_manifest j,
        ia_seed_peers = ij_seed_peers j, ia_prompts = map (\<lambda>i. (i, sq_prompts r ! i)) [bs_batch_start b ..< bs_batch_end b],
        ia_max_tokens = sq_max_tokens r, ia_temperature_milli = sq_temperature_milli r, ia_seed = sq_seed r,
        ia_device_id = bs_device_id b, ia_lease_seconds = DEFAULT_LEASE_SECONDS \<rparr>)"

definition insert_ai_assignment ::
  "crypto \<Rightarrow> submit_inference_request \<Rightarrow> inference_job \<Rightarrow> string \<Rightarrow> nat \<times> batch_shard \<Rightarrow> (string, ai_assignment_row) fmap \<Rightarrow>
   ai_error + (string, ai_assignment_row) fmap" where
  "insert_ai_assignment c r j status ib m =
     (let a = assignment_for c r j ib in
      if fmlookup m (ia_assignment_id a) \<noteq> None then Inl AiInternal
      else Inr (fmupd (ia_assignment_id a)
             \<lparr> aa_job_id = ia_job_id a, aa_assigned_node_id = bs_node_id (snd ib), aa_assignment = a, aa_status = status,
               aa_lease_until = None, aa_outputs = None, aa_failure_count = 0, aa_failed_nodes = [], aa_completed_at = None,
               aa_report = None, aa_outputs_digest = None, aa_receipted = False, aa_settled = None, aa_receipt_auth = None,
               aa_rowid = Suc (fcard (fmdom m)) \<rparr> m))"

text \<open>Second stretch: the job, its charge without a ledger, its batches and the intent, all in one transaction.\<close>

definition submit_inference_record ::
  "crypto \<Rightarrow> int \<Rightarrow> submit_inference_request \<Rightarrow> inference_job \<Rightarrow> ledger_transaction option \<Rightarrow> ai_state \<Rightarrow> unit ai_step" where
  "submit_inference_record c now r j t st =
     (let job = inference_job_id_from_auth c (sq_auth r); requester = ap_node_id (sq_auth r);
          row = \<lparr> aj_requester_node_id = requester, aj_request = r, aj_plan = ij_plan j, aj_manifest_digest = ij_digest j,
                  aj_status = (if t = None then ''pending'' else ''funding''), aj_created_at = now, aj_completed_at = None \<rparr>;
          done =
            (if fmlookup (ai_jobs st) job \<noteq> None then Inl AiInternal
             else qbind (if t = None
                         then map_err Core (apply_ledger_delta now requester (- ij_cost j) ''inference_reservation'' (Some job) None (ai_core st))
                         else Inr (ai_core st)) (\<lambda>co.
                  qbind (fold_result (insert_ai_assignment c r j (if t = None then ''pending'' else ''blocked''))
                           (List.enumerate 0 (pl_batches (ij_plan j))) (ai_assignments st)) (\<lambda>assigned.
                  Inr (st\<lparr> ai_core := (case t of None \<Rightarrow> co | Some tr \<Rightarrow> persist_ledger_intent now (claim_key tr) ''inference_reserve'' job tr co),
                           ai_jobs := fmupd job row (ai_jobs st), ai_assignments := assigned \<rparr>))))
      in case done of Inl e \<Rightarrow> (st, Inl e) | Inr st' \<Rightarrow> (st', Inr ()))"

definition finalize_inference_reservation :: "int \<Rightarrow> string \<Rightarrow> string \<Rightarrow> string \<Rightarrow> ai_state \<Rightarrow> ai_state" where
  "finalize_inference_reservation now job ck ehash st =
     st\<lparr> ai_core := certify_ledger_intent now ck ehash (ai_core st),
         ai_jobs := fst (update_where job (\<lambda>r. aj_status r = ''funding'') (\<lambda>r. r\<lparr> aj_status := ''pending'' \<rparr>) (ai_jobs st)),
         ai_assignments := update_all (\<lambda>r. aa_job_id r = job \<and> aa_status r = ''blocked'') (\<lambda>r. r\<lparr> aa_status := ''pending'' \<rparr>)
           (ai_assignments st) \<rparr>"

definition submit_inference ::
  "crypto \<Rightarrow> int \<Rightarrow> (ledger_transaction \<Rightarrow> string option) option \<Rightarrow> int option option \<Rightarrow> submit_inference_request \<Rightarrow> ai_state \<Rightarrow>
   (string \<times> string \<times> nat \<times> parallelism_plan) ai_step" where
  "submit_inference c now ledger quorum r st =
     ai_bind (submit_inference_check c now r st) (\<lambda>j st1.
     case authoritative_balance quorum (ap_node_id (sq_auth r)) (ai_core st1) of
       Inl e \<Rightarrow> (st1, Inl (Core e))
     | Inr b \<Rightarrow>
         if b < ij_cost j then (st1, Inl NoCredit)
         else let t = map_option (\<lambda>_. inference_reserve_transaction c now r j) ledger; job = inference_job_id_from_auth c (sq_auth r) in
         ai_bind (submit_inference_record c now r j t st1) (\<lambda>_ st2.
         ai_bind (case (ledger, t) of
             (Some transact, Some tr) \<Rightarrow>
               (case transact tr of
                  None \<Rightarrow> (st2, Inl FundingPending)
                | Some ehash \<Rightarrow> (finalize_inference_reservation now job (claim_key tr) ehash st2, Inr ()))
           | _ \<Rightarrow> (st2, Inr ())) (\<lambda>_ st3.
         (st3, Inr (job, ij_digest j, as_u32 (length (pl_batches (ij_plan j))), ij_plan j)))))"

subsection \<open>Running a batch\<close>

definition ai_release_expired :: "int \<Rightarrow> ai_state \<Rightarrow> ai_state" where
  "ai_release_expired now st =
     st\<lparr> ai_assignments := update_all
       (\<lambda>r. aa_status r = ''leased'' \<and> (case aa_lease_until r of None \<Rightarrow> False | Some t \<Rightarrow> t < now))
       (\<lambda>r. r\<lparr> aa_status := ''pending'', aa_lease_until := None \<rparr>) (ai_assignments st) \<rparr>"

definition next_batch :: "string \<Rightarrow> ai_state \<Rightarrow> (string \<times> ai_assignment_row) option" where
  "next_batch n st =
     (case sort_key (\<lambda>(_, r). aa_rowid r) (filter (\<lambda>(_, r). aa_assigned_node_id r = n \<and> aa_status r = ''pending'') (fm_assoc (ai_assignments st))) of
        [] \<Rightarrow> None | x # _ \<Rightarrow> Some x)"

definition set_ai_assignment ::
  "string \<Rightarrow> (ai_assignment_row \<Rightarrow> bool) \<Rightarrow> (ai_assignment_row \<Rightarrow> ai_assignment_row) \<Rightarrow> ai_state \<Rightarrow> ai_state" where
  "set_ai_assignment aid guard f st = st\<lparr> ai_assignments := fst (update_where aid guard f (ai_assignments st)) \<rparr>"

definition poll_inference :: "crypto \<Rightarrow> int \<Rightarrow> auth_proof \<Rightarrow> ai_state \<Rightarrow> inference_assignment option ai_step" where
  "poll_inference c now auth st =
     ai_bind (ai_authenticate c now auth ''poll_inference'' (empty_body_hash c) st) (\<lambda>_ st1.
     let st2 = ai_release_expired now st1 in
     case next_batch (ap_node_id auth) st2 of
       None \<Rightarrow> (st2, Inr None)
     | Some (aid, a) \<Rightarrow>
         (set_ai_assignment aid (\<lambda>r. aa_status r = ''pending'')
            (\<lambda>r. r\<lparr> aa_status := ''leased'', aa_lease_until := Some (now + DEFAULT_LEASE_SECONDS) \<rparr>) st2, Inr (Some (aa_assignment a))))"

definition ai_row :: "string \<Rightarrow> ai_state \<Rightarrow> ai_error + ai_assignment_row" where
  "ai_row aid st = (case fmlookup (ai_assignments st) aid of None \<Rightarrow> Inl UnknownAiAssignment | Some r \<Rightarrow> Inr r)"

text \<open>First stretch of a report: the row must be leased to the node and the claim must be the one its batch implies.\<close>

definition report_check :: "report_inference_request \<Rightarrow> ai_state \<Rightarrow> ai_error + string" where
  "report_check r st =
     qbind (ai_row (rr_assignment_id r) st) (\<lambda>row.
     if aa_assigned_node_id row \<noteq> ap_node_id (rr_auth r) then Inl UnknownAiAssignment
     else if aa_status row \<noteq> ''leased'' then Inl NotLeased
     else let actual = map po_prompt_index (rr_outputs r) in
     if set actual \<noteq> set (map fst (ia_prompts (aa_assignment row))) \<or> \<not> distinct actual then Inl OutputIndexes
     else case assignment_claim (aa_assignment row) of
            None \<Rightarrow> Inl NoPriceableBatch
          | Some (lo, hi, reward) \<Rightarrow>
              if rr_job_id r \<noteq> aa_job_id row \<or> rr_batch_start r \<noteq> lo \<or> rr_batch_end r \<noteq> hi \<or> rr_reward_mcu r \<noteq> reward
              then Inl ClaimMismatch
              else case fmlookup (ai_jobs st) (aa_job_id row) of
                     None \<Rightarrow> Inl AiInternal
                   | Some job \<Rightarrow> if aj_requester_node_id job = ap_node_id (rr_auth r) then Inl SelfReward else Inr (aa_job_id row))"

definition report_record :: "crypto \<Rightarrow> int \<Rightarrow> report_inference_request \<Rightarrow> string \<Rightarrow> ai_state \<Rightarrow> ai_state \<times> bool" where
  "report_record c now r job st =
     (let st1 = set_ai_assignment (rr_assignment_id r) (\<lambda>_. True)
            (\<lambda>row. row\<lparr> aa_status := ''completed'', aa_outputs := Some (rr_outputs r), aa_lease_until := None, aa_completed_at := Some now,
                      aa_report := Some r, aa_outputs_digest := Some (outputs_hash c (rr_outputs r)) \<rparr>) st;
          all_done = fmpred (\<lambda>_ row. aa_job_id row = job \<longrightarrow> aa_status row = ''completed'') (ai_assignments st1)
      in (if all_done
          then st1\<lparr> ai_jobs := fst (update_where job (\<lambda>_. True) (\<lambda>j. j\<lparr> aj_status := ''completed'', aj_completed_at := Some now \<rparr>) (ai_jobs st1)) \<rparr>
          else st1, all_done))"

definition report_inference ::
  "crypto \<Rightarrow> int \<Rightarrow> int option option \<Rightarrow> report_inference_request \<Rightarrow> ai_state \<Rightarrow> (int \<times> int \<times> bool) ai_step" where
  "report_inference c now quorum r st =
     (if rr_outputs r = [] then (st, Inl NoOutputs)
      else if \<not> list_all (output_valid c) (rr_outputs r) then (st, Inl OutputDigest)
      else ai_bind (ai_authenticate c now (rr_auth r) ''report_inference'' (report_inference_body_hash c r) st) (\<lambda>_ st1.
           ai_bind (reading st1 (report_check r st1)) (\<lambda>job st2.
           let (st3, finished) = report_record c now r job st2 in
           ai_bind (ai_report_balance quorum (ap_node_id (rr_auth r)) st3) (\<lambda>b st4. (st4, Inr (rr_reward_mcu r, b, finished))))))"

subsection \<open>Delivery and judgement\<close>

record delivered_batch =
  db_job_id :: string
  db_requester :: string
  db_report :: report_inference_request
  db_outputs :: "prompt_output list"
  db_outputs_digest :: string
  db_provider_pk :: string
  db_requester_pk :: string
  db_receipted :: bool
  db_settled :: "string option"

definition delivered_batch :: "string \<Rightarrow> ai_state \<Rightarrow> ai_error + delivered_batch" where
  "delivered_batch aid st =
     qbind (ai_row aid st) (\<lambda>a.
     case (aa_report a, aa_outputs a, aa_outputs_digest a) of
       (Some report, Some outputs, Some d) \<Rightarrow>
         (case fmlookup (ai_jobs st) (aa_job_id a) of
            None \<Rightarrow> Inl AiInternal
          | Some job \<Rightarrow>
              qbind (public_key_of st (aj_requester_node_id job)) (\<lambda>requester_pk.
              qbind (public_key_of st (ap_node_id (rr_auth report))) (\<lambda>provider_pk.
              Inr \<lparr> db_job_id = aa_job_id a, db_requester = aj_requester_node_id job, db_report = report, db_outputs = outputs,
                    db_outputs_digest = d, db_provider_pk = provider_pk, db_requester_pk = requester_pk,
                    db_receipted = aa_receipted a, db_settled = aa_settled a \<rparr>)))
     | _ \<Rightarrow> Inl NotDelivered)"

definition receipt_transaction :: "int \<Rightarrow> string \<Rightarrow> auth_proof \<Rightarrow> delivered_batch \<Rightarrow> ledger_transaction" where
  "receipt_transaction now aid auth b =
     (let rep = db_report b in
      \<lparr> tx_transaction_id = ''receipt_'' @ aid, tx_kind = InferenceReceipt,
        tx_postings = [\<lparr> p_account_id = escrow_account (db_job_id b), p_delta_mcu = - rr_reward_mcu rep \<rparr>,
                       \<lparr> p_account_id = inference_holding_account aid, p_delta_mcu = rr_reward_mcu rep \<rparr>],
        tx_evidence = EvInferenceReceipt \<lparr> rc_job_id = db_job_id b, rc_assignment_id = aid, rc_batch_start = rr_batch_start rep,
          rc_batch_end = rr_batch_end rep, rc_price_mcu = rr_reward_mcu rep, rc_outputs_digest = db_outputs_digest b,
          rc_requester_public_key_b64 = db_requester_pk b, rc_requester_auth = auth \<rparr>,
        tx_created_at = now \<rparr>)"

text \<open>The answer is handed over against a receipt, and again to whoever signs for it once more.\<close>

definition receipt_inference ::
  "crypto \<Rightarrow> int \<Rightarrow> (ledger_transaction \<Rightarrow> string option) option \<Rightarrow> auth_proof \<Rightarrow> string \<Rightarrow> ai_state \<Rightarrow> prompt_output list ai_step" where
  "receipt_inference c now ledger auth aid st =
     (case delivered_batch aid st of
        Inl e \<Rightarrow> (st, Inl e)
      | Inr b \<Rightarrow>
          if db_requester b \<noteq> ap_node_id auth then (st, Inl NotRequester)
          else ai_bind (ai_authenticate c now auth ''receipt_inference''
                 (inference_receipt_body_hash c aid (db_job_id b) (rr_batch_start (db_report b)) (rr_batch_end (db_report b))
                    (rr_reward_mcu (db_report b)) (db_outputs_digest b)) st) (\<lambda>_ st1.
               if db_receipted b then (st1, Inr (db_outputs b))
               else if (case ledger of None \<Rightarrow> False | Some transact \<Rightarrow> transact (receipt_transaction now aid auth b) = None)
               then (st1, Inl LedgerRejected)
               else (set_ai_assignment aid (\<lambda>_. True) (\<lambda>a. a\<lparr> aa_receipted := True, aa_receipt_auth := Some auth \<rparr>) st1,
                     Inr (db_outputs b))))"

definition settle_transaction :: "int \<Rightarrow> string \<Rightarrow> auth_proof \<Rightarrow> bool \<Rightarrow> string \<Rightarrow> delivered_batch \<Rightarrow> ledger_transaction" where
  "settle_transaction now aid auth accepted reason b =
     (let rep = db_report b; price = rr_reward_mcu rep;
          credit = (if accepted then ap_node_id (rr_auth rep) else COMMUNITY_ISSUANCE_ACCOUNT) in
      \<lparr> tx_transaction_id = ''settle_'' @ aid, tx_kind = (if accepted then InferenceReward else InferenceDispute),
        tx_postings = [\<lparr> p_account_id = inference_holding_account aid, p_delta_mcu = - price \<rparr>,
                       \<lparr> p_account_id = credit, p_delta_mcu = price \<rparr>],
        tx_evidence =
          (if accepted
           then EvInferenceReward \<lparr> iw_job_id = db_job_id b, iw_assignment_id = aid, iw_batch_start = rr_batch_start rep,
                  iw_batch_end = rr_batch_end rep, iw_reward_mcu = price, iw_outputs_digest = db_outputs_digest b,
                  iw_provider_public_key_b64 = db_provider_pk b, iw_provider_auth = rr_auth rep,
                  iw_requester_public_key_b64 = db_requester_pk b, iw_requester_acceptance = auth \<rparr>
           else EvInferenceDispute \<lparr> dp_job_id = db_job_id b, dp_assignment_id = aid, dp_batch_start = rr_batch_start rep,
                  dp_batch_end = rr_batch_end rep, dp_price_mcu = price, dp_outputs_digest = db_outputs_digest b,
                  dp_reason = reason, dp_requester_public_key_b64 = db_requester_pk b, dp_requester_auth = auth \<rparr>),
        tx_created_at = now \<rparr>)"

definition settle_check :: "crypto \<Rightarrow> int \<Rightarrow> auth_proof \<Rightarrow> string \<Rightarrow> bool \<Rightarrow> ai_state \<Rightarrow> delivered_batch ai_step" where
  "settle_check c now auth aid accepted st =
     (case delivered_batch aid st of
        Inl e \<Rightarrow> (st, Inl e)
      | Inr b \<Rightarrow>
          if db_requester b \<noteq> ap_node_id auth then (st, Inl NotRequester)
          else if \<not> db_receipted b then (st, Inl TakeDeliveryFirst)
          else if db_settled b \<noteq> None then (st, Inl AlreadySettled)
          else ai_bind (ai_authenticate c now auth (if accepted then ''accept_inference'' else ''dispute_inference'')
                 (inference_verdict_body_hash c accepted aid (db_job_id b) (rr_batch_start (db_report b)) (rr_batch_end (db_report b))
                    (rr_reward_mcu (db_report b)) (db_outputs_digest b)) st) (\<lambda>_ st1. (st1, Inr b)))"

text \<open>The verdict is written once; without a ledger an accepted batch is paid here.\<close>

definition settle_record :: "int \<Rightarrow> bool \<Rightarrow> string \<Rightarrow> bool \<Rightarrow> delivered_batch \<Rightarrow> ai_state \<Rightarrow> bool ai_step" where
  "settle_record now has_ledger aid accepted b st =
     (if \<not> snd (update_where aid (\<lambda>a. aa_settled a = None) id (ai_assignments st)) then (st, Inl AlreadySettled)
      else let st1 = set_ai_assignment aid (\<lambda>a. aa_settled a = None)
                  (\<lambda>a. a\<lparr> aa_settled := Some (if accepted then ''paid'' else ''disputed'') \<rparr>) st in
           case (if \<not> has_ledger \<and> accepted
                 then map_err Core (apply_ledger_delta now (ap_node_id (rr_auth (db_report b))) (rr_reward_mcu (db_report b))
                        ''inference_reward'' (Some (db_job_id b)) (Some aid) (ai_core st1))
                 else Inr (ai_core st1)) of
             Inl e \<Rightarrow> (st, Inl e)
           | Inr co \<Rightarrow> (st1\<lparr> ai_core := co \<rparr>,
               Inr (fmpred (\<lambda>_ a. \<not> (aa_job_id a = db_job_id b \<and> aa_settled a = None \<and> aa_status a \<noteq> ''refunded'')) (ai_assignments st1))))"

definition settle_inference ::
  "crypto \<Rightarrow> int \<Rightarrow> (ledger_transaction \<Rightarrow> string option) option \<Rightarrow> int option option \<Rightarrow> auth_proof \<Rightarrow> string \<Rightarrow> bool \<Rightarrow> string \<Rightarrow>
   ai_state \<Rightarrow> (int \<times> bool) ai_step" where
  "settle_inference c now ledger quorum auth aid accepted reason st =
     ai_bind (settle_check c now auth aid accepted st) (\<lambda>b st1.
     if (case ledger of None \<Rightarrow> False | Some transact \<Rightarrow> transact (settle_transaction now aid auth accepted reason b) = None)
     then (st1, Inl LedgerRejected)
     else ai_bind (settle_record now (ledger \<noteq> None) aid accepted b st1) (\<lambda>finished st2.
          ai_bind (if accepted then ai_report_balance quorum (ap_node_id (rr_auth (db_report b))) st2 else (st2, Inr 0)) (\<lambda>_ st3.
          (st3, Inr (rr_reward_mcu (db_report b), finished)))))"

subsection \<open>Reclaiming and handing on\<close>

definition refund_inference_check :: "crypto \<Rightarrow> int \<Rightarrow> refund_inference_request \<Rightarrow> ai_state \<Rightarrow> string ai_step" where
  "refund_inference_check c now r st =
     ai_bind (ai_authenticate c now (fq_auth r) ''refund_inference'' (refund_inference_hash c r) st) (\<lambda>_ st1.
     reading st1
       (case fmlookup (ai_jobs st1) (fq_job_id r) of
          None \<Rightarrow> Inl UnknownAiJob
        | Some job \<Rightarrow>
            if aj_requester_node_id job \<noteq> ap_node_id (fq_auth r) then Inl NotRequester
            else qbind (ai_row (fq_assignment_id r) st1) (\<lambda>a.
                 if aa_job_id a \<noteq> fq_job_id r then Inl UnknownAiAssignment
                 else if final_status (aa_status a) then Inl AlreadySettled
                 else case assignment_claim (aa_assignment a) of
                        None \<Rightarrow> Inl NoPriceableBatch
                      | Some (lo, hi, amount) \<Rightarrow>
                          if fq_batch_start r \<noteq> lo \<or> fq_batch_end r \<noteq> hi \<or> fq_refund_mcu r \<noteq> amount then Inl RefundMismatch
                          else qbind (public_key_of st1 (ap_node_id (fq_auth r))) (\<lambda>pk.
                               if now \<le> aj_created_at job + SETTLEMENT_WINDOW_SECS then Inl InsideWindow else Inr pk))))"

definition inference_refund_transaction :: "int \<Rightarrow> refund_inference_request \<Rightarrow> string \<Rightarrow> ledger_transaction" where
  "inference_refund_transaction now r pk =
     \<lparr> tx_transaction_id = ''refund_'' @ fq_assignment_id r, tx_kind = InferenceRefund,
       tx_postings = [\<lparr> p_account_id = escrow_account (fq_job_id r), p_delta_mcu = - fq_refund_mcu r \<rparr>,
                      \<lparr> p_account_id = ap_node_id (fq_auth r), p_delta_mcu = fq_refund_mcu r \<rparr>],
       tx_evidence = EvInferenceRefund \<lparr> ifd_job_id = fq_job_id r, ifd_assignment_id = fq_assignment_id r,
         ifd_batch_start = fq_batch_start r, ifd_batch_end = fq_batch_end r, ifd_refund_mcu = fq_refund_mcu r,
         ifd_requester_public_key_b64 = pk, ifd_requester_auth = fq_auth r \<rparr>,
       tx_created_at = now \<rparr>"

definition refund_inference_record :: "int \<Rightarrow> bool \<Rightarrow> refund_inference_request \<Rightarrow> ai_state \<Rightarrow> unit ai_step" where
  "refund_inference_record now has_ledger r st =
     (case (if has_ledger then Inr (ai_core st)
            else map_err Core (apply_ledger_delta now (ap_node_id (fq_auth r)) (fq_refund_mcu r) ''inference_refund''
                   (Some (fq_job_id r)) (Some (fq_assignment_id r)) (ai_core st))) of
        Inl e \<Rightarrow> (st, Inl e)
      | Inr co \<Rightarrow> (set_ai_assignment (fq_assignment_id r) (\<lambda>_. True)
                     (\<lambda>a. a\<lparr> aa_status := ''refunded'', aa_lease_until := None \<rparr>) (st\<lparr> ai_core := co \<rparr>), Inr ()))"

definition refund_inference ::
  "crypto \<Rightarrow> int \<Rightarrow> (ledger_transaction \<Rightarrow> string option) option \<Rightarrow> int option option \<Rightarrow> refund_inference_request \<Rightarrow> ai_state \<Rightarrow>
   (int \<times> int) ai_step" where
  "refund_inference c now ledger quorum r st =
     ai_bind (refund_inference_check c now r st) (\<lambda>pk st1.
     if (case ledger of None \<Rightarrow> False | Some transact \<Rightarrow> transact (inference_refund_transaction now r pk) = None)
     then (st1, Inl LedgerRejected)
     else ai_bind (refund_inference_record now (ledger \<noteq> None) r st1) (\<lambda>_ st2.
          ai_bind (ai_report_balance quorum (ap_node_id (fq_auth r)) st2) (\<lambda>b st3. (st3, Inr (fq_refund_mcu r, b)))))"

text \<open>The batch of a node that gives up, who has failed it so far, and the best device of anybody else.\<close>

definition failover ::
  "crypto \<Rightarrow> int \<Rightarrow> auth_proof \<Rightarrow> string \<Rightarrow> ai_state \<Rightarrow> ai_error + ai_assignment_row \<times> string list \<times> candidate_score" where
  "failover c now auth aid st =
     qbind (ai_row aid st) (\<lambda>a.
     if aa_assigned_node_id a \<noteq> ap_node_id auth then Inl UnknownAiAssignment
     else case fmlookup (ai_jobs st) (aa_job_id a) of
            None \<Rightarrow> Inl UnknownAiAssignment
          | Some job \<Rightarrow>
              qbind (ai_context c now (ap_node_id (sq_auth (aj_request job))) (sq_model_id (aj_request job))
                       (sq_revision (aj_request job)) st) (\<lambda>(m, _, nodes, _).
              let excluded = sort (List.insert (ap_node_id auth) (aa_failed_nodes a))
              in case rank_candidates m (sq_requirements (aj_request job)) nodes excluded of
                   [] \<Rightarrow> Inl NoFailoverDevice
                 | nx # _ \<Rightarrow> Inr (a, excluded, nx)))"

definition fail_inference ::
  "crypto \<Rightarrow> int \<Rightarrow> auth_proof \<Rightarrow> string \<Rightarrow> string \<Rightarrow> ai_state \<Rightarrow> (string \<times> nat) ai_step" where
  "fail_inference c now auth aid reason st =
     (if reason = [] \<or> length reason > 4096 then (st, Inl BadReason)
      else ai_bind (ai_authenticate c now auth ''fail_inference'' (fail_inference_body_hash c aid reason) st) (\<lambda>_ st1.
        case failover c now auth aid st1 of
          Inl e \<Rightarrow> (st1, Inl e)
        | Inr (a, excluded, nx) \<Rightarrow>
            (set_ai_assignment aid (\<lambda>_. True)
               (\<lambda>r. r\<lparr> aa_assigned_node_id := cs_node_id nx, aa_assignment := (aa_assignment a)\<lparr> ia_device_id := cs_device_id nx \<rparr>,
                      aa_failed_nodes := excluded, aa_status := ''pending'', aa_lease_until := None,
                      aa_failure_count := aa_failure_count r + 1 \<rparr>) st1,
             Inr (cs_node_id nx, as_u32 (nat (aa_failure_count a) + 2)))))"

subsection \<open>What a job says of itself\<close>

record batch_summary =
  sm_assignment_id :: string
  sm_batch_start :: nat
  sm_batch_end :: nat
  sm_price_mcu :: int
  sm_outputs_digest :: string
  sm_receipted :: bool
  sm_settled :: "string option"

definition ai_rows_of :: "string \<Rightarrow> ai_state \<Rightarrow> (string \<times> ai_assignment_row) list" where
  "ai_rows_of job st = filter (\<lambda>(_, a). aa_job_id a = job) (fm_assoc (ai_assignments st))"

definition delivered_batches :: "string \<Rightarrow> ai_state \<Rightarrow> batch_summary list" where
  "delivered_batches job st =
     List.map_filter (\<lambda>(aid, a). case (aa_report a, aa_outputs_digest a) of
         (Some rep, Some d) \<Rightarrow> Some \<lparr> sm_assignment_id = aid, sm_batch_start = rr_batch_start rep, sm_batch_end = rr_batch_end rep,
            sm_price_mcu = rr_reward_mcu rep, sm_outputs_digest = d, sm_receipted = aa_receipted a, sm_settled = aa_settled a \<rparr>
       | _ \<Rightarrow> None) (ai_rows_of job st)"

definition refundable_batches :: "int \<Rightarrow> string \<Rightarrow> ai_state \<Rightarrow> (string \<times> nat \<times> nat \<times> int) list" where
  "refundable_batches now job st =
     (case fmlookup (ai_jobs st) job of
        None \<Rightarrow> []
      | Some j \<Rightarrow>
          if aj_status j = ''funding'' \<or> now \<le> aj_created_at j + SETTLEMENT_WINDOW_SECS then []
          else sort_key (\<lambda>(_, lo, _). lo) (List.map_filter (\<lambda>(_, a).
                 if final_status (aa_status a) \<or> aa_status a = ''blocked'' then None
                 else map_option (\<lambda>(lo, hi, amount). (ia_assignment_id (aa_assignment a), lo, hi, amount)) (assignment_claim (aa_assignment a)))
               (ai_rows_of job st)))"

record inference_job_status =
  st_status :: string
  st_total_assignments :: nat
  st_completed_assignments :: nat
  st_outputs :: "prompt_output list"
  st_refundable :: "(string \<times> nat \<times> nat \<times> int) list"
  st_delivered :: "batch_summary list"

definition inference_status :: "int \<Rightarrow> string \<Rightarrow> ai_state \<Rightarrow> ai_error + inference_job_status" where
  "inference_status now job st =
     (case fmlookup (ai_jobs st) job of
        None \<Rightarrow> Inl UnknownAiJob
      | Some j \<Rightarrow>
          (let rows = ai_rows_of job st in
           Inr \<lparr> st_status = aj_status j, st_total_assignments = as_u32 (length rows),
                 st_completed_assignments = as_u32 (length (filter (\<lambda>(_, a). aa_status a = ''completed'') rows)),
                 st_outputs = sort_key po_prompt_index
                   (concat (List.map_filter (\<lambda>(_, a). if aa_receipted a then aa_outputs a else None) rows)),
                 st_refundable = refundable_batches now job st, st_delivered = delivered_batches job st \<rparr>))"

subsection \<open>The sweep of batches nobody judged\<close>

definition expiry_transaction :: "int \<Rightarrow> string \<Rightarrow> string \<Rightarrow> report_inference_request \<Rightarrow> string \<Rightarrow> string \<Rightarrow> auth_proof \<Rightarrow> ledger_transaction" where
  "expiry_transaction now aid job rep d pk receipt =
     \<lparr> tx_transaction_id = ''expire_'' @ aid, tx_kind = InferenceExpiry,
       tx_postings = [\<lparr> p_account_id = inference_holding_account aid, p_delta_mcu = - rr_reward_mcu rep \<rparr>,
                      \<lparr> p_account_id = COMMUNITY_ISSUANCE_ACCOUNT, p_delta_mcu = rr_reward_mcu rep \<rparr>],
       tx_evidence = EvInferenceExpiry \<lparr> ex_job_id = job, ex_assignment_id = aid, ex_batch_start = rr_batch_start rep,
         ex_batch_end = rr_batch_end rep, ex_price_mcu = rr_reward_mcu rep, ex_outputs_digest = d,
         ex_requester_public_key_b64 = pk, ex_requester_receipt = receipt \<rparr>,
       tx_created_at = now \<rparr>"

text \<open>\<open>claim\<close> is what a quorum says of a claim key (\<open>None\<close> when there is none to ask).\<close>

definition sweep_one ::
  "int \<Rightarrow> (string \<Rightarrow> string option option) \<Rightarrow> (ledger_transaction \<Rightarrow> string option) \<Rightarrow> string \<times> ai_assignment_row \<Rightarrow>
   ai_state \<times> nat \<Rightarrow> ai_state \<times> nat" where
  "sweep_one now claim transact ar sn =
     (case (ar, sn) of ((aid, a), (st, swept)) \<Rightarrow>
        case (fmlookup (ai_jobs st) (aa_job_id a), aa_report a, aa_outputs_digest a, aa_receipt_auth a) of
          (Some job, Some rep, Some d, Some receipt) \<Rightarrow>
            (case public_key_of st (aj_requester_node_id job) of
               Inl _ \<Rightarrow> (st, swept)
             | Inr pk \<Rightarrow>
                 if \<not> aa_receipted a \<or> aa_settled a \<noteq> None \<or> now < ap_timestamp receipt + SETTLEMENT_WINDOW_SECS then (st, swept)
                 else let t = expiry_transaction now aid (aa_job_id a) rep d pk receipt;
                          mark = set_ai_assignment aid (\<lambda>r. aa_settled r = None) (\<lambda>r. r\<lparr> aa_settled := Some ''expired'' \<rparr>) st in
                      case claim (claim_key t) of
                        None \<Rightarrow> (st, swept)
                      | Some (Some _) \<Rightarrow> (mark, swept)
                      | Some None \<Rightarrow> if transact t = None then (st, swept) else (mark, swept + 1))
        | _ \<Rightarrow> (st, swept))"

definition sweep_expired_batches ::
  "int \<Rightarrow> (string \<Rightarrow> string option option) \<Rightarrow> (ledger_transaction \<Rightarrow> string option) \<Rightarrow> ai_state \<Rightarrow> ai_state \<times> nat" where
  "sweep_expired_batches now claim transact st =
     fold (sweep_one now claim transact) (fm_assoc (ai_assignments st)) (st, 0)"

end
