(* ===== verification/Delivery.thy ===== *)
theory Delivery
  imports Inference
begin

text \<open>
  What an inference job is owed and what the validators make of it: a submission the coordinator accepts is an escrow the
  validators certify, the batches it hands out are the batches that were certified, and what it proposes when an answer is
  delivered and judged is what they accept.  Two orders of requests are shown in which it is not.
\<close>

section \<open>Lemmas\<close>

subsection \<open>Steps\<close>

lemma ai_bind_simps [simp]: "ai_bind (st, Inl e) k = (st, Inl e)" "ai_bind (st, Inr v) k = k v st"
  by (simp_all add: ai_bind_def)

lemma ai_bind_Inr [simp]: "ai_bind r k = (st', Inr y) \<longleftrightarrow> (\<exists>st1 v. r = (st1, Inr v) \<and> k v st1 = (st', Inr y))"
  by (auto simp: ai_bind_def split: prod.splits sum.splits)

lemma case_sum_step: "(case r of Inl e \<Rightarrow> (st, Inl e) | Inr v \<Rightarrow> k v) = (st', Inr y) \<longleftrightarrow> (\<exists>v. r = Inr v \<and> k v = (st', Inr y))"
  by (cases r) auto

lemma case_list_Inr: "(case xs of [] \<Rightarrow> Inl e | x # ys \<Rightarrow> Inr (f x)) = Inr z \<longleftrightarrow> xs \<noteq> [] \<and> f (hd xs) = z"
  by (cases xs) auto

lemma on_core_Inr: "on_core st r = (st', Inr v) \<longleftrightarrow> (\<exists>co. r = (co, Inr v) \<and> st' = st\<lparr> ai_core := co \<rparr>)"
  by (auto simp: on_core_def split: prod.splits sum.splits)

text \<open>A request that is let through was signed with the key its node registered, and only its nonce is written down.\<close>

lemma ai_authenticate_ok:
  assumes "ai_authenticate c now auth action h st = (st', Inr ())"
  obtains n m where "fmlookup (co_nodes (ai_core st)) (ap_node_id auth) = Some n"
    and "verify_auth_signature c (nd_public_key_b64 n) auth action h = Inr ()"
    and "st' = st\<lparr> ai_core := (ai_core st)\<lparr> co_nonces := m \<rparr> \<rparr>"
  using assms
  by (auto simp: ai_authenticate_def on_core_Inr authenticate_ok verify_auth_def split: if_splits elim!: consume_nonce_tables)

lemma public_key_of_ok: "public_key_of st n = Inr pk \<longleftrightarrow> (\<exists>r. fmlookup (co_nodes (ai_core st)) n = Some r \<and> nd_public_key_b64 r = pk)"
  by (auto simp: public_key_of_def split: option.splits)

lemma public_key_of_frame [simp]:
  "public_key_of (st\<lparr> ai_core := co\<lparr> co_nonces := m \<rparr> \<rparr>) = public_key_of (st\<lparr> ai_core := co \<rparr>)"
  "public_key_of (st\<lparr> ai_core := cache_balance n b co \<rparr>) = public_key_of (st\<lparr> ai_core := co \<rparr>)"
  "public_key_of (st\<lparr> ai_assignments := as \<rparr>) = public_key_of st" "public_key_of (st\<lparr> ai_jobs := js \<rparr>) = public_key_of st"
  by (simp_all add: public_key_of_def cache_balance_def fun_eq_iff)

lemma ai_row_Inr: "ai_row aid st = Inr a \<longleftrightarrow> fmlookup (ai_assignments st) aid = Some a"
  by (auto simp: ai_row_def split: option.splits)

lemma set_ai_assignment_lookup [simp]:
  "fmlookup (ai_assignments (set_ai_assignment aid g f st)) x =
     (if x = aid then map_option (\<lambda>v. if g v then f v else v) (fmlookup (ai_assignments st) aid) else fmlookup (ai_assignments st) x)"
  "ai_core (set_ai_assignment aid g f st) = ai_core st" "ai_jobs (set_ai_assignment aid g f st) = ai_jobs st"
  "ai_manifests (set_ai_assignment aid g f st) = ai_manifests st"
  by (simp_all add: set_ai_assignment_def update_where_lookup)

subsection \<open>Bills and plans\<close>

lemma check_inference_bill_ok:
  "check_inference_bill c r m d = Inr cost \<longleftrightarrow>
     (\<exists>n limit. mm_parameter_count m = Some n \<and> parameter_count_is_plausible n (mm_total_size_bytes m) \<and>
        sq_billing r = (bill_for_prompts c d n (mm_total_size_bytes m) (sq_prompts r) (sq_max_tokens r))\<lparr> ib_max_cost_mcu := limit \<rparr> \<and>
        cost = inference_cost_mcu (prompt_bytes (sq_prompts r)) (sq_max_tokens r) n \<and> cost \<le> limit)"
  by (cases "sq_billing r") (auto simp: check_inference_bill_def bill_for_prompts_def Let_def split: option.splits if_splits)

lemma submit_request_validate_ok:
  "submit_request_validate r = Inr () \<Longrightarrow> sq_prompts r \<noteq> [] \<and> length (sq_prompts r) \<le> 256 \<and>
     rq_batch_size (sq_requirements r) = length (sq_prompts r) \<and> 0 < sq_layer_count r"
  by (auto simp: submit_request_validate_def split: if_splits)

lemma submit_inference_check_ok:
  assumes "submit_inference_check c now r st = (st', Inr j)"
  shows "submit_request_validate r = Inr ()" "check_inference_bill c r (ij_manifest j) (ij_digest j) = Inr (ij_cost j)"
    and "\<exists>cands. plan_parallelism cands (sq_layer_count r) (sq_requirements r) = Inr (ij_plan j)"
    and "verify_auth_signature c (ij_requester_pk j) (sq_auth r) ''submit_inference'' (submit_inference_hash c r) = Inr ()"
proof -
  from assms obtain st1 where v: "submit_request_validate r = Inr ()"
    and a: "ai_authenticate c now (sq_auth r) ''submit_inference'' (submit_inference_hash c r) st = (st1, Inr ())"
    and q: "check_inference_bill c r (ij_manifest j) (ij_digest j) = Inr (ij_cost j)"
      "\<exists>cands. checked_plan cands (sq_layer_count r) (sq_requirements r) = Inr (ij_plan j)"
      "public_key_of st1 (ap_node_id (sq_auth r)) = Inr (ij_requester_pk j)"
    by (auto simp: submit_inference_check_def reading_def split: sum.splits) blast
  show "submit_request_validate r = Inr ()" by (rule v)
  show "check_inference_bill c r (ij_manifest j) (ij_digest j) = Inr (ij_cost j)" by (rule q(1))
  show "\<exists>cands. plan_parallelism cands (sq_layer_count r) (sq_requirements r) = Inr (ij_plan j)"
    using q(2) by (auto simp: checked_plan_def map_err_Inr split: if_splits)
  from a show "verify_auth_signature c (ij_requester_pk j) (sq_auth r) ''submit_inference'' (submit_inference_hash c r) = Inr ()"
    using q(3) by (elim ai_authenticate_ok) (auto simp: public_key_of_ok)
qed

subsection \<open>Batches\<close>

lemma partition_cursor_gapless:
  assumes "bs \<noteq> []" "pb_batch_start (hd bs) = k" "gapless pb_batch_start pb_batch_end bs" "\<forall>b\<in>set bs. pb_batch_start b < pb_batch_end b"
  shows "partition_cursor k bs = Inr (pb_batch_end (last bs)) \<and> (\<forall>b\<in>set bs. pb_batch_end b \<le> pb_batch_end (last bs))"
  using assms
proof (induction bs arbitrary: k)
  case (Cons b bs)
  show ?case
  proof (cases bs)
    case (Cons b' bs')
    then have "partition_cursor (pb_batch_end b) bs = Inr (pb_batch_end (last bs)) \<and> (\<forall>x\<in>set bs. pb_batch_end x \<le> pb_batch_end (last bs))"
      using Cons.prems by (intro Cons.IH) auto
    moreover have "pb_batch_end b < pb_batch_end b'" using Cons.prems Cons by simp
    ultimately show ?thesis using Cons Cons.prems by force
  qed (use Cons.prems in auto)
qed simp

lemma gapless_map: "gapless lo hi (map f xs) = gapless (lo \<circ> f) (hi \<circ> f) xs"
  by (simp add: gapless_nth)

lemma planned_batches:
  assumes "submit_inference_check c now r st = (st', Inr j)"
  shows "batches_partition_prompts (priced_batches (ij_plan j)) (length (sq_prompts r)) = Inr ()"
    and "length (pl_batches (ij_plan j)) \<le> 256"
    and "b \<in> set (pl_batches (ij_plan j)) \<Longrightarrow> bs_batch_start b < bs_batch_end b \<and> bs_batch_end b \<le> length (sq_prompts r)"
proof -
  note ok = submit_inference_check_ok[OF assms] and v = submit_request_validate_ok[OF submit_inference_check_ok(1)[OF assms]]
  obtain cands where p: "plan_parallelism cands (sq_layer_count r) (sq_requirements r) = Inr (ij_plan j)" using ok(3) by blast
  let ?b = "rq_batch_size (sq_requirements r)" and ?bs = "priced_batches (ij_plan j)"
  have "?b * min (length cands) ?b \<le> 256 * 256" using v by (intro mult_le_mono) auto
  then have small: "?b * min (length cands) ?b < 2 ^ 32" by simp
  note pb = plan_batches[OF p small]
  show "length (pl_batches (ij_plan j)) \<le> 256" using pb(2) v by linarith
  have t: "?bs \<noteq> []" "pb_batch_start (hd ?bs) = 0" "pb_batch_end (last ?bs) = length (sq_prompts r)"
    "gapless pb_batch_start pb_batch_end ?bs"
    using pb(1) v by (auto simp: tiles_def priced_batches_def gapless_map comp_def hd_map last_map)
  have pos: "\<forall>x\<in>set ?bs. pb_batch_start x < pb_batch_end x" using pb(3) by (simp add: priced_batches_def)
  note pc = partition_cursor_gapless[OF t(1,2,4) pos]
  show "batches_partition_prompts ?bs (length (sq_prompts r)) = Inr ()" using pc t by (simp add: batches_partition_prompts_def)
  show "b \<in> set (pl_batches (ij_plan j)) \<Longrightarrow> bs_batch_start b < bs_batch_end b \<and> bs_batch_end b \<le> length (sq_prompts r)"
    using pb(3) pc t(3) by (force simp: priced_batches_def)
qed

lemma pay_posting:
  "moves [\<lparr> p_account_id = a, p_delta_mcu = - n \<rparr>, \<lparr> p_account_id = b, p_delta_mcu = n \<rparr>] a b n \<longleftrightarrow> wrap_i64 (- n) = - n \<or> a = b \<and> wrap_i64 (- n) = n"
  by (auto simp: moves_def)

lemma wrap_neg [simp]: "0 < n \<Longrightarrow> n \<le> i64_max \<Longrightarrow> wrap_i64 (- n) = - n" "0 < n \<Longrightarrow> n \<le> i64_max \<Longrightarrow> wrap_i64 n = n"
  by (rule wrap_i64_id, auto simp: range_defs)+

lemma check_postings_pay:
  assumes "0 < n" "n \<le> i64_max" "a \<noteq> COMMUNITY_ISSUANCE_ACCOUNT" "n \<le> bal a"
  shows "check_postings bal vset [\<lparr> p_account_id = a, p_delta_mcu = - n \<rparr>, \<lparr> p_account_id = b, p_delta_mcu = n \<rparr>] = Inr ()"
  using assms by (auto simp: check_postings_def check_issuance_def)

section \<open>The life of a batch\<close>

text \<open>The stretches in which the tables of inference jobs change, in any order: a step may rest on a check that was made in an
  earlier state.  \<open>elsewhere\<close> is anything that happens to the coordinator's other tables, the nonces of requests included.\<close>

inductive desk_step :: "crypto \<Rightarrow> ai_state set \<Rightarrow> ai_state \<Rightarrow> ai_state \<Rightarrow> bool" for c past st where
  published: "desk_step c past st (st\<lparr> ai_manifests := ms \<rparr>)"
| submitted: "submit_inference_record c now r j t st = (st', x) \<Longrightarrow> desk_step c past st st'"
| funded: "desk_step c past st (finalize_inference_reservation now job ck ehash st)"
| polled: "poll_inference c now auth st = (st', x) \<Longrightarrow> desk_step c past st st'"
| delivered: "s0 \<in> past \<Longrightarrow> ai_authenticate c now (rr_auth r) ''report_inference'' (report_inference_body_hash c r) s0 = (s1, Inr ()) \<Longrightarrow>
    report_check r s1 = Inr job \<Longrightarrow> desk_step c past st (fst (report_record c now' r job st))"
| receipted: "desk_step c past st (set_ai_assignment aid (\<lambda>_. True) (\<lambda>a. a\<lparr> aa_receipted := True, aa_receipt_auth := Some auth \<rparr>) st)"
| judged: "settle_record now has_ledger aid accepted b st = (st', x) \<Longrightarrow> desk_step c past st st'"
| refunded: "refund_inference_record now has_ledger q st = (st', x) \<Longrightarrow> desk_step c past st st'"
| handed_on: "fail_inference c now auth aid reason st = (st', x) \<Longrightarrow> desk_step c past st st'"
| swept: "desk_step c past st (fst (sweep_one now claims transact ar (st, n)))"
| elsewhere: "desk_step c past st (st\<lparr> ai_core := co \<rparr>)"

inductive desk_run :: "crypto \<Rightarrow> ai_state \<Rightarrow> ai_state set \<Rightarrow> ai_state \<Rightarrow> bool" for c st0 where
  start: "desk_run c st0 {st0} st0"
| onward: "desk_run c st0 past st \<Longrightarrow> desk_step c past st st' \<Longrightarrow> desk_run c st0 (insert st' past) st'"

text \<open>What a report that was let through says.\<close>

definition report_fits :: "crypto \<Rightarrow> inference_reservation \<Rightarrow> string \<Rightarrow> priced_batch \<Rightarrow> int \<Rightarrow> report_inference_request \<Rightarrow> bool" where
  "report_fits c rv aid pb price rep \<longleftrightarrow> rr_assignment_id rep = aid \<and> rr_job_id rep = rs_job_id rv \<and>
     rr_batch_start rep = pb_batch_start pb \<and> rr_batch_end rep = pb_batch_end pb \<and> rr_reward_mcu rep = price \<and>
     ap_node_id (rr_auth rep) \<noteq> rs_requester rv \<and>
     (\<exists>pk. verify_auth_signature c pk (rr_auth rep) ''report_inference'' (report_inference_body_hash c rep) = Inr ())"

definition row_held :: "crypto \<Rightarrow> inference_reservation \<Rightarrow> string \<Rightarrow> priced_batch \<Rightarrow> int \<Rightarrow> ai_assignment_row \<Rightarrow> bool" where
  "row_held c rv aid pb price a \<longleftrightarrow> aa_job_id a = rs_job_id rv \<and>
     assignment_claim (aa_assignment a) = Some (pb_batch_start pb, pb_batch_end pb, price) \<and>
     (\<forall>rep. aa_report a = Some rep \<longrightarrow> report_fits c rv aid pb price rep \<and> aa_outputs_digest a = Some (outputs_hash c (rr_outputs rep)))"

text \<open>A batch is held for a reservation: the tables know its job, its requester and its price as they were certified.\<close>

definition held_for :: "crypto \<Rightarrow> inference_reservation \<Rightarrow> string \<Rightarrow> priced_batch \<Rightarrow> int \<Rightarrow> ai_state \<Rightarrow> bool" where
  "held_for c rv aid pb price st \<longleftrightarrow>
     (\<exists>job. fmlookup (ai_jobs st) (rs_job_id rv) = Some job \<and> aj_requester_node_id job = rs_requester rv) \<and>
     (\<exists>a. fmlookup (ai_assignments st) aid = Some a \<and> row_held c rv aid pb price a)"

lemma held_forI:
  assumes "held_for c rv aid pb price st"
    and "\<And>job. fmlookup (ai_jobs st) (rs_job_id rv) = Some job \<Longrightarrow>
       \<exists>job'. fmlookup (ai_jobs st') (rs_job_id rv) = Some job' \<and> aj_requester_node_id job' = aj_requester_node_id job"
    and "\<And>a. fmlookup (ai_assignments st) aid = Some a \<Longrightarrow> row_held c rv aid pb price a \<Longrightarrow>
       \<exists>a'. fmlookup (ai_assignments st') aid = Some a' \<and> row_held c rv aid pb price a'"
  shows "held_for c rv aid pb price st'"
  using assms unfolding held_for_def by metis

lemma held_rows:
  assumes "held_for c rv aid pb price st" "ai_jobs st' = ai_jobs st"
    and "\<And>a. fmlookup (ai_assignments st) aid = Some a \<Longrightarrow> row_held c rv aid pb price a \<Longrightarrow>
       \<exists>a'. fmlookup (ai_assignments st') aid = Some a' \<and> row_held c rv aid pb price a'"
  shows "held_for c rv aid pb price st'"
  by (rule held_forI[OF assms(1) _ assms(3)]) (simp_all add: assms(2))

text \<open>Statements that leave a row's job, claim and report alone.\<close>

lemma held_set:
  assumes "held_for c rv aid pb price st" "\<And>a. row_held c rv aid pb price a \<Longrightarrow> row_held c rv aid pb price (f a)"
  shows "held_for c rv aid pb price (set_ai_assignment x g f st)"
proof (rule held_rows[OF assms(1)])
  fix a assume a: "fmlookup (ai_assignments st) aid = Some a" "row_held c rv aid pb price a"
  then show "\<exists>a'. fmlookup (ai_assignments (set_ai_assignment x g f st)) aid = Some a' \<and> row_held c rv aid pb price a'"
    using assms(2)[OF a(2)] by (cases "aid = x"; cases "g a") simp_all
qed simp

lemma held_core [simp]: "held_for c rv aid pb price (st\<lparr> ai_core := co \<rparr>) = held_for c rv aid pb price st"
  "held_for c rv aid pb price (st\<lparr> ai_manifests := ms \<rparr>) = held_for c rv aid pb price st"
  by (simp_all add: held_for_def)

lemma held_update_all:
  assumes "held_for c rv aid pb price st" "\<And>a. row_held c rv aid pb price a \<Longrightarrow> row_held c rv aid pb price (f a)"
  shows "held_for c rv aid pb price (st\<lparr> ai_assignments := update_all g f (ai_assignments st) \<rparr>)"
  by (rule held_rows[OF assms(1)]) (use assms(2) in auto)

lemma insert_assignments:
  assumes "fold_result (insert_ai_assignment c r j status) (List.enumerate k bs) m = Inr m'"
  shows "(\<forall>aid a. fmlookup m aid = Some a \<longrightarrow> fmlookup m' aid = Some a) \<and>
    (\<forall>i < length bs. \<exists>a. fmlookup m' (ia_assignment_id (assignment_for c r j (k + i, bs ! i))) = Some a \<and>
       aa_job_id a = inference_job_id_from_auth c (sq_auth r) \<and> aa_assigned_node_id a = bs_node_id (bs ! i) \<and>
       aa_assignment a = assignment_for c r j (k + i, bs ! i) \<and> aa_status a = status \<and> aa_report a = None)"
  using assms
proof (induction bs arbitrary: k m)
  case (Cons b bs)
  let ?a = "assignment_for c r j (k, b)"
  obtain m1 where m1: "insert_ai_assignment c r j status (k, b) m = Inr m1"
    and rest: "fold_result (insert_ai_assignment c r j status) (List.enumerate (Suc k) bs) m1 = Inr m'"
    using Cons.prems by (auto simp: enumerate_simps)
  note ih = Cons.IH[OF rest]
  from m1 obtain a where a: "fmlookup m (ia_assignment_id ?a) = None" "m1 = fmupd (ia_assignment_id ?a) a m"
    "aa_job_id a = inference_job_id_from_auth c (sq_auth r)" "aa_assigned_node_id a = bs_node_id b" "aa_assignment a = ?a"
    "aa_status a = status" "aa_report a = None"
    by (auto simp: insert_ai_assignment_def Let_def assignment_for_def split: if_splits)
  then have "fmlookup m' (ia_assignment_id ?a) = Some a" using ih by simp
  moreover have "fmlookup m1 x = Some v" if "fmlookup m x = Some v" for x v using a(1,2) that by auto
  ultimately show ?case using ih a(3-7) by (auto simp: less_Suc_eq_0_disj)
qed simp

lemma submit_record_ok:
  assumes "submit_inference_record c now r j t st = (st', Inr ())"
  obtains job m' where "fmlookup (ai_jobs st) (inference_job_id_from_auth c (sq_auth r)) = None"
    and "ai_jobs st' = fmupd (inference_job_id_from_auth c (sq_auth r)) job (ai_jobs st)"
    and "aj_requester_node_id job = ap_node_id (sq_auth r)" and "ai_assignments st' = m'"
    and "fold_result (insert_ai_assignment c r j (if t = None then ''pending'' else ''blocked''))
           (List.enumerate 0 (pl_batches (ij_plan j))) (ai_assignments st) = Inr m'"
  using assms
  by (auto simp: submit_inference_record_def Let_def split: sum.splits if_splits)

lemma report_check_fits:
  assumes "held_for c rv aid pb price s0" "report_check r s1 = Inr job" "rr_assignment_id r = aid"
    and "ai_authenticate c now (rr_auth r) ''report_inference'' (report_inference_body_hash c r) s0 = (s1, Inr ())"
  shows "report_fits c rv aid pb price r"
proof -
  obtain pk m where s1: "s1 = s0\<lparr> ai_core := (ai_core s0)\<lparr> co_nonces := m \<rparr> \<rparr>"
    and v: "verify_auth_signature c pk (rr_auth r) ''report_inference'' (report_inference_body_hash c r) = Inr ()"
    using assms(4) by (elim ai_authenticate_ok) blast
  from assms(1) obtain jb a where "fmlookup (ai_jobs s0) (rs_job_id rv) = Some jb" "aj_requester_node_id jb = rs_requester rv"
    "fmlookup (ai_assignments s0) aid = Some a" "aa_job_id a = rs_job_id rv"
    "assignment_claim (aa_assignment a) = Some (pb_batch_start pb, pb_batch_end pb, price)"
    by (auto simp: held_for_def row_held_def)
  then show ?thesis using assms(2,3) v
    by (auto simp: report_check_def ai_row_Inr s1 report_fits_def Let_def split: if_splits)
qed

lemma held_reported:
  assumes "held_for c rv aid pb price st" "rr_assignment_id r = aid \<Longrightarrow> report_fits c rv aid pb price r"
  shows "held_for c rv aid pb price (fst (report_record c now r job st))"
proof (rule held_forI[OF assms(1)])
  fix jb assume "fmlookup (ai_jobs st) (rs_job_id rv) = Some jb"
  then show "\<exists>job'. fmlookup (ai_jobs (fst (report_record c now r job st))) (rs_job_id rv) = Some job' \<and>
      aj_requester_node_id job' = aj_requester_node_id jb"
    by (auto simp: report_record_def Let_def update_where_lookup)
next
  fix a assume a: "fmlookup (ai_assignments st) aid = Some a" "row_held c rv aid pb price a"
  then show "\<exists>a'. fmlookup (ai_assignments (fst (report_record c now r job st))) aid = Some a' \<and> row_held c rv aid pb price a'"
    using assms(2) by (cases "rr_assignment_id r = aid") (auto simp: report_record_def Let_def row_held_def)
qed

lemma failover_ok:
  assumes "failover c now auth aid st = Inr (a, excluded, nx)"
  shows "fmlookup (ai_assignments st) aid = Some a" "aa_assigned_node_id a = ap_node_id auth"
    and "set excluded = insert (ap_node_id auth) (set (aa_failed_nodes a))"
    and "\<exists>m q nodes. nx \<in> set (rank_candidates m q nodes excluded)"
proof -
  from assms obtain job m d nodes seeds where f: "fmlookup (ai_assignments st) aid = Some a" "aa_assigned_node_id a = ap_node_id auth"
    "fmlookup (ai_jobs st) (aa_job_id a) = Some job" "excluded = sort (List.insert (ap_node_id auth) (aa_failed_nodes a))"
    "hd (rank_candidates m (sq_requirements (aj_request job)) nodes excluded) = nx"
    "rank_candidates m (sq_requirements (aj_request job)) nodes excluded \<noteq> []"
    by (auto simp: failover_def ai_row_Inr Let_def case_list_Inr split: if_splits option.splits)
  then show "fmlookup (ai_assignments st) aid = Some a" "aa_assigned_node_id a = ap_node_id auth"
    "set excluded = insert (ap_node_id auth) (set (aa_failed_nodes a))"
    "\<exists>m q nodes. nx \<in> set (rank_candidates m q nodes excluded)"
    using hd_in_set[OF f(6)] by (simp_all add: set_insert) blast
qed

lemma fail_inference_Inr:
  assumes "fail_inference c now auth aid reason st = (st', Inr v)"
  obtains st1 a excluded nx where
    "ai_authenticate c now auth ''fail_inference'' (fail_inference_body_hash c aid reason) st = (st1, Inr ())"
    and "failover c now auth aid st1 = Inr (a, excluded, nx)"
    and "st' = set_ai_assignment aid (\<lambda>_. True)
       (\<lambda>r. r\<lparr> aa_assigned_node_id := cs_node_id nx, aa_assignment := (aa_assignment a)\<lparr> ia_device_id := cs_device_id nx \<rparr>,
              aa_failed_nodes := excluded, aa_status := ''pending'', aa_lease_until := None,
              aa_failure_count := aa_failure_count r + 1 \<rparr>) st1"
    and "fst v = cs_node_id nx"
  using assms by (auto simp: fail_inference_def case_sum_step split: if_splits)

lemma fail_inference_Inl:
  assumes "fail_inference c now auth aid reason st = (st', Inl e)"
  shows "ai_assignments st' = ai_assignments st" "ai_jobs st' = ai_jobs st"
  using assms by (auto simp: fail_inference_def ai_bind_def ai_authenticate_def on_core_def split: if_splits prod.splits sum.splits)

lemma claim_device [simp]: "assignment_claim (d\<lparr> ia_device_id := y \<rparr>) = assignment_claim d"
  by (simp add: assignment_claim_def split: list.splits option.splits)

lemma held_handed_on:
  assumes "held_for c rv aid pb price st" "fail_inference c now auth x reason st = (st', res)"
  shows "held_for c rv aid pb price st'"
proof (cases res)
  case (Inl e)
  then have "ai_assignments st' = ai_assignments st" "ai_jobs st' = ai_jobs st"
    using assms(2) fail_inference_Inl[of c now auth x reason st st' e] by simp_all
  then show ?thesis using assms(1) by (simp add: held_for_def)
next
  case (Inr v)
  then have "fail_inference c now auth x reason st = (st', Inr v)" using assms(2) by simp
  then obtain st1 a excluded nx where
    auth: "ai_authenticate c now auth ''fail_inference'' (fail_inference_body_hash c x reason) st = (st1, Inr ())"
    and f: "failover c now auth x st1 = Inr (a, excluded, nx)"
    and st': "st' = set_ai_assignment x (\<lambda>_. True)
       (\<lambda>r. r\<lparr> aa_assigned_node_id := cs_node_id nx, aa_assignment := (aa_assignment a)\<lparr> ia_device_id := cs_device_id nx \<rparr>,
              aa_failed_nodes := excluded, aa_status := ''pending'', aa_lease_until := None,
              aa_failure_count := aa_failure_count r + 1 \<rparr>) st1"
    and "fst v = cs_node_id nx"
    by (rule fail_inference_Inr)
  have "held_for c rv aid pb price st1" using auth assms(1) by (elim ai_authenticate_ok) simp
  then show ?thesis
    by (rule held_rows) (use failover_ok(1)[OF f] in \<open>auto simp: st' row_held_def\<close>)
qed

lemma held_swept:
  assumes "held_for c rv aid pb price st"
  shows "held_for c rv aid pb price (fst (sweep_one now claims transact ar (st, n)))"
proof -
  have "fst (sweep_one now claims transact ar (st, n)) = st \<or> (\<exists>x. fst (sweep_one now claims transact ar (st, n)) =
      set_ai_assignment x (\<lambda>r. aa_settled r = None) (\<lambda>r. r\<lparr> aa_settled := Some ''expired'' \<rparr>) st)"
    by (auto simp: sweep_one_def Let_def split: prod.splits option.splits sum.splits if_splits)
  then show ?thesis using assms held_set[OF assms] by (auto simp: row_held_def)
qed

lemma held_polled:
  assumes "held_for c rv aid pb price st" "poll_inference c now auth st = (st', res)"
  shows "held_for c rv aid pb price st'"
proof -
  have auth: "held_for c rv aid pb price st1" if "ai_authenticate c now auth act h st = (st1, y)" for act h st1 y
    using that assms(1) by (auto simp: ai_authenticate_def on_core_def split: prod.splits sum.splits)
  have "held_for c rv aid pb price (ai_release_expired now st1)" if "held_for c rv aid pb price st1" for st1
    unfolding ai_release_expired_def using that by (rule held_update_all) (simp add: row_held_def)
  moreover have "held_for c rv aid pb price (set_ai_assignment x g (\<lambda>r. r\<lparr> aa_status := s, aa_lease_until := l \<rparr>) st1)"
    if "held_for c rv aid pb price st1" for x g s l st1
    using that by (rule held_set) (simp add: row_held_def)
  ultimately show ?thesis using assms(2) auth
    by (auto simp: poll_inference_def ai_bind_def Let_def split: prod.splits sum.splits option.splits)
qed

lemma held_step:
  assumes "desk_step c past st st'" "\<forall>s\<in>past. held_for c rv aid pb price s" "held_for c rv aid pb price st"
  shows "held_for c rv aid pb price st'"
  using assms(1)
proof cases
  case (submitted now r j t x)
  show ?thesis
  proof (cases x)
    case (Inl e)
    then have "st' = st" using submitted by (auto simp: submit_inference_record_def Let_def split: sum.splits)
    then show ?thesis using assms(3) by simp
  next
    case (Inr u)
    then have "submit_inference_record c now r j t st = (st', Inr ())" using submitted by simp
    then show ?thesis
      by (elim submit_record_ok, intro held_forI[OF assms(3)]) (use insert_assignments in auto)
  qed
next
  case (funded now job ck ehash)
  show ?thesis unfolding funded
  proof (rule held_forI[OF assms(3)])
    fix jb assume "fmlookup (ai_jobs st) (rs_job_id rv) = Some jb"
    then show "\<exists>job'. fmlookup (ai_jobs (finalize_inference_reservation now job ck ehash st)) (rs_job_id rv) = Some job' \<and>
      aj_requester_node_id job' = aj_requester_node_id jb"
      by (cases "aj_status jb = ''funding''") (auto simp: finalize_inference_reservation_def update_where_lookup)
  next
    fix a assume "fmlookup (ai_assignments st) aid = Some a" "row_held c rv aid pb price a"
    then show "\<exists>a'. fmlookup (ai_assignments (finalize_inference_reservation now job ck ehash st)) aid = Some a' \<and> row_held c rv aid pb price a'"
      by (auto simp: finalize_inference_reservation_def row_held_def)
  qed
next
  case (polled now auth x)
  then show ?thesis using held_polled[OF assms(3)] by blast
next
  case (delivered s0 now r s1 job now')
  then show ?thesis using assms(2) by (auto intro!: held_reported[OF assms(3)] report_check_fits)
next
  case (judged now has_ledger x accepted b y)
  have "st' = st \<or> (\<exists>co. st' = (set_ai_assignment x (\<lambda>a. aa_settled a = None)
      (\<lambda>a. a\<lparr> aa_settled := Some (if accepted then ''paid'' else ''disputed'') \<rparr>) st)\<lparr> ai_core := co \<rparr>)"
    using judged by (auto simp: settle_record_def Let_def split: if_splits sum.splits)
  then show ?thesis using assms(3) held_set[OF assms(3)] by (auto simp: row_held_def)
next
  case (refunded now has_ledger q x)
  then show ?thesis using assms(3)
    by (auto simp: refund_inference_record_def row_held_def intro!: held_set split: sum.splits)
next
  case (handed_on now auth x reason y)
  then show ?thesis using held_handed_on[OF assms(3)] by blast
qed (use assms(3) in \<open>auto intro: held_set held_swept simp: row_held_def\<close>)

lemma held_run:
  assumes "desk_run c st0 past st" "held_for c rv aid pb price st0"
  shows "held_for c rv aid pb price st"
proof -
  have "st \<in> past \<and> (\<forall>s\<in>past. held_for c rv aid pb price s)"
    using assms by induction (auto intro: held_step)
  then show ?thesis by blast
qed

subsection \<open>What was certified\<close>

definition certified :: "crypto \<Rightarrow> inference_reservation \<Rightarrow> string \<Rightarrow> priced_batch \<Rightarrow> int \<Rightarrow> bool" where
  "certified c rv aid pb price \<longleftrightarrow>
     reserved_batch c rv aid (pb_batch_start pb) (pb_batch_end pb) = Inr (pb, price) \<and> 0 < price \<and> price \<le> i64_max"

lemma find_index: "i < n \<Longrightarrow> inj f \<Longrightarrow> find (\<lambda>k. f k = f i) [0..<n] = Some i"
  unfolding find_Some_iff by (rule exI[of _ i]) (simp add: inj_eq)

lemma certified_nth:
  assumes "submit_inference_check c now r st = (st', Inr j)" "i < length (pl_batches (ij_plan j))"
    and "tx_evidence (inference_reserve_transaction c now' r j) = EvInferenceReserve e"
  defines "rv \<equiv> reservation_of (inference_reserve_transaction c now' r j) e" and "b \<equiv> pl_batches (ij_plan j) ! i"
  defines "price \<equiv> inference_batch_cost_mcu (prompt_bytes (sq_prompts r)) (bs_batch_start b) (bs_batch_end b) (sq_max_tokens r)
      (the (mm_parameter_count (ij_manifest j)))"
  shows "certified c rv (inference_assignment_id c (rs_job_id rv) i) (rs_batches rv ! i) price"
    and "assignment_claim (assignment_for c r j (i, b)) = Some (pb_batch_start (rs_batches rv ! i), pb_batch_end (rs_batches rv ! i), price)"
proof -
  let ?lo = "bs_batch_start b" and ?hi = "bs_batch_end b" and ?p = "prompt_bytes (sq_prompts r)"
  note pb = planned_batches[OF assms(1)] and v = submit_request_validate_ok[OF submit_inference_check_ok(1)[OF assms(1)]]
  have b: "?lo < ?hi" "?hi \<le> length (sq_prompts r)" using pb(3)[of b] assms(2) by (auto simp: b_def)
  from submit_inference_check_ok(2)[OF assms(1)] obtain n limit where bill: "mm_parameter_count (ij_manifest j) = Some n"
    "sq_billing r = (bill_for_prompts c (ij_digest j) n (mm_total_size_bytes (ij_manifest j)) (sq_prompts r) (sq_max_tokens r))\<lparr> ib_max_cost_mcu := limit \<rparr>"
    unfolding check_inference_bill_ok by blast
  have rv: "rs_batches rv ! i = \<lparr> pb_batch_start = ?lo, pb_batch_end = ?hi, pb_node_id = bs_node_id b \<rparr>"
    "length (rs_batches rv) = length (pl_batches (ij_plan j))" "rs_billing rv = sq_billing r"
    using assms(2,3) by (auto simp: rv_def reservation_of_def inference_reserve_transaction_def Let_def priced_batches_def b_def)
  have "as_u32 (length (rs_batches rv)) = length (rs_batches rv)" using pb(2) rv(2) by (simp add: as_u32_def)
  then have "find (\<lambda>k. inference_assignment_id c (rs_job_id rv) k = inference_assignment_id c (rs_job_id rv) i)
      [0..<as_u32 (length (rs_batches rv))] = Some i"
    using assms(2) rv(2) by (intro find_index) (auto simp: inj_def)
  moreover have "0 < price" "price \<le> i64_max"
    by (simp_all add: price_def inference_batch_cost_mcu_def Let_def inference_cost_bounds order.strict_trans2[OF zero_less_one])
  ultimately show "certified c rv (inference_assignment_id c (rs_job_id rv) i) (rs_batches rv ! i) price"
    by (simp add: certified_def reserved_batch_def rv price_def bill bill_for_prompts_def Let_def)
  have "map (\<lambda>(_, p). length p) (map (\<lambda>k. (k, sq_prompts r ! k)) [?lo..<?hi]) = take (?hi - ?lo) (drop ?lo ?p)"
    using b by (intro nth_equalityI) (auto simp: prompt_bytes_def)
  moreover have "min ?lo (length ?p) = ?lo" "max ?lo (min ?hi (length ?p)) = ?hi" using b by (auto simp: prompt_bytes_def)
  ultimately have price: "price = inference_cost_mcu (map (\<lambda>(_, p). length p) (map (\<lambda>k. (k, sq_prompts r ! k)) [?lo..<?hi])) (sq_max_tokens r) n"
    by (simp only: price_def inference_batch_cost_mcu_def Let_def bill(1) option.sel)
  have "?hi - 1 + 1 = ?hi" "as_u32 ?hi = ?hi" using b v by (simp_all add: as_u32_def)
  then have hi: "as_u32 (fst (last (map (\<lambda>k. (k, sq_prompts r ! k)) [?lo..<?hi])) + 1) = ?hi" using b by (simp add: last_map)
  have "\<exists>x xs. map (\<lambda>k. (k, sq_prompts r ! k)) [?lo..<?hi] = (?lo, x) # xs" using b by (simp add: upt_conv_Cons)
  then show "assignment_claim (assignment_for c r j (i, b)) = Some (pb_batch_start (rs_batches rv ! i), pb_batch_end (rs_batches rv ! i), price)"
    using price hi bill(1) by (auto simp: assignment_claim_def assignment_for_def Let_def rv(1))
qed

subsection \<open>Keys\<close>

definition keys_ok :: "crypto \<Rightarrow> coordinator \<Rightarrow> bool" where
  "keys_ok c co \<longleftrightarrow> (\<forall>n r. fmlookup (co_nodes co) n = Some r \<longrightarrow> node_id_from_public_key_b64 c (nd_public_key_b64 r) = Some n)"

lemma report_balance_nodes: "report_balance quorum n co = (co', x) \<Longrightarrow> co_nodes co' = co_nodes co"
  by (auto simp: report_balance_def cache_balance_def split: sum.splits)

text \<open>A node registers under the identifier its key hashes to.\<close>

lemma register_keys_ok:
  assumes "keys_ok c co" "register c now quorum fed auth pk caps co = (co', x)"
  shows "keys_ok c co'"
proof (cases "cp_protocol_version caps \<noteq> PROTOCOL_VERSION \<or> verify_auth c now pk auth ''register'' (register_body_hash c pk caps) \<noteq> Inr ()")
  case True
  then have "co' = co" using assms(2) by (auto simp: register_def split: sum.splits if_splits)
  then show ?thesis using assms(1) by simp
next
  case False
  obtain co1 y where co1: "consume_nonce now auth co = (co1, y)" by fastforce
  have nodes: "co_nodes co1 = co_nodes co" using consume_nonce_tables[OF co1] by fastforce
  have id: "node_id_from_public_key_b64 c pk = Some (ap_node_id auth)"
    using False by (auto simp: verify_auth_def intro: verified_node_id split: if_splits)
  show ?thesis
  proof (cases y)
    case (Inl e)
    then have "co' = co1" using assms(2) False co1 by (simp add: register_def)
    then show ?thesis using assms(1) nodes by (simp add: keys_ok_def)
  next
    case (Inr u)
    then obtain new where "co_nodes co' = fmupd (ap_node_id auth) new (co_nodes co)" "nd_public_key_b64 new = pk"
      using assms(2) False co1 nodes by (auto simp: register_def Let_def dest!: report_balance_nodes split: option.splits)
    then show ?thesis using assms(1) id by (auto simp: keys_ok_def)
  qed
qed

lemma same_key:
  assumes "inj_on (node_id_from_public_key c) {k. \<exists>s. b64_decode c s = Some k}"
    and "verify_auth_signature c pk p action h = Inr ()" "node_id_from_public_key_b64 c pk' = Some (ap_node_id p)"
  shows "verify_auth_signature c pk' p action h = Inr ()"
proof -
  obtain k where k: "b64_decode c pk = Some k" "node_id_from_public_key c k = ap_node_id p" using assms(2) by (auto simp: verify_auth_signature_ok)
  obtain k' where k': "b64_decode c pk' = Some k'" "node_id_from_public_key c k' = ap_node_id p"
    using assms(3) by (auto simp: node_id_from_public_key_b64_def split: option.splits if_splits)
  have "k = k'" by (rule inj_onD[OF assms(1)]) (use k k' in auto)
  then show ?thesis using assms(2) k(1) k'(1) by (simp add: verify_auth_signature_def)
qed

lemma delivered_batch_Inr:
  assumes "delivered_batch aid st = Inr b" "held_for c rv aid pb price st" "keys_ok c (ai_core st)"
    and "inj_on (node_id_from_public_key c) {k. \<exists>s. b64_decode c s = Some k}"
  shows "db_job_id b = rs_job_id rv" "db_requester b = rs_requester rv" "report_fits c rv aid pb price (db_report b)"
    and "db_outputs_digest b = outputs_hash c (rr_outputs (db_report b))"
    and "public_key_of st (db_requester b) = Inr (db_requester_pk b)"
    and "verify_auth_signature c (db_provider_pk b) (rr_auth (db_report b)) ''report_inference'' (report_inference_body_hash c (db_report b)) = Inr ()"
proof -
  from assms(2) obtain job a where t: "fmlookup (ai_jobs st) (rs_job_id rv) = Some job" "aj_requester_node_id job = rs_requester rv"
    "fmlookup (ai_assignments st) aid = Some a" "row_held c rv aid pb price a" by (auto simp: held_for_def)
  show f: "db_job_id b = rs_job_id rv" "db_requester b = rs_requester rv" "report_fits c rv aid pb price (db_report b)"
    "db_outputs_digest b = outputs_hash c (rr_outputs (db_report b))" "public_key_of st (db_requester b) = Inr (db_requester_pk b)"
    using assms(1) t by (auto simp: delivered_batch_def ai_row_Inr row_held_def split: option.splits)
  have "public_key_of st (ap_node_id (rr_auth (db_report b))) = Inr (db_provider_pk b)"
    using assms(1) t by (auto simp: delivered_batch_def ai_row_Inr row_held_def split: option.splits)
  then have "node_id_from_public_key_b64 c (db_provider_pk b) = Some (ap_node_id (rr_auth (db_report b)))"
    using assms(3) unfolding public_key_of_ok keys_ok_def by metis
  then show "verify_auth_signature c (db_provider_pk b) (rr_auth (db_report b)) ''report_inference'' (report_inference_body_hash c (db_report b)) = Inr ()"
    using same_key[OF assms(4)] f(3) by (auto simp: report_fits_def)
qed

lemma authenticated_key:
  assumes "ai_authenticate c now auth action h st = (st', Inr ())" "public_key_of st (ap_node_id auth) = Inr pk"
  shows "verify_auth_signature c pk auth action h = Inr ()"
  using assms by (elim ai_authenticate_ok) (auto simp: public_key_of_ok)

subsection \<open>What is proposed\<close>

lemma delivered_claim:
  assumes "report_fits c rv aid pb price rep"
  shows "rr_batch_start rep = pb_batch_start pb" "rr_batch_end rep = pb_batch_end pb" "rr_reward_mcu rep = price"
    "rr_assignment_id rep = aid" "rr_job_id rep = rs_job_id rv" "ap_node_id (rr_auth rep) \<noteq> rs_requester rv"
  using assms by (auto simp: report_fits_def)

lemma receipt_validates:
  assumes "certified c rv aid pb price" "held_for c rv aid pb price st" "delivered_batch aid st = Inr b"
    and "keys_ok c (ai_core st)" "inj_on (node_id_from_public_key c) {k. \<exists>s. b64_decode c s = Some k}"
    and "reserved (rs_job_id rv) = Some rv" "price \<le> bal (escrow_account (rs_job_id rv))"
    and "ap_node_id auth = db_requester b" "ai_authenticate c now auth ''receipt_inference''
             (inference_receipt_body_hash c aid (db_job_id b) (rr_batch_start (db_report b)) (rr_batch_end (db_report b))
                (rr_reward_mcu (db_report b)) (db_outputs_digest b)) st = (st1, Inr ())"
  shows "validate_transaction c (receipt_transaction now aid auth b) prev bal reserved vset = Inr ()"
proof -
  note d = delivered_batch_Inr[OF assms(3,2,4,5)] and f = delivered_claim[OF delivered_batch_Inr(3)[OF assms(3,2,4,5)]]
  have p: "0 < price" "price \<le> i64_max" "reserved_batch c rv aid (pb_batch_start pb) (pb_batch_end pb) = Inr (pb, price)"
    using assms(1) by (auto simp: certified_def)
  have "check_postings bal vset [\<lparr> p_account_id = escrow_account (rs_job_id rv), p_delta_mcu = - price \<rparr>, \<lparr> p_account_id = x, p_delta_mcu = price \<rparr>] = Inr ()" for x
    using p(1,2) assms(7) by (auto intro!: check_postings_pay)
  then show ?thesis
    using authenticated_key[OF assms(9)] d(5) p assms(8)
    by (simp add: validate_transaction_def receipt_transaction_def Let_def validate_evidence_def validate_inference_receipt_def receipt_auth_def
        d(1,2) f assms(6) pay_posting)
qed

lemma settlement_validates:
  assumes "certified c rv aid pb price" "held_for c rv aid pb price st" "settle_check c now auth aid accepted st = (st1, Inr b)"
    and "keys_ok c (ai_core st)" "inj_on (node_id_from_public_key c) {k. \<exists>s. b64_decode c s = Some k}"
    and "reserved (rs_job_id rv) = Some rv" "price \<le> bal (inference_holding_account aid)"
  shows "validate_transaction c (settle_transaction now aid auth accepted reason b) prev bal reserved vset =
         (if \<not> accepted then if bad_reason reason then Inl (InferenceInvalid BadDisputeReason) else Inr ()
          else if pb_node_id pb = ap_node_id (rr_auth (db_report b)) then Inr () else Inl (InferenceInvalid WrongProvider))"
proof -
  have a: "delivered_batch aid st = Inr b" "ap_node_id auth = db_requester b"
    "ai_authenticate c now auth (if accepted then ''accept_inference'' else ''dispute_inference'')
       (inference_verdict_body_hash c accepted aid (db_job_id b) (rr_batch_start (db_report b)) (rr_batch_end (db_report b))
                    (rr_reward_mcu (db_report b)) (db_outputs_digest b)) st = (st1, Inr ())"
    using assms(3) by (auto simp: settle_check_def case_sum_step split: if_splits)
  note d = delivered_batch_Inr[OF a(1) assms(2,4,5)] and f = delivered_claim[OF delivered_batch_Inr(3)[OF a(1) assms(2,4,5)]]
  have p: "0 < price" "price \<le> i64_max" "reserved_batch c rv aid (pb_batch_start pb) (pb_batch_end pb) = Inr (pb, price)"
    using assms(1) by (auto simp: certified_def)
  have "check_postings bal vset [\<lparr> p_account_id = inference_holding_account aid, p_delta_mcu = - price \<rparr>, \<lparr> p_account_id = x, p_delta_mcu = price \<rparr>] = Inr ()" for x
    using p(1,2) assms(7) by (auto intro!: check_postings_pay)
  then show ?thesis using authenticated_key[OF a(3)] d(5,6) a(2) p f(6)
    by (auto simp: validate_transaction_def settle_transaction_def Let_def validate_evidence_def validate_inference_reward_def
          validate_inference_dispute_def report_inference_auth_def reward_verdict_def dispute_verdict_def requester_verdict_def
          report_inference_body_hash_def d(1,2,4) f(1-5) assms(6) pay_posting)
qed

lemma rank_candidates_mem:
  "x \<in> set (rank_candidates m q nodes excluded) \<longleftrightarrow> (\<exists>n d. n \<in> set nodes \<and> np_online n \<and> np_node_id n \<notin> set excluded \<and> valid_metric n \<and>
     d \<in> set (np_devices n) \<and> device_matches d q \<and> x = candidate_for m q n d)"
  by (force simp: rank_candidates_def)

lemma rank_candidates_excluded: "nx \<in> set (rank_candidates m q nodes excluded) \<Longrightarrow> cs_node_id nx \<notin> set excluded"
  by (auto simp: rank_candidates_mem candidate_for_def Let_def)

text \<open>A node that gives a batch up makes it pending again, whatever had become of it.\<close>

lemma failure_reopens_batch:
  assumes "fail_inference c now auth aid reason st = (st1, Inr (nx, k))"
  shows "\<exists>a. fmlookup (ai_assignments st1) aid = Some a \<and> aa_status a = ''pending'' \<and> aa_assigned_node_id a = nx \<and> nx \<noteq> ap_node_id auth"
  using assms
proof (rule fail_inference_Inr)
  fix s a excluded cand
  assume auth: "ai_authenticate c now auth ''fail_inference'' (fail_inference_body_hash c aid reason) st = (s, Inr ())"
    and f: "failover c now auth aid s = Inr (a, excluded, cand)" and nx: "fst (nx, k) = cs_node_id cand"
    and st1: "st1 = set_ai_assignment aid (\<lambda>_. True)
       (\<lambda>r. r\<lparr> aa_assigned_node_id := cs_node_id cand, aa_assignment := (aa_assignment a)\<lparr> ia_device_id := cs_device_id cand \<rparr>,
              aa_failed_nodes := excluded, aa_status := ''pending'', aa_lease_until := None,
              aa_failure_count := aa_failure_count r + 1 \<rparr>) s"
  have "cs_node_id cand \<noteq> ap_node_id auth" using failover_ok(3,4)[OF f] rank_candidates_excluded by blast
  then show ?thesis using failover_ok(1)[OF f] nx by (simp add: st1)
qed

section \<open>Properties\<close>

text \<open>C19.  What a coordinator takes on the validators will fund: the escrow transaction of a submission that passed its checks
  passes theirs in every state of the ledger in which the requester can pay, whatever their set and whatever the
  reservations so far.\<close>

theorem funding_is_certified:
  assumes "submit_inference_check c now r st = (st', Inr j)" "ij_cost j \<le> bal (ap_node_id (sq_auth r))"
  shows "validate_transaction c (inference_reserve_transaction c now' r j) prev bal reserved vset = Inr ()"
proof -
  note ok = submit_inference_check_ok[OF assms(1)] and pb = planned_batches[OF assms(1)]
  from ok(2) obtain n limit where b: "parameter_count_is_plausible n (mm_total_size_bytes (ij_manifest j))"
    "sq_billing r = (bill_for_prompts c (ij_digest j) n (mm_total_size_bytes (ij_manifest j)) (sq_prompts r) (sq_max_tokens r))\<lparr> ib_max_cost_mcu := limit \<rparr>"
    "ij_cost j = inference_cost_mcu (prompt_bytes (sq_prompts r)) (sq_max_tokens r) n" "ij_cost j \<le> limit"
    unfolding check_inference_bill_ok by blast
  have cost: "0 < ij_cost j" "ij_cost j \<le> i64_max"
    using inference_cost_bounds[of "prompt_bytes (sq_prompts r)" "sq_max_tokens r" n] by (auto simp: b(3))
  note who = verified_not_account(1)[OF ok(4)]
  have bill: "ib_parameter_count (sq_billing r) = n" "ib_total_size_bytes (sq_billing r) = mm_total_size_bytes (ij_manifest j)"
    "ib_prompt_bytes (sq_billing r) = prompt_bytes (sq_prompts r)" "ib_max_cost_mcu (sq_billing r) = limit" "billing_cost (sq_billing r) = ij_cost j"
    using b(3) by (simp_all add: b(2) bill_for_prompts_def billing_cost_def)
  show ?thesis
    using check_postings_pay[where bal = bal, OF cost who assms(2)] cost ok(4) pb(1) b(1,4)
    by (simp add: validate_transaction_def inference_reserve_transaction_def Let_def validate_evidence_def validate_inference_reserve_def
        submit_inference_auth_def submit_inference_hash_def bill pay_posting prompt_bytes_def)
qed

text \<open>C17.  A batch is worth what was certified, whatever happens to it.  Once a submission is recorded, each of its batches is in the
  table with the price and the bounds under which the validators hold its escrow, given to the machine they hold it for; and
  through any sequence of polls, reports, receipts, verdicts, refunds, failures, sweeps and other requests its claim, its job
  and its requester stay what they were, and a report is kept only if it was signed for that claim by someone other than the requester.\<close>

theorem batch_stays_certified:
  assumes "submit_inference_check c now r st0 = (st1, Inr j)" "t = inference_reserve_transaction c now' r j"
    and "tx_evidence t = EvInferenceReserve e" "rv = reservation_of t e"
    and "submit_inference_record c now' r j (Some t) st = (st', Inr ())" "i < length (rs_batches rv)"
  shows "\<exists>price. certified c rv (inference_assignment_id c (rs_job_id rv) i) (rs_batches rv ! i) price \<and>
    map_option aa_assigned_node_id (fmlookup (ai_assignments st') (inference_assignment_id c (rs_job_id rv) i)) =
      Some (pb_node_id (rs_batches rv ! i)) \<and>
    (\<forall>past st2. desk_run c st' past st2 \<longrightarrow>
       held_for c rv (inference_assignment_id c (rs_job_id rv) i) (rs_batches rv ! i) price st2)"
proof -
  let ?b = "pl_batches (ij_plan j) ! i" and ?job = "inference_job_id_from_auth c (sq_auth r)"
  have rv: "rs_job_id rv = ?job" "rs_requester rv = ap_node_id (sq_auth r)" "rs_batches rv = priced_batches (ij_plan j)"
    using assms(2-4) by (auto simp: reservation_of_def inference_reserve_transaction_def Let_def)
  have i: "i < length (pl_batches (ij_plan j))" "pb_node_id (rs_batches rv ! i) = bs_node_id ?b"
    using assms(6) by (auto simp: rv(3) priced_batches_def)
  note cert = certified_nth[OF assms(1) i(1), of now' e, folded assms(2), OF assms(3), folded assms(4)]
  let ?price = "inference_batch_cost_mcu (prompt_bytes (sq_prompts r)) (bs_batch_start ?b) (bs_batch_end ?b) (sq_max_tokens r)
      (the (mm_parameter_count (ij_manifest j)))"
  obtain jb m' where rec: "ai_jobs st' = fmupd ?job jb (ai_jobs st)" "aj_requester_node_id jb = ap_node_id (sq_auth r)" "ai_assignments st' = m'"
    "fold_result (insert_ai_assignment c r j ''blocked'') (List.enumerate 0 (pl_batches (ij_plan j))) (ai_assignments st) = Inr m'"
    using assms(5) by (elim submit_record_ok) auto
  have small: "as_u32 i = i" using planned_batches(2)[OF assms(1)] i(1) by (simp add: as_u32_def)
  obtain a where a: "fmlookup m' (ia_assignment_id (assignment_for c r j (i, ?b))) = Some a" "aa_job_id a = ?job"
    "aa_assigned_node_id a = bs_node_id ?b" "aa_assignment a = assignment_for c r j (i, ?b)" "aa_report a = None"
    using insert_assignments[OF rec(4)] i(1) by force
  have aid: "ia_assignment_id (assignment_for c r j (i, ?b)) = inference_assignment_id c ?job i"
    by (simp add: assignment_for_def Let_def small)
  have "held_for c rv (inference_assignment_id c (rs_job_id rv) i) (rs_batches rv ! i) ?price st'"
    using rec a cert(2) aid by (simp add: held_for_def row_held_def rv(1,2))
  then show ?thesis using cert(1) a aid rec(3) i(2) held_run
    by (intro exI[of _ ?price]) (auto simp: rv(1))
qed



section \<open>Witnesses\<close>

text \<open>Three keys: \<open>trio_asker\<close> submits, \<open>trio_helper\<close> is to answer, \<open>trio_other\<close> stands by.\<close>

definition trio :: crypto where
  "trio = demo\<lparr> b64_decode := (\<lambda>s. Some (replicate 32 (if s = ''a'' then CHR ''a'' else if s = ''h'' then CHR ''h'' else CHR ''o''))) \<rparr>"

definition trio_asker :: string where "trio_asker = node_id_from_public_key trio (replicate 32 CHR ''a'')"
definition trio_helper :: string where "trio_helper = node_id_from_public_key trio (replicate 32 CHR ''h'')"
definition trio_other :: string where "trio_other = node_id_from_public_key trio (replicate 32 CHR ''o'')"

lemmas trio_names = trio_asker_def trio_helper_def trio_other_def

definition trio_proof :: "string \<Rightarrow> auth_proof" where
  "trio_proof n = \<lparr> ap_node_id = n, ap_timestamp = 0, ap_nonce_b64 = replicate 16 CHR ''n'', ap_signature_b64 = ''s'' \<rparr>"

lemma trio_simps [simp]:
  "sha256 trio s = s" "ed_key_ok trio k" "ed_sig_ok trio k" "ed_verify trio k m sg" "json_encode trio = json_encode demo"
  "b64_decode trio ''a'' = Some (replicate 32 CHR ''a'')" "b64_decode trio ''h'' = Some (replicate 32 CHR ''h'')" "b64_decode trio ''o'' = Some (replicate 32 CHR ''o'')"
  "b64_decode trio ''s'' = Some (replicate 32 CHR ''o'')"
  by (simp_all add: trio_def)

lemma trio_apart [simp]:
  "trio_asker \<noteq> trio_helper" "trio_helper \<noteq> trio_asker" "trio_asker \<noteq> trio_other" "trio_other \<noteq> trio_asker"
  "trio_helper \<noteq> trio_other" "trio_other \<noteq> trio_helper"
proof -
  have "replicate 16 x = x # replicate 15 x" for x :: char using replicate_Suc[of 15 x] by simp
  then have "node_id_from_public_key trio (replicate 32 x) =
      ''hocmesh_'' @ hex_digit (of_char x div 16) # hex_digit (of_char x mod 16) # hex_lower (replicate 15 x)" for x
    by (simp add: node_id_from_public_key_def hex_lower_def)
  then show "trio_asker \<noteq> trio_helper" "trio_helper \<noteq> trio_asker" "trio_asker \<noteq> trio_other" "trio_other \<noteq> trio_asker"
    "trio_helper \<noteq> trio_other" "trio_other \<noteq> trio_helper" by (simp_all add: trio_names hex_digit_def)
qed

lemma trio_keys: "inj_on (node_id_from_public_key trio) {k. \<exists>s. b64_decode trio s = Some k}"
proof -
  have "{k. \<exists>s. b64_decode trio s = Some k} \<subseteq> {replicate 32 CHR ''a'', replicate 32 CHR ''h'', replicate 32 CHR ''o''}"
    by (auto simp: trio_def)
  then show ?thesis by (rule inj_on_subset[rotated]) (use trio_apart in \<open>simp add: inj_on_def trio_names\<close>)
qed

definition trio_node :: "string \<Rightarrow> node_row" where
  "trio_node pk = \<lparr> nd_public_key_b64 = pk, nd_capabilities = demo_caps\<lparr> cp_ai_runtime_ready := True,
     cp_gpus := [\<lparr> gp_stable_id = ''g'', gp_vendor = '''', gp_name = '''', gp_backend = ''cpu'', gp_memory_mb = None, gp_driver_version = None,
       gp_compute_version = None, gp_supports_fp16 = False, gp_supports_bf16 = False, gp_supports_int8 = False,
       gp_benchmark_bytes_per_second = None, gp_benchmark_p95_micros = None \<rparr>] \<rparr>,
     nd_registered_at = 0, nd_last_seen = 0, nd_region = None \<rparr>"

definition trio_manifest :: model_manifest where
  "trio_manifest = \<lparr> mm_schema_version = 1, mm_model_id = ''m'', mm_revision = ''r'', mm_format = GgufFile, mm_architecture = ''llama'',
     mm_parameter_count = Some 2, mm_tensor_dtype = None, mm_total_size_bytes = 1,
     mm_chunks = [\<lparr> ck_index = 0, ck_sha256 = replicate 64 CHR ''0'', ck_size_bytes = 1 \<rparr>], mm_metadata = [] \<rparr>"

definition trio_request :: submit_inference_request where
  "trio_request = \<lparr> sq_auth = trio_proof trio_asker, sq_model_id = ''m'', sq_revision = ''r'', sq_prompts = [''hi''], sq_max_tokens = 1,
     sq_billing = bill_for_prompts trio (hash_json trio (model_manifest_json trio_manifest)) 2 1 [''hi''] 1, sq_temperature_milli = 0, sq_seed = 0,
     sq_requirements = demo_requirements 1 1, sq_layer_count = 1 \<rparr>"

definition trio_state :: ai_state where
  "trio_state = \<lparr> ai_core = empty_coordinator\<lparr> co_nodes := fmupd trio_helper (trio_node ''h'') (fmupd trio_asker (trio_node ''a'') fmempty) \<rparr>,
     ai_manifests = fmupd (''m'', ''r'') \<lparr> mr_digest = '''', mr_manifest = trio_manifest, mr_publisher_node_id = trio_asker, mr_created_at = 0 \<rparr> fmempty,
     ai_jobs = fmempty, ai_assignments = fmempty \<rparr>"

lemma trio_signed:
  "verify_auth_signature trio ''a'' (trio_proof trio_asker) action h = Inr ()" "verify_auth_signature trio ''h'' (trio_proof trio_helper) action h = Inr ()"
  "verify_auth_signature trio ''o'' (trio_proof trio_other) action h = Inr ()"
  by (simp_all add: verify_auth_signature_ok trio_proof_def trio_names)

lemma profile_metric: "valid_metric (profile_of from d m nr)"
proof -
  have "0 \<le> f_div (f_of_nat (min k 1000)) 1000 \<and> f_div (f_of_nat (min k 1000)) 1000 \<le> 1" for k
    using f_of_nat_mono[of "min k 1000" 1000] by (intro f_div_unit) (simp_all add: f_of_nat_exact)
  then show ?thesis
    by (simp add: valid_metric_def profile_of_def Let_def scoring_latency_ms_def ranking_bandwidth_mbps_def f_round_pos less_max_iff_disj le_max_iff_disj)
qed

lemma trio_authenticated:
  assumes "fmlookup (co_nodes (ai_core st)) n = Some r" "co_nonces (ai_core st) = fmempty"
    and "(n, nd_public_key_b64 r) \<in> {(trio_asker, ''a''), (trio_helper, ''h''), (trio_other, ''o'')}"
  shows "ai_authenticate trio 0 (trio_proof n) action h st =
     (st\<lparr> ai_core := (ai_core st)\<lparr> co_nonces := fmupd (n, replicate 16 CHR ''n'') 600 fmempty \<rparr> \<rparr>, Inr ())"
proof -
  have "verify_auth_signature trio (nd_public_key_b64 r) (trio_proof n) action h = Inr ()" using assms(3) trio_signed by auto
  moreover have "live_nonces 0 fmempty = fmempty" by (rule fmap_ext) (simp add: live_nonces_lookup)
  ultimately show ?thesis using assms(1,2)
    by (simp add: ai_authenticate_def authenticate_known_node_def trio_proof_def verify_auth_def consume_nonce_def on_core_def Let_def
        AUTH_MAX_CLOCK_SKEW_SECS_def range_defs)
qed

lemma fm_assoc_distinct: "distinct (fm_assoc m)"
  by (auto simp: fm_assoc_def distinct_map inj_on_def sorted_list_of_fset.rep_eq)

lemma only_element: "distinct xs \<Longrightarrow> set xs = {x} \<Longrightarrow> xs = [x]"
  by (cases xs; cases "tl xs") auto

definition trio_cost :: int where
  "trio_cost = inference_cost_mcu (prompt_bytes [''hi'']) 1 2"

definition trio_batch :: batch_shard where
  "trio_batch = \<lparr> bs_batch_start = 0, bs_batch_end = 1, bs_node_id = trio_helper, bs_device_id = ''g'' \<rparr>"

lemma trio_online:
  assumes "co_nodes co = co_nodes (ai_core trio_state)"
  shows "filter (\<lambda>(n, r). nd_last_seen r \<ge> 0 - NODE_ONLINE_SECS \<and> n \<noteq> trio_asker \<and> cp_ai_runtime_ready (nd_capabilities r)) (fm_assoc (co_nodes co)) =
     [(trio_helper, trio_node ''h'')]"
  by (rule only_element)
     (auto simp: assms trio_state_def fm_assoc_mem fm_assoc_distinct NODE_ONLINE_SECS_def trio_node_def split: if_splits)

lemma trio_digest: "manifest_digest trio trio_manifest = Inr (hash_json trio (model_manifest_json trio_manifest))"
  by (simp add: manifest_digest_def manifest_validate_def trio_manifest_def blank_def ws_len_def is_sha256_def ascii_hexdigit_def checked_add64_def list_all_iff u64_max_def)

lemma trio_context:
  assumes "co_nodes (ai_core st) = co_nodes (ai_core trio_state)" "ai_manifests st = ai_manifests trio_state"
  shows "\<exists>nodes seeds. ai_context trio 0 trio_asker ''m'' ''r'' st = Inr (trio_manifest, hash_json trio (model_manifest_json trio_manifest), nodes, seeds) \<and>
     (\<exists>cand. rank_candidates trio_manifest (demo_requirements 1 1) nodes [] = [cand] \<and> cs_node_id cand = trio_helper \<and> cs_device_id cand = ''g'')"
proof -
  have m: "get_model ''m'' ''r'' st = Inr trio_manifest" by (simp add: get_model_def assms(2) trio_state_def)
  show ?thesis
    using trio_online[OF assms(1)] profile_metric[of "stored_coordinate (ai_core st) trio_asker" "hash_json trio (model_manifest_json trio_manifest)" trio_manifest "(trio_helper, trio_node ''h'')"]
    by (simp add: ai_context_def m trio_digest Let_def rank_candidates_def profile_of_def trio_node_def protocol_gpu_to_device_def backend_of_def
        ascii_lowercase_def device_matches_def demo_requirements_def candidate_for_def map_filter_simps)
qed

lemma trio_checked:
  obtains st' j where "submit_inference_check trio 0 trio_request trio_state = (st', Inr j)" "ij_cost j = trio_cost"
    "pl_batches (ij_plan j) = [trio_batch]" "ij_manifest j = trio_manifest" "ij_requester_pk j = ''a''"
proof -
  let ?st = "trio_state\<lparr> ai_core := (ai_core trio_state)\<lparr> co_nonces := fmupd (trio_asker, replicate 16 CHR ''n'') 600 fmempty \<rparr> \<rparr>"
  have auth: "ai_authenticate trio 0 (trio_proof trio_asker) action h trio_state = (?st, Inr ())" for action h
    by (rule trio_authenticated[where r = "trio_node ''a''"]) (simp_all add: trio_state_def empty_coordinator_def trio_node_def)
  obtain nodes seeds cand where ctx: "ai_context trio 0 trio_asker ''m'' ''r'' ?st = Inr (trio_manifest, hash_json trio (model_manifest_json trio_manifest), nodes, seeds)"
    "rank_candidates trio_manifest (demo_requirements 1 1) nodes [] = [cand]" "cs_node_id cand = trio_helper" "cs_device_id cand = ''g''"
    using trio_context[of ?st] by auto
  have bill: "check_inference_bill trio trio_request trio_manifest (hash_json trio (model_manifest_json trio_manifest)) = Inr trio_cost"
    unfolding check_inference_bill_ok
    by (rule exI[of _ 2], rule exI[of _ trio_cost])
       (simp add: trio_manifest_def trio_request_def bill_for_prompts_def trio_cost_def parameter_count_is_plausible_def sat_mul64_def u64_max_def)
  obtain plan where plan: "checked_plan [cand] 1 (demo_requirements 1 1) = Inr plan" "pl_batches plan = [trio_batch]"
    by (simp add: checked_plan_def plan_parallelism_def demo_requirements_def batches_for_def validate_plan_def Let_def as_u32_def
        enumerate_simps ctx(3,4) trio_batch_def)
  have "public_key_of ?st trio_asker = Inr ''a''" by (simp add: public_key_of_def trio_state_def trio_node_def)
  then show ?thesis using auth ctx(1,2) bill plan
    by (intro that[of ?st "\<lparr> ij_manifest = trio_manifest, ij_digest = hash_json trio (model_manifest_json trio_manifest), ij_plan = plan,
          ij_seed_peers = seeds, ij_requester_pk = ''a'', ij_cost = trio_cost \<rparr>"])
       (simp_all add: submit_inference_check_def reading_def submit_request_validate_def trio_request_def trio_proof_def demo_requirements_def)
qed

theorem funding_is_certified_witness:
  "\<exists>j. validate_transaction trio (inference_reserve_transaction trio 0 trio_request j) '''' (\<lambda>_. i64_max) (\<lambda>_. None) demo_set = Inr () \<and>
     ij_cost j = trio_cost"
proof (rule trio_checked)
  fix st' j assume j: "submit_inference_check trio 0 trio_request trio_state = (st', Inr j)" "ij_cost j = trio_cost"
  then have "ij_cost j \<le> i64_max" by (simp add: trio_cost_def inference_cost_bounds)
  then show ?thesis using funding_is_certified[OF j(1), of "\<lambda>_. i64_max"] j(2) by blast
qed

theorem batch_stays_certified_witness:
  "\<exists>j st' e price. submit_inference_record trio 0 trio_request j (Some (inference_reserve_transaction trio 0 trio_request j)) trio_state = (st', Inr ()) \<and>
     tx_evidence (inference_reserve_transaction trio 0 trio_request j) = EvInferenceReserve e \<and>
     held_for trio (reservation_of (inference_reserve_transaction trio 0 trio_request j) e)
       (inference_assignment_id trio (ir_job_id e) 0) \<lparr> pb_batch_start = 0, pb_batch_end = 1, pb_node_id = trio_helper \<rparr> price st'"
proof (rule trio_checked)
  fix st1 j assume j: "submit_inference_check trio 0 trio_request trio_state = (st1, Inr j)" "pl_batches (ij_plan j) = [trio_batch]"
  let ?t = "inference_reserve_transaction trio 0 trio_request j"
  obtain e where e: "tx_evidence ?t = EvInferenceReserve e" "ir_batches e = priced_batches (ij_plan j)"
    by (simp add: inference_reserve_transaction_def Let_def)
  have b: "rs_batches (reservation_of ?t e) = [\<lparr> pb_batch_start = 0, pb_batch_end = 1, pb_node_id = trio_helper \<rparr>]"
    "rs_job_id (reservation_of ?t e) = ir_job_id e"
    by (simp_all add: reservation_of_def e(2) priced_batches_def j(2) trio_batch_def)
  have "\<exists>st'. submit_inference_record trio 0 trio_request j (Some ?t) trio_state = (st', Inr ())"
    by (simp add: submit_inference_record_def Let_def j(2) enumerate_simps insert_ai_assignment_def trio_state_def)
  then obtain st' where st': "submit_inference_record trio 0 trio_request j (Some ?t) trio_state = (st', Inr ())" by blast
  have "\<exists>price. held_for trio (reservation_of ?t e) (inference_assignment_id trio (ir_job_id e) 0)
      \<lparr> pb_batch_start = 0, pb_batch_end = 1, pb_node_id = trio_helper \<rparr> price st'"
    using batch_stays_certified[OF j(1) refl e(1) refl st', of 0] desk_run.start[of trio st'] unfolding b by auto
  then show ?thesis using st' e(1) by blast
qed

text \<open>A batch planned for \<open>trio_helper\<close>, given to a node and answered by one, whose answer the requester has taken.\<close>

definition trio_reservation :: inference_reservation where
  "trio_reservation = \<lparr> rs_job_id = ''j'', rs_billing = sq_billing trio_request,
     rs_batches = [\<lparr> pb_batch_start = 0, pb_batch_end = 1, pb_node_id = trio_helper \<rparr>], rs_requester = trio_asker, rs_reserved_at = 0 \<rparr>"

definition trio_assignment :: string where "trio_assignment = inference_assignment_id trio ''j'' 0"

definition trio_report :: "string \<Rightarrow> report_inference_request" where
  "trio_report provider = \<lparr> rr_auth = trio_proof provider, rr_assignment_id = trio_assignment, rr_job_id = ''j'', rr_batch_start = 0,
     rr_batch_end = 1, rr_reward_mcu = trio_cost, rr_outputs = [] \<rparr>"

definition trio_row :: "string \<Rightarrow> ai_assignment_row" where
  "trio_row provider =
        \<lparr> aa_job_id = ''j'', aa_assigned_node_id = trio_helper,
          aa_assignment = \<lparr> ia_assignment_id = trio_assignment, ia_job_id = ''j'', ia_manifest = trio_manifest, ia_seed_peers = [],
            ia_prompts = [(0, ''hi'')], ia_max_tokens = 1, ia_temperature_milli = 0, ia_seed = 0, ia_device_id = ''g'', ia_lease_seconds = 0 \<rparr>,
          aa_status = ''completed'', aa_lease_until = None, aa_outputs = Some [], aa_failure_count = 0, aa_failed_nodes = [],
          aa_completed_at = None, aa_report = Some (trio_report provider), aa_outputs_digest = Some (outputs_hash trio []),
          aa_receipted = True, aa_settled = None, aa_receipt_auth = None, aa_rowid = 1 \<rparr>"

definition trio_delivered :: "string \<Rightarrow> ai_state" where
  "trio_delivered provider = trio_state\<lparr>
     ai_core := empty_coordinator\<lparr> co_nodes := fmupd trio_other (trio_node ''o'') (co_nodes (ai_core trio_state)) \<rparr>,
     ai_jobs := fmupd ''j'' \<lparr> aj_requester_node_id = trio_asker, aj_request = trio_request,
        aj_plan = \<lparr> pl_kinds = [], pl_pipeline = [], pl_tensor_group = [], pl_batches = [] \<rparr>, aj_manifest_digest = '''',
        aj_status = ''completed'', aj_created_at = 0, aj_completed_at = None \<rparr> fmempty,
     ai_assignments := fmupd trio_assignment (trio_row provider) fmempty \<rparr>"

lemma trio_lookup [simp]: "fmlookup (ai_assignments (trio_delivered provider)) trio_assignment = Some (trio_row provider)"
  by (simp add: trio_delivered_def)

lemma trio_certified:
  "certified trio trio_reservation trio_assignment \<lparr> pb_batch_start = 0, pb_batch_end = 1, pb_node_id = trio_helper \<rparr> trio_cost"
  using inference_cost_bounds[of "prompt_bytes [''hi'']" 1 2]
  by (simp add: certified_def reserved_batch_def trio_reservation_def trio_assignment_def as_u32_def trio_request_def bill_for_prompts_def
      inference_batch_cost_mcu_def trio_cost_def prompt_bytes_def)

lemma trio_held:
  assumes "provider \<in> {trio_helper, trio_other}"
  shows "held_for trio trio_reservation trio_assignment \<lparr> pb_batch_start = 0, pb_batch_end = 1, pb_node_id = trio_helper \<rparr> trio_cost (trio_delivered provider)"
proof -
  have "\<exists>pk. verify_auth_signature trio pk (trio_proof provider) action h = Inr ()" for action h using assms trio_signed by blast
  moreover have "ap_node_id (trio_proof provider) \<noteq> trio_asker" using assms by (auto simp: trio_proof_def)
  ultimately show ?thesis
    by (simp add: held_for_def row_held_def report_fits_def trio_reservation_def trio_report_def trio_row_def
        assignment_claim_def trio_manifest_def as_u32_def trio_cost_def prompt_bytes_def, simp add: trio_delivered_def)
qed

lemma trio_keys_ok: "keys_ok trio (ai_core (trio_delivered provider))"
  by (simp add: keys_ok_def trio_delivered_def trio_state_def trio_node_def node_id_from_public_key_b64_def trio_names)

lemma trio_signs:
  assumes "(n, pk) \<in> {(trio_asker, ''a''), (trio_helper, ''h''), (trio_other, ''o'')}"
  shows "ai_authenticate trio 0 (trio_proof n) action h (trio_delivered provider) = ((trio_delivered provider)\<lparr> ai_core :=
     (ai_core (trio_delivered provider))\<lparr> co_nonces := fmupd (n, replicate 16 CHR ''n'') 600 fmempty \<rparr> \<rparr>, Inr ())"
  using assms by (intro trio_authenticated[where r = "trio_node pk"]) (auto simp: trio_delivered_def trio_state_def empty_coordinator_def trio_node_def)

lemma trio_judged:
  assumes "provider \<in> {trio_helper, trio_other}" "ai_jobs st = ai_jobs (trio_delivered provider)"
    "co_nodes (ai_core st) = co_nodes (ai_core (trio_delivered provider))" "co_nonces (ai_core st) = fmempty"
    "fmlookup (ai_assignments st) trio_assignment = Some a" "aa_report a = Some (trio_report provider)" "aa_job_id a = ''j''" "aa_receipted a" "aa_settled a = None"
    "aa_outputs a = Some []" "aa_outputs_digest a = Some (outputs_hash trio [])"
  obtains st1 b where "settle_check trio 0 (trio_proof trio_asker) trio_assignment accepted st = (st1, Inr b)"
    "ap_node_id (rr_auth (db_report b)) = provider" "delivered_batch trio_assignment st = Inr b" "db_requester b = trio_asker"
proof -
  have pk: "public_key_of st trio_asker = Inr ''a''" "public_key_of st provider = Inr (if provider = trio_helper then ''h'' else ''o'')"
    using assms(1,3) by (auto simp: public_key_of_def trio_delivered_def trio_state_def trio_node_def)
  let ?b = "\<lparr> db_job_id = ''j'', db_requester = trio_asker, db_report = trio_report provider, db_outputs = [], db_outputs_digest = outputs_hash trio [],
    db_provider_pk = (if provider = trio_helper then ''h'' else ''o''), db_requester_pk = ''a'', db_receipted = True, db_settled = None \<rparr>"
  have "fmlookup (ai_jobs st) ''j'' \<noteq> None" "aj_requester_node_id (the (fmlookup (ai_jobs st) ''j'')) = trio_asker"
    by (simp_all add: assms(2) trio_delivered_def)
  then have row: "delivered_batch trio_assignment st = Inr ?b"
    using pk assms(5-11) by (auto simp: delivered_batch_def ai_row_def trio_report_def trio_proof_def)
  have auth: "ai_authenticate trio 0 (trio_proof trio_asker) action h st =
     (st\<lparr> ai_core := (ai_core st)\<lparr> co_nonces := fmupd (trio_asker, replicate 16 CHR ''n'') 600 fmempty \<rparr> \<rparr>, Inr ())" for action h
    by (rule trio_authenticated[where r = "trio_node ''a''"]) (simp_all add: assms(3,4) trio_delivered_def trio_state_def trio_node_def)
  show ?thesis by (rule that[of _ ?b]) (simp_all add: settle_check_def row auth, simp_all add: trio_proof_def trio_report_def)
qed


lemma trio_failover:
  obtains cand where "cs_node_id cand = trio_other"
    "failover trio 0 (trio_proof trio_helper) trio_assignment ((trio_delivered trio_other)\<lparr> ai_core := (ai_core (trio_delivered trio_other))\<lparr> co_nonces := ns \<rparr> \<rparr>) =
       Inr (trio_row trio_other, [trio_helper], cand)"
proof -
  let ?st = "(trio_delivered trio_other)\<lparr> ai_core := (ai_core (trio_delivered trio_other))\<lparr> co_nonces := ns \<rparr> \<rparr>"
  define f where "f = profile_of (stored_coordinate (ai_core ?st) trio_asker) (hash_json trio (model_manifest_json trio_manifest)) trio_manifest"
  define rows where "rows = filter (\<lambda>(n, r). nd_last_seen r \<ge> 0 - NODE_ONLINE_SECS \<and> n \<noteq> trio_asker \<and> cp_ai_runtime_ready (nd_capabilities r))
    (fm_assoc (co_nodes (ai_core ?st)))"
  have rows: "set rows = {(trio_helper, trio_node ''h''), (trio_other, trio_node ''o'')}"
    by (auto simp: rows_def fm_assoc_mem trio_delivered_def trio_state_def NODE_ONLINE_SECS_def trio_node_def split: if_splits)
  have "get_model ''m'' ''r'' ?st = Inr trio_manifest" by (simp add: get_model_def trio_delivered_def trio_state_def)
  then obtain seeds where ctx: "ai_context trio 0 trio_asker ''m'' ''r'' ?st =
      Inr (trio_manifest, hash_json trio (model_manifest_json trio_manifest), map f rows, seeds)"
    by (simp add: ai_context_def trio_digest Let_def f_def rows_def)
  let ?ranked = "rank_candidates trio_manifest (demo_requirements 1 1) (map f rows) [trio_helper]"
  have node: "np_node_id (f row) = fst row" "np_online (f row)" "valid_metric (f row)" for row
    by (simp_all add: f_def profile_metric, simp_all add: profile_of_def Let_def)
  have only: "cs_node_id x = trio_other" if "x \<in> set ?ranked" for x
    using that rows node(1) by (auto simp: rank_candidates_mem candidate_for_def Let_def)
  obtain d where "d \<in> set (np_devices (f (trio_other, trio_node ''o'')))" "device_matches d (demo_requirements 1 1)"
    by (simp add: f_def profile_of_def Let_def trio_node_def protocol_gpu_to_device_def backend_of_def ascii_lowercase_def
        device_matches_def demo_requirements_def map_filter_simps)
  then have "candidate_for trio_manifest (demo_requirements 1 1) (f (trio_other, trio_node ''o'')) d \<in> set ?ranked"
    unfolding rank_candidates_mem by (intro exI[of _ "f (trio_other, trio_node ''o'')"] exI[of _ d]) (simp add: node rows)
  then obtain cand rest where c: "?ranked = cand # rest" "cs_node_id cand = trio_other" using only by (cases ?ranked) auto
  obtain job where job: "fmlookup (ai_jobs ?st) ''j'' = Some job" "aj_request job = trio_request" by (simp add: trio_delivered_def)
  have row: "ai_row trio_assignment ?st = Inr (trio_row trio_other)" "aa_job_id (trio_row trio_other) = ''j''"
    "aa_assigned_node_id (trio_row trio_other) = trio_helper" "aa_failed_nodes (trio_row trio_other) = []"
    by (simp_all add: ai_row_Inr trio_row_def)
  have req: "ap_node_id (sq_auth trio_request) = trio_asker" "sq_model_id trio_request = ''m''" "sq_revision trio_request = ''r''"
    "sq_requirements trio_request = demo_requirements 1 1" "ap_node_id (trio_proof trio_helper) = trio_helper"
    by (simp_all add: trio_request_def trio_proof_def)
  have "failover trio 0 (trio_proof trio_helper) trio_assignment ?st = Inr (trio_row trio_other, [trio_helper], cand)"
    unfolding failover_def row(1) qbind_simps row(2-4) job(1) option.case job(2) req ctx Let_def prod.case using c(1) by simp
  then show ?thesis using c(2) that by blast
qed

lemma trio_fails:
  obtains dev k where
    "fail_inference trio 0 (trio_proof trio_helper) trio_assignment ''x'' (trio_delivered trio_other) =
      (set_ai_assignment trio_assignment (\<lambda>_. True)
         (\<lambda>r. r\<lparr> aa_assigned_node_id := trio_other, aa_assignment := (aa_assignment (trio_row trio_other))\<lparr> ia_device_id := dev \<rparr>,
              aa_failed_nodes := [trio_helper], aa_status := ''pending'', aa_lease_until := None, aa_failure_count := aa_failure_count r + 1 \<rparr>)
         ((trio_delivered trio_other)\<lparr> ai_core := (ai_core (trio_delivered trio_other))\<lparr> co_nonces :=
            fmupd (trio_helper, replicate 16 CHR ''n'') 600 fmempty \<rparr> \<rparr>), Inr (trio_other, k))"
proof (rule trio_failover[of "fmupd (trio_helper, replicate 16 CHR ''n'') 600 fmempty"])
  fix cand
  assume cand: "cs_node_id cand = trio_other"
    and f: "failover trio 0 (trio_proof trio_helper) trio_assignment ((trio_delivered trio_other)\<lparr> ai_core := (ai_core (trio_delivered trio_other))\<lparr> co_nonces :=
       fmupd (trio_helper, replicate 16 CHR ''n'') 600 fmempty \<rparr> \<rparr>) = Inr (trio_row trio_other, [trio_helper], cand)"
  show thesis
    by (rule that) (simp add: fail_inference_def trio_signs[of trio_helper "''h''", simplified] f cand)
qed


end
