(* ===== verification/Sharing.thy ===== *)
theory Sharing
  imports Planning
begin

text \<open>
  What an operator lends of a machine and what the node says of it: the consent record of \<open>hocmesh-core/src/limits.rs\<close>
  and its file, the description of the machine in \<open>hocmesh-core/src/hardware.rs\<close>, and the changes a front end asks for
  (\<open>LimitsRequest\<close> and \<open>advertised_capabilities\<close> of \<open>hocmesh-node/src/control.rs\<close>).  What the operating system, its
  drivers and the benchmarks answer is the record \<open>machine\<close>; the text serde reads and writes is a pair of
  functions, \<open>pr\<close> from a document to its text and \<open>ps\<close> back.
\<close>

section \<open>Definitions\<close>

subsection \<open>The consent record\<close>

record resource_limits =
  rl_cpu_percent :: nat
  rl_gpu_percent :: nat
  rl_memory_percent :: nat
  rl_ai :: "bool option"

datatype limits_error = BadCpuPercent nat | BadGpuPercent nat | BadMemoryPercent nat | UnreadableLimits

definition default_limits :: resource_limits where
  "default_limits = \<lparr> rl_cpu_percent = 50, rl_gpu_percent = 0, rl_memory_percent = 50, rl_ai = None \<rparr>"

definition limits_validate :: "resource_limits \<Rightarrow> limits_error + unit" where
  "limits_validate l =
     (if rl_cpu_percent l = 0 \<or> 100 < rl_cpu_percent l then Inl (BadCpuPercent (rl_cpu_percent l))
      else if 100 < rl_gpu_percent l then Inl (BadGpuPercent (rl_gpu_percent l))
      else if rl_memory_percent l = 0 \<or> 100 < rl_memory_percent l then Inl (BadMemoryPercent (rl_memory_percent l))
      else Inr ())"

definition effective_workers :: "resource_limits \<Rightarrow> nat \<Rightarrow> nat" where
  "effective_workers l logical_cpus =
     (let cpus = max logical_cpus 1;
          share = wrap_u64 (cpus * rl_cpu_percent l) div 100
      in min (max share 1) cpus)"

definition limits_shared_memory_bytes :: "resource_limits \<Rightarrow> nat \<Rightarrow> nat" where
  "limits_shared_memory_bytes l total_memory_bytes = wrap_u64 (total_memory_bytes div 100 * rl_memory_percent l)"

definition offers_gpu :: "resource_limits \<Rightarrow> bool" where
  "offers_gpu l \<longleftrightarrow> 0 < rl_gpu_percent l"

definition offers_ai :: "resource_limits \<Rightarrow> bool \<Rightarrow> bool" where
  "offers_ai l accelerator_shared = (case rl_ai l of None \<Rightarrow> accelerator_shared | Some b \<Rightarrow> b)"

definition clamp_requested_workers :: "resource_limits \<Rightarrow> nat option \<Rightarrow> nat \<Rightarrow> nat" where
  "clamp_requested_workers l requested logical_cpus =
     (let allowed = effective_workers l logical_cpus
      in max (case requested of None \<Rightarrow> allowed | Some w \<Rightarrow> min w allowed) 1)"

subsection \<open>Its document and its file\<close>

text \<open>A derived reader takes an object with every field at most once, other keys ignored, or an array of the fields in
  their order; a field whose type is an option may be missing.\<close>

definition jfield :: "string \<Rightarrow> (string \<times> json) list \<Rightarrow> limits_error + json option" where
  "jfield k kvs =
     (case filter (\<lambda>kv. fst kv = k) kvs of [] \<Rightarrow> Inr None | [kv] \<Rightarrow> Inr (Some (snd kv)) | _ \<Rightarrow> Inl UnreadableLimits)"

fun as_u8 :: "json \<Rightarrow> limits_error + nat" where
  "as_u8 (JNum i) = (if 0 \<le> i \<and> i < 256 then Inr (nat i) else Inl UnreadableLimits)"
| "as_u8 _ = Inl UnreadableLimits"

fun as_opt_bool :: "json \<Rightarrow> limits_error + bool option" where
  "as_opt_bool JNull = Inr None"
| "as_opt_bool (JBool b) = Inr (Some b)"
| "as_opt_bool _ = Inl UnreadableLimits"

definition required_u8 :: "string \<Rightarrow> (string \<times> json) list \<Rightarrow> limits_error + nat" where
  "required_u8 k kvs =
     qbind (jfield k kvs) (\<lambda>f. case f of None \<Rightarrow> Inl UnreadableLimits | Some j \<Rightarrow> as_u8 j)"

definition limits_of :: "json \<Rightarrow> json \<Rightarrow> json \<Rightarrow> json \<Rightarrow> limits_error + resource_limits" where
  "limits_of a b d e =
     qbind (as_u8 a) (\<lambda>cpu. qbind (as_u8 b) (\<lambda>gpu. qbind (as_u8 d) (\<lambda>mem. qbind (as_opt_bool e) (\<lambda>ai.
       Inr \<lparr> rl_cpu_percent = cpu, rl_gpu_percent = gpu, rl_memory_percent = mem, rl_ai = ai \<rparr>))))"

fun limits_of_json :: "json \<Rightarrow> limits_error + resource_limits" where
  "limits_of_json (JObj kvs) =
     qbind (required_u8 ''cpu_percent'' kvs) (\<lambda>cpu.
     qbind (required_u8 ''gpu_percent'' kvs) (\<lambda>gpu.
     qbind (required_u8 ''memory_percent'' kvs) (\<lambda>mem.
     qbind (jfield ''ai'' kvs) (\<lambda>f.
     qbind (case f of None \<Rightarrow> Inr None | Some j \<Rightarrow> as_opt_bool j) (\<lambda>ai.
       Inr \<lparr> rl_cpu_percent = cpu, rl_gpu_percent = gpu, rl_memory_percent = mem, rl_ai = ai \<rparr>)))))"
| "limits_of_json (JArr [a, b, d]) = limits_of a b d JNull"
| "limits_of_json (JArr [a, b, d, e]) = limits_of a b d e"
| "limits_of_json _ = Inl UnreadableLimits"

definition limits_json :: "resource_limits \<Rightarrow> json" where
  "limits_json l = JObj
     [(''cpu_percent'', jnat (rl_cpu_percent l)), (''gpu_percent'', jnat (rl_gpu_percent l)),
      (''memory_percent'', jnat (rl_memory_percent l)), (''ai'', jopt JBool (rl_ai l))]"

text \<open>The file \<open>limits.json\<close> of the home directory: its text, or nothing.\<close>

definition load_or_default :: "(string \<Rightarrow> json option) \<Rightarrow> string option \<Rightarrow> limits_error + resource_limits" where
  "load_or_default ps file =
     (case file of
        None \<Rightarrow> Inr default_limits
      | Some raw \<Rightarrow>
          (case ps raw of
             None \<Rightarrow> Inl UnreadableLimits
           | Some j \<Rightarrow> qbind (limits_of_json j) (\<lambda>l. qbind (limits_validate l) (\<lambda>_. Inr l))))"

definition limits_save :: "(json \<Rightarrow> string) \<Rightarrow> resource_limits \<Rightarrow> limits_error + string option" where
  "limits_save pr l = qbind (limits_validate l) (\<lambda>_. Inr (Some (pr (limits_json l))))"

subsection \<open>The machine\<close>

record machine =
  mc_hostname :: "string option"
  mc_os :: string
  mc_arch :: string
  mc_cpu_brand :: "string option"
  mc_cpu_count :: nat
  mc_total_memory :: nat
  mc_cpu_score :: nat
  mc_memory_bandwidth :: "nat option"
  mc_devices :: "device_capability list"

definition backend_name :: "backend_kind \<Rightarrow> string" where
  "backend_name b = (case b of Cuda \<Rightarrow> ''cuda'' | Rocm \<Rightarrow> ''rocm'' | Metal \<Rightarrow> ''metal'' | Cpu \<Rightarrow> ''cpu'')"

definition gpu_of_device :: "device_capability \<Rightarrow> gpu_capability" where
  "gpu_of_device d =
     \<lparr> gp_stable_id = dv_stable_id d, gp_vendor = dv_vendor d, gp_name = dv_name d,
       gp_backend = backend_name (dv_backend d), gp_memory_mb = map_option (\<lambda>b. b div 1024 div 1024) (dv_memory_bytes d),
       gp_driver_version = dv_driver_version d, gp_compute_version = dv_compute_version d,
       gp_supports_fp16 = dv_supports_fp16 d, gp_supports_bf16 = dv_supports_bf16 d,
       gp_supports_int8 = dv_supports_int8 d, gp_benchmark_bytes_per_second = None, gp_benchmark_p95_micros = None \<rparr>"

definition apply_limits :: "resource_limits \<Rightarrow> node_capabilities \<Rightarrow> node_capabilities" where
  "apply_limits l caps =
     (let caps = caps\<lparr> cp_shared_logical_cpus := effective_workers l (cp_logical_cpus caps),
                       cp_shared_memory_bytes := limits_shared_memory_bytes l (cp_total_memory_bytes caps),
                       cp_shared_gpu_percent := rl_gpu_percent l \<rparr>
      in if offers_gpu l then caps else caps\<lparr> cp_gpus := [], cp_ai_runtime_ready := False \<rparr>)"

definition detect_capabilities_with_models ::
  "machine \<Rightarrow> bool \<Rightarrow> string option \<Rightarrow> string list \<Rightarrow> node_capabilities" where
  "detect_capabilities_with_models m run_benchmark model_seed_url cached_model_manifests =
     apply_limits default_limits
       \<lparr> cp_protocol_version = PROTOCOL_VERSION,
         cp_hostname = (case mc_hostname m of None \<Rightarrow> ''unknown'' | Some h \<Rightarrow> h), cp_os = mc_os m, cp_arch = mc_arch m,
         cp_cpu_brand = (case mc_cpu_brand m of None \<Rightarrow> ''unknown'' | Some b \<Rightarrow> if b = [] then ''unknown'' else b),
         cp_logical_cpus = max (mc_cpu_count m) 1, cp_total_memory_bytes = mc_total_memory m,
         cp_cpu_benchmark_score = (if run_benchmark then mc_cpu_score m else 0),
         cp_memory_bandwidth_bytes_per_second = (if run_benchmark then mc_memory_bandwidth m else None),
         cp_gpus = map gpu_of_device (mc_devices m), cp_model_seed_url = model_seed_url,
         cp_cached_model_manifests = cached_model_manifests, cp_coordinator_latency_micros = 0,
         cp_model_bandwidth_kbps = 0, cp_load_permille = 0, cp_ai_runtime_ready = False, cp_shared_logical_cpus = 0,
         cp_shared_memory_bytes = 0, cp_shared_gpu_percent = 0, cp_network_coordinate = None,
         cp_probe_endpoint = None \<rparr>"

definition detect_capabilities :: "machine \<Rightarrow> bool \<Rightarrow> node_capabilities" where
  "detect_capabilities m run_benchmark = detect_capabilities_with_models m run_benchmark None []"

definition SHARED_CPU_DEVICE_ID :: string where
  "SHARED_CPU_DEVICE_ID = ''cpu-0''"

text \<open>\<open>arch\<close> is the architecture the program was built for.\<close>

definition cpu_device :: "string \<Rightarrow> device_capability" where
  "cpu_device arch =
     \<lparr> dv_stable_id = SHARED_CPU_DEVICE_ID, dv_backend = Cpu, dv_vendor = arch, dv_name = ''CPU'',
       dv_memory_bytes = None, dv_driver_version = None, dv_compute_version = None, dv_supports_fp16 = True,
       dv_supports_bf16 = True, dv_supports_int8 = True, dv_memory_bandwidth_bytes_per_second = None \<rparr>"

definition resolve_device :: "string \<Rightarrow> device_capability list \<Rightarrow> string \<Rightarrow> device_capability option" where
  "resolve_device arch discovered stable_id =
     (case find (\<lambda>d. dv_stable_id d = stable_id) discovered of
        Some d \<Rightarrow> Some d
      | None \<Rightarrow> if stable_id = SHARED_CPU_DEVICE_ID then Some (cpu_device arch) else None)"

definition gpu_layers_for :: "device_capability \<Rightarrow> nat \<Rightarrow> nat" where
  "gpu_layers_for d requested = (case dv_backend d of Cpu \<Rightarrow> 0 | _ \<Rightarrow> requested)"

definition shared_cpu_device :: "string \<Rightarrow> node_capabilities \<Rightarrow> gpu_capability" where
  "shared_cpu_device arch caps =
     (let d = cpu_device arch in
      \<lparr> gp_stable_id = dv_stable_id d, gp_vendor = dv_vendor d, gp_name = cp_cpu_brand caps,
        gp_backend = backend_name (dv_backend d),
        gp_memory_mb = Some (cp_shared_memory_bytes caps div (1024 * 1024)),
        gp_driver_version = dv_driver_version d, gp_compute_version = dv_compute_version d,
        gp_supports_fp16 = dv_supports_fp16 d, gp_supports_bf16 = dv_supports_bf16 d,
        gp_supports_int8 = dv_supports_int8 d, gp_benchmark_bytes_per_second = None, gp_benchmark_p95_micros = None \<rparr>)"

definition apply_ai_readiness :: "string \<Rightarrow> resource_limits \<Rightarrow> bool \<Rightarrow> node_capabilities \<Rightarrow> node_capabilities" where
  "apply_ai_readiness arch l runtime_available caps =
     (let caps = caps\<lparr> cp_gpus := filter (\<lambda>g. gp_stable_id g \<noteq> SHARED_CPU_DEVICE_ID) (cp_gpus caps) \<rparr>;
          accelerator_shared = (cp_gpus caps \<noteq> []);
          caps = caps\<lparr> cp_ai_runtime_ready := (runtime_available \<and> offers_ai l accelerator_shared) \<rparr>
      in if cp_ai_runtime_ready caps \<and> \<not> accelerator_shared
         then caps\<lparr> cp_gpus := cp_gpus caps @ [shared_cpu_device arch caps] \<rparr> else caps)"

definition advertised_capabilities ::
  "string \<Rightarrow> node_capabilities \<Rightarrow> resource_limits \<Rightarrow> bool \<Rightarrow> node_capabilities" where
  "advertised_capabilities arch detected l runtime_available =
     apply_ai_readiness arch l runtime_available (apply_limits l detected)"

subsection \<open>A change of the limits\<close>

record limits_request =
  lq_cpu_percent :: "nat option"
  lq_gpu_percent :: "nat option"
  lq_memory_percent :: "nat option"
  lq_ai :: "bool option option"

definition request_apply_to :: "limits_request \<Rightarrow> resource_limits \<Rightarrow> resource_limits" where
  "request_apply_to q l =
     \<lparr> rl_cpu_percent = (case lq_cpu_percent q of None \<Rightarrow> rl_cpu_percent l | Some v \<Rightarrow> v),
       rl_gpu_percent = (case lq_gpu_percent q of None \<Rightarrow> rl_gpu_percent l | Some v \<Rightarrow> v),
       rl_memory_percent = (case lq_memory_percent q of None \<Rightarrow> rl_memory_percent l | Some v \<Rightarrow> v),
       rl_ai = (case lq_ai q of None \<Rightarrow> rl_ai l | Some v \<Rightarrow> v) \<rparr>"

text \<open>The document of a request: an absent field is left out.  The reader of an option takes \<open>null\<close> for its \<open>None\<close>
  before it looks at what the option holds, so the reader of the nested option of \<open>ai\<close> does so at its outer layer.\<close>

definition jsome :: "string \<Rightarrow> ('a \<Rightarrow> json) \<Rightarrow> 'a option \<Rightarrow> (string \<times> json) list" where
  "jsome k f v = (case v of None \<Rightarrow> [] | Some x \<Rightarrow> [(k, f x)])"

definition limits_request_json :: "limits_request \<Rightarrow> json" where
  "limits_request_json q = JObj
     (jsome ''cpu_percent'' jnat (lq_cpu_percent q) @ jsome ''gpu_percent'' jnat (lq_gpu_percent q) @
      jsome ''memory_percent'' jnat (lq_memory_percent q) @ jsome ''ai'' (jopt JBool) (lq_ai q))"

definition read_option :: "(json \<Rightarrow> limits_error + 'a) \<Rightarrow> json \<Rightarrow> limits_error + 'a option" where
  "read_option f j = (if j = JNull then Inr None else qbind (f j) (\<lambda>v. Inr (Some v)))"

definition optional_field ::
  "(json \<Rightarrow> limits_error + 'a) \<Rightarrow> string \<Rightarrow> (string \<times> json) list \<Rightarrow> limits_error + 'a option" where
  "optional_field f k kvs = qbind (jfield k kvs) (\<lambda>j. case j of None \<Rightarrow> Inr None | Some j \<Rightarrow> read_option f j)"

definition limits_request_of_json :: "(string \<times> json) list \<Rightarrow> limits_error + limits_request" where
  "limits_request_of_json kvs =
     qbind (optional_field as_u8 ''cpu_percent'' kvs) (\<lambda>cpu.
     qbind (optional_field as_u8 ''gpu_percent'' kvs) (\<lambda>gpu.
     qbind (optional_field as_u8 ''memory_percent'' kvs) (\<lambda>mem.
     qbind (optional_field as_opt_bool ''ai'' kvs) (\<lambda>ai.
       Inr \<lparr> lq_cpu_percent = cpu, lq_gpu_percent = gpu, lq_memory_percent = mem, lq_ai = ai \<rparr>))))"

section \<open>Lemmas\<close>

lemma limits_validate_ok [simp]:
  "limits_validate l = Inr u \<longleftrightarrow> rl_cpu_percent l \<in> {1..100} \<and> rl_gpu_percent l \<le> 100 \<and> rl_memory_percent l \<in> {1..100}"
  by (auto simp: limits_validate_def)

lemma default_limits_valid: "limits_validate default_limits = Inr ()"
  by (simp add: default_limits_def)

lemma effective_workers_bounds: "1 \<le> effective_workers l n" "effective_workers l n \<le> max n 1"
  by (auto simp: effective_workers_def Let_def)

lemma effective_workers_share:
  assumes "rl_cpu_percent l \<le> 100" "0 < n" "n * 100 \<le> u64_max"
  shows "effective_workers l n = max (n * rl_cpu_percent l div 100) 1"
proof -
  have p: "n * rl_cpu_percent l \<le> n * 100" using assms(1) by simp
  then have "n * rl_cpu_percent l div 100 \<le> n * 100 div 100" by (rule div_le_mono)
  moreover have "wrap_u64 (n * rl_cpu_percent l) = n * rl_cpu_percent l"
    by (rule wrap_u64_id) (use p assms(3) in linarith)
  ultimately show ?thesis using assms(2) by (simp add: effective_workers_def Let_def max_absorb1)
qed

lemma clamp_never_raises:
  "1 \<le> clamp_requested_workers l req n" "clamp_requested_workers l req n \<le> effective_workers l n"
  "req = Some w \<Longrightarrow> clamp_requested_workers l req n \<le> max w 1"
  using effective_workers_bounds(1)[of l n] by (auto simp: clamp_requested_workers_def Let_def split: option.splits)

lemma shared_memory_bounds:
  assumes "rl_memory_percent l \<le> 100" "n \<le> u64_max"
  shows "limits_shared_memory_bytes l n \<le> n"
proof -
  have "n div 100 * rl_memory_percent l \<le> n div 100 * 100" using assms(1) by simp
  also have "\<dots> \<le> n" by simp
  finally show ?thesis using assms(2) by (simp add: limits_shared_memory_bytes_def)
qed

text \<open>What is saved is what is loaded, and a record that could not be loaded is never written.\<close>

lemma limits_of_own_json:
  assumes "rl_cpu_percent l < 256" "rl_gpu_percent l < 256" "rl_memory_percent l < 256"
  shows "limits_of_json (limits_json l) = Inr l"
  using assms by (cases "rl_ai l")
    (simp_all add: limits_json_def required_u8_def jfield_def jnat_def jopt_def qbind_def)

lemma limits_saved_are_loaded:
  assumes "\<And>j. ps (pr j) = Some j" "limits_save pr l = Inr file'"
  shows "load_or_default ps file' = Inr l" "limits_validate l = Inr ()"
proof -
  show v: "limits_validate l = Inr ()"
    using assms(2) by (simp add: limits_save_def qbind_def del: limits_validate_ok split: sum.splits)
  then have "limits_of_json (limits_json l) = Inr l" by (intro limits_of_own_json) auto
  moreover have "file' = Some (pr (limits_json l))"
    using assms(2) v by (simp add: limits_save_def qbind_def del: limits_validate_ok)
  ultimately show "load_or_default ps file' = Inr l"
    using assms(1) v by (simp add: load_or_default_def qbind_def del: limits_validate_ok)
qed

lemma load_or_default_valid: "load_or_default ps file = Inr l \<Longrightarrow> limits_validate l = Inr ()"
  by (auto simp: load_or_default_def qbind_def default_limits_valid simp del: limits_validate_ok
      split: option.splits sum.splits)

text \<open>What a node advertises: everything else of the machine is untouched, and settling AI readiness again changes
  nothing.\<close>

lemma apply_limits_gpus: "cp_gpus (apply_limits l caps) = (if offers_gpu l then cp_gpus caps else [])"
  by (simp add: apply_limits_def Let_def)

lemma ai_readiness_again:
  "apply_ai_readiness arch l r (apply_ai_readiness arch l r caps) = apply_ai_readiness arch l r caps"
  by (cases "filter (\<lambda>g. gp_stable_id g \<noteq> SHARED_CPU_DEVICE_ID) (cp_gpus caps) = []")
    (auto simp: apply_ai_readiness_def Let_def shared_cpu_device_def cpu_device_def)

lemma limits_again: "apply_limits l (apply_limits l caps) = apply_limits l caps"
  by (simp add: apply_limits_def Let_def)

lemma detected_without_gpus: "cp_gpus (detect_capabilities_with_models m b url ms) = []"
  by (simp add: detect_capabilities_with_models_def apply_limits_gpus offers_gpu_def default_limits_def)

lemma advertised_of_empty:
  assumes "cp_gpus caps = []"
  shows "cp_gpus (advertised_capabilities arch caps l r) =
      (if r \<and> rl_ai l = Some True then [shared_cpu_device arch (apply_limits l caps)] else [])"
  using assms by (cases "rl_ai l")
    (auto simp: advertised_capabilities_def apply_ai_readiness_def apply_limits_gpus Let_def offers_ai_def
      shared_cpu_device_def)

text \<open>The reader of a request.\<close>

lemma read_option_u8: "n < 256 \<Longrightarrow> read_option as_u8 (jnat n) = Inr (Some n)"
  by (simp add: read_option_def jnat_def qbind_def)

lemma read_option_ai: "read_option as_opt_bool (jopt JBool v) = Inr (map_option Some v)"
  by (cases v) (simp_all add: read_option_def jopt_def qbind_def)

lemma request_fields:
  assumes "kvs = jsome ''cpu_percent'' jnat a @ jsome ''gpu_percent'' jnat b @ jsome ''memory_percent'' jnat d @
      jsome ''ai'' (jopt JBool) e"
  shows "jfield ''cpu_percent'' kvs = Inr (map_option jnat a)" "jfield ''gpu_percent'' kvs = Inr (map_option jnat b)"
    "jfield ''memory_percent'' kvs = Inr (map_option jnat d)" "jfield ''ai'' kvs = Inr (map_option (jopt JBool) e)"
  unfolding assms by (auto simp: jsome_def jfield_def split: option.splits)

lemma read_back_u8:
  "jfield k kvs = Inr (map_option jnat v) \<Longrightarrow> (\<forall>n. v = Some n \<longrightarrow> n < 256) \<Longrightarrow> optional_field as_u8 k kvs = Inr v"
  by (cases v) (simp_all add: optional_field_def read_option_u8 qbind_def)

lemma read_back_ai:
  "jfield k kvs = Inr (map_option (jopt JBool) v) \<Longrightarrow>
    optional_field as_opt_bool k kvs = Inr (if v = Some None then None else v)"
  by (cases v) (auto simp: optional_field_def read_option_ai qbind_def split: option.splits)

lemma request_read_back:
  assumes "\<forall>n. lq_cpu_percent q = Some n \<longrightarrow> n < 256" "\<forall>n. lq_gpu_percent q = Some n \<longrightarrow> n < 256"
    "\<forall>n. lq_memory_percent q = Some n \<longrightarrow> n < 256" "limits_request_json q = JObj kvs"
  shows "limits_request_of_json kvs = Inr (q\<lparr> lq_ai := if lq_ai q = Some None then None else lq_ai q \<rparr>)"
proof -
  have "kvs = jsome ''cpu_percent'' jnat (lq_cpu_percent q) @ jsome ''gpu_percent'' jnat (lq_gpu_percent q) @
      jsome ''memory_percent'' jnat (lq_memory_percent q) @ jsome ''ai'' (jopt JBool) (lq_ai q)"
    using assms(4) by (simp add: limits_request_json_def)
  note f = request_fields[OF this]
  show ?thesis
    by (simp add: limits_request_of_json_def read_back_u8[OF f(1) assms(1)] read_back_u8[OF f(2) assms(2)]
        read_back_u8[OF f(3) assms(3)] read_back_ai[OF f(4)] qbind_def)
qed

text \<open>No text a front end can send asks for the automatic setting.\<close>

lemma auto_is_never_read: "limits_request_of_json kvs = Inr q \<Longrightarrow> lq_ai q \<noteq> Some None"
proof -
  have "read_option as_opt_bool j \<noteq> Inr (Some None)" for j
    by (cases j rule: as_opt_bool.cases) (auto simp: read_option_def qbind_def)
  then have "optional_field as_opt_bool k kvs \<noteq> Inr (Some None)" for k
    by (auto simp: optional_field_def qbind_def split: sum.splits option.splits)
  then show "limits_request_of_json kvs = Inr q \<Longrightarrow> lq_ai q \<noteq> Some None"
    by (auto simp: limits_request_of_json_def qbind_def split: sum.splits)
qed

section \<open>Properties\<close>

text \<open>C40.  The accelerators a probe finds are never offered.  The description of the machine already has the conservative
  default of the limits applied to it, and that default lends no GPU, so it clears the list of devices; the limits the
  operator really set are applied to what is left.  Whatever the machine holds and however much of its GPU the
  operator lends, the node advertises no device, or, when the operator said yes to inference and a runtime is
  installed, its processor.\<close>

theorem detected_gpu_is_never_offered:
  "cp_gpus (advertised_capabilities arch ((detect_capabilities_with_models m b url ms)\<lparr> cp_probe_endpoint := probe \<rparr>) l r) =
     (if r \<and> rl_ai l = Some True
      then [shared_cpu_device arch (apply_limits l ((detect_capabilities_with_models m b url ms)\<lparr> cp_probe_endpoint := probe \<rparr>))]
      else [])"
  by (rule advertised_of_empty) (simp add: detected_without_gpus)

end
