(* ===== verification/Resources.thy ===== *)
theory Resources
  imports Sharing
begin

text \<open>
  The counted permits behind what a node lends (\<open>hocmesh-core/src/resources.rs\<close>): the budgets read out of the advertised
  capabilities, the pool, the leases of the work in flight and the claims that wait for room.  Sums of \<open>u64\<close> wrap as they
  do in a release build.  One critical section of the pool's mutex is one step of \<open>pool_step\<close>; a call of \<open>claim\<close> is the
  step that admits it to the queue and the step in which it finds room after a wake-up.
\<close>

section \<open>Definitions\<close>

record lent =
  ln_logical_cpus :: nat
  ln_memory_bytes :: nat
  ln_device_memory_bytes :: nat

record resource_claim =
  cm_logical_cpus :: nat
  cm_memory_bytes :: nat
  cm_device_memory_bytes :: nat

record held =
  hd_cpus :: nat
  hd_memory :: nat
  hd_device_memory :: nat

definition lent_from_capabilities :: "node_capabilities \<Rightarrow> lent" where
  "lent_from_capabilities caps =
     (let vram = foldl (\<lambda>a b. wrap_u64 (a + b)) 0
                   (map (\<lambda>mb. sat_mul64 mb (2 ^ 20))
                     (List.map_filter gp_memory_mb (filter (\<lambda>g. gp_backend g \<noteq> ''cpu'') (cp_gpus caps))));
          share = min (cp_shared_gpu_percent caps) 100
      in \<lparr> ln_logical_cpus = cp_shared_logical_cpus caps, ln_memory_bytes = cp_shared_memory_bytes caps,
           ln_device_memory_bytes = wrap_u64 (vram * share div 100) \<rparr>)"

definition lent_is_nothing :: "lent \<Rightarrow> bool" where
  "lent_is_nothing l \<longleftrightarrow> ln_logical_cpus l = 0 \<or> ln_memory_bytes l = 0"

definition claim_host :: "nat \<Rightarrow> nat \<Rightarrow> resource_claim" where
  "claim_host logical_cpus memory_bytes =
     \<lparr> cm_logical_cpus = logical_cpus, cm_memory_bytes = memory_bytes, cm_device_memory_bytes = 0 \<rparr>"

definition with_device :: "nat \<Rightarrow> resource_claim \<Rightarrow> resource_claim" where
  "with_device n k = k\<lparr> cm_device_memory_bytes := n \<rparr>"

datatype too_large = TooLarge resource_claim lent

record resource_pool =
  rp_lent :: lent
  rp_held :: held

definition pool_new :: "lent \<Rightarrow> resource_pool" where
  "pool_new l = \<lparr> rp_lent = l, rp_held = \<lparr> hd_cpus = 0, hd_memory = 0, hd_device_memory = 0 \<rparr> \<rparr>"

definition refuse_impossible :: "resource_pool \<Rightarrow> resource_claim \<Rightarrow> too_large + unit" where
  "refuse_impossible p k =
     (let l = rp_lent p in
      if ln_logical_cpus l < cm_logical_cpus k \<or> ln_memory_bytes l < cm_memory_bytes k \<or>
         ln_device_memory_bytes l < cm_device_memory_bytes k
      then Inl (TooLarge k l) else Inr ())"

definition pool_fits :: "resource_pool \<Rightarrow> resource_claim \<Rightarrow> bool" where
  "pool_fits p k =
     (let l = rp_lent p; h = rp_held p in
      wrap_u64 (hd_cpus h + cm_logical_cpus k) \<le> ln_logical_cpus l \<and>
      wrap_u64 (hd_memory h + cm_memory_bytes k) \<le> ln_memory_bytes l \<and>
      wrap_u64 (hd_device_memory h + cm_device_memory_bytes k) \<le> ln_device_memory_bytes l)"

definition pool_take :: "resource_pool \<Rightarrow> resource_claim \<Rightarrow> resource_pool" where
  "pool_take p k =
     (let h = rp_held p in
      p\<lparr> rp_held := \<lparr> hd_cpus = wrap_u64 (hd_cpus h + cm_logical_cpus k),
                      hd_memory = wrap_u64 (hd_memory h + cm_memory_bytes k),
                      hd_device_memory = wrap_u64 (hd_device_memory h + cm_device_memory_bytes k) \<rparr> \<rparr>)"

definition pool_release :: "resource_pool \<Rightarrow> resource_claim \<Rightarrow> resource_pool" where
  "pool_release p k =
     (let h = rp_held p in
      p\<lparr> rp_held := \<lparr> hd_cpus = hd_cpus h - cm_logical_cpus k, hd_memory = hd_memory h - cm_memory_bytes k,
                      hd_device_memory = hd_device_memory h - cm_device_memory_bytes k \<rparr> \<rparr>)"

text \<open>\<open>try_claim\<close> answers the pool after the call and the claim its lease holds, if one was given.\<close>

definition try_claim :: "resource_pool \<Rightarrow> resource_claim \<Rightarrow> too_large + resource_pool \<times> resource_claim option" where
  "try_claim p k =
     qbind (refuse_impossible p k) (\<lambda>_.
       if pool_fits p k then Inr (pool_take p k, Some k) else Inr (p, None))"

text \<open>One turn of the loop of \<open>claim\<close>: \<open>None\<close> when the call goes back to wait.\<close>

definition claim_turn :: "resource_pool \<Rightarrow> resource_claim \<Rightarrow> (resource_pool \<times> resource_claim) option" where
  "claim_turn p k = (if pool_fits p k then Some (pool_take p k, k) else None)"

definition pool_usage :: "resource_pool \<Rightarrow> resource_claim" where
  "pool_usage p = \<lparr> cm_logical_cpus = hd_cpus (rp_held p), cm_memory_bytes = hd_memory (rp_held p),
     cm_device_memory_bytes = hd_device_memory (rp_held p) \<rparr>"

definition load_ratio :: "nat \<Rightarrow> nat \<Rightarrow> nat" where
  "load_ratio used whole = (if whole = 0 then 1000 else wrap_u64 (min used whole * 1000) div whole)"

definition pool_load_permille :: "resource_pool \<Rightarrow> nat" where
  "pool_load_permille p =
     (let u = pool_usage p; l = rp_lent p;
          cpus = load_ratio (cm_logical_cpus u) (ln_logical_cpus l);
          memory = load_ratio (cm_memory_bytes u) (ln_memory_bytes l);
          device = (if ln_device_memory_bytes l = 0 then 0
                    else load_ratio (cm_device_memory_bytes u) (ln_device_memory_bytes l))
      in min (max (max cpus memory) device) 1000)"

subsection \<open>Work in flight\<close>

text \<open>The pool, the leases not yet dropped and the claims that wait in \<open>claim\<close>.\<close>

record pool_system =
  sy_pool :: resource_pool
  sy_leases :: "resource_claim list"
  sy_waiting :: "resource_claim list"

inductive pool_step :: "pool_system \<Rightarrow> pool_system \<Rightarrow> bool" where
  tried: "try_claim (sy_pool s) k = Inr (p, given) \<Longrightarrow>
     pool_step s (s\<lparr> sy_pool := p, sy_leases := (case given of None \<Rightarrow> sy_leases s | Some l \<Rightarrow> l # sy_leases s) \<rparr>)"
| queued: "refuse_impossible (sy_pool s) k = Inr u \<Longrightarrow> pool_step s (s\<lparr> sy_waiting := k # sy_waiting s \<rparr>)"
| woken: "k \<in> set (sy_waiting s) \<Longrightarrow> claim_turn (sy_pool s) k = Some (p, l) \<Longrightarrow>
     pool_step s (s\<lparr> sy_pool := p, sy_leases := l # sy_leases s, sy_waiting := remove1 k (sy_waiting s) \<rparr>)"
| dropped: "l \<in> set (sy_leases s) \<Longrightarrow>
     pool_step s (s\<lparr> sy_pool := pool_release (sy_pool s) l, sy_leases := remove1 l (sy_leases s) \<rparr>)"

definition pool_start :: "lent \<Rightarrow> pool_system" where
  "pool_start l = \<lparr> sy_pool = pool_new l, sy_leases = [], sy_waiting = [] \<rparr>"

definition pool_run :: "lent \<Rightarrow> pool_system \<Rightarrow> bool" where
  "pool_run l s \<longleftrightarrow> pool_step\<^sup>*\<^sup>* (pool_start l) s"

inductive_cases pool_stepE: "pool_step s s'"

section \<open>One counted budget\<close>

text \<open>What a pool promises of each of its three budgets: a claim that fits adds its weight and stays within the capacity,
  a lease that is dropped takes its weight away.  What follows for the sum of the leases is proved once here.\<close>

locale permits =
  fixes level cap :: "'p \<Rightarrow> nat" and weight :: "'c \<Rightarrow> nat" and fits :: "'p \<Rightarrow> 'c \<Rightarrow> bool"
    and gives takes :: "'p \<Rightarrow> 'c \<Rightarrow> 'p" and invar :: "'p \<Rightarrow> bool"
  assumes takes_level: "invar p \<Longrightarrow> weight k \<le> cap p \<Longrightarrow> fits p k \<Longrightarrow> level (takes p k) = level p + weight k"
    and takes_room: "invar p \<Longrightarrow> weight k \<le> cap p \<Longrightarrow> fits p k \<Longrightarrow> level p + weight k \<le> cap p"
    and gives_level: "level (gives p k) = level p - weight k"
    and cap_kept: "cap (takes p k) = cap p" "cap (gives p k) = cap p"
begin

definition accounted :: "'p \<Rightarrow> 'c list \<Rightarrow> bool" where
  "accounted p ks \<longleftrightarrow> level p = (\<Sum>k\<leftarrow>ks. weight k) \<and> level p \<le> cap p"

lemma accounted_take:
  "invar p \<Longrightarrow> accounted p ks \<Longrightarrow> weight k \<le> cap p \<Longrightarrow> fits p k \<Longrightarrow> accounted (takes p k) (k # ks)"
  using takes_level[of p k] takes_room[of p k] by (simp add: accounted_def cap_kept)

lemma accounted_give:
  assumes "accounted p ks" "k \<in> set ks"
  shows "accounted (gives p k) (remove1 k ks)"
proof -
  have "(\<Sum>x\<leftarrow>ks. weight x) = weight k + (\<Sum>x\<leftarrow>remove1 k ks. weight x)"
    using assms(2) by (rule sum_list_map_remove1)
  then show ?thesis using assms(1) by (simp add: accounted_def gives_level cap_kept)
qed

lemma accounted_gone: "accounted p ks \<Longrightarrow> level (foldl gives p ks) = 0"
proof (induction ks arbitrary: p)
  case Nil then show ?case by (simp add: accounted_def)
next
  case (Cons k ks)
  have "accounted (gives p k) (remove1 k (k # ks))" by (rule accounted_give[OF Cons.prems]) simp
  then show ?case using Cons.IH[of "gives p k"] by simp
qed

end

section \<open>The three budgets of a pool\<close>

text \<open>No budget is more than half of what a \<open>u64\<close> counts: then no sum of what is held and what is claimed wraps.\<close>

definition lent_countable :: "lent \<Rightarrow> bool" where
  "lent_countable l \<longleftrightarrow> 2 * ln_logical_cpus l \<le> u64_max \<and> 2 * ln_memory_bytes l \<le> u64_max \<and>
     2 * ln_device_memory_bytes l \<le> u64_max"

definition within_lent :: "resource_pool \<Rightarrow> bool" where
  "within_lent p \<longleftrightarrow> lent_countable (rp_lent p) \<and> hd_cpus (rp_held p) \<le> ln_logical_cpus (rp_lent p) \<and>
     hd_memory (rp_held p) \<le> ln_memory_bytes (rp_lent p) \<and> hd_device_memory (rp_held p) \<le> ln_device_memory_bytes (rp_lent p)"

lemmas pool_defs = pool_fits_def pool_take_def pool_release_def within_lent_def lent_countable_def Let_def

interpretation cpus: permits "\<lambda>p. hd_cpus (rp_held p)" "\<lambda>p. ln_logical_cpus (rp_lent p)" cm_logical_cpus pool_fits
    pool_release pool_take within_lent
  by unfold_locales (auto simp: pool_defs)

interpretation memory: permits "\<lambda>p. hd_memory (rp_held p)" "\<lambda>p. ln_memory_bytes (rp_lent p)" cm_memory_bytes pool_fits
    pool_release pool_take within_lent
  by unfold_locales (auto simp: pool_defs)

interpretation device: permits "\<lambda>p. hd_device_memory (rp_held p)" "\<lambda>p. ln_device_memory_bytes (rp_lent p)"
    cm_device_memory_bytes pool_fits pool_release pool_take within_lent
  by unfold_locales (auto simp: pool_defs)

definition all_accounted :: "resource_pool \<Rightarrow> resource_claim list \<Rightarrow> bool" where
  "all_accounted p ks \<longleftrightarrow> cpus.accounted p ks \<and> memory.accounted p ks \<and> device.accounted p ks"

lemma all_accounted_within: "all_accounted p ks \<Longrightarrow> lent_countable (rp_lent p) \<Longrightarrow> within_lent p"
  by (simp add: all_accounted_def cpus.accounted_def memory.accounted_def device.accounted_def within_lent_def)

lemma refuse_impossible_ok:
  "refuse_impossible p k = Inr u \<longleftrightarrow> cm_logical_cpus k \<le> ln_logical_cpus (rp_lent p) \<and>
     cm_memory_bytes k \<le> ln_memory_bytes (rp_lent p) \<and> cm_device_memory_bytes k \<le> ln_device_memory_bytes (rp_lent p)"
  by (auto simp: refuse_impossible_def Let_def)

lemma all_accounted_take:
  assumes "lent_countable (rp_lent p)" "all_accounted p ks" "refuse_impossible p k = Inr u" "pool_fits p k"
  shows "all_accounted (pool_take p k) (k # ks)"
  using assms(2,3) cpus.accounted_take[OF all_accounted_within[OF assms(2,1)] _ _ assms(4)]
    memory.accounted_take[OF all_accounted_within[OF assms(2,1)] _ _ assms(4)]
    device.accounted_take[OF all_accounted_within[OF assms(2,1)] _ _ assms(4)]
  by (auto simp: all_accounted_def refuse_impossible_ok)

lemma all_accounted_release:
  "all_accounted p ks \<Longrightarrow> k \<in> set ks \<Longrightarrow> all_accounted (pool_release p k) (remove1 k ks)"
  by (simp add: all_accounted_def cpus.accounted_give memory.accounted_give device.accounted_give)

lemma pool_lent_kept [simp]: "rp_lent (pool_take p k) = rp_lent p" "rp_lent (pool_release p k) = rp_lent p"
  by (simp_all add: pool_take_def pool_release_def Let_def)

lemma pool_lent_released [simp]: "rp_lent (foldl pool_release p ks) = rp_lent p"
  by (induction ks arbitrary: p) simp_all

text \<open>The invariant of the system: the pool counts exactly the leases in flight, and no claim waits that was never
  offered room.\<close>

definition pool_inv :: "lent \<Rightarrow> pool_system \<Rightarrow> bool" where
  "pool_inv l s \<longleftrightarrow> rp_lent (sy_pool s) = l \<and> all_accounted (sy_pool s) (sy_leases s) \<and>
     (\<forall>k\<in>set (sy_waiting s). refuse_impossible (sy_pool s) k = Inr ())"

lemma pool_inv_start: "pool_inv l (pool_start l)"
  by (simp add: pool_inv_def pool_start_def pool_new_def all_accounted_def cpus.accounted_def memory.accounted_def
      device.accounted_def)

lemma pool_inv_step: "pool_step s s' \<Longrightarrow> lent_countable l \<Longrightarrow> pool_inv l s \<Longrightarrow> pool_inv l s'"
proof (induction rule: pool_step.induct)
  case (tried s k p given)
  then show ?case
    using all_accounted_take[of "sy_pool s" "sy_leases s" k]
    by (auto simp: pool_inv_def try_claim_def qbind_def refuse_impossible_ok split: sum.splits if_splits)
next
  case (queued s k u)
  then show ?case by (auto simp: pool_inv_def)
next
  case (woken k s p l')
  then have "all_accounted (pool_take (sy_pool s) k) (k # sy_leases s)"
    by (intro all_accounted_take[where u = "()"]) (auto simp: pool_inv_def claim_turn_def split: if_splits)
  then show ?case using woken
    by (auto simp: pool_inv_def claim_turn_def refuse_impossible_ok dest: notin_set_remove1 split: if_splits)
next
  case (dropped l' s)
  then show ?case by (auto simp: pool_inv_def all_accounted_release refuse_impossible_ok)
qed

lemma pool_inv_run: "pool_run l s \<Longrightarrow> lent_countable l \<Longrightarrow> pool_inv l s"
  unfolding pool_run_def by (induction rule: rtranclp_induct) (auto intro: pool_inv_start pool_inv_step)

lemma fits_when_idle:
  assumes "all_accounted p ks" "lent_countable (rp_lent p)" "refuse_impossible p k = Inr u"
  shows "pool_fits (foldl pool_release p ks) k"
  using assms cpus.accounted_gone[of p ks] memory.accounted_gone[of p ks] device.accounted_gone[of p ks]
  by (simp add: all_accounted_def refuse_impossible_ok pool_fits_def Let_def lent_countable_def)

text \<open>The load a node advertises.\<close>

lemma load_ratio_le: "whole * 1000 \<le> u64_max \<Longrightarrow> load_ratio used whole \<le> 1000"
proof -
  assume w: "whole * 1000 \<le> u64_max"
  have "min used whole * 1000 \<le> whole * 1000" by simp
  with w have "wrap_u64 (min used whole * 1000) = min used whole * 1000" by (intro wrap_u64_id) linarith
  moreover have "min used whole * 1000 div whole \<le> whole * 1000 div whole" by (intro div_le_mono) simp
  ultimately show ?thesis by (auto simp: load_ratio_def split: if_splits)
qed

lemma load_ratio_full:
  assumes "whole * 1000 \<le> u64_max" "0 < whole"
  shows "load_ratio used whole = 1000 \<longleftrightarrow> whole \<le> used"
proof -
  have le: "min used whole * 1000 \<le> whole * 1000" by simp
  with assms(1) have w: "wrap_u64 (min used whole * 1000) = min used whole * 1000" by (intro wrap_u64_id) linarith
  show ?thesis
  proof
    assume "whole \<le> used"
    then show "load_ratio used whole = 1000" using w assms(2) by (simp add: load_ratio_def)
  next
    assume "load_ratio used whole = 1000"
    then have "1000 * whole \<le> min used whole * 1000"
      using w assms(2) by (metis load_ratio_def div_times_less_eq_dividend less_not_refl)
    then show "whole \<le> used" by simp
  qed
qed

text \<open>A budget of more than half the range of \<open>u64\<close> is one the pool cannot hold to: two claims of all of it both fit.\<close>

lemma wrapped_budget_is_lent_twice:
  defines "p \<equiv> pool_new \<lparr> ln_logical_cpus = 2, ln_memory_bytes = u64_max, ln_device_memory_bytes = 0 \<rparr>"
  shows "try_claim p (claim_host 1 u64_max) = Inr (pool_take p (claim_host 1 u64_max), Some (claim_host 1 u64_max))"
    and "\<exists>p'. try_claim (pool_take p (claim_host 1 u64_max)) (claim_host 1 u64_max) = Inr (p', Some (claim_host 1 u64_max))"
  by (auto simp: p_def try_claim_def qbind_def refuse_impossible_def pool_new_def claim_host_def pool_fits_def pool_take_def
      Let_def wrap_u64_def u64_max_def)

text \<open>The pool of a node whose machine was detected lends no device memory.\<close>

lemma detected_device_budget:
  "ln_device_memory_bytes (lent_from_capabilities (advertised_capabilities arch
     ((detect_capabilities_with_models m b url ms)\<lparr> cp_probe_endpoint := probe \<rparr>) l r)) = 0"
proof -
  have "filter (\<lambda>g. gp_backend g \<noteq> ''cpu'') (cp_gpus (advertised_capabilities arch
     ((detect_capabilities_with_models m b url ms)\<lparr> cp_probe_endpoint := probe \<rparr>) l r)) = []"
    by (subst advertised_of_empty)
      (auto simp: detected_without_gpus shared_cpu_device_def cpu_device_def backend_name_def Let_def)
  then show ?thesis by (simp add: lent_from_capabilities_def Let_def wrap_u64_def List.map_filter_def)
qed

text \<open>What the invariant of the pool gives in a state that was reached, fact by fact.\<close>

lemma pool_reached:
  assumes "pool_run l s" "lent_countable l"
  shows "pool_usage (sy_pool s) =
      \<lparr> cm_logical_cpus = (\<Sum>k\<leftarrow>sy_leases s. cm_logical_cpus k), cm_memory_bytes = (\<Sum>k\<leftarrow>sy_leases s. cm_memory_bytes k),
        cm_device_memory_bytes = (\<Sum>k\<leftarrow>sy_leases s. cm_device_memory_bytes k) \<rparr>"
    and "(\<Sum>k\<leftarrow>sy_leases s. cm_logical_cpus k) \<le> ln_logical_cpus l"
    and "(\<Sum>k\<leftarrow>sy_leases s. cm_memory_bytes k) \<le> ln_memory_bytes l"
    and "(\<Sum>k\<leftarrow>sy_leases s. cm_device_memory_bytes k) \<le> ln_device_memory_bytes l"
    and "\<forall>k\<in>set (sy_waiting s). pool_fits (foldl pool_release (sy_pool s) (sy_leases s)) k"
proof -
  have inv: "pool_inv l s" using assms by (rule pool_inv_run)
  then have acc: "all_accounted (sy_pool s) (sy_leases s)" and lent: "rp_lent (sy_pool s) = l" by (simp_all add: pool_inv_def)
  note sums = acc[unfolded all_accounted_def cpus.accounted_def memory.accounted_def device.accounted_def, simplified lent]
  show "pool_usage (sy_pool s) =
      \<lparr> cm_logical_cpus = (\<Sum>k\<leftarrow>sy_leases s. cm_logical_cpus k), cm_memory_bytes = (\<Sum>k\<leftarrow>sy_leases s. cm_memory_bytes k),
        cm_device_memory_bytes = (\<Sum>k\<leftarrow>sy_leases s. cm_device_memory_bytes k) \<rparr>"
    using sums by (simp add: pool_usage_def)
  show "(\<Sum>k\<leftarrow>sy_leases s. cm_logical_cpus k) \<le> ln_logical_cpus l" "(\<Sum>k\<leftarrow>sy_leases s. cm_memory_bytes k) \<le> ln_memory_bytes l"
    "(\<Sum>k\<leftarrow>sy_leases s. cm_device_memory_bytes k) \<le> ln_device_memory_bytes l" using sums by simp_all
  show "\<forall>k\<in>set (sy_waiting s). pool_fits (foldl pool_release (sy_pool s) (sy_leases s)) k"
    using inv assms(2) acc lent by (auto simp: pool_inv_def intro: fits_when_idle)
qed

section \<open>Properties\<close>

text \<open>C34.  What is in flight never exceeds what was lent.  Over any interleaving of calls that claim with or without waiting,
  of waiting calls that wake up and of leases that are dropped, the pool counts exactly the leases in flight, on each of
  the three budgets that sum is at most what the operator lends, and every claim that waits fits as soon as the work in
  flight is done: none waits for room that was never offered.\<close>

theorem pool_never_overlends:
  assumes "pool_run l s" "lent_countable l"
  shows "pool_usage (sy_pool s) =
      \<lparr> cm_logical_cpus = (\<Sum>k\<leftarrow>sy_leases s. cm_logical_cpus k), cm_memory_bytes = (\<Sum>k\<leftarrow>sy_leases s. cm_memory_bytes k),
        cm_device_memory_bytes = (\<Sum>k\<leftarrow>sy_leases s. cm_device_memory_bytes k) \<rparr> \<and>
    (\<Sum>k\<leftarrow>sy_leases s. cm_logical_cpus k) \<le> ln_logical_cpus l \<and>
    (\<Sum>k\<leftarrow>sy_leases s. cm_memory_bytes k) \<le> ln_memory_bytes l \<and>
    (\<Sum>k\<leftarrow>sy_leases s. cm_device_memory_bytes k) \<le> ln_device_memory_bytes l \<and>
    (\<forall>k\<in>set (sy_waiting s). pool_fits (foldl pool_release (sy_pool s) (sy_leases s)) k)"
  by (intro conjI pool_reached[OF assms])

definition demo_lent :: lent where
  "demo_lent = \<lparr> ln_logical_cpus = 4, ln_memory_bytes = 100, ln_device_memory_bytes = 10 \<rparr>"

definition demo_pool_system :: pool_system where
  "demo_pool_system = \<lparr> sy_pool = pool_take (pool_new demo_lent) (claim_host 3 60), sy_leases = [claim_host 3 60],
     sy_waiting = [with_device 10 (claim_host 2 50)] \<rparr>"

lemma demo_pool_system_run: "pool_run demo_lent demo_pool_system"
proof -
  have "pool_step (pool_start demo_lent)
      \<lparr> sy_pool = pool_take (pool_new demo_lent) (claim_host 3 60), sy_leases = [claim_host 3 60], sy_waiting = [] \<rparr>"
    using tried[of "pool_start demo_lent" "claim_host 3 60" "pool_take (pool_new demo_lent) (claim_host 3 60)"
        "Some (claim_host 3 60)"]
    by (simp add: pool_start_def try_claim_def refuse_impossible_def pool_new_def demo_lent_def claim_host_def pool_fits_def
        qbind_def wrap_u64_def Let_def)
  moreover have "pool_step
      \<lparr> sy_pool = pool_take (pool_new demo_lent) (claim_host 3 60), sy_leases = [claim_host 3 60], sy_waiting = [] \<rparr> demo_pool_system"
    using queued[of "\<lparr> sy_pool = pool_take (pool_new demo_lent) (claim_host 3 60), sy_leases = [claim_host 3 60],
        sy_waiting = [] \<rparr>" "with_device 10 (claim_host 2 50)" "()"]
    by (simp add: demo_pool_system_def refuse_impossible_ok pool_new_def demo_lent_def claim_host_def with_device_def)
  ultimately show ?thesis unfolding pool_run_def by (meson converse_rtranclp_into_rtranclp rtranclp.rtrancl_refl)
qed

theorem pool_never_overlends_witness:
  "(\<Sum>k\<leftarrow>sy_leases demo_pool_system. cm_memory_bytes k) \<le> ln_memory_bytes demo_lent \<and>
   pool_fits (foldl pool_release (sy_pool demo_pool_system) (sy_leases demo_pool_system)) (with_device 10 (claim_host 2 50)) \<and>
   \<not> pool_fits (sy_pool demo_pool_system) (with_device 10 (claim_host 2 50))"
proof -
  have "lent_countable demo_lent" by (simp add: lent_countable_def demo_lent_def u64_max_def)
  note t = pool_never_overlends[OF demo_pool_system_run this]
  have "\<not> pool_fits (sy_pool demo_pool_system) (with_device 10 (claim_host 2 50))"
    by (simp add: demo_pool_system_def pool_fits_def pool_take_def pool_new_def demo_lent_def claim_host_def with_device_def
        Let_def wrap_u64_def)
  then show ?thesis using t by (simp add: demo_pool_system_def)
qed

end
