(* ===== verification/Transport.thy ===== *)
theory Transport
  imports Planning
begin

text \<open>
  What nodes send each other (\<open>hocmesh-transport/src/lib.rs\<close> and \<open>proximity.rs\<close>): tensor frames and their reassembly, the
  plan of which peer is asked for which chunk, seeding a store from a peer and serving one, and latency probes.  A peer
  is the function of its answers; a socket that fails is an answer \<open>Inl\<close>.  Each critical section of the inbox is a
  step of its own.
\<close>

section \<open>Definitions\<close>

subsection \<open>Tensor frames\<close>

record tensor_frame =
  tf_job_id :: string
  tf_stream_id :: string
  tf_sequence :: nat
  tf_shape :: "nat list"
  tf_dtype :: string
  tf_payload_sha256 :: string
  tf_payload :: string

datatype frame_error = EmptyRoute | BadShape | EmptyDtype | ChecksumMismatch | EmptyPayload | EmptyWindow
  | ReplayedFrame | BeyondWindow | DuplicateFrame

definition frame_validate :: "crypto \<Rightarrow> tensor_frame \<Rightarrow> frame_error + unit" where
  "frame_validate c f =
     (if tf_job_id f = [] \<or> tf_stream_id f = [] then Inl EmptyRoute
      else if tf_shape f = [] \<or> \<not> list_all (\<lambda>n. 0 < n) (tf_shape f) then Inl BadShape
      else if tf_dtype f = [] then Inl EmptyDtype
      else if hash_bytes c (tf_payload f) \<noteq> tf_payload_sha256 f then Inl ChecksumMismatch
      else Inr ())"

definition tensor_frame_new ::
  "crypto \<Rightarrow> string \<Rightarrow> string \<Rightarrow> nat \<Rightarrow> nat list \<Rightarrow> string \<Rightarrow> string \<Rightarrow> frame_error + tensor_frame" where
  "tensor_frame_new c job_id stream_id sequence shape dtype payload =
     (if payload = [] then Inl EmptyPayload
      else let f = \<lparr> tf_job_id = job_id, tf_stream_id = stream_id, tf_sequence = sequence, tf_shape = shape, tf_dtype = dtype,
                     tf_payload_sha256 = hash_bytes c payload, tf_payload = payload \<rparr>
           in qbind (frame_validate c f) (\<lambda>_. Inr f))"

record tensor_assembler =
  ta_next_sequence :: nat
  ta_max_reorder_window :: nat
  ta_pending :: "(nat, tensor_frame) fmap"

definition assembler_new :: "nat \<Rightarrow> frame_error + tensor_assembler" where
  "assembler_new w = (if w = 0 then Inl EmptyWindow
     else Inr \<lparr> ta_next_sequence = 0, ta_max_reorder_window = w, ta_pending = fmempty \<rparr>)"

text \<open>The loop that hands out what has become contiguous.\<close>

function drain :: "nat \<Rightarrow> (nat, tensor_frame) fmap \<Rightarrow> tensor_frame list \<times> nat \<times> (nat, tensor_frame) fmap" where
  "drain n pending =
     (case fmlookup pending n of
        None \<Rightarrow> ([], n, pending)
      | Some f \<Rightarrow> (case drain (wrap_u64 (n + 1)) (fmdrop n pending) of (fs, n', pending') \<Rightarrow> (f # fs, n', pending')))"
  by pat_completeness auto

termination drain
proof (relation "measure (\<lambda>(n, p). fcard (fmdom p))")
  show "((wrap_u64 (n + 1), fmdrop n pending), (n, pending)) \<in> measure (\<lambda>(n, p). fcard (fmdom p))"
    if "fmlookup pending n = Some f" for n pending and f :: tensor_frame
    using fcard_fminus1_less[OF fmdomI[OF that]] by simp
qed simp

declare drain.simps [simp del]

definition assembler_accept ::
  "crypto \<Rightarrow> tensor_frame \<Rightarrow> tensor_assembler \<Rightarrow> tensor_assembler \<times> (frame_error + tensor_frame list)" where
  "assembler_accept c f a =
     (case frame_validate c f of
        Inl e \<Rightarrow> (a, Inl e)
      | Inr _ \<Rightarrow>
          if tf_sequence f < ta_next_sequence a then (a, Inl ReplayedFrame)
          else if sat_add64 (ta_next_sequence a) (ta_max_reorder_window a) \<le> tf_sequence f then (a, Inl BeyondWindow)
          else if fmlookup (ta_pending a) (tf_sequence f) \<noteq> None then (a, Inl DuplicateFrame)
          else (case drain (ta_next_sequence a) (fmupd (tf_sequence f) f (ta_pending a)) of
                  (ready, n, pending) \<Rightarrow> (a\<lparr> ta_next_sequence := n, ta_pending := pending \<rparr>, Inr ready)))"

text \<open>The inbox.  A request holds the assemblers for one critical section and the delivered frames for a second one;
  \<open>ix_leaving\<close> are the requests between the two.\<close>

record tensor_inbox =
  ix_assemblers :: "(string \<times> string, tensor_assembler) fmap"
  ix_leaving :: "tensor_frame list list"
  ix_delivered :: "tensor_frame list"

datatype tensor_status = TensorAccepted | TensorBadRequest | TensorConflict

definition inbox_assembler :: "tensor_frame \<Rightarrow> tensor_inbox \<Rightarrow> tensor_assembler" where
  "inbox_assembler f ix =
     (case fmlookup (ix_assemblers ix) (tf_job_id f, tf_stream_id f) of
        Some a \<Rightarrow> a
      | None \<Rightarrow> \<lparr> ta_next_sequence = 0, ta_max_reorder_window = 1024, ta_pending = fmempty \<rparr>)"

definition receive_assemble :: "crypto \<Rightarrow> tensor_frame \<Rightarrow> tensor_inbox \<Rightarrow> tensor_inbox \<times> (tensor_status + tensor_frame list)" where
  "receive_assemble c f ix =
     (case frame_validate c f of
        Inl _ \<Rightarrow> (ix, Inl TensorBadRequest)
      | Inr _ \<Rightarrow>
          (case assembler_accept c f (inbox_assembler f ix) of
             (a, r) \<Rightarrow>
               (ix\<lparr> ix_assemblers := fmupd (tf_job_id f, tf_stream_id f) a (ix_assemblers ix) \<rparr>,
                (case r of Inl _ \<Rightarrow> Inl TensorConflict | Inr ready \<Rightarrow> Inr ready))))"

definition receive_deliver :: "tensor_frame list \<Rightarrow> tensor_inbox \<Rightarrow> tensor_inbox" where
  "receive_deliver ready ix = ix\<lparr> ix_delivered := ix_delivered ix @ ready \<rparr>"

definition take_delivered :: "tensor_inbox \<Rightarrow> tensor_inbox \<times> tensor_frame list" where
  "take_delivered ix = (ix\<lparr> ix_delivered := [] \<rparr>, ix_delivered ix)"

inductive inbox_step :: "crypto \<Rightarrow> tensor_inbox \<Rightarrow> tensor_inbox \<Rightarrow> bool" for c where
  assembled: "receive_assemble c f ix = (ix', Inr ready) \<Longrightarrow>
     inbox_step c ix (ix'\<lparr> ix_leaving := ready # ix_leaving ix' \<rparr>)"
| rejected: "receive_assemble c f ix = (ix', Inl e) \<Longrightarrow> inbox_step c ix ix'"
| delivered: "ready \<in> set (ix_leaving ix) \<Longrightarrow>
     inbox_step c ix (receive_deliver ready (ix\<lparr> ix_leaving := remove1 ready (ix_leaving ix) \<rparr>))"

text \<open>Sending to the first endpoint that takes the frame; \<open>post\<close> is the answer of an endpoint.\<close>

datatype send_error = InvalidFrame frame_error | PostFailed string | NoEndpoints | AllRoutesFailed "(string \<times> send_error) list"

definition send_tensor :: "crypto \<Rightarrow> (string \<Rightarrow> tensor_frame \<Rightarrow> string + unit) \<Rightarrow> string \<Rightarrow> tensor_frame \<Rightarrow> send_error + unit" where
  "send_tensor c post endpoint f =
     qbind (map_err InvalidFrame (frame_validate c f)) (\<lambda>_. map_err PostFailed (post endpoint f))"

fun try_endpoints ::
  "crypto \<Rightarrow> (string \<Rightarrow> tensor_frame \<Rightarrow> string + unit) \<Rightarrow> string list \<Rightarrow> tensor_frame \<Rightarrow> (string \<times> send_error) list \<Rightarrow> send_error + string" where
  "try_endpoints c post [] f failures = Inl (AllRoutesFailed (rev failures))"
| "try_endpoints c post (e # es) f failures =
     (case send_tensor c post e f of Inr _ \<Rightarrow> Inr e | Inl err \<Rightarrow> try_endpoints c post es f ((e, err) # failures))"

definition send_tensor_with_failover ::
  "crypto \<Rightarrow> (string \<Rightarrow> tensor_frame \<Rightarrow> string + unit) \<Rightarrow> string list \<Rightarrow> tensor_frame \<Rightarrow> send_error + string" where
  "send_tensor_with_failover c post endpoints f =
     (if endpoints = [] then Inl NoEndpoints else try_endpoints c post endpoints f [])"

definition verify_file :: "crypto \<Rightarrow> string \<Rightarrow> string \<Rightarrow> bool" where
  "verify_file c bytes expected_sha256 \<longleftrightarrow> hash_bytes c bytes = expected_sha256"

subsection \<open>Seeding\<close>

record peer_inventory =
  pv_peer :: string
  pv_chunks :: "string list"
  pv_latency_ms :: nat
  pv_failures :: nat

record seed_assignment =
  sa_chunk :: chunk_ref
  sa_peer :: string

datatype peer_error = SeedManifest manifest_error | NoPeerHas string | SeedRequest string | SeedDigest | CorruptReply
  | ChunkSizeMismatch | StoreRefused chunk_error | StoredDigestMismatch

definition holders :: "peer_inventory list \<Rightarrow> chunk_ref \<Rightarrow> peer_inventory list" where
  "holders peers ch = filter (\<lambda>p. ck_sha256 ch \<in> set (pv_chunks p)) peers"

definition seed_load :: "(string, nat) fmap \<Rightarrow> string \<Rightarrow> nat" where
  "seed_load load p = (case fmlookup load p of None \<Rightarrow> 0 | Some n \<Rightarrow> n)"

fun assign_chunks ::
  "peer_inventory list \<Rightarrow> (string, nat) fmap \<Rightarrow> chunk_ref list \<Rightarrow> peer_error + seed_assignment list" where
  "assign_chunks peers load [] = Inr []"
| "assign_chunks peers load (ch # chs) =
     (case min_by_key (\<lambda>p. (pv_failures p, seed_load load (pv_peer p), pv_latency_ms p)) (holders peers ch) of
        None \<Rightarrow> Inl (NoPeerHas (ck_sha256 ch))
      | Some p \<Rightarrow>
          qbind (assign_chunks peers (fmupd (pv_peer p) (seed_load load (pv_peer p) + 1) load) chs)
            (\<lambda>as. Inr (\<lparr> sa_chunk = ch, sa_peer = pv_peer p \<rparr> # as)))"

definition missing_chunks :: "model_manifest \<Rightarrow> string list \<Rightarrow> peer_inventory list \<Rightarrow> chunk_ref list" where
  "missing_chunks m local peers =
     sort_key (\<lambda>ch. length (holders peers ch)) (filter (\<lambda>ch. ck_sha256 ch \<notin> set local) (mm_chunks m))"

definition plan_seeding ::
  "model_manifest \<Rightarrow> string list \<Rightarrow> peer_inventory list \<Rightarrow> peer_error + seed_assignment list" where
  "plan_seeding m local peers =
     qbind (map_err SeedManifest (manifest_validate m)) (\<lambda>_. assign_chunks peers fmempty (missing_chunks m local peers))"

text \<open>A peer: what it answers when asked for a manifest and for the bytes behind a digest.\<close>

record peer_source =
  sr_manifest :: "string \<Rightarrow> string \<Rightarrow> peer_error + model_manifest"
  sr_chunk :: "string \<Rightarrow> peer_error + string"

text \<open>The checks around an HTTP peer; \<open>get_manifest\<close> and \<open>get_chunk\<close> are its replies.\<close>

definition http_peer_source ::
  "crypto \<Rightarrow> (string \<Rightarrow> string \<Rightarrow> string + model_manifest) \<Rightarrow> (string \<Rightarrow> string + string) \<Rightarrow> peer_source" where
  "http_peer_source c get_manifest get_chunk =
     \<lparr> sr_manifest = (\<lambda>model_id revision.
         qbind (map_err SeedRequest (get_manifest model_id revision)) (\<lambda>m.
         qbind (map_err SeedManifest (manifest_validate m)) (\<lambda>_. Inr m))),
       sr_chunk = (\<lambda>d.
         if \<not> is_sha256 d then Inl SeedDigest
         else qbind (map_err SeedRequest (get_chunk d)) (\<lambda>bytes.
           if hash_bytes c bytes \<noteq> d then Inl CorruptReply else Inr bytes)) \<rparr>"

fun seed_chunks :: "crypto \<Rightarrow> peer_source \<Rightarrow> chunk_ref list \<Rightarrow> chunk_store \<Rightarrow> chunk_store \<times> (peer_error + unit)" where
  "seed_chunks c src [] st = (st, Inr ())"
| "seed_chunks c src (ch # chs) st =
     (if contains c st ch then seed_chunks c src chs st
      else case sr_chunk src (ck_sha256 ch) of
             Inl e \<Rightarrow> (st, Inl e)
           | Inr bytes \<Rightarrow>
               if length bytes \<noteq> ck_size_bytes ch then (st, Inl ChunkSizeMismatch)
               else (case chunk_put c bytes st of
                       Inl e \<Rightarrow> (st, Inl (StoreRefused e))
                     | Inr (st', h) \<Rightarrow>
                         if h \<noteq> ck_sha256 ch then (st', Inl StoredDigestMismatch) else seed_chunks c src chs st'))"

definition seed_from_peer ::
  "crypto \<Rightarrow> peer_source \<Rightarrow> string \<Rightarrow> string \<Rightarrow> chunk_store \<Rightarrow> chunk_store \<times> (peer_error + model_manifest)" where
  "seed_from_peer c src model_id revision st =
     (case sr_manifest src model_id revision of
        Inl e \<Rightarrow> (st, Inl e)
      | Inr m \<Rightarrow> (case seed_chunks c src (mm_chunks m) st of
                    (st', Inl e) \<Rightarrow> (st', Inl e)
                  | (st', Inr _) \<Rightarrow> (st', Inr m)))"

text \<open>The serving side.\<close>

record seed_server =
  sv_store :: chunk_store
  sv_manifests :: "(string \<times> string, model_manifest) fmap"
  sv_uplink :: "nat list"

definition measuring :: "chunk_store \<Rightarrow> model_manifest list \<Rightarrow> nat list \<Rightarrow> manifest_error + seed_server" where
  "measuring st ms uplink =
     qbind (fold_result (\<lambda>m known. qbind (manifest_validate m) (\<lambda>_.
         Inr (fmupd (mm_model_id m, mm_revision m) m known))) ms fmempty)
       (\<lambda>known. Inr \<lparr> sv_store = st, sv_manifests = known, sv_uplink = uplink \<rparr>)"

definition DRAIN_SLICE :: nat where "DRAIN_SLICE = 256 * 1024"

text \<open>The slices a body leaves in.\<close>

function body_slices :: "string \<Rightarrow> string list" where
  "body_slices buffer = (if buffer = [] then []
     else let k = min DRAIN_SLICE (length buffer) in take k buffer # body_slices (drop k buffer))"
  by pat_completeness auto

termination body_slices
  by (relation "measure length") (auto simp: DRAIN_SLICE_def)

declare body_slices.simps [simp del]

text \<open>\<open>elapsed\<close> is the time between the first and the last slice; what the meter is told leaves the last slice out.\<close>

definition metered_body :: "string \<Rightarrow> nat \<Rightarrow> nat list \<Rightarrow> string list \<times> nat list" where
  "metered_body bytes elapsed samples =
     (let slices = body_slices bytes in
      (slices, if slices = [] then samples
               else record_transfer (length bytes - length (last slices)) elapsed samples))"

definition serve_manifest :: "seed_server \<Rightarrow> string \<Rightarrow> string \<Rightarrow> model_manifest option" where
  "serve_manifest sv model revision = fmlookup (sv_manifests sv) (model, revision)"

definition serve_chunk :: "crypto \<Rightarrow> string \<Rightarrow> nat \<Rightarrow> seed_server \<Rightarrow> seed_server \<times> (nat \<times> string list) option" where
  "serve_chunk c d elapsed sv =
     (case chunk_read c (sv_store sv) d of
        Inl _ \<Rightarrow> (sv, None)
      | Inr bytes \<Rightarrow>
          (case metered_body bytes elapsed (sv_uplink sv) of
             (slices, samples) \<Rightarrow> (sv\<lparr> sv_uplink := samples \<rparr>, Some (length bytes, slices))))"

subsection \<open>Probes\<close>

definition PROBE_SAMPLES :: nat where "PROBE_SAMPLES = 3"

text \<open>The responder; \<open>locked\<close> is false when its position's lock is poisoned.\<close>

definition serve_probe ::
  "bool \<Rightarrow> network_coordinate option \<Rightarrow> nat option \<Rightarrow> vivaldi \<Rightarrow> vivaldi \<times> network_coordinate option" where
  "serve_probe locked reported rtt v =
     (if \<not> locked then (v, None)
      else let v' = (case (reported, rtt) of (Some r, Some n) \<Rightarrow> fst (observe r n v) | _ \<Rightarrow> v)
           in (v', Some (provisional_coordinate v')))"

text \<open>A round of probing against a responder that answers: one exchange to warm up and one for every sample, each
  timed in microseconds.\<close>

fun probe_samples ::
  "network_coordinate option \<Rightarrow> nat option \<Rightarrow> nat list \<Rightarrow> nat \<Rightarrow> network_coordinate option \<Rightarrow> vivaldi \<Rightarrow>
   vivaldi \<times> network_coordinate option \<times> nat" where
  "probe_samples ours last_rtt [] fastest latest v = (v, latest, fastest)"
| "probe_samples ours last_rtt (t # ts) fastest latest v =
     (case serve_probe True ours last_rtt v of
        (v', answer) \<Rightarrow> probe_samples ours last_rtt ts (min fastest (max (min t u64_max) 1)) answer v')"

definition probe_peer ::
  "network_coordinate option \<Rightarrow> nat option \<Rightarrow> (nat \<Rightarrow> nat) \<Rightarrow> vivaldi \<Rightarrow> vivaldi \<times> (network_coordinate option \<times> nat) option" where
  "probe_peer ours last_rtt elapsed v =
     (case serve_probe True ours last_rtt v of
        (v0, warm) \<Rightarrow>
          (case probe_samples ours last_rtt (map elapsed [0..<PROBE_SAMPLES]) u64_max warm v0 of
             (v', latest, fastest) \<Rightarrow> (v', if fastest < u64_max then Some (latest, fastest) else None)))"

section \<open>Reassembly\<close>

lemma frame_validate_ok:
  "frame_validate c f = Inr u \<longleftrightarrow> tf_job_id f \<noteq> [] \<and> tf_stream_id f \<noteq> [] \<and> tf_shape f \<noteq> [] \<and>
     list_all (\<lambda>n. 0 < n) (tf_shape f) \<and> tf_dtype f \<noteq> [] \<and> hash_bytes c (tf_payload f) = tf_payload_sha256 f"
  by (auto simp: frame_validate_def)

definition drained ::
  "nat \<Rightarrow> (nat, tensor_frame) fmap \<Rightarrow> tensor_frame list \<Rightarrow> nat \<Rightarrow> (nat, tensor_frame) fmap \<Rightarrow> bool" where
  "drained n p fs n' p' \<longleftrightarrow> n \<le> n' \<and> fs = map (\<lambda>k. the (fmlookup p k)) [n..<n'] \<and> (\<forall>k\<in>{n..<n'}. fmlookup p k \<noteq> None) \<and>
     (\<forall>k. fmlookup p' k = (if k \<in> {n..<n'} then None else fmlookup p k)) \<and> fmlookup p n' = None"

lemma drain_ok: "(\<forall>k. fmlookup p k \<noteq> None \<longrightarrow> k < u64_max) \<Longrightarrow> drain n p = (fs, n', p') \<Longrightarrow> drained n p fs n' p'"
proof (induction n p arbitrary: fs n' p' rule: drain.induct)
  case (1 n p)
  show ?case
  proof (cases "fmlookup p n")
    case None
    then show ?thesis using "1.prems"(2) by (simp add: drain.simps[of n p] drained_def)
  next
    case (Some f)
    then have "n < u64_max" using "1.prems"(1) by blast
    then have n: "wrap_u64 (n + 1) = n + 1" by simp
    obtain gs where d: "drain (n + 1) (fmdrop n p) = (gs, n', p')" and fs: "fs = f # gs"
      using "1.prems"(2) Some n by (auto simp: drain.simps[of n p] split: prod.splits)
    have ih: "drained (n + 1) (fmdrop n p) gs n' p'"
      using "1.IH"[OF Some, unfolded n, OF _ d] "1.prems"(1) by auto
    have "[n..<n'] = n # [n + 1..<n']" using ih by (auto simp: drained_def upt_conv_Cons)
    moreover have "map (\<lambda>k. the (fmlookup (fmdrop n p) k)) [n + 1..<n'] = map (\<lambda>k. the (fmlookup p k)) [n + 1..<n']" by simp
    ultimately have out: "fs = map (\<lambda>k. the (fmlookup p k)) [n..<n']" using ih Some fs by (simp add: drained_def)
    have set: "{n..<n'} = insert n {n + 1..<n'}" using ih by (auto simp: drained_def)
    have "\<forall>k\<in>{n..<n'}. fmlookup p k \<noteq> None" unfolding set using ih Some by (auto simp: drained_def)
    moreover have "fmlookup p' k = (if k \<in> {n..<n'} then None else fmlookup p k)" for k
      unfolding set using ih by (auto simp: drained_def)
    moreover have "fmlookup p n' = None" "n \<le> n'" using ih by (auto simp: drained_def)
    ultimately show ?thesis using out unfolding drained_def by blast
  qed
qed

text \<open>Frames offered one after the other: the assembler, the frames it took and the frames it handed out.\<close>

fun assemble_run ::
  "crypto \<Rightarrow> tensor_frame list \<Rightarrow> tensor_assembler \<Rightarrow> tensor_assembler \<times> tensor_frame list \<times> tensor_frame list" where
  "assemble_run c [] a = (a, [], [])"
| "assemble_run c (f # fs) a =
     (case assembler_accept c f a of
        (a', r) \<Rightarrow>
          (case assemble_run c fs a' of
             (a'', taken, out) \<Rightarrow>
               (case r of Inl _ \<Rightarrow> (a'', taken, out) | Inr ready \<Rightarrow> (a'', f # taken, ready @ out))))"

text \<open>What an assembler has done: it took the frames of \<open>A\<close>, handed out those below its next number and holds the
  others.\<close>

definition assembled :: "(nat \<Rightarrow> tensor_frame option) \<Rightarrow> tensor_assembler \<Rightarrow> bool" where
  "assembled A a \<longleftrightarrow> (\<forall>k f. A k = Some f \<longrightarrow> tf_sequence f = k \<and> k < u64_max) \<and> (\<forall>k < ta_next_sequence a. A k \<noteq> None) \<and>
     A (ta_next_sequence a) = None \<and>
     (\<forall>k. fmlookup (ta_pending a) k = (if ta_next_sequence a \<le> k then A k else None))"

lemma assembled_accept:
  assumes "assembled A a" "assembler_accept c f a = (a', Inr ready)"
  shows "assembled (A(tf_sequence f \<mapsto> f)) a'" "A (tf_sequence f) = None" "is_ok (frame_validate c f)"
    "ready = map (\<lambda>k. the ((A(tf_sequence f \<mapsto> f)) k)) [ta_next_sequence a..<ta_next_sequence a']"
    "ta_next_sequence a \<le> ta_next_sequence a'" "ta_max_reorder_window a' = ta_max_reorder_window a"
proof -
  define B where "B = A(tf_sequence f \<mapsto> f)"
  define q where "q = fmupd (tf_sequence f) f (ta_pending a)"
  obtain u where u: "frame_validate c f = Inr u" using assms(2) by (cases "frame_validate c f") (auto simp: assembler_accept_def)
  note acc = assms(2)[unfolded assembler_accept_def u, folded q_def, simplified]
  have lo: "ta_next_sequence a \<le> tf_sequence f" and hi: "tf_sequence f < sat_add64 (ta_next_sequence a) (ta_max_reorder_window a)"
    and free: "fmlookup (ta_pending a) (tf_sequence f) = None" using acc by (auto split: if_splits)
  obtain n p where d: "drain (ta_next_sequence a) q = (ready, n, p)" and a': "a' = a\<lparr> ta_next_sequence := n, ta_pending := p \<rparr>"
    using acc lo hi free by (cases "drain (ta_next_sequence a) q") auto
  have "tf_sequence f < u64_max" using hi sat_add64_le[of "ta_next_sequence a" "ta_max_reorder_window a"] by linarith
  then have B: "tf_sequence g = k \<and> k < u64_max" if "B k = Some g" for k g
    using assms(1) that by (auto simp: assembled_def B_def split: if_splits)
  have pend: "fmlookup q k = (if ta_next_sequence a \<le> k then B k else None)" for k
    using assms(1) lo by (auto simp: assembled_def B_def q_def)
  have "\<forall>k. fmlookup q k \<noteq> None \<longrightarrow> k < u64_max" using B by (auto simp: pend)
  then have dr: "drained (ta_next_sequence a) q ready n p" using d by (rule drain_ok)
  have old: "B k \<noteq> None" if "k < ta_next_sequence a" for k using assms(1) that by (auto simp: assembled_def B_def)
  have new: "B k \<noteq> None" if "ta_next_sequence a \<le> k" "k < n" for k
  proof -
    have "fmlookup q k \<noteq> None" using dr that unfolding drained_def by (meson atLeastLessThan_iff)
    then show ?thesis using pend[of k] that(1) by simp
  qed
  have "\<forall>k < n. B k \<noteq> None" using old new by (metis linorder_not_le)
  moreover have "B n = None" using dr pend[of n] by (auto simp: drained_def)
  moreover have "fmlookup p k = (if n \<le> k then B k else None)" for k
    using dr pend[of k] by (cases "k < ta_next_sequence a") (auto simp: drained_def)
  ultimately have "assembled B a'" using B by (auto simp: assembled_def a')
  then show "assembled (A(tf_sequence f \<mapsto> f)) a'" by (simp add: B_def)
  show "A (tf_sequence f) = None" using assms(1) free lo by (simp add: assembled_def)
  show "is_ok (frame_validate c f)" by (simp add: u is_ok_def)
  have "map (\<lambda>k. the (fmlookup q k)) [ta_next_sequence a..<n] = map (\<lambda>k. the (B k)) [ta_next_sequence a..<n]"
    by (intro map_cong) (simp_all add: pend)
  then show "ready = map (\<lambda>k. the ((A(tf_sequence f \<mapsto> f)) k)) [ta_next_sequence a..<ta_next_sequence a']"
    using dr unfolding drained_def B_def by (simp add: a')
  show "ta_next_sequence a \<le> ta_next_sequence a'" "ta_max_reorder_window a' = ta_max_reorder_window a"
    using dr by (simp_all add: drained_def a')
qed

definition by_sequence :: "tensor_frame list \<Rightarrow> nat \<Rightarrow> tensor_frame option" where
  "by_sequence fs = map_of (map (\<lambda>f. (tf_sequence f, f)) fs)"

lemma by_sequence_dom: "dom (by_sequence fs) = tf_sequence ` set fs"
  by (simp add: by_sequence_def dom_map_of_conv_image_fst image_image)

lemma by_sequence_Some: "by_sequence fs k = Some f \<Longrightarrow> f \<in> set fs \<and> tf_sequence f = k"
  by (auto simp: by_sequence_def dest!: map_of_SomeD)

lemma assembler_accept_rejected: "assembler_accept c f a = (a', Inl e) \<Longrightarrow> a' = a"
  by (auto simp: assembler_accept_def split: sum.splits if_splits prod.splits)

text \<open>What a run has added to an assembler that took the frames of \<open>A\<close>.\<close>

definition run_adds ::
  "crypto \<Rightarrow> (nat \<Rightarrow> tensor_frame option) \<Rightarrow> tensor_assembler \<Rightarrow> tensor_assembler \<Rightarrow> tensor_frame list \<Rightarrow> tensor_frame list \<Rightarrow> bool" where
  "run_adds c A a a' taken out \<longleftrightarrow> assembled (A ++ by_sequence taken) a' \<and> distinct (map tf_sequence taken) \<and>
     (\<forall>f\<in>set taken. A (tf_sequence f) = None \<and> is_ok (frame_validate c f)) \<and> ta_next_sequence a \<le> ta_next_sequence a' \<and>
     out = map (\<lambda>k. the ((A ++ by_sequence taken) k)) [ta_next_sequence a..<ta_next_sequence a'] \<and>
     ta_max_reorder_window a' = ta_max_reorder_window a"

lemma run_adds_cons:
  assumes "assembled A a" "assembler_accept c f a = (a1, Inr ready)" "run_adds c (A(tf_sequence f \<mapsto> f)) a1 a' taken out"
  shows "run_adds c A a a' (f # taken) (ready @ out)"
proof -
  define B where "B = A(tf_sequence f \<mapsto> f)"
  note one = assembled_accept[OF assms(1,2), folded B_def] and rest = assms(3)[folded B_def, unfolded run_adds_def]
  have apart: "B (tf_sequence g) = None" if "g \<in> set taken" for g using rest that by blast
  have new: "tf_sequence f \<notin> tf_sequence ` set taken"
  proof
    assume "tf_sequence f \<in> tf_sequence ` set taken"
    then obtain g where "g \<in> set taken" "tf_sequence g = tf_sequence f" by auto
    then show False using apart[of g] by (simp add: B_def)
  qed
  have eq: "A ++ by_sequence (f # taken) = B ++ by_sequence taken"
    using new by (simp add: B_def by_sequence_def map_add_upd_left dom_map_of_conv_image_fst image_image)
  have "(B ++ by_sequence taken) k = B k" if "k < ta_next_sequence a1" for k
  proof -
    have "B k \<noteq> None" using one(1) that unfolding assembled_def by blast
    then have "k \<notin> dom (by_sequence taken)" using apart unfolding by_sequence_dom by auto
    then show ?thesis by (rule map_add_dom_app_simps(3))
  qed
  then have "ready = map (\<lambda>k. the ((B ++ by_sequence taken) k)) [ta_next_sequence a..<ta_next_sequence a1]"
    unfolding one(4) by (intro map_cong) auto
  moreover have "[ta_next_sequence a..<ta_next_sequence a'] =
      [ta_next_sequence a..<ta_next_sequence a1] @ [ta_next_sequence a1..<ta_next_sequence a']"
    using one(5) rest by (metis le_add_diff_inverse upt_add_eq_append)
  ultimately have "ready @ out = map (\<lambda>k. the ((B ++ by_sequence taken) k)) [ta_next_sequence a..<ta_next_sequence a']"
    using rest by simp
  moreover have "A (tf_sequence g) = None \<and> is_ok (frame_validate c g)" if "g \<in> set (f # taken)" for g
  proof (cases "g = f")
    case False
    then have "g \<in> set taken" using that by simp
    then show ?thesis using apart[of g] rest by (auto simp: B_def split: if_splits)
  qed (use one(2,3) in simp)
  ultimately show ?thesis unfolding run_adds_def eq using rest one(5,6) new by simp
qed

lemma run_adds_run: "assembled A a \<Longrightarrow> assemble_run c fs a = (a', taken, out) \<Longrightarrow> run_adds c A a a' taken out"
proof (induction fs arbitrary: A a taken out)
  case Nil
  then show ?case by (auto simp: run_adds_def by_sequence_def)
next
  case (Cons f fs)
  obtain a1 r where acc: "assembler_accept c f a = (a1, r)" by fastforce
  obtain taken1 out1 where run: "assemble_run c fs a1 = (a', taken1, out1)"
    using Cons.prems(2) acc by (auto split: prod.splits sum.splits)
  show ?case
  proof (cases r)
    case (Inl e)
    then have "a1 = a" using acc assembler_accept_rejected[of c f a a1 e] by simp
    then show ?thesis using Cons.IH[OF _ run] Cons.prems acc run Inl by simp
  next
    case (Inr ready)
    have "run_adds c (A(tf_sequence f \<mapsto> f)) a1 a' taken1 out1"
      using assembled_accept(1)[OF Cons.prems(1) acc[unfolded Inr]] run by (rule Cons.IH)
    from run_adds_cons[OF Cons.prems(1) acc[unfolded Inr] this] show ?thesis using Cons.prems(2) acc run Inr by auto
  qed
qed

lemma assembled_new: "assembler_new w = Inr a \<Longrightarrow> assembled (\<lambda>_. None) a \<and> ta_next_sequence a = 0 \<and> ta_max_reorder_window a = w"
  by (auto simp: assembler_new_def assembled_def split: if_splits)

text \<open>A frame that is sound, within the window and not seen before is taken.\<close>

lemma assembled_takes:
  assumes "assembled A a" "is_ok (frame_validate c f)" "A (tf_sequence f) = None"
    "tf_sequence f < sat_add64 (ta_next_sequence a) (ta_max_reorder_window a)"
  shows "\<exists>a' ready. assembler_accept c f a = (a', Inr ready)"
proof -
  have "\<not> tf_sequence f < ta_next_sequence a" using assms(1,3) by (auto simp: assembled_def)
  moreover have "fmlookup (ta_pending a) (tf_sequence f) = None" using assms(1,3) by (simp add: assembled_def)
  ultimately show ?thesis using assms(2,4) by (auto simp: assembler_accept_def is_ok_def split: sum.splits prod.splits)
qed

lemma all_taken:
  assumes "assembled A a" "\<forall>f\<in>set fs. is_ok (frame_validate c f) \<and> A (tf_sequence f) = None \<and>
      tf_sequence f < ta_max_reorder_window a \<and> tf_sequence f < u64_max" "distinct (map tf_sequence fs)"
  shows "\<exists>a' out. assemble_run c fs a = (a', fs, out)"
  using assms
proof (induction fs arbitrary: A a)
  case (Cons f fs)
  have "tf_sequence f < sat_add64 (ta_next_sequence a) (ta_max_reorder_window a)"
    using Cons.prems(2) by (auto simp: sat_add64_def)
  then obtain a1 ready where acc: "assembler_accept c f a = (a1, Inr ready)"
    using assembled_takes[OF Cons.prems(1), of c f] Cons.prems(2) by auto
  note one = assembled_accept[OF Cons.prems(1) acc]
  have "\<forall>g\<in>set fs. is_ok (frame_validate c g) \<and> (A(tf_sequence f \<mapsto> f)) (tf_sequence g) = None \<and>
      tf_sequence g < ta_max_reorder_window a1 \<and> tf_sequence g < u64_max"
    using Cons.prems(2,3) one(6) by (auto simp: image_iff)
  then obtain a' out where "assemble_run c fs a1 = (a', fs, out)" using Cons.IH[OF one(1)] Cons.prems(3) by auto
  then show ?case using acc by simp
qed simp

lemma run_in_order:
  assumes "assembler_new w = Inr a0" "assemble_run c fs a0 = (a, taken, out)"
  shows "map tf_sequence out = [0..<ta_next_sequence a]" "distinct (map tf_sequence taken)"
    "set out = {f \<in> set taken. tf_sequence f < ta_next_sequence a}"
    "ta_next_sequence a \<notin> tf_sequence ` set taken" "\<forall>f\<in>set taken. is_ok (frame_validate c f)"
proof -
  define n where "n = ta_next_sequence a"
  have added: "run_adds c (\<lambda>_. None) a0 a taken out"
    using run_adds_run[OF conjunct1[OF assembled_new[OF assms(1)]] assms(2)] .
  then have asm: "assembled (by_sequence taken) a" and out: "out = map (\<lambda>k. the (by_sequence taken k)) [0..<n]"
    using assembled_new[OF assms(1)] by (auto simp: run_adds_def map_add_def n_def split: option.splits)
  show dist: "distinct (map tf_sequence taken)" and "\<forall>f\<in>set taken. is_ok (frame_validate c f)"
    using added by (auto simp: run_adds_def)
  have at: "the (by_sequence taken k) \<in> set taken \<and> tf_sequence (the (by_sequence taken k)) = k" if "k < n" for k
    using asm that by_sequence_Some[of taken k] by (fastforce simp: assembled_def n_def)
  show "map tf_sequence out = [0..<ta_next_sequence a]"
    unfolding out n_def[symmetric] map_map by (rule map_idI) (use at in auto)
  show "ta_next_sequence a \<notin> tf_sequence ` set taken"
    using asm by_sequence_dom[of taken] by (auto simp: assembled_def domIff)
  have "f \<in> set out" if "f \<in> set taken" "tf_sequence f < n" for f
  proof -
    have "by_sequence taken (tf_sequence f) = Some f"
      using dist that(1) unfolding by_sequence_def by (intro map_of_is_SomeI) (auto simp: comp_def)
    then show ?thesis using that(2) by (force simp: out)
  qed
  then show "set out = {f \<in> set taken. tf_sequence f < ta_next_sequence a}"
    using at by (auto simp: out n_def)
qed

lemma undone:
  assumes "assembler_new w = Inr a0" "assemble_run c fs a0 = (a, taken, out)" "mset fs = mset gs"
    "map tf_sequence gs = [0..<length gs]" "length gs \<le> w" "length gs \<le> u64_max" "\<forall>f\<in>set gs. is_ok (frame_validate c f)"
  shows "out = gs"
proof -
  have sets: "set fs = set gs" using assms(3) by (rule mset_eq_setD)
  have range: "tf_sequence ` set gs = {0..<length gs}" using assms(4) by (metis list.set_map set_upt)
  have "distinct (map tf_sequence gs)" by (simp add: assms(4))
  then have dist: "distinct (map tf_sequence fs)" using assms(3) by (metis mset_map mset_eq_imp_distinct_iff)
  have "\<forall>f\<in>set fs. tf_sequence f < length gs" using range sets by auto
  then have "\<forall>f\<in>set fs. is_ok (frame_validate c f) \<and> (\<lambda>_. None) (tf_sequence f) = None \<and>
      tf_sequence f < ta_max_reorder_window a0 \<and> tf_sequence f < u64_max"
    using assms(5-7) sets assembled_new[OF assms(1)] by auto
  then have taken: "taken = fs" using all_taken[of "\<lambda>_. None" a0 fs c] assembled_new[OF assms(1)] dist assms(2) by auto
  note o = run_in_order[OF assms(1,2), unfolded taken]
  have low: "k \<in> {0..<length gs}" if "k < ta_next_sequence a" for k
  proof -
    have "k \<in> set (map tf_sequence out)" using that by (simp add: o(1))
    then show ?thesis using o(3) sets unfolding range[symmetric] by auto
  qed
  have "ta_next_sequence a \<notin> {0..<length gs}" using o(4) unfolding sets range .
  then have n: "ta_next_sequence a = length gs" using low[of "length gs"] by (cases "length gs < ta_next_sequence a") auto
  have "map tf_sequence out = map tf_sequence gs" by (simp only: o(1) assms(4) n)
  moreover have "inj_on tf_sequence (set out \<union> set gs)"
    using \<open>distinct (map tf_sequence gs)\<close> o(3) sets by (auto simp: distinct_map inj_on_def)
  ultimately show ?thesis by (simp add: inj_on_map_eq_map)
qed

section \<open>Seeding\<close>

lemma grown_refl: "grown st st" and grown_trans: "grown st st' \<Longrightarrow> grown st' st'' \<Longrightarrow> grown st st''"
  by (auto simp: grown_def)

lemma contains_iff: "contains c st ch \<longleftrightarrow> (\<exists>b. chunk_data c st ch = Inr b)"
  by (auto simp: contains_def chunk_data_def qbind_def split: sum.splits)

lemma grown_data: "grown st st' \<Longrightarrow> chunk_data c st ch = Inr b \<Longrightarrow> chunk_data c st' ch = Inr b"
  by (auto simp: chunk_data_def qbind_def split: sum.splits if_splits dest: grown_read)

lemma chunk_data_hash: "chunk_data c st ch = Inr b \<Longrightarrow> hash_bytes c b = ck_sha256 ch \<and> fmlookup st (ck_sha256 ch) = Some b \<and>
    is_sha256 (ck_sha256 ch) \<and> length b = ck_size_bytes ch"
  by (auto simp: chunk_data_def chunk_read_def qbind_def split: sum.splits if_splits option.splits)

text \<open>Whatever a peer answers, when seeding ends well the store kept what it had and holds every chunk of the manifest.\<close>

lemma seed_chunks_ok: "seed_chunks c src chs st = (st', Inr u) \<Longrightarrow> grown st st' \<and> (\<forall>ch\<in>set chs. contains c st' ch)"
proof (induction chs arbitrary: st)
  case (Cons ch chs)
  show ?case
  proof (cases "contains c st ch")
    case True
    then show ?thesis using Cons by (fastforce simp: contains_iff dest: grown_data)
  next
    case False
    then obtain b st1 where b: "length b = ck_size_bytes ch" "chunk_put c b st = Inr (st1, ck_sha256 ch)"
      "seed_chunks c src chs st1 = (st', Inr u)"
      using Cons.prems by (auto split: sum.splits if_splits prod.splits)
    note put = chunk_put_ok[OF b(2)] and ih = Cons.IH[OF b(3)]
    have "chunk_data c st1 ch = Inr b" using put(2) b(1) by (simp add: chunk_data_def qbind_def)
    then have "contains c st' ch" using ih grown_data by (force simp: contains_iff)
    then show ?thesis using ih put(1) grown_trans by auto
  qed
qed (simp add: grown_refl)

lemma contained_materializes:
  assumes "manifest_validate m = Inr ()" "\<forall>ch\<in>set (mm_chunks m). contains c st ch"
  shows "\<exists>data. materialize c st m = Inr data \<and> length data = mm_total_size_bytes m"
proof -
  define ps where "ps = map (\<lambda>ch. projr (chunk_data c st ch)) (mm_chunks m)"
  have "list_all2 (\<lambda>ch p. chunk_data c st ch = Inr p) (mm_chunks m) ps"
    using assms(2) by (auto simp: ps_def list_all2_conv_all_nth contains_iff) (metis nth_mem sum.sel(2))
  moreover have "sum_list (map length ps) = sum_list (map ck_size_bytes (mm_chunks m))"
    unfolding ps_def map_map using assms(2) by (intro arg_cong[where f = sum_list] map_cong)
      (force simp: contains_iff dest: chunk_data_length)+
  ultimately show ?thesis
    using assms(1) manifest_valid(2)[OF assms(1)] by (auto simp: materialize_pieces length_concat)
qed

lemma seeded_model:
  assumes "seed_from_peer c src model_id revision st = (st', Inr m)" "manifest_validate m = Inr ()"
  shows "grown st st' \<and> (\<exists>data. materialize c st' m = Inr data \<and> length data = mm_total_size_bytes m)"
  using assms seed_chunks_ok[of c src "mm_chunks m" st st' "()"] contained_materializes[OF assms(2)]
  by (auto simp: seed_from_peer_def split: sum.splits prod.splits)

text \<open>An honest server.\<close>

lemma body_slices_concat: "concat (body_slices b) = b"
  by (induction b rule: body_slices.induct) (auto simp: body_slices.simps Let_def)

definition served_manifest :: "seed_server \<Rightarrow> string \<Rightarrow> string \<Rightarrow> string + model_manifest" where
  "served_manifest sv model revision = (case serve_manifest sv model revision of None \<Rightarrow> Inl ''404'' | Some m \<Rightarrow> Inr m)"

definition served_chunk :: "crypto \<Rightarrow> (string \<Rightarrow> nat) \<Rightarrow> seed_server \<Rightarrow> string \<Rightarrow> string + string" where
  "served_chunk c elapsed sv d =
     (case snd (serve_chunk c d (elapsed d) sv) of None \<Rightarrow> Inl ''404'' | Some (n, slices) \<Rightarrow> Inr (concat slices))"

lemma served_chunk_data:
  "chunk_data c (sv_store sv) ch = Inr b \<Longrightarrow> served_chunk c elapsed sv (ck_sha256 ch) = Inr b"
  by (auto simp: served_chunk_def serve_chunk_def metered_body_def chunk_data_def Let_def qbind_def body_slices_concat
      split: sum.splits if_splits)

lemma seed_chunks_served:
  assumes "\<forall>ch\<in>set chs. contains c (sv_store sv) ch \<and> 0 < ck_size_bytes ch" "intact c st"
    "inj_on (hash_bytes c) (fmran' st \<union> fmran' (sv_store sv))"
  shows "\<exists>st'. seed_chunks c (http_peer_source c gm (served_chunk c elapsed sv)) chs st = (st', Inr ())"
  using assms
proof (induction chs arbitrary: st)
  case (Cons ch chs)
  obtain b where b: "chunk_data c (sv_store sv) ch = Inr b" using Cons.prems(1) by (auto simp: contains_iff)
  note h = chunk_data_hash[OF b] and s = served_chunk_data[OF b, of elapsed]
  show ?case
  proof (cases "contains c st ch")
    case True
    then show ?thesis using Cons by simp
  next
    case False
    have "fmlookup st (ck_sha256 ch) = None"
    proof (rule ccontr)
      assume "fmlookup st (ck_sha256 ch) \<noteq> None"
      then obtain b' where b': "fmlookup st (ck_sha256 ch) = Some b'" by blast
      then have "hash_bytes c b' = hash_bytes c b" using Cons.prems(2) h by (simp add: intact_def)
      moreover have "b' \<in> fmran' st" "b \<in> fmran' (sv_store sv)" using b' h by (auto intro: fmran'I)
      ultimately have "b' = b" using Cons.prems(3) by (auto dest: inj_onD)
      then show False using False b' h by (simp add: contains_def chunk_read_def)
    qed
    moreover have "b \<noteq> []" using h Cons.prems(1) by auto
    ultimately have put: "chunk_put c b st = Inr (fmupd (ck_sha256 ch) b st, ck_sha256 ch)"
      using h by (simp add: chunk_put_def Let_def)
    have "intact c (fmupd (ck_sha256 ch) b st)" using Cons.prems(2) h by (simp add: intact_def)
    moreover have "fmran' (fmupd (ck_sha256 ch) b st) \<union> fmran' (sv_store sv) \<subseteq> fmran' st \<union> fmran' (sv_store sv)"
      using h by (fastforce simp: fmran'_def split: if_splits)
    then have "inj_on (hash_bytes c) (fmran' (fmupd (ck_sha256 ch) b st) \<union> fmran' (sv_store sv))"
      using Cons.prems(3) by (rule inj_on_subset[rotated])
    ultimately have "\<exists>st'. seed_chunks c (http_peer_source c gm (served_chunk c elapsed sv)) chs (fmupd (ck_sha256 ch) b st) = (st', Inr ())"
      using Cons.IH[of "fmupd (ck_sha256 ch) b st"] Cons.prems(1) by simp
    then show ?thesis using False h s put by (simp add: http_peer_source_def map_err_def qbind_def)
  qed
qed simp

lemma seed_chunks_ran:
  "seed_chunks c (http_peer_source c gm (served_chunk c elapsed sv)) chs st = (st', r) \<Longrightarrow>
    \<forall>h b. fmlookup st' h = Some b \<longrightarrow> fmlookup st h = Some b \<or> fmlookup (sv_store sv) h = Some b"
proof (induction chs arbitrary: st)
  case (Cons ch chs)
  let ?src = "http_peer_source c gm (served_chunk c elapsed sv)"
  have put: "fmlookup (sv_store sv) h = Some b \<or> fmlookup st h = Some b"
    if "sr_chunk ?src (ck_sha256 ch) = Inr d" "chunk_put c d st = Inr (st1, g)" "fmlookup st1 h = Some b" for d st1 g h b
  proof -
    have "hash_bytes c d = ck_sha256 ch" "served_chunk c elapsed sv (ck_sha256 ch) = Inr d"
      using that(1) by (auto simp: http_peer_source_def map_err_def qbind_def split: if_splits sum.splits)
    then have "fmlookup (sv_store sv) (hash_bytes c d) = Some d"
      by (auto simp: served_chunk_def serve_chunk_def metered_body_def chunk_read_def Let_def body_slices_concat
          split: option.splits sum.splits if_splits)
    then show ?thesis using that(2,3) by (auto simp: chunk_put_def Let_def qbind_def split: if_splits sum.splits)
  qed
  show ?case
  proof (cases "contains c st ch \<or> (\<forall>d st1. sr_chunk ?src (ck_sha256 ch) = Inr d \<longrightarrow> (\<forall>g. chunk_put c d st \<noteq> Inr (st1, g)))")
    case True
    then show ?thesis using Cons by (auto split: if_splits sum.splits prod.splits)
  next
    case False
    then obtain d st1 g where d: "\<not> contains c st ch" "sr_chunk ?src (ck_sha256 ch) = Inr d" "chunk_put c d st = Inr (st1, g)" by blast
    then have "st' = st \<or> st' = st1 \<or> seed_chunks c ?src chs st1 = (st', r)"
      using Cons.prems by (auto split: if_splits)
    then show ?thesis using Cons.IH[of st1] put[OF d(2,3)] by blast
  qed
qed simp

lemma same_pieces:
  assumes "materialize c st m = Inr data" "\<forall>ch\<in>set (mm_chunks m). chunk_data c st' ch = chunk_data c st ch"
  shows "materialize c st' m = Inr data"
proof -
  obtain ps where ps: "list_all2 (\<lambda>ch p. chunk_data c st ch = Inr p) (mm_chunks m) ps" "data = concat ps" "manifest_validate m = Inr ()"
    using assms(1) by (auto simp: materialize_pieces)
  have "list_all2 (\<lambda>ch p. chunk_data c st' ch = Inr p) (mm_chunks m) ps"
    using ps(1) assms(2) by (auto simp: list_all2_conv_all_nth)
  then show ?thesis using ps by (auto simp: materialize_pieces)
qed

lemma materialized_contains: "materialize c st m = Inr data \<Longrightarrow> ch \<in> set (mm_chunks m) \<Longrightarrow> contains c st ch"
  by (auto simp: materialize_pieces contains_iff list_all2_conv_all_nth in_set_conv_nth)

lemma seeded_copy:
  assumes "serve_manifest sv model_id revision = Some m" "materialize c (sv_store sv) m = Inr data" "intact c st"
    "inj_on (hash_bytes c) (fmran' st \<union> fmran' (sv_store sv))"
  shows "\<exists>st'. seed_from_peer c (http_peer_source c (served_manifest sv) (served_chunk c elapsed sv)) model_id revision st =
      (st', Inr m) \<and> grown st st' \<and> materialize c st' m = Inr data"
proof -
  let ?src = "http_peer_source c (served_manifest sv) (served_chunk c elapsed sv)"
  have v: "manifest_validate m = Inr ()" using assms(2) by (simp add: materialize_pieces)
  have there: "contains c (sv_store sv) ch \<and> 0 < ck_size_bytes ch" if "ch \<in> set (mm_chunks m)" for ch
    using that materialized_contains[OF assms(2)] manifest_valid(3)[OF v] by simp
  obtain st' where st': "seed_chunks c ?src (mm_chunks m) st = (st', Inr ())"
    using seed_chunks_served[of "mm_chunks m" c sv st] there assms(3,4) by blast
  note ok = seed_chunks_ok[OF st'] and ran = seed_chunks_ran[OF st']
  have "chunk_data c st' ch = chunk_data c (sv_store sv) ch" if ch: "ch \<in> set (mm_chunks m)" for ch
  proof -
    obtain b b' where b: "chunk_data c (sv_store sv) ch = Inr b" "chunk_data c st' ch = Inr b'"
      using there[OF ch] ok ch by (auto simp: contains_iff)
    note h = chunk_data_hash[OF b(1)] chunk_data_hash[OF b(2)]
    have "fmlookup st (ck_sha256 ch) = Some b' \<or> fmlookup (sv_store sv) (ck_sha256 ch) = Some b'" using ran h(2) by blast
    then have "b' \<in> fmran' st \<union> fmran' (sv_store sv)" by (auto intro: fmran'I)
    moreover have "b \<in> fmran' st \<union> fmran' (sv_store sv)" using h(1) by (auto intro: fmran'I)
    moreover have "hash_bytes c b' = hash_bytes c b" using h by simp
    ultimately have "b' = b" using inj_onD[OF assms(4)] by blast
    then show ?thesis using b by simp
  qed
  then have "materialize c st' m = Inr data" using same_pieces[OF assms(2)] by blast
  moreover have "sr_manifest ?src model_id revision = Inr m"
    using v assms(1) by (simp add: http_peer_source_def served_manifest_def map_err_def qbind_def)
  ultimately show ?thesis using st' ok by (simp add: seed_from_peer_def)
qed

text \<open>The plan of a transfer.\<close>

lemma assign_chunks_total: "(\<exists>as. assign_chunks peers load chs = Inr as) \<longleftrightarrow> (\<forall>ch\<in>set chs. holders peers ch \<noteq> [])"
proof (induction chs arbitrary: load)
  case (Cons ch chs)
  show ?case
  proof (cases "holders peers ch = []")
    case True
    then show ?thesis by (simp add: min_by_key_def)
  next
    case False
    then obtain p where "min_by_key (\<lambda>p. (pv_failures p, seed_load load (pv_peer p), pv_latency_ms p)) (holders peers ch) = Some p"
      using min_by_key_None by (metis not_None_eq)
    then show ?thesis using False Cons.IH[of "fmupd (pv_peer p) (seed_load load (pv_peer p) + 1) load"]
      by (auto simp: qbind_def split: sum.splits)
  qed
qed simp

lemma assign_chunks_ok:
  "assign_chunks peers load chs = Inr as \<Longrightarrow> map sa_chunk as = chs \<and>
    (\<forall>a\<in>set as. \<exists>p\<in>set peers. pv_peer p = sa_peer a \<and> ck_sha256 (sa_chunk a) \<in> set (pv_chunks p))"
proof (induction chs arbitrary: load as)
  case (Cons ch chs)
  then obtain p as1 where p: "min_by_key (\<lambda>p. (pv_failures p, seed_load load (pv_peer p), pv_latency_ms p)) (holders peers ch) = Some p"
    "assign_chunks peers (fmupd (pv_peer p) (seed_load load (pv_peer p) + 1) load) chs = Inr as1"
    "as = \<lparr> sa_chunk = ch, sa_peer = pv_peer p \<rparr> # as1"
    by (auto simp: qbind_def split: option.splits sum.splits)
  have "p \<in> set (holders peers ch)" using p(1) by (rule min_by_key_in)
  then show ?case using Cons.IH[OF p(2)] p(3) by (auto simp: holders_def)
qed simp

definition assigned_to :: "string \<Rightarrow> seed_assignment list \<Rightarrow> nat" where
  "assigned_to p as = length (filter (\<lambda>a. sa_peer a = p) as)"

lemma seed_load_upd: "seed_load (fmupd p n load) q = (if q = p then n else seed_load load q)"
  by (simp add: seed_load_def)

lemma assign_chunks_balanced:
  assumes "assign_chunks peers load chs = Inr as" "\<forall>ch\<in>set chs. holders peers ch = peers" "\<forall>p\<in>set peers. pv_failures p = n"
    "\<forall>p\<in>set peers. \<forall>q\<in>set peers. seed_load load (pv_peer p) \<le> seed_load load (pv_peer q) + 1"
  shows "\<forall>p\<in>set peers. \<forall>q\<in>set peers. seed_load load (pv_peer p) + assigned_to (pv_peer p) as \<le>
    seed_load load (pv_peer q) + assigned_to (pv_peer q) as + 1"
  using assms
proof (induction chs arbitrary: load as)
  case (Cons ch chs)
  let ?key = "\<lambda>p. (pv_failures p, seed_load load (pv_peer p), pv_latency_ms p)"
  obtain s as1 where s: "min_by_key ?key peers = Some s"
    "assign_chunks peers (fmupd (pv_peer s) (seed_load load (pv_peer s) + 1) load) chs = Inr as1"
    "as = \<lparr> sa_chunk = ch, sa_peer = pv_peer s \<rparr> # as1"
    using Cons.prems(1,2) by (auto simp: qbind_def split: option.splits sum.splits)
  have mem: "s \<in> set peers" using s(1) by (rule min_by_key_in)
  have least: "seed_load load (pv_peer s) \<le> seed_load load (pv_peer q)" if "q \<in> set peers" for q
  proof -
    have "?key s \<le> ?key q" using min_by_key_least[OF s(1) that] by simp
    then show ?thesis using Cons.prems(3) mem that by (auto simp: less_eq_prod_def)
  qed
  define load' where "load' = fmupd (pv_peer s) (seed_load load (pv_peer s) + 1) load"
  have "\<forall>p\<in>set peers. \<forall>q\<in>set peers. seed_load load' (pv_peer p) \<le> seed_load load' (pv_peer q) + 1"
    using Cons.prems(4) least le_SucI[OF bspec[OF bspec[OF Cons.prems(4)] mem]] by (auto simp: load'_def seed_load_upd)
  then have "\<forall>p\<in>set peers. \<forall>q\<in>set peers. seed_load load' (pv_peer p) + assigned_to (pv_peer p) as1 \<le>
    seed_load load' (pv_peer q) + assigned_to (pv_peer q) as1 + 1"
    using Cons.IH[OF s(2)[folded load'_def]] Cons.prems(2,3) by simp
  moreover have "seed_load load' p + assigned_to p as1 = seed_load load p + assigned_to p as" for p
    by (simp add: load'_def seed_load_upd s(3) assigned_to_def)
  ultimately show ?case by simp
qed (simp add: assigned_to_def)

text \<open>What a probe reports is folded in by every exchange of the round.\<close>

lemma probe_samples_fold:
  "fst (probe_samples (Some r) (Some n) ts fastest latest v) = ((\<lambda>v. fst (observe r n v)) ^^ length ts) v"
proof (induction ts arbitrary: fastest latest v)
  case (Cons t ts)
  then show ?case by (simp add: serve_probe_def Let_def funpow_Suc_right del: funpow.simps)
qed simp

lemma report_folded_by_every_exchange:
  "fst (probe_peer (Some r) (Some n) elapsed v) = ((\<lambda>v. fst (observe r n v)) ^^ 4) v"
proof -
  define g where "g = (\<lambda>v. fst (observe r n v))"
  obtain v' latest fastest where run: "probe_samples (Some r) (Some n) (map elapsed [0..<PROBE_SAMPLES]) u64_max
      (Some (provisional_coordinate (g v))) (g v) = (v', latest, fastest)" by (metis prod_cases3)
  then have "v' = (g ^^ 3) (g v)"
    using probe_samples_fold[of r n "map elapsed [0..<PROBE_SAMPLES]" u64_max "Some (provisional_coordinate (g v))" "g v"]
    by (simp add: g_def PROBE_SAMPLES_def)
  moreover have "fst (probe_peer (Some r) (Some n) elapsed v) = v'"
    using run by (simp add: probe_peer_def serve_probe_def g_def Let_def)
  ultimately show ?thesis by (simp add: g_def[symmetric] numeral_eq_Suc funpow_swap1)
qed

text \<open>The time a probe answers with is the shortest of its samples.\<close>

lemma probe_samples_fastest:
  "snd (snd (probe_samples ours last_rtt ts fastest latest v)) = foldl min fastest (map (\<lambda>t. max (min t u64_max) 1) ts)"
  by (induction ts arbitrary: fastest latest v) (simp_all split: prod.splits)

text \<open>What an assembler hands out, fact by fact.\<close>

lemma frames_handed_out:
  assumes "assembler_new w = Inr a0" "assemble_run c fs a0 = (a, taken, out)"
  shows "map tf_sequence out = [0..<ta_next_sequence a]" "set out = {f \<in> set taken. tf_sequence f < ta_next_sequence a}"
    and "ta_next_sequence a \<notin> tf_sequence ` set taken" "distinct (map tf_sequence taken)"
    and "\<forall>f\<in>set taken. hash_bytes c (tf_payload f) = tf_payload_sha256 f"
    and "mset fs = mset gs \<Longrightarrow> map tf_sequence gs = [0..<length gs] \<Longrightarrow> length gs \<le> w \<Longrightarrow> length gs \<le> u64_max \<Longrightarrow>
      (\<And>f. f \<in> set gs \<Longrightarrow> is_ok (frame_validate c f)) \<Longrightarrow> out = gs"
proof -
  note o = run_in_order[OF assms]
  show "map tf_sequence out = [0..<ta_next_sequence a]" "set out = {f \<in> set taken. tf_sequence f < ta_next_sequence a}"
    "ta_next_sequence a \<notin> tf_sequence ` set taken" "distinct (map tf_sequence taken)" using o by blast+
  show "\<forall>f\<in>set taken. hash_bytes c (tf_payload f) = tf_payload_sha256 f"
    using o(5) by (auto simp: is_ok_iff frame_validate_ok)
  show "mset fs = mset gs \<Longrightarrow> map tf_sequence gs = [0..<length gs] \<Longrightarrow> length gs \<le> w \<Longrightarrow> length gs \<le> u64_max \<Longrightarrow>
      (\<And>f. f \<in> set gs \<Longrightarrow> is_ok (frame_validate c f)) \<Longrightarrow> out = gs"
    using undone[OF assms] by blast
qed

text \<open>What a transfer plan asks for, fact by fact.\<close>

lemma plan_of_valid:
  assumes "manifest_validate m = Inr ()"
  shows "(\<exists>as. plan_seeding m have peers = Inr as) \<longleftrightarrow>
      (\<forall>ch\<in>set (mm_chunks m). ck_sha256 ch \<notin> set have \<longrightarrow> (\<exists>p\<in>set peers. ck_sha256 ch \<in> set (pv_chunks p)))"
    and "plan_seeding m have peers = Inr as \<Longrightarrow>
      mset (map sa_chunk as) = mset (filter (\<lambda>ch. ck_sha256 ch \<notin> set have) (mm_chunks m)) \<and>
      sorted (map (\<lambda>a. length (holders peers (sa_chunk a))) as) \<and>
      (\<forall>a\<in>set as. \<exists>p\<in>set peers. pv_peer p = sa_peer a \<and> ck_sha256 (sa_chunk a) \<in> set (pv_chunks p))"
    and "plan_seeding m have peers = Inr as \<Longrightarrow> (\<And>ch. ch \<in> set (mm_chunks m) \<Longrightarrow> holders peers ch = peers) \<Longrightarrow>
      (\<And>p. p \<in> set peers \<Longrightarrow> pv_failures p = n) \<Longrightarrow> p \<in> set peers \<Longrightarrow> q \<in> set peers \<Longrightarrow>
      assigned_to (pv_peer p) as \<le> assigned_to (pv_peer q) as + 1"
proof -
  have plan: "plan_seeding m have peers = assign_chunks peers fmempty (missing_chunks m have peers)"
    using assms by (simp add: plan_seeding_def map_err_def qbind_def)
  show "(\<exists>as. plan_seeding m have peers = Inr as) \<longleftrightarrow>
      (\<forall>ch\<in>set (mm_chunks m). ck_sha256 ch \<notin> set have \<longrightarrow> (\<exists>p\<in>set peers. ck_sha256 ch \<in> set (pv_chunks p)))"
    unfolding plan assign_chunks_total by (auto simp: missing_chunks_def holders_def filter_empty_conv)
  show "mset (map sa_chunk as) = mset (filter (\<lambda>ch. ck_sha256 ch \<notin> set have) (mm_chunks m)) \<and>
      sorted (map (\<lambda>a. length (holders peers (sa_chunk a))) as) \<and>
      (\<forall>a\<in>set as. \<exists>p\<in>set peers. pv_peer p = sa_peer a \<and> ck_sha256 (sa_chunk a) \<in> set (pv_chunks p))"
    if "plan_seeding m have peers = Inr as"
  proof -
    note ok = assign_chunks_ok[OF that[unfolded plan]]
    then have "map (\<lambda>a. length (holders peers (sa_chunk a))) as = map (\<lambda>ch. length (holders peers ch)) (missing_chunks m have peers)"
      by (metis (no_types, lifting) map_map comp_def map_eq_conv)
    then have "sorted (map (\<lambda>a. length (holders peers (sa_chunk a))) as)" by (simp add: missing_chunks_def)
    then show ?thesis using ok by (simp add: missing_chunks_def)
  qed
  show "assigned_to (pv_peer p) as \<le> assigned_to (pv_peer q) as + 1"
    if "plan_seeding m have peers = Inr as" "\<And>ch. ch \<in> set (mm_chunks m) \<Longrightarrow> holders peers ch = peers"
      "\<And>p. p \<in> set peers \<Longrightarrow> pv_failures p = n" "p \<in> set peers" "q \<in> set peers"
    using assign_chunks_balanced[OF that(1)[unfolded plan], of n] that(2-5) by (auto simp: missing_chunks_def seed_load_def)
qed

section \<open>Properties\<close>

text \<open>C35.  An assembler hands out a stream in its order, each frame once.  Whatever frames are offered and in whatever order,
  the frames handed out are numbered from zero without a gap, they are exactly the frames it took below its next number,
  that number was never taken, no number was taken twice and every frame taken carried a sound checksum; and a stream
  that fits in the window comes out whole and in order however its frames were shuffled on the way.\<close>

theorem frames_in_order:
  assumes "assembler_new w = Inr a0" "assemble_run c fs a0 = (a, taken, out)"
  shows "map tf_sequence out = [0..<ta_next_sequence a] \<and> set out = {f \<in> set taken. tf_sequence f < ta_next_sequence a} \<and>
    ta_next_sequence a \<notin> tf_sequence ` set taken \<and> distinct (map tf_sequence taken) \<and>
    (\<forall>f\<in>set taken. hash_bytes c (tf_payload f) = tf_payload_sha256 f) \<and>
    (\<forall>gs. mset fs = mset gs \<and> map tf_sequence gs = [0..<length gs] \<and> length gs \<le> w \<and> length gs \<le> u64_max \<and>
      (\<forall>f\<in>set gs. is_ok (frame_validate c f)) \<longrightarrow> out = gs)"
proof (intro conjI frames_handed_out(1-5)[OF assms] allI impI)
  fix gs
  assume "mset fs = mset gs \<and> map tf_sequence gs = [0..<length gs] \<and> length gs \<le> w \<and> length gs \<le> u64_max \<and>
      (\<forall>f\<in>set gs. is_ok (frame_validate c f))"
  then show "out = gs" using frames_handed_out(6)[OF assms, of gs] by blast
qed

definition demo_frame :: "nat \<Rightarrow> tensor_frame" where
  "demo_frame k = \<lparr> tf_job_id = ''j'', tf_stream_id = ''s'', tf_sequence = k, tf_shape = [1], tf_dtype = ''u8'',
     tf_payload_sha256 = hash_bytes demo_digests ''a'', tf_payload = ''a'' \<rparr>"

lemma demo_frame_ok: "frame_validate demo_digests (demo_frame k) = Inr ()"
  by (simp add: frame_validate_ok demo_frame_def)

lemma demo_frame_sequence: "tf_sequence (demo_frame k) = k" "tf_job_id (demo_frame k) = ''j''" "tf_stream_id (demo_frame k) = ''s''"
  by (simp_all add: demo_frame_def)

theorem frames_in_order_witness:
  "\<exists>a taken. assemble_run demo_digests [demo_frame 2, demo_frame 0, demo_frame 1]
       \<lparr> ta_next_sequence = 0, ta_max_reorder_window = 3, ta_pending = fmempty \<rparr> = (a, taken, [demo_frame 0, demo_frame 1, demo_frame 2])"
proof -
  let ?fs = "[demo_frame 2, demo_frame 0, demo_frame 1]" and ?gs = "[demo_frame 0, demo_frame 1, demo_frame 2]"
  let ?a0 = "\<lparr> ta_next_sequence = 0, ta_max_reorder_window = 3, ta_pending = fmempty \<rparr> :: tensor_assembler"
  obtain a taken out where run: "assemble_run demo_digests ?fs ?a0 = (a, taken, out)" by (metis prod_cases3)
  have "assembler_new 3 = Inr ?a0" by (simp add: assembler_new_def)
  from frames_in_order[OF this run] have
    "mset ?fs = mset ?gs \<and> map tf_sequence ?gs = [0..<length ?gs] \<and> length ?gs \<le> 3 \<and> length ?gs \<le> u64_max \<and>
      (\<forall>f\<in>set ?gs. is_ok (frame_validate demo_digests f)) \<longrightarrow> out = ?gs" by blast
  then have "out = ?gs" by (simp add: demo_frame_sequence demo_frame_ok is_ok_def u64_max_def upt_rec)
  then show ?thesis using run by blast
qed

text \<open>C36.  A model is the same file on every node it is seeded to.  When a node serves a manifest and can put its model
  together, a node whose store is intact, and whose chunks and the served ones have different digests when they differ,
  seeds it without an error, keeps what it had, and puts together the same bytes.\<close>

theorem seeded_copy_is_the_model:
  assumes "serve_manifest sv model_id revision = Some m" "materialize c (sv_store sv) m = Inr data" "intact c st"
    "inj_on (hash_bytes c) (fmran' st \<union> fmran' (sv_store sv))"
  shows "\<exists>st'. seed_from_peer c (http_peer_source c (served_manifest sv) (served_chunk c elapsed sv)) model_id revision st =
      (st', Inr m) \<and> (\<forall>h b. chunk_read c st h = Inr b \<longrightarrow> chunk_read c st' h = Inr b) \<and> materialize c st' m = Inr data"
  using seeded_copy[OF assms] grown_read by blast

text \<open>C37.  The plan of a transfer asks for every missing chunk once.  For a valid manifest the plan exists exactly when every
  missing chunk is held by some peer; it then asks for the missing chunks, those fewest peers hold first, each from a
  peer that holds it; and peers that hold everything and have failed equally often are asked for the same number of
  chunks, give or take one.\<close>

theorem seeding_plan_is_complete:
  assumes "manifest_validate m = Inr ()"
  shows "((\<exists>as. plan_seeding m have peers = Inr as) \<longleftrightarrow>
      (\<forall>ch\<in>set (mm_chunks m). ck_sha256 ch \<notin> set have \<longrightarrow> (\<exists>p\<in>set peers. ck_sha256 ch \<in> set (pv_chunks p)))) \<and>
    (\<forall>as. plan_seeding m have peers = Inr as \<longrightarrow>
      mset (map sa_chunk as) = mset (filter (\<lambda>ch. ck_sha256 ch \<notin> set have) (mm_chunks m)) \<and>
      sorted (map (\<lambda>a. length (holders peers (sa_chunk a))) as) \<and>
      (\<forall>a\<in>set as. \<exists>p\<in>set peers. pv_peer p = sa_peer a \<and> ck_sha256 (sa_chunk a) \<in> set (pv_chunks p)) \<and>
      ((\<forall>ch\<in>set (mm_chunks m). holders peers ch = peers) \<and> (\<exists>n. \<forall>p\<in>set peers. pv_failures p = n) \<longrightarrow>
        (\<forall>p\<in>set peers. \<forall>q\<in>set peers. assigned_to (pv_peer p) as \<le> assigned_to (pv_peer q) as + 1)))"
proof (intro conjI allI impI)
  show "(\<exists>as. plan_seeding m have peers = Inr as) \<longleftrightarrow>
      (\<forall>ch\<in>set (mm_chunks m). ck_sha256 ch \<notin> set have \<longrightarrow> (\<exists>p\<in>set peers. ck_sha256 ch \<in> set (pv_chunks p)))"
    by (rule plan_of_valid(1)[OF assms])
next
  fix as
  assume plan: "plan_seeding m have peers = Inr as"
  note asked = plan_of_valid(2)[OF assms plan]
  show "mset (map sa_chunk as) = mset (filter (\<lambda>ch. ck_sha256 ch \<notin> set have) (mm_chunks m))"
    "sorted (map (\<lambda>a. length (holders peers (sa_chunk a))) as)"
    "\<forall>a\<in>set as. \<exists>p\<in>set peers. pv_peer p = sa_peer a \<and> ck_sha256 (sa_chunk a) \<in> set (pv_chunks p)"
    using asked by blast+
  assume "(\<forall>ch\<in>set (mm_chunks m). holders peers ch = peers) \<and> (\<exists>n. \<forall>p\<in>set peers. pv_failures p = n)"
  then show "\<forall>p\<in>set peers. \<forall>q\<in>set peers. assigned_to (pv_peer p) as \<le> assigned_to (pv_peer q) as + 1"
    using plan_of_valid(3)[OF assms plan] by blast
qed

definition demo_seed_manifest :: model_manifest where
  "demo_seed_manifest = \<lparr> mm_schema_version = 1, mm_model_id = ''m'', mm_revision = ''r'', mm_format = GgufFile,
     mm_architecture = ''llama'', mm_parameter_count = None, mm_tensor_dtype = None, mm_total_size_bytes = 3,
     mm_chunks = [\<lparr> ck_index = 0, ck_sha256 = hash_bytes demo_digests ''ab'', ck_size_bytes = 2 \<rparr>,
                  \<lparr> ck_index = 1, ck_sha256 = hash_bytes demo_digests ''c'', ck_size_bytes = 1 \<rparr>], mm_metadata = [] \<rparr>"

definition demo_seed_server :: seed_server where
  "demo_seed_server = \<lparr> sv_store = fmupd (hash_bytes demo_digests ''ab'') ''ab'' (fmupd (hash_bytes demo_digests ''c'') ''c'' fmempty),
     sv_manifests = fmupd (''m'', ''r'') demo_seed_manifest fmempty, sv_uplink = [] \<rparr>"

lemma demo_seed_digests:
  "is_sha256 (hash_bytes demo_digests ''ab'')" "is_sha256 (hash_bytes demo_digests ''c'')"
  "hash_bytes demo_digests ''ab'' \<noteq> hash_bytes demo_digests ''c''"
  using hash_bytes_sha[of demo_digests] demo_import_ok(1) demo_digests_differ by (auto dest: inj_onD)

lemma demo_seed_valid: "manifest_validate demo_seed_manifest = Inr ()"
  by (simp add: manifest_validate_def demo_seed_manifest_def demo_seed_digests checked_add64_def u64_max_def blank_def
      ws_len_def qbind_def)

lemma demo_seed_served:
  "serve_manifest demo_seed_server ''m'' ''r'' = Some demo_seed_manifest"
  "materialize demo_digests (sv_store demo_seed_server) demo_seed_manifest = Inr ''abc''"
  "inj_on (hash_bytes demo_digests) (fmran' fmempty \<union> fmran' (sv_store demo_seed_server))"
proof -
  show "serve_manifest demo_seed_server ''m'' ''r'' = Some demo_seed_manifest"
    by (simp add: serve_manifest_def demo_seed_server_def)
  show "materialize demo_digests (sv_store demo_seed_server) demo_seed_manifest = Inr ''abc''"
    unfolding materialize_def demo_seed_valid using demo_seed_digests
    by (simp add: demo_seed_manifest_def demo_seed_server_def map_err_def qbind_def chunk_data_def chunk_read_def)
  have "fmran' fmempty \<union> fmran' (sv_store demo_seed_server) \<subseteq> {''ab'', ''bc'', ''c''}"
    by (auto simp: demo_seed_server_def fmran'_def split: if_splits)
  then show "inj_on (hash_bytes demo_digests) (fmran' fmempty \<union> fmran' (sv_store demo_seed_server))"
    by (rule inj_on_subset[OF demo_digests_differ])
qed

theorem seeded_copy_is_the_model_witness:
  "\<exists>st'. seed_from_peer demo_digests (http_peer_source demo_digests (served_manifest demo_seed_server)
      (served_chunk demo_digests (\<lambda>_. 0) demo_seed_server)) ''m'' ''r'' fmempty = (st', Inr demo_seed_manifest) \<and>
    materialize demo_digests st' demo_seed_manifest = Inr ''abc''"
  using seeded_copy_is_the_model[OF demo_seed_served(1,2) demo_import_ok(2) demo_seed_served(3), of "\<lambda>_. 0"] by blast

definition demo_inventory :: "string \<Rightarrow> peer_inventory" where
  "demo_inventory name = \<lparr> pv_peer = name, pv_chunks = [hash_bytes demo_digests ''ab'', hash_bytes demo_digests ''c''],
     pv_latency_ms = 5, pv_failures = 0 \<rparr>"

theorem seeding_plan_is_complete_witness:
  "\<exists>as. plan_seeding demo_seed_manifest [] [demo_inventory ''p'', demo_inventory ''q''] = Inr as \<and>
     mset (map sa_chunk as) = mset (mm_chunks demo_seed_manifest) \<and> assigned_to ''p'' as \<le> assigned_to ''q'' as + 1"
proof -
  let ?peers = "[demo_inventory ''p'', demo_inventory ''q'']"
  note t = seeding_plan_is_complete[OF demo_seed_valid, of "[]" ?peers]
  have "\<exists>as. plan_seeding demo_seed_manifest [] ?peers = Inr as"
    unfolding t[THEN conjunct1] by (simp add: demo_seed_manifest_def demo_inventory_def)
  then obtain as where as: "plan_seeding demo_seed_manifest [] ?peers = Inr as" by blast
  note planned = t[THEN conjunct2, rule_format, OF as]
  have "(\<forall>ch\<in>set (mm_chunks demo_seed_manifest). holders ?peers ch = ?peers) \<and> (\<exists>n. \<forall>p\<in>set ?peers. pv_failures p = n)"
    by (auto simp: holders_def demo_seed_manifest_def demo_inventory_def)
  with planned have "assigned_to (pv_peer (demo_inventory ''p'')) as \<le> assigned_to (pv_peer (demo_inventory ''q'')) as + 1"
    by (meson list.set_intros)
  then show ?thesis using as planned by (auto simp: demo_inventory_def)
qed

lemma receive_next:
  assumes "frame_validate c f = Inr u" "tf_sequence f = n" "n < u64_max"
    "inbox_assembler f ix = \<lparr> ta_next_sequence = n, ta_max_reorder_window = 1024, ta_pending = fmempty \<rparr>"
  shows "receive_assemble c f ix = (ix\<lparr> ix_assemblers := fmupd (tf_job_id f, tf_stream_id f)
      \<lparr> ta_next_sequence = n + 1, ta_max_reorder_window = 1024, ta_pending = fmempty \<rparr> (ix_assemblers ix) \<rparr>, Inr [f])"
proof -
  have "fmdrop n (fmupd n f fmempty) = fmempty" by (rule fmap_ext) simp
  moreover have "drain (wrap_u64 (n + 1)) fmempty = ([], n + 1, fmempty)"
    using assms(3) by (simp add: drain.simps)
  ultimately have "drain n (fmupd n f fmempty) = ([f], n + 1, fmempty)" by (simp add: drain.simps[of n])
  moreover have "\<not> sat_add64 n 1024 \<le> n" using assms(3) by (simp add: sat_add64_def)
  ultimately show ?thesis using assms(1,2) by (simp add: receive_assemble_def assms(4) assembler_accept_def)
qed

text \<open>Two requests of one stream can be delivered in the wrong order.  A request lets go of the assemblers before it takes
  the lock of the delivered frames, so a request with the next frame may assemble and deliver in between.\<close>

theorem inbox_delivers_out_of_order:
  "\<exists>ix. (inbox_step demo_digests)\<^sup>*\<^sup>* \<lparr> ix_assemblers = fmempty, ix_leaving = [], ix_delivered = [] \<rparr> ix \<and>
     ix_delivered ix = [demo_frame 1, demo_frame 0] \<and> ix_leaving ix = []"
proof -
  define arrived where "arrived = (\<lambda>n as. fmupd (''j'', ''s'')
     (\<lparr> ta_next_sequence = n, ta_max_reorder_window = 1024, ta_pending = fmempty \<rparr> :: tensor_assembler) as)"
  define start where "start = \<lparr> ix_assemblers = fmempty, ix_leaving = [], ix_delivered = [] \<rparr>"
  define ix1 where "ix1 = \<lparr> ix_assemblers = arrived 1 fmempty, ix_leaving = [[demo_frame 0]], ix_delivered = [] \<rparr>"
  define ix2 where "ix2 = \<lparr> ix_assemblers = arrived (Suc (Suc 0)) (arrived 1 fmempty), ix_leaving = [[demo_frame 1], [demo_frame 0]],
    ix_delivered = [] \<rparr>"
  define ix3 where "ix3 = \<lparr> ix_assemblers = arrived (Suc (Suc 0)) (arrived 1 fmempty), ix_leaving = [[demo_frame 0]],
    ix_delivered = [demo_frame 1] \<rparr>"
  define ix4 where "ix4 = \<lparr> ix_assemblers = arrived (Suc (Suc 0)) (arrived 1 fmempty), ix_leaving = [],
    ix_delivered = [demo_frame 1, demo_frame 0] \<rparr>"
  have "inbox_assembler (demo_frame 0) start = \<lparr> ta_next_sequence = 0, ta_max_reorder_window = 1024, ta_pending = fmempty \<rparr>"
    by (simp add: inbox_assembler_def start_def)
  from assembled[OF receive_next[OF demo_frame_ok demo_frame_sequence(1) _ this]] have "inbox_step demo_digests start ix1"
    by (simp add: start_def ix1_def arrived_def demo_frame_sequence u64_max_def)
  moreover have "inbox_assembler (demo_frame 1) ix1 = \<lparr> ta_next_sequence = 1, ta_max_reorder_window = 1024, ta_pending = fmempty \<rparr>"
    by (simp add: inbox_assembler_def ix1_def arrived_def demo_frame_sequence)
  from assembled[OF receive_next[OF demo_frame_ok demo_frame_sequence(1) _ this]] have "inbox_step demo_digests ix1 ix2"
    by (simp add: ix1_def ix2_def arrived_def demo_frame_sequence u64_max_def)
  moreover have "inbox_step demo_digests ix2 ix3"
    using delivered[of "[demo_frame 1]" ix2 demo_digests] by (simp add: ix2_def ix3_def receive_deliver_def)
  moreover have "inbox_step demo_digests ix3 ix4"
    using delivered[of "[demo_frame 0]" ix3 demo_digests] by (simp add: ix3_def ix4_def receive_deliver_def)
  ultimately have "(inbox_step demo_digests)\<^sup>*\<^sup>* start ix4" by (meson rtranclp.rtrancl_into_rtrancl rtranclp.rtrancl_refl)
  then show ?thesis unfolding start_def by (rule exI[of _ ix4, OF conjI]) (simp add: ix4_def)
qed

end
