(* ===== verification/Daemon.thy ===== *)
theory Daemon
  imports Resources Transport Inference "HOL-Library.Countable"
begin

text \<open>
  The running node: its counters and its control surface (\<open>hocmesh-node/src/control.rs\<close>), how it starts
  (\<open>Command::Daemon\<close> of \<open>main.rs\<close>), the heartbeat and the two kinds of worker (\<open>daemon.rs\<close>).  Replies of the coordinator,
  of seed peers and of the inference runtime are arguments; the clock is the argument \<open>now\<close>.  A poisoned lock, the
  printing and the logging are left out.
\<close>

unbundle bit_operations_syntax

section \<open>Definitions\<close>

subsection \<open>Counters\<close>

record daemon_metrics =
  dc_jobs_completed :: nat
  dc_jobs_failed :: nat
  dc_inferences_completed :: nat
  dc_mcu_earned :: int
  dc_last_contact_unix :: int
  dc_coordinator_reachable :: bool
  dc_link_error :: "string option"
  dc_work_error :: "string option"

definition metrics_new :: daemon_metrics where
  "metrics_new = \<lparr> dc_jobs_completed = 0, dc_jobs_failed = 0, dc_inferences_completed = 0, dc_mcu_earned = 0,
     dc_last_contact_unix = 0, dc_coordinator_reachable = False, dc_link_error = None, dc_work_error = None \<rparr>"

definition record_contact :: "int \<Rightarrow> daemon_metrics \<Rightarrow> daemon_metrics" where
  "record_contact now m = m\<lparr> dc_last_contact_unix := now, dc_coordinator_reachable := True, dc_link_error := None \<rparr>"

definition record_completion :: "int \<Rightarrow> int \<Rightarrow> daemon_metrics \<Rightarrow> daemon_metrics" where
  "record_completion now mcu m =
     record_contact now (m\<lparr> dc_jobs_completed := wrap_u64 (dc_jobs_completed m + 1),
                            dc_mcu_earned := wrap_i64 (dc_mcu_earned m + mcu) \<rparr>)"

definition record_failure :: "string \<Rightarrow> daemon_metrics \<Rightarrow> daemon_metrics" where
  "record_failure e m = m\<lparr> dc_jobs_failed := wrap_u64 (dc_jobs_failed m + 1), dc_work_error := Some e \<rparr>"

definition record_inference :: "int \<Rightarrow> daemon_metrics \<Rightarrow> daemon_metrics" where
  "record_inference now m = record_contact now (m\<lparr> dc_inferences_completed := wrap_u64 (dc_inferences_completed m + 1) \<rparr>)"

definition record_unreachable :: "string \<Rightarrow> daemon_metrics \<Rightarrow> daemon_metrics" where
  "record_unreachable e m = m\<lparr> dc_coordinator_reachable := False, dc_link_error := Some e \<rparr>"

definition metrics_last_error :: "daemon_metrics \<Rightarrow> string option" where
  "metrics_last_error m =
     (if \<not> dc_coordinator_reachable m \<and> dc_link_error m \<noteq> None then dc_link_error m else dc_work_error m)"

definition STALE_AFTER_SECS :: int where "STALE_AFTER_SECS = 60"

definition metrics_connected :: "int \<Rightarrow> int \<Rightarrow> daemon_metrics \<Rightarrow> bool" where
  "metrics_connected now started_unix m \<longleftrightarrow> dc_coordinator_reachable m \<and>
     wrap_i64 (now - max (dc_last_contact_unix m) started_unix) < STALE_AFTER_SECS"

definition note_exchange :: "int \<Rightarrow> string + 'a \<Rightarrow> daemon_metrics \<Rightarrow> daemon_metrics" where
  "note_exchange now outcome m = (case outcome of Inl e \<Rightarrow> record_unreachable e m | Inr _ \<Rightarrow> record_contact now m)"

subsection \<open>The daemon\<close>

record daemon =
  dm_limits_file :: "string option"
  dm_node_id :: string
  dm_coordinator :: string
  dm_version :: string
  dm_token :: string
  dm_arch :: string
  dm_started_unix :: int
  dm_workers :: nat
  dm_capabilities :: node_capabilities
  dm_detected :: node_capabilities
  dm_runtime_available :: bool
  dm_metrics :: daemon_metrics
  dm_uplink :: "nat list"
  dm_pool :: resource_pool
  dm_shutdown :: bool

text \<open>What the command line says and what the run is told.\<close>

record daemon_setup =
  du_machine :: machine
  du_model_seed_url :: "string option"
  du_cached_model_manifests :: "string list"
  du_probe_url :: "string option"
  du_runtime_available :: bool
  du_requested_workers :: "nat option"
  du_node_id :: string
  du_coordinator :: string
  du_version :: string
  du_token :: string

definition daemon_detected :: "daemon_setup \<Rightarrow> node_capabilities" where
  "daemon_detected u = (detect_capabilities_with_models (du_machine u) True (du_model_seed_url u) (du_cached_model_manifests u))
     \<lparr> cp_probe_endpoint := du_probe_url u \<rparr>"

definition daemon_start :: "(string \<Rightarrow> json option) \<Rightarrow> int \<Rightarrow> daemon_setup \<Rightarrow> string option \<Rightarrow> limits_error + daemon" where
  "daemon_start ps now u file =
     qbind (load_or_default ps file) (\<lambda>limits.
       let arch = mc_arch (du_machine u);
           detected = daemon_detected u;
           caps = advertised_capabilities arch detected limits (du_runtime_available u);
           workers = clamp_requested_workers limits (du_requested_workers u) (cp_logical_cpus caps)
       in Inr \<lparr> dm_limits_file = file, dm_node_id = du_node_id u, dm_coordinator = du_coordinator u, dm_version = du_version u,
                dm_token = du_token u, dm_arch = arch, dm_started_unix = now, dm_workers = max workers 1,
                dm_capabilities = caps, dm_detected = detected, dm_runtime_available = du_runtime_available u,
                dm_metrics = record_contact now metrics_new, dm_uplink = [],
                dm_pool = pool_new (lent_from_capabilities caps), dm_shutdown = False \<rparr>)"

text \<open>A tick of the heartbeat: what is sent, and the daemon before the reply; then the reply.\<close>

definition heartbeat_snapshot :: "daemon \<Rightarrow> daemon \<times> node_capabilities" where
  "heartbeat_snapshot d =
     (let measured = (case meter_kbps (dm_uplink d) of None \<Rightarrow> 0 | Some k \<Rightarrow> k);
          caps = (dm_capabilities d)\<lparr> cp_model_bandwidth_kbps := measured, cp_load_permille := pool_load_permille (dm_pool d) \<rparr>
      in (d\<lparr> dm_capabilities := caps \<rparr>, caps))"

definition heartbeat_reply :: "int \<Rightarrow> string + 'a \<Rightarrow> daemon \<Rightarrow> daemon" where
  "heartbeat_reply now outcome d = d\<lparr> dm_metrics := note_exchange now outcome (dm_metrics d) \<rparr>"

subsection \<open>The control surface\<close>

definition byte_of :: "char \<Rightarrow> 8 word" where
  "byte_of ch = of_nat (of_char ch)"

definition tokens_match :: "string \<Rightarrow> string \<Rightarrow> bool" where
  "tokens_match a b \<longleftrightarrow> length a = length b \<and>
     foldl (\<lambda>diff (x, y). diff OR (byte_of x XOR byte_of y)) 0 (zip a b) = 0"

definition strip_prefix :: "string \<Rightarrow> string \<Rightarrow> string option" where
  "strip_prefix p s = (if take (length p) s = p then Some (drop (length p) s) else None)"

definition presented_token :: "string option \<Rightarrow> string" where
  "presented_token header = (case header of None \<Rightarrow> [] | Some v \<Rightarrow> (case strip_prefix ''Bearer '' v of None \<Rightarrow> [] | Some t \<Rightarrow> t))"

record daemon_state =
  ds_node_id :: string
  ds_coordinator :: string
  ds_version :: string
  ds_started_unix :: int
  ds_uptime_secs :: int
  ds_workers :: nat
  ds_connected :: bool
  ds_jobs_completed :: nat
  ds_jobs_failed :: nat
  ds_inferences_completed :: nat
  ds_mcu_earned :: int
  ds_last_contact_unix :: int
  ds_last_error :: "string option"
  ds_ai_offered :: bool

definition state_handler :: "int \<Rightarrow> daemon \<Rightarrow> daemon_state" where
  "state_handler now d =
     \<lparr> ds_node_id = dm_node_id d, ds_coordinator = dm_coordinator d, ds_version = dm_version d,
       ds_started_unix = dm_started_unix d, ds_uptime_secs = max (wrap_i64 (now - dm_started_unix d)) 0,
       ds_workers = dm_workers d, ds_connected = metrics_connected now (dm_started_unix d) (dm_metrics d),
       ds_jobs_completed = dc_jobs_completed (dm_metrics d), ds_jobs_failed = dc_jobs_failed (dm_metrics d),
       ds_inferences_completed = dc_inferences_completed (dm_metrics d), ds_mcu_earned = dc_mcu_earned (dm_metrics d),
       ds_last_contact_unix = dc_last_contact_unix (dm_metrics d), ds_last_error = metrics_last_error (dm_metrics d),
       ds_ai_offered = cp_ai_runtime_ready (dm_capabilities d) \<rparr>"

record limits_update =
  lu_limits :: resource_limits
  lu_capabilities :: node_capabilities
  lu_restart_required :: bool

datatype control_error = Unauthorized | BadLimits limits_error | ControlInternal limits_error | BadControlBody

definition set_limits_handler ::
  "(json \<Rightarrow> string) \<Rightarrow> (string \<Rightarrow> json option) \<Rightarrow> limits_request \<Rightarrow> daemon \<Rightarrow> daemon \<times> (control_error + limits_update)" where
  "set_limits_handler pr ps q d =
     (case load_or_default ps (dm_limits_file d) of
        Inl e \<Rightarrow> (d, Inl (ControlInternal e))
      | Inr stored \<Rightarrow>
          let limits = request_apply_to q stored in
          (case limits_validate limits of
             Inl e \<Rightarrow> (d, Inl (BadLimits e))
           | Inr _ \<Rightarrow>
               (case limits_save pr limits of
                  Inl e \<Rightarrow> (d, Inl (ControlInternal e))
                | Inr file \<Rightarrow>
                    let caps = advertised_capabilities (dm_arch d) (dm_detected d) limits (dm_runtime_available d)
                    in (d\<lparr> dm_limits_file := file, dm_capabilities := caps \<rparr>,
                        Inr \<lparr> lu_limits = limits, lu_capabilities = caps,
                              lu_restart_required = (cp_shared_logical_cpus caps \<noteq> dm_workers d) \<rparr>))))"

datatype control_call = Health | GetState | GetCapabilities | GetLimits | PutLimits "(string \<times> json) list" | PostShutdown

datatype control_reply = HealthReply string | StateReply daemon_state | CapabilitiesReply node_capabilities
  | LimitsReply resource_limits | UpdateReply limits_update | ShutdownAccepted | ControlFailed control_error

definition control_handle ::
  "(json \<Rightarrow> string) \<Rightarrow> (string \<Rightarrow> json option) \<Rightarrow> int \<Rightarrow> control_call \<Rightarrow> daemon \<Rightarrow> daemon \<times> control_reply" where
  "control_handle pr ps now k d =
     (case k of
        Health \<Rightarrow> (d, HealthReply (dm_version d))
      | GetState \<Rightarrow> (d, StateReply (state_handler now d))
      | GetCapabilities \<Rightarrow> (d, CapabilitiesReply (dm_capabilities d))
      | GetLimits \<Rightarrow>
          (d, case load_or_default ps (dm_limits_file d) of
                Inl e \<Rightarrow> ControlFailed (ControlInternal e) | Inr l \<Rightarrow> LimitsReply l)
      | PutLimits kvs \<Rightarrow>
          (case limits_request_of_json kvs of
             Inl _ \<Rightarrow> (d, ControlFailed BadControlBody)
           | Inr q \<Rightarrow>
               (case set_limits_handler pr ps q d of
                  (d', Inl e) \<Rightarrow> (d', ControlFailed e) | (d', Inr u) \<Rightarrow> (d', UpdateReply u)))
      | PostShutdown \<Rightarrow> (d\<lparr> dm_shutdown := True \<rparr>, ShutdownAccepted))"

text \<open>The router: \<open>/health\<close> is open, the other routes are behind \<open>authorize\<close>.\<close>

definition control_serve ::
  "(json \<Rightarrow> string) \<Rightarrow> (string \<Rightarrow> json option) \<Rightarrow> int \<Rightarrow> string option \<Rightarrow> control_call \<Rightarrow> daemon \<Rightarrow> daemon \<times> control_reply" where
  "control_serve pr ps now header k d =
     (if k = Health \<or> tokens_match (presented_token header) (dm_token d) then control_handle pr ps now k d
      else (d, ControlFailed Unauthorized))"

subsection \<open>Contribution workers\<close>

text \<open>What a worker does after a poll: try again in two seconds, ask again after the idle delay, or claim what the work
  declares.\<close>

datatype worker_next = RetryLater | PollAgain | MustClaim resource_claim

definition worker_polled :: "int \<Rightarrow> string + work_spec option \<Rightarrow> daemon \<Rightarrow> daemon \<times> worker_next" where
  "worker_polled now outcome d =
     (d\<lparr> dm_metrics := note_exchange now outcome (dm_metrics d) \<rparr>,
      case outcome of
        Inl _ \<Rightarrow> RetryLater
      | Inr None \<Rightarrow> PollAgain
      | Inr (Some w) \<Rightarrow> MustClaim (claim_host 1 (declared_memory_bytes w)))"

definition worker_reported :: "int \<Rightarrow> string + int \<Rightarrow> daemon \<Rightarrow> daemon" where
  "worker_reported now outcome d =
     d\<lparr> dm_metrics := (case outcome of
          Inr reward_mcu \<Rightarrow> record_completion now reward_mcu (dm_metrics d) | Inl e \<Rightarrow> record_failure e (dm_metrics d)) \<rparr>"

subsection \<open>Inference\<close>

definition inference_threads :: "nat \<Rightarrow> nat \<Rightarrow> nat" where
  "inference_threads lent_cpus used = max (lent_cpus - (used - 1)) 1"

definition offloaded_bytes :: "nat \<Rightarrow> nat \<Rightarrow> nat option \<Rightarrow> nat" where
  "offloaded_bytes weights gpu_layers layers =
     (if gpu_layers = 0 then 0
      else case layers of
             None \<Rightarrow> 0
           | Some n \<Rightarrow> if n = 0 then 0 else if n \<le> gpu_layers then weights else wrap_u64 (weights * gpu_layers div n))"

text \<open>\<open>str::trim\<close>, on the metadata of a manifest.\<close>

function trim_start :: "string \<Rightarrow> string" where
  "trim_start s = (let n = ws_len (map of_char s) in if s = [] \<or> n = 0 then s else trim_start (drop n s))"
  by pat_completeness auto

termination trim_start
  by (relation "measure length") auto

declare trim_start.simps [simp del]

definition trim :: "string \<Rightarrow> string" where
  "trim s = (let t = trim_start s in
     case find (\<lambda>n. blank (drop n t)) [0..<Suc (length t)] of None \<Rightarrow> t | Some n \<Rightarrow> take n t)"

definition manifest_layer_count :: "model_manifest \<Rightarrow> nat option" where
  "manifest_layer_count m =
     (case map_of (mm_metadata m) ''layer_count'' of None \<Rightarrow> None | Some v \<Rightarrow> parse_u32 (trim v))"

definition inference_claim :: "nat \<Rightarrow> nat \<Rightarrow> nat option \<Rightarrow> resource_claim" where
  "inference_claim weights gpu_layers layers = with_device (offloaded_bytes weights gpu_layers layers) (claim_host 1 weights)"

text \<open>The model of an assignment is brought to the node: its chunks from the first peer that completes a transfer, then
  its manifest into the registry and its file beside the others.  \<open>nf_files\<close> is keyed by the digest of the manifest.\<close>

record node_files =
  nf_store :: chunk_store
  nf_registry :: "(string \<times> string, model_manifest) fmap"
  nf_files :: "(string, string) fmap"

datatype exec_error = ExecManifest manifest_error | BadPeerUrl string | NoSeedPeer | ExecStore chunk_error | NoDevice
  | DoesNotFit too_large | RuntimeFailed string

definition is_http_url :: "string \<Rightarrow> bool" where
  "is_http_url u \<longleftrightarrow> take 7 u = ''http://'' \<or> take 8 u = ''https://''"

fun trim_end_slash :: "string \<Rightarrow> string" where
  "trim_end_slash u = (if u \<noteq> [] \<and> last u = CHR ''/'' then trim_end_slash (butlast u) else u)"

definition http_source_new :: "(string \<Rightarrow> peer_source) \<Rightarrow> string \<Rightarrow> exec_error + peer_source" where
  "http_source_new dial url =
     (let u = trim_end_slash url in if is_http_url u then Inr (dial u) else Inl (BadPeerUrl url))"

fun seed_from_peers ::
  "crypto \<Rightarrow> (string \<Rightarrow> peer_source) \<Rightarrow> string \<Rightarrow> string \<Rightarrow> string list \<Rightarrow> chunk_store \<Rightarrow> chunk_store \<times> (exec_error + bool)" where
  "seed_from_peers c dial model_id revision [] st = (st, Inr False)"
| "seed_from_peers c dial model_id revision (p # ps) st =
     (case http_source_new dial p of
        Inl e \<Rightarrow> (st, Inl e)
      | Inr src \<Rightarrow>
          (case seed_from_peer c src model_id revision st of
             (st', Inr _) \<Rightarrow> (st', Inr True)
           | (st', Inl _) \<Rightarrow> seed_from_peers c dial model_id revision ps st'))"

definition fetch_chunks ::
  "crypto \<Rightarrow> (string \<Rightarrow> peer_source) \<Rightarrow> inference_assignment \<Rightarrow> chunk_store \<Rightarrow> chunk_store \<times> (exec_error + unit)" where
  "fetch_chunks c dial a st =
     (let m = ia_manifest a in
      if list_all (contains c st) (mm_chunks m) then (st, Inr ())
      else case seed_from_peers c dial (mm_model_id m) (mm_revision m) (ia_seed_peers a) st of
             (st', Inl e) \<Rightarrow> (st', Inl e)
           | (st', Inr got) \<Rightarrow> (st', if got then Inr () else Inl NoSeedPeer))"

definition prepare_model ::
  "crypto \<Rightarrow> (string \<Rightarrow> peer_source) \<Rightarrow> inference_assignment \<Rightarrow> node_files \<Rightarrow> node_files \<times> (exec_error + string)" where
  "prepare_model c dial a n =
     (let m = ia_manifest a in
      case manifest_digest c m of
        Inl e \<Rightarrow> (n, Inl (ExecManifest e))
      | Inr d \<Rightarrow>
          (case fetch_chunks c dial a (nf_store n) of
             (st, Inl e) \<Rightarrow> (n\<lparr> nf_store := st \<rparr>, Inl e)
           | (st, Inr _) \<Rightarrow>
               let n1 = n\<lparr> nf_store := st, nf_registry := fmupd (mm_model_id m, mm_revision m) m (nf_registry n) \<rparr> in
               (case fmlookup (nf_files n) d of
                  Some bytes \<Rightarrow> (n1, Inr bytes)
                | None \<Rightarrow>
                    (case materialize c st m of
                       Inl e \<Rightarrow> (n1, Inl (ExecStore e))
                     | Inr bytes \<Rightarrow> (n1\<lparr> nf_files := fmupd d bytes (nf_files n) \<rparr>, Inr bytes)))))"

text \<open>The prompts, one after the other; \<open>infer\<close> is the runtime, given the prompt, the seed and the threads.\<close>

fun run_prompts ::
  "crypto \<Rightarrow> (string \<Rightarrow> nat \<Rightarrow> nat \<Rightarrow> string + string \<times> nat) \<Rightarrow> nat \<Rightarrow> nat \<Rightarrow> (nat \<times> string) list \<Rightarrow> exec_error + prompt_output list" where
  "run_prompts c infer threads seed [] = Inr []"
| "run_prompts c infer threads seed ((i, prompt) # rest) =
     qbind (map_err RuntimeFailed (infer prompt (wrap_u64 (seed + i)) threads)) (\<lambda>(text, ms).
     qbind (run_prompts c infer threads seed rest) (\<lambda>os.
       Inr (\<lparr> po_prompt_index = i, po_text = text, po_output_sha256 = hash_bytes c text, po_duration_ms = ms \<rparr> # os)))"

text \<open>One assignment from its arrival to its outputs.  \<open>p\<close> is the pool when the claim finds room, which is the state the
  threads are sized from.\<close>

definition execute_inference_assignment ::
  "crypto \<Rightarrow> (string \<Rightarrow> peer_source) \<Rightarrow> device_capability list \<Rightarrow> string \<Rightarrow> nat \<Rightarrow> resource_pool \<Rightarrow>
   (string \<Rightarrow> string \<Rightarrow> nat \<Rightarrow> nat \<Rightarrow> nat \<Rightarrow> string + string \<times> nat) \<Rightarrow> inference_assignment \<Rightarrow> node_files \<Rightarrow>
   node_files \<times> (exec_error + prompt_output list)" where
  "execute_inference_assignment c dial discovered arch requested_layers p infer a n =
     (case prepare_model c dial a n of
        (n', Inl e) \<Rightarrow> (n', Inl e)
      | (n', Inr model) \<Rightarrow>
          (n', case resolve_device arch discovered (ia_device_id a) of
                 None \<Rightarrow> Inl NoDevice
               | Some dev \<Rightarrow>
                   let gpu_layers = gpu_layers_for dev requested_layers;
                       k = inference_claim (mm_total_size_bytes (ia_manifest a)) gpu_layers (manifest_layer_count (ia_manifest a))
                   in qbind (map_err DoesNotFit (refuse_impossible p k)) (\<lambda>_.
                      run_prompts c (\<lambda>prompt s t. infer model prompt gpu_layers s t)
                        (inference_threads (ln_logical_cpus (rp_lent p)) (hd_cpus (rp_held (pool_take p k))))
                        (ia_seed a) (ia_prompts a))))"

text \<open>One turn of the loop of the AI worker: what the poll answered, then what the execution and the report of the batch came
  to.  A batch that cannot be priced is skipped; one that fails is reported as failed, with its reason.\<close>

datatype ai_turn = AiPollFailed string | AiIdle | AiUnpriced | AiDelivered | AiReportFailed string | AiFailed string

definition ai_worker_turn ::
  "int \<Rightarrow> string + inference_assignment option \<Rightarrow> (inference_assignment \<Rightarrow> string + prompt_output list) \<Rightarrow>
   (nat \<times> nat \<times> int \<Rightarrow> prompt_output list \<Rightarrow> string + unit) \<Rightarrow> daemon \<Rightarrow> daemon \<times> ai_turn" where
  "ai_worker_turn now outcome execute report d =
     (let m = note_exchange now outcome (dm_metrics d); d = d\<lparr> dm_metrics := m \<rparr> in
      case outcome of
        Inl e \<Rightarrow> (d, AiPollFailed e)
      | Inr None \<Rightarrow> (d, AiIdle)
      | Inr (Some a) \<Rightarrow>
          (case assignment_claim a of
             None \<Rightarrow> (d, AiUnpriced)
           | Some priced \<Rightarrow>
               (case execute a of
                  Inl e \<Rightarrow> (d\<lparr> dm_metrics := record_failure e m \<rparr>, AiFailed e)
                | Inr outputs \<Rightarrow>
                    (case report priced outputs of
                       Inl e \<Rightarrow> (d\<lparr> dm_metrics := record_failure e m \<rparr>, AiReportFailed e)
                     | Inr _ \<Rightarrow> (d\<lparr> dm_metrics := record_inference now m \<rparr>, AiDelivered)))))"

subsection \<open>Positions\<close>

text \<open>One pass of measuring.  \<open>probe\<close> is the answer of a peer to this node's position and to what it last measured;
  \<open>measured\<close> is what was measured to each peer.\<close>

fun probe_each ::
  "(string \<Rightarrow> network_coordinate \<Rightarrow> nat option \<Rightarrow> string + network_coordinate option \<times> nat) \<Rightarrow> string \<Rightarrow> string list \<Rightarrow>
   vivaldi \<times> (string, nat) fmap \<times> nat \<Rightarrow> vivaldi \<times> (string, nat) fmap \<times> nat" where
  "probe_each probe self [] s = s"
| "probe_each probe self (p # ps) (v, measured, observed) =
     probe_each probe self ps
       (if p = self then (v, measured, observed)
        else case probe p (provisional_coordinate v) (fmlookup measured p) of
               Inl _ \<Rightarrow> (v, fmdrop p measured, observed)
             | Inr (answer, rtt) \<Rightarrow>
                 (case answer of
                    None \<Rightarrow> (v, fmupd p rtt measured, observed)
                  | Some remote \<Rightarrow>
                      (case observe remote rtt v of
                         (v', used) \<Rightarrow> (v', fmupd p rtt measured, if used then observed + 1 else observed))))"

definition proximity_round ::
  "(string \<Rightarrow> network_coordinate \<Rightarrow> nat option \<Rightarrow> string + network_coordinate option \<times> nat) \<Rightarrow> string + string list \<Rightarrow>
   vivaldi \<Rightarrow> (string, nat) fmap \<Rightarrow> proximity_state option \<Rightarrow> daemon \<Rightarrow>
   vivaldi \<times> (string, nat) fmap \<times> proximity_state option \<times> daemon" where
  "proximity_round probe peers' v measured stored d =
     (case peers' of
        Inl _ \<Rightarrow> (v, measured, stored, d)
      | Inr ids \<Rightarrow>
          (case probe_each probe (dm_node_id d) ids (v, measured, 0) of
             (v', measured', observed) \<Rightarrow>
               if observed = 0 then (v', measured', stored, d)
               else (v', measured', Some (to_state v'),
                     d\<lparr> dm_capabilities := (dm_capabilities d)\<lparr> cp_network_coordinate := coordinate v' \<rparr> \<rparr>)))"

subsection \<open>Workers and inference over one pool\<close>

record node_work =
  nw_pool :: resource_pool
  nw_shards :: "resource_claim list"
  nw_inference :: "(resource_claim \<times> nat option) option"

text \<open>Up to \<open>workers\<close> shards and one assignment run at once.  The assignment takes its lease in one critical section of the
  pool and reads what is in use in another.\<close>

inductive node_step :: "nat \<Rightarrow> node_work \<Rightarrow> node_work \<Rightarrow> bool" for workers where
  shard_begins: "length (nw_shards s) < workers \<Longrightarrow> k = claim_host 1 (declared_memory_bytes w) \<Longrightarrow>
     refuse_impossible (nw_pool s) k = Inr u \<Longrightarrow> claim_turn (nw_pool s) k = Some (p, l) \<Longrightarrow>
     node_step workers s (s\<lparr> nw_pool := p, nw_shards := l # nw_shards s \<rparr>)"
| shard_ends: "l \<in> set (nw_shards s) \<Longrightarrow>
     node_step workers s (s\<lparr> nw_pool := pool_release (nw_pool s) l, nw_shards := remove1 l (nw_shards s) \<rparr>)"
| inference_begins: "nw_inference s = None \<Longrightarrow> k = inference_claim weights gpu_layers layers \<Longrightarrow>
     refuse_impossible (nw_pool s) k = Inr u \<Longrightarrow> claim_turn (nw_pool s) k = Some (p, l) \<Longrightarrow>
     node_step workers s (s\<lparr> nw_pool := p, nw_inference := Some (l, None) \<rparr>)"
| inference_sized: "nw_inference s = Some (l, None) \<Longrightarrow>
     node_step workers s (s\<lparr> nw_inference := Some (l, Some (inference_threads (ln_logical_cpus (rp_lent (nw_pool s)))
       (hd_cpus (rp_held (nw_pool s))))) \<rparr>)"
| inference_ends: "nw_inference s = Some (l, t) \<Longrightarrow>
     node_step workers s (s\<lparr> nw_pool := pool_release (nw_pool s) l, nw_inference := None \<rparr>)"

definition cores_in_use :: "node_work \<Rightarrow> nat" where
  "cores_in_use s = length (nw_shards s) + (case nw_inference s of Some (_, Some t) \<Rightarrow> t | _ \<Rightarrow> 0)"

definition node_idle :: "lent \<Rightarrow> node_work" where
  "node_idle l = \<lparr> nw_pool = pool_new l, nw_shards = [], nw_inference = None \<rparr>"

section \<open>The control surface\<close>

lemma byte_of_inj: "byte_of x = byte_of y \<longleftrightarrow> x = y"
proof -
  have u: "unat (byte_of z) = (of_char z :: nat)" for z
    unfolding byte_of_def unat_of_nat by (rule mod_less) (simp add: nat_of_char_less_256)
  have "x = y" if "byte_of x = byte_of y"
  proof (rule of_char_eqI)
    show "(of_char x :: nat) = of_char y" unfolding u[symmetric] that ..
  qed
  then show ?thesis by blast
qed

lemma no_difference: "v OR (byte_of x XOR byte_of y) = 0 \<longleftrightarrow> v = 0 \<and> x = y"
proof -
  have "w = z" if "w XOR z = 0" for w z :: "8 word"
  proof -
    have "w = (w XOR z) XOR z" by (simp add: xor.assoc)
    then show ?thesis by (simp add: that)
  qed
  then have "w XOR z = 0 \<longleftrightarrow> w = z" for w z :: "8 word" by (metis xor_self_eq)
  then show ?thesis by (simp only: or_eq_0_iff byte_of_inj)
qed

lemma fold_difference:
  "length a = length b \<Longrightarrow> foldl (\<lambda>diff (x, y). diff OR (byte_of x XOR byte_of y)) v (zip a b) = 0 \<longleftrightarrow> v = 0 \<and> a = b"
proof (induction a b arbitrary: v rule: list_induct2)
  case (Cons x xs y ys)
  show ?case by (simp only: zip_Cons_Cons foldl_Cons case_prod_conv Cons.IH no_difference list.inject conj_assoc)
qed simp

text \<open>The comparison that takes the same time for every input is equality.\<close>

lemma tokens_match_iff: "tokens_match a b \<longleftrightarrow> a = b"
  by (auto simp: tokens_match_def fold_difference)

text \<open>What the daemon does to its own state: calls of the control surface, heartbeats, polls and reports of its workers,
  transfers its uplink measures, positions it fits, and claims and releases of its pool.\<close>

inductive daemon_step :: "(json \<Rightarrow> string) \<Rightarrow> (string \<Rightarrow> json option) \<Rightarrow> daemon \<Rightarrow> daemon \<Rightarrow> bool" for pr ps where
  called: "control_serve pr ps now header k d = (d', r) \<Longrightarrow> daemon_step pr ps d d'"
| beaten: "heartbeat_snapshot d = (d', caps) \<Longrightarrow> daemon_step pr ps d d'"
| answered: "daemon_step pr ps d (heartbeat_reply now (outcome :: string + unit) d)"
| polled: "worker_polled now work d = (d', what) \<Longrightarrow> daemon_step pr ps d d'"
| reported: "daemon_step pr ps d (worker_reported now reward d)"
| measured: "daemon_step pr ps d (d\<lparr> dm_uplink := record_transfer bytes elapsed (dm_uplink d) \<rparr>)"
| placed: "proximity_round probe ids v known stored d = (v', known', stored', d') \<Longrightarrow> daemon_step pr ps d d'"
| inferred: "ai_worker_turn now batch execute report d = (d', turn) \<Longrightarrow> daemon_step pr ps d d'"
| claimed: "try_claim (dm_pool d) k = Inr (p, l) \<Longrightarrow> daemon_step pr ps d (d\<lparr> dm_pool := p \<rparr>)"
| released: "daemon_step pr ps d (d\<lparr> dm_pool := pool_release (dm_pool d) k \<rparr>)"

text \<open>The figures a running node measures, which a node that has just started has none of.\<close>

definition unmeasured :: "node_capabilities \<Rightarrow> node_capabilities" where
  "unmeasured caps = caps\<lparr> cp_model_bandwidth_kbps := 0, cp_load_permille := 0, cp_network_coordinate := None \<rparr>"

definition in_force :: "(string \<Rightarrow> json option) \<Rightarrow> daemon_setup \<Rightarrow> daemon \<Rightarrow> bool" where
  "in_force ps u d \<longleftrightarrow> dm_detected d = daemon_detected u \<and> dm_arch d = mc_arch (du_machine u) \<and>
     dm_runtime_available d = du_runtime_available u \<and>
     (\<exists>l. load_or_default ps (dm_limits_file d) = Inr l \<and>
       unmeasured (dm_capabilities d) = advertised_capabilities (dm_arch d) (dm_detected d) l (dm_runtime_available d))"

lemma advertised_measures:
  "cp_model_bandwidth_kbps (advertised_capabilities arch caps l r) = cp_model_bandwidth_kbps caps"
  "cp_load_permille (advertised_capabilities arch caps l r) = cp_load_permille caps"
  "cp_network_coordinate (advertised_capabilities arch caps l r) = cp_network_coordinate caps"
  "cp_logical_cpus (advertised_capabilities arch caps l r) = cp_logical_cpus caps"
  "cp_shared_logical_cpus (advertised_capabilities arch caps l r) = effective_workers l (cp_logical_cpus caps)"
  "cp_shared_memory_bytes (advertised_capabilities arch caps l r) = limits_shared_memory_bytes l (cp_total_memory_bytes caps)"
  by (simp_all add: advertised_capabilities_def apply_ai_readiness_def apply_limits_def Let_def)

lemma detected_measures:
  "cp_model_bandwidth_kbps (daemon_detected u) = 0" "cp_load_permille (daemon_detected u) = 0"
  "cp_network_coordinate (daemon_detected u) = None"
  by (simp_all add: daemon_detected_def detect_capabilities_with_models_def apply_limits_def Let_def)

lemma advertised_unmeasured:
  "unmeasured (advertised_capabilities arch (daemon_detected u) l r) = advertised_capabilities arch (daemon_detected u) l r"
  using advertised_measures(1-3)[of arch "daemon_detected u" l r]
  by (simp add: unmeasured_def detected_measures node_capabilities.equality)

lemma in_force_start: "daemon_start ps now u file = Inr d \<Longrightarrow> in_force ps u d"
  by (auto simp: daemon_start_def in_force_def qbind_def Let_def advertised_unmeasured split: sum.splits)

lemma in_force_frame:
  assumes "in_force ps u d" "dm_detected d' = dm_detected d" "dm_arch d' = dm_arch d"
    "dm_runtime_available d' = dm_runtime_available d" "dm_limits_file d' = dm_limits_file d"
    "unmeasured (dm_capabilities d') = unmeasured (dm_capabilities d)"
  shows "in_force ps u d'"
  using assms(1) unfolding in_force_def assms(2-6) .

lemma set_limits_ok:
  assumes "set_limits_handler pr ps q d = (d', Inr r)"
  shows "\<exists>l saved. load_or_default ps (dm_limits_file d) = Inr l \<and> limits_save pr (request_apply_to q l) = Inr saved \<and>
    lu_limits r = request_apply_to q l \<and> lu_capabilities r = dm_capabilities d' \<and>
    lu_restart_required r = (cp_shared_logical_cpus (dm_capabilities d') \<noteq> dm_workers d) \<and>
    d' = d\<lparr> dm_limits_file := saved, dm_capabilities :=
      advertised_capabilities (dm_arch d) (dm_detected d) (request_apply_to q l) (dm_runtime_available d) \<rparr>"
  using assms by (auto simp: set_limits_handler_def Let_def simp del: limits_validate_ok split: sum.splits)

lemma set_limits_effect:
  assumes "set_limits_handler pr ps q d = (d', Inr r)" "load_or_default ps (dm_limits_file d) = Inr l"
  shows "lu_limits r = request_apply_to q l"
    "lu_restart_required r = (cp_shared_logical_cpus (dm_capabilities d') \<noteq> dm_workers d)"
    "dm_capabilities d' = advertised_capabilities (dm_arch d) (dm_detected d) (request_apply_to q l) (dm_runtime_available d)"
    "dm_pool d' = dm_pool d"
  using set_limits_ok[OF assms(1)] assms(2) by auto

lemma set_limits_refused: "set_limits_handler pr ps q d = (d', Inl e) \<Longrightarrow> d' = d"
  by (auto simp: set_limits_handler_def Let_def simp del: limits_validate_ok split: sum.splits)

lemma in_force_set_limits:
  assumes "\<And>j. ps (pr j) = Some j" "in_force ps u d" "set_limits_handler pr ps q d = (d', r)"
  shows "in_force ps u d'"
proof (cases r)
  case (Inl e)
  then show ?thesis using assms(2,3) set_limits_refused[of pr ps q d d' e] by simp
next
  case (Inr upd)
  then obtain l saved where l: "limits_save pr (request_apply_to q l) = Inr saved" "d' = d\<lparr> dm_limits_file := saved, dm_capabilities :=
      advertised_capabilities (dm_arch d) (dm_detected d) (request_apply_to q l) (dm_runtime_available d) \<rparr>"
    using set_limits_ok[of pr ps q d d' upd] assms(3) by blast
  then show ?thesis using assms(2) limits_saved_are_loaded(1)[OF assms(1) l(1)]
    by (auto simp: in_force_def advertised_unmeasured)
qed

lemma control_serve_effect:
  assumes "control_serve pr ps now header k d = (d', r)"
  shows "d' = d \<or> d' = d\<lparr> dm_shutdown := True \<rparr> \<or> (\<exists>q x. set_limits_handler pr ps q d = (d', x))"
proof (cases "k = Health \<or> tokens_match (presented_token header) (dm_token d)")
  case True
  then have "control_handle pr ps now k d = (d', r)" using assms by (simp add: control_serve_def)
  then show ?thesis by (cases k) (auto simp: control_handle_def split: sum.splits prod.splits)
next
  case False
  then show ?thesis using assms by (simp add: control_serve_def)
qed

lemma proximity_round_frame:
  assumes "proximity_round probe ids v known stored d = (v', known', stored', d')"
  shows "d' = d \<or> (\<exists>x. d' = d\<lparr> dm_capabilities := (dm_capabilities d)\<lparr> cp_network_coordinate := x \<rparr> \<rparr>)"
  using assms by (cases ids) (auto simp: proximity_round_def split: prod.splits if_splits)

lemma ai_worker_turn_frame:
  assumes "ai_worker_turn now batch execute report d = (d', turn)"
  shows "\<exists>m. d' = d\<lparr> dm_metrics := m \<rparr>"
proof -
  have metrics: "\<exists>m. x\<lparr> dm_metrics := y \<rparr> = x\<lparr> dm_metrics := m \<rparr>" for x :: daemon and y by blast
  show ?thesis using assms
    by (auto simp: ai_worker_turn_def Let_def intro: metrics split: sum.splits option.splits)
qed

lemma in_force_step:
  assumes "\<And>j. ps (pr j) = Some j" "daemon_step pr ps d d'" "in_force ps u d"
  shows "in_force ps u d'"
  using assms(2,3)
proof cases
  case (called now header k r)
  then consider "d' = d" | "d' = d\<lparr> dm_shutdown := True \<rparr>" | q x where "set_limits_handler pr ps q d = (d', x)"
    using control_serve_effect by blast
  then show ?thesis
  proof cases
    case 3
    then show ?thesis by (rule in_force_set_limits[OF assms(1,3)])
  qed (use assms(3) in \<open>auto simp: in_force_def\<close>)
next
  case (placed probe ids v known stored v' known' stored')
  then show ?thesis using proximity_round_frame[OF placed]
    by (auto intro!: in_force_frame[OF assms(3)] simp: unmeasured_def)
next
  case (inferred now batch execute report turn)
  then show ?thesis using ai_worker_turn_frame[OF inferred] by (auto intro!: in_force_frame[OF assms(3)])
qed (auto intro!: in_force_frame[OF assms(3)]
    simp: heartbeat_snapshot_def heartbeat_reply_def worker_polled_def worker_reported_def unmeasured_def Let_def)

lemma in_force_run:
  assumes "\<And>j. ps (pr j) = Some j" "(daemon_step pr ps)\<^sup>*\<^sup>* d d'" "in_force ps u d"
  shows "in_force ps u d'"
  using assms(2) by (induction rule: rtranclp_induct) (use assms(3) in_force_step[OF assms(1)] in blast)+

text \<open>The pool keeps the budgets it was built with.\<close>

lemma control_serve_pool: "control_serve pr ps now header k d = (d', r) \<Longrightarrow> dm_pool d' = dm_pool d"
proof -
  assume "control_serve pr ps now header k d = (d', r)"
  then consider "d' = d" | "d' = d\<lparr> dm_shutdown := True \<rparr>" | q x where "set_limits_handler pr ps q d = (d', x)"
    using control_serve_effect by blast
  then show ?thesis
  proof cases
    case (3 q x)
    show ?thesis
    proof (cases x)
      case (Inl e)
      then show ?thesis using 3 set_limits_refused[of pr ps q d d' e] by simp
    next
      case (Inr upd)
      then show ?thesis using set_limits_ok[of pr ps q d d' upd] 3 by auto
    qed
  qed simp_all
qed

lemma try_claim_lent: "try_claim p k = Inr (p', l) \<Longrightarrow> rp_lent p' = rp_lent p"
  by (auto simp: try_claim_def qbind_def split: sum.splits if_splits)

lemma pool_lent_step: "daemon_step pr ps d d' \<Longrightarrow> rp_lent (dm_pool d') = rp_lent (dm_pool d)"
proof (induction rule: daemon_step.induct)
  case (called now header k d d' r)
  then show ?case by (simp add: control_serve_pool)
next
  case (claimed d k p l)
  then show ?case by (simp add: try_claim_lent)
next
  case (placed probe ids v known stored d v' known' stored' d')
  then show ?case using proximity_round_frame[OF placed] by auto
next
  case (inferred now batch execute report d d' turn)
  then show ?case using ai_worker_turn_frame[OF inferred] by auto
qed (auto simp: heartbeat_snapshot_def heartbeat_reply_def worker_polled_def worker_reported_def Let_def)

lemma pool_lent_run: "(daemon_step pr ps)\<^sup>*\<^sup>* d d' \<Longrightarrow> rp_lent (dm_pool d') = rp_lent (dm_pool d)"
  by (induction rule: rtranclp_induct) (simp_all add: pool_lent_step)

lemma daemon_start_ok:
  assumes "daemon_start ps now u saved = Inr d"
  shows "\<exists>l. load_or_default ps saved = Inr l \<and> dm_limits_file d = saved \<and> dm_arch d = mc_arch (du_machine u) \<and>
    dm_detected d = daemon_detected u \<and> dm_runtime_available d = du_runtime_available u \<and>
    dm_capabilities d = advertised_capabilities (mc_arch (du_machine u)) (daemon_detected u) l (du_runtime_available u) \<and>
    dm_workers d = max (clamp_requested_workers l (du_requested_workers u) (cp_logical_cpus (daemon_detected u))) 1 \<and>
    dm_pool d = pool_new (lent_from_capabilities (dm_capabilities d))"
  using assms by (auto simp: daemon_start_def qbind_def Let_def advertised_measures split: sum.splits)

lemma daemon_starts:
  "load_or_default ps saved = Inr l \<Longrightarrow> \<exists>d. daemon_start ps now u saved = Inr d \<and>
     dm_capabilities d = advertised_capabilities (mc_arch (du_machine u)) (daemon_detected u) l (du_runtime_available u)"
  by (simp add: daemon_start_def qbind_def Let_def)

section \<open>Positions\<close>

text \<open>Whatever peers answer, a pass of measuring leaves a position that can be saved, and only a plausible one is
  advertised.\<close>

definition axes_three :: "string + network_coordinate option \<times> nat \<Rightarrow> bool" where
  "axes_three r \<longleftrightarrow> (\<forall>remote rtt. r = Inr (Some remote, rtt) \<longrightarrow> length (nc_vector_micros remote) = COORDINATE_DIMENSIONS)"

lemma probe_each_positioned:
  "(\<And>p v m. axes_three (probe p v m)) \<Longrightarrow> positioned v \<Longrightarrow> positioned (fst (probe_each probe self ids (v, measured, k)))"
proof (induction ids arbitrary: v measured k)
  case (Cons p ids)
  have ok: "positioned (fst (observe remote rtt v))" if "probe p (provisional_coordinate v) (fmlookup measured p) = Inr (Some remote, rtt)" for remote rtt
    using Cons.prems(1)[of p "provisional_coordinate v" "fmlookup measured p"] that
    by (intro positioned_observe Cons.prems(2)) (simp add: axes_three_def)
  show ?case
    using Cons.IH[OF Cons.prems(1)] Cons.prems(2) ok by (auto split: sum.split prod.split option.split)
qed simp

lemma round_advertises_plausible:
  assumes "\<And>p v m. axes_three (probe p v m)" "positioned v" "proximity_round probe ids v measured stored d = (v', measured', stored', d')"
    "\<forall>x. cp_network_coordinate (dm_capabilities d) = Some x \<longrightarrow> is_plausible x"
  shows "positioned v' \<and> (\<forall>x. cp_network_coordinate (dm_capabilities d') = Some x \<longrightarrow> is_plausible x)"
proof (cases ids)
  case (Inl e)
  then show ?thesis using assms(2-4) by (simp add: proximity_round_def)
next
  case (Inr ps)
  obtain w m k where run: "probe_each probe (dm_node_id d) ps (v, measured, 0) = (w, m, k)" by (metis prod_cases3)
  have "positioned w" using probe_each_positioned[where probe = probe and self = "dm_node_id d" and ids = ps and measured = measured and k = 0,
      OF assms(1,2)] run by simp
  then show ?thesis using assms(3,4) run Inr
    by (auto simp: proximity_round_def coordinate_def provisional_plausible split: if_splits)
qed

section \<open>Inference over the pool\<close>

lemma offloaded_bytes_le: "offloaded_bytes weights gpu_layers layers \<le> weights"
proof -
  have "wrap_u64 (weights * gpu_layers div n) \<le> weights" if "\<not> n \<le> gpu_layers" for n
  proof -
    have "weights * gpu_layers div n \<le> weights * n div n" using that by (intro div_le_mono) simp
    then have "weights * gpu_layers div n \<le> weights" using that by simp
    then show ?thesis unfolding wrap_u64_def by (meson mod_less_eq_dividend order_trans)
  qed
  then show ?thesis by (simp add: offloaded_bytes_def split: option.split)
qed

text \<open>At the moment the threads are sized, they and the other leases add up to what was lent.\<close>

lemma threads_fill_the_share: "1 \<le> used \<Longrightarrow> used \<le> lent_cpus \<Longrightarrow> inference_threads lent_cpus used + (used - 1) = lent_cpus"
  by (simp add: inference_threads_def)

definition shard_claim :: resource_claim where
  "shard_claim = claim_host 1 (declared_memory_bytes (PrimeCount 0 1))"

definition roomy :: "nat \<Rightarrow> lent" where
  "roomy n = \<lparr> ln_logical_cpus = n, ln_memory_bytes = n * (64 * 1024), ln_device_memory_bytes = 0 \<rparr>"

definition busy :: "nat \<Rightarrow> nat \<Rightarrow> (resource_claim \<times> nat option) option \<Rightarrow> nat \<Rightarrow> node_work" where
  "busy n held ai k = \<lparr> nw_pool = \<lparr> rp_lent = roomy n, rp_held = \<lparr> hd_cpus = held, hd_memory = held * (64 * 1024), hd_device_memory = 0 \<rparr> \<rparr>,
     nw_shards = replicate k shard_claim, nw_inference = ai \<rparr>"

lemma busy_room:
  assumes "held < n" "n < 2 ^ 40"
  shows "refuse_impossible (nw_pool (busy n held ai k)) shard_claim = Inr ()"
    "claim_turn (nw_pool (busy n held ai k)) shard_claim = Some (nw_pool (busy n (Suc held) ai k), shard_claim)"
proof -
  have "Suc held * (64 * 1024) \<le> n * (64 * 1024)" "n * (64 * 1024) < 2 ^ 64" using assms by simp_all
  then show "refuse_impossible (nw_pool (busy n held ai k)) shard_claim = Inr ()"
    "claim_turn (nw_pool (busy n held ai k)) shard_claim = Some (nw_pool (busy n (Suc held) ai k), shard_claim)"
    using assms by (auto simp: busy_def roomy_def shard_claim_def claim_host_def refuse_impossible_def claim_turn_def pool_fits_def
        pool_take_def wrap_u64_def Let_def)
qed

lemma shards_join:
  assumes "n < 2 ^ 40" "j + held \<le> n" "j + k \<le> workers"
  shows "(node_step workers)\<^sup>*\<^sup>* (busy n held ai k) (busy n (j + held) ai (j + k))"
  using assms(2,3)
proof (induction j)
  case (Suc j)
  have room: "j + held < n" "j + k < workers" using Suc.prems by simp_all
  have "node_step workers (busy n (j + held) ai (j + k)) (busy n (Suc (j + held)) ai (Suc (j + k)))"
    using shard_begins[where s = "busy n (j + held) ai (j + k)" and workers = workers and w = "PrimeCount 0 1",
        OF _ shard_claim_def busy_room[OF room(1) assms(1)]] room(2)
    by (simp add: busy_def)
  then show ?case using Suc by (simp add: rtranclp.rtrancl_into_rtrancl)
qed simp

lemma begins_sized:
  assumes "0 < n" "n < 2 ^ 40"
  shows "(node_step workers)\<^sup>*\<^sup>* (node_idle (roomy n)) (busy n 1 (Some (shard_claim, Some n)) 0)"
proof -
  have idle: "node_idle (roomy n) = busy n 0 None 0" by (simp add: node_idle_def busy_def pool_new_def)
  have same: "shard_claim = inference_claim (64 * 1024) 0 None"
    by (simp add: shard_claim_def inference_claim_def offloaded_bytes_def with_device_def claim_host_def)
  have "node_step workers (busy n 0 None 0) (busy n 1 (Some (shard_claim, None)) 0)"
    using inference_begins[where s = "busy n 0 None 0" and workers = workers, OF _ same busy_room[OF assms]]
    by (simp add: busy_def)
  moreover have "node_step workers (busy n 1 (Some (shard_claim, None)) 0) (busy n 1 (Some (shard_claim, Some n)) 0)"
    using inference_sized[of "busy n 1 (Some (shard_claim, None)) 0" shard_claim workers] assms(1)
    by (simp add: busy_def inference_threads_def roomy_def)
  ultimately show ?thesis unfolding idle by (meson rtranclp.rtrancl_into_rtrancl rtranclp.rtrancl_refl)
qed

section \<open>Bringing a model to the node\<close>

lemma seed_chunks_there: "list_all (contains c st) chs \<Longrightarrow> seed_chunks c src chs st = (st, Inr ())"
  by (induction chs) simp_all

lemma unreachable_skipped:
  assumes "\<forall>p\<in>set bad. is_http_url (trim_end_slash p) \<and> \<not> is_ok (sr_manifest (dial (trim_end_slash p)) model_id revision)"
  shows "seed_from_peers c dial model_id revision (bad @ others) st = seed_from_peers c dial model_id revision others st"
  using assms
  by (induction bad) (auto simp: http_source_new_def Let_def seed_from_peer_def is_ok_def simp del: trim_end_slash.simps split: sum.splits)

lemma fetched_from_honest_peer:
  assumes "ia_seed_peers a = bad @ good # rest" "is_http_url (trim_end_slash good)"
    "\<forall>p\<in>set bad. is_http_url (trim_end_slash p) \<and>
      \<not> is_ok (sr_manifest (dial (trim_end_slash p)) (mm_model_id (ia_manifest a)) (mm_revision (ia_manifest a)))"
    "dial (trim_end_slash good) = http_peer_source c (served_manifest sv) (served_chunk c elapsed sv)"
    "serve_manifest sv (mm_model_id (ia_manifest a)) (mm_revision (ia_manifest a)) = Some (ia_manifest a)"
    "materialize c (sv_store sv) (ia_manifest a) = Inr data" "intact c st"
    "inj_on (hash_bytes c) (fmran' st \<union> fmran' (sv_store sv))"
  shows "\<exists>st'. fetch_chunks c dial a st = (st', Inr ()) \<and> grown st st' \<and> materialize c st' (ia_manifest a) = Inr data"
proof -
  let ?m = "ia_manifest a" and ?src = "http_peer_source c (served_manifest sv) (served_chunk c elapsed sv)"
  obtain st' where st': "seed_from_peer c ?src (mm_model_id ?m) (mm_revision ?m) st = (st', Inr ?m)" "grown st st'"
    "materialize c st' ?m = Inr data"
    using seeded_copy[OF assms(5-8), of elapsed] by blast
  show ?thesis
  proof (cases "list_all (contains c st) (mm_chunks ?m)")
    case True
    have "sr_manifest ?src (mm_model_id ?m) (mm_revision ?m) = Inr ?m"
      using assms(5,6) by (simp add: http_peer_source_def served_manifest_def map_err_def qbind_def materialize_pieces)
    then have "st' = st" using st'(1) seed_chunks_there[OF True] by (simp add: seed_from_peer_def)
    then show ?thesis using True st' by (simp add: fetch_chunks_def Let_def)
  next
    case False
    have "seed_from_peers c dial (mm_model_id ?m) (mm_revision ?m) (ia_seed_peers a) st = (st', Inr True)"
      unfolding assms(1) unreachable_skipped[where others = "good # rest", OF assms(3)]
      using assms(2,4) st'(1) by (simp add: http_source_new_def Let_def del: trim_end_slash.simps)
    then show ?thesis using False st' by (simp add: fetch_chunks_def Let_def)
  qed
qed

text \<open>A peer whose address is not an HTTP one ends the search, whoever else could serve the model.\<close>

lemma bad_url_ends_the_search:
  assumes "manifest_validate (ia_manifest a) = Inr ()" "\<not> list_all (contains c (nf_store n)) (mm_chunks (ia_manifest a))"
    "ia_seed_peers a = p # ps" "\<not> is_http_url (trim_end_slash p)"
  shows "snd (prepare_model c dial a n) = Inl (BadPeerUrl p)"
  using assms by (simp add: prepare_model_def manifest_digest_def qbind_def fetch_chunks_def http_source_new_def Let_def
      del: trim_end_slash.simps)

text \<open>A peer that completes the transfer of another manifest ends it too.\<close>

lemma other_manifest_ends_the_search:
  assumes "manifest_digest c (ia_manifest a) = Inr d" "fmlookup (nf_files n) d = None" "ia_seed_peers a = p # ps"
    "is_http_url (trim_end_slash p)" "ch \<in> set (mm_chunks (ia_manifest a))" "\<not> contains c (nf_store n) ch"
    "seed_from_peer c (dial (trim_end_slash p)) (mm_model_id (ia_manifest a)) (mm_revision (ia_manifest a)) (nf_store n) = (st, Inr m)"
    "\<not> contains c st ch"
  shows "\<exists>e. snd (prepare_model c dial a n) = Inl (ExecStore e)"
proof -
  have "\<not> list_all (contains c (nf_store n)) (mm_chunks (ia_manifest a))" using assms(5,6) by (auto simp: list_all_iff)
  then have "fetch_chunks c dial a (nf_store n) = (st, Inr ())"
    using assms(3,4,7) by (simp add: fetch_chunks_def http_source_new_def Let_def del: trim_end_slash.simps)
  moreover have "\<not> (\<exists>data. materialize c st (ia_manifest a) = Inr data)" using materialized_contains assms(5,8) by blast
  ultimately show ?thesis using assms(1,2)
    by (cases "materialize c st (ia_manifest a)") (auto simp: prepare_model_def Let_def)
qed

section \<open>Properties\<close>


instance json :: countable
  by countable_datatype

definition demo_print :: "json \<Rightarrow> string" where
  "demo_print j = show_nat (to_nat j)"

definition demo_parse :: "string \<Rightarrow> json option" where
  "demo_parse s = Some (from_nat (read_nat s))"

lemma demo_parse_print: "demo_parse (demo_print j) = Some j"
  by (simp add: demo_parse_def demo_print_def read_show_nat del: show_nat.simps)

definition demo_setup :: daemon_setup where
  "demo_setup = \<lparr> du_machine = \<lparr> mc_hostname = None, mc_os = ''linux'', mc_arch = ''x86_64'', mc_cpu_brand = None, mc_cpu_count = 8,
       mc_total_memory = 1000, mc_cpu_score = 1, mc_memory_bandwidth = None, mc_devices = [] \<rparr>,
     du_model_seed_url = None, du_cached_model_manifests = [], du_probe_url = None, du_runtime_available = False,
     du_requested_workers = None, du_node_id = ''n'', du_coordinator = ''c'', du_version = ''v'', du_token = ''t'' \<rparr>"

lemma set_limits_accepts:
  assumes "load_or_default ps (dm_limits_file d) = Inr l" "limits_validate (request_apply_to q l) = Inr ()"
  shows "\<exists>d' r. set_limits_handler pr ps q d = (d', Inr r)"
  using assms by (simp add: set_limits_handler_def limits_save_def qbind_def Let_def del: limits_validate_ok)


text \<open>A lower memory limit is saved and advertised, and not enforced.  Lowering only the memory of a running node leaves the
  worker count as it is, so the answer says no restart is needed; the pool still admits work up to the share it was
  started with.\<close>

theorem lowered_memory_is_still_lent:
  assumes "daemon_start ps now u saved = Inr d" "du_requested_workers u = None" "v \<in> {1..100}"
  shows "\<exists>d' r. set_limits_handler pr ps \<lparr> lq_cpu_percent = None, lq_gpu_percent = None, lq_memory_percent = Some v, lq_ai = None \<rparr> d =
      (d', Inr r) \<and> \<not> lu_restart_required r \<and> rl_memory_percent (lu_limits r) = v \<and>
      cp_shared_memory_bytes (dm_capabilities d') = wrap_u64 (cp_total_memory_bytes (daemon_detected u) div 100 * v) \<and>
      ln_memory_bytes (rp_lent (dm_pool d')) = cp_shared_memory_bytes (dm_capabilities d)"
proof -
  let ?q = "\<lparr> lq_cpu_percent = None, lq_gpu_percent = None, lq_memory_percent = Some v, lq_ai = None \<rparr>"
  obtain l where l: "load_or_default ps saved = Inr l" "dm_limits_file d = saved" "dm_detected d = daemon_detected u"
    "dm_workers d = max (clamp_requested_workers l None (cp_logical_cpus (daemon_detected u))) 1"
    "dm_pool d = pool_new (lent_from_capabilities (dm_capabilities d))"
    using daemon_start_ok[OF assms(1)] assms(2) by auto
  have same: "effective_workers (request_apply_to ?q l) = effective_workers l"
    by (simp add: effective_workers_def request_apply_to_def fun_eq_iff)
  have w: "dm_workers d = effective_workers l (cp_logical_cpus (daemon_detected u))"
    using effective_workers_bounds(1) by (simp add: l(4) clamp_requested_workers_def)
  have "limits_validate (request_apply_to ?q l) = Inr ()"
    using load_or_default_valid[OF l(1)] assms(3) by (simp add: request_apply_to_def)
  then obtain d' r where set: "set_limits_handler pr ps ?q d = (d', Inr r)"
    using set_limits_accepts[of ps d l ?q pr] l by auto
  note ok = set_limits_effect[OF set l(1)[folded l(2)]]
  have "\<not> lu_restart_required r" using ok l(3) by (simp add: advertised_measures same w)
  moreover have "cp_shared_memory_bytes (dm_capabilities d') = wrap_u64 (cp_total_memory_bytes (daemon_detected u) div 100 * v)"
    using ok(3) l(3) by (simp add: advertised_measures limits_shared_memory_bytes_def request_apply_to_def)
  moreover have "ln_memory_bytes (rp_lent (dm_pool d')) = cp_shared_memory_bytes (dm_capabilities d)"
    using ok(4) l(5) by (simp add: pool_new_def lent_from_capabilities_def Let_def)
  ultimately show ?thesis using set ok(1) by (auto simp: request_apply_to_def)
qed

text \<open>Nothing but the health of the surface is answered without the token of this run, and no such call changes the
  daemon.\<close>

theorem control_needs_the_token:
  assumes "presented_token header \<noteq> dm_token d" "k \<noteq> Health"
  shows "control_serve pr ps now header k d = (d, ControlFailed Unauthorized)"
  using assms by (simp add: control_serve_def tokens_match_iff)

text \<open>Once an operator has answered whether the node offers inference, no call of the control surface takes the answer
  back: the automatic setting a front end sends is read as a field left alone.\<close>

theorem answer_cannot_be_withdrawn:
  assumes "control_serve pr ps now header (PutLimits kvs) d = (d', UpdateReply r)"
    "load_or_default ps (dm_limits_file d) = Inr l" "rl_ai l \<noteq> None"
  shows "rl_ai (lu_limits r) \<noteq> None"
proof -
  obtain q where q: "limits_request_of_json kvs = Inr q" "set_limits_handler pr ps q d = (d', Inr r)"
    using assms(1) by (auto simp: control_serve_def control_handle_def split: if_splits sum.splits prod.splits)
  have "lq_ai q \<noteq> Some None" using q(1) by (rule auto_is_never_read)
  then show ?thesis using set_limits_effect(1)[OF q(2) assms(2)] assms(3)
    by (auto simp: request_apply_to_def split: option.splits)
qed

text \<open>A node that lends \<open>n\<close> cores can be made to run \<open>2n - 1\<close> threads.  The threads of an assignment are sized from what is in
  use when it starts; it holds a permit for one core, so the workers that start afterwards still find room for the
  others.\<close>

theorem inference_spends_the_share_twice:
  assumes "0 < n" "n < 2 ^ 40"
  shows "\<exists>s. (node_step n)\<^sup>*\<^sup>* (node_idle (roomy n)) s \<and> ln_logical_cpus (rp_lent (nw_pool s)) = n \<and> cores_in_use s = 2 * n - 1"
proof -
  have "(node_step n)\<^sup>*\<^sup>* (busy n 1 (Some (shard_claim, Some n)) 0) (busy n (n - 1 + 1) (Some (shard_claim, Some n)) (n - 1 + 0))"
    by (rule shards_join) (use assms in auto)
  then have "(node_step n)\<^sup>*\<^sup>* (node_idle (roomy n)) (busy n n (Some (shard_claim, Some n)) (n - 1))"
    using begins_sized[OF assms, of n] assms(1) by simp
  then show ?thesis using assms(1) by (intro exI conjI) (auto simp: busy_def roomy_def cores_in_use_def)
qed

text \<open>C38.  Peers that cannot be reached do not keep a model from the node.  When the peers before it do not answer, the first
  peer that serves the manifest of the assignment and can put its model together is enough: the chunks are fetched, what
  the store had is kept, the manifest is registered, and the file the runtime is given is the model byte for byte.\<close>

theorem unreachable_peers_are_skipped:
  assumes "ia_seed_peers a = bad @ good # rest" "is_http_url (trim_end_slash good)"
    "\<forall>p\<in>set bad. is_http_url (trim_end_slash p) \<and>
      \<not> is_ok (sr_manifest (dial (trim_end_slash p)) (mm_model_id (ia_manifest a)) (mm_revision (ia_manifest a)))"
    "dial (trim_end_slash good) = http_peer_source c (served_manifest sv) (served_chunk c elapsed sv)"
    "serve_manifest sv (mm_model_id (ia_manifest a)) (mm_revision (ia_manifest a)) = Some (ia_manifest a)"
    "materialize c (sv_store sv) (ia_manifest a) = Inr data" "intact c (nf_store n)"
    "inj_on (hash_bytes c) (fmran' (nf_store n) \<union> fmran' (sv_store sv))"
    "fmlookup (nf_files n) (hash_json c (model_manifest_json (ia_manifest a))) = None"
  shows "\<exists>n'. prepare_model c dial a n = (n', Inr data) \<and>
    fmlookup (nf_registry n') (mm_model_id (ia_manifest a), mm_revision (ia_manifest a)) = Some (ia_manifest a) \<and>
    fmlookup (nf_files n') (hash_json c (model_manifest_json (ia_manifest a))) = Some data \<and>
    (\<forall>h b. chunk_read c (nf_store n) h = Inr b \<longrightarrow> chunk_read c (nf_store n') h = Inr b)"
proof -
  obtain st where st: "fetch_chunks c dial a (nf_store n) = (st, Inr ())" "grown (nf_store n) st"
    "materialize c st (ia_manifest a) = Inr data"
    using fetched_from_honest_peer[OF assms(1-8)] by blast
  have "manifest_digest c (ia_manifest a) = Inr (hash_json c (model_manifest_json (ia_manifest a)))"
    using assms(6) by (simp add: manifest_digest_def qbind_def materialize_pieces)
  then show ?thesis using st assms(9) grown_read[OF st(2)] by (simp add: prepare_model_def Let_def)
qed

definition demo_dial :: "string \<Rightarrow> peer_source" where
  "demo_dial u = (if u = ''http://good'' then http_peer_source demo_digests (served_manifest demo_seed_server)
       (served_chunk demo_digests (\<lambda>_. 0) demo_seed_server)
     else \<lparr> sr_manifest = (\<lambda>_ _. Inl (SeedRequest ''down'')), sr_chunk = (\<lambda>_. Inl (SeedRequest ''down'')) \<rparr>)"

definition demo_assignment :: inference_assignment where
  "demo_assignment = \<lparr> ia_assignment_id = ''a'', ia_job_id = ''j'', ia_manifest = demo_seed_manifest,
     ia_seed_peers = [''http://gone/'', ''http://good''], ia_prompts = [(0, ''hi'')], ia_max_tokens = 1, ia_temperature_milli = 0,
     ia_seed = 0, ia_device_id = ''cpu-0'', ia_lease_seconds = 60 \<rparr>"

theorem unreachable_peers_are_skipped_witness:
  "\<exists>n'. prepare_model demo_digests demo_dial demo_assignment \<lparr> nf_store = fmempty, nf_registry = fmempty, nf_files = fmempty \<rparr> =
     (n', Inr ''abc'')"
proof -
  let ?n = "\<lparr> nf_store = fmempty, nf_registry = fmempty, nf_files = fmempty \<rparr> :: node_files"
  have "\<exists>n'. prepare_model demo_digests demo_dial demo_assignment ?n = (n', Inr ''abc'') \<and>
    fmlookup (nf_registry n') (mm_model_id (ia_manifest demo_assignment), mm_revision (ia_manifest demo_assignment)) =
      Some (ia_manifest demo_assignment) \<and>
    fmlookup (nf_files n') (hash_json demo_digests (model_manifest_json (ia_manifest demo_assignment))) = Some ''abc'' \<and>
    (\<forall>h b. chunk_read demo_digests (nf_store ?n) h = Inr b \<longrightarrow> chunk_read demo_digests (nf_store n') h = Inr b)"
  proof (rule unreachable_peers_are_skipped)
    show "ia_seed_peers demo_assignment = [''http://gone/''] @ ''http://good'' # []" by (simp add: demo_assignment_def)
    show "inj_on (hash_bytes demo_digests) (fmran' (nf_store ?n) \<union> fmran' (sv_store demo_seed_server))"
      using demo_seed_served(3) by simp
    show "materialize demo_digests (sv_store demo_seed_server) (ia_manifest demo_assignment) = Inr ''abc''"
      using demo_seed_served(2) by (simp add: demo_assignment_def)
    show "serve_manifest demo_seed_server (mm_model_id (ia_manifest demo_assignment)) (mm_revision (ia_manifest demo_assignment)) =
        Some (ia_manifest demo_assignment)"
      using demo_seed_served(1) by (simp add: demo_assignment_def demo_seed_manifest_def)
  qed (simp_all add: is_http_url_def demo_dial_def is_ok_def demo_import_ok(2))
  then show ?thesis by blast
qed

end
