(* ===== verification/Spec2Isabelle.thy ===== *)
theory Spec2Isabelle
  imports Agreement Settlement Client Verify Custody Delivery Daemon
begin

text \<open>
  A verification library for hocmesh, a mesh in which machines lend compute time against compute credit (CU).

  \<^bold>\<open>The program.\<close>  A \<^emph>\<open>node\<close> registers with a \<^emph>\<open>coordinator\<close>, polls it for shards of jobs, computes them and reports
  signed results; a requester submits a job and pays for its shards.  A coordinator splits jobs, leases shards, audits
  results and proposes every movement of CU to a set of \<^emph>\<open>validators\<close>, which recompute it from signed evidence and
  certify it in a hash-chained ledger by quorum.  Several coordinators may share one validator set (a federation), and a lost
  coordinator is rebuilt from the chain.  A requester may also submit prompts: a coordinator plans which machines answer which, the answers are
  delivered against a receipt and judged by the requester.  Models are files in GGUF format, published as chunks and cut into layer slices.

  \<^bold>\<open>Theories and sources\<close> (paths under \<open>src/crates\<close>).
  \<^item> \<open>Prelude\<close>: machine integers, results, printing, iterators and the lemmas the components share.
  \<^item> \<open>Protocol\<close>, \<open>Capabilities\<close> (\<open>hocmesh-protocol/src/lib.rs\<close>): signed requests, work specifications, what a node
    advertises, the documents that are hashed and signed.  SHA-256, Ed25519, base64 and serde are the fields of the record
    \<open>crypto\<close>; nothing is assumed of them but where a theorem says so.
  \<^item> \<open>Matrix\<close>, \<open>Compute\<close>, \<open>Verify\<close> (\<open>hocmesh-core/src/matrix.rs\<close>, \<open>compute.rs\<close>, \<open>verify.rs\<close>): the workloads, their
    splitting and prices, audit challenges, witnesses, Freivalds' check and adjudication.  The locale \<open>range_tiling\<close> is the
    contract of a splitter; it is interpreted on the shards of a job and on the buckets of a shard.
  \<^item> \<open>Ledger_Types\<close>, \<open>Book\<close>, \<open>Validate\<close>, \<open>Store\<close>, \<open>Escrow\<close> (\<open>hocmesh-ledger/src/types.rs\<close>, \<open>validate.rs\<close>, \<open>store.rs\<close>):
    transactions and their evidence, every validation rule on the live and on the historical path, the store as a record of its
    tables with apply, ballots, audit, rewind, checkpoints and snapshots.  The locale \<open>transfer_book\<close> is what a
    validation path owes the book; both paths interpret it.
  \<^item> \<open>Wire\<close>, \<open>Validator\<close> (\<open>hocmesh-validator/src/main.rs\<close>): the handlers of a validator as functions of its state,
    catching up and healing.
  \<^item> \<open>Network\<close>, \<open>Client\<close>, \<open>Settlement\<close> (\<open>hocmesh-ledger/src/network.rs\<close>): the client's quorums, ballots, attempts and
    rounds; what it may conclude; an attempt composed with the validators' handlers.
  \<^item> \<open>Consensus\<close>, \<open>Agreement\<close>: validators and proposers as a step relation over messages that may be lost, repeated and
    reordered.  The locales \<open>quorum_system\<close> and \<open>ballot_voting\<close> carry the voting argument and are interpreted on the runs.
  \<^item> \<open>Tables\<close>, \<open>Rebuild\<close>, \<open>Recovery\<close> (\<open>hocmesh-coordinator/src/db.rs\<close>, \<open>rebuild.rs\<close>): the coordinator's tables and
    their reconstruction from the chain.
  \<^item> \<open>Float64\<close>, \<open>Reputation\<close>, \<open>Schedule\<close> (\<open>hocmesh-core/src/reputation.rs\<close>, \<open>hocmesh-coordinator/src/schedule.rs\<close>):
    \<open>f64\<close> arithmetic with its rounding, the audit rate, the score of a shard for a node and the lease it is given.
  \<^item> \<open>Federation\<close> (\<open>hocmesh-coordinator/src/federation.rs\<close>): peers, probes, the live set and who owns a job.
  \<^item> \<open>Jobs\<close>, \<open>Dispatch\<close>, \<open>Polling\<close>, \<open>Custody\<close> (\<open>hocmesh-coordinator/src/api.rs\<close>, \<open>main.rs\<close>): the handlers of the job path,
    what they keep, and the interleavings in which they do not.  The locale \<open>custodian\<close> is the contract of a handler
    on the local balances; registering, polling, reporting, refunding and submitting interpret it.
  \<^item> \<open>Gguf\<close>, \<open>Model\<close> (\<open>hocmesh-model/src/gguf.rs\<close>, \<open>lib.rs\<close>): the reader of model headers, tensor extents and layer
    slices; manifests, the content-addressed store of chunks, and the file of a stage.
  \<^item> \<open>Proximity\<close>, \<open>Topology\<close> (\<open>hocmesh-core/src/proximity.rs\<close>, \<open>bandwidth.rs\<close>, \<open>roles.rs\<close>, the second half of
    \<open>schedule.rs\<close>): positions fitted to round trips, measured uplinks, what a machine may serve, and clusters of near machines.
  \<^item> \<open>Planning\<close> (\<open>hocmesh-ai/src/lib.rs\<close>): ranking devices, splitting layers and prompts, ordering a pipeline.
  \<^item> \<open>Inference\<close> (the AI endpoints of \<open>api.rs\<close>, the sweep of \<open>main.rs\<close>): publishing, planning, submitting, delivering, judging,
    reclaiming and handing on.
  \<^item> \<open>Delivery\<close>: any interleaving of those endpoints as a step relation over the tables; that what the coordinator proposes to the
    ledger for a batch is what the rules of \<open>Validate\<close> accept.
  \<^item> \<open>Transport\<close> (\<open>hocmesh-transport/src/lib.rs\<close>, \<open>proximity.rs\<close>): frames and their reassembly, the inbox with its two critical
    sections, the plan of a transfer, seeding over the store of \<open>Model\<close>, the seed server, and probes over the positions of \<open>Proximity\<close>.
  \<^item> \<open>Sharing\<close>, \<open>Resources\<close> (\<open>hocmesh-core/src/limits.rs\<close>, \<open>hardware.rs\<close>, \<open>resources.rs\<close>): what an operator lends, its file, the
    description of a machine, and the counted permits.  The locale \<open>permits\<close> is the contract of one budget of a pool; it is
    interpreted on the cores, the memory and the device memory.
  \<^item> \<open>Daemon\<close> (\<open>hocmesh-node/src/control.rs\<close>, \<open>daemon.rs\<close>, \<open>Command::Daemon\<close> of \<open>main.rs\<close>): the state of a running node, its control
    surface, heartbeats, the turns of its workers, measuring passes, and how a model is brought to the node and run.
  \<^item> \<open>Scenario\<close>: the concrete keys, sets and chains on which the properties are exercised.

  \<^bold>\<open>How code is modelled.\<close>  A struct is a record, an enum a datatype, a table or ordered map a finite map, and a fallible function
  returns a sum whose left side names the error.  Integers are naturals or integers with the wrapping, saturating or checked
  operation of the source written out, words where bits matter.  The clock, random challenges and the answers of
  other machines are arguments, so a theorem holds for all of them.  A handler of the coordinator is cut where it gives its
  database connection back or waits for the network: each stretch is a definition, the handler is their composition, and an interleaving
  of requests is a sequence of stretches.  Loops are structural or have a termination measure; \<open>refresh_set\<close>, which may
  not end, takes fuel: \<open>refresh_set_returns\<close> says how much is enough when seats serve what they are asked for, and
  \<open>refresh_set_spins\<close> that none is when one does not.

  \<^bold>\<open>What is shown.\<close>  The ledger: an audited chain is a sound, conserved book; escrow is the price of the open shards; nothing is settled twice;
  what a validator signs it can commit; two certificates for one height agree; an attempt against a caught-up quorum settles; what a client
  believes a quorum has signed.  The coordinator: a rebuilt schedule is the one the chain implies, and rebuilding again changes nothing; a signed request
  is good once; a poll leases a free shard nobody else holds, never of the node's own job, for long enough; ownership is unique and moves only with its
  owner; credit is conserved by requests in sequence.  The scheduler: scores are bounded however sums round, and age
  beats fit.  Inference: a plan the planner makes is valid and it makes one whenever it can; what is escrowed for a job is certified, its batches stay
  what was certified however requests interleave, and what is proposed for a delivered batch settles.  Model files: headers round-trip, truncation is recognised, slices partition the model and chunks cover exactly the bytes
  asked for; a model that is imported, served and seeded is the same file.  The node: work in flight never exceeds what was lent, frames
  of a stream come out in order, and a change of the limits comes to the same as a restart.  Where the code does not do what its comments say, the theorem states what it does: empty batches that
  are signed and cannot be applied, a client that follows one certificate forever, a rebuild that fails after a membership change, a
  refund paid twice in a race, a paid shard that is reopened, a refund recovered as a reward, a window that hides owned work, a starved
  shard that is passed over, a batch that is answered and never paid, accelerators that are found and never offered, a memory limit that is advertised and
  not enforced, frames of two requests that are delivered in the wrong order.

  \<^bold>\<open>Not modelled.\<close>  HTTP, sockets, the other commands of the command line, the desktop, load tests and installation (input and output
  only); failures of SQLite other than the constraints of its schema; key files; the probes and benchmarks of a machine, whose answers are
  arguments; downloads from a model hub; tensor kernels, quantised formats and GPU code, which are floating-point arithmetic on
  hardware the model has no account of.
\<close>

section \<open>The ledger as a whole\<close>

text \<open>C1.  A store whose chain passes \<open>audit\<close> holds the state its chain says, up to the digest every validator
  signs: a sound book (CU conserved in total, no account but the issuance account below zero, and that one
  never below the limit of the set), in which every balance is the sum of the postings of the chain, with
  exactly the claims of the chain, each made once, over an unbroken chain from \<open>GENESIS\<close> to the
  reported head.\<close>

theorem audit_sound:
  assumes "audit c db vset = Inr head" and "certs = certificates_from db 1 None"
    and "txs = concat (map cert_txs certs)"
    and "validate_validator_set vset = Inr ()" and "set_community_issuance_limit_mcu vset \<le> i64_max"
    and "\<forall>t\<in>set txs. tx_typed t"
  shows "\<exists>s. digest c s = digest c (store_state db) \<and>
     sound_book (set_community_issuance_limit_mcu vset) (book_of s) \<and>
     book_of s = net (concat (map tx_postings txs)) \<and>
     fset (ls_claims s) = claim_key ` set txs \<and> distinct (map claim_key txs) \<and>
     chained 0 GENESIS certs \<and> (lh_sequence head, lh_entry_hash head) = chain_end 0 GENESIS certs"
proof -
  let ?limit = "set_community_issuance_limit_mcu vset"
  have pos: "0 < ?limit" using assms(4) by (simp add: validate_validator_set_ok)
  from assms(1,2) obtain seq prev s act where
    r: "fold_result (audit_certificate c) certs (0, GENESIS, default_state, vset) = Inr (seq, prev, s, act)"
    and d: "digest c s = digest c (store_state db)" and h: "lh_sequence head = seq" "lh_entry_hash head = prev"
    by (auto simp: audit_def audit_from_def audit_start_def Let_def split: if_splits)
  have z: "book_of default_state = (\<lambda>_. 0)" "fset (ls_claims default_state) = {}"
    by (simp_all add: book_of_def default_state_def)
  have "chained 0 GENESIS certs \<and> (seq, prev) = chain_end 0 GENESIS certs \<and>
    sound_book ?limit (book_of s) \<and>
    book_of s = (\<lambda>a. book_of default_state a + net (concat (map tx_postings txs)) a) \<and>
    fset (ls_claims s) = fset (ls_claims default_state) \<union> claim_key ` set txs \<and>
    distinct (map claim_key txs) \<and> claim_key ` set txs \<inter> fset (ls_claims default_state) = {}"
    unfolding assms(3)
    by (rule audit_certificates_ok[OF r])
       (use assms(3,5,6) pos in \<open>simp_all add: z(1) sound_book_empty\<close>)
  with d h z show ?thesis by auto
qed

theorem audit_sound_witness:
  "\<exists>s. digest demo s = digest demo (store_state store1) \<and> sound_book 1000 (book_of s)"
  using audit_sound[OF audit_store1 refl refl demo_set_valid]
  by (simp add: certificates_from_def store1_def demo_set_def range_defs) blast

text \<open>C2.  In an audited chain, what a compute job still holds in escrow is exactly the price of those shards
  of its split that neither a reward nor a refund has settled: nothing leaks out of an escrow, and every
  open shard can still be paid.\<close>

theorem audited_escrow:
  assumes "audit c db vset = Inr head"
    and "txs = concat (map cert_txs (certificates_from db 1 None))"
    and "validate_validator_set vset = Inr ()" "set_community_issuance_limit_mcu vset \<le> i64_max"
    and "\<forall>t\<in>set txs. tx_typed t \<and> shards_ok t"
    and "t \<in> set txs" "reserves t = Some (j, whole, n)"
    and "settled = {i. \<exists>u\<in>set txs. settles u = Some (j, i)}"
  shows "net (concat (map tx_postings txs)) (escrow_account j) =
    (\<Sum>i | i < length (split_work whole n) \<and> i \<notin> settled. work_cost_mcu (split_work whole n ! i))"
  by (rule audited_escrow_balance[OF assms])

theorem audited_escrow_witness:
  "net (concat (map tx_postings (concat (map cert_txs (certificates_from store1 1 None))))) (escrow_account ''j1'') =
   (\<Sum>i | i < length (split_work demo_work 2) \<and> i \<notin> {}. work_cost_mcu (split_work demo_work 2 ! i))"
  by (rule audited_escrow[OF audit_store1 refl demo_set_valid, where t = demo_reserve])
     (simp_all add: certificates_from_def store1_def demo_set_def range_defs reserves_def shards_ok_def settles_def)



section \<open>The validator\<close>

text \<open>C4.  What a validator signs, it can commit: once \<open>propose\<close> has put its name behind an entry, any certificate
  for that entry that verifies is applied by \<open>commit\<close>, provided the stored balances are sound, no other
  entry has the same hash, and the second challenge, drawn from the signatures, does not catch a result the
  first one let through.  (Membership changes are left out: a store never applies an unvouched one.)\<close>

theorem signed_entry_commits:
  assumes "proposed_entry c a r = Inr (e, db')" and "chain_inv (va_store a)"
    and "limit = \<bar>set_community_issuance_limit_mcu (va_set a)\<bar>" "limit \<le> i64_max"
    and "sound_book limit (balance (va_store a))"
    and "qc_entry cert = e" "verify_certificate c cert (va_set a) = Inr ()"
    and "\<forall>t\<in>set (pp_transactions r). tx_typed t \<and> witness_holds c (en_previous_hash e) (qc_signatures cert) t"
    and "\<forall>old\<in>set (db_certificates (va_store a)). cert_hash old \<noteq> en_entry_hash e"
  shows "vt_accepted (snd (propose c a r)) \<and>
    (\<exists>a2 resp. commit c fetch (fst (propose c a r)) cert = (a2, Inr resp) \<and> cr_committed resp \<and>
       lh_sequence (cr_head resp) = pp_sequence r \<and> lh_entry_hash (cr_head resp) = en_entry_hash e)"
  by (rule propose_then_commit[OF assms])

theorem signed_entry_commits_witness:
  "\<exists>a2 resp. commit demo (\<lambda>_ _ _. None) (fst (propose demo demo_app demo_request)) cert1 = (a2, Inr resp) \<and>
     lh_sequence (cr_head resp) = 1"
proof -
  obtain db' where p: "proposed_entry demo demo_app demo_request = Inr (qc_entry cert1, db')" using demo_proposed by blast
  have "verify_certificate demo cert1 demo_set = Inr ()" unfolding cert1_def by (rule demo_verify) simp_all
  then have "vt_accepted (snd (propose demo demo_app demo_request)) \<and>
    (\<exists>a2 resp. commit demo (\<lambda>_ _ _. None) (fst (propose demo demo_app demo_request)) cert1 = (a2, Inr resp) \<and>
       cr_committed resp \<and> lh_sequence (cr_head resp) = pp_sequence demo_request \<and>
       lh_entry_hash (cr_head resp) = en_entry_hash (qc_entry cert1))"
    by (intro signed_entry_commits[OF p _ refl])
       (simp_all add: reach_chain_inv[OF store_reach.init] sound_book_empty witness_holds_def range_defs)
  then show ?thesis by auto
qed

text \<open>C5.  An entry a validator has signed is handed back to every later proposer: a prepare under a higher ballot
  is promised and answered with the very transactions that were signed.\<close>

theorem signed_entry_handed_back:
  assumes "proposed_entry c a r = Inr (e, db')" "outranks b (pp_ballot r)"
    and "vote = snd (prepare c (fst (propose c a r)) \<lparr> pq_sequence = pp_sequence r, pq_ballot = b \<rparr>)"
  shows "pv_promised vote \<and> pv_promised_ballot vote = Some b \<and>
    pv_accepted vote = Some \<lparr> acp_ballot = pp_ballot r, acp_entry_hash = en_entry_hash e,
                              acp_transactions = pp_transactions r \<rparr>"
proof -
  note pe = proposed_entry_ok[OF assms(1)] and fr = accept_ballot_frame[OF proposed_entry_ok(5)[OF assms(1)]]
  have a': "fst (propose c a r) = a\<lparr> va_store := db' \<rparr>" using assms(1) by (simp add: propose_def Let_def)
  have "app_height (a\<lparr> va_store := db' \<rparr>) = app_height a" by (simp add: fr(1))
  with pe(1) fr(2) assms(2) show ?thesis unfolding assms(3) a'
    by (simp add: prepare_def promise_def held_ballot_def promised_ballot_def Let_def outranks_asym)
       (simp add: fr(1) outranks_asym is_ok_def)
qed

theorem signed_entry_handed_back_witness:
  "pv_promised (snd (prepare demo (fst (propose demo demo_app demo_request))
     \<lparr> pq_sequence = 1, pq_ballot = \<lparr> bl_number = 2, bl_proposer = ''q'' \<rparr> \<rparr>))"
proof -
  obtain db' where p: "proposed_entry demo demo_app demo_request = Inr (qc_entry cert1, db')" using demo_proposed by blast
  show ?thesis using signed_entry_handed_back[OF p _ refl, of "\<lparr> bl_number = 2, bl_proposer = ''q'' \<rparr>"]
    by (simp add: outranks_def demo_ballot_def)
qed

text \<open>C6.  A validator signs batches that no store will ever apply: an empty batch, or a membership change nobody
  vouched for.  Every later proposer at that height is handed the batch back.\<close>

theorem unusable_batch_signed:
  assumes "pp_transactions r = [] \<or>
      (\<exists>t e. pp_transactions r = [t] \<and> tx_evidence t = EvMembershipChange e \<and>
         validate_membership_shape t e = Inr () \<and> mc_vouches e = [] \<and> \<not> has_claim (va_store a) (claim_key t))"
    and "pp_sequence r = app_height a + 1" "pp_sequence r \<le> nat i64_max"
    and "\<forall>b. held_ballot (va_store a) (pp_sequence r) = Some b \<longrightarrow> \<not> outranks b (pp_ballot r)"
    and "fmlookup (db_votes (va_store a)) (pp_sequence r) = None"
  shows "(\<exists>e db'. proposed_entry c a r = Inr (e, db')) \<and>
    (\<forall>cert db vset db'. cert_txs cert = pp_transactions r \<longrightarrow> store_apply c db cert vset \<noteq> Inr db')"
proof
  have sq: "sqlite_sequence (app_height a + 1) = Inr (app_height a + 1)"
    using assms(2,3) by (simp add: sqlite_sequence_def i64_max_def)
  have "\<exists>db'. accept_ballot (va_store a) (app_height a + 1) (pp_ballot r) h ts = Inr db'" for h ts
    using assms(2,4,5) sq
    by (auto simp: accept_ballot_def held_ballot_def promised_ballot_def split: option.splits)
  moreover have "check_proposed c (va_store a) {} (pp_transactions r) = Inr ()"
    using assms(1) by (auto simp: validate_settlement_membership_def)
  moreover have "validate_batch c (pp_transactions r) prev bal res (va_set a) = Inr ()" for prev bal res
    using assms(1) by (auto simp: validate_batch_def batch_step_def validate_transaction_def)
  ultimately show "\<exists>e db'. proposed_entry c a r = Inr (e, db')"
    using assms(2) by (simp add: proposed_entry_def Let_def build_entry_def)
next
  show "\<forall>cert db vset db'. cert_txs cert = pp_transactions r \<longrightarrow> store_apply c db cert vset \<noteq> Inr db'"
  proof (intro allI impI notI)
    fix cert db vset db'
    assume t: "cert_txs cert = pp_transactions r" and "store_apply c db cert vset = Inr db'"
    then have v: "verify_certificate c cert vset = Inr ()"
      and ev: "\<exists>ns. fold_result (evidence_step c cert vset) (pp_transactions r) None = Inr ns"
      unfolding store_apply_ok by auto
    from v have "cert_txs cert \<noteq> []" by (auto simp: verify_certificate_def cert_txs_def Let_def split: if_splits)
    with assms(1) t ev show False by (auto simp: evidence_step_def verify_historical_evidence_def)
  qed
qed

theorem unusable_batch_signed_witness:
  "\<exists>e db'. proposed_entry demo demo_app \<lparr> pp_transactions = [], pp_sequence = 1, pp_ballot = demo_ballot \<rparr> = Inr (e, db')"
  using unusable_batch_signed[of "\<lparr> pp_transactions = [], pp_sequence = 1, pp_ballot = demo_ballot \<rparr>" demo_app demo]
  by (simp add: held_ballot_def promised_ballot_def sqlite_sequence_def i64_max_def)

end
